(* ===== verification/Rust_Std.thy ===== *)
theory Rust_Std
  imports Main "HOL-Library.Char_ord" "HOL-Library.List_Lexorder" "HOL-Library.Sublist"
    "HOL-Library.Word"
begin

text \<open>
  The part of the Rust language and of its standard library that the modelled crates use:
  results, strings, ordered maps, unsigned integer arithmetic. It also declares the collections
  of rewrite rules the component theories share.

  A Rust \<open>String\<close> is its UTF-8 encoding, a list of bytes; \<open>string\<close> is a list of 8-bit
  characters, so \<open>length\<close> is Rust's \<open>len()\<close> and the order of lists of characters is the byte
  order that \<open>str::cmp\<close> uses.
\<close>

named_theorems str_simps \<open>rewrite rules for string operations\<close>
named_theorems btm_simps \<open>rewrite rules for ordered maps\<close>

section \<open>Results\<close>

type_synonym ('e, 'a) result = "'e + 'a"

abbreviation Err :: "'e \<Rightarrow> ('e, 'a) result" where
  "Err \<equiv> Inl"

abbreviation Ok :: "'a \<Rightarrow> ('e, 'a) result" where
  "Ok \<equiv> Inr"

definition and_then :: "('e, 'a) result \<Rightarrow> ('a \<Rightarrow> ('e, 'b) result) \<Rightarrow> ('e, 'b) result" where
  "and_then r f = (case r of Inl e \<Rightarrow> Inl e | Inr a \<Rightarrow> f a)"

lemma and_then_simps [simp]:
  "and_then (Inl e) f = Inl e"
  "and_then (Inr a) f = f a"
  by (simp_all add: and_then_def)

lemma and_then_eq_Ok [simp]:
  "and_then r f = Inr b \<longleftrightarrow> (\<exists>a. r = Inr a \<and> f a = Inr b)"
  by (cases r) auto

lemma and_then_eq_Err:
  "and_then r f = Inl e \<longleftrightarrow> r = Inl e \<or> (\<exists>a. r = Inr a \<and> f a = Inl e)"
  by (cases r) auto

definition ok_or :: "'e \<Rightarrow> 'a option \<Rightarrow> ('e, 'a) result" where
  "ok_or e r = (case r of None \<Rightarrow> Err e | Some x \<Rightarrow> Ok x)"

lemma ok_or_simps [simp]:
  "ok_or e None = Err e"
  "ok_or e (Some x) = Ok x"
  by (simp_all add: ok_or_def)

lemma ok_or_eq_Ok [simp]: "ok_or e r = Inr x \<longleftrightarrow> r = Some x"
  by (cases r) auto

text \<open>\<open>iter().map(f).collect::<Result<Vec<_>>>()\<close>: the first error wins.\<close>

fun try_map :: "('a \<Rightarrow> ('e, 'b) result) \<Rightarrow> 'a list \<Rightarrow> ('e, 'b list) result" where
  "try_map f [] = Ok []"
| "try_map f (x # xs) = and_then (f x) (\<lambda>y. and_then (try_map f xs) (\<lambda>ys. Ok (y # ys)))"

lemma try_map_eq_Ok:
  "try_map f xs = Inr ys \<longleftrightarrow> list_all2 (\<lambda>x y. f x = Inr y) xs ys"
  by (induction xs arbitrary: ys) (auto simp: list_all2_Cons1)

lemma list_all2_set2: "list_all2 R xs ys \<Longrightarrow> y \<in> set ys \<Longrightarrow> \<exists>x \<in> set xs. R x y"
  by (induction rule: list_all2_induct) auto

lemma list_all2_set1: "list_all2 R xs ys \<Longrightarrow> x \<in> set xs \<Longrightarrow> \<exists>y \<in> set ys. R x y"
  by (induction rule: list_all2_induct) auto

lemma set_map_filter: "set (List.map_filter f xs) = {y. \<exists>x \<in> set xs. f x = Some y}"
  by (force simp: List.map_filter_def)

lemma those_map_iff: "those (map f xs) = Some ys \<longleftrightarrow> list_all2 (\<lambda>x y. f x = Some y) xs ys"
  by (induction xs arbitrary: ys) (auto simp: list_all2_Cons1 split: option.splits)

lemma those_map_total:
  assumes "\<And>x. x \<in> set xs \<Longrightarrow> \<exists>y. f x = Some y \<and> R x y"
  shows "\<exists>ys. those (map f xs) = Some ys \<and> list_all2 R xs ys"
  using assms
proof (induction xs)
  case (Cons x xs)
  then obtain y ys where "f x = Some y" "R x y" "those (map f xs) = Some ys" "list_all2 R xs ys" by fastforce
  then show ?case by simp
qed simp

lemma those_append_Some:
  "those (xs @ ys) = Some zs \<longleftrightarrow> (\<exists>as bs. those xs = Some as \<and> those ys = Some bs \<and> zs = as @ bs)"
proof (induction xs arbitrary: zs)
  case (Cons x xs)
  then show ?case by (cases x) auto
qed simp

section \<open>Unsigned integers\<close>

text \<open>
  Unsigned machine integers are natural numbers below \<open>2 ^ 64\<close> (\<open>u64\<close> and, on the supported
  platforms, \<open>usize\<close>); the operations that can leave that range say so.
\<close>

definition u64_max :: nat where
  "u64_max = 18446744073709551615"

definition checked_add :: "nat \<Rightarrow> nat \<Rightarrow> nat option" where
  "checked_add a b = (if a + b \<le> u64_max then Some (a + b) else None)"

definition checked_mul :: "nat \<Rightarrow> nat \<Rightarrow> nat option" where
  "checked_mul a b = (if a * b \<le> u64_max then Some (a * b) else None)"

definition saturating_add :: "nat \<Rightarrow> nat \<Rightarrow> nat" where
  "saturating_add a b = min (a + b) u64_max"

definition saturating_mul :: "nat \<Rightarrow> nat \<Rightarrow> nat" where
  "saturating_mul a b = min (a * b) u64_max"

section \<open>Strings\<close>

subsection \<open>Prefixes, suffixes and substrings\<close>

definition starts_with :: "string \<Rightarrow> string \<Rightarrow> bool" where
  "starts_with s p = prefix p s"

definition ends_with :: "string \<Rightarrow> string \<Rightarrow> bool" where
  "ends_with s p = suffix p s"

definition strip_prefix :: "string \<Rightarrow> string \<Rightarrow> string option" where
  "strip_prefix p s = (if prefix p s then Some (drop (length p) s) else None)"

lemma strip_prefix_eq_Some [str_simps]:
  "strip_prefix p s = Some r \<longleftrightarrow> s = p @ r"
  by (auto simp: strip_prefix_def prefix_def)

lemma strip_prefix_eq_None [str_simps]:
  "strip_prefix p s = None \<longleftrightarrow> \<not> prefix p s"
  by (simp add: strip_prefix_def)

text \<open>\<open>str::find\<close> with a string pattern: the index of the leftmost occurrence.\<close>

fun find_sub :: "string \<Rightarrow> string \<Rightarrow> nat option" where
  "find_sub p [] = (if p = [] then Some 0 else None)"
| "find_sub p (c # s) = (if prefix p (c # s) then Some 0 else map_option Suc (find_sub p s))"

lemma find_sub_SomeD:
  "find_sub p s = Some i \<Longrightarrow> \<exists>u v. s = u @ p @ v \<and> length u = i"
proof (induction p s arbitrary: i rule: find_sub.induct)
  case (1 p)
  then show ?case by (auto split: if_splits)
next
  case (2 p c s)
  show ?case
  proof (cases "prefix p (c # s)")
    case True
    with 2 show ?thesis by (auto simp: prefix_def)
  next
    case False
    with 2 obtain j where "find_sub p s = Some j" and i: "i = Suc j" by auto
    with "2.IH" False obtain u v where "s = u @ p @ v" and "length u = j" by blast
    then have "c # s = (c # u) @ p @ v" and "length (c # u) = i" using i by auto
    then show ?thesis by blast
  qed
qed

lemma find_sub_leftmost:
  "s = u @ p @ v \<Longrightarrow> \<exists>i. find_sub p s = Some i \<and> i \<le> length u"
proof (induction p s arbitrary: u rule: find_sub.induct)
  case (1 p)
  then show ?case by auto
next
  case (2 p c s)
  show ?case
  proof (cases "prefix p (c # s)")
    case True
    then show ?thesis by auto
  next
    case False
    with "2.prems" obtain u' where "u = c # u'" and s: "s = u' @ p @ v"
      by (cases u) auto
    with "2.IH"[OF False s] False show ?thesis by auto
  qed
qed

subsection \<open>Splitting and joining\<close>

text \<open>\<open>str::split\<close> with a character predicate; it always yields at least one part.\<close>

fun split_on :: "('a \<Rightarrow> bool) \<Rightarrow> 'a list \<Rightarrow> 'a list list" where
  "split_on P [] = [[]]"
| "split_on P (c # s) =
     (if P c then [] # split_on P s
      else (case split_on P s of [] \<Rightarrow> [[c]] | part # parts \<Rightarrow> (c # part) # parts))"

lemma split_on_not_Nil [simp]: "split_on P s \<noteq> []"
  by (induction s) (auto split: list.splits)

lemma split_on_none: "\<not> (\<exists>c \<in> set s. P c) \<Longrightarrow> split_on P s = [s]"
  by (induction s) auto

lemma split_on_cong: "(\<And>c. c \<in> set s \<Longrightarrow> P c = Q c) \<Longrightarrow> split_on P s = split_on Q s"
  by (induction s) auto

lemma split_on_no_sep: "part \<in> set (split_on P s) \<Longrightarrow> c \<in> set part \<Longrightarrow> \<not> P c"
  by (induction s arbitrary: part) (fastforce split: if_splits list.splits)+

lemma split_on_char_subset: "part \<in> set (split_on P s) \<Longrightarrow> set part \<subseteq> set s"
proof (induction s arbitrary: part)
  case Nil
  then show ?case by simp
next
  case (Cons c s)
  then show ?case
    by (fastforce split: if_splits list.splits)
qed

lemma length_split_on: "length (split_on P s) = Suc (length (filter P s))"
  by (induction s) (auto split: list.splits)

fun join :: "string \<Rightarrow> string list \<Rightarrow> string" where
  "join sep [] = []"
| "join sep [x] = x"
| "join sep (x # y # xs) = x @ sep @ join sep (y # xs)"

lemma join_Cons: "xs \<noteq> [] \<Longrightarrow> join sep (x # xs) = x @ sep @ join sep xs"
  by (cases xs) auto

lemma join_split_on: "join [c] (split_on (\<lambda>d. d = c) s) = s"
proof (induction s)
  case Nil
  then show ?case by simp
next
  case (Cons d s)
  show ?case
  proof (cases "split_on (\<lambda>d. d = c) s")
    case Nil
    then show ?thesis by simp
  next
    case (Cons p ps)
    with Cons.IH show ?thesis by (cases ps) auto
  qed
qed

text \<open>\<open>str::split_once\<close> at the first occurrence of a character.\<close>

definition split_once :: "char \<Rightarrow> string \<Rightarrow> (string \<times> string) option" where
  "split_once c s =
     (if c \<in> set s
      then Some (takeWhile (\<lambda>d. d \<noteq> c) s, drop 1 (dropWhile (\<lambda>d. d \<noteq> c) s))
      else None)"

subsection \<open>White space\<close>

text \<open>
  The UTF-8 encodings of the characters with the Unicode property \<open>White_Space\<close>, which
  \<open>char::is_whitespace\<close> tests and \<open>str::trim\<close> removes.
\<close>

definition whitespace_codes :: "string list" where
  "whitespace_codes = map (map char_of)
     [[9 :: nat], [10], [11], [12], [13], [32],
      [0xC2, 0x85], [0xC2, 0xA0], [0xE1, 0x9A, 0x80],
      [0xE2, 0x80, 0x80], [0xE2, 0x80, 0x81], [0xE2, 0x80, 0x82], [0xE2, 0x80, 0x83],
      [0xE2, 0x80, 0x84], [0xE2, 0x80, 0x85], [0xE2, 0x80, 0x86], [0xE2, 0x80, 0x87],
      [0xE2, 0x80, 0x88], [0xE2, 0x80, 0x89], [0xE2, 0x80, 0x8A],
      [0xE2, 0x80, 0xA8], [0xE2, 0x80, 0xA9], [0xE2, 0x80, 0xAF],
      [0xE2, 0x81, 0x9F], [0xE3, 0x80, 0x80]]"

text \<open>\<open>str::trim_start_matches\<close> and its mirror image for a list of patterns.\<close>

function trim_start_codes :: "string list \<Rightarrow> string \<Rightarrow> string" where
  "trim_start_codes ps s =
     (case find (\<lambda>p. p \<noteq> [] \<and> prefix p s) ps of
        None \<Rightarrow> s
      | Some p \<Rightarrow> trim_start_codes ps (drop (length p) s))"
  by pat_completeness auto
termination
proof (relation "measure (\<lambda>(ps, s). length s)")
  fix ps :: "string list" and s p
  assume "find (\<lambda>p. p \<noteq> [] \<and> prefix p s) ps = Some p"
  then have "p \<noteq> []" and "prefix p s" by (auto simp: find_Some_iff)
  then show "((ps, drop (length p) s), (ps, s)) \<in> measure (\<lambda>(ps, s). length s)"
    by (auto simp: prefix_def)
qed simp

declare trim_start_codes.simps [simp del]

definition trim_end_codes :: "string list \<Rightarrow> string \<Rightarrow> string" where
  "trim_end_codes ps s = rev (trim_start_codes (map rev ps) (rev s))"

definition trim_start :: "string \<Rightarrow> string" where
  "trim_start s = trim_start_codes whitespace_codes s"

definition trim_end :: "string \<Rightarrow> string" where
  "trim_end s = trim_end_codes whitespace_codes s"

definition trim :: "string \<Rightarrow> string" where
  "trim s = trim_end (trim_start s)"

definition is_blank :: "string \<Rightarrow> bool" where
  "is_blank s \<longleftrightarrow> trim s = []"

lemma trim_start_codes_suffix: "suffix (trim_start_codes ps s) s"
proof (induction ps s rule: trim_start_codes.induct)
  case (1 ps s)
  show ?case
  proof (cases "find (\<lambda>p. p \<noteq> [] \<and> prefix p s) ps")
    case None
    then show ?thesis by (simp add: trim_start_codes.simps)
  next
    case (Some p)
    with 1 have "suffix (trim_start_codes ps (drop (length p) s)) (drop (length p) s)" by simp
    then show ?thesis
      using Some suffix_drop suffix_order.trans by (subst trim_start_codes.simps) fastforce
  qed
qed

lemma trim_start_codes_id:
  "(\<And>p. p \<in> set ps \<Longrightarrow> p \<noteq> [] \<Longrightarrow> \<not> prefix p s) \<Longrightarrow> trim_start_codes ps s = s"
  by (subst trim_start_codes.simps) (auto simp: find_None_iff find_Some_iff split: option.splits)

lemma trim_start_codes_Nil [simp]: "trim_start_codes ps [] = []"
  by (rule trim_start_codes_id) auto

lemma trim_Nil [simp]: "trim [] = []"
  by (simp add: trim_def trim_start_def trim_end_def trim_end_codes_def)

text \<open>A string whose first and last bytes are not white space is its own trim.\<close>

definition ws_free :: "char \<Rightarrow> bool" where
  "ws_free c \<longleftrightarrow> of_char c < (128 :: nat) \<and> [c] \<notin> set whitespace_codes"

lemma ws_free_graph: "of_char c > (32 :: nat) \<Longrightarrow> of_char c < (127 :: nat) \<Longrightarrow> ws_free c"
  by (auto simp: ws_free_def whitespace_codes_def)

lemma ws_free_prefix:
  assumes "ws_free c" and "p \<in> set whitespace_codes"
  shows "\<not> prefix p (c # s)"
proof
  assume "prefix p (c # s)"
  with assms(2) obtain q where "p = c # q"
    by (cases p) (auto simp: whitespace_codes_def)
  with assms show False
    by (auto simp: whitespace_codes_def ws_free_def)
qed

lemma ws_free_rev_prefix:
  assumes "ws_free c" and "p \<in> set (map rev whitespace_codes)"
  shows "\<not> prefix p (c # s)"
proof
  assume "prefix p (c # s)"
  with assms(2) obtain q where "p = c # q"
    by (cases p) (auto simp: whitespace_codes_def)
  with assms show False
    by (auto simp: whitespace_codes_def ws_free_def)
qed

lemma trim_id:
  assumes "s \<noteq> []" and "ws_free (hd s)" and "ws_free (last s)"
  shows "trim s = s"
proof -
  from assms(1) obtain c r where s: "s = c # r" by (cases s) auto
  from assms(1) have rs: "rev s = last s # rev (butlast s)"
    by (metis append_butlast_last_id rev.simps(2) rev_rev_ident)
  have "trim_start s = s"
    unfolding trim_start_def using assms(2) s ws_free_prefix
    by (intro trim_start_codes_id) auto
  moreover have "trim_start_codes (map rev whitespace_codes) (rev s) = rev s"
    unfolding rs using assms(3) by (intro trim_start_codes_id ws_free_rev_prefix)
  then have "trim_end s = s"
    by (simp add: trim_end_def trim_end_codes_def)
  ultimately show ?thesis by (simp add: trim_def)
qed

subsection \<open>Numbers and debug output\<close>

definition digit_char :: "nat \<Rightarrow> char" where
  "digit_char d = char_of (48 + d)"

fun show_nat :: "nat \<Rightarrow> string" where
  "show_nat n = (if n < 10 then [digit_char n] else show_nat (n div 10) @ [digit_char (n mod 10)])"

declare show_nat.simps [simp del]

definition is_ascii_digit :: "char \<Rightarrow> bool" where
  "is_ascii_digit c \<longleftrightarrow> of_char c \<ge> (48 :: nat) \<and> of_char c \<le> (57 :: nat)"

definition is_ascii_alphabetic :: "char \<Rightarrow> bool" where
  "is_ascii_alphabetic c \<longleftrightarrow>
     (of_char c \<ge> (65 :: nat) \<and> of_char c \<le> (90 :: nat)) \<or>
     (of_char c \<ge> (97 :: nat) \<and> of_char c \<le> (122 :: nat))"

definition is_ascii_alphanumeric :: "char \<Rightarrow> bool" where
  "is_ascii_alphanumeric c \<longleftrightarrow> is_ascii_alphabetic c \<or> is_ascii_digit c"

definition digits_value :: "string \<Rightarrow> nat" where
  "digits_value ds = foldl (\<lambda>v c. v * 10 + (of_char c - 48)) 0 ds"

text \<open>
  \<open>str::parse::<u64>\<close> on a string of ASCII digits: the empty string and a value above
  \<open>u64::MAX\<close> are errors.
\<close>

definition parse_u64_digits :: "string \<Rightarrow> nat option" where
  "parse_u64_digits ds =
     (if ds = [] then None
      else if digits_value ds \<le> u64_max then Some (digits_value ds) else None)"

lemma digit_char_digit [simp]: "d < 10 \<Longrightarrow> is_ascii_digit (digit_char d)"
  by (simp add: is_ascii_digit_def digit_char_def)

lemma of_char_digit_char [simp]: "d < 10 \<Longrightarrow> of_char (digit_char d) = 48 + d"
  by (simp add: digit_char_def)

lemma show_nat_digits: "c \<in> set (show_nat n) \<Longrightarrow> is_ascii_digit c"
proof (induction n rule: show_nat.induct)
  case (1 n)
  then show ?case
    by (cases "n < 10") (auto simp: show_nat.simps[of n])
qed

lemma show_nat_not_Nil [simp]: "show_nat n \<noteq> []"
  by (subst show_nat.simps) simp

lemma digits_value_snoc: "digits_value (ds @ [c]) = digits_value ds * 10 + (of_char c - 48)"
  by (simp add: digits_value_def)

lemma digits_value_show_nat [simp]: "digits_value (show_nat n) = n"
proof (induction n rule: show_nat.induct)
  case (1 n)
  show ?case
  proof (cases "n < 10")
    case True
    then show ?thesis by (subst show_nat.simps) (simp add: digits_value_def)
  next
    case False
    with 1 show ?thesis by (subst show_nat.simps) (simp add: digits_value_snoc)
  qed
qed

lemma show_nat_inj: "show_nat m = show_nat n \<Longrightarrow> m = n"
  by (metis digits_value_show_nat)

text \<open>
  Debug output of a string (\<open>{:?}\<close>): quoted, with the characters that Rust escapes among the
  ASCII ones. Characters beyond ASCII are printed as they are.
\<close>

definition hex_digit :: "nat \<Rightarrow> char" where
  "hex_digit d = (if d < 10 then char_of (48 + d) else char_of (87 + d))"

fun show_hex :: "nat \<Rightarrow> string" where
  "show_hex n = (if n < 16 then [hex_digit n] else show_hex (n div 16) @ [hex_digit (n mod 16)])"

declare show_hex.simps [simp del]

definition debug_char :: "char \<Rightarrow> string" where
  "debug_char c =
     (let b = of_char c :: nat in
      if b = 34 then [char_of (92 :: nat), c]
      else if b = 92 then [c, c]
      else if b = 10 then [char_of (92 :: nat), CHR ''n'']
      else if b = 13 then [char_of (92 :: nat), CHR ''r'']
      else if b = 9 then [char_of (92 :: nat), CHR ''t'']
      else if b = 0 then [char_of (92 :: nat), CHR ''0'']
      else if b < 32 \<or> b = 127
        then [char_of (92 :: nat), CHR ''u'', CHR ''{''] @ show_hex b @ [CHR ''}'']
      else [c])"

definition debug_str :: "string \<Rightarrow> string" where
  "debug_str s = [char_of (34 :: nat)] @ concat (map debug_char s) @ [char_of (34 :: nat)]"

subsection \<open>Words separated by white space\<close>

text \<open>\<open>splitn(2, char::is_whitespace)\<close>: the text before the first white space and the rest.\<close>

fun split_first_ws :: "string \<Rightarrow> string \<times> string option" where
  "split_first_ws [] = ([], None)"
| "split_first_ws (c # s) =
     (case find (\<lambda>p. prefix p (c # s)) whitespace_codes of
        Some p \<Rightarrow> ([], Some (drop (length p) (c # s)))
      | None \<Rightarrow> (let (word, rest) = split_first_ws s in (c # word, rest)))"

lemma whitespace_codes_not_Nil: "p \<in> set whitespace_codes \<Longrightarrow> p \<noteq> []"
  by (auto simp: whitespace_codes_def)

lemma split_first_ws_shorter: "split_first_ws s = (w, Some r) \<Longrightarrow> length r < length s"
proof (induction s arbitrary: w r)
  case Nil
  then show ?case by simp
next
  case (Cons c s)
  show ?case
  proof (cases "find (\<lambda>p. prefix p (c # s)) whitespace_codes")
    case None
    with Cons show ?thesis
      by (cases "split_first_ws s") (auto intro: less_SucI)
  next
    case (Some p)
    then have "p \<in> set whitespace_codes" by (auto simp: find_Some_iff)
    then have "p \<noteq> []" by (rule whitespace_codes_not_Nil)
    with Cons.prems Some show ?thesis by (cases p) auto
  qed
qed

lemma trim_start_length_le: "length (trim_start s) \<le> length s"
  unfolding trim_start_def by (rule suffix_length_le [OF trim_start_codes_suffix])

function split_whitespace :: "string \<Rightarrow> string list" where
  "split_whitespace s =
     (let t = trim_start s in
      if t = [] then []
      else case split_first_ws t of
        (word, None) \<Rightarrow> [word]
      | (word, Some rest) \<Rightarrow> word # split_whitespace rest)"
  by pat_completeness auto
termination
  by (relation "measure length")
    (auto dest!: sym [of "(_, _)"] split_first_ws_shorter
      intro: order.strict_trans2 [OF _ trim_start_length_le])

declare split_whitespace.simps [simp del]

subsection \<open>Character boundaries\<close>

text \<open>\<open>str::is_char_boundary\<close>: not inside a multi-byte character.\<close>

definition is_char_boundary :: "string \<Rightarrow> nat \<Rightarrow> bool" where
  "is_char_boundary s i \<longleftrightarrow>
     i = 0 \<or> i = length s \<or>
     (i < length s \<and> \<not> ((128 :: nat) \<le> of_char (s ! i) \<and> of_char (s ! i) < (192 :: nat)))"

text \<open>The loop that moves a cut down to a boundary.\<close>

fun floor_boundary :: "string \<Rightarrow> nat \<Rightarrow> nat" where
  "floor_boundary s 0 = 0"
| "floor_boundary s (Suc i) =
     (if \<not> is_char_boundary s (Suc i) then floor_boundary s i else Suc i)"

lemma floor_boundary_le: "floor_boundary s i \<le> i"
  by (induction i) (auto intro: le_SucI)

lemma floor_boundary_boundary: "is_char_boundary s (floor_boundary s i)"
  by (induction i) (auto simp: is_char_boundary_def)

subsection \<open>Lines\<close>

text \<open>\<open>str::lines\<close>: and \<open>BufRead::lines\<close> split at line feeds, without a final empty line, a trailing return dropped.\<close>

definition lf :: char where
  "lf = char_of (10 :: nat)"

definition cr :: char where
  "cr = char_of (13 :: nat)"

definition strip_cr :: "string \<Rightarrow> string" where
  "strip_cr l = (if l \<noteq> [] \<and> last l = cr then butlast l else l)"

definition str_lines :: "string \<Rightarrow> string list" where
  "str_lines s =
     (let parts = split_on (\<lambda>c. c = lf) s in
      let complete = map strip_cr (butlast parts) in
      if last parts = [] then complete else complete @ [last parts])"

lemma split_on_append_sep:
  "\<not> (\<exists>c \<in> set s. P c) \<Longrightarrow> P x \<Longrightarrow> split_on P (s @ x # t) = s # split_on P t"
  by (induction s) auto

text \<open>A file of terminated lines reads back as those lines.\<close>

definition line_body :: "string \<Rightarrow> bool" where
  "line_body l \<longleftrightarrow> lf \<notin> set l \<and> (l = [] \<or> last l \<noteq> cr)"

lemma strip_cr_line_body [simp]: "line_body l \<Longrightarrow> strip_cr l = l"
  by (auto simp: line_body_def strip_cr_def)

lemma split_on_terminated:
  "\<forall>l \<in> set ls. lf \<notin> set l \<Longrightarrow>
   split_on (\<lambda>c. c = lf) (concat (map (\<lambda>l. l @ [lf]) ls) @ t) = ls @ split_on (\<lambda>c. c = lf) t"
proof (induction ls)
  case (Cons l ls)
  then have "\<not> (\<exists>c \<in> set l. c = lf)" by auto
  with Cons show ?case by (simp add: split_on_append_sep)
qed simp

lemma str_lines_terminated:
  assumes "\<forall>l \<in> set ls. line_body l"
  shows "str_lines (concat (map (\<lambda>l. l @ [lf]) ls)) = ls"
proof -
  have "split_on (\<lambda>c. c = lf) (concat (map (\<lambda>l. l @ [lf]) ls)) = ls @ [[]]"
    using split_on_terminated [of ls "[]"] assms by (auto simp: line_body_def)
  moreover have "map strip_cr ls = ls"
    using assms by (intro map_idI) simp
  ultimately show ?thesis by (simp add: str_lines_def)
qed

lemma trim_start_codes_rev_lf:
  "trim_start_codes (map rev whitespace_codes) (lf # t) = trim_start_codes (map rev whitespace_codes) t"
  by (subst trim_start_codes.simps) (simp add: whitespace_codes_def lf_def)

lemma trim_line:
  assumes "\<forall>c \<in> set s. ws_free c"
  shows "trim (s @ [lf]) = s"
proof (cases "s = []")
  case True
  have "trim_start_codes whitespace_codes [lf] = []"
    by (subst trim_start_codes.simps) (simp add: whitespace_codes_def lf_def)
  with True show ?thesis
    by (simp add: trim_def trim_start_def trim_end_def trim_end_codes_def)
next
  case False
  then obtain c r where s: "s = c # r" by (cases s) auto
  have start: "trim_start (s @ [lf]) = s @ [lf]"
    unfolding trim_start_def using assms s ws_free_prefix by (intro trim_start_codes_id) auto
  have "trim_end (s @ [lf]) = trim_end s"
    by (simp add: trim_end_def trim_end_codes_def trim_start_codes_rev_lf)
  moreover have "trim_start s = s"
    unfolding trim_start_def using assms s ws_free_prefix by (intro trim_start_codes_id) auto
  moreover have "trim s = s"
    using assms False by (intro trim_id) auto
  ultimately show ?thesis
    using start by (simp add: trim_def)
qed

text \<open>\<open>str::from_utf8\<close> accepts exactly the well-formed byte sequences of RFC 3629.\<close>

definition utf8_cont :: "nat \<Rightarrow> nat \<Rightarrow> char \<Rightarrow> bool" where
  "utf8_cont lo hi c \<longleftrightarrow> lo \<le> of_char c \<and> of_char c \<le> hi"

fun valid_utf8 :: "string \<Rightarrow> bool" where
  "valid_utf8 [] = True"
| "valid_utf8 (a # s) =
     (let x = of_char a :: nat in
      if x < 128 then valid_utf8 s
      else if 194 \<le> x \<and> x \<le> 223 then
        (case s of b # t \<Rightarrow> utf8_cont 128 191 b \<and> valid_utf8 t | _ \<Rightarrow> False)
      else if 224 \<le> x \<and> x \<le> 239 then
        (case s of b # c # t \<Rightarrow>
            utf8_cont (if x = 224 then 160 else 128) (if x = 237 then 159 else 191) b \<and>
            utf8_cont 128 191 c \<and> valid_utf8 t
         | _ \<Rightarrow> False)
      else if 240 \<le> x \<and> x \<le> 244 then
        (case s of b # c # d # t \<Rightarrow>
            utf8_cont (if x = 240 then 144 else 128) (if x = 244 then 143 else 191) b \<and>
            utf8_cont 128 191 c \<and> utf8_cont 128 191 d \<and> valid_utf8 t
         | _ \<Rightarrow> False)
      else False)"

lemma valid_utf8_ascii: "\<forall>c \<in> set s. of_char c < (128 :: nat) \<Longrightarrow> valid_utf8 s"
  by (induction s) auto

section \<open>Big-endian bytes\<close>

text \<open>\<open>to_be_bytes\<close> of an integer of \<open>n\<close> bytes, and \<open>from_be_bytes\<close>.\<close>

fun be_bytes :: "nat \<Rightarrow> nat \<Rightarrow> string" where
  "be_bytes 0 k = []"
| "be_bytes (Suc n) k = be_bytes n (k div 256) @ [char_of k]"

definition be_value :: "string \<Rightarrow> nat" where
  "be_value s = foldl (\<lambda>k c. 256 * k + of_char c) 0 s"

lemma length_be_bytes [simp]: "length (be_bytes n k) = n"
  by (induction n arbitrary: k) auto

lemma be_bytes_inject: "j < 256 ^ n \<Longrightarrow> k < 256 ^ n \<Longrightarrow> be_bytes n j = be_bytes n k \<longleftrightarrow> j = k"
proof (induction n arbitrary: j k)
  case (Suc n)
  have "j div 256 < 256 ^ n" "k div 256 < 256 ^ n"
    using Suc.prems by (simp_all add: less_mult_imp_div_less mult.commute)
  then have "be_bytes (Suc n) j = be_bytes (Suc n) k \<longleftrightarrow> j div 256 = k div 256 \<and> j mod 256 = k mod 256"
    using Suc.IH by (simp add: char_of_quasi_inj)
  also have "\<dots> \<longleftrightarrow> j = k" by (metis div_mult_mod_eq)
  finally show ?case .
qed simp

lemma be_value_be_bytes: "k < 256 ^ n \<Longrightarrow> be_value (be_bytes n k) = k"
proof (induction n arbitrary: k)
  case (Suc n)
  then have "k div 256 < 256 ^ n" by (simp add: less_mult_imp_div_less mult.commute)
  with Suc.IH have "be_value (be_bytes n (k div 256)) = k div 256" .
  then show ?case by (simp add: be_value_def of_char_of)
qed (simp add: be_value_def)

lemma be_value_less: "be_value s < 256 ^ length s"
proof (induction s rule: rev_induct)
  case (snoc c s)
  have "of_char c < (256 :: nat)" by (rule nat_of_char_less_256)
  moreover have "Suc (be_value s) \<le> 256 ^ length s" using snoc by simp
  then have "256 * Suc (be_value s) \<le> 256 * 256 ^ length s" by (rule mult_left_mono) simp
  ultimately have "256 * be_value s + of_char c < 256 * 256 ^ length s" unfolding mult_Suc_right by linarith
  then show ?case by (simp add: be_value_def)
qed (simp add: be_value_def)

section \<open>Effects\<close>

text \<open>
  A call that talks to the world outside takes the world's state and returns its result with the
  new state; \<open>?\<close> on such a call is \<open>bind_w\<close>.
\<close>

type_synonym ('w, 'e, 'a) outcome = "('e, 'a) result \<times> 'w"

definition bind_w :: "('w, 'e, 'a) outcome \<Rightarrow> ('a \<Rightarrow> 'w \<Rightarrow> ('w, 'e, 'b) outcome) \<Rightarrow> ('w, 'e, 'b) outcome" where
  "bind_w m f = (case fst m of Inl e \<Rightarrow> (Inl e, snd m) | Inr a \<Rightarrow> f a (snd m))"

lemma bind_w_simps [simp]:
  "bind_w (Inl e, w) f = (Inl e, w)"
  "bind_w (Inr a, w) f = f a w"
  by (simp_all add: bind_w_def)

lemma bind_w_Ok:
  "bind_w m f = (Inr b, w') \<longleftrightarrow> (\<exists>a w. m = (Inr a, w) \<and> f a w = (Inr b, w'))"
  by (cases m; cases "fst m") (auto simp: bind_w_def)

lemma bind_w_cong [fundef_cong]:
  "m = m' \<Longrightarrow> (\<And>a w. m' = (Inr a, w) \<Longrightarrow> f a w = f' a w) \<Longrightarrow> bind_w m f = bind_w m' f'"
  by (cases m'; cases "fst m'") (auto simp: bind_w_def)

text \<open>\<open>anyhow\<close>: a context in front of a cause, as \<open>{error:#}\<close> prints the chain.\<close>

definition with_context :: "string \<Rightarrow> ('w, string, 'a) outcome \<Rightarrow> ('w, string, 'a) outcome" where
  "with_context text m = (case fst m of Inl e \<Rightarrow> (Inl (text @ '': '' @ e), snd m) | Inr a \<Rightarrow> m)"

lemma with_context_Ok [simp]: "with_context t m = (Inr a, w) \<longleftrightarrow> m = (Inr a, w)"
  by (cases m; cases "fst m") (auto simp: with_context_def)

end
