(* ===== verification/Sensitive.thy ===== *)
theory Sensitive
  imports Rust_Std
begin

text \<open>
  Sensitive paths, \<^verbatim>\<open>crates/xshell-execution/src/sensitive.rs\<close>: the pattern list, its
  normalisation, the byte-wise glob matcher and the path classifier. The lemmas say which paths a
  pattern without wildcards, a \<open>directory/**\<close> pattern and a bare name select.
\<close>

section \<open>The glob matcher\<close>

abbreviation slash :: char where
  "slash \<equiv> CHR ''/''"

abbreviation star :: char where
  "star \<equiv> CHR ''*''"

text \<open>
  \<open>t.iter().enumerate().any(|(i, c)| *c == b'/' && f(&t[i + 1..]))\<close>: some rest of the text
  after a separator satisfies \<open>f\<close>.
\<close>

fun any_after_slash :: "(string \<Rightarrow> bool) \<Rightarrow> string \<Rightarrow> bool" where
  "any_after_slash f [] = False"
| "any_after_slash f (c # t) = ((c = slash \<and> f t) \<or> any_after_slash f t)"

text \<open>The \<open>loop\<close> of the \<open>*\<close> case: advance while the next byte is not a separator.\<close>

fun star_loop :: "(string \<Rightarrow> bool) \<Rightarrow> string \<Rightarrow> bool" where
  "star_loop f [] = f []"
| "star_loop f (c # t) = (f (c # t) \<or> (c \<noteq> slash \<and> star_loop f t))"

function glob_go :: "string \<Rightarrow> string \<Rightarrow> bool" where
  "glob_go p t =
     (if p = [] then t = []
      else if p = ''/**'' then t = [] \<or> hd t = slash
      else if prefix ''/**/'' p then
        (case t of
           [] \<Rightarrow> False
         | c # t' \<Rightarrow> c = slash \<and>
             (glob_go (drop 4 p) t' \<or> any_after_slash (\<lambda>u. glob_go (drop 4 p) u) t'))
      else if prefix ''**/'' p then
        glob_go (drop 3 p) t \<or> any_after_slash (\<lambda>u. glob_go (drop 3 p) u) t
      else if p = ''**'' then True
      else if hd p = star then star_loop (\<lambda>u. glob_go (tl p) u) t
      else if hd p = CHR ''?'' then
        (case t of [] \<Rightarrow> False | c # t' \<Rightarrow> c \<noteq> slash \<and> glob_go (tl p) t')
      else
        (case t of [] \<Rightarrow> False | d # t' \<Rightarrow> hd p = d \<and> glob_go (tl p) t'))"
  by pat_completeness auto
termination
  by (relation "measure (\<lambda>(p, t). length p)") (auto simp: neq_Nil_conv)

declare glob_go.simps [simp del]

definition glob_match :: "string \<Rightarrow> string \<Rightarrow> bool" where
  "glob_match pattern text = glob_go pattern text"

section \<open>Sensitive paths\<close>

record sensitive_paths =
  sp_patterns :: "string list"

definition sp_new :: "string list \<Rightarrow> sensitive_paths" where
  "sp_new patterns =
     \<lparr>sp_patterns = filter (\<lambda>p. p \<noteq> []) (map (\<lambda>p. trim_start_codes [''./''] (trim p)) patterns)\<rparr>"

definition DEFAULT_SENSITIVE_PATTERNS :: "string list" where
  "DEFAULT_SENSITIVE_PATTERNS =
     [''.env'', ''.env.*'', ''*.pem'', ''*.key'', ''*.p12'', ''*.pfx'', ''*.jks'',
      ''*.keystore'', ''*.kdbx'', ''id_rsa'', ''id_dsa'', ''id_ecdsa'', ''id_ed25519'',
      ''*.ppk'', ''.netrc'', ''.npmrc'', ''.pypirc'', ''.git-credentials'', ''.git/config'',
      ''.ssh/**'', ''.aws/**'', ''.gnupg/**'', ''.kube/config'', ''.docker/config.json'',
      ''*.tfstate'', ''*.tfstate.*'', ''secrets.*'', ''*.secret'', ''*.secrets'']"

definition sp_default :: sensitive_paths where
  "sp_default = sp_new DEFAULT_SENSITIVE_PATTERNS"

definition sp_none :: sensitive_paths where
  "sp_none = \<lparr>sp_patterns = []\<rparr>"

text \<open>
  The path is compared without leading \<open>./\<close> and then without leading separators; the separator
  is already \<open>/\<close> on the supported platforms.
\<close>

definition strip_path :: "string \<Rightarrow> string" where
  "strip_path path = trim_start_codes [[slash]] (trim_start_codes [''./''] path)"

definition pattern_matches :: "string \<Rightarrow> string \<Rightarrow> bool" where
  "pattern_matches path pattern =
     (case strip_prefix [slash] pattern of
        Some anchored \<Rightarrow> glob_match anchored path
      | None \<Rightarrow>
          if slash \<in> set pattern then glob_match (''**/'' @ pattern) path
          else glob_match pattern (last (split_on (\<lambda>c. c = slash) path)))"

definition sp_matches :: "sensitive_paths \<Rightarrow> string \<Rightarrow> bool" where
  "sp_matches sp path = list_ex (pattern_matches (strip_path path)) (sp_patterns sp)"

section \<open>What the patterns select\<close>

definition literal :: "string \<Rightarrow> bool" where
  "literal p \<longleftrightarrow> star \<notin> set p \<and> CHR ''?'' \<notin> set p"

lemma glob_go_literal_head:
  assumes "c \<noteq> star" and "c \<noteq> CHR ''?''"
    and "c = slash \<longrightarrow> \<not> prefix ''**'' p"
  shows "glob_go (c # p) (d # t) \<longleftrightarrow> c = d \<and> glob_go p t" and "\<not> glob_go (c # p) []"
  using assms by (auto simp: glob_go.simps[of "c # p"] prefix_def)

lemma literal_tl: "literal (c # p) \<Longrightarrow> c \<noteq> star \<and> c \<noteq> CHR ''?'' \<and> literal p \<and> \<not> prefix ''**'' p"
  by (auto simp: literal_def prefix_def)

text \<open>A pattern without wildcards matches exactly itself.\<close>

lemma glob_go_literal: "literal p \<Longrightarrow> glob_go p t \<longleftrightarrow> p = t"
proof (induction p arbitrary: t)
  case Nil
  then show ?case by (auto simp: glob_go.simps)
next
  case (Cons c p)
  note h = literal_tl [OF Cons.prems]
  show ?case
  proof (cases t)
    case Nil
    with h glob_go_literal_head(2)[of c p] show ?thesis by auto
  next
    case (Cons d u)
    with h glob_go_literal_head(1)[of c p d u] Cons.IH[of u] show ?thesis by auto
  qed
qed

text \<open>\<open>dir/**\<close> matches the directory and everything below it, and nothing else.\<close>

definition under :: "string \<Rightarrow> string \<Rightarrow> bool" where
  "under dir t \<longleftrightarrow> t = dir \<or> prefix (dir @ [slash]) t"

lemma glob_go_dir:
  "literal dir \<Longrightarrow> glob_go (dir @ ''/**'') t \<longleftrightarrow> under dir t"
proof (induction dir arbitrary: t)
  case Nil
  show ?case by (cases t) (auto simp: glob_go.simps[of "''/**''"] under_def)
next
  case (Cons c dir)
  note h = literal_tl [OF Cons.prems]
  have np: "\<not> prefix ''**'' (dir @ ''/**'')"
    using h by (cases dir; cases "tl dir") (auto simp: literal_def)
  show ?case
  proof (cases t)
    case Nil
    with h np glob_go_literal_head(2)[of c "dir @ ''/**''"] show ?thesis by (auto simp: under_def)
  next
    case (Cons d u)
    with h np glob_go_literal_head(1)[of c "dir @ ''/**''" d u] Cons.IH[of u]
    show ?thesis by (auto simp: under_def)
  qed
qed

lemma any_after_slash_iff:
  "any_after_slash f t \<longleftrightarrow> (\<exists>a b. t = a @ slash # b \<and> f b)"
proof (induction t)
  case Nil
  then show ?case by simp
next
  case (Cons c t)
  show ?case
  proof
    assume "any_after_slash f (c # t)"
    then consider "c = slash" "f t" | "any_after_slash f t" by auto
    then show "\<exists>a b. c # t = a @ slash # b \<and> f b"
    proof cases
      case 1
      then have "c # t = [] @ slash # t" by simp
      with 1 show ?thesis by blast
    next
      case 2
      with Cons.IH obtain a b where "t = a @ slash # b" "f b" by blast
      then have "c # t = (c # a) @ slash # b" by simp
      with \<open>f b\<close> show ?thesis by blast
    qed
  next
    assume "\<exists>a b. c # t = a @ slash # b \<and> f b"
    then obtain a b where "c # t = a @ slash # b" "f b" by blast
    with Cons.IH show "any_after_slash f (c # t)" by (cases a) auto
  qed
qed

text \<open>A path has \<open>rest\<close> as the tail that starts at one of its components.\<close>

definition component_tail :: "string \<Rightarrow> string \<Rightarrow> bool" where
  "component_tail path rest \<longleftrightarrow> path = rest \<or> (\<exists>a. path = a @ slash # rest)"

lemma glob_go_any_depth:
  "glob_go (''**/'' @ p) t \<longleftrightarrow> (\<exists>u. component_tail t u \<and> glob_go p u)"
proof -
  have "glob_go (''**/'' @ p) t \<longleftrightarrow> glob_go p t \<or> any_after_slash (glob_go p) t"
    by (subst glob_go.simps) simp
  then show ?thesis
    by (auto simp: any_after_slash_iff component_tail_def)
qed

lemma strip_prefix_slash_None: "hd p \<noteq> slash \<Longrightarrow> p \<noteq> [] \<Longrightarrow> strip_prefix [slash] p = None"
  by (cases p) (auto simp: strip_prefix_def)

lemma pattern_matches_dir:
  assumes "literal dir" and "dir \<noteq> []" and "hd dir \<noteq> slash"
  shows "pattern_matches t (dir @ ''/**'') \<longleftrightarrow> (\<exists>u. component_tail t u \<and> under dir u)"
proof -
  have "strip_prefix [slash] (dir @ ''/**'') = None"
    using assms(2,3) by (intro strip_prefix_slash_None) auto
  moreover have "slash \<in> set (dir @ ''/**'')" by simp
  ultimately have "pattern_matches t (dir @ ''/**'') \<longleftrightarrow> glob_go (''**/'' @ (dir @ ''/**'')) t"
    by (simp add: pattern_matches_def glob_match_def)
  then show ?thesis
    by (simp add: glob_go_any_depth glob_go_dir [OF assms(1)] del: append.simps)
qed

lemma pattern_matches_name:
  assumes "literal name" and "slash \<notin> set name"
  shows "pattern_matches t name \<longleftrightarrow> last (split_on (\<lambda>c. c = slash) t) = name"
proof -
  have "strip_prefix [slash] name = None"
    using assms(2) by (auto simp: strip_prefix_def prefix_def)
  with assms show ?thesis
    by (auto simp: pattern_matches_def glob_match_def glob_go_literal)
qed

lemma normalised_pattern:
  assumes "p \<noteq> []" and "of_char (hd p) > (32 :: nat)" and "of_char (hd p) < (127 :: nat)"
    and "of_char (last p) > (32 :: nat)" and "of_char (last p) < (127 :: nat)"
    and "\<not> prefix ''./'' p"
  shows "trim_start_codes [''./''] (trim p) = p"
proof -
  have "trim p = p"
    using assms by (simp add: trim_id ws_free_graph)
  moreover have "trim_start_codes [''./''] p = p"
    using assms(6) by (intro trim_start_codes_id) simp
  ultimately show ?thesis by simp
qed

lemma sp_patterns_default: "sp_patterns sp_default = DEFAULT_SENSITIVE_PATTERNS"
  by (simp add: sp_default_def sp_new_def DEFAULT_SENSITIVE_PATTERNS_def normalised_pattern)

text \<open>
  C28. With the default patterns, everything in or below a directory named \<open>.ssh\<close>, \<open>.aws\<close> or
  \<open>.gnupg\<close>, at any depth, is sensitive, and so is every file named \<open>.env\<close>, \<open>id_rsa\<close>
  or \<open>.netrc\<close>.
\<close>

theorem default_patterns_cover_credentials:
  assumes "(dir \<in> {''.ssh'', ''.aws'', ''.gnupg''} \<and> component_tail (strip_path path) rest \<and> under dir rest)
    \<or> last (split_on (\<lambda>c. c = slash) (strip_path path)) \<in> {''.env'', ''id_rsa'', ''.netrc''}"
  shows "sp_matches sp_default path"
  using assms
proof
  assume a: "dir \<in> {''.ssh'', ''.aws'', ''.gnupg''} \<and> component_tail (strip_path path) rest \<and> under dir rest"
  then have "pattern_matches (strip_path path) (dir @ ''/**'')"
    by (subst pattern_matches_dir) (auto simp: literal_def)
  moreover have "dir @ ''/**'' \<in> set DEFAULT_SENSITIVE_PATTERNS"
    using a by (auto simp: DEFAULT_SENSITIVE_PATTERNS_def)
  ultimately show ?thesis
    by (auto simp: sp_matches_def sp_patterns_default list_ex_iff)
next
  let ?name = "last (split_on (\<lambda>c. c = slash) (strip_path path))"
  assume a: "?name \<in> {''.env'', ''id_rsa'', ''.netrc''}"
  then have "pattern_matches (strip_path path) ?name"
    by (subst pattern_matches_name) (auto simp: literal_def)
  moreover have "?name \<in> set DEFAULT_SENSITIVE_PATTERNS"
    using a by (auto simp: DEFAULT_SENSITIVE_PATTERNS_def)
  ultimately show ?thesis
    by (auto simp: sp_matches_def sp_patterns_default list_ex_iff)
qed

theorem default_patterns_cover_credentials_witness:
  "sp_matches sp_default ''/home/u/.ssh/id_ed25519.pub''"
proof (rule default_patterns_cover_credentials [where dir = "''.ssh''" and rest = "''.ssh/id_ed25519.pub''"])
  have p: "strip_path ''/home/u/.ssh/id_ed25519.pub'' = ''home/u/.ssh/id_ed25519.pub''"
    by code_simp
  have "''home/u/.ssh/id_ed25519.pub'' = ''home/u'' @ slash # ''.ssh/id_ed25519.pub''" by simp
  then have "component_tail ''home/u/.ssh/id_ed25519.pub'' ''.ssh/id_ed25519.pub''"
    unfolding component_tail_def by blast
  then show "(''.ssh'' \<in> {''.ssh'', ''.aws'', ''.gnupg''}
      \<and> component_tail (strip_path ''/home/u/.ssh/id_ed25519.pub'') ''.ssh/id_ed25519.pub''
      \<and> under ''.ssh'' ''.ssh/id_ed25519.pub'')
    \<or> last (split_on (\<lambda>c. c = slash) (strip_path ''/home/u/.ssh/id_ed25519.pub''))
        \<in> {''.env'', ''id_rsa'', ''.netrc''}"
    unfolding p by (simp add: under_def)
qed

end
