(* ===== verification/Policy.thy ===== *)
theory Policy
  imports Sensitive
begin

text \<open>
  Approval policies, \<^verbatim>\<open>crates/xshell-execution/src/policy.rs\<close>: rule entries and their
  parser, the matchers, the decision procedure of one policy and the combination of the session
  host's policy with a client's overlay. \<open>shell_words::split\<close> is a third-party function; it is
  the argument \<open>sw\<close> of the definitions that call it, an error being its display text.
\<close>

section \<open>Data\<close>

datatype approval_policy = Ask | Auto | Off

datatype policy_decision = Deny | Prompt | Run

text \<open>Decisions are ordered from strictest (\<open>derive(PartialOrd, Ord)\<close>).\<close>

instantiation policy_decision :: linorder
begin

definition less_eq_policy_decision :: "policy_decision \<Rightarrow> policy_decision \<Rightarrow> bool" where
  "less_eq_policy_decision a b \<longleftrightarrow> a = Deny \<or> (a = Prompt \<and> b \<noteq> Deny) \<or> (a = Run \<and> b = Run)"

definition less_policy_decision :: "policy_decision \<Rightarrow> policy_decision \<Rightarrow> bool" where
  "less_policy_decision a b \<longleftrightarrow> a \<le> b \<and> a \<noteq> b"

instance
proof
  fix a b c :: policy_decision
  show "a < b \<longleftrightarrow> a \<le> b \<and> \<not> b \<le> a"
    by (cases a; cases b) (simp_all add: less_policy_decision_def less_eq_policy_decision_def)
  show "a \<le> a"
    by (cases a) (simp_all add: less_eq_policy_decision_def)
  show "a \<le> b \<Longrightarrow> b \<le> c \<Longrightarrow> a \<le> c"
    by (cases a; cases b; cases c) (simp_all add: less_eq_policy_decision_def)
  show "a \<le> b \<Longrightarrow> b \<le> a \<Longrightarrow> a = b"
    by (cases a; cases b) (simp_all add: less_eq_policy_decision_def)
  show "a \<le> b \<or> b \<le> a"
    by (cases a; cases b) (simp_all add: less_eq_policy_decision_def)
qed

end

lemma decision_le_simps [simp]:
  "Deny \<le> d" "d \<le> Run" "d \<le> Deny \<longleftrightarrow> d = Deny" "Run \<le> d \<longleftrightarrow> d = Run"
  "Prompt \<le> d \<longleftrightarrow> d \<noteq> Deny" "d \<le> Prompt \<longleftrightarrow> d \<noteq> Run"
  by (cases d; simp add: less_eq_policy_decision_def)+

lemma decision_min_simps [simp]:
  "min Deny d = Deny" "min d Deny = Deny" "min Run d = d" "min d Run = d"
  by (cases d; simp add: min_def)+

lemma decision_min_Run_iff [simp]: "min a b = Run \<longleftrightarrow> a = Run \<and> b = Run"
  by (cases a; cases b; simp add: min_def)

lemma decision_min_Deny_iff [simp]: "min a b = Deny \<longleftrightarrow> a = Deny \<or> b = Deny"
  by (cases a; cases b; simp add: min_def)

record policy_config =
  pc_always_allowed :: "string list"
  pc_allowed :: "string list option"
  pc_denied :: "string list"

definition pc_is_empty :: "policy_config \<Rightarrow> bool" where
  "pc_is_empty c \<longleftrightarrow> pc_always_allowed c = [] \<and> pc_allowed c = None \<and> pc_denied c = []"

record call_facts =
  cf_tool :: string
  cf_command :: "string option"
  cf_path :: "string option"
  cf_gated :: bool
  cf_sensitive :: bool

datatype rule =
    ToolRule string
  | ShellRule "string list"
  | PathRule string string

definition PATH_TOOLS :: "string list" where
  "PATH_TOOLS = [''read_file'', ''list_directory'']"

section \<open>Parsing entries\<close>

type_synonym shell_words = "string \<Rightarrow> (string, string list) result"

definition tool_name_ok :: "string \<Rightarrow> bool" where
  "tool_name_ok tool \<longleftrightarrow>
     tool \<noteq> [] \<and> list_all (\<lambda>c. is_ascii_alphanumeric c \<or> c = CHR ''_'') tool"

definition rule_parse :: "shell_words \<Rightarrow> string \<Rightarrow> (string, rule) result" where
  "rule_parse sw entry0 =
     (let entry = trim entry0;
          (tool, argument) =
            (case split_once (CHR '':'') entry of
               Some (tool, argument) \<Rightarrow> (trim tool, Some (trim argument))
             | None \<Rightarrow> (entry, None))
      in if \<not> tool_name_ok tool
         then Err (debug_str entry @ '' does not start with a tool name'')
         else case argument of
           None \<Rightarrow> Ok (ToolRule tool)
         | Some pattern \<Rightarrow>
             if pattern = [] then Err (debug_str entry @ '' has nothing after the colon'')
             else if tool = ''run_shell'' then
               (case sw pattern of
                  Inl e \<Rightarrow> Err (debug_str entry @ '': '' @ e)
                | Inr words \<Rightarrow>
                    if words = [] then Err (debug_str entry @ '' has no command pattern'')
                    else Ok (ShellRule words))
             else if tool \<in> set PATH_TOOLS then Ok (PathRule tool pattern)
             else Err (debug_str entry @
               '': only run_shell takes a command pattern, and only '' @
               join '' and '' PATH_TOOLS @ '' take a path''))"

fun rule_tool :: "rule \<Rightarrow> string" where
  "rule_tool (ToolRule tool) = tool"
| "rule_tool (PathRule tool pattern) = tool"
| "rule_tool (ShellRule words) = ''run_shell''"

section \<open>Reading shell commands\<close>

definition SEPARATORS :: "char list" where
  "SEPARATORS = [CHR ''|'', CHR '';'', CHR ''&'', CHR ''<'', CHR ''>'', char_of (10 :: nat), char_of (13 :: nat)]"

definition EXPANSIONS :: "char list" where
  "EXPANSIONS = [char_of (96 :: nat), CHR ''$'', CHR ''('', CHR '')'', CHR ''{'', CHR ''}'']"

definition has_any :: "char list \<Rightarrow> string \<Rightarrow> bool" where
  "has_any cs s \<longleftrightarrow> list_ex (\<lambda>c. c \<in> set cs) s"

definition plain_command_word :: "string \<Rightarrow> bool" where
  "plain_command_word word \<longleftrightarrow>
     word \<noteq> [] \<and> list_all (\<lambda>c. is_ascii_alphanumeric c \<or> c \<in> set ''_-./+:@,'') word"

definition simple_command :: "shell_words \<Rightarrow> string \<Rightarrow> string list option" where
  "simple_command sw command =
     (if has_any SEPARATORS command \<or> has_any EXPANSIONS command then None
      else case sw command of
        Inl e \<Rightarrow> None
      | Inr words \<Rightarrow>
          (case words of
             [] \<Rightarrow> None
           | word # _ \<Rightarrow> if plain_command_word word then Some words else None))"

definition command_parts :: "shell_words \<Rightarrow> string \<Rightarrow> string list list" where
  "command_parts sw command =
     filter (\<lambda>words. words \<noteq> [])
       (List.map_filter (\<lambda>part. case sw part of Inl e \<Rightarrow> None | Inr words \<Rightarrow> Some words)
          (split_on (\<lambda>c. c \<in> set SEPARATORS \<or> c \<in> set EXPANSIONS) command))"

fun checked_loop :: "shell_words \<Rightarrow> string list \<Rightarrow> string list list option" where
  "checked_loop sw [] = Some []"
| "checked_loop sw (part # parts) =
     (case sw part of
        Inl e \<Rightarrow> None
      | Inr words \<Rightarrow>
          (case words of
             [] \<Rightarrow> checked_loop sw parts
           | word # _ \<Rightarrow>
               if plain_command_word word
               then map_option (\<lambda>rest. words # rest) (checked_loop sw parts)
               else None))"

definition checked_parts :: "shell_words \<Rightarrow> string \<Rightarrow> string list list option" where
  "checked_parts sw command =
     (if has_any EXPANSIONS command then None
      else checked_loop sw (split_on (\<lambda>c. c \<in> set SEPARATORS) command))"

section \<open>Matching words and paths\<close>

fun wildcard_middle :: "string list \<Rightarrow> string \<Rightarrow> string option" where
  "wildcard_middle [] remaining = Some remaining"
| "wildcard_middle (part # parts) remaining =
     (case find_sub part remaining of
        Some index \<Rightarrow> wildcard_middle parts (drop (index + length part) remaining)
      | None \<Rightarrow> None)"

definition wildcard :: "string \<Rightarrow> string \<Rightarrow> bool" where
  "wildcard pattern text =
     (let parts = split_on (\<lambda>c. c = star) pattern in
      if length parts = 1 then pattern = text
      else case strip_prefix (hd parts) text of
        None \<Rightarrow> False
      | Some remaining \<Rightarrow>
          (case wildcard_middle (butlast (tl parts)) remaining of
             None \<Rightarrow> False
           | Some remaining' \<Rightarrow>
               length remaining' \<ge> length (last (tl parts)) \<and>
               ends_with remaining' (last (tl parts))))"

definition words_match :: "string list \<Rightarrow> string list \<Rightarrow> bool" where
  "words_match pattern words =
     (if pattern \<noteq> [] \<and> last pattern = ''*''
      then length words \<ge> length (butlast pattern) \<and>
           list_all (\<lambda>(p, w). wildcard p w) (zip (butlast pattern) words)
      else length pattern = length words \<and>
           list_all (\<lambda>(p, w). wildcard p w) (zip pattern words))"

definition path_matches :: "string \<Rightarrow> string \<Rightarrow> bool" where
  "path_matches pattern path = sp_matches (sp_new [pattern]) path"

section \<open>Rules on calls\<close>

definition rule_allows :: "shell_words \<Rightarrow> rule \<Rightarrow> call_facts \<Rightarrow> bool" where
  "rule_allows sw r call =
     (if rule_tool r \<noteq> cf_tool call then False
      else case r of
        ToolRule _ \<Rightarrow> True
      | ShellRule pattern \<Rightarrow>
          (case Option.bind (cf_command call) (simple_command sw) of
             None \<Rightarrow> False
           | Some words \<Rightarrow> words_match pattern words)
      | PathRule _ pattern \<Rightarrow>
          (case cf_path call of None \<Rightarrow> False | Some path \<Rightarrow> path_matches pattern path))"

definition rule_denies :: "shell_words \<Rightarrow> rule \<Rightarrow> call_facts \<Rightarrow> bool" where
  "rule_denies sw r call =
     (if rule_tool r \<noteq> cf_tool call then False
      else case r of
        ShellRule pattern \<Rightarrow>
          (case cf_command call of
             None \<Rightarrow> False
           | Some command \<Rightarrow> list_ex (words_match pattern) (command_parts sw command))
      | _ \<Rightarrow> rule_allows sw r call)"

definition covered_by :: "rule \<Rightarrow> rule \<Rightarrow> bool" where
  "covered_by r other \<longleftrightarrow> r = other \<or> other = ToolRule (rule_tool r)"

section \<open>One policy\<close>

record policy =
  p_always_allowed :: "rule list"
  p_allowed :: "rule list option"
  p_denied :: "rule list"

definition override_warning :: "string \<Rightarrow> string \<Rightarrow> string \<Rightarrow> string" where
  "override_warning list entry denied =
     list @ '' entry '' @ debug_str entry @ '' has no effect: denied entry '' @
     debug_str denied @ '' overrides it''"

definition policy_warnings :: "policy_config \<Rightarrow> policy \<Rightarrow> string list" where
  "policy_warnings config p =
     List.map_filter
       (\<lambda>(list, entry, r).
          (case find (\<lambda>(_, denial). covered_by r denial) (zip (pc_denied config) (p_denied p)) of
             Some (denied, _) \<Rightarrow> Some (override_warning list entry denied)
           | None \<Rightarrow> None))
       (map (\<lambda>(entry, r). (''always_allowed'', entry, r))
          (zip (pc_always_allowed config) (p_always_allowed p)) @
        map (\<lambda>(entry, r). (''allowed'', entry, r))
          (zip (case pc_allowed config of None \<Rightarrow> [] | Some es \<Rightarrow> es)
             (case p_allowed p of None \<Rightarrow> [] | Some rs \<Rightarrow> rs)))"

definition policy_parse :: "shell_words \<Rightarrow> policy_config \<Rightarrow> (string, policy \<times> string list) result" where
  "policy_parse sw config =
     and_then (try_map (rule_parse sw) (pc_always_allowed config)) (\<lambda>always.
     and_then (case pc_allowed config of
                 None \<Rightarrow> Ok None
               | Some es \<Rightarrow> and_then (try_map (rule_parse sw) es) (\<lambda>rs. Ok (Some rs))) (\<lambda>allowed.
     and_then (try_map (rule_parse sw) (pc_denied config)) (\<lambda>denied.
       let p = \<lparr>p_always_allowed = always, p_allowed = allowed, p_denied = denied\<rparr>
       in Ok (p, policy_warnings config p))))"

definition default_decision :: "call_facts \<Rightarrow> approval_policy \<Rightarrow> policy_decision" where
  "default_decision call mode =
     (if \<not> cf_gated call then Run
      else case mode of Off \<Rightarrow> Deny | Ask \<Rightarrow> Prompt | Auto \<Rightarrow> Run)"

fun is_shell_rule :: "rule \<Rightarrow> bool" where
  "is_shell_rule (ShellRule _) = True"
| "is_shell_rule _ = False"

fun is_path_rule :: "rule \<Rightarrow> bool" where
  "is_path_rule (PathRule _ _) = True"
| "is_path_rule _ = False"

definition denial_is_uncheckable :: "shell_words \<Rightarrow> policy \<Rightarrow> call_facts \<Rightarrow> bool" where
  "denial_is_uncheckable sw p call \<longleftrightarrow>
     cf_tool call = ''run_shell'' \<and> list_ex is_shell_rule (p_denied p) \<and>
     (case cf_command call of None \<Rightarrow> True | Some command \<Rightarrow> checked_parts sw command = None)"

definition decide_by_rules ::
  "shell_words \<Rightarrow> policy \<Rightarrow> call_facts \<Rightarrow> approval_policy \<Rightarrow> bool \<Rightarrow> policy_decision" where
  "decide_by_rules sw p call mode base =
     (if list_ex (\<lambda>r. rule_denies sw r call) (p_denied p) then Deny
      else
        let always = find (\<lambda>r. rule_allows sw r call) (p_always_allowed p);
            allowed = Option.bind (p_allowed p) (find (\<lambda>r. rule_allows sw r call))
        in if p_allowed p \<noteq> None \<and> always = None \<and> allowed = None then Deny
           else if always \<noteq> None \<or> allowed \<noteq> None then
             (if mode = Off then Deny
              else
                let names_path = (case always of Some r \<Rightarrow> is_path_rule r | None \<Rightarrow> False);
                    needs_prompt = (case always of
                       Some _ \<Rightarrow> cf_sensitive call \<and> \<not> (base \<and> names_path)
                     | None \<Rightarrow> True)
                in if needs_prompt \<and> mode = Ask then Prompt else Run)
           else if \<not> base then Run
           else default_decision call mode)"

definition policy_decide ::
  "shell_words \<Rightarrow> policy \<Rightarrow> call_facts \<Rightarrow> approval_policy \<Rightarrow> bool \<Rightarrow> policy_decision" where
  "policy_decide sw p call mode base =
     (let decision = decide_by_rules sw p call mode base in
      if denial_is_uncheckable sw p call
      then min decision (if mode = Ask then Prompt else Deny)
      else decision)"

section \<open>The host's policy and an overlay\<close>

record approval_rules =
  ar_base :: policy
  ar_overlay :: "policy option"

definition rules_decide ::
  "shell_words \<Rightarrow> approval_rules \<Rightarrow> call_facts \<Rightarrow> approval_policy \<Rightarrow> policy_decision" where
  "rules_decide sw rules call mode =
     (let base = policy_decide sw (ar_base rules) call mode True in
      case ar_overlay rules of
        Some overlay \<Rightarrow> min base (policy_decide sw overlay call mode False)
      | None \<Rightarrow> base)"

section \<open>Reading commands: what the two readings agree on\<close>

lemma has_any_split_cong:
  assumes "\<not> has_any EXPANSIONS command"
  shows "split_on (\<lambda>c. c \<in> set SEPARATORS \<or> c \<in> set EXPANSIONS) command
    = split_on (\<lambda>c. c \<in> set SEPARATORS) command"
  using assms by (intro split_on_cong) (auto simp: has_any_def list_ex_iff)

lemma checked_loop_parts:
  "checked_loop sw parts = Some ps \<Longrightarrow>
     filter (\<lambda>words. words \<noteq> [])
       (List.map_filter (\<lambda>part. case sw part of Inl e \<Rightarrow> None | Inr words \<Rightarrow> Some words) parts) = ps"
  by (induction sw parts arbitrary: ps rule: checked_loop.induct)
    (auto simp: map_filter_simps split: sum.splits list.splits if_splits)

lemma checked_loop_plain:
  "checked_loop sw parts = Some ps \<Longrightarrow> words \<in> set ps \<Longrightarrow>
     words \<noteq> [] \<and> plain_command_word (hd words)"
proof (induction sw parts arbitrary: ps rule: checked_loop.induct)
  case (2 sw q qs)
  then show ?case
    by (cases "sw q") (fastforce split: list.splits if_splits)+
qed simp

lemma checked_loop_complete:
  "checked_loop sw parts = Some ps \<Longrightarrow> part \<in> set parts \<Longrightarrow>
     \<exists>words. sw part = Inr words \<and> (words = [] \<or> words \<in> set ps)"
proof (induction sw parts arbitrary: ps rule: checked_loop.induct)
  case (2 sw q qs)
  then show ?case
    by (cases "sw q") (fastforce split: list.splits if_splits)+
qed simp

lemma checked_parts_command_parts:
  "checked_parts sw command = Some ps \<Longrightarrow> command_parts sw command = ps"
  using checked_loop_parts [of sw _ ps]
  by (auto simp: checked_parts_def command_parts_def has_any_split_cong split: if_splits)

lemma simple_command_in_parts:
  assumes "simple_command sw command = Some words"
  shows "words \<in> set (command_parts sw command)"
proof -
  from assms have none: "\<not> (\<exists>c \<in> set command. c \<in> set SEPARATORS \<or> c \<in> set EXPANSIONS)"
    and sw: "sw command = Inr words" and ne: "words \<noteq> []"
    by (auto simp: simple_command_def has_any_def list_ex_iff split: if_splits sum.splits list.splits)
  from none have "split_on (\<lambda>c. c \<in> set SEPARATORS \<or> c \<in> set EXPANSIONS) command = [command]"
    by (rule split_on_none)
  with sw ne show ?thesis by (simp add: command_parts_def map_filter_simps)
qed

section \<open>Wildcards\<close>

text \<open>The meaning of a word pattern: \<open>*\<close> stands for any run of characters.\<close>

fun star_match :: "string \<Rightarrow> string \<Rightarrow> bool" where
  "star_match [] t \<longleftrightarrow> t = []"
| "star_match (c # p) t \<longleftrightarrow>
     (if c = star then \<exists>k \<le> length t. star_match p (drop k t)
      else t \<noteq> [] \<and> hd t = c \<and> star_match p (tl t))"

text \<open>The same on the parts between the stars: the first part is anchored, the others float.\<close>

fun parts_match :: "string list \<Rightarrow> string \<Rightarrow> bool" where
  "parts_match [] t \<longleftrightarrow> False"
| "parts_match [x] t \<longleftrightarrow> t = x"
| "parts_match (x # y # ys) t \<longleftrightarrow> (\<exists>u v. t = x @ u @ v \<and> parts_match (y # ys) v)"

lemma parts_match_Cons: "ys \<noteq> [] \<Longrightarrow>
    parts_match (x # ys) t \<longleftrightarrow> (\<exists>u v. t = x @ u @ v \<and> parts_match ys v)"
  by (cases ys) auto

lemma parts_match_head_Cons:
  "parts_match ((c # x) # ys) t \<longleftrightarrow> (\<exists>t'. t = c # t' \<and> parts_match (x # ys) t')"
  by (cases ys) auto

lemma star_match_parts: "star_match p t \<longleftrightarrow> parts_match (split_on (\<lambda>c. c = star) p) t"
proof (induction p arbitrary: t)
  case Nil
  then show ?case by simp
next
  case (Cons c p)
  show ?case
  proof (cases "c = star")
    case True
    have "(\<exists>k \<le> length t. parts_match ps (drop k t)) \<longleftrightarrow> (\<exists>u v. t = u @ v \<and> parts_match ps v)" for ps
      by (metis append_take_drop_id append_eq_conv_conj le_iff_add length_append)
    with True Cons.IH show ?thesis by (simp add: parts_match_Cons)
  next
    case False
    obtain x xs where s: "split_on (\<lambda>c. c = star) p = x # xs"
      by (meson neq_Nil_conv split_on_not_Nil)
    with False Cons.IH show ?thesis
      by (cases t) (auto simp: parts_match_head_Cons)
  qed
qed

text \<open>Floating parts: everything after the anchored first part.\<close>

definition floating :: "string list \<Rightarrow> string \<Rightarrow> string \<Rightarrow> bool" where
  "floating middle l r \<longleftrightarrow> (\<exists>u v. r = u @ v \<and> parts_match (middle @ [l]) v)"

lemma floating_prepend: "floating middle l r \<Longrightarrow> floating middle l (w @ r)"
  unfolding floating_def by (metis append.assoc)

lemma floating_Cons:
  "floating (m # ms) l r \<longleftrightarrow> (\<exists>a b. r = a @ m @ b \<and> floating ms l b)"
  by (auto simp: floating_def parts_match_Cons)

text \<open>Taking the leftmost occurrence of each part loses nothing.\<close>

lemma wildcard_middle_floating:
  "(case wildcard_middle ms r of None \<Rightarrow> False | Some r' \<Rightarrow> suffix l r') \<longleftrightarrow> floating ms l r"
proof (induction ms arbitrary: r)
  case Nil
  then show ?case by (auto simp: floating_def suffix_def)
next
  case (Cons m ms)
  show ?case
  proof (cases "find_sub m r")
    case None
    then have "r \<noteq> a @ m @ b" for a b
      using find_sub_leftmost [of r a m b] by auto
    then have "\<not> floating (m # ms) l r"
      by (simp add: floating_Cons)
    with None show ?thesis by simp
  next
    case (Some i)
    then obtain u v where r: "r = u @ m @ v" and i: "length u = i"
      using find_sub_SomeD by blast
    have d: "drop (i + length m) r = v" using r i by simp
    have "floating (m # ms) l r \<longleftrightarrow> floating ms l v"
    proof
      assume "floating (m # ms) l r"
      then obtain a b where ab: "r = a @ m @ b" and f: "floating ms l b"
        by (auto simp: floating_Cons)
      from find_sub_leftmost [OF ab] Some have "i \<le> length a" by simp
      then have "\<exists>w. v = w @ b"
        using ab r i by (metis append_eq_append_conv_if append_eq_conv_conj append_take_drop_id
            add_le_cancel_right append.assoc drop_append drop_drop le_add_diff_inverse2 length_append)
      with f show "floating ms l v" using floating_prepend by blast
    next
      assume "floating ms l v"
      with r show "floating (m # ms) l r" by (auto simp: floating_Cons)
    qed
    with Cons.IH [of v] Some d show ?thesis by simp
  qed
qed

section \<open>Properties of the decision\<close>

lemma policy_decide_le: "policy_decide sw p call mode base \<le> decide_by_rules sw p call mode base"
  by (simp add: policy_decide_def Let_def)

lemma rules_decide_le_base: "rules_decide sw rules call mode \<le> policy_decide sw (ar_base rules) call mode True"
  by (simp add: rules_decide_def Let_def split: option.splits)

lemma rules_decide_Run:
  "rules_decide sw rules call mode = Run \<longleftrightarrow>
     policy_decide sw (ar_base rules) call mode True = Run \<and>
     (\<forall>ov. ar_overlay rules = Some ov \<longrightarrow> policy_decide sw ov call mode False = Run)"
  by (cases "ar_overlay rules") (auto simp: rules_decide_def Let_def)

lemma policy_decide_denied:
  "r \<in> set (p_denied p) \<Longrightarrow> rule_denies sw r call \<Longrightarrow> policy_decide sw p call mode base = Deny"
  by (auto simp: policy_decide_def decide_by_rules_def list_ex_iff Let_def)

lemma policy_decide_Run:
  assumes "policy_decide sw p call mode base = Run"
  shows "decide_by_rules sw p call mode base = Run" and "\<not> denial_is_uncheckable sw p call"
  using assms by (auto simp: policy_decide_def Let_def split: if_splits)

lemma decide_by_rules_Run_not_denied:
  "decide_by_rules sw p call mode base = Run \<Longrightarrow> r \<in> set (p_denied p) \<Longrightarrow> \<not> rule_denies sw r call"
  by (auto simp: decide_by_rules_def list_ex_iff split: if_splits)

text \<open>The parts of a command that a shell denial is checked against are read as written.\<close>

lemma policy_Run_checked:
  assumes "policy_decide sw p call mode base = Run" and "cf_tool call = ''run_shell''"
    and "ShellRule pattern \<in> set (p_denied p)"
  obtains command parts where "cf_command call = Some command"
    and "checked_parts sw command = Some parts"
    and "\<And>words. words \<in> set parts \<Longrightarrow> \<not> words_match pattern words"
proof -
  have "list_ex is_shell_rule (p_denied p)"
    using assms(3) by (force simp: list_ex_iff)
  with assms(2) policy_decide_Run(2) [OF assms(1)]
  obtain command parts where c: "cf_command call = Some command"
    and cp: "checked_parts sw command = Some parts"
    by (auto simp: denial_is_uncheckable_def split: option.splits)
  have "\<not> rule_denies sw (ShellRule pattern) call"
    using decide_by_rules_Run_not_denied policy_decide_Run(1) assms(1,3) by blast
  then have "\<not> words_match pattern words" if "words \<in> set parts" for words
    using that c assms(2) checked_parts_command_parts [OF cp]
    by (auto simp: rule_denies_def list_ex_iff)
  with c cp show thesis by (rule that)
qed

text \<open>
  C1. A shell denial cannot be bypassed. When the host's policy or the overlay denies shell
  commands by pattern and a \<open>run_shell\<close> call is decided to run without a human, then the
  command contains no substitution or expansion, every part between its separators parses into
  words, every part's command word is plain, and no part matches the denied pattern.
\<close>

theorem shell_denial_cannot_be_bypassed:
  assumes run: "rules_decide sw rules call mode = Run"
    and tool: "cf_tool call = ''run_shell''"
    and denied: "ShellRule pattern \<in> set (p_denied (ar_base rules)) \<or>
      (\<exists>ov. ar_overlay rules = Some ov \<and> ShellRule pattern \<in> set (p_denied ov))"
  shows "\<exists>command. cf_command call = Some command \<and> \<not> has_any EXPANSIONS command \<and>
    (\<forall>part \<in> set (split_on (\<lambda>c. c \<in> set SEPARATORS) command).
       \<exists>words. sw part = Inr words \<and>
         (words = [] \<or> (plain_command_word (hd words) \<and> \<not> words_match pattern words)))"
proof -
  obtain p base where "policy_decide sw p call mode base = Run" and "ShellRule pattern \<in> set (p_denied p)"
    using run denied unfolding rules_decide_Run by blast
  then obtain command parts where c: "cf_command call = Some command"
    and cp: "checked_parts sw command = Some parts"
    and nm: "\<And>words. words \<in> set parts \<Longrightarrow> \<not> words_match pattern words"
    using policy_Run_checked [OF _ tool] by metis
  from cp have ne: "\<not> has_any EXPANSIONS command"
    and loop: "checked_loop sw (split_on (\<lambda>c. c \<in> set SEPARATORS) command) = Some parts"
    by (auto simp: checked_parts_def split: if_splits)
  have "\<exists>words. sw part = Inr words \<and>
         (words = [] \<or> (plain_command_word (hd words) \<and> \<not> words_match pattern words))"
    if "part \<in> set (split_on (\<lambda>c. c \<in> set SEPARATORS) command)" for part
    using checked_loop_complete [OF loop that] checked_loop_plain [OF loop] nm by blast
  with c ne show ?thesis by blast
qed

text \<open>A splitter at single spaces, enough for concrete commands without quotes.\<close>

definition split_spaces :: shell_words where
  "split_spaces s = Ok (filter (\<lambda>w. w \<noteq> []) (split_on (\<lambda>c. c = CHR '' '') s))"

definition everything_but_rm :: approval_rules where
  "everything_but_rm = \<lparr>ar_base = \<lparr>p_always_allowed = [ToolRule ''run_shell''], p_allowed = None,
     p_denied = [ShellRule [''rm'', ''*'']]\<rparr>, ar_overlay = None\<rparr>"

definition shell_call :: "string \<Rightarrow> call_facts" where
  "shell_call command = \<lparr>cf_tool = ''run_shell'', cf_command = Some command, cf_path = None,
     cf_gated = True, cf_sensitive = False\<rparr>"

lemma everything_but_rm_runs_ls: "rules_decide split_spaces everything_but_rm (shell_call ''ls | wc -l'') Auto = Run"
  by code_simp

theorem shell_denial_cannot_be_bypassed_witness:
  "\<exists>command. cf_command (shell_call ''ls | wc -l'') = Some command \<and> \<not> has_any EXPANSIONS command \<and>
    (\<forall>part \<in> set (split_on (\<lambda>c. c \<in> set SEPARATORS) command).
       \<exists>words. split_spaces part = Inr words \<and>
         (words = [] \<or> (plain_command_word (hd words) \<and> \<not> words_match [''rm'', ''*''] words)))"
  by (rule shell_denial_cannot_be_bypassed [OF everything_but_rm_runs_ls])
    (simp_all add: shell_call_def everything_but_rm_def)

text \<open>
  C3. In \<open>off\<close> mode every gated call (a shell command, or a read of a sensitive path) is
  denied, whatever the host's policy and the overlay say.
\<close>

theorem off_mode_denies_gated_calls:
  "cf_gated call \<Longrightarrow> rules_decide sw rules call Off = Deny"
proof -
  assume "cf_gated call"
  then have "decide_by_rules sw (ar_base rules) call Off True = Deny"
    by (auto simp: decide_by_rules_def default_decision_def Let_def)
  with policy_decide_le [of sw "ar_base rules" call Off True] have "policy_decide sw (ar_base rules) call Off True = Deny"
    by simp
  with rules_decide_le_base [of sw rules call Off] show ?thesis by simp
qed

theorem off_mode_denies_gated_calls_witness:
  "rules_decide split_spaces everything_but_rm (shell_call ''ls'') Off = Deny"
  by (rule off_mode_denies_gated_calls) (simp add: shell_call_def)

text \<open>
  C5. In \<open>ask\<close> mode a gated call runs without a human decision only if an
  \<open>always_allowed\<close> rule of the host's own policy allows it and no \<open>denied\<close> rule of the host's
  policy or of the overlay matches it; for a sensitive path that rule names a path.
\<close>

theorem ask_mode_unattended_run:
  assumes run: "rules_decide sw rules call Ask = Run" and gated: "cf_gated call"
  shows "(\<exists>r \<in> set (p_always_allowed (ar_base rules)). rule_allows sw r call \<and>
      (cf_sensitive call \<longrightarrow> is_path_rule r)) \<and>
    (\<forall>r \<in> set (p_denied (ar_base rules)). \<not> rule_denies sw r call) \<and>
    (\<forall>ov r. ar_overlay rules = Some ov \<and> r \<in> set (p_denied ov) \<longrightarrow> \<not> rule_denies sw r call)"
proof (intro conjI)
  from run have b: "decide_by_rules sw (ar_base rules) call Ask True = Run"
    and o: "\<And>ov. ar_overlay rules = Some ov \<Longrightarrow> decide_by_rules sw ov call Ask False = Run"
    by (auto simp: rules_decide_Run dest: policy_decide_Run)
  obtain r where "find (\<lambda>r. rule_allows sw r call) (p_always_allowed (ar_base rules)) = Some r"
    and "cf_sensitive call \<longrightarrow> is_path_rule r"
    using b gated
    by (auto simp: decide_by_rules_def default_decision_def Let_def split: if_splits option.splits)
  then show "\<exists>r \<in> set (p_always_allowed (ar_base rules)). rule_allows sw r call \<and>
      (cf_sensitive call \<longrightarrow> is_path_rule r)"
    by (auto simp: find_Some_iff)
  show "\<forall>r \<in> set (p_denied (ar_base rules)). \<not> rule_denies sw r call"
    using decide_by_rules_Run_not_denied [OF b] by blast
  show "\<forall>ov r. ar_overlay rules = Some ov \<and> r \<in> set (p_denied ov) \<longrightarrow> \<not> rule_denies sw r call"
    using decide_by_rules_Run_not_denied [OF o] by blast
qed

theorem ask_mode_unattended_run_witness:
  "\<exists>r \<in> set (p_always_allowed (ar_base everything_but_rm)).
     rule_allows split_spaces r (shell_call ''ls'') \<and> (cf_sensitive (shell_call ''ls'') \<longrightarrow> is_path_rule r)"
proof -
  have "rules_decide split_spaces everything_but_rm (shell_call ''ls'') Ask = Run" by code_simp
  moreover have "cf_gated (shell_call ''ls'')" by (simp add: shell_call_def)
  ultimately show ?thesis using ask_mode_unattended_run by blast
qed

text \<open>
  C6. A client's overlay can only restrict: with it the decision is at most as permissive as the
  host's alone, and an overlay that matches no rule, closes no list and has no shell denial
  leaves the host's decision unchanged.
\<close>

theorem overlay_only_restricts:
  "rules_decide sw \<lparr>ar_base = b, ar_overlay = Some ov\<rparr> call mode
     \<le> rules_decide sw \<lparr>ar_base = b, ar_overlay = None\<rparr> call mode \<and>
   (p_allowed ov = None \<and> (\<forall>r \<in> set (p_always_allowed ov). \<not> rule_allows sw r call) \<and>
    (\<forall>r \<in> set (p_denied ov). \<not> rule_denies sw r call \<and> \<not> is_shell_rule r) \<longrightarrow>
    rules_decide sw \<lparr>ar_base = b, ar_overlay = Some ov\<rparr> call mode
      = rules_decide sw \<lparr>ar_base = b, ar_overlay = None\<rparr> call mode)"
proof (intro conjI impI)
  show "rules_decide sw \<lparr>ar_base = b, ar_overlay = Some ov\<rparr> call mode
     \<le> rules_decide sw \<lparr>ar_base = b, ar_overlay = None\<rparr> call mode"
    by (simp add: rules_decide_def Let_def)
  assume a: "p_allowed ov = None \<and> (\<forall>r \<in> set (p_always_allowed ov). \<not> rule_allows sw r call) \<and>
    (\<forall>r \<in> set (p_denied ov). \<not> rule_denies sw r call \<and> \<not> is_shell_rule r)"
  then have "find (\<lambda>r. rule_allows sw r call) (p_always_allowed ov) = None"
    by (simp add: find_None_iff)
  with a have "policy_decide sw ov call mode False = Run"
    by (auto simp: policy_decide_def denial_is_uncheckable_def decide_by_rules_def list_ex_iff Let_def)
  then show "rules_decide sw \<lparr>ar_base = b, ar_overlay = Some ov\<rparr> call mode
      = rules_decide sw \<lparr>ar_base = b, ar_overlay = None\<rparr> call mode"
    by (simp add: rules_decide_def Let_def)
qed

theorem overlay_only_restricts_witness:
  "rules_decide split_spaces (everything_but_rm\<lparr>ar_overlay :=
     Some \<lparr>p_always_allowed = [], p_allowed = None, p_denied = []\<rparr>\<rparr>) (shell_call ''ls'') Ask
   = rules_decide split_spaces everything_but_rm (shell_call ''ls'') Ask"
  using overlay_only_restricts [of split_spaces "ar_base everything_but_rm"
      "\<lparr>p_always_allowed = [], p_allowed = None, p_denied = []\<rparr>" "shell_call ''ls''" Ask]
  by (simp add: everything_but_rm_def)

text \<open>
  The override warnings are truthful: an allow entry whose rule is covered by a denied
  entry never takes effect, because every call it allows is denied in every mode.
\<close>

theorem overridden_allow_entry_has_no_effect:
  assumes "covered_by r denial" and "denial \<in> set (p_denied p)" and "rule_allows sw r call"
  shows "policy_decide sw p call mode base = Deny"
proof -
  have tool: "rule_tool r = cf_tool call"
    using assms(3) by (auto simp: rule_allows_def split: if_splits)
  have "rule_denies sw denial call"
  proof (cases "denial = ToolRule (rule_tool r)")
    case True
    with tool show ?thesis by (simp add: rule_denies_def rule_allows_def)
  next
    case False
    with assms(1) have d: "denial = r" by (simp add: covered_by_def)
    show ?thesis
    proof (cases r)
      case (ShellRule pattern)
      with assms(3) obtain command words where "cf_command call = Some command"
        and "simple_command sw command = Some words" and "words_match pattern words"
        by (auto simp: rule_allows_def bind_eq_Some_conv split: if_splits option.splits)
      with tool d ShellRule show ?thesis
        using simple_command_in_parts by (auto simp: rule_denies_def list_ex_iff)
    qed (use tool d assms(3) in \<open>simp_all add: rule_denies_def\<close>)
  qed
  with assms(2) show ?thesis by (rule policy_decide_denied)
qed

theorem overridden_allow_entry_has_no_effect_witness:
  "policy_decide split_spaces \<lparr>p_always_allowed = [ShellRule [''git'', ''push'', ''*'']], p_allowed = None,
      p_denied = [ShellRule [''git'', ''push'', ''*'']]\<rparr> (shell_call ''git push origin'') Auto True = Deny"
  by (rule overridden_allow_entry_has_no_effect [where r = "ShellRule [''git'', ''push'', ''*'']"
        and denial = "ShellRule [''git'', ''push'', ''*'']"]) (simp add: covered_by_def, simp, code_simp)

text \<open>
  The greedy wildcard matcher, which takes the leftmost occurrence of every part between
  the stars, decides exactly the meaning of the pattern: some choice of a run of characters for
  every star makes the pattern spell the text.
\<close>

theorem wildcard_correct: "wildcard pattern text \<longleftrightarrow> star_match pattern text"
proof -
  obtain x xs where s: "split_on (\<lambda>c. c = star) pattern = x # xs"
    by (meson neq_Nil_conv split_on_not_Nil)
  show ?thesis
  proof (cases "xs = []")
    case True
    have "join [star] (split_on (\<lambda>c. c = star) pattern) = pattern" by (rule join_split_on)
    with s True have "pattern = x" by simp
    with s True show ?thesis by (auto simp: wildcard_def star_match_parts)
  next
    case False
    then obtain ms l where xs: "xs = ms @ [l]" by (meson rev_exhaust)
    have "wildcard pattern text \<longleftrightarrow>
        (\<exists>r. text = x @ r \<and> (case wildcard_middle ms r of None \<Rightarrow> False | Some r' \<Rightarrow> suffix l r'))"
      unfolding wildcard_def using s xs
      by (auto simp: strip_prefix_def prefix_def ends_with_def suffix_length_le split: option.splits)
    also have "\<dots> \<longleftrightarrow> (\<exists>r. text = x @ r \<and> floating ms l r)"
      by (simp add: wildcard_middle_floating)
    also have "\<dots> \<longleftrightarrow> parts_match (x # ms @ [l]) text"
      by (auto simp: floating_def parts_match_Cons)
    finally show ?thesis by (simp add: star_match_parts s xs)
  qed
qed

text \<open>
  The sensitive-path exemption depends on the order of \<open>always_allowed\<close>: when a bare tool
  entry precedes the entry that names the path, the host's naming of the path is not seen and
  the call is prompted; with the entries in the other order it runs.
\<close>

theorem path_entry_after_tool_entry_is_ignored:
  assumes "cf_tool call = tool" and "cf_path call = Some path" and "path_matches pattern path"
    and "cf_sensitive call" and "tool \<noteq> ''run_shell''"
  shows "policy_decide sw \<lparr>p_always_allowed = [ToolRule tool, PathRule tool pattern],
      p_allowed = None, p_denied = []\<rparr> call Ask True = Prompt \<and>
    policy_decide sw \<lparr>p_always_allowed = [PathRule tool pattern, ToolRule tool],
      p_allowed = None, p_denied = []\<rparr> call Ask True = Run"
  using assms
  by (simp add: policy_decide_def denial_is_uncheckable_def decide_by_rules_def rule_allows_def)

theorem path_entry_after_tool_entry_is_ignored_witness:
  "policy_decide split_spaces \<lparr>p_always_allowed = [ToolRule ''read_file'', PathRule ''read_file'' ''config/.env''],
      p_allowed = None, p_denied = []\<rparr>
     \<lparr>cf_tool = ''read_file'', cf_command = None, cf_path = Some ''/work/config/.env'', cf_gated = True,
      cf_sensitive = True\<rparr> Ask True = Prompt"
proof -
  have "path_matches ''config/.env'' ''/work/config/.env''" by code_simp
  then show ?thesis
    using path_entry_after_tool_entry_is_ignored [of "\<lparr>cf_tool = ''read_file'', cf_command = None,
        cf_path = Some ''/work/config/.env'', cf_gated = True, cf_sensitive = True\<rparr>"
        "''read_file''" "''/work/config/.env''" "''config/.env''" split_spaces]
    by simp
qed

end
