(* ===== verification/Budget.thy ===== *)
theory Budget
  imports Rust_Std
begin

text \<open>
  Turn limits and the shared turn budget, \<^verbatim>\<open>crates/xshell-execution/src/budget.rs\<close>.
  A \<open>Duration\<close> and an \<open>Instant\<close> are natural numbers of nanoseconds. The budget's counters are
  updated by \<open>fetch_update\<close>; besides the atomic operation \<open>charge\<close>, the compare-exchange loop
  behind it is modelled as a step relation over any number of agents that share one counter.
\<close>

section \<open>Durations\<close>

type_synonym duration = nat
type_synonym instant = nat

definition nanos_per_sec :: nat where
  "nanos_per_sec = 1000000000"

definition from_secs :: "nat \<Rightarrow> duration" where
  "from_secs s = s * nanos_per_sec"

definition as_secs :: "duration \<Rightarrow> nat" where
  "as_secs d = d div nanos_per_sec"

definition as_millis :: "duration \<Rightarrow> nat" where
  "as_millis d = d div 1000000"

definition duration_checked_add :: "duration \<Rightarrow> duration \<Rightarrow> duration option" where
  "duration_checked_add a b = (if as_secs (a + b) \<le> u64_max then Some (a + b) else None)"

definition instant_checked_add :: "instant \<Rightarrow> duration \<Rightarrow> instant option" where
  "instant_checked_add now d = (if as_secs (now + d) < 2 ^ 63 then Some (now + d) else None)"

lemma as_secs_from_secs [simp]: "as_secs (from_secs s) = s"
  by (simp add: as_secs_def from_secs_def nanos_per_sec_def)

lemma from_secs_add: "from_secs a + from_secs b = from_secs (a + b)"
  by (simp add: from_secs_def algebra_simps)

definition MAX_LIMIT_DURATION :: duration where
  "MAX_LIMIT_DURATION = from_secs (30 * 24 * 60 * 60)"

section \<open>Limits\<close>

record turn_limits =
  tl_provider_requests :: nat
  tl_tool_calls :: nat
  tl_tool_calls_per_response :: nat
  tl_wall_time :: duration
  tl_shell_timeout :: duration
  tl_auto_continues :: nat

definition limits_default :: turn_limits where
  "limits_default = \<lparr>tl_provider_requests = 128, tl_tool_calls = 256,
     tl_tool_calls_per_response = 64, tl_wall_time = from_secs (60 * 60),
     tl_shell_timeout = from_secs 60, tl_auto_continues = 2\<rparr>"

definition limits_relaxed :: turn_limits where
  "limits_relaxed = \<lparr>tl_provider_requests = 2000, tl_tool_calls = 5000,
     tl_tool_calls_per_response = 128, tl_wall_time = from_secs (8 * 60 * 60),
     tl_shell_timeout = from_secs (30 * 60), tl_auto_continues = 50\<rparr>"

definition limits_builtin :: "string \<Rightarrow> turn_limits option" where
  "limits_builtin name =
     (if name = ''default'' then Some limits_default
      else if name = ''relaxed'' then Some limits_relaxed
      else None)"

definition limits_clamp_to :: "turn_limits \<Rightarrow> turn_limits \<Rightarrow> turn_limits \<times> bool" where
  "limits_clamp_to self ceiling =
     (let clamped = \<lparr>
        tl_provider_requests = min (tl_provider_requests self) (tl_provider_requests ceiling),
        tl_tool_calls = min (tl_tool_calls self) (tl_tool_calls ceiling),
        tl_tool_calls_per_response =
          min (tl_tool_calls_per_response self) (tl_tool_calls_per_response ceiling),
        tl_wall_time = min (tl_wall_time self) (tl_wall_time ceiling),
        tl_shell_timeout = min (tl_shell_timeout self) (tl_shell_timeout ceiling),
        tl_auto_continues = min (tl_auto_continues self) (tl_auto_continues ceiling)\<rparr>
      in (clamped, clamped \<noteq> self))"

fun validate_counts :: "(string \<times> nat) list \<Rightarrow> (string, unit) result" where
  "validate_counts [] = Ok ()"
| "validate_counts ((name, value) # rest) =
     (if value = 0 then Err (name @ '' must be at least 1'') else validate_counts rest)"

fun validate_durations :: "(string \<times> duration) list \<Rightarrow> (string, unit) result" where
  "validate_durations [] = Ok ()"
| "validate_durations ((name, value) # rest) =
     (if value < from_secs 1 \<or> value > MAX_LIMIT_DURATION
      then Err (name @ '' must be between 1 second and '' @
        show_nat (as_secs MAX_LIMIT_DURATION div 86400) @ '' days'')
      else validate_durations rest)"

definition limits_validate :: "turn_limits \<Rightarrow> (string, unit) result" where
  "limits_validate l =
     and_then (validate_counts
       [(''provider_requests'', tl_provider_requests l),
        (''tool_calls'', tl_tool_calls l),
        (''tool_calls_per_response'', tl_tool_calls_per_response l)]) (\<lambda>_.
     validate_durations
       [(''wall_time'', tl_wall_time l), (''shell_timeout'', tl_shell_timeout l)])"

section \<open>Writing and parsing durations\<close>

definition format_duration :: "duration \<Rightarrow> string" where
  "format_duration d =
     (let seconds = as_secs d in
      if seconds \<ge> 3600 \<and> seconds mod 3600 = 0 then show_nat (seconds div 3600) @ ''-hour''
      else if seconds \<ge> 60 \<and> seconds mod 60 = 0 then show_nat (seconds div 60) @ ''-minute''
      else if seconds > 0 then show_nat seconds @ ''-second''
      else show_nat (as_millis d) @ ''-millisecond'')"

definition format_span :: "duration \<Rightarrow> string" where
  "format_span d =
     (let seconds = as_secs d in
      if seconds \<ge> 3600 \<and> seconds mod 3600 = 0 then show_nat (seconds div 3600) @ ''h''
      else if seconds \<ge> 60 \<and> seconds mod 60 = 0 then show_nat (seconds div 60) @ ''m''
      else show_nat seconds @ ''s'')"

definition limits_summary :: "turn_limits \<Rightarrow> string" where
  "limits_summary l =
     show_nat (tl_provider_requests l) @ '' provider requests, '' @
     show_nat (tl_tool_calls l) @ '' tool calls ('' @
     show_nat (tl_tool_calls_per_response l) @ '' per response), '' @
     format_span (tl_wall_time l) @ '' wall time, '' @
     format_span (tl_shell_timeout l) @ '' shell timeout, '' @
     show_nat (tl_auto_continues l) @ '' automatic continuations''"

definition duration_unit :: "char \<Rightarrow> nat option" where
  "duration_unit c =
     (if c = CHR ''s'' then Some 1
      else if c = CHR ''m'' then Some 60
      else if c = CHR ''h'' then Some (60 * 60)
      else if c = CHR ''d'' then Some (24 * 60 * 60)
      else None)"

text \<open>The loop over the characters, with the running total and the digits read so far.\<close>

fun parse_duration_loop ::
  "string \<Rightarrow> duration \<Rightarrow> string \<Rightarrow> string \<Rightarrow> (string, duration \<times> string) result" where
  "parse_duration_loop text sum_so_far digits [] = Ok (sum_so_far, digits)"
| "parse_duration_loop text sum_so_far digits (c # cs) =
     (if is_ascii_digit c then parse_duration_loop text sum_so_far (digits @ [c]) cs
      else case duration_unit c of
        None \<Rightarrow> Err (debug_str text @
          '' is not a duration; use a number with s, m, h, or d, such as '' @ debug_str ''30m'')
      | Some unit \<Rightarrow>
          (case parse_u64_digits digits of
             None \<Rightarrow> Err (debug_str text @ '' is not a duration; each unit needs a number'')
           | Some value \<Rightarrow>
               (case Option.bind (checked_mul value unit)
                       (\<lambda>seconds. duration_checked_add sum_so_far (from_secs seconds)) of
                  None \<Rightarrow> Err (debug_str text @ '' is too long'')
                | Some sum_so_far' \<Rightarrow> parse_duration_loop text sum_so_far' [] cs)))"

definition parse_duration :: "string \<Rightarrow> (string, duration) result" where
  "parse_duration text0 =
     (let text = trim text0 in
      if text = [] then Err ''a duration cannot be empty''
      else and_then (parse_duration_loop text 0 [] text) (\<lambda>(sum_so_far, digits).
        if digits \<noteq> []
        then Err (debug_str text @ '' needs a unit after its last number: s, m, h, or d'')
        else Ok sum_so_far))"

section \<open>Limits as written in configuration\<close>

record limit_settings =
  ls_provider_requests :: "nat option"
  ls_tool_calls :: "nat option"
  ls_tool_calls_per_response :: "nat option"
  ls_wall_time :: "duration option"
  ls_shell_timeout :: "duration option"
  ls_auto_continues :: "nat option"

definition unwrap_or :: "'a option \<Rightarrow> 'a \<Rightarrow> 'a" where
  "unwrap_or x d = (case x of Some v \<Rightarrow> v | None \<Rightarrow> d)"

definition settings_apply_to :: "limit_settings \<Rightarrow> turn_limits \<Rightarrow> (string, turn_limits) result" where
  "settings_apply_to s base =
     (let limits = \<lparr>
        tl_provider_requests = unwrap_or (ls_provider_requests s) (tl_provider_requests base),
        tl_tool_calls = unwrap_or (ls_tool_calls s) (tl_tool_calls base),
        tl_tool_calls_per_response =
          unwrap_or (ls_tool_calls_per_response s) (tl_tool_calls_per_response base),
        tl_wall_time = unwrap_or (ls_wall_time s) (tl_wall_time base),
        tl_shell_timeout = unwrap_or (ls_shell_timeout s) (tl_shell_timeout base),
        tl_auto_continues = unwrap_or (ls_auto_continues s) (tl_auto_continues base)\<rparr>
      in and_then (limits_validate limits) (\<lambda>_. Ok limits))"

section \<open>The shared budget\<close>

datatype budget_exhausted =
    ProviderRequests nat
  | ToolCalls nat
  | WallTime duration

definition exhausted_message :: "budget_exhausted \<Rightarrow> string" where
  "exhausted_message e =
     (case e of
        ProviderRequests n \<Rightarrow>
          ''agent turn exhausted its budget of '' @ show_nat n @ '' provider requests''
      | ToolCalls n \<Rightarrow> ''agent turn exhausted its budget of '' @ show_nat n @ '' tool calls''
      | WallTime d \<Rightarrow> ''agent turn exhausted its '' @ format_duration d @ '' time budget'')"

record turn_budget =
  b_limits :: turn_limits
  b_deadline :: instant
  b_provider_requests :: nat
  b_tool_calls :: nat

definition budget_new :: "instant \<Rightarrow> turn_limits \<Rightarrow> turn_budget" where
  "budget_new now limits = \<lparr>b_limits = limits,
     b_deadline = (case instant_checked_add now (tl_wall_time limits) of
        Some deadline \<Rightarrow> deadline | None \<Rightarrow> now + MAX_LIMIT_DURATION),
     b_provider_requests = 0, b_tool_calls = 0\<rparr>"

text \<open>Increment a counter unless it has reached the limit.\<close>

definition charge ::
  "nat \<Rightarrow> nat \<Rightarrow> (nat \<Rightarrow> budget_exhausted) \<Rightarrow> nat \<times> (budget_exhausted, unit) result" where
  "charge counter limit exhausted =
     (if counter < limit then (counter + 1, Ok ()) else (counter, Err (exhausted limit)))"

definition check_time :: "instant \<Rightarrow> turn_budget \<Rightarrow> (budget_exhausted, unit) result" where
  "check_time now b =
     (if now \<ge> b_deadline b then Err (WallTime (tl_wall_time (b_limits b))) else Ok ())"

definition charge_provider_request ::
  "instant \<Rightarrow> turn_budget \<Rightarrow> turn_budget \<times> (budget_exhausted, unit) result" where
  "charge_provider_request now b =
     (case check_time now b of
        Inl e \<Rightarrow> (b, Err e)
      | Inr _ \<Rightarrow>
          (let (used, r) = charge (b_provider_requests b)
                 (tl_provider_requests (b_limits b)) ProviderRequests
           in (b\<lparr>b_provider_requests := used\<rparr>, r)))"

definition charge_tool_call ::
  "instant \<Rightarrow> turn_budget \<Rightarrow> turn_budget \<times> (budget_exhausted, unit) result" where
  "charge_tool_call now b =
     (case check_time now b of
        Inl e \<Rightarrow> (b, Err e)
      | Inr _ \<Rightarrow>
          (let (used, r) = charge (b_tool_calls b) (tl_tool_calls (b_limits b)) ToolCalls
           in (b\<lparr>b_tool_calls := used\<rparr>, r)))"

section \<open>Lemmas: the sequential budget\<close>

lemma charge_provider_request_cases:
  assumes "charge_provider_request now b = (b', r)"
  obtains (ok) "r = Ok ()" "b' = b\<lparr>b_provider_requests := b_provider_requests b + 1\<rparr>"
      "b_provider_requests b < tl_provider_requests (b_limits b)" "now < b_deadline b"
    | (err) e where "r = Err e" "b' = b"
  using assms
  by (auto simp: charge_provider_request_def check_time_def charge_def Let_def split: if_splits)

lemma charge_tool_call_cases:
  assumes "charge_tool_call now b = (b', r)"
  obtains (ok) "r = Ok ()" "b' = b\<lparr>b_tool_calls := b_tool_calls b + 1\<rparr>"
      "b_tool_calls b < tl_tool_calls (b_limits b)" "now < b_deadline b"
    | (err) e where "r = Err e" "b' = b"
  using assms
  by (auto simp: charge_tool_call_def check_time_def charge_def Let_def split: if_splits)

definition within_limits :: "turn_budget \<Rightarrow> bool" where
  "within_limits b \<longleftrightarrow> b_provider_requests b \<le> tl_provider_requests (b_limits b) \<and>
     b_tool_calls b \<le> tl_tool_calls (b_limits b)"

lemma within_limits_new [simp]: "within_limits (budget_new now limits)"
  by (simp add: within_limits_def budget_new_def)

section \<open>Lemmas: validation and clamping\<close>

lemma limits_validate_iff:
  "limits_validate l = Ok () \<longleftrightarrow>
     tl_provider_requests l > 0 \<and> tl_tool_calls l > 0 \<and> tl_tool_calls_per_response l > 0 \<and>
     from_secs 1 \<le> tl_wall_time l \<and> tl_wall_time l \<le> MAX_LIMIT_DURATION \<and>
     from_secs 1 \<le> tl_shell_timeout l \<and> tl_shell_timeout l \<le> MAX_LIMIT_DURATION"
  by (auto simp: limits_validate_def not_less)

lemma min_eq_left_iff: "min a b = a \<longleftrightarrow> a \<le> b" for a b :: nat
  by (auto simp: min_def)

definition limits_le :: "turn_limits \<Rightarrow> turn_limits \<Rightarrow> bool" where
  "limits_le a b \<longleftrightarrow> tl_provider_requests a \<le> tl_provider_requests b \<and>
     tl_tool_calls a \<le> tl_tool_calls b \<and>
     tl_tool_calls_per_response a \<le> tl_tool_calls_per_response b \<and>
     tl_wall_time a \<le> tl_wall_time b \<and> tl_shell_timeout a \<le> tl_shell_timeout b \<and>
     tl_auto_continues a \<le> tl_auto_continues b"

text \<open>
  Clamping to a ceiling gives the greatest limits below both the request and the ceiling,
  keeps limits valid when both are valid, and reports a change exactly when the request exceeds
  the ceiling in some limit.
\<close>

theorem limits_clamp_to_greatest:
  "limits_clamp_to l c = (m, lowered) \<Longrightarrow>
     limits_le m l \<and> limits_le m c \<and> (\<forall>k. limits_le k l \<and> limits_le k c \<longrightarrow> limits_le k m) \<and>
     (limits_validate l = Ok () \<and> limits_validate c = Ok () \<longrightarrow> limits_validate m = Ok ()) \<and>
     (lowered \<longleftrightarrow> \<not> limits_le l c)"
  by (cases l; cases c)
    (auto simp: limits_clamp_to_def limits_le_def limits_validate_iff Let_def min_eq_left_iff)

theorem limits_clamp_to_greatest_witness:
  "snd (limits_clamp_to limits_relaxed limits_default) \<longleftrightarrow> \<not> limits_le limits_relaxed limits_default"
  using limits_clamp_to_greatest [of limits_relaxed limits_default, OF prod.collapse [symmetric]]
  by blast

text \<open>
  Settings applied to a base give either limits that can be enforced (every count at least
  one, every duration between a second and thirty days), with the configured fields as
  configured and the others as in the base, or an error, and the error exactly when the
  combination is out of range.
\<close>

theorem settings_apply_to_valid:
  "(case settings_apply_to s base of
      Inr l \<Rightarrow> limits_validate l = Ok () \<and>
        tl_provider_requests l = unwrap_or (ls_provider_requests s) (tl_provider_requests base) \<and>
        tl_tool_calls l = unwrap_or (ls_tool_calls s) (tl_tool_calls base) \<and>
        tl_tool_calls_per_response l
          = unwrap_or (ls_tool_calls_per_response s) (tl_tool_calls_per_response base) \<and>
        tl_wall_time l = unwrap_or (ls_wall_time s) (tl_wall_time base) \<and>
        tl_shell_timeout l = unwrap_or (ls_shell_timeout s) (tl_shell_timeout base) \<and>
        tl_auto_continues l = unwrap_or (ls_auto_continues s) (tl_auto_continues base)
    | Inl _ \<Rightarrow>
        unwrap_or (ls_provider_requests s) (tl_provider_requests base) = 0 \<or>
        unwrap_or (ls_tool_calls s) (tl_tool_calls base) = 0 \<or>
        unwrap_or (ls_tool_calls_per_response s) (tl_tool_calls_per_response base) = 0 \<or>
        unwrap_or (ls_wall_time s) (tl_wall_time base) \<notin> {from_secs 1 .. MAX_LIMIT_DURATION} \<or>
        unwrap_or (ls_shell_timeout s) (tl_shell_timeout base) \<notin> {from_secs 1 .. MAX_LIMIT_DURATION})"
proof -
  define l where "l = \<lparr>
        tl_provider_requests = unwrap_or (ls_provider_requests s) (tl_provider_requests base),
        tl_tool_calls = unwrap_or (ls_tool_calls s) (tl_tool_calls base),
        tl_tool_calls_per_response =
          unwrap_or (ls_tool_calls_per_response s) (tl_tool_calls_per_response base),
        tl_wall_time = unwrap_or (ls_wall_time s) (tl_wall_time base),
        tl_shell_timeout = unwrap_or (ls_shell_timeout s) (tl_shell_timeout base),
        tl_auto_continues = unwrap_or (ls_auto_continues s) (tl_auto_continues base)\<rparr>"
  have app: "settings_apply_to s base = and_then (limits_validate l) (\<lambda>_. Ok l)"
    by (simp add: settings_apply_to_def l_def Let_def)
  have fields: "tl_provider_requests l = unwrap_or (ls_provider_requests s) (tl_provider_requests base)"
    "tl_tool_calls l = unwrap_or (ls_tool_calls s) (tl_tool_calls base)"
    "tl_tool_calls_per_response l
       = unwrap_or (ls_tool_calls_per_response s) (tl_tool_calls_per_response base)"
    "tl_wall_time l = unwrap_or (ls_wall_time s) (tl_wall_time base)"
    "tl_shell_timeout l = unwrap_or (ls_shell_timeout s) (tl_shell_timeout base)"
    "tl_auto_continues l = unwrap_or (ls_auto_continues s) (tl_auto_continues base)"
    by (simp_all add: l_def)
  show ?thesis
  proof (cases "limits_validate l")
    case (Inr u)
    then show ?thesis by (simp add: app fields [symmetric])
  next
    case (Inl e)
    then have "limits_validate l \<noteq> Ok ()" by simp
    then have "tl_provider_requests l = 0 \<or> tl_tool_calls l = 0 \<or> tl_tool_calls_per_response l = 0 \<or>
        tl_wall_time l \<notin> {from_secs 1 .. MAX_LIMIT_DURATION} \<or>
        tl_shell_timeout l \<notin> {from_secs 1 .. MAX_LIMIT_DURATION}"
      unfolding limits_validate_iff by auto
    then show ?thesis
      unfolding app Inl fields [symmetric] by simp
  qed
qed

theorem settings_apply_to_valid_witness:
  "\<exists>l. settings_apply_to \<lparr>ls_provider_requests = Some 7, ls_tool_calls = None,
        ls_tool_calls_per_response = None, ls_wall_time = None, ls_shell_timeout = None,
        ls_auto_continues = None\<rparr> limits_default = Ok l \<and> tl_provider_requests l = 7"
proof -
  define s where "s = \<lparr>ls_provider_requests = Some 7, ls_tool_calls = None,
        ls_tool_calls_per_response = None, ls_wall_time = None, ls_shell_timeout = None,
        ls_auto_continues = (None :: nat option)\<rparr>"
  have "limits_validate limits_default = Ok ()" 
    by (simp add: limits_validate_iff limits_default_def from_secs_def nanos_per_sec_def MAX_LIMIT_DURATION_def)
  then show ?thesis
    using settings_apply_to_valid [of s limits_default]
    unfolding s_def [symmetric] limits_validate_iff
    by (auto simp: s_def unwrap_or_def split: sum.splits)
qed

section \<open>Lemmas: durations\<close>

lemma parse_duration_loop_digits:
  "(\<And>c. c \<in> set ds \<Longrightarrow> is_ascii_digit c) \<Longrightarrow>
     parse_duration_loop text sum_so_far acc (ds @ cs) = parse_duration_loop text sum_so_far (acc @ ds) cs"
  by (induction ds arbitrary: acc) auto

lemma parse_duration_number_unit:
  assumes un: "duration_unit u = Some m" and vmax: "v \<le> u64_max" and product: "v * m \<le> u64_max"
  shows "parse_duration (show_nat v @ [u]) = Ok (from_secs (v * m))"
proof -
  let ?t = "show_nat v @ [u]"
  have u: "\<not> is_ascii_digit u" "ws_free u"
    using un by (auto simp: duration_unit_def is_ascii_digit_def intro: ws_free_graph split: if_splits)
  have "ws_free (hd ?t)"
  proof -
    have "hd ?t \<in> set (show_nat v)" by simp
    then have "is_ascii_digit (hd ?t)" by (rule show_nat_digits)
    then show ?thesis
      by (intro ws_free_graph) (auto simp: is_ascii_digit_def)
  qed
  with u have trim: "trim ?t = ?t" by (intro trim_id) auto
  have "parse_duration_loop ?t 0 [] ?t = parse_duration_loop ?t 0 (show_nat v) [u]"
    using parse_duration_loop_digits [of "show_nat v" ?t 0 "[]" "[u]"] show_nat_digits by simp
  also have "\<dots> = Ok (from_secs (v * m), [])"
    using u un vmax product
    by (simp add: parse_u64_digits_def checked_mul_def duration_checked_add_def)
  finally show ?thesis
    using trim by (simp add: parse_duration_def Let_def)
qed

text \<open>
  Reading back a written duration: the configuration spelling of a whole number of seconds
  (hours, minutes or seconds) parses to the same duration, for every duration the type can hold.
\<close>

theorem parse_format_span:
  assumes "s \<le> u64_max"
  shows "parse_duration (format_span (from_secs s)) = Ok (from_secs s)"
proof -
  have h: "parse_duration (show_nat (s div 3600) @ ''h'') = Ok (from_secs s)" if "s mod 3600 = 0"
    using parse_duration_number_unit [of "CHR ''h''" "60 * 60" "s div 3600"] that assms
    by (auto simp: duration_unit_def)
  have m: "parse_duration (show_nat (s div 60) @ ''m'') = Ok (from_secs s)" if "s mod 60 = 0"
    using parse_duration_number_unit [of "CHR ''m''" 60 "s div 60"] that assms
    by (auto simp: duration_unit_def)
  have "parse_duration (show_nat s @ ''s'') = Ok (from_secs s)"
    using parse_duration_number_unit [of "CHR ''s''" 1 s] assms by (simp add: duration_unit_def)
  with h m show ?thesis by (simp add: format_span_def Let_def)
qed

theorem parse_format_span_witness: "parse_duration (format_span (from_secs 5400)) = Ok (from_secs 5400)"
  by (rule parse_format_span) (simp add: u64_max_def)

section \<open>The compare-exchange loop\<close>

text \<open>
  \<open>fetch_update\<close> loads the counter, gives up when it has reached the limit, and otherwise
  tries to exchange the loaded value for its successor, starting again from the value it finds
  when another agent was faster. \<open>cs_granted\<close> and \<open>cs_refused\<close> count the calls that
  returned \<open>Ok\<close> and \<open>Err\<close>.
\<close>

datatype charge_pc = Idle | Loaded nat

record charge_state =
  cs_counter :: nat
  cs_pc :: "nat \<Rightarrow> charge_pc"
  cs_granted :: nat
  cs_refused :: nat

definition charge_init :: charge_state where
  "charge_init = \<lparr>cs_counter = 0, cs_pc = (\<lambda>_. Idle), cs_granted = 0, cs_refused = 0\<rparr>"

inductive charge_step :: "nat \<Rightarrow> charge_state \<Rightarrow> charge_state \<Rightarrow> bool" for limit where
  load: "cs_pc s i = Idle \<Longrightarrow>
    charge_step limit s (s\<lparr>cs_pc := (cs_pc s)(i := Loaded (cs_counter s))\<rparr>)"
| refuse: "cs_pc s i = Loaded used \<Longrightarrow> \<not> used < limit \<Longrightarrow>
    charge_step limit s (s\<lparr>cs_pc := (cs_pc s)(i := Idle), cs_refused := cs_refused s + 1\<rparr>)"
| exchange: "cs_pc s i = Loaded used \<Longrightarrow> used < limit \<Longrightarrow> cs_counter s = used \<Longrightarrow>
    charge_step limit s (s\<lparr>cs_counter := used + 1, cs_pc := (cs_pc s)(i := Idle),
      cs_granted := cs_granted s + 1\<rparr>)"
| retry: "cs_pc s i = Loaded used \<Longrightarrow> used < limit \<Longrightarrow> cs_counter s \<noteq> used \<Longrightarrow>
    charge_step limit s (s\<lparr>cs_pc := (cs_pc s)(i := Loaded (cs_counter s))\<rparr>)"

inductive charge_reachable :: "nat \<Rightarrow> charge_state \<Rightarrow> bool" for limit where
  start: "charge_reachable limit charge_init"
| step: "charge_reachable limit s \<Longrightarrow> charge_step limit s t \<Longrightarrow> charge_reachable limit t"

definition charge_inv :: "nat \<Rightarrow> charge_state \<Rightarrow> bool" where
  "charge_inv limit s \<longleftrightarrow> cs_granted s = cs_counter s \<and> cs_counter s \<le> limit \<and>
     (\<forall>i used. cs_pc s i = Loaded used \<longrightarrow> used \<le> cs_counter s) \<and>
     (cs_refused s > 0 \<longrightarrow> cs_counter s = limit)"

lemma charge_inv_init: "charge_inv limit charge_init"
  by (simp add: charge_inv_def charge_init_def)

lemma charge_inv_step: "charge_step limit s t \<Longrightarrow> charge_inv limit s \<Longrightarrow> charge_inv limit t"
proof (induction rule: charge_step.induct)
  case (refuse s i used)
  then have "used \<le> cs_counter s" by (auto simp: charge_inv_def)
  moreover have "cs_counter s \<le> limit" using refuse.prems by (simp add: charge_inv_def)
  ultimately have "cs_counter s = limit" using refuse.hyps(2) by simp
  with refuse show ?case by (auto simp: charge_inv_def)
next
  case (exchange s i used)
  then show ?case by (fastforce simp: charge_inv_def split: if_splits intro: le_SucI)
qed (auto simp: charge_inv_def)

lemma charge_reachable_inv: "charge_reachable limit s \<Longrightarrow> charge_inv limit s"
  by (induction rule: charge_reachable.induct) (auto intro: charge_inv_init charge_inv_step)

text \<open>
  C20. However the agents that share a counter interleave, the number of granted charges is
  the counter's value and never exceeds the limit, and a charge is refused only when the whole
  limit has been granted.
\<close>

theorem concurrent_charges_never_overshoot:
  assumes "charge_reachable limit s"
  shows "cs_granted s = cs_counter s \<and> cs_granted s \<le> limit \<and> (cs_refused s > 0 \<longrightarrow> cs_granted s = limit)"
  using charge_reachable_inv [OF assms] by (simp add: charge_inv_def)

theorem concurrent_charges_never_overshoot_witness:
  "\<exists>s. charge_reachable 1 s \<and> cs_granted s = cs_counter s \<and> cs_granted s \<le> 1 \<and> cs_refused s > 0"
proof -
  define s1 where "s1 = charge_init\<lparr>cs_pc := (cs_pc charge_init)(0 := Loaded 0)\<rparr>"
  define s2 where "s2 = s1\<lparr>cs_counter := 0 + 1, cs_pc := (cs_pc s1)(0 := Idle), cs_granted := cs_granted s1 + 1\<rparr>"
  define s3 where "s3 = s2\<lparr>cs_pc := (cs_pc s2)(1 := Loaded 1)\<rparr>"
  define s4 where "s4 = s3\<lparr>cs_pc := (cs_pc s3)(1 := Idle), cs_refused := cs_refused s3 + 1\<rparr>"
  note defs = s4_def s3_def s2_def s1_def charge_init_def
  have "charge_step 1 charge_init s1"
    using charge_step.load [of charge_init 0 1] by (simp add: s1_def charge_init_def)
  then have 1: "charge_reachable 1 s1" by (rule charge_reachable.step [OF charge_reachable.start])
  have "charge_step 1 s1 s2"
    unfolding s2_def by (rule charge_step.exchange) (simp_all add: defs)
  with 1 have 2: "charge_reachable 1 s2" by (rule charge_reachable.step)
  have "charge_step 1 s2 s3"
    using charge_step.load [of s2 1 1] by (simp add: defs)
  with 2 have 3: "charge_reachable 1 s3" by (rule charge_reachable.step)
  have "charge_step 1 s3 s4"
    unfolding s4_def by (rule charge_step.refuse [where used = 1]) (simp_all add: defs)
  with 3 have 4: "charge_reachable 1 s4" by (rule charge_reachable.step)
  moreover have "cs_refused s4 > 0" by (simp add: defs)
  ultimately show ?thesis using concurrent_charges_never_overshoot [OF 4] by blast
qed

end
