(* ===== verification/Chat.thy ===== *)
theory Chat
  imports Rust_Std
begin

text \<open>
  The shared data of \<^verbatim>\<open>crates/xshell-core/src/lib.rs\<close>: the routing of input lines, chat
  messages, tool calls and provider responses, and the JSON values they carry. Protocol
  consistency of a conversation (every tool call is answered, in order, by its own results) is
  defined here because compaction and the turn engine both have to keep it.
\<close>

section \<open>JSON values\<close>

text \<open>
  \<open>serde_json::Value\<close>. A number is an unsigned integer, a negative integer or a float given by
  its bit pattern; an object is the list of its entries in key order.
\<close>

datatype json_number = PosInt "64 word" | NegInt "64 word" | Float "64 word"

datatype json =
    JNull
  | JBool bool
  | JNumber json_number
  | JString string
  | JArray "json list"
  | JObject "(string \<times> json) list"

definition json_get :: "json \<Rightarrow> string \<Rightarrow> json option" where
  "json_get v key = (case v of JObject entries \<Rightarrow> map_of entries key | _ \<Rightarrow> None)"

definition as_str :: "json \<Rightarrow> string option" where
  "as_str v = (case v of JString s \<Rightarrow> Some s | _ \<Rightarrow> None)"

definition as_u64 :: "json_number \<Rightarrow> 64 word option" where
  "as_u64 n = (case n of PosInt w \<Rightarrow> Some w | _ \<Rightarrow> None)"

definition as_i64 :: "json_number \<Rightarrow> 64 word option" where
  "as_i64 n =
     (case n of
        PosInt w \<Rightarrow> if unat w < 2 ^ 63 then Some w else None
      | NegInt w \<Rightarrow> Some w
      | Float _ \<Rightarrow> None)"

section \<open>Input routing\<close>

datatype control_command =
    Help
  | History
  | Status
  | Audit "string list"
  | Tools
  | Model "string list"
  | Limits "string list"
  | AgentCommand "string list"
  | View string
  | Connect "string list"
  | Sessions
  | Resume "string list"
  | Stop "string list"
  | New "string list"
  | Switch "string list"
  | Detach
  | Close "string list"
  | Quit
  | Unknown string "string list"

datatype input_route =
    Agent string
  | Shell string
  | StickyShell string
  | Control control_command
  | Empty

definition parse_control :: "string \<Rightarrow> control_command" where
  "parse_control input =
     (let (name, after) = split_first_ws input;
          rest = trim (case after of Some r \<Rightarrow> r | None \<Rightarrow> [])
      in if name = ''view'' then View rest
         else
           let args = split_whitespace rest in
           if name = ''help'' then Help
           else if name = ''history'' then History
           else if name = ''status'' then Status
           else if name = ''audit'' then Audit args
           else if name = ''tools'' then Tools
           else if name = ''model'' then Model args
           else if name = ''limits'' then Limits args
           else if name = ''agent'' then AgentCommand args
           else if name = ''connect'' then Connect args
           else if name = ''sessions'' then Sessions
           else if name = ''resume'' then Resume args
           else if name = ''stop'' then Stop args
           else if name = ''new'' then New args
           else if name = ''switch'' then Switch args
           else if name = ''detach'' then Detach
           else if name = ''close'' then Close args
           else if name = ''quit'' \<or> name = ''exit'' then Quit
           else Unknown name args)"

definition classify_input :: "string \<Rightarrow> input_route" where
  "classify_input input =
     (let trimmed = trim input in
      if trimmed = [] then Empty
      else case strip_prefix ''//'' trimmed of
        Some control \<Rightarrow> Control (parse_control control)
      | None \<Rightarrow>
          (case strip_prefix ''$$'' trimmed of
             Some shell \<Rightarrow> StickyShell (trim_start shell)
           | None \<Rightarrow>
               (case strip_prefix ''$'' trimmed of
                  Some shell \<Rightarrow> Shell (trim_start shell)
                | None \<Rightarrow> Agent trimmed)))"

section \<open>Messages and tool calls\<close>

datatype message_role = System | User | Assistant | Tool

record tool_call =
  tc_id :: string
  tc_name :: string
  tc_arguments :: json

record chat_message =
  role :: message_role
  content :: string
  tool_calls :: "tool_call list"
  tool_call_id :: "string option"
  tool_name :: "string option"
  reasoning :: "string option"

definition system_message :: "string \<Rightarrow> chat_message" where
  "system_message text = \<lparr>role = System, content = text, tool_calls = [], tool_call_id = None,
     tool_name = None, reasoning = None\<rparr>"

definition user_message :: "string \<Rightarrow> chat_message" where
  "user_message text = \<lparr>role = User, content = text, tool_calls = [], tool_call_id = None,
     tool_name = None, reasoning = None\<rparr>"

definition assistant_message :: "string \<Rightarrow> chat_message" where
  "assistant_message text = \<lparr>role = Assistant, content = text, tool_calls = [], tool_call_id = None,
     tool_name = None, reasoning = None\<rparr>"

definition assistant_with_tools :: "string \<Rightarrow> tool_call list \<Rightarrow> chat_message" where
  "assistant_with_tools text calls = \<lparr>role = Assistant, content = text, tool_calls = calls,
     tool_call_id = None, tool_name = None, reasoning = None\<rparr>"

definition with_reasoning :: "chat_message \<Rightarrow> string option \<Rightarrow> chat_message" where
  "with_reasoning m r =
     m\<lparr>reasoning := (case r of Some text \<Rightarrow> if trim text \<noteq> [] then Some text else None | None \<Rightarrow> None)\<rparr>"

definition tool_result :: "tool_call \<Rightarrow> string \<Rightarrow> chat_message" where
  "tool_result call text = \<lparr>role = Tool, content = text, tool_calls = [],
     tool_call_id = Some (tc_id call), tool_name = Some (tc_name call), reasoning = None\<rparr>"

record assistant_response =
  ar_content :: string
  ar_tool_calls :: "tool_call list"
  ar_reasoning :: "string option"
  ar_finish_reason :: "string option"

datatype adapter_error =
    Transport string
  | Http nat string
  | InvalidResponse string
  | ContextOverflow "nat option" "nat option"

definition adapter_error_message :: "adapter_error \<Rightarrow> string" where
  "adapter_error_message e =
     (case e of
        Transport m \<Rightarrow> ''the connection to the agent endpoint failed: '' @ m
      | Http code body \<Rightarrow>
          ''the agent endpoint rejected the request ('' @ show_nat code @ ''): '' @ body
      | InvalidResponse m \<Rightarrow> ''the agent returned an invalid response: '' @ m
      | ContextOverflow _ _ \<Rightarrow> ''the prompt exceeds the model''@ [char_of (39 :: nat)] @ ''s context window'')"

text \<open>
  Input routing never hands a control line or a shell line to the agent: text reaches the
  agent exactly when the trimmed line is not empty and starts with neither \<open>//\<close> nor \<open>$\<close>, and
  it is then the trimmed line.
\<close>

theorem classify_input_agent:
  "classify_input input = Agent text \<longleftrightarrow>
     text = trim input \<and> text \<noteq> [] \<and> \<not> starts_with text ''//'' \<and> \<not> starts_with text ''$''"
proof -
  have "prefix ''$$'' t \<Longrightarrow> prefix ''$'' t" for t :: string
    by (auto simp: prefix_def)
  then show ?thesis
    by (auto simp: classify_input_def Let_def starts_with_def strip_prefix_def split: if_splits)
qed

section \<open>Protocol consistency of a conversation\<close>

text \<open>
  What a message is, apart from its text: compaction may rewrite texts but not this.
\<close>

definition skeleton :: "chat_message \<Rightarrow> message_role \<times> tool_call list \<times> string option \<times> string option" where
  "skeleton m = (role m, tool_calls m, tool_call_id m, tool_name m)"

definition answers :: "tool_call \<Rightarrow> chat_message \<Rightarrow> bool" where
  "answers call m \<longleftrightarrow> role m = Tool \<and> tool_calls m = [] \<and> tool_call_id m = Some (tc_id call) \<and>
     tool_name m = Some (tc_name call)"

text \<open>
  Every assistant message is followed by one result for each of its tool calls, in order;
  there is no other tool result, and only assistant messages carry calls.
\<close>

inductive paired :: "chat_message list \<Rightarrow> bool" where
  paired_Nil: "paired []"
| paired_plain: "role m = System \<or> role m = User \<Longrightarrow> tool_calls m = [] \<Longrightarrow> paired ms \<Longrightarrow> paired (m # ms)"
| paired_assistant: "role m = Assistant \<Longrightarrow> list_all2 answers (tool_calls m) results \<Longrightarrow>
    paired ms \<Longrightarrow> paired (m # results @ ms)"

lemma paired_append: "paired xs \<Longrightarrow> paired ys \<Longrightarrow> paired (xs @ ys)"
  by (induction rule: paired.induct) (auto intro: paired.intros)

lemma paired_single_plain [simp]:
  "role m = System \<or> role m = User \<Longrightarrow> tool_calls m = [] \<Longrightarrow> paired [m]"
  by (auto intro: paired.intros)

lemma answers_role: "answers call m \<Longrightarrow> role m = Tool"
  by (simp add: answers_def)

lemma answers_tool_result [simp]: "answers call (tool_result call text)"
  by (simp add: answers_def tool_result_def)

lemma list_all2_answers_results:
  "list_all2 answers calls (map (\<lambda>call. tool_result call (f call)) calls)"
  by (induction calls) auto

text \<open>A consistent conversation can be cut in front of any message that is not a tool result.\<close>

lemma append_prefix_split:
  assumes "as @ bs = cs @ ds" and "length as \<le> length cs"
  shows "\<exists>zs. cs = as @ zs \<and> bs = zs @ ds"
proof (intro exI conjI)
  show "cs = as @ drop (length as) cs"
    using arg_cong [OF assms(1), of "take (length as)"] assms(2)
    by (metis append_take_drop_id append_eq_conv_conj take_append diff_is_0_eq take0 append_Nil2)
  show "bs = drop (length as) cs @ ds"
    using arg_cong [OF assms(1), of "drop (length as)"] assms(2) by simp
qed

lemma paired_split:
  assumes "paired zs" and "zs = xs @ y # ys" and "role y \<noteq> Tool"
  shows "paired xs \<and> paired (y # ys)"
  using assms
proof (induction arbitrary: xs rule: paired.induct)
  case paired_Nil
  then show ?case by simp
next
  case (paired_plain m ms)
  show ?case
  proof (cases xs)
    case Nil
    with paired_plain show ?thesis by (auto intro: paired.intros)
  next
    case (Cons x xs')
    with paired_plain have "ms = xs' @ y # ys" and x: "x = m" by auto
    with paired_plain show ?thesis using Cons by (auto intro: paired.intros)
  qed
next
  case (paired_assistant m results ms)
  show ?case
  proof (cases xs)
    case Nil
    with paired_assistant show ?thesis by (auto intro: paired.intros)
  next
    case (Cons x xs')
    with paired_assistant.prems have eq: "results @ ms = xs' @ y # ys" and x: "x = m" by auto
    have rt: "role r = Tool" if "r \<in> set results" for r
      using that paired_assistant.hyps(2) by (auto simp: list_all2_conv_all_nth in_set_conv_nth answers_role)
    have "length results \<le> length xs'"
    proof (rule ccontr)
      assume "\<not> length results \<le> length xs'"
      then have "length xs' < length results" by simp
      with eq have "y = results ! length xs'"
        by (metis nth_append nth_append_length)
      with \<open>length xs' < length results\<close> rt paired_assistant.prems(2) show False by auto
    qed
    then obtain zs where "xs' = results @ zs" and "ms = zs @ y # ys"
      using append_prefix_split [OF eq] by blast
    with paired_assistant.IH paired_assistant.prems(2) have "paired zs \<and> paired (y # ys)" by blast
    with paired_assistant.hyps Cons x \<open>xs' = results @ zs\<close> show ?thesis
      by (auto intro: paired.intros)
  qed
qed

lemma answers_skeleton: "answers call r \<Longrightarrow> skeleton r = skeleton r' \<Longrightarrow> answers call r'"
  by (simp add: answers_def skeleton_def)

lemma list_all2_answers_skeleton:
  assumes "list_all2 answers calls results"
  shows "map skeleton results = map skeleton results' \<Longrightarrow> list_all2 answers calls results'"
  using assms
proof (induction arbitrary: results' rule: list_all2_induct)
  case Nil
  then show ?case by simp
next
  case (Cons call calls r rs)
  then obtain r' rs' where "results' = r' # rs'" by (cases results') auto
  with Cons show ?case by (auto intro: answers_skeleton)
qed

text \<open>Consistency does not depend on the texts.\<close>

lemma paired_skeleton: "paired xs \<Longrightarrow> map skeleton xs = map skeleton ys \<Longrightarrow> paired ys"
proof (induction arbitrary: ys rule: paired.induct)
  case paired_Nil
  then show ?case by (simp add: paired.intros)
next
  case (paired_plain m ms)
  then obtain m' ms' where "ys = m' # ms'" and "skeleton m = skeleton m'"
    and "map skeleton ms = map skeleton ms'" by (cases ys) auto
  with paired_plain show ?case by (auto simp: skeleton_def intro: paired.intros)
next
  case (paired_assistant m results ms)
  then obtain m' zs where y: "ys = m' # zs" and m: "skeleton m = skeleton m'"
    and z: "map skeleton (results @ ms) = map skeleton zs" by (cases ys) auto
  define rs where "rs = take (length results) zs"
  define os where "os = drop (length results) zs"
  have r: "map skeleton results = map skeleton rs"
    using arg_cong [OF z, of "take (length results)"] by (simp add: rs_def take_map)
  have o: "map skeleton ms = map skeleton os"
    using arg_cong [OF z, of "drop (length results)"] by (simp add: os_def drop_map)
  have "paired os" by (rule paired_assistant.IH [OF o])
  moreover have "tool_calls m' = tool_calls m" using m by (simp add: skeleton_def)
  then have "list_all2 answers (tool_calls m') rs"
    using list_all2_answers_skeleton [OF paired_assistant.hyps(2) r] by simp
  moreover have "role m' = Assistant" using m paired_assistant.hyps(1) by (simp add: skeleton_def)
  ultimately show ?case
    unfolding y using paired.paired_assistant [of m' rs os] by (simp add: rs_def os_def)
qed

end
