(* ===== verification/Compaction.thy ===== *)
theory Compaction
  imports Chat
begin

text \<open>
  History compaction (\<open>xshell-execution/src/compaction.rs\<close>): the size of a history, the eviction
  of whole turns, the elision of tool results, the budget derived from a model's context window,
  and the contract of the \<open>Compactor\<close> trait with its two implementations.

  \<open>js\<close> stands for \<open>serde_json::Value::to_string\<close> (only its length is used) and \<open>schema\<close> for the
  serialized tool definitions. Byte counts are natural numbers: they are sums of sizes of
  strings held in memory. Every subtraction of the source is one of a number that was added
  before, see \<open>elide_tools_spec\<close>, \<open>truncate_newest_spec\<close> and \<open>drop_reasoning_spec\<close>.
\<close>

section \<open>Constants and sizes\<close>

definition BYTES_PER_TOKEN :: nat where
  "BYTES_PER_TOKEN = 3"

definition REQUEST_OVERHEAD_TOKENS :: nat where
  "REQUEST_OVERHEAD_TOKENS = 1024"

definition MINIMUM_HISTORY_TOKENS :: nat where
  "MINIMUM_HISTORY_TOKENS = 256"

definition DEFAULT_RESERVE_OUTPUT_TOKENS :: nat where
  "DEFAULT_RESERVE_OUTPUT_TOKENS = 1024"

definition HISTORY_NUMERATOR :: nat where
  "HISTORY_NUMERATOR = 9"

definition HISTORY_DENOMINATOR :: nat where
  "HISTORY_DENOMINATOR = 10"

definition MINIMUM_HISTORY_BYTES :: nat where
  "MINIMUM_HISTORY_BYTES = 1024"

definition ELIDED_MARKER :: string where
  "ELIDED_MARKER = ''[xshell: tool result elided by history compaction]''"

definition TRUNCATED_MARKER :: string where
  "TRUNCATED_MARKER = char_of (10 :: nat) # ''[xshell: tool result truncated to fit the history budget]''"

definition OVERFLOW_DROPPED_MARKER :: string where
  "OVERFLOW_DROPPED_MARKER = ''[xshell: tool result dropped because the request exceeded the model''
     @ char_of (39 :: nat) # ''s context window]''"

record compaction_report =
  cr_compactor :: string
  messages_before :: nat
  messages_after :: nat
  bytes_before :: nat
  bytes_after :: nat
  turns_removed :: nat

definition message_bytes :: "(json \<Rightarrow> string) \<Rightarrow> chat_message \<Rightarrow> nat" where
  "message_bytes js m =
     length (content m)
     + (case reasoning m of None \<Rightarrow> 0 | Some r \<Rightarrow> length r)
     + sum_list (map (\<lambda>call. length (tc_name call) + length (js (tc_arguments call))) (tool_calls m))"

definition history_bytes :: "(json \<Rightarrow> string) \<Rightarrow> chat_message list \<Rightarrow> nat" where
  "history_bytes js h = sum_list (map (message_bytes js) h)"

definition estimate_tokens :: "nat \<Rightarrow> nat" where
  "estimate_tokens bytes = saturating_add bytes (BYTES_PER_TOKEN - 1) div BYTES_PER_TOKEN"

definition estimate_history_tokens :: "(json \<Rightarrow> string) \<Rightarrow> chat_message list \<Rightarrow> nat" where
  "estimate_history_tokens js h = estimate_tokens (history_bytes js h)"

text \<open>\<open>serde_json::to_string\<close> of the definitions gives \<open>None\<close> where it fails.\<close>

definition tool_schema_overhead_tokens :: "string option \<Rightarrow> nat" where
  "tool_schema_overhead_tokens schema =
     max (case schema of Some s \<Rightarrow> estimate_tokens (length s) | None \<Rightarrow> 0) REQUEST_OVERHEAD_TOKENS"

text \<open>The positions of the elements with a property, as \<open>enumerate\<close> and a test find them.\<close>

definition indices :: "('a \<Rightarrow> bool) \<Rightarrow> 'a list \<Rightarrow> nat list" where
  "indices P xs = filter (\<lambda>i. P (xs ! i)) [0..<length xs]"

abbreviation is_user :: "chat_message \<Rightarrow> bool" where
  "is_user m \<equiv> role m = User"

definition turn_starts :: "chat_message list \<Rightarrow> nat \<times> nat list" where
  "turn_starts h =
     (let starts = indices is_user h
      in (case starts of [] \<Rightarrow> length h | s # _ \<Rightarrow> s, starts))"

lemma role_system_message [simp]: "role (system_message t) = System"
  by (simp add: system_message_def)

lemma role_user_message [simp]: "role (user_message t) = User"
  by (simp add: user_message_def)

section \<open>Elision\<close>

text \<open>\<open>iter().rposition(p)\<close>.\<close>

definition rposition :: "('a \<Rightarrow> bool) \<Rightarrow> 'a list \<Rightarrow> nat option" where
  "rposition P xs =
     (case rev (indices P xs) of [] \<Rightarrow> None | i # _ \<Rightarrow> Some i)"

text \<open>
  The first loop of \<open>elide_oversized_bodies\<close>: index of the message, tracked total, count of
  changes, and the messages that are left.
\<close>

fun elide_tools ::
  "nat \<Rightarrow> nat option \<Rightarrow> nat \<Rightarrow> nat \<Rightarrow> nat \<Rightarrow> chat_message list \<Rightarrow> chat_message list \<times> nat \<times> nat" where
  "elide_tools limit newest i tot changed [] = ([], tot, changed)"
| "elide_tools limit newest i tot changed (m # ms) =
     (if tot \<le> limit \<or> Some i = newest then
        if tot \<le> limit then (m # ms, tot, changed)
        else (let (rest, s, c) = elide_tools limit newest (Suc i) tot changed ms in (m # rest, s, c))
      else if role m \<noteq> Tool \<or> length (content m) \<le> length ELIDED_MARKER then
        (let (rest, s, c) = elide_tools limit newest (Suc i) tot changed ms in (m # rest, s, c))
      else
        (let tot' = tot - length (content m);
             m' = m\<lparr>content := ELIDED_MARKER\<rparr>;
             (rest, s, c) =
               elide_tools limit newest (Suc i) (tot' + length (content m')) (Suc changed) ms
         in (m' # rest, s, c)))"

definition truncate_newest ::
  "(json \<Rightarrow> string) \<Rightarrow> nat \<Rightarrow> nat option \<Rightarrow> nat \<Rightarrow> nat \<Rightarrow> chat_message list \<Rightarrow>
     chat_message list \<times> nat \<times> nat" where
  "truncate_newest js limit newest tot changed h =
     (case newest of
        Some i \<Rightarrow>
          if tot > limit then
            let m = h ! i;
                budget = limit - (tot - message_bytes js m)
            in if length (content m) > budget \<and> budget > length TRUNCATED_MARKER then
                 let k = floor_boundary (content m)
                           (min (budget - length TRUNCATED_MARKER) (length (content m)));
                     before = length (content m);
                     m' = m\<lparr>content := take k (content m) @ TRUNCATED_MARKER\<rparr>
                 in (h[i := m'], tot - before + length (content m'), Suc changed)
               else (h, tot, changed)
          else (h, tot, changed)
      | None \<Rightarrow> (h, tot, changed))"

fun drop_reasoning ::
  "nat \<Rightarrow> nat \<Rightarrow> nat \<Rightarrow> chat_message list \<Rightarrow> chat_message list \<times> nat \<times> nat" where
  "drop_reasoning limit tot changed [] = ([], tot, changed)"
| "drop_reasoning limit tot changed (m # ms) =
     (if tot \<le> limit then (m # ms, tot, changed)
      else case reasoning m of
        Some r \<Rightarrow>
          (let (rest, s, c) = drop_reasoning limit (tot - length r) (Suc changed) ms
           in (m\<lparr>reasoning := None\<rparr> # rest, s, c))
      | None \<Rightarrow>
          (let (rest, s, c) = drop_reasoning limit tot changed ms in (m # rest, s, c)))"

definition elide_oversized_bodies ::
  "(json \<Rightarrow> string) \<Rightarrow> chat_message list \<Rightarrow> nat \<Rightarrow> chat_message list \<times> nat" where
  "elide_oversized_bodies js h limit =
     (let tot = history_bytes js h in
      if tot \<le> limit then (h, 0)
      else
        let newest = rposition (\<lambda>m. role m = Tool) h;
            (h1, s1, c1) = elide_tools limit newest 0 tot 0 h;
            (h2, s2, c2) = truncate_newest js limit newest s1 c1 h1;
            (h3, s3, c3) = (if s2 > limit then drop_reasoning limit s2 c2 h2 else (h2, s2, c2))
        in (h3, c3))"

definition drop_tool_payload :: "chat_message \<Rightarrow> chat_message \<times> bool" where
  "drop_tool_payload m =
     (let touched = (reasoning m \<noteq> None);
          m1 = m\<lparr>reasoning := None\<rparr>
      in if role m1 = Tool \<and> content m1 \<noteq> OVERFLOW_DROPPED_MARKER
         then (m1\<lparr>content := OVERFLOW_DROPPED_MARKER\<rparr>, True)
         else (m1, touched))"

definition drop_tool_payloads :: "chat_message list \<Rightarrow> chat_message list \<times> nat" where
  "drop_tool_payloads ms =
     (let rs = map drop_tool_payload ms in (map fst rs, length (filter snd rs)))"

section \<open>The compactors\<close>

definition evict_turns :: "(json \<Rightarrow> string) \<Rightarrow> chat_message list \<Rightarrow> nat \<Rightarrow> chat_message list \<times> nat" where
  "evict_turns js h limit =
     (let (pre, starts) = turn_starts h in
      if length starts \<ge> 2 then
        let prefix_bytes = history_bytes js (take pre h);
            keep_from_turn =
              (case find (\<lambda>k. prefix_bytes + history_bytes js (drop (starts ! k) h) \<le> limit)
                      [0..<length starts] of
                 Some k \<Rightarrow> k
               | None \<Rightarrow> length starts - 1)
        in if keep_from_turn > 0
           then (take pre h @ drop (starts ! keep_from_turn) h, keep_from_turn)
           else (h, 0)
      else (h, 0))"

definition compact_to ::
  "(json \<Rightarrow> string) \<Rightarrow> chat_message list \<Rightarrow> nat \<Rightarrow> chat_message list \<times> compaction_report option" where
  "compact_to js h limit =
     (if history_bytes js h \<le> limit then (h, None)
      else
        let (h1, removed) = evict_turns js h limit;
            (h2, elided) = elide_oversized_bodies js h1 limit
        in if removed = 0 \<and> elided = 0 then (h2, None)
           else (h2, Some \<lparr>cr_compactor = ''max_history_bytes'',
                   messages_before = length h, messages_after = length h2,
                   bytes_before = history_bytes js h, bytes_after = history_bytes js h2,
                   turns_removed = removed\<rparr>))"

datatype compactor = NoCompaction | MaxBytesCompactor nat

fun compactor_name :: "compactor \<Rightarrow> string" where
  "compactor_name NoCompaction = ''none''"
| "compactor_name (MaxBytesCompactor _) = ''max_history_bytes''"

fun compactor_max_bytes :: "compactor \<Rightarrow> nat option" where
  "compactor_max_bytes NoCompaction = None"
| "compactor_max_bytes (MaxBytesCompactor n) = Some n"

fun compact ::
  "(json \<Rightarrow> string) \<Rightarrow> compactor \<Rightarrow> chat_message list \<Rightarrow> chat_message list \<times> compaction_report option" where
  "compact js NoCompaction h = (h, None)"
| "compact js (MaxBytesCompactor n) h = compact_to js h n"

fun compact_overflow ::
  "(json \<Rightarrow> string) \<Rightarrow> compactor \<Rightarrow> chat_message list \<Rightarrow> chat_message list \<times> compaction_report option" where
  "compact_overflow js NoCompaction h = compact js NoCompaction h"
| "compact_overflow js (MaxBytesCompactor n) h = compact_to js h (max (n div 2) MINIMUM_HISTORY_BYTES)"

section \<open>Configuration\<close>

record model_budget =
  mb_max_history_bytes :: "nat option"
  mb_context_tokens :: "nat option"
  mb_reserve_output_tokens :: "nat option"

record compaction_config =
  cc_max_history_bytes :: "nat option"
  cc_context_tokens :: "nat option"
  cc_reserve_output_tokens :: nat

definition compaction_config_default :: compaction_config where
  "compaction_config_default = \<lparr>cc_max_history_bytes = None, cc_context_tokens = None,
     cc_reserve_output_tokens = DEFAULT_RESERVE_OUTPUT_TOKENS\<rparr>"

definition derived_bytes :: "string option \<Rightarrow> nat \<Rightarrow> nat \<Rightarrow> nat" where
  "derived_bytes schema reserve tokens =
     (let usable = max (tokens - reserve - tool_schema_overhead_tokens schema) MINIMUM_HISTORY_TOKENS
      in saturating_mul (saturating_mul usable HISTORY_NUMERATOR div HISTORY_DENOMINATOR) BYTES_PER_TOKEN)"

definition effective_max_bytes :: "string option \<Rightarrow> compaction_config \<Rightarrow> nat option" where
  "effective_max_bytes schema c =
     (let derived = map_option (derived_bytes schema (cc_reserve_output_tokens c)) (cc_context_tokens c)
      in case (cc_max_history_bytes c, derived) of
           (Some b, d) \<Rightarrow>
             if b = 0 then None
             else (case d of Some d' \<Rightarrow> Some (min b d') | None \<Rightarrow> Some b)
         | (None, d) \<Rightarrow> d)"

definition build_compactor :: "string option \<Rightarrow> compaction_config \<Rightarrow> compactor" where
  "build_compactor schema c =
     (case effective_max_bytes schema c of
        Some n \<Rightarrow> if n > 0 then MaxBytesCompactor n else NoCompaction
      | None \<Rightarrow> NoCompaction)"

definition option_or :: "'a option \<Rightarrow> 'a option \<Rightarrow> 'a option" where
  "option_or a b = (case a of Some x \<Rightarrow> Some x | None \<Rightarrow> b)"

definition for_model :: "compaction_config \<Rightarrow> model_budget \<Rightarrow> compaction_config" where
  "for_model c m =
     \<lparr>cc_max_history_bytes = option_or (mb_max_history_bytes m) (cc_max_history_bytes c),
      cc_context_tokens = option_or (mb_context_tokens m) (cc_context_tokens c),
      cc_reserve_output_tokens =
        (case mb_reserve_output_tokens m of Some r \<Rightarrow> r | None \<Rightarrow> cc_reserve_output_tokens c)\<rparr>"

section \<open>Sizes\<close>

lemma history_bytes_simps [simp]:
  "history_bytes js [] = 0"
  "history_bytes js (m # ms) = message_bytes js m + history_bytes js ms"
  "history_bytes js (xs @ ys) = history_bytes js xs + history_bytes js ys"
  by (simp_all add: history_bytes_def)

lemma message_bytes_update [simp]:
  "message_bytes js (m\<lparr>content := t\<rparr>) = message_bytes js m - length (content m) + length t"
  "message_bytes js (m\<lparr>reasoning := None\<rparr>)
     = message_bytes js m - (case reasoning m of None \<Rightarrow> 0 | Some r \<Rightarrow> length r)"
  by (simp_all add: message_bytes_def split: option.splits)

lemma content_le_message_bytes: "length (content m) \<le> message_bytes js m"
  by (simp add: message_bytes_def)

lemma reasoning_le_message_bytes: "reasoning m = Some r \<Longrightarrow> length r \<le> message_bytes js m"
  by (simp add: message_bytes_def)

lemma skeleton_update [simp]:
  "skeleton (m\<lparr>content := t\<rparr>) = skeleton m"
  "skeleton (m\<lparr>reasoning := r\<rparr>) = skeleton m"
  by (simp_all add: skeleton_def)

lemma history_bytes_update:
  "i < length h \<Longrightarrow>
     history_bytes js (h[i := m]) = history_bytes js h - message_bytes js (h ! i) + message_bytes js m"
proof (induction h arbitrary: i)
  case Nil
  then show ?case by simp
next
  case (Cons x h)
  show ?case
  proof (cases i)
    case 0
    then show ?thesis by simp
  next
    case (Suc j)
    with Cons.prems have "message_bytes js (h ! j) \<le> history_bytes js h"
      by (simp add: history_bytes_def elem_le_sum_list [of j "map (message_bytes js) h", simplified])
    with Suc Cons show ?thesis by simp
  qed
qed

lemma message_le_history_bytes: "i < length h \<Longrightarrow> message_bytes js (h ! i) \<le> history_bytes js h"
  by (simp add: history_bytes_def elem_le_sum_list [of i "map (message_bytes js) h", simplified])

section \<open>What elision keeps\<close>

text \<open>
  One rewriting step of a history: messages keep their place, role, calls and identifiers; only
  tool results lose text, and reasoning may go. \<open>shrunk_to a b\<close> relates a history and its elided
  form.
\<close>

definition shrunk_message :: "chat_message \<Rightarrow> chat_message \<Rightarrow> bool" where
  "shrunk_message m m' \<longleftrightarrow> skeleton m' = skeleton m \<and>
     (role m \<noteq> Tool \<longrightarrow> content m' = content m) \<and>
     length (content m') \<le> length (content m) \<and>
     (reasoning m' = reasoning m \<or> reasoning m' = None)"

definition shrunk :: "chat_message list \<Rightarrow> chat_message list \<Rightarrow> bool" where
  "shrunk h h' \<longleftrightarrow> list_all2 shrunk_message h h'"

lemma shrunk_message_refl [simp]: "shrunk_message m m"
  by (simp add: shrunk_message_def)

lemma shrunk_refl [simp]: "shrunk h h"
  by (simp add: shrunk_def list.rel_refl)

lemma shrunk_Cons [simp]: "shrunk (m # ms) (m' # ms') \<longleftrightarrow> shrunk_message m m' \<and> shrunk ms ms'"
  by (simp add: shrunk_def)

lemma skeleton_role: "skeleton m = skeleton m' \<Longrightarrow> role m = role m'"
  by (simp add: skeleton_def)

lemma shrunk_message_trans:
  "shrunk_message a b \<Longrightarrow> shrunk_message b c \<Longrightarrow> shrunk_message a c"
  unfolding shrunk_message_def using skeleton_role [of b a] by auto

lemma shrunk_trans [trans]: "shrunk a b \<Longrightarrow> shrunk b c \<Longrightarrow> shrunk a c"
  unfolding shrunk_def by (rule list_all2_trans [OF shrunk_message_trans])

lemma shrunk_skeleton: "shrunk h h' \<Longrightarrow> map skeleton h = map skeleton h'"
  unfolding shrunk_def by (induction rule: list_all2_induct) (auto simp: shrunk_message_def)

lemma shrunk_nth: "shrunk h h' \<Longrightarrow> i < length h \<Longrightarrow> shrunk_message (h ! i) (h' ! i)"
  by (simp add: shrunk_def list_all2_nthD)

lemma shrunk_role: "shrunk h h' \<Longrightarrow> i < length h \<Longrightarrow> role (h' ! i) = role (h ! i)"
  using shrunk_nth [of h h' i] by (simp add: shrunk_message_def skeleton_def)

lemma shrunk_length: "shrunk h h' \<Longrightarrow> length h = length h'"
  by (simp add: shrunk_def list_all2_lengthD)

lemma shrunk_paired: "shrunk h h' \<Longrightarrow> paired h \<Longrightarrow> paired h'"
  using paired_skeleton shrunk_skeleton by blast

lemma shrunk_message_bytes: "shrunk_message m m' \<Longrightarrow> message_bytes js m' \<le> message_bytes js m"
  by (auto simp: shrunk_message_def message_bytes_def skeleton_def split: option.splits)

lemma shrunk_bytes: "shrunk h h' \<Longrightarrow> history_bytes js h' \<le> history_bytes js h"
  unfolding shrunk_def
proof (induction rule: list_all2_induct)
  case (Cons m h m' h')
  then show ?case using shrunk_message_bytes [of m m' js] by simp
qed simp

lemma elide_tools_spec:
  assumes "elide_tools limit newest i tot changed h = (h', tot', changed')"
    and "tot = before + history_bytes js h"
  shows "shrunk h h' \<and> tot' = before + history_bytes js h' \<and> changed \<le> changed' \<and>
     (changed' = changed \<longrightarrow> h' = h)"
  using assms
proof (induction h arbitrary: i tot changed before h' tot' changed')
  case Nil
  then show ?case by (simp add: shrunk_def)
next
  case (Cons m h)
  consider (fits) "tot \<le> limit"
    | (skip) "\<not> tot \<le> limit" "Some i = newest \<or> role m \<noteq> Tool \<or> length (content m) \<le> length ELIDED_MARKER"
    | (elide) "\<not> tot \<le> limit" "Some i \<noteq> newest" "role m = Tool"
        "length ELIDED_MARKER < length (content m)"
    by linarith
  then show ?case
  proof cases
    case fits
    with Cons.prems show ?thesis by auto
  next
    case skip
    obtain r t c where e: "elide_tools limit newest (Suc i) tot changed h = (r, t, c)"
      by (metis prod_cases3)
    with skip Cons.prems have "h' = m # r" "tot' = t" "changed' = c" by (auto split: if_splits)
    with Cons.IH [OF e, of "before + message_bytes js m"] Cons.prems(2) show ?thesis by auto
  next
    case elide
    let ?t = "tot - length (content m) + length ELIDED_MARKER"
    obtain r t c where e: "elide_tools limit newest (Suc i) ?t (Suc changed) h = (r, t, c)"
      by (metis prod_cases3)
    with elide Cons.prems have h': "h' = m\<lparr>content := ELIDED_MARKER\<rparr> # r" "tot' = t" "changed' = c"
      by (auto simp: Let_def)
    have "?t = (before + (message_bytes js m - length (content m) + length ELIDED_MARKER)) + history_bytes js h"
      using Cons.prems(2) content_le_message_bytes [of m js] by simp
    from Cons.IH [OF e this] h' elide show ?thesis
      by (auto simp: shrunk_message_def)
  qed
qed

lemma truncated_length:
  assumes "length TRUNCATED_MARKER < budget" and "budget < length body"
  shows "length (take (floor_boundary body (min (budget - length TRUNCATED_MARKER) (length body))) body)
    + length TRUNCATED_MARKER \<le> budget"
  using floor_boundary_le [of body "min (budget - length TRUNCATED_MARKER) (length body)"] assms by simp

lemma truncate_newest_spec:
  assumes "truncate_newest js limit newest tot changed h = (h', tot', changed')"
    and "tot = history_bytes js h" and "\<And>i. newest = Some i \<Longrightarrow> i < length h \<and> role (h ! i) = Tool"
  shows "shrunk h h' \<and> tot' = history_bytes js h' \<and> changed \<le> changed' \<and>
     (changed' = changed \<longrightarrow> h' = h)"
proof (cases "h' = h \<and> tot' = tot \<and> changed' = changed")
  case True
  with assms show ?thesis by simp
next
  case False
  define m where "m = h ! the newest"
  define budget where "budget = limit - (tot - message_bytes js m)"
  define k where "k = floor_boundary (content m) (min (budget - length TRUNCATED_MARKER) (length (content m)))"
  define m' where "m' = m\<lparr>content := take k (content m) @ TRUNCATED_MARKER\<rparr>"
  from False assms(1) obtain i where i: "newest = Some i"
    by (auto simp: truncate_newest_def split: option.splits)
  with assms(3) have il: "i < length h" and tool: "role (h ! i) = Tool" by auto
  from False assms(1) i have b: "budget < length (content m)" "length TRUNCATED_MARKER < budget"
    and r: "h' = h[i := m']" "tot' = tot - length (content m) + length (content m')" "changed' = Suc changed"
    by (auto simp: truncate_newest_def Let_def m_def budget_def k_def m'_def split: if_splits)
  have len: "length (content m') < length (content m)"
    using truncated_length [OF b(2,1)] b(1) by (simp add: m'_def k_def)
  have mm: "m = h ! i" by (simp add: m_def i)
  have "shrunk_message m m'"
    using len tool mm by (simp add: shrunk_message_def m'_def)
  then have "shrunk h h'"
    unfolding r shrunk_def using il mm by (auto simp: list_all2_conv_all_nth nth_list_update)
  moreover have "message_bytes js m \<le> history_bytes js h"
    unfolding mm by (rule message_le_history_bytes [OF il])
  moreover have "length (content m) \<le> message_bytes js m" by (rule content_le_message_bytes)
  ultimately show ?thesis
    using il assms(2) r history_bytes_update [OF il, of js m'] mm by (simp add: m'_def)
qed

lemma drop_reasoning_spec:
  assumes "drop_reasoning limit tot changed h = (h', tot', changed')"
    and "tot = before + history_bytes js h"
  shows "shrunk h h' \<and> tot' = before + history_bytes js h' \<and> changed \<le> changed' \<and>
     (changed' = changed \<longrightarrow> h' = h) \<and> (tot' \<le> limit \<or> (\<forall>m \<in> set h'. reasoning m = None))"
  using assms
proof (induction h arbitrary: tot changed before h' tot' changed')
  case Nil
  then show ?case by (simp add: shrunk_def)
next
  case (Cons m h)
  show ?case
  proof (cases "tot \<le> limit")
    case True
    with Cons.prems show ?thesis by auto
  next
    case over: False
    show ?thesis
    proof (cases "reasoning m")
      case None
      obtain r t c where e: "drop_reasoning limit tot changed h = (r, t, c)" by (metis prod_cases3)
      with over None Cons.prems have "h' = m # r" "tot' = t" "changed' = c" by auto
      with Cons.IH [OF e, of "before + message_bytes js m"] Cons.prems(2) None show ?thesis by auto
    next
      case (Some x)
      obtain r t c where e: "drop_reasoning limit (tot - length x) (Suc changed) h = (r, t, c)"
        by (metis prod_cases3)
      with over Some Cons.prems have h': "h' = m\<lparr>reasoning := None\<rparr> # r" "tot' = t" "changed' = c" by auto
      have "tot - length x = (before + (message_bytes js m - length x)) + history_bytes js h"
        using Cons.prems(2) reasoning_le_message_bytes [OF Some, of js] by simp
      from Cons.IH [OF e this] h' Some show ?thesis
        by (auto simp: shrunk_message_def)
    qed
  qed
qed

lemma indices_snoc: "indices P (xs @ [x]) = indices P xs @ (if P x then [length xs] else [])"
proof -
  have "filter (\<lambda>i. P ((xs @ [x]) ! i)) [0..<length xs] = filter (\<lambda>i. P (xs ! i)) [0..<length xs]"
    by (rule filter_cong) (auto simp: nth_append)
  then show ?thesis by (simp add: indices_def)
qed

lemma indices_length: "length (indices P xs) = length (filter P xs)"
  by (induction xs rule: rev_induct) (auto simp: indices_snoc indices_def [of P "[]"])

lemma indices_nth:
  "k < length (indices P xs) \<Longrightarrow>
     indices P xs ! k < length xs \<and> P (xs ! (indices P xs ! k)) \<and>
     length (filter P (take (indices P xs ! k) xs)) = k"
proof (induction xs rule: rev_induct)
  case Nil
  then show ?case by (simp add: indices_def)
next
  case (snoc x xs)
  show ?case
  proof (cases "k < length (indices P xs)")
    case True
    with snoc.IH show ?thesis by (auto simp: indices_snoc nth_append)
  next
    case False
    with snoc.prems have "P x" "k = length (indices P xs)"
      by (auto simp: indices_snoc split: if_splits)
    then show ?thesis by (simp add: indices_snoc nth_append indices_length)
  qed
qed

lemma set_indices: "i \<in> set (indices P xs) \<longleftrightarrow> i < length xs \<and> P (xs ! i)"
  by (auto simp: indices_def)

lemma rposition_Some:
  assumes "rposition P xs = Some i"
  shows "i < length xs \<and> P (xs ! i) \<and> (\<forall>k < length xs. P (xs ! k) \<longrightarrow> k \<le> i)"
proof -
  from assms obtain ks where r: "indices P xs = ks @ [i]"
    by (auto simp: rposition_def rev_eq_Cons_iff split: list.splits)
  have "sorted (ks @ [i])" unfolding r [symmetric] indices_def by (rule sorted_wrt_filter) simp
  moreover have "k \<in> set (ks @ [i])" if "k < length xs" "P (xs ! k)" for k
    using that by (simp add: set_indices flip: r)
  ultimately show ?thesis
    using set_indices [of i P xs] r by (fastforce simp: sorted_append)
qed

text \<open>Elision that stops above the limit has reached every tool result but the newest.\<close>

lemma elide_tools_over:
  assumes "elide_tools limit newest i tot changed h = (h', tot', changed')" and "tot' > limit"
  shows "\<forall>k < length h'. role (h' ! k) = Tool \<and> Some (i + k) \<noteq> newest \<longrightarrow>
     length (content (h' ! k)) \<le> length ELIDED_MARKER"
  using assms
proof (induction limit newest i tot changed h arbitrary: h' tot' changed' rule: elide_tools.induct)
  case (1 limit newest i tot changed)
  then show ?case by simp
next
  case (2 limit newest i tot changed m ms)
  from "2.prems" have over: "\<not> tot \<le> limit" by (auto split: if_splits)
  obtain m1 ms1 t1 c1 where h': "h' = m1 # ms1" "tot' = t1"
    and m1: "Some i = newest \<or> role m1 \<noteq> Tool \<or> length (content m1) \<le> length ELIDED_MARKER"
    and IH: "\<forall>k < length ms1. role (ms1 ! k) = Tool \<and> Some (Suc i + k) \<noteq> newest \<longrightarrow>
      length (content (ms1 ! k)) \<le> length ELIDED_MARKER"
    using "2.prems" over "2.IH" by (auto simp: Let_def split: if_splits prod.splits)
  show ?case
  proof (intro allI impI)
    fix k
    assume "k < length h'" and "role (h' ! k) = Tool \<and> Some (i + k) \<noteq> newest"
    with h' m1 IH show "length (content (h' ! k)) \<le> length ELIDED_MARKER"
      by (cases k) auto
  qed
qed

lemma elide_oversized_bodies_spec:
  assumes "elide_oversized_bodies js h limit = (h', n)"
  shows "shrunk h h' \<and> (n = 0 \<longrightarrow> h' = h) \<and>
    (history_bytes js h' \<le> limit \<or>
      (\<forall>m \<in> set h'. reasoning m = None) \<and>
      (\<forall>i j. i < j \<and> j < length h' \<and> role (h' ! i) = Tool \<and> role (h' ! j) = Tool \<longrightarrow>
         length (content (h' ! i)) \<le> length ELIDED_MARKER))"
proof (cases "history_bytes js h \<le> limit")
  case True
  with assms show ?thesis by (simp add: elide_oversized_bodies_def)
next
  case over: False
  define newest where "newest = rposition (\<lambda>m. role m = Tool) h"
  obtain h1 s1 c1 where e1: "elide_tools limit newest 0 (history_bytes js h) 0 h = (h1, s1, c1)"
    by (metis prod_cases3)
  obtain h2 s2 c2 where e2: "truncate_newest js limit newest s1 c1 h1 = (h2, s2, c2)"
    by (metis prod_cases3)
  obtain h3 s3 c3 where e3: "(if s2 > limit then drop_reasoning limit s2 c2 h2 else (h2, s2, c2)) = (h3, s3, c3)"
    by (metis prod_cases3)
  have r: "h' = h3" "n = c3"
    using assms over e1 e2 e3 by (auto simp: elide_oversized_bodies_def Let_def newest_def)
  note p1 = elide_tools_spec [OF e1, of 0 js, simplified]
  have new: "i < length h1 \<and> role (h1 ! i) = Tool" if "newest = Some i" for i
    using rposition_Some [of _ h i] that shrunk_role [of h h1] shrunk_length [of h h1] p1
    by (auto simp: newest_def)
  have p2: "shrunk h1 h2 \<and> s2 = history_bytes js h2 \<and> c1 \<le> c2 \<and> (c2 = c1 \<longrightarrow> h2 = h1)"
    using truncate_newest_spec [OF e2 _ new] p1 by blast
  have p3: "shrunk h2 h3 \<and> s3 = history_bytes js h3 \<and> c2 \<le> c3 \<and> (c3 = c2 \<longrightarrow> h3 = h2) \<and>
      (s3 \<le> limit \<or> (\<forall>m \<in> set h3. reasoning m = None))"
    using e3 p2 drop_reasoning_spec [of limit s2 c2 h2 h3 s3 c3 0 js] by (auto split: if_splits)
  have sh: "shrunk h h3" and sh1: "shrunk h1 h3"
    using p1 p2 p3 shrunk_trans by blast+
  have "length (content (h3 ! i)) \<le> length ELIDED_MARKER"
    if "s3 > limit" "i < j" "j < length h3" "role (h3 ! i) = Tool" "role (h3 ! j) = Tool" for i j
  proof -
    have len: "length h1 = length h3" "length h = length h3"
      using shrunk_length sh sh1 by blast+
    have "s1 > limit" using that(1) p1 p3 shrunk_bytes [OF sh1, of js] by simp
    moreover have "newest \<noteq> Some i"
      using rposition_Some [of _ h i] that(2,3,5) shrunk_role [OF sh, of j] len by (fastforce simp: newest_def)
    moreover have "role (h1 ! i) = Tool" using shrunk_role [OF sh1, of i] that len by simp
    ultimately have "length (content (h1 ! i)) \<le> length ELIDED_MARKER"
      using elide_tools_over [OF e1] that len by auto
    then show ?thesis using shrunk_nth [OF sh1, of i] that len by (simp add: shrunk_message_def)
  qed
  moreover have "n = 0 \<longrightarrow> h' = h" using r p1 p2 p3 by auto
  ultimately show ?thesis using sh p3 unfolding r by (meson not_le)
qed

subsection \<open>Where elision stops\<close>

text \<open>
  The last tool result of a history, the reasoning it holds, and tool results that carry nothing but
  their text, as \<open>ChatMessage::tool\<close> makes them.
\<close>

definition newest_tool_at :: "chat_message list \<Rightarrow> nat \<Rightarrow> bool" where
  "newest_tool_at h j \<longleftrightarrow> j < length h \<and> role (h ! j) = Tool \<and>
     (\<forall>k. j < k \<and> k < length h \<longrightarrow> role (h ! k) \<noteq> Tool)"

definition reasoning_bytes :: "chat_message list \<Rightarrow> nat" where
  "reasoning_bytes h = sum_list (map (\<lambda>m. case reasoning m of None \<Rightarrow> 0 | Some r \<Rightarrow> length r) h)"

definition plain_tool_results :: "chat_message list \<Rightarrow> bool" where
  "plain_tool_results h \<longleftrightarrow> list_all (\<lambda>m. role m = Tool \<longrightarrow> reasoning m = None \<and> tool_calls m = []) h"

lemma newest_tool_rposition:
  assumes "newest_tool_at h j"
  shows "rposition (\<lambda>m. role m = Tool) h = Some j"
proof -
  from assms have "j \<in> set (indices (\<lambda>m. role m = Tool) h)" by (simp add: set_indices newest_tool_at_def)
  then obtain i where i: "rposition (\<lambda>m. role m = Tool) h = Some i"
    by (cases "indices (\<lambda>m. role m = Tool) h" rule: rev_cases) (auto simp: rposition_def)
  from rposition_Some [OF this] assms have "j \<le> i" "\<not> j < i" unfolding newest_tool_at_def by blast+
  with i show ?thesis by simp
qed

lemma newest_tool_shrunk: "shrunk h h' \<Longrightarrow> newest_tool_at h' j \<Longrightarrow> newest_tool_at h j"
  using shrunk_role [of h h'] shrunk_length [of h h'] by (auto simp: newest_tool_at_def)

lemma elide_tools_keeps:
  assumes "elide_tools limit newest i tot changed h = (h', tot', changed')"
  shows "map reasoning h' = map reasoning h \<and> (\<forall>k < length h. newest = Some (i + k) \<longrightarrow> h' ! k = h ! k)"
  using assms
proof (induction limit newest i tot changed h arbitrary: h' tot' changed' rule: elide_tools.induct)
  case (2 limit newest i tot changed m ms)
  show ?case
  proof (cases "tot \<le> limit")
    case True
    with "2.prems" show ?thesis by auto
  next
    case False
    then obtain m1 ms1 where h': "h' = m1 # ms1" "reasoning m1 = reasoning m" "Some i = newest \<longrightarrow> m1 = m"
      and "map reasoning ms1 = map reasoning ms"
        "\<forall>k < length ms. newest = Some (Suc i + k) \<longrightarrow> ms1 ! k = ms ! k"
      using "2.prems" "2.IH" by (auto simp: Let_def split: if_splits prod.splits)
    then show ?thesis by (auto simp: nth_Cons split: nat.splits)
  qed
qed simp

lemma truncate_newest_floor:
  assumes "truncate_newest js limit (Some i) tot changed h = (h', tot', changed')"
    and "tot = history_bytes js h" "i < length h" "message_bytes js (h ! i) = length (content (h ! i))"
    and "tot' > limit"
  shows "h' = h \<and> limit \<le> tot - length (content (h ! i)) + length TRUNCATED_MARKER"
proof -
  let ?m = "h ! i"
  let ?budget = "limit - (tot - length (content ?m))"
  let ?k = "floor_boundary (content ?m) (min (?budget - length TRUNCATED_MARKER) (length (content ?m)))"
  have le: "length (content ?m) \<le> tot"
    using message_le_history_bytes [OF assms(3), of js] assms(2,4) by simp
  show ?thesis
  proof (cases "tot > limit \<and> length (content ?m) > ?budget \<and> ?budget > length TRUNCATED_MARKER")
    case True
    then have "tot' = tot - length (content ?m) + length (take ?k (content ?m) @ TRUNCATED_MARKER)"
      using assms(1,4) by (auto simp: truncate_newest_def Let_def)
    moreover have "length (take ?k (content ?m) @ TRUNCATED_MARKER) \<le> ?budget"
      using truncated_length [of ?budget "content ?m"] True by (simp only: length_append)
    ultimately have False using True assms(5) by linarith
    then show ?thesis ..
  next
    case False
    then have "h' = h" "tot' = tot" using assms(1,4) by (auto simp: truncate_newest_def Let_def split: if_splits)
    with False assms(5) le show ?thesis by linarith
  qed
qed

lemma drop_reasoning_over:
  assumes "drop_reasoning limit tot changed h = (h', tot', changed')" and "tot' > limit"
  shows "h' = map (\<lambda>m. m\<lparr>reasoning := None\<rparr>) h"
  using assms
proof (induction limit tot changed h arbitrary: h' tot' changed' rule: drop_reasoning.induct)
  case (2 limit tot changed m ms)
  then have over: "\<not> tot \<le> limit" by (auto split: if_splits)
  have "m\<lparr>reasoning := None\<rparr> = m" if "reasoning m = None" using that by simp
  with over "2.prems" "2.IH" show ?case by (auto split: option.splits prod.splits)
qed simp

lemma history_without_reasoning:
  "history_bytes js (map (\<lambda>m. m\<lparr>reasoning := None\<rparr>) h) + reasoning_bytes h = history_bytes js h"
proof (induction h)
  case (Cons m h)
  have "message_bytes js (m\<lparr>reasoning := None\<rparr>) + (case reasoning m of None \<Rightarrow> 0 | Some r \<Rightarrow> length r) = message_bytes js m"
    by (simp add: message_bytes_def split: option.splits)
  with Cons show ?case by (simp add: reasoning_bytes_def del: message_bytes_update)
qed (simp add: reasoning_bytes_def)

text \<open>
  Elision that ends above the limit has left the newest tool result whole, because the rest of the
  history, with the reasoning it had, leaves no room for more of it than the marker takes.
\<close>

lemma elide_oversized_bodies_floor:
  assumes "elide_oversized_bodies js h limit = (h', n)" and "history_bytes js h' > limit"
    and "plain_tool_results h" "newest_tool_at h' j"
  shows "content (h' ! j) = content (h ! j) \<and>
    limit \<le> history_bytes js h' - length (content (h' ! j)) + reasoning_bytes h + length TRUNCATED_MARKER"
proof -
  have sh: "shrunk h h'" using elide_oversized_bodies_spec [OF assms(1)] by blast
  note new = newest_tool_shrunk [OF this assms(4)]
  then have j: "j < length h" "role (h ! j) = Tool" by (auto simp: newest_tool_at_def)
  have over: "\<not> history_bytes js h \<le> limit" using shrunk_bytes [OF sh, of js] assms(2) by linarith
  obtain h1 s1 c1 where e1: "elide_tools limit (Some j) 0 (history_bytes js h) 0 h = (h1, s1, c1)"
    by (metis prod_cases3)
  obtain h2 s2 c2 where e2: "truncate_newest js limit (Some j) s1 c1 h1 = (h2, s2, c2)"
    by (metis prod_cases3)
  obtain h3 s3 c3 where e3: "(if s2 > limit then drop_reasoning limit s2 c2 h2 else (h2, s2, c2)) = (h3, s3, c3)"
    by (metis prod_cases3)
  have r: "h' = h3"
    using assms(1) over e1 e2 e3 newest_tool_rposition [OF new] by (auto simp: elide_oversized_bodies_def Let_def)
  note p1 = elide_tools_spec [OF e1, of 0 js, simplified]
  have at: "h1 ! j = h ! j" and reasons: "map reasoning h1 = map reasoning h" and len: "j < length h1"
    using elide_tools_keeps [OF e1] j shrunk_length [of h h1] p1 by auto
  have plain: "message_bytes js (h1 ! j) = length (content (h1 ! j))" and none: "reasoning (h1 ! j) = None"
    using assms(3) j by (auto simp: at plain_tool_results_def list_all_iff message_bytes_def)
  have s2: "s2 = history_bytes js h2"
    using truncate_newest_spec [OF e2] p1 len shrunk_role [of h h1 j] j by auto
  have s3: "s3 = history_bytes js h3"
    using drop_reasoning_spec [of limit s2 c2 h2 h3 s3 c3 0 js] e3 s2 by (auto split: if_splits)
  with e3 r assms(2) have s3o: "s3 > limit" and s2o: "s2 > limit" by (auto split: if_splits)
  from truncate_newest_floor [OF e2 _ len plain s2o] p1
  have t: "h2 = h1" "limit \<le> history_bytes js h1 - length (content (h ! j)) + length TRUNCATED_MARKER" by (auto simp: at)
  have h3: "h3 = map (\<lambda>m. m\<lparr>reasoning := None\<rparr>) h1"
    using drop_reasoning_over [of limit s2 c2 h2 h3 s3 c3] e3 s2o s3o t(1) by simp
  have "reasoning_bytes h1 = reasoning_bytes h"
    using reasons unfolding reasoning_bytes_def
    by (metis (mono_tags, lifting) comp_apply list.map_comp map_eq_conv)
  with history_without_reasoning [of js h1] have size: "history_bytes js h3 + reasoning_bytes h = history_bytes js h1"
    by (simp add: h3)
  have body: "content (h3 ! j) = content (h ! j)" using len at by (simp add: h3)
  have "length (content (h ! j)) \<le> history_bytes js h3"
    using message_le_history_bytes [of j h3 js] content_le_message_bytes [of "h3 ! j" js] len body by (simp add: h3)
  with t(2) size body r show ?thesis by simp
qed

section \<open>What eviction keeps\<close>

text \<open>
  The abstract specification of a compaction: whole turns between the part before the first
  user message and some later user message go, then single messages shrink in place.
\<close>

definition compacted :: "chat_message list \<Rightarrow> chat_message list \<Rightarrow> bool" where
  "compacted h h' \<longleftrightarrow> (\<exists>pre mid post. h = pre @ mid @ post \<and> shrunk (pre @ post) h' \<and>
     (\<forall>m \<in> set pre. \<not> is_user m) \<and>
     (mid = [] \<or> is_user (hd mid) \<and> post \<noteq> [] \<and> is_user (hd post)))"

lemma evict_turns_spec:
  assumes "evict_turns js h limit = (h', n)"
  shows "\<exists>pre mid post. h = pre @ mid @ post \<and> h' = pre @ post \<and> (\<forall>m \<in> set pre. \<not> is_user m) \<and>
     (mid = [] \<or> is_user (hd mid) \<and> post \<noteq> [] \<and> is_user (hd post)) \<and>
     n = length (filter is_user mid) \<and> (n = 0 \<longrightarrow> h' = h) \<and>
     (history_bytes js h' \<le> limit \<or> length (filter is_user h') \<le> 1)"
proof -
  define starts where "starts = indices is_user h"
  define pre where "pre = (case starts of [] \<Rightarrow> length h | s # _ \<Rightarrow> s)"
  define fits where "fits k \<longleftrightarrow> history_bytes js (take pre h) + history_bytes js (drop (starts ! k) h) \<le> limit" for k
  define keep where "keep = (case find fits [0..<length starts] of Some k \<Rightarrow> k | None \<Rightarrow> length starts - 1)"
  define s where "s = starts ! keep"
  have res: "(h', n) = (if 2 \<le> length starts \<and> 0 < keep then (take pre h @ drop s h, keep) else (h, 0))"
    unfolding assms [symmetric] evict_turns_def turn_starts_def Let_def prod.case
      starts_def [symmetric] pre_def [symmetric] fits_def [symmetric] keep_def [symmetric] s_def [symmetric]
    by simp
  have n_starts: "length starts = length (filter is_user h)" by (simp add: starts_def indices_length)
  have keep: "keep < length starts \<and> (fits keep \<or> keep = length starts - 1)" if "2 \<le> length starts"
    using that by (auto simp: keep_def find_Some_iff split: option.splits)
  have pre: "pre = starts ! 0" if "2 \<le> length starts"
    using that by (cases starts) (auto simp: pre_def)
  have at: "starts ! k < length h \<and> is_user (h ! (starts ! k)) \<and>
      length (filter is_user (take (starts ! k) h)) = k" if "k < length starts" for k
    using that unfolding starts_def by (rule indices_nth)
  show ?thesis
  proof (cases "2 \<le> length starts \<and> 0 < keep")
    case True
    then have pre0: "pre = starts ! 0" and k: "keep < length starts" using pre keep by auto
    have f0: "filter is_user (take pre h) = []" and pu: "pre < length h" "is_user (h ! pre)"
      using at [OF order.strict_trans1 [OF le0 k]] pre0 by auto
    have fs: "length (filter is_user (take s h)) = keep" and su: "s < length h" "is_user (h ! s)"
      using at [OF k] by (auto simp: s_def)
    have "pre < s"
    proof (rule ccontr)
      assume "\<not> pre < s"
      then have "set (take s h) \<subseteq> set (take pre h)" by (simp add: set_take_subset_set_take)
      with f0 have "filter is_user (take s h) = []" by (auto simp: filter_empty_conv)
      with fs True show False by simp
    qed
    define mid where "mid = drop pre (take s h)"
    have ts: "take s h = take pre h @ mid"
      using append_take_drop_id [of pre "take s h"] \<open>pre < s\<close> by (simp add: mid_def min_absorb1)
    have h: "h = take pre h @ mid @ drop s h"
      using append_take_drop_id [of s h] unfolding ts by simp
    have "filter is_user (take s h) = filter is_user (take pre h) @ filter is_user mid"
      unfolding ts by simp
    with f0 fs have fm: "length (filter is_user mid) = keep" by simp
    have "length (filter is_user h) = keep + length (filter is_user (drop s h))"
      using fm f0 by (subst h) simp
    with keep True n_starts have one: "fits keep \<or> length (filter is_user (drop s h)) \<le> 1" by auto
    have "is_user (hd mid)"
      using \<open>pre < s\<close> pu su by (simp add: mid_def hd_drop_conv_nth)
    moreover have "drop s h \<noteq> [] \<and> is_user (hd (drop s h))"
      using su by (simp add: hd_drop_conv_nth)
    moreover have "\<forall>m \<in> set (take pre h). \<not> is_user m" using f0 by (simp add: filter_empty_conv)
    ultimately show ?thesis
      using h res True fm one f0
      by (intro exI [of _ "take pre h"] exI [of _ mid] exI [of _ "drop s h"])
        (auto simp: fits_def s_def)
  next
    case False
    then have hn: "h' = h" "n = 0" using res by auto
    have "history_bytes js h \<le> limit \<or> length (filter is_user h) \<le> 1"
    proof (cases "2 \<le> length starts")
      case True
      with False keep pre have "fits 0" "pre = starts ! 0" by auto
      then show ?thesis
        unfolding fits_def by (metis append_take_drop_id history_bytes_simps(3))
    next
      case False
      with n_starts show ?thesis by simp
    qed
    with hn show ?thesis
      by (intro exI [of _ "[]"] exI [of _ "[]"] exI [of _ h]) auto
  qed
qed

lemma shrunk_filter_user: "shrunk h h' \<Longrightarrow> length (filter is_user h') = length (filter is_user h)"
  unfolding shrunk_def by (induction rule: list_all2_induct) (auto simp: shrunk_message_def skeleton_def)

lemma compacted_refl [simp]: "compacted h h"
  unfolding compacted_def by (intro exI [of _ "[]"] exI [of _ "[]"] exI [of _ h]) simp

text \<open>The specification of \<open>compact_to\<close>, from the two passes.\<close>

lemma compact_to_spec:
  assumes "compact_to js h limit = (h', r)"
  shows "compacted h h' \<and>
    (case r of None \<Rightarrow> h' = h
     | Some rep \<Rightarrow> messages_before rep = length h \<and> messages_after rep = length h' \<and>
         bytes_before rep = history_bytes js h \<and> bytes_after rep = history_bytes js h' \<and>
         turns_removed rep = length (filter is_user h) - length (filter is_user h') \<and>
         cr_compactor rep = ''max_history_bytes'') \<and>
    (history_bytes js h' \<le> limit \<or>
      length (filter is_user h') \<le> 1 \<and> (\<forall>m \<in> set h'. reasoning m = None) \<and>
      (\<forall>i j. i < j \<and> j < length h' \<and> role (h' ! i) = Tool \<and> role (h' ! j) = Tool \<longrightarrow>
         length (content (h' ! i)) \<le> length ELIDED_MARKER))"
proof (cases "history_bytes js h \<le> limit")
  case True
  with assms show ?thesis
    by (auto simp: compact_to_def)
next
  case False
  obtain h1 n where e1: "evict_turns js h limit = (h1, n)" by fastforce
  obtain h2 c where e2: "elide_oversized_bodies js h1 limit = (h2, c)" by fastforce
  have h': "h' = h2"
    using assms False e1 e2 by (auto simp: compact_to_def Let_def split: if_splits)
  obtain pre mid post where ev: "h = pre @ mid @ post" "h1 = pre @ post" "\<forall>m \<in> set pre. \<not> is_user m"
    "mid = [] \<or> is_user (hd mid) \<and> post \<noteq> [] \<and> is_user (hd post)"
    "n = length (filter is_user mid)" "n = 0 \<longrightarrow> h1 = h"
    "history_bytes js h1 \<le> limit \<or> length (filter is_user h1) \<le> 1"
    using evict_turns_spec [OF e1] by blast
  note el = elide_oversized_bodies_spec [OF e2]
  have users: "length (filter is_user h2) = length (filter is_user h1)"
    using el shrunk_filter_user by blast
  have removed: "n = length (filter is_user h) - length (filter is_user h2)"
    unfolding users using ev by simp
  have "compacted h h2"
    unfolding compacted_def
    by (rule exI [of _ pre], rule exI [of _ mid], rule exI [of _ post]) (use ev(1-4) el in simp)
  moreover have "history_bytes js h2 \<le> history_bytes js h1" using el shrunk_bytes by blast
  moreover have r: "r = (if n = 0 \<and> c = 0 then None
      else Some \<lparr>cr_compactor = ''max_history_bytes'', messages_before = length h,
        messages_after = length h2, bytes_before = history_bytes js h,
        bytes_after = history_bytes js h2, turns_removed = n\<rparr>)"
    using assms False e1 e2 by (auto simp: compact_to_def split: if_splits)
  have "n = 0 \<and> c = 0 \<longrightarrow> h2 = h" using ev(6) el by simp
  then have "(case r of None \<Rightarrow> h2 = h
     | Some rep \<Rightarrow> messages_before rep = length h \<and> messages_after rep = length h2 \<and>
         bytes_before rep = history_bytes js h \<and> bytes_after rep = history_bytes js h2 \<and>
         turns_removed rep = length (filter is_user h) - length (filter is_user h2) \<and>
         cr_compactor rep = ''max_history_bytes'')"
    unfolding r removed [symmetric] by simp
  moreover have "history_bytes js h2 \<le> limit \<or> length (filter is_user h2) \<le> 1"
    using ev(7) users calculation(2) by linarith
  ultimately show ?thesis
    unfolding h' using el by blast
qed

lemma paired_compacted: "compacted h h' \<Longrightarrow> paired h \<Longrightarrow> paired h'"
proof -
  assume "compacted h h'" and p: "paired h"
  then obtain pre mid post where h: "h = pre @ mid @ post" and sh: "shrunk (pre @ post) h'"
    and c: "mid = [] \<or> is_user (hd mid) \<and> post \<noteq> [] \<and> is_user (hd post)"
    by (auto simp: compacted_def)
  have "paired (pre @ post)"
  proof (cases "mid = []")
    case True
    with p h show ?thesis by simp
  next
    case False
    with c obtain u ms v ps where u: "mid = u # ms" "role u = User" "post = v # ps" "role v = User"
      by (cases mid; cases post) auto
    have "paired pre" using paired_split [of h pre u "ms @ post"] p h u by simp
    moreover have "paired post" using paired_split [of h "pre @ mid" v ps] p h u by simp
    ultimately show ?thesis by (rule paired_append)
  qed
  then show ?thesis by (rule shrunk_paired [OF sh])
qed

lemma compacted_bytes: "compacted h h' \<Longrightarrow> history_bytes js h' \<le> history_bytes js h"
  unfolding compacted_def using shrunk_bytes [of _ h' js] by fastforce

lemma compacted_leading:
  assumes "compacted (m # h) h'" and "role m = System"
  shows "\<exists>m' t. h' = m' # t \<and> role m' = System \<and> content m' = content m"
proof -
  from assms obtain pre mid post where h: "m # h = pre @ mid @ post" and sh: "shrunk (pre @ post) h'"
    and c: "mid = [] \<or> is_user (hd mid) \<and> post \<noteq> [] \<and> is_user (hd post)"
    by (auto simp: compacted_def)
  have "\<exists>t. pre @ post = m # t"
    using h c assms(2) by (cases pre; cases mid) auto
  then obtain t where "shrunk (m # t) h'" using sh by auto
  then show ?thesis using assms(2)
    by (cases h') (auto simp: shrunk_def shrunk_message_def skeleton_def)
qed

text \<open>The text the user sent last survives, with everything the turn has done since.\<close>

lemma compacted_last_turn:
  assumes "compacted (xs @ u # ys) h'" and "is_user u" and "\<forall>m \<in> set ys. \<not> is_user m"
  shows "\<exists>xs' ys'. h' = xs' @ ys' \<and> shrunk (u # ys) ys'"
proof -
  from assms(1) obtain pre mid post where h: "xs @ u # ys = pre @ mid @ post"
    and sh: "shrunk (pre @ post) h'" and np: "\<forall>m \<in> set pre. \<not> is_user m"
    and c: "mid = [] \<or> is_user (hd mid) \<and> post \<noteq> [] \<and> is_user (hd post)"
    by (auto simp: compacted_def)
  have "\<exists>zs. pre @ post = zs @ u # ys"
  proof (cases "mid = []")
    case True
    with h have "pre @ post = xs @ u # ys" by simp
    then show ?thesis by blast
  next
    case False
    with c obtain v ps where v: "post = v # ps" "is_user v" by (cases post) auto
    have "length post \<ge> Suc (length ys)"
    proof (rule ccontr)
      assume "\<not> ?thesis"
      then have "length (xs @ [u]) \<le> length (pre @ mid)"
        using arg_cong [OF h, of length] by simp
      then obtain zs where "ys = zs @ post"
        using append_prefix_split [of "xs @ [u]" ys "pre @ mid" post] h by auto
      with v assms(3) show False by simp
    qed
    then have "length (pre @ mid) \<le> length xs" using arg_cong [OF h, of length] by simp
    then obtain zs where "post = zs @ u # ys"
      using append_prefix_split [of "pre @ mid" post xs "u # ys"] h by auto
    then show ?thesis by (metis append.assoc)
  qed
  then obtain zs where "shrunk (zs @ u # ys) h'" using sh by auto
  then show ?thesis by (auto simp: shrunk_def list_all2_append1)
qed

section \<open>The contract of a compactor\<close>

text \<open>
  What the agent loop relies on, as the documentation of the \<open>Compactor\<close> trait states it. The
  client's lemmas are proved once here; both passes of both implementations satisfy it.
\<close>

locale history_compactor =
  fixes bytes :: "chat_message list \<Rightarrow> nat"
    and pass :: "chat_message list \<Rightarrow> chat_message list \<times> compaction_report option"
  assumes none_unchanged: "pass h = (h', None) \<Longrightarrow> h' = h"
    and whole_turns: "pass h = (h', r) \<Longrightarrow> compacted h h'"
    and never_grows: "pass h = (h', r) \<Longrightarrow> bytes h' \<le> bytes h"
    and truthful: "pass h = (h', Some rep) \<Longrightarrow>
      messages_before rep = length h \<and> messages_after rep = length h' \<and>
      bytes_before rep = bytes h \<and> bytes_after rep = bytes h' \<and>
      turns_removed rep = length (filter is_user h) - length (filter is_user h')"
begin

lemma keeps_pairing: "paired h \<Longrightarrow> paired (fst (pass h))"
  using paired_compacted whole_turns by (metis prod.collapse)

lemma keeps_system:
  "role m = System \<Longrightarrow> \<exists>m' t. fst (pass (m # h)) = m' # t \<and> role m' = System \<and> content m' = content m"
  using compacted_leading whole_turns by (metis prod.collapse)

lemma report_shrinks: "snd (pass h) = Some r \<Longrightarrow> bytes_after r \<le> bytes_before r"
  using truthful never_grows by (metis prod.collapse)

end

lemma compact_to_contract: "history_compactor (history_bytes js) (\<lambda>h. compact_to js h limit)"
proof
  fix h h' and r :: "compaction_report option"
  assume "compact_to js h limit = (h', r)"
  then show "compacted h h'" "history_bytes js h' \<le> history_bytes js h"
    using compact_to_spec compacted_bytes by blast+
next
  fix h h'
  assume "compact_to js h limit = (h', None)"
  then show "h' = h" using compact_to_spec by fastforce
next
  fix h h' r
  assume "compact_to js h limit = (h', Some r)"
  then show "messages_before r = length h \<and> messages_after r = length h' \<and>
      bytes_before r = history_bytes js h \<and> bytes_after r = history_bytes js h' \<and>
      turns_removed r = length (filter is_user h) - length (filter is_user h')"
    using compact_to_spec by fastforce
qed

lemma no_compaction_contract: "history_compactor (history_bytes js) (\<lambda>h. (h, None))"
  by unfold_locales auto

lemma pass_eqs:
  "compact js NoCompaction = (\<lambda>h. (h, None))"
  "compact js (MaxBytesCompactor n) = (\<lambda>h. compact_to js h n)"
  "compact_overflow js NoCompaction = (\<lambda>h. (h, None))"
  "compact_overflow js (MaxBytesCompactor n)
     = (\<lambda>h. compact_to js h (max (n div 2) MINIMUM_HISTORY_BYTES))"
  by (rule ext, simp)+

interpretation compacting: history_compactor "history_bytes js" "compact js c" for js c
  using compact_to_contract [of js] no_compaction_contract [of js] by (cases c) (simp_all add: pass_eqs)

interpretation overflowing: history_compactor "history_bytes js" "compact_overflow js c" for js c
  using compact_to_contract [of js] no_compaction_contract [of js] by (cases c) (simp_all add: pass_eqs)

section \<open>Properties\<close>

text \<open>
  C19. Compaction never breaks the conversation protocol: in the steady-state pass and in the
  deeper pass after a provider's rejection, a history in which every tool result answers the
  call of the assistant message before it stays such a history, a leading system message keeps
  its place and its text, and the last user message stays with everything that followed it.
\<close>

theorem compaction_keeps_the_conversation:
  assumes "h' = fst (compact js c h) \<or> h' = fst (compact_overflow js c h)" and "paired h"
    and "h = s # xs @ u # ys" and "role s = System" and "is_user u" and "\<forall>m \<in> set ys. \<not> is_user m"
  shows "paired h' \<and>
    (\<exists>s' xs' ys'. h' = s' # xs' @ ys' \<and> role s' = System \<and> content s' = content s \<and>
       map skeleton ys' = map skeleton (u # ys) \<and> content (hd ys') = content u)"
proof -
  have com: "compacted h h'"
    using assms(1) compacting.whole_turns overflowing.whole_turns by (metis prod.collapse)
  obtain zs ys' where z: "h' = zs @ ys'" and ys': "shrunk (u # ys) ys'"
    using compacted_last_turn [of "s # xs" u ys h'] com assms by auto
  obtain m t where m: "h' = m # t" "role m = System" "content m = content s"
    using compacted_leading [of s "xs @ u # ys" h'] com assms by auto
  from ys' obtain v vs where v: "ys' = v # vs" "shrunk_message u v"
    by (cases ys') (auto simp: shrunk_def)
  then have u: "content v = content u" "is_user v"
    using assms(5) by (auto simp: shrunk_message_def skeleton_def)
  with m z v obtain zs' where "zs = m # zs'" by (cases zs) auto
  then have "h' = m # zs' @ ys' \<and> role m = System \<and> content m = content s \<and>
      map skeleton ys' = map skeleton (u # ys) \<and> content (hd ys') = content u"
    using z m u v shrunk_skeleton [OF ys'] by simp
  with paired_compacted [OF com assms(2)] show ?thesis by blast
qed

definition long_turn :: "chat_message list" where
  "long_turn = [user_message ''read it'',
     assistant_with_tools [] [\<lparr>tc_id = ''1'', tc_name = ''read_file'', tc_arguments = JNull\<rparr>],
     tool_result \<lparr>tc_id = ''1'', tc_name = ''read_file'', tc_arguments = JNull\<rparr> (replicate 200 CHR ''x'')]"

lemma paired_long_turn: "paired long_turn"
proof -
  let ?c = "\<lparr>tc_id = ''1'', tc_name = ''read_file'', tc_arguments = JNull\<rparr>"
  have "paired ([assistant_with_tools [] [?c]] @ [tool_result ?c (replicate 200 CHR ''x'')])"
    using paired.paired_assistant [of "assistant_with_tools [] [?c]"
        "[tool_result ?c (replicate 200 CHR ''x'')]" "[]"]
    by (simp add: paired.intros assistant_with_tools_def)
  then show ?thesis
    unfolding long_turn_def by (auto intro!: paired.paired_plain simp: user_message_def)
qed

theorem compaction_keeps_the_conversation_witness:
  "paired (fst (compact (\<lambda>_. ''{}'') (MaxBytesCompactor 100) (system_message ''be brief'' # long_turn)))"
proof -
  have "paired (system_message ''be brief'' # long_turn)"
    using paired_long_turn by (auto intro!: paired.paired_plain simp: system_message_def)
  moreover have "long_turn = user_message ''read it'' # tl long_turn" by (simp add: long_turn_def)
  moreover have "\<forall>m \<in> set (tl long_turn). \<not> is_user m"
    by (simp add: long_turn_def assistant_with_tools_def tool_result_def)
  ultimately show ?thesis
    using compaction_keeps_the_conversation [OF disjI1 [OF refl], where s = "system_message ''be brief''"
        and xs = "[]" and u = "user_message ''read it''" and ys = "tl long_turn"
        and h = "system_message ''be brief'' # long_turn"]
    by (metis append_Nil role_system_message role_user_message)
qed

lemma reasoning_bytes_append: "reasoning_bytes (xs @ ys) = reasoning_bytes xs + reasoning_bytes ys"
  by (simp add: reasoning_bytes_def)

lemma compact_to_floor:
  assumes "compact_to js h limit = (h', r)" and "history_bytes js h' > limit"
    and "plain_tool_results h" "newest_tool_at h' j"
  shows "(\<exists>m \<in> set h. skeleton m = skeleton (h' ! j) \<and> content m = content (h' ! j)) \<and>
    limit \<le> history_bytes js h' - length (content (h' ! j)) + reasoning_bytes h + length TRUNCATED_MARKER"
proof -
  from assms(1,2) have over: "\<not> history_bytes js h \<le> limit" by (auto simp: compact_to_def)
  obtain h1 n where e1: "evict_turns js h limit = (h1, n)" by fastforce
  obtain h2 c where e2: "elide_oversized_bodies js h1 limit = (h2, c)" by fastforce
  have h': "h' = h2"
    using assms(1) over e1 e2 by (auto simp: compact_to_def Let_def split: if_splits)
  obtain pre mid post where ev: "h = pre @ mid @ post" "h1 = pre @ post"
    using evict_turns_spec [OF e1] by blast
  then have "plain_tool_results h1" and sub: "set h1 \<subseteq> set h" and le: "reasoning_bytes h1 \<le> reasoning_bytes h"
    using assms(3) by (auto simp: plain_tool_results_def reasoning_bytes_append)
  note floor = elide_oversized_bodies_floor [OF e2 assms(2) [unfolded h'] this(1) assms(4) [unfolded h']]
  have sh: "shrunk h1 h2" using elide_oversized_bodies_spec [OF e2] by blast
  then have j: "j < length h1" using assms(4) shrunk_length by (auto simp: newest_tool_at_def h')
  then have "h1 ! j \<in> set h" "skeleton (h1 ! j) = skeleton (h2 ! j)"
    using sub nth_mem shrunk_nth [OF sh j] by (auto simp: shrunk_message_def)
  with floor le show ?thesis unfolding h' by (intro conjI bexI [of _ "h1 ! j"]) auto
qed

text \<open>
  C27. A compaction pass reaches its budget, or it has done all it may do: only the last turn is
  left, every tool result but the newest is down to the size of the marker, and no reasoning is
  left. When tool results carry neither reasoning nor calls, the newest one is then a message of the
  old history with its whole text, and it was not cut because everything else that is kept, with the
  reasoning of the old history, leaves it no more room than the truncation marker takes. The size
  never grows; no report means no change; a report counts messages, bytes and removed turns
  truthfully.
\<close>

theorem compaction_reaches_budget_or_floor:
  assumes "compact js (MaxBytesCompactor limit) h = (h', r)"
  shows "(history_bytes js h' \<le> limit \<or>
      length (filter is_user h') \<le> 1 \<and> (\<forall>m \<in> set h'. reasoning m = None) \<and>
      (\<forall>i j. i < j \<and> j < length h' \<and> role (h' ! i) = Tool \<and> role (h' ! j) = Tool \<longrightarrow>
         length (content (h' ! i)) \<le> length ELIDED_MARKER) \<and>
      (\<forall>j. plain_tool_results h \<and> newest_tool_at h' j \<longrightarrow>
         (\<exists>m \<in> set h. skeleton m = skeleton (h' ! j) \<and> content m = content (h' ! j)) \<and>
         limit \<le> history_bytes js h' - length (content (h' ! j)) + reasoning_bytes h + length TRUNCATED_MARKER)) \<and>
    history_bytes js h' \<le> history_bytes js h \<and> (r = None \<longrightarrow> h' = h) \<and>
    (\<forall>rep. r = Some rep \<longrightarrow>
       messages_before rep = length h \<and> messages_after rep = length h' \<and>
       bytes_before rep = history_bytes js h \<and> bytes_after rep = history_bytes js h' \<and>
       turns_removed rep = length (filter is_user h) - length (filter is_user h'))"
proof -
  have "compact_to js h limit = (h', r)" using assms by simp
  note spec = compact_to_spec [OF this] and floor = compact_to_floor [OF this]
  have "history_bytes js h' \<le> history_bytes js h" by (rule compacting.never_grows [OF assms])
  moreover have "r = None \<longrightarrow> h' = h" using compacting.none_unchanged assms by blast
  moreover have "\<forall>rep. r = Some rep \<longrightarrow>
       messages_before rep = length h \<and> messages_after rep = length h' \<and>
       bytes_before rep = history_bytes js h \<and> bytes_after rep = history_bytes js h' \<and>
       turns_removed rep = length (filter is_user h) - length (filter is_user h')"
    using compacting.truthful assms by blast
  ultimately show ?thesis using spec floor by (meson not_le)
qed

theorem compaction_reaches_budget_or_floor_witness:
  "history_bytes (\<lambda>_. ''{}'') (fst (compact (\<lambda>_. ''{}'') (MaxBytesCompactor 100) long_turn))
     \<le> history_bytes (\<lambda>_. ''{}'') long_turn"
  using compaction_reaches_budget_or_floor [of "\<lambda>_. ''{}''" 100 long_turn, OF prod.collapse [symmetric]]
  by blast

lemma derived_bytes_fit:
  "estimate_tokens (derived_bytes schema reserve tokens)
     \<le> max (tokens - reserve - tool_schema_overhead_tokens schema) MINIMUM_HISTORY_TOKENS"
proof -
  let ?u = "max (tokens - reserve - tool_schema_overhead_tokens schema) MINIMUM_HISTORY_TOKENS"
  have a: "saturating_mul ?u HISTORY_NUMERATOR div HISTORY_DENOMINATOR \<le> ?u"
    unfolding saturating_mul_def HISTORY_NUMERATOR_def HISTORY_DENOMINATOR_def by linarith
  have b: "saturating_mul x 3 \<le> x * 3" "saturating_add y 2 \<le> y + 2" for x y
    by (simp_all add: saturating_mul_def saturating_add_def)
  have "estimate_tokens (saturating_mul x 3) \<le> x" for x
  proof -
    have "saturating_add (saturating_mul x 3) 2 \<le> x * 3 + 2" using b by (meson add_le_mono1 le_trans)
    then show ?thesis unfolding estimate_tokens_def BYTES_PER_TOKEN_def by simp
  qed
  with a show ?thesis
    unfolding derived_bytes_def Let_def BYTES_PER_TOKEN_def by (meson le_trans)
qed

lemma estimate_tokens_mono: "a \<le> b \<Longrightarrow> estimate_tokens a \<le> estimate_tokens b"
  unfolding estimate_tokens_def saturating_add_def by (intro div_le_mono) auto

text \<open>
  C33. A declared context window is respected: whenever the window holds the reply reserve, the
  tool definitions and the minimum history, the budget derived for the history, in tokens,
  leaves room for the reserve and the definitions, whatever larger byte budget is configured.
\<close>

theorem effective_budget_fits_the_window:
  assumes "cc_context_tokens cfg = Some window" and "cc_max_history_bytes cfg \<noteq> Some 0"
    and "cc_reserve_output_tokens cfg + tool_schema_overhead_tokens schema + MINIMUM_HISTORY_TOKENS \<le> window"
  shows "\<exists>n. effective_max_bytes schema cfg = Some n \<and>
    (\<forall>js h. history_bytes js h \<le> n \<longrightarrow>
       estimate_history_tokens js h + cc_reserve_output_tokens cfg + tool_schema_overhead_tokens schema \<le> window)"
proof -
  let ?d = "derived_bytes schema (cc_reserve_output_tokens cfg) window"
  obtain n where n: "effective_max_bytes schema cfg = Some n" and le: "n \<le> ?d"
    using assms(1,2) by (cases "cc_max_history_bytes cfg") (auto simp: effective_max_bytes_def Let_def)
  have "estimate_history_tokens js h + cc_reserve_output_tokens cfg + tool_schema_overhead_tokens schema \<le> window"
    if "history_bytes js h \<le> n" for js h
  proof -
    have "estimate_history_tokens js h \<le> estimate_tokens ?d"
      unfolding estimate_history_tokens_def using that le by (intro estimate_tokens_mono) simp
    with derived_bytes_fit [of schema "cc_reserve_output_tokens cfg" window] assms(3) show ?thesis
      by linarith
  qed
  with n show ?thesis by blast
qed

theorem effective_budget_fits_the_window_witness:
  "\<exists>n. effective_max_bytes None \<lparr>cc_max_history_bytes = Some 1000000, cc_context_tokens = Some 8192,
      cc_reserve_output_tokens = 1024\<rparr> = Some n \<and> n < 1000000"
proof -
  let ?cfg = "\<lparr>cc_max_history_bytes = Some 1000000, cc_context_tokens = Some 8192,
      cc_reserve_output_tokens = 1024\<rparr>"
  obtain n where n: "effective_max_bytes None ?cfg = Some n"
    using effective_budget_fits_the_window [of ?cfg 8192 None]
    by (auto simp: tool_schema_overhead_tokens_def REQUEST_OVERHEAD_TOKENS_def MINIMUM_HISTORY_TOKENS_def)
  moreover have "n < 1000000"
    using n by (auto simp: effective_max_bytes_def derived_bytes_def saturating_mul_def u64_max_def
        tool_schema_overhead_tokens_def REQUEST_OVERHEAD_TOKENS_def MINIMUM_HISTORY_TOKENS_def
        HISTORY_NUMERATOR_def HISTORY_DENOMINATOR_def BYTES_PER_TOKEN_def)
  ultimately show ?thesis by blast
qed

end
