(* ===== verification/Call_Id.thy ===== *)
theory Call_Id
  imports Chat
begin

text \<open>
  Identifiers of tool calls outside the provider conversation
  (\<open>xshell-execution/src/call_id.rs\<close>). The
  search for an unused suffix is an unbounded loop, so it is a partial function whose value
  \<open>None\<close> means that it never returns, and \<open>find_unused_returns\<close> shows that it always does.
\<close>

record call_ids =
  ci_scope :: "string option"
  ci_seen :: "string set"

definition call_ids_new :: "string option \<Rightarrow> call_ids" where
  "call_ids_new scope = \<lparr>ci_scope = scope, ci_seen = {}\<rparr>"

definition candidate :: "string \<Rightarrow> nat \<Rightarrow> string" where
  "candidate base n = base @ ''~'' @ show_nat n"

partial_function (option) find_unused :: "string set \<Rightarrow> string \<Rightarrow> nat \<Rightarrow> string option" where
  "find_unused seen base n =
     (if candidate base n \<notin> seen then Some (candidate base n)
      else find_unused seen base (Suc n))"

declare find_unused.simps [code]

definition scope_prefix :: "string option \<Rightarrow> string" where
  "scope_prefix scope = (case scope of Some s \<Rightarrow> s @ ''/'' | None \<Rightarrow> [])"

definition scoped :: "call_ids \<Rightarrow> tool_call \<Rightarrow> (tool_call \<times> call_ids) option" where
  "scoped ids call =
     (let (base, first_suffix) = (if tc_id call = [] then (''call'', 1) else (tc_id call, 2)) in
      map_option
        (\<lambda>id. (\<lparr>tc_id = scope_prefix (ci_scope ids) @ id, tc_name = tc_name call,
                 tc_arguments = tc_arguments call\<rparr>,
               ids\<lparr>ci_seen := insert id (ci_seen ids)\<rparr>))
        (if tc_id call = [] \<or> base \<in> ci_seen ids
         then find_unused (ci_seen ids) base first_suffix
         else Some base))"

text \<open>The calls of a turn, in the order in which they are dispatched.\<close>

fun scoped_all :: "call_ids \<Rightarrow> tool_call list \<Rightarrow> (tool_call list \<times> call_ids) option" where
  "scoped_all ids [] = Some ([], ids)"
| "scoped_all ids (c # cs) =
     (case scoped ids c of
        None \<Rightarrow> None
      | Some (c', ids') \<Rightarrow> map_option (\<lambda>(cs', ids''). (c' # cs', ids'')) (scoped_all ids' cs))"

section \<open>The search\<close>

lemma candidate_inj: "candidate base m = candidate base n \<Longrightarrow> m = n"
  by (simp add: candidate_def show_nat_inj)

lemma find_unused_first:
  assumes "candidate base (n + k) \<notin> seen" and "\<forall>j < k. candidate base (n + j) \<in> seen"
  shows "find_unused seen base n = Some (candidate base (n + k))"
  using assms
proof (induction k arbitrary: n)
  case 0
  then show ?case by (simp add: find_unused.simps)
next
  case (Suc k)
  from Suc.prems(2) have "candidate base n \<in> seen" by (metis add_0_right zero_less_Suc)
  moreover have "\<forall>j < k. candidate base (Suc n + j) \<in> seen"
    using Suc.prems(2) by (metis Suc_less_eq add_Suc add_Suc_right)
  then have "find_unused seen base (Suc n) = Some (candidate base (Suc n + k))"
    using Suc.IH [of "Suc n"] Suc.prems(1) by simp
  ultimately show ?case by (simp add: find_unused.simps [of seen base n])
qed

lemma unused_exists:
  assumes "finite seen"
  shows "\<exists>k. candidate base (n + k) \<notin> seen"
proof (rule ccontr)
  assume "\<not> ?thesis"
  then have "range (\<lambda>k. candidate base (n + k)) \<subseteq> seen" by auto
  moreover have "inj (\<lambda>k. candidate base (n + k))"
    by (rule injI) (auto dest: candidate_inj)
  ultimately show False using assms finite_subset finite_imageD infinite_UNIV_nat by blast
qed

lemma find_unused_returns:
  assumes "finite seen"
  shows "\<exists>k. find_unused seen base n = Some (candidate base (n + k)) \<and> candidate base (n + k) \<notin> seen"
proof -
  define k where "k = (LEAST k. candidate base (n + k) \<notin> seen)"
  have "candidate base (n + k) \<notin> seen"
    unfolding k_def using unused_exists [OF assms] by (rule LeastI_ex)
  moreover have "\<forall>j < k. candidate base (n + j) \<in> seen"
    unfolding k_def using not_less_Least by blast
  ultimately show ?thesis using find_unused_first by blast
qed

lemma scoped_spec:
  assumes "finite (ci_seen ids)"
  shows "\<exists>id. scoped ids call = Some (\<lparr>tc_id = scope_prefix (ci_scope ids) @ id,
      tc_name = tc_name call, tc_arguments = tc_arguments call\<rparr>, ids\<lparr>ci_seen := insert id (ci_seen ids)\<rparr>) \<and>
    id \<notin> ci_seen ids \<and> id \<noteq> [] \<and> (tc_id call \<noteq> [] \<and> tc_id call \<notin> ci_seen ids \<longrightarrow> id = tc_id call)"
  using find_unused_returns [OF assms, of "''call''" 1] find_unused_returns [OF assms, of "tc_id call" 2]
  by (auto simp: scoped_def candidate_def)

section \<open>Properties\<close>

lemma scoped_all_spec:
  assumes "finite (ci_seen ids)"
  shows "\<exists>ks ids'. scoped_all ids calls = Some (map2 (\<lambda>call k. call\<lparr>tc_id := scope_prefix (ci_scope ids) @ k\<rparr>) calls ks, ids')
    \<and> length ks = length calls \<and> distinct ks \<and> set ks \<inter> ci_seen ids = {} \<and> [] \<notin> set ks"
  using assms
proof (induction calls arbitrary: ids)
  case Nil
  then show ?case by simp
next
  case (Cons call calls)
  obtain k where k: "scoped ids call = Some (call\<lparr>tc_id := scope_prefix (ci_scope ids) @ k\<rparr>,
      ids\<lparr>ci_seen := insert k (ci_seen ids)\<rparr>)" "k \<notin> ci_seen ids" "k \<noteq> []"
    using scoped_spec [OF Cons.prems, of call] by (cases call) auto
  let ?ids = "ids\<lparr>ci_seen := insert k (ci_seen ids)\<rparr>"
  obtain ks ids' where ks: "scoped_all ?ids calls
      = Some (map2 (\<lambda>call k. call\<lparr>tc_id := scope_prefix (ci_scope ids) @ k\<rparr>) calls ks, ids')"
    "length ks = length calls" "distinct ks" "set ks \<inter> ci_seen ?ids = {}" "[] \<notin> set ks"
    using Cons.IH [of ?ids] Cons.prems by auto
  then show ?case using k
    by (intro exI [of _ "k # ks"] exI [of _ ids']) auto
qed

text \<open>
  The identifiers of one agent's turn are unique: whatever identifiers the provider sends
  (repeated or empty ones too), every call of the turn gets an identifier, all of them are
  distinct and not empty, each carries the scope, and names and arguments are unchanged. In
  particular the search for an unused suffix always ends.
\<close>

theorem scoped_ids_are_unique:
  "\<exists>calls' ids'. scoped_all (call_ids_new scope) calls = Some (calls', ids') \<and>
     distinct (map tc_id calls') \<and>
     map tc_name calls' = map tc_name calls \<and> map tc_arguments calls' = map tc_arguments calls \<and>
     list_all (\<lambda>c. \<exists>k. k \<noteq> [] \<and> tc_id c = scope_prefix scope @ k) calls'"
proof -
  obtain ks ids' where ks: "scoped_all (call_ids_new scope) calls
      = Some (map2 (\<lambda>call k. call\<lparr>tc_id := scope_prefix scope @ k\<rparr>) calls ks, ids')"
    "length ks = length calls" "distinct ks" "[] \<notin> set ks"
    using scoped_all_spec [of "call_ids_new scope" calls] by (auto simp: call_ids_new_def)
  let ?r = "map2 (\<lambda>call k. call\<lparr>tc_id := scope_prefix scope @ k\<rparr>) calls ks"
  have "map tc_id ?r = map (\<lambda>k. scope_prefix scope @ k) ks"
    "map tc_name ?r = map tc_name calls" "map tc_arguments ?r = map tc_arguments calls"
    using ks(2) by (auto intro: nth_equalityI)
  moreover have "distinct (map (\<lambda>k. scope_prefix scope @ k) ks)"
    using ks(3) by (simp add: distinct_map inj_on_def)
  moreover have "list_all (\<lambda>c. \<exists>k. k \<noteq> [] \<and> tc_id c = scope_prefix scope @ k) ?r"
    using ks(4) by (auto simp: list_all_iff dest: set_zip_rightD)
  ultimately show ?thesis using ks(1) by auto
qed

text \<open>
  The scope does not keep agents of one root turn apart on its own: an agent without a
  scope keeps a provider identifier that contains a slash, and it is the identifier a scoped
  agent gives to one of its calls.
\<close>

theorem unscoped_id_can_equal_scoped_id:
  assumes "scope \<noteq> []" and "k \<noteq> []"
  shows "\<exists>c ids c' ids'.
     scoped (call_ids_new None) \<lparr>tc_id = scope @ ''/'' @ k, tc_name = n, tc_arguments = a\<rparr> = Some (c, ids) \<and>
     scoped (call_ids_new (Some scope)) \<lparr>tc_id = k, tc_name = n, tc_arguments = a\<rparr> = Some (c', ids') \<and>
     tc_id c = tc_id c'"
  using assms by (auto simp: scoped_def call_ids_new_def scope_prefix_def)

theorem unscoped_id_can_equal_scoped_id_witness:
  "\<exists>c ids c' ids'.
     scoped (call_ids_new None) \<lparr>tc_id = ''delegate-1/0'', tc_name = ''read_file'', tc_arguments = JNull\<rparr> = Some (c, ids) \<and>
     scoped (call_ids_new (Some ''delegate-1'')) \<lparr>tc_id = ''0'', tc_name = ''read_file'', tc_arguments = JNull\<rparr> = Some (c', ids') \<and>
     tc_id c = tc_id c'"
  using unscoped_id_can_equal_scoped_id [of "''delegate-1''" "''0''" "''read_file''" JNull] by simp

end
