(* ===== verification/Prepared.thy ===== *)
theory Prepared
  imports Sensitive
begin

text \<open>
  Prepared file access of the read-only tools (\<open>xshell-execution/src/prepared.rs\<close>): the walk
  from the root with \<open>openat\<close>, the classification of the object it ends at, and the bounded
  reads.

  The operating system is a parameter: a record of the calls the walk makes, each of which takes
  and returns the state of the world, so that anything may change between two calls. Nothing is
  assumed of it.
\<close>

section \<open>The operating system\<close>

datatype file_type = S_IFREG | S_IFDIR | S_IFLNK | Other_type
datatype dir_type = DT_DIR | DT_UNKNOWN | DT_other
datatype 'd parent = AT_FDCWD | Fd 'd

record open_flags =
  O_DIRECTORY :: bool
  O_NOFOLLOW :: bool
  O_NONBLOCK :: bool

record ('w, 'd) os =
  os_canonicalize :: "string \<Rightarrow> 'w \<Rightarrow> ('w, string, string) outcome"
  os_openat :: "'d parent \<Rightarrow> string \<Rightarrow> open_flags \<Rightarrow> 'w \<Rightarrow> ('w, string, 'd) outcome"
  os_fstatat :: "'d \<Rightarrow> string \<Rightarrow> 'w \<Rightarrow> ('w, string, file_type) outcome"
  os_fstat :: "'d \<Rightarrow> 'w \<Rightarrow> ('w, string, file_type) outcome"
  os_readlinkat :: "'d \<Rightarrow> string \<Rightarrow> 'w \<Rightarrow> ('w, string, string) outcome"
  os_read :: "'d \<Rightarrow> nat \<Rightarrow> 'w \<Rightarrow> ('w, string, string) outcome"
  os_readdir :: "'d \<Rightarrow> 'w \<Rightarrow> ('w, string, (string \<times> dir_type) list) outcome"
  os_late :: "'w \<Rightarrow> bool"

section \<open>Paths\<close>

text \<open>\<open>std::path::Component\<close> and \<open>Path::components\<close> on the supported platforms.\<close>

datatype component = RootDir | CurDir | ParentDir | Normal string

definition is_absolute :: "string \<Rightarrow> bool" where
  "is_absolute p \<longleftrightarrow> starts_with p ''/''"

definition segment :: "string \<Rightarrow> component" where
  "segment s = (if s = ''..'' then ParentDir else Normal s)"

definition components :: "string \<Rightarrow> component list" where
  "components p =
     (let parts = split_on (\<lambda>c. c = slash) p;
          body = map segment (filter (\<lambda>s. s \<noteq> [] \<and> s \<noteq> ''.'') parts)
      in if is_absolute p then RootDir # body
         else if hd parts = ''.'' then CurDir # body
         else body)"

definition path_strip_prefix :: "component list \<Rightarrow> component list \<Rightarrow> component list option" where
  "path_strip_prefix pre p = (if prefix pre p then Some (drop (length pre) p) else None)"

text \<open>\<open>Path::join\<close> with a name that is not absolute.\<close>

definition path_join :: "string \<Rightarrow> string \<Rightarrow> string" where
  "path_join p name = (if p = [] \<or> last p = slash then p @ name else p @ [slash] @ name)"

section \<open>Preparation\<close>

definition MAX_SYMLINK_HOPS :: nat where
  "MAX_SYMLINK_HOPS = 40"

definition OUTSIDE_ROOT :: string where
  "OUTSIDE_ROOT = ''path is outside the current xshell working directory''"

datatype object_kind = File | Directory

record 'd prepared_object =
  po_descriptor :: 'd
  po_path :: string
  po_sensitive :: bool

definition nul :: char where
  "nul = char_of (0 :: nat)"

definition c_name :: "string \<Rightarrow> 'w \<Rightarrow> ('w, string, string) outcome" where
  "c_name name w =
     (if nul \<in> set name
      then (Err (''path contains a NUL byte: nul byte found in provided data at position: ''
                 @ show_nat (length (takeWhile (\<lambda>c. c \<noteq> nul) name))), w)
      else (Ok name, w))"

definition open_at ::
  "('w, 'd) os \<Rightarrow> 'd parent \<Rightarrow> string \<Rightarrow> open_flags \<Rightarrow> 'w \<Rightarrow> ('w, string, 'd) outcome" where
  "open_at sys par name flags w =
     (if nul \<in> set name then (Err ''path contains a NUL byte'', w)
      else os_openat sys par name flags w)"

definition relative_to_root ::
  "('w, 'd) os \<Rightarrow> string \<Rightarrow> string \<Rightarrow> string \<Rightarrow> 'w \<Rightarrow> ('w, string, component list) outcome" where
  "relative_to_root sys root spelled_root requested w =
     (if \<not> is_absolute requested then (Ok (components requested), w)
      else case path_strip_prefix (components root) (components requested) of
        Some inside \<Rightarrow> (Ok inside, w)
      | None \<Rightarrow>
          (case path_strip_prefix (components spelled_root) (components requested) of
             Some inside \<Rightarrow> (Ok inside, w)
           | None \<Rightarrow>
               (let (r, w1) = os_canonicalize sys requested w in
                case r of
                  Inl _ \<Rightarrow> (Err OUTSIDE_ROOT, w1)
                | Inr canonical \<Rightarrow>
                    (case path_strip_prefix (components root) (components canonical) of
                       Some inside \<Rightarrow> (Ok inside, w1)
                     | None \<Rightarrow> (Err OUTSIDE_ROOT, w1)))))"

fun component_name :: "component \<Rightarrow> string option" where
  "component_name (Normal name) = Some name"
| "component_name ParentDir = Some ''..''"
| "component_name CurDir = None"
| "component_name RootDir = None"

definition push_front_components :: "string list \<Rightarrow> component list \<Rightarrow> string list" where
  "push_front_components pending path = List.map_filter component_name path @ pending"

definition opened_path :: "string \<Rightarrow> ('d \<times> string) list \<Rightarrow> string" where
  "opened_path root opened = foldl (\<lambda>path (_, name). path_join path name) root (drop 1 opened)"

definition display_path :: "string \<Rightarrow> ('d \<times> string) list \<Rightarrow> string \<Rightarrow> string" where
  "display_path root opened component = path_join (opened_path root opened) component"

text \<open>The loop over the pending components.\<close>

function walk ::
  "('w, 'd) os \<Rightarrow> string \<Rightarrow> string \<Rightarrow> string \<Rightarrow> string list \<Rightarrow> ('d \<times> string) list \<Rightarrow> nat \<Rightarrow> 'w \<Rightarrow>
     ('w, string, ('d \<times> string) list) outcome" where
  "walk sys root spelled requested [] opened hops w = (Ok opened, w)"
| "walk sys root spelled requested (c # pending) opened hops w =
     (if c = ''..'' then
        if length opened = 1 then (Err OUTSIDE_ROOT, w)
        else walk sys root spelled requested pending (butlast opened) hops w
      else
        let par = fst (last opened) in
        bind_w (c_name c w) (\<lambda>name w.
        bind_w (with_context (''cannot resolve '' @ display_path root opened c) (os_fstatat sys par name w)) (\<lambda>status w.
        if status = S_IFLNK then
          if Suc hops > MAX_SYMLINK_HOPS
          then (Err (''too many symbolic links resolving '' @ requested), w)
          else
            bind_w (with_context (''cannot read link '' @ display_path root opened c) (os_readlinkat sys par name w)) (\<lambda>target w.
            if is_absolute target then
              bind_w (relative_to_root sys root spelled target w) (\<lambda>inside w.
              walk sys root spelled requested (push_front_components pending inside) (take 1 opened) (Suc hops) w)
            else
              walk sys root spelled requested (push_front_components pending (components target)) opened (Suc hops) w)
        else
          bind_w (with_context (''cannot open '' @ display_path root opened c)
            (open_at sys (Fd par) c \<lparr>O_DIRECTORY = (pending \<noteq> []), O_NOFOLLOW = True, O_NONBLOCK = True\<rparr> w)) (\<lambda>d w.
          walk sys root spelled requested pending (opened @ [(d, c)]) hops w))))"
  by pat_completeness auto
termination
  by (relation "measures [\<lambda>(sys, root, spelled, requested, pending, opened, hops, w). Suc MAX_SYMLINK_HOPS - hops,
        \<lambda>(sys, root, spelled, requested, pending, opened, hops, w). length pending]") auto

definition prepare ::
  "('w, 'd) os \<Rightarrow> string \<Rightarrow> string \<Rightarrow> object_kind \<Rightarrow> sensitive_paths \<Rightarrow> 'w \<Rightarrow>
     ('w, string, 'd prepared_object) outcome" where
  "prepare sys spelled_root requested kind sensitive w =
     bind_w (with_context (''cannot resolve tool root '' @ spelled_root) (os_canonicalize sys spelled_root w)) (\<lambda>root w.
     bind_w (with_context (''cannot open tool root '' @ root)
       (open_at sys AT_FDCWD root \<lparr>O_DIRECTORY = True, O_NOFOLLOW = False, O_NONBLOCK = False\<rparr> w)) (\<lambda>root_descriptor w.
     bind_w (relative_to_root sys root spelled_root requested w) (\<lambda>inside w.
     bind_w (walk sys root spelled_root requested (push_front_components [] inside) [(root_descriptor, [])] 0 w) (\<lambda>opened w.
     let path = opened_path root opened;
         descriptor = fst (last opened)
     in bind_w (with_context (''cannot inspect '' @ path) (os_fstat sys descriptor w)) (\<lambda>status w.
        if kind = File \<and> status = S_IFREG \<or> kind = Directory \<and> status = S_IFDIR
        then (Ok \<lparr>po_descriptor = descriptor, po_path = path, po_sensitive = sp_matches sensitive path\<rparr>, w)
        else (Err (path @ (case kind of File \<Rightarrow> '' is not a regular file'' | Directory \<Rightarrow> '' is not a directory'')), w))))))"

definition po_read :: "('w, 'd) os \<Rightarrow> 'd prepared_object \<Rightarrow> nat \<Rightarrow> 'w \<Rightarrow> ('w, string, string \<times> bool) outcome" where
  "po_read sys object max_bytes w =
     bind_w (with_context (''cannot read '' @ po_path object) (os_read sys (po_descriptor object) (max_bytes + 1) w))
       (\<lambda>bytes w. (Ok (take max_bytes bytes, length bytes > max_bytes), w))"

text \<open>The loop over the directory stream: entries so far, and whether more remained.\<close>

fun list_entries ::
  "('w, 'd) os \<Rightarrow> 'd \<Rightarrow> nat \<Rightarrow> (string \<times> bool) list \<Rightarrow> (string \<times> dir_type) list \<Rightarrow> 'w \<Rightarrow>
     ((string \<times> bool) list \<times> bool) \<times> 'w" where
  "list_entries sys d max_entries entries [] w = ((entries, False), w)"
| "list_entries sys d max_entries entries ((name, ty) # stream) w =
     (if name = ''.'' \<or> name = ''..'' then list_entries sys d max_entries entries stream w
      else if length entries = max_entries then ((entries, True), w)
      else case ty of
        DT_DIR \<Rightarrow> list_entries sys d max_entries (entries @ [(name, True)]) stream w
      | DT_UNKNOWN \<Rightarrow>
          (let (status, w1) = os_fstatat sys d name w
           in list_entries sys d max_entries (entries @ [(name, status = Ok S_IFDIR)]) stream w1)
      | DT_other \<Rightarrow> list_entries sys d max_entries (entries @ [(name, False)]) stream w)"

definition po_list ::
  "('w, 'd) os \<Rightarrow> 'd prepared_object \<Rightarrow> nat \<Rightarrow> 'w \<Rightarrow> ('w, string, (string \<times> bool) list \<times> bool) outcome" where
  "po_list sys object max_entries w =
     bind_w (with_context (''cannot list '' @ po_path object) (os_readdir sys (po_descriptor object) w))
       (\<lambda>stream w. let (r, w1) = list_entries sys (po_descriptor object) max_entries [] stream w in (Ok r, w1))"

section \<open>Confinement\<close>

text \<open>
  A descriptor reached from \<open>d0\<close> through the names \<open>ns\<close>: every step opened one plain name
  relative to the descriptor of the step before, with \<open>O_NOFOLLOW\<close>, in whatever state the world
  was then.
\<close>

definition plain_name :: "string \<Rightarrow> bool" where
  "plain_name n \<longleftrightarrow> n \<noteq> [] \<and> n \<noteq> ''.'' \<and> n \<noteq> ''..'' \<and> slash \<notin> set n \<and> nul \<notin> set n"

inductive beneath :: "('w, 'd) os \<Rightarrow> 'd \<Rightarrow> string list \<Rightarrow> 'd \<Rightarrow> bool" for sys d0 where
  beneath_root: "beneath sys d0 [] d0"
| beneath_step: "beneath sys d0 ns d \<Longrightarrow> plain_name n \<Longrightarrow> O_NOFOLLOW flags \<Longrightarrow>
    os_openat sys (Fd d) n flags w = (Ok d', w') \<Longrightarrow> beneath sys d0 (ns @ [n]) d'"

inductive_simps beneath_Nil: "beneath sys d0 [] d"

lemma beneath_plain: "beneath sys d0 ns d \<Longrightarrow> n \<in> set ns \<Longrightarrow> plain_name n"
  by (induction rule: beneath.induct) auto

text \<open>The stack of the walk: every entry is beneath the root through the names below it.\<close>

definition stack_ok :: "('w, 'd) os \<Rightarrow> 'd \<Rightarrow> ('d \<times> string) list \<Rightarrow> bool" where
  "stack_ok sys d0 opened \<longleftrightarrow> opened \<noteq> [] \<and>
     (\<forall>k < length opened. beneath sys d0 (map snd (take k (tl opened))) (fst (opened ! k)))"

lemma stack_ok_root: "stack_ok sys d0 [(d0, [])]"
  by (simp add: stack_ok_def beneath_root)

lemma stack_ok_last: "stack_ok sys d0 opened \<Longrightarrow> beneath sys d0 (map snd (tl opened)) (fst (last opened))"
proof -
  assume ok: "stack_ok sys d0 opened"
  then have ne: "opened \<noteq> []" by (simp add: stack_ok_def)
  with ok have "beneath sys d0 (map snd (take (length opened - 1) (tl opened))) (fst (opened ! (length opened - 1)))"
    unfolding stack_ok_def by (auto simp del: take_all take_all_iff elim: allE [of _ "length opened - 1"])
  with ne show ?thesis by (simp add: last_conv_nth)
qed

lemma stack_ok_push:
  assumes ok: "stack_ok sys d0 opened" and "plain_name c" and "O_NOFOLLOW flags"
    and "os_openat sys (Fd (fst (last opened))) c flags w = (Ok d, w')"
  shows "stack_ok sys d0 (opened @ [(d, c)])"
proof -
  have ne: "opened \<noteq> []" using ok by (simp add: stack_ok_def)
  have step: "beneath sys d0 (map snd (tl opened) @ [c]) d"
    using beneath_step [OF stack_ok_last [OF ok] assms(2,3,4)] .
  have "beneath sys d0 (map snd (take k (tl (opened @ [(d, c)])))) (fst ((opened @ [(d, c)]) ! k))"
    if "k < Suc (length opened)" for k
  proof (cases "k < length opened")
    case True
    with ok ne show ?thesis by (auto simp: stack_ok_def nth_append tl_append2)
  next
    case False
    with that have "k = length opened" by simp
    with step ne show ?thesis by (cases opened) auto
  qed
  with ne show ?thesis by (simp add: stack_ok_def)
qed

lemma stack_ok_take: "stack_ok sys d0 opened \<Longrightarrow> 0 < n \<Longrightarrow> stack_ok sys d0 (take n opened)"
  unfolding stack_ok_def by (auto simp: tl_take min_def)

lemma stack_ok_pop: "stack_ok sys d0 opened \<Longrightarrow> length opened \<noteq> 1 \<Longrightarrow> stack_ok sys d0 (butlast opened)"
  unfolding butlast_conv_take
  by (rule stack_ok_take) (cases opened; auto simp: stack_ok_def)+

text \<open>The names that enter the queue.\<close>

definition queued :: "string \<Rightarrow> bool" where
  "queued n \<longleftrightarrow> n = ''..'' \<or> (n \<noteq> [] \<and> n \<noteq> ''.'' \<and> slash \<notin> set n)"

lemma component_name_queued:
  "Normal n \<in> set (components p) \<Longrightarrow> n \<noteq> [] \<and> n \<noteq> ''.'' \<and> n \<noteq> ''..'' \<and> slash \<notin> set n"
  by (auto simp: components_def segment_def Let_def split: if_splits dest: split_on_no_sep)

definition normal_components :: "component list \<Rightarrow> bool" where
  "normal_components cs \<longleftrightarrow> (\<forall>n. Normal n \<in> set cs \<longrightarrow> n \<noteq> [] \<and> n \<noteq> ''.'' \<and> slash \<notin> set n)"

lemma normal_components_components [simp]: "normal_components (components p)"
  by (auto simp: normal_components_def dest: component_name_queued)

lemma normal_components_drop: "normal_components cs \<Longrightarrow> normal_components (drop k cs)"
  by (auto simp: normal_components_def dest: in_set_dropD)

lemma push_front_queued:
  assumes "normal_components cs" and "\<forall>n \<in> set pending. queued n"
  shows "\<forall>n \<in> set (push_front_components pending cs). queued n"
proof -
  have "queued n" if "c \<in> set cs" "component_name c = Some n" for c n
  proof (cases c)
    case (Normal m)
    with that assms(1) show ?thesis by (auto simp: normal_components_def queued_def)
  qed (use that in \<open>auto simp: queued_def\<close>)
  with assms(2) show ?thesis
    by (auto simp: push_front_components_def map_filter_def)
qed

lemma relative_to_root_normal:
  "relative_to_root sys root spelled p w = (Inr cs, w') \<Longrightarrow> normal_components cs"
  by (auto simp: relative_to_root_def path_strip_prefix_def normal_components_drop
      split: if_splits option.splits sum.splits prod.splits)

lemma walk_confined:
  assumes "walk sys root spelled requested pending opened hops w = (Inr opened', w')"
    and "stack_ok sys d0 opened" and "\<forall>n \<in> set pending. queued n"
  shows "stack_ok sys d0 opened'"
  using assms
proof (induction sys root spelled requested pending opened hops w
    arbitrary: opened' w' rule: walk.induct)
  case (1 sys root spelled requested opened hops w)
  then show ?case by simp
next
  case (2 sys root spelled requested c pending opened hops w)
  show ?case
  proof (cases "c = ''..''")
    case True
    with "2.prems" have l: "length opened \<noteq> 1"
      and w: "walk sys root spelled requested pending (butlast opened) hops w = (Inr opened', w')"
      by (auto split: if_splits)
    show ?thesis
      using "2.IH"(1) [OF True l w stack_ok_pop [OF "2.prems"(2) l]] "2.prems"(3) by simp
  next
    case False
    from "2.prems"(1) False obtain name w1 status w2 where
      n: "c_name c w = (Inr name, w1)"
      and s: "os_fstatat sys (fst (last opened)) name w1 = (Inr status, w2)"
      by (auto simp: bind_w_Ok Let_def)
    then have c: "name = c" "w1 = w" "nul \<notin> set c" by (auto simp: c_name_def split: if_splits)
    show ?thesis
    proof (cases "status = S_IFLNK")
      case True
      with "2.prems"(1) False n s obtain target w3 where
        hops: "\<not> Suc hops > MAX_SYMLINK_HOPS"
        and t: "os_readlinkat sys (fst (last opened)) name w2 = (Inr target, w3)"
        by (auto simp: bind_w_Ok Let_def split: if_splits)
      show ?thesis
      proof (cases "is_absolute target")
        case abs: True
        with "2.prems"(1) False n s True hops t obtain inside w4 where
          i: "relative_to_root sys root spelled target w3 = (Inr inside, w4)"
          and w: "walk sys root spelled requested (push_front_components pending inside) (take 1 opened) (Suc hops) w4
            = (Inr opened', w')"
          by (auto simp: bind_w_Ok Let_def split: if_splits)
        show ?thesis
        proof (rule "2.IH"(2) [OF False refl n _ True hops _ abs i w])
          show "stack_ok sys d0 (take 1 opened)" using "2.prems"(2) by (rule stack_ok_take) simp
          show "\<forall>n \<in> set (push_front_components pending inside). queued n"
            using push_front_queued [OF relative_to_root_normal [OF i], of pending] "2.prems"(3) by simp
        qed (use s t in simp_all)
      next
        case rel: False
        with "2.prems"(1) False n s True hops t have
          w: "walk sys root spelled requested (push_front_components pending (components target)) opened (Suc hops) w3
            = (Inr opened', w')"
          by (auto simp: bind_w_Ok Let_def split: if_splits)
        show ?thesis
        proof (rule "2.IH"(3) [OF False refl n _ True hops _ rel w])
          show "stack_ok sys d0 opened" by (rule "2.prems"(2))
          show "\<forall>n \<in> set (push_front_components pending (components target)). queued n"
            using push_front_queued [OF normal_components_components, of pending] "2.prems"(3) by simp
        qed (use s t in simp_all)
      qed
    next
      case ns: False
      let ?fl = "\<lparr>O_DIRECTORY = (pending \<noteq> []), O_NOFOLLOW = True, O_NONBLOCK = True\<rparr>"
      from ns "2.prems"(1) False n s obtain d w3 where
        o: "open_at sys (Fd (fst (last opened))) c ?fl w2 = (Inr d, w3)"
        and w: "walk sys root spelled requested pending (opened @ [(d, c)]) hops w3 = (Inr opened', w')"
        by (auto simp: bind_w_Ok Let_def)
      have "plain_name c" using "2.prems"(3) False c by (auto simp: plain_name_def queued_def)
      moreover have "os_openat sys (Fd (fst (last opened))) c ?fl w2 = (Inr d, w3)"
        using o c by (simp add: open_at_def)
      ultimately have "stack_ok sys d0 (opened @ [(d, c)])"
        using stack_ok_push [OF "2.prems"(2), of c ?fl] by simp
      then show ?thesis
        using "2.IH"(4) [OF False refl n _ ns _ w] s o "2.prems"(3) by simp
    qed
  qed
qed

lemma opened_path_names: "opened_path root opened = foldl path_join root (map snd (tl opened))"
  by (simp add: opened_path_def drop_Suc foldl_map case_prod_beta')

text \<open>
  C29. A prepared object is confined and is the object that was classified. Whatever the
  operating system does between two calls (it may change the file system at any time), an object
  that \<open>prepare\<close> returns was reached from the canonical root's descriptor by opening one plain
  name after the other (never \<open>..\<close>, never a name with a separator), each relative to the
  descriptor before and with \<open>O_NOFOLLOW\<close>; its path spells exactly these names below the
  canonical root, and its sensitivity is that of this path.
\<close>

theorem prepared_object_is_confined:
  assumes "prepare sys spelled_root requested kind sensitive w = (Ok obj, w')"
  shows "\<exists>root root_descriptor names w1 w2.
    os_canonicalize sys spelled_root w = (Ok root, w1) \<and>
    os_openat sys AT_FDCWD root \<lparr>O_DIRECTORY = True, O_NOFOLLOW = False, O_NONBLOCK = False\<rparr> w1
      = (Ok root_descriptor, w2) \<and>
    beneath sys root_descriptor names (po_descriptor obj) \<and>
    list_all plain_name names \<and>
    po_path obj = foldl path_join root names \<and>
    po_sensitive obj = sp_matches sensitive (po_path obj)"
proof -
  from assms obtain root w1 rd w2 inside w3 opened w4 where
    r: "os_canonicalize sys spelled_root w = (Ok root, w1)"
    and o: "open_at sys AT_FDCWD root \<lparr>O_DIRECTORY = True, O_NOFOLLOW = False, O_NONBLOCK = False\<rparr> w1 = (Ok rd, w2)"
    and i: "relative_to_root sys root spelled_root requested w2 = (Ok inside, w3)"
    and k: "walk sys root spelled_root requested (push_front_components [] inside) [(rd, [])] 0 w3 = (Ok opened, w4)"
    and obj: "obj = \<lparr>po_descriptor = fst (last opened), po_path = opened_path root opened,
        po_sensitive = sp_matches sensitive (opened_path root opened)\<rparr>"
    unfolding prepare_def bind_w_Ok with_context_Ok by (auto simp: Let_def bind_w_Ok split: if_splits)
  have "\<forall>n \<in> set (push_front_components [] inside). queued n"
    using push_front_queued [OF relative_to_root_normal [OF i], of "[]"] by simp
  then have "stack_ok sys rd opened" by (rule walk_confined [OF k stack_ok_root])
  then have "beneath sys rd (map snd (tl opened)) (po_descriptor obj)"
    using stack_ok_last by (fastforce simp: obj)
  moreover have "os_openat sys AT_FDCWD root \<lparr>O_DIRECTORY = True, O_NOFOLLOW = False, O_NONBLOCK = False\<rparr> w1 = (Ok rd, w2)"
    using o by (auto simp: open_at_def split: if_splits)
  moreover have "list_all plain_name (map snd (tl opened))"
    unfolding list_all_iff using beneath_plain calculation(1) by fast
  moreover have "po_path obj = foldl path_join root (map snd (tl opened))"
    by (simp add: obj opened_path_names)
  moreover have "po_sensitive obj = sp_matches sensitive (po_path obj)" by (simp add: obj)
  ultimately show ?thesis using r by blast
qed

text \<open>
  A small file system: descriptors are paths, \<open>/w/notes\<close> is a file, \<open>/w/keys\<close> a link to
  \<open>.ssh/id_rsa\<close>, \<open>/w/.ssh\<close> a directory with the file \<open>id_rsa\<close>.
\<close>

definition small_type :: "string \<Rightarrow> file_type option" where
  "small_type p =
     (if p = ''/w'' \<or> p = ''/w/.ssh'' then Some S_IFDIR
      else if p = ''/w/notes'' \<or> p = ''/w/.ssh/id_rsa'' then Some S_IFREG
      else if p = ''/w/keys'' then Some S_IFLNK
      else None)"

definition small_stat :: "string \<Rightarrow> unit \<Rightarrow> (unit, string, file_type) outcome" where
  "small_stat p w = (case small_type p of Some t \<Rightarrow> (Ok t, w) | None \<Rightarrow> (Err ''not found'', w))"

definition small_os :: "(unit, string) os" where
  "small_os = \<lparr>
     os_canonicalize = (\<lambda>p w. (Ok p, w)),
     os_openat = (\<lambda>par name flags w.
       let p = (case par of AT_FDCWD \<Rightarrow> name | Fd d \<Rightarrow> path_join d name) in
       case small_type p of
         None \<Rightarrow> (Err ''not found'', w)
       | Some t \<Rightarrow> if t = S_IFLNK then (Err ''too many levels'', w) else (Ok p, w)),
     os_fstatat = (\<lambda>d name. small_stat (path_join d name)),
     os_fstat = small_stat,
     os_readlinkat = (\<lambda>d name w. (Ok ''.ssh/id_rsa'', w)),
     os_read = (\<lambda>d n w. (Ok (take n ''text''), w)),
     os_readdir = (\<lambda>d w. (Ok [], w)),
     os_late = (\<lambda>w. False)\<rparr>"

theorem prepared_object_is_confined_witness:
  "\<exists>names. beneath small_os ''/w'' names ''/w/.ssh/id_rsa'' \<and> foldl path_join ''/w'' names = ''/w/.ssh/id_rsa''"
proof -
  have "prepare small_os ''/w'' ''keys'' File sp_none ()
    = (Ok \<lparr>po_descriptor = ''/w/.ssh/id_rsa'', po_path = ''/w/.ssh/id_rsa'', po_sensitive = False\<rparr>, ())"
    by code_simp
  from prepared_object_is_confined [OF this] show ?thesis
    by (auto simp: small_os_def small_type_def)
qed

end
