(* ===== verification/Tools.thy ===== *)
theory Tools
  imports Chat Prepared Policy "HOL-Library.Product_Lexorder"
begin

text \<open>
  The tools an agent may call (\<open>xshell-execution/src/tools.rs\<close>): the closed set of tools, tool
  sets as bit masks, the definitions advertised to the model, preparation and gating of a call,
  and its execution with bounded output. The operating system is the record of theory
  \<open>Prepared\<close>; \<open>lossy\<close> stands for \<open>String::from_utf8_lossy\<close>, and running a shell command is a
  parameter.
\<close>

unbundle bit_operations_syntax

definition MAX_TOOL_OUTPUT_BYTES :: nat where
  "MAX_TOOL_OUTPUT_BYTES = 64 * 1024"

definition MAX_DIRECTORY_ENTRIES :: nat where
  "MAX_DIRECTORY_ENTRIES = 500"

section \<open>Tools and tool sets\<close>

datatype tool = ReadFile | ListDirectory | RunShell | DelegateTask

definition ALL_TOOLS :: "tool list" where
  "ALL_TOOLS = [ReadFile, ListDirectory, RunShell, DelegateTask]"

fun name_of_tool :: "tool \<Rightarrow> string" where
  "name_of_tool ReadFile = ''read_file''"
| "name_of_tool ListDirectory = ''list_directory''"
| "name_of_tool RunShell = ''run_shell''"
| "name_of_tool DelegateTask = ''delegate_task''"

definition tool_from_name :: "string \<Rightarrow> tool option" where
  "tool_from_name name = find (\<lambda>t. name_of_tool t = name) ALL_TOOLS"

fun is_read_only :: "tool \<Rightarrow> bool" where
  "is_read_only ReadFile = True"
| "is_read_only ListDirectory = True"
| "is_read_only RunShell = False"
| "is_read_only DelegateTask = False"

fun discriminant :: "tool \<Rightarrow> nat" where
  "discriminant ReadFile = 0"
| "discriminant ListDirectory = 1"
| "discriminant RunShell = 2"
| "discriminant DelegateTask = 3"

definition tool_bit :: "tool \<Rightarrow> 8 word" where
  "tool_bit t = push_bit (discriminant t) 1"

type_synonym tool_set = "8 word"

definition ts_from_tools :: "tool list \<Rightarrow> tool_set" where
  "ts_from_tools tools = foldl (\<lambda>bits t. bits OR tool_bit t) 0 tools"

definition ts_all :: tool_set where
  "ts_all = ts_from_tools ALL_TOOLS"

definition ts_none :: tool_set where
  "ts_none = 0"

definition ts_read_only :: tool_set where
  "ts_read_only = ts_from_tools (filter is_read_only ALL_TOOLS)"

definition ts_contains :: "tool_set \<Rightarrow> tool \<Rightarrow> bool" where
  "ts_contains s t \<longleftrightarrow> s AND tool_bit t \<noteq> 0"

definition ts_get :: "tool_set \<Rightarrow> string \<Rightarrow> tool option" where
  "ts_get s name =
     (case tool_from_name name of
        Some t \<Rightarrow> if ts_contains s t then Some t else None
      | None \<Rightarrow> None)"

definition ts_without :: "tool_set \<Rightarrow> tool \<Rightarrow> tool_set" where
  "ts_without s t = s AND NOT (tool_bit t)"

definition ts_intersect :: "tool_set \<Rightarrow> tool_set \<Rightarrow> tool_set" where
  "ts_intersect a b = a AND b"

definition ts_tools :: "tool_set \<Rightarrow> tool list" where
  "ts_tools s = filter (ts_contains s) ALL_TOOLS"

section \<open>Definitions advertised to the model\<close>

record tool_definition =
  td_name :: string
  td_description :: string
  td_parameters :: json

definition string_field :: "string \<Rightarrow> json" where
  "string_field text = JObject [(''description'', JString text), (''type'', JString ''string'')]"

definition object_schema :: "(string \<times> json) list \<Rightarrow> string list \<Rightarrow> json" where
  "object_schema properties required =
     JObject ([(''additionalProperties'', JBool False), (''properties'', JObject properties)]
       @ (if required = [] then [] else [(''required'', JArray (map JString required))])
       @ [(''type'', JString ''object'')])"

definition apostrophe :: string where
  "apostrophe = [char_of (39 :: nat)]"

definition backquoted_task :: string where
  "backquoted_task = [char_of (96 :: nat)] @ ''task'' @ [char_of (96 :: nat)]"

definition tool_definitions :: "tool_definition list" where
  "tool_definitions =
     [\<lparr>td_name = ''read_file'',
       td_description = ''Read a UTF-8 text file inside the current xshell working directory. Files that look like credentials or keys require user approval.'',
       td_parameters = object_schema
         [(''max_bytes'', JObject [(''maximum'', JNumber (PosInt (of_nat MAX_TOOL_OUTPUT_BYTES))),
            (''minimum'', JNumber (PosInt 1)), (''type'', JString ''integer'')]),
          (''path'', string_field ''Path relative to the working directory'')]
         [''path'']\<rparr>,
      \<lparr>td_name = ''list_directory'',
       td_description = ''List files and directories inside the current xshell working directory.'',
       td_parameters = object_schema
         [(''path'', string_field ''Directory relative to the working directory; defaults to .'')] []\<rparr>,
      \<lparr>td_name = ''run_shell'',
       td_description = ''Run a shell command in the current xshell working directory. This always requires user approval.'',
       td_parameters = object_schema
         [(''command'', string_field (''Command passed to the user'' @ apostrophe @ ''s configured shell''))] [''command'']\<rparr>,
      \<lparr>td_name = ''delegate_task'',
       td_description = ''Start a subagent to complete one self-contained task and return its final answer. The subagent starts with no conversation context, so '' @ backquoted_task @ '' must contain everything it needs. It works in the same directory with the same or fewer permissions and cannot start subagents of its own. Use it for bounded investigation whose details you do not need to keep in your own context.'',
       td_parameters = object_schema
         [(''task'', string_field ''Complete instructions for the subagent''),
          (''tools'', JObject
            [(''description'', JString ''read_only (default): read_file and list_directory only. inherit: your tools, including run_shell under the same approval policy''),
             (''enum'', JArray [JString ''read_only'', JString ''inherit'']),
             (''type'', JString ''string'')])]
         [''task'']\<rparr>]"

definition ts_definitions :: "tool_set \<Rightarrow> tool_definition list" where
  "ts_definitions s = filter (\<lambda>d. ts_get s (td_name d) \<noteq> None) tool_definitions"

section \<open>Preparing and gating a call\<close>

datatype gate_reason = ShellExecution | SensitivePath | PolicyGate

fun gate_reason_text :: "gate_reason \<Rightarrow> string" where
  "gate_reason_text ShellExecution = ''shell execution''"
| "gate_reason_text SensitivePath = ''sensitive path''"
| "gate_reason_text PolicyGate = ''approval policy''"

datatype 'd preparation = Read "'d prepared_object" | Failed string | OtherTool

definition required_string :: "json \<Rightarrow> string \<Rightarrow> (string, string) result" where
  "required_string arguments key =
     (case Option.bind (json_get arguments key) as_str of
        Some s \<Rightarrow> Ok s
      | None \<Rightarrow> Err (''missing string argument '' @ key))"

definition read_request :: "tool_call \<Rightarrow> (string, string \<times> object_kind) result option" where
  "read_request call =
     (case tool_from_name (tc_name call) of
        None \<Rightarrow> None
      | Some ReadFile \<Rightarrow> Some (and_then (required_string (tc_arguments call) ''path'') (\<lambda>p. Ok (p, File)))
      | Some ListDirectory \<Rightarrow>
          Some (Ok (case Option.bind (json_get (tc_arguments call) ''path'') as_str of
                      Some p \<Rightarrow> p | None \<Rightarrow> ''.'', Directory))
      | Some _ \<Rightarrow> None)"

definition requires_approval_by_name :: "string \<Rightarrow> bool" where
  "requires_approval_by_name name \<longleftrightarrow> tool_from_name name = Some RunShell"

text \<open>
  \<open>run_blocking\<close>: the work runs on a worker, and its result is lost when the deadline passes
  first. A panic of the worker is not modelled.
\<close>

definition FILESYSTEM_DEADLINE_MS :: nat where
  "FILESYSTEM_DEADLINE_MS = 30000"

definition run_blocking ::
  "('w, 'd) os \<Rightarrow> ('w \<Rightarrow> ('w, string, 'a) outcome) \<Rightarrow> 'w \<Rightarrow> ('w, string, 'a) outcome" where
  "run_blocking sys work w =
     (let (r, w1) = work w in
      if os_late sys w1
      then (Err (''the filesystem did not respond within '' @ show_nat FILESYSTEM_DEADLINE_MS @ '' ms''), w1)
      else (r, w1))"

definition prepare_call ::
  "('w, 'd) os \<Rightarrow> tool_call \<Rightarrow> string \<Rightarrow> sensitive_paths \<Rightarrow> sensitive_paths \<Rightarrow> 'w \<Rightarrow> 'd preparation \<times> 'w" where
  "prepare_call sys call root sensitive blocked w =
     (case read_request call of
        None \<Rightarrow> (OtherTool, w)
      | Some (Inl e) \<Rightarrow> (Failed (''tool error: '' @ e), w)
      | Some (Inr (path, kind)) \<Rightarrow>
          (let (r, w1) = run_blocking sys (prepare sys root path kind sensitive) w in
           case r of
             Inr object \<Rightarrow>
               if sp_matches blocked (po_path object)
               then (Failed (''tool error: '' @ po_path object @ '' is blocked by the session host'' @ apostrophe @ ''s policy''), w1)
               else (Read object, w1)
           | Inl e \<Rightarrow> (Failed (''tool error: '' @ e), w1)))"

fun preparation_path :: "'d preparation \<Rightarrow> string option" where
  "preparation_path (Read object) = Some (po_path object)"
| "preparation_path _ = None"

definition gate :: "tool_call \<Rightarrow> 'd preparation \<Rightarrow> gate_reason option" where
  "gate call p =
     (if requires_approval_by_name (tc_name call) then Some ShellExecution
      else case p of
        Read object \<Rightarrow> if po_sensitive object then Some SensitivePath else None
      | _ \<Rightarrow> None)"

definition requires_approval ::
  "('w, 'd) os \<Rightarrow> tool_call \<Rightarrow> string \<Rightarrow> sensitive_paths \<Rightarrow> 'w \<Rightarrow> gate_reason option \<times> 'w" where
  "requires_approval sys call root sensitive w =
     (let (p, w1) =
        (case read_request call of
           None \<Rightarrow> (OtherTool, w)
         | Some (Inl e) \<Rightarrow> (Failed (''tool error: '' @ e), w)
         | Some (Inr (path, kind)) \<Rightarrow>
             (let (r, w1) = prepare sys root path kind sensitive w
              in (case r of Inr object \<Rightarrow> Read object | Inl e \<Rightarrow> Failed (''tool error: '' @ e), w1)))
      in (gate call p, w1))"

section \<open>Execution with bounded output\<close>

definition truncate_output :: "string \<Rightarrow> string" where
  "truncate_output output =
     (if length output \<le> MAX_TOOL_OUTPUT_BYTES then output
      else take (floor_boundary output MAX_TOOL_OUTPUT_BYTES) output @ [char_of (10 :: nat)] @ ''[tool output truncated]'')"

text \<open>A pipe read to its end: the sizes of the reads are those of the chunks.\<close>

record bounded_output =
  bo_bytes :: string
  bo_truncated :: bool

fun read_bounded_loop :: "bounded_output \<Rightarrow> string list \<Rightarrow> bounded_output" where
  "read_bounded_loop out [] = out"
| "read_bounded_loop out (chunk # chunks) =
     (if length chunk = 0 then out
      else
        let remaining = MAX_TOOL_OUTPUT_BYTES - length (bo_bytes out);
            retained = min (length chunk) remaining
        in read_bounded_loop
             \<lparr>bo_bytes = bo_bytes out @ take retained chunk,
              bo_truncated = (bo_truncated out \<or> retained < length chunk)\<rparr> chunks)"

definition read_bounded_output :: "string list \<Rightarrow> bounded_output" where
  "read_bounded_output chunks = read_bounded_loop \<lparr>bo_bytes = [], bo_truncated = False\<rparr> chunks"

definition bo_render :: "(string \<Rightarrow> string) \<Rightarrow> bounded_output \<Rightarrow> string" where
  "bo_render lossy out =
     lossy (bo_bytes out) @ (if bo_truncated out then [char_of (10 :: nat)] @ ''[stream output truncated]'' else [])"

definition read_file ::
  "('w, 'd) os \<Rightarrow> (string \<Rightarrow> string) \<Rightarrow> 'd prepared_object \<Rightarrow> nat \<Rightarrow> 'w \<Rightarrow> ('w, string, string) outcome" where
  "read_file sys lossy object max_bytes w =
     bind_w (po_read sys object max_bytes w) (\<lambda>(bytes, truncated) w.
       (Ok (if truncated
            then lossy bytes @ [char_of (10 :: nat)] @ ''[output truncated at '' @ show_nat max_bytes @ '' bytes]''
            else lossy bytes), w))"



definition list_directory ::
  "('w, 'd) os \<Rightarrow> (string \<Rightarrow> string) \<Rightarrow> 'd prepared_object \<Rightarrow> 'w \<Rightarrow> ('w, string, string) outcome" where
  "list_directory sys lossy object w =
     bind_w (po_list sys object MAX_DIRECTORY_ENTRIES w) (\<lambda>(entries, truncated) w.
       (Ok (join [char_of (10 :: nat)]
              (map (\<lambda>(name, is_directory). lossy name @ (if is_directory then ''/'' else [])) (sort entries))
            @ (if truncated
               then [char_of (10 :: nat)] @ ''[listing truncated after '' @ show_nat MAX_DIRECTORY_ENTRIES
                    @ '' entries; the rest were not read]''
               else [])), w))"

definition execute_prepared ::
  "('w, 'd) os \<Rightarrow> (string \<Rightarrow> string) \<Rightarrow> (json \<Rightarrow> 'w \<Rightarrow> ('w, string, string) outcome) \<Rightarrow>
     tool_call \<Rightarrow> 'd preparation \<Rightarrow> 'w \<Rightarrow> string \<times> 'w" where
  "execute_prepared sys lossy run_shell call p w =
     (case p of
        Failed message \<Rightarrow> (message, w)
      | _ \<Rightarrow>
        (let (output, w1) =
           (case p of
              Read object \<Rightarrow>
                (if tool_from_name (tc_name call) = Some ReadFile then
                   let max_bytes =
                     min (case json_get (tc_arguments call) ''max_bytes'' of
                            Some (JNumber n) \<Rightarrow> (case as_u64 n of Some k \<Rightarrow> unat k | None \<Rightarrow> MAX_TOOL_OUTPUT_BYTES)
                          | _ \<Rightarrow> MAX_TOOL_OUTPUT_BYTES)
                         MAX_TOOL_OUTPUT_BYTES
                   in run_blocking sys (read_file sys lossy object max_bytes) w
                 else run_blocking sys (list_directory sys lossy object) w)
            | _ \<Rightarrow>
                (case tool_from_name (tc_name call) of
                   Some RunShell \<Rightarrow> run_shell (tc_arguments call) w
                 | Some DelegateTask \<Rightarrow> (Err ''delegate_task is dispatched by the agent engine'', w)
                 | Some _ \<Rightarrow> (Err (tc_name call @ '' was not prepared''), w)
                 | None \<Rightarrow> (Err (''unknown tool '' @ tc_name call), w)))
         in case output of
              Inr text \<Rightarrow> (truncate_output text, w1)
            | Inl e \<Rightarrow> (''tool error: '' @ e, w1)))"

section \<open>Tool sets\<close>

lemma tool_from_name_name [simp]: "tool_from_name (name_of_tool t) = Some t"
  by (cases t) (simp_all add: tool_from_name_def ALL_TOOLS_def)

lemma tool_from_name_Some: "tool_from_name name = Some t \<longleftrightarrow> name = name_of_tool t"
proof
  assume "tool_from_name name = Some t"
  then show "name = name_of_tool t" by (auto simp: tool_from_name_def find_Some_iff)
qed simp

lemma name_of_tool_inj: "name_of_tool a = name_of_tool b \<longleftrightarrow> a = b"
  by (cases a; cases b) simp_all

lemma discriminant_inj: "discriminant a = discriminant b \<longleftrightarrow> a = b"
  by (cases a; cases b) simp_all

lemma discriminant_less [simp]: "discriminant t < 8"
  by (cases t) simp_all

lemma bit_tool_bit: "bit (tool_bit t) n \<longleftrightarrow> n = discriminant t"
  using discriminant_less [of t] by (auto simp: tool_bit_def bit_exp_iff possible_bit_word)

lemma ts_contains_bit: "ts_contains s t \<longleftrightarrow> bit s (discriminant t)"
proof -
  have "s AND tool_bit t \<noteq> 0 \<longleftrightarrow> (\<exists>n. bit (s AND tool_bit t) n)"
    by (metis bit_eqI bit_0_eq bot_apply bot_bool_def)
  then show ?thesis by (simp add: ts_contains_def bit_and_iff bit_tool_bit)
qed

lemma ts_contains_simps [simp]:
  "ts_contains (ts_intersect a b) t \<longleftrightarrow> ts_contains a t \<and> ts_contains b t"
  "ts_contains (ts_without s u) t \<longleftrightarrow> ts_contains s t \<and> t \<noteq> u"
  "\<not> ts_contains ts_none t"
  by (auto simp: ts_contains_bit ts_intersect_def ts_without_def ts_none_def bit_and_iff bit_not_iff
      bit_tool_bit discriminant_inj possible_bit_word)

lemma ts_contains_from_tools [simp]: "ts_contains (ts_from_tools ts) t \<longleftrightarrow> t \<in> set ts"
proof -
  have "bit (foldl (\<lambda>bits t. bits OR tool_bit t) b ts) (discriminant t) \<longleftrightarrow> bit b (discriminant t) \<or> t \<in> set ts" for b
    by (induction ts arbitrary: b) (auto simp: bit_or_iff bit_tool_bit discriminant_inj)
  then show ?thesis by (simp add: ts_contains_bit ts_from_tools_def)
qed

lemma ts_contains_all [simp]: "ts_contains ts_all t"
  by (cases t) (simp_all add: ts_all_def ALL_TOOLS_def)

lemma ts_contains_read_only [simp]: "ts_contains ts_read_only t \<longleftrightarrow> is_read_only t"
  by (cases t) (simp_all add: ts_read_only_def ALL_TOOLS_def)

lemma ts_get_Some: "ts_get s name = Some t \<longleftrightarrow> name = name_of_tool t \<and> ts_contains s t"
  by (auto simp: ts_get_def tool_from_name_Some name_of_tool_inj split: option.splits)

text \<open>
  What is advertised is what can be dispatched: the definitions of a tool set name exactly
  the tools whose calls the set resolves, in the fixed order, and a name outside the set, or one
  that no tool has, resolves to nothing.
\<close>

theorem advertised_tools_are_dispatchable:
  "map td_name (ts_definitions s) = map name_of_tool (ts_tools s) \<and>
   (name \<in> set (map td_name (ts_definitions s)) \<longleftrightarrow> (\<exists>t. ts_get s name = Some t))"
proof -
  have names: "map td_name tool_definitions = map name_of_tool ALL_TOOLS"
    by (simp add: tool_definitions_def ALL_TOOLS_def)
  have "map td_name (ts_definitions s) = filter (\<lambda>n. ts_get s n \<noteq> None) (map td_name tool_definitions)"
    by (simp add: ts_definitions_def filter_map comp_def)
  also have "\<dots> = map name_of_tool (filter (\<lambda>t. ts_get s (name_of_tool t) \<noteq> None) ALL_TOOLS)"
    unfolding names by (simp add: filter_map comp_def)
  also have "(\<lambda>t. ts_get s (name_of_tool t) \<noteq> None) = ts_contains s"
    by (rule ext) (simp add: ts_get_def)
  finally have eq: "map td_name (ts_definitions s) = map name_of_tool (ts_tools s)"
    by (simp add: ts_tools_def)
  have "t \<in> set ALL_TOOLS" for t by (cases t) (simp_all add: ALL_TOOLS_def)
  then have "name \<in> set (map name_of_tool (ts_tools s)) \<longleftrightarrow> (\<exists>t. ts_get s name = Some t)"
    by (auto simp: ts_tools_def ts_get_Some)
  with eq show ?thesis by simp
qed

section \<open>Bounded output\<close>

lemma truncate_output_length: "length (truncate_output s) \<le> MAX_TOOL_OUTPUT_BYTES + 24"
  using floor_boundary_le [of s MAX_TOOL_OUTPUT_BYTES] by (simp add: truncate_output_def)

lemma read_bounded_loop_spec:
  assumes "bo_bytes out = take MAX_TOOL_OUTPUT_BYTES before"
    and "bo_truncated out \<longleftrightarrow> MAX_TOOL_OUTPUT_BYTES < length before" and "[] \<notin> set chunks"
  shows "bo_bytes (read_bounded_loop out chunks) = take MAX_TOOL_OUTPUT_BYTES (before @ concat chunks) \<and>
    (bo_truncated (read_bounded_loop out chunks) \<longleftrightarrow> MAX_TOOL_OUTPUT_BYTES < length (before @ concat chunks))"
  using assms
proof (induction chunks arbitrary: out before)
  case Nil
  then show ?case by simp
next
  case (Cons c cs)
  let ?r = "MAX_TOOL_OUTPUT_BYTES - length (bo_bytes out)"
  let ?out = "\<lparr>bo_bytes = bo_bytes out @ take (min (length c) ?r) c,
      bo_truncated = (bo_truncated out \<or> min (length c) ?r < length c)\<rparr>"
  have "read_bounded_loop out (c # cs) = read_bounded_loop ?out cs"
    using Cons.prems(3) by (cases c) (simp_all add: Let_def)
  moreover have "bo_bytes ?out = take MAX_TOOL_OUTPUT_BYTES (before @ c)"
    using Cons.prems(1) by (auto simp: min_def)
  moreover have "bo_truncated ?out \<longleftrightarrow> MAX_TOOL_OUTPUT_BYTES < length (before @ c)"
    using Cons.prems(1,2) by (auto simp: min_def)
  ultimately show ?case using Cons.IH [of ?out "before @ c"] Cons.prems(3) by simp
qed

text \<open>
  Draining a pipe loses nothing but what lies beyond the bound: after reads of any sizes the
  retained bytes are the first \<open>MAX_TOOL_OUTPUT_BYTES\<close> of the whole stream, and the stream is
  reported as truncated exactly when it was longer.
\<close>

theorem read_bounded_output_is_prefix:
  assumes "[] \<notin> set chunks"
  shows "bo_bytes (read_bounded_output chunks) = take MAX_TOOL_OUTPUT_BYTES (concat chunks) \<and>
    (bo_truncated (read_bounded_output chunks) \<longleftrightarrow> length (concat chunks) > MAX_TOOL_OUTPUT_BYTES)"
  using read_bounded_loop_spec [of "\<lparr>bo_bytes = [], bo_truncated = False\<rparr>" "[]" chunks] assms
  by (simp add: read_bounded_output_def)

theorem read_bounded_output_is_prefix_witness:
  "bo_bytes (read_bounded_output [''ab'', ''c'']) = take MAX_TOOL_OUTPUT_BYTES ''abc''"
  using read_bounded_output_is_prefix [of "[''ab'', ''c'']"] by simp

end
