(* ===== verification/Engine.thy ===== *)
theory Engine
  imports Budget Compaction Call_Id Tools
begin

text \<open>
  The agent loop (\<open>xshell-execution/src/engine.rs\<close>): one turn of an agent, its provider requests,
  its tool calls with their approval, delegation to subagents, and what a failed turn leaves
  behind.

  Everything outside the engine is a parameter, the record \<open>env\<close>: the provider with the race
  against cancellation and expiry, the clock, the cancellation flag, the observer with its
  approvals, the operating system and the shell. Each call takes and returns the state of the
  world; no assumption is made about any of them. The engine's calls are recorded in a trace,
  which the properties speak about.

  A turn is a loop that ends only by its budget, so \<open>agent_loop\<close> takes fuel, one unit for each
  pass; \<open>agent_loop_returns\<close> shows that the provider requests left in the budget plus one are
  enough, subagents included.
\<close>

section \<open>Approval modes\<close>

fun permissiveness :: "approval_policy \<Rightarrow> nat" where
  "permissiveness Off = 0"
| "permissiveness Ask = 1"
| "permissiveness Auto = 2"

definition approval_clamp_to :: "approval_policy \<Rightarrow> approval_policy \<Rightarrow> approval_policy" where
  "approval_clamp_to p ceiling = (if permissiveness p \<le> permissiveness ceiling then p else ceiling)"

datatype approval_decision = Approve | DenyCall | AbortTurn

section \<open>Events\<close>

datatype execution_event =
    TextDelta string
  | AgentResponse string nat bool "string option" "string option"
  | AutoContinued string string
  | ToolRequested tool_call
  | ApprovalRequested tool_call "gate_reason option"
  | ToolDecision string approval_decision
  | ToolSkipped string string
  | ToolResult string string string
  | TurnAborted
  | HistoryCompacted compaction_report
  | SubagentStarted string string "string list"
  | Subagent string execution_event
  | SubagentFinished string string "string option"

fun innermost :: "execution_event \<Rightarrow> execution_event" where
  "innermost (Subagent _ e) = innermost e"
| "innermost e = e"

fun into_innermost_loop :: "string option \<Rightarrow> execution_event \<Rightarrow> string option \<times> execution_event" where
  "into_innermost_loop agent (Subagent a e) = into_innermost_loop (Some a) e"
| "into_innermost_loop agent e = (agent, e)"

definition into_innermost :: "execution_event \<Rightarrow> string option \<times> execution_event" where
  "into_innermost e = into_innermost_loop None e"

section \<open>The environment\<close>

datatype provider_outcome =
    Response "(adapter_error, assistant_response) result"
  | Cancelled
  | Expired

record ('w, 'd) env =
  env_os :: "('w, 'd) os"
  env_chat :: "chat_message list \<Rightarrow> tool_definition list \<Rightarrow> 'w \<Rightarrow> (string list \<times> provider_outcome) \<times> 'w"
  env_now :: "'w \<Rightarrow> instant"
  env_cancelled :: "'w \<Rightarrow> bool"
  env_emit :: "execution_event \<Rightarrow> 'w \<Rightarrow> 'w"
  env_approve :: "tool_call \<Rightarrow> gate_reason \<Rightarrow> 'w \<Rightarrow> approval_decision \<times> 'w"
  env_shell :: "duration \<Rightarrow> json \<Rightarrow> 'w \<Rightarrow> ('w, string, string) outcome"
  env_json :: "json \<Rightarrow> string"
  env_lossy :: "string \<Rightarrow> string"
  env_lowercase :: "string \<Rightarrow> string"
  env_shell_words :: shell_words

text \<open>
  The trace of a turn: what it emitted, what it asked, what it sent to the provider and what it
  ran. \<open>Execute\<close> records a call that reached \<open>execute_prepared\<close>, with the facts on which it was
  decided.
\<close>

datatype action =
    Emit execution_event
  | AskApproval tool_call gate_reason approval_decision
  | Chat "chat_message list"
  | Execute tool_call tool_call call_facts

record 'w shared =
  sh_world :: 'w
  sh_budget :: turn_budget
  sh_trace :: "action list"

record turn_policy =
  tp_approval :: approval_policy
  tp_sensitive_paths :: sensitive_paths
  tp_blocked_paths :: sensitive_paths
  tp_rules :: approval_rules
  tp_compactor :: compactor
  tp_tools :: tool_set
  tp_agent_scope :: "string option"
  tp_limits :: turn_limits

definition turn_policy_new :: "string option \<Rightarrow> approval_policy \<Rightarrow> turn_policy" where
  "turn_policy_new schema approval = \<lparr>tp_approval = approval, tp_sensitive_paths = sp_default,
     tp_blocked_paths = sp_none,
     tp_rules = \<lparr>ar_base = \<lparr>p_always_allowed = [], p_allowed = None, p_denied = []\<rparr>, ar_overlay = None\<rparr>,
     tp_compactor = build_compactor schema compaction_config_default,
     tp_tools = ts_all, tp_agent_scope = None, tp_limits = limits_default\<rparr>"

text \<open>The local variables of a turn; \<open>st_aborted\<close> is the flag of the subagent's observer.\<close>

record turn_state =
  st_history :: "chat_message list"
  st_rollback :: "chat_message list"
  st_call_ids :: call_ids
  st_delegations :: nat
  st_observed_tool_activity :: bool
  st_auto_continues :: nat
  st_overflow_retry_used :: bool
  st_aborted :: bool

datatype turn_error =
    Exhausted budget_exhausted
  | Adapter adapter_error
  | Bailed string

definition turn_error_message :: "turn_error \<Rightarrow> string" where
  "turn_error_message e =
     (case e of Exhausted b \<Rightarrow> exhausted_message b | Adapter a \<Rightarrow> adapter_error_message a | Bailed t \<Rightarrow> t)"

type_synonym turn_result = "(turn_error, unit) result"

text \<open>\<open>observer.emit\<close>: a subagent's observer wraps the event for its parent.\<close>

definition wrap :: "string list \<Rightarrow> execution_event \<Rightarrow> execution_event" where
  "wrap agents e = foldr Subagent agents e"

definition emit :: "('w, 'd) env \<Rightarrow> string list \<Rightarrow> execution_event \<Rightarrow> 'w shared \<Rightarrow> 'w shared" where
  "emit env agents e sh =
     sh\<lparr>sh_world := env_emit env (wrap agents e) (sh_world sh),
        sh_trace := sh_trace sh @ [Emit (wrap agents e)]\<rparr>"

definition emit_all :: "('w, 'd) env \<Rightarrow> string list \<Rightarrow> execution_event list \<Rightarrow> 'w shared \<Rightarrow> 'w shared" where
  "emit_all env agents es sh = foldl (\<lambda>sh e. emit env agents e sh) sh es"

abbreviation is_cancelled :: "('w, 'd) env \<Rightarrow> 'w shared \<Rightarrow> bool" where
  "is_cancelled env sh \<equiv> env_cancelled env (sh_world sh)"

section \<open>Nudging a model that stopped early\<close>

definition ANNOUNCED_STEP_PROMPT :: string where
  "ANNOUNCED_STEP_PROMPT = ''[xshell] Your last message announced another step but contained no tool call, so the turn would have ended there. If you meant to use a tool, call it now. If you are finished, give your final answer.''"

definition EMPTY_RESPONSE_PROMPT :: string where
  "EMPTY_RESPONSE_PROMPT = ''[xshell] Your last message was empty. Continue the task: call a tool if you need one, or give your final answer.''"

text \<open>\<open>str::rfind\<close> with a string pattern.\<close>

definition rfind_sub :: "string \<Rightarrow> string \<Rightarrow> nat option" where
  "rfind_sub p s = find (\<lambda>i. prefix p (drop i s)) (rev [0..<Suc (length s)])"

text \<open>\<open>str::replace\<close> of one pattern.\<close>

function replace_all :: "string \<Rightarrow> string \<Rightarrow> string \<Rightarrow> string" where
  "replace_all old new [] = []"
| "replace_all old new (c # s) =
     (if old \<noteq> [] \<and> prefix old (c # s) then new @ replace_all old new (drop (length old) (c # s))
      else c # replace_all old new s)"
  by pat_completeness auto
termination
  by (relation "measure (\<lambda>(old, new, s). length s)") (auto simp: neq_Nil_conv)

definition OPENERS :: "string list" where
  "OPENERS =
     [''let me '', ''let'' @ apostrophe @ ''s '', ''i'' @ apostrophe @ ''ll '', ''i will '',
      ''i'' @ apostrophe @ ''m going to '', ''i am going to '', ''now let me '',
      ''now i'' @ apostrophe @ ''ll '', ''next, '', ''next i'' @ apostrophe @ ''ll '',
      ''first, let me '', ''first i'' @ apostrophe @ ''ll '']"

definition announces_next_step :: "(string \<Rightarrow> string) \<Rightarrow> string \<Rightarrow> bool" where
  "announces_next_step lowercase line =
     (if length line > 400 \<or> ends_with line ''?'' then False
      else
        let line = replace_all (map char_of [0xE2 :: nat, 0x80, 0x99]) apostrophe (lowercase line);
            body = trim_end_codes [''.'', '':'', ''!'', '' ''] line;
            tail_start = (case rfind_sub ''. '' body of
                            Some i \<Rightarrow> Some i
                          | None \<Rightarrow> rfind_sub ''! '' body);
            sentence = trim_start_codes (whitespace_codes @ [''*'', ''_'', ''#'', ''-'', ''>''])
              (case tail_start of None \<Rightarrow> body | Some i \<Rightarrow> drop (i + 2) body)
        in \<not> starts_with sentence ''let me know'' \<and> list_ex (starts_with sentence) OPENERS)"

definition auto_continue_reason :: "(string \<Rightarrow> string) \<Rightarrow> assistant_response \<Rightarrow> (string \<times> string) option" where
  "auto_continue_reason lowercase r =
     (if ar_tool_calls r \<noteq> [] \<or> ar_finish_reason r = Some ''length'' then None
      else if trim (ar_content r) = [] then Some (''empty_response'', EMPTY_RESPONSE_PROMPT)
      else case find (\<lambda>l. l \<noteq> []) (map trim (rev (str_lines (trim (ar_content r))))) of
        None \<Rightarrow> None
      | Some last_line \<Rightarrow>
          if announces_next_step lowercase last_line
          then Some (''announced_step_without_tool_call'', ANNOUNCED_STEP_PROMPT)
          else None)"

section \<open>Bookkeeping of the history\<close>

definition stage_compaction ::
  "(json \<Rightarrow> string) \<Rightarrow> compactor \<Rightarrow> chat_message list \<Rightarrow> (chat_message list \<times> compaction_report) option" where
  "stage_compaction js c h =
     (if (case compactor_max_bytes c of Some n \<Rightarrow> history_bytes js h \<le> n | None \<Rightarrow> False) then None
      else case compact js c h of
        (staged, Some report) \<Rightarrow> Some (staged, report)
      | (_, None) \<Rightarrow> None)"

definition compact_history ::
  "('w, 'd) env \<Rightarrow> string list \<Rightarrow> turn_policy \<Rightarrow> chat_message list \<Rightarrow> 'w shared \<Rightarrow> chat_message list \<times> 'w shared" where
  "compact_history env agents policy h sh =
     (case compact (env_json env) (tp_compactor policy) h of
        (h', Some report) \<Rightarrow> (h', emit env agents (HistoryCompacted report) sh)
      | (h', None) \<Rightarrow> (h', sh))"

definition merge_system_messages :: "chat_message list \<Rightarrow> chat_message list \<times> nat" where
  "merge_system_messages h =
     (let has_prefix = (case h of m # _ \<Rightarrow> role m = System | [] \<Rightarrow> False);
          skip = (if has_prefix then 1 else 0);
          misplaced = filter (\<lambda>m. role m = System) (drop skip h)
      in if misplaced = [] then (h, 0)
         else
           let sections = map content (take skip h @ misplaced);
               kept = take skip h @ filter (\<lambda>m. role m \<noteq> System) (drop skip h);
               merged = join [lf, lf] sections
           in (if has_prefix then (hd kept)\<lparr>content := merged\<rparr> # tl kept
               else system_message merged # kept, length misplaced))"

definition preserve_or_rollback_failed_turn :: "string \<Rightarrow> turn_state \<Rightarrow> turn_state" where
  "preserve_or_rollback_failed_turn message st =
     (if st_observed_tool_activity st
      then st\<lparr>st_history := st_history st @ [system_message
             (''xshell execution record: the previous turn ended after observed tool activity: '' @ message)]\<rparr>
      else st\<lparr>st_history := st_rollback st\<rparr>)"

definition stub_unfinished_tool_calls :: "tool_call list \<Rightarrow> string \<Rightarrow> turn_state \<Rightarrow> turn_state" where
  "stub_unfinished_tool_calls calls message st =
     st\<lparr>st_history := st_history st @ map (\<lambda>call. tool_result call message) calls\<rparr>"

definition refuse_tool_call ::
  "('w, 'd) env \<Rightarrow> string list \<Rightarrow> tool_call \<Rightarrow> tool_call \<Rightarrow> string \<Rightarrow> turn_state \<Rightarrow> 'w shared \<Rightarrow> turn_state \<times> 'w shared" where
  "refuse_tool_call env agents call sc result st sh =
     (st\<lparr>st_history := st_history st @ [tool_result call result]\<rparr>,
      emit env agents (ToolResult (tc_id sc) (tc_name call) result)
        (emit env agents (ToolDecision (tc_id sc) DenyCall) sh))"

fun refuse_all ::
  "('w, 'd) env \<Rightarrow> string list \<Rightarrow> string \<Rightarrow> (tool_call \<times> tool_call) list \<Rightarrow> turn_state \<Rightarrow> 'w shared \<Rightarrow> turn_state \<times> 'w shared" where
  "refuse_all env agents result [] st sh = (st, sh)"
| "refuse_all env agents result ((call, sc) # rest) st sh =
     (let (st, sh) = refuse_tool_call env agents call sc result st sh
      in refuse_all env agents result rest st sh)"

definition emit_partial_response :: "('w, 'd) env \<Rightarrow> string list \<Rightarrow> string \<Rightarrow> 'w shared \<Rightarrow> 'w shared" where
  "emit_partial_response env agents streamed_text sh =
     (if streamed_text \<noteq> [] then emit env agents (AgentResponse streamed_text 0 True None None) sh else sh)"

definition skip_events :: "tool_call list \<Rightarrow> execution_event list" where
  "skip_events sc = map (\<lambda>s. ToolSkipped (tc_id s) (tc_name s)) sc"

section \<open>Provider requests\<close>

text \<open>
  One request: charge, stage a compaction, send, and what to do with each outcome. \<open>Sent\<close>
  is an accepted response with the staged compaction made durable; \<open>Retry\<close> is the second
  attempt after a context overflow.
\<close>

datatype 'a request_step =
    Sent assistant_response 'a
  | Retry 'a
  | Stop turn_error 'a

definition measured_overflow :: "nat option \<Rightarrow> nat option \<Rightarrow> string" where
  "measured_overflow prompt_tokens available_tokens =
     (case (prompt_tokens, available_tokens) of
        (Some p, Some a) \<Rightarrow> ''the prompt ('' @ show_nat p @ '' tokens) exceeded the model'' @ apostrophe @ ''s ''
           @ show_nat a @ ''-token context window''
      | _ \<Rightarrow> ''the prompt exceeded the model'' @ apostrophe @ ''s context window'')"

text \<open>\<open>drop_tool_payloads(&mut history[turn_start..])\<close>.\<close>

definition drop_last_turn_payloads :: "chat_message list \<Rightarrow> chat_message list" where
  "drop_last_turn_payloads h =
     (let start = (case rposition is_user h of Some i \<Rightarrow> i | None \<Rightarrow> 0)
      in take start h @ fst (drop_tool_payloads (drop start h)))"

definition handle_overflow ::
  "('w, 'd) env \<Rightarrow> turn_policy \<Rightarrow> string list \<Rightarrow> string \<Rightarrow> turn_state \<Rightarrow> 'w shared \<Rightarrow> (turn_state \<times> 'w shared) request_step" where
  "handle_overflow env policy agents measured st sh =
     (case compact_overflow (env_json env) (tp_compactor policy) (st_history st) of
        (h, Some report) \<Rightarrow>
          Retry (st\<lparr>st_history := h,
                    st_rollback := fst (compact_overflow (env_json env) (tp_compactor policy) (st_rollback st))\<rparr>,
                 emit env agents (HistoryCompacted report) sh)
      | (h, None) \<Rightarrow>
          (let st = st\<lparr>st_history := h\<rparr>;
               st = (if st_observed_tool_activity st
                     then st\<lparr>st_history := drop_last_turn_payloads (st_history st)\<rparr> else st);
               st = preserve_or_rollback_failed_turn
                      (measured @ '' and history could not be shrunk further; this turn'' @ apostrophe
                       @ ''s tool output was dropped from the transcript'') st;
               st = (if \<not> st_observed_tool_activity st
                     then st\<lparr>st_history := st_history st @ [system_message
                       (''xshell execution record: the previous turn was rejected because '' @ measured
                        @ ''. Older context was compacted as far as it can go and the turn was rolled back.'')]\<rparr>
                     else st)
           in Stop (Bailed (measured @ ''; the transcript is now estimated at ''
                    @ show_nat (estimate_history_tokens (env_json env) (st_history st))
                    @ '' tokens. Start a new session with //new or lower max_history_bytes to continue.'')) (st, sh)))"

definition handle_outcome ::
  "('w, 'd) env \<Rightarrow> turn_policy \<Rightarrow> string list \<Rightarrow> (chat_message list \<times> compaction_report) option \<Rightarrow> string \<Rightarrow>
     provider_outcome \<Rightarrow> turn_state \<Rightarrow> 'w shared \<Rightarrow> (turn_state \<times> 'w shared) request_step" where
  "handle_outcome env policy agents staged streamed_text outcome st sh =
     (case outcome of
        Cancelled \<Rightarrow>
          Stop (Bailed ''agent turn cancelled'')
            (preserve_or_rollback_failed_turn ''agent turn cancelled'' st, sh)
      | Expired \<Rightarrow>
          (let e = WallTime (tl_wall_time (b_limits (sh_budget sh))) in
           Stop (Exhausted e)
             (preserve_or_rollback_failed_turn (exhausted_message e) st,
              emit_partial_response env agents streamed_text sh))
      | Response (Inr response) \<Rightarrow>
          (case staged of
             Some (h, report) \<Rightarrow>
               Sent response (st\<lparr>st_history := h\<rparr>, emit env agents (HistoryCompacted report) sh)
           | None \<Rightarrow> Sent response (st, sh))
      | Response (Inl e) \<Rightarrow>
          (case (e, st_overflow_retry_used st) of
             (ContextOverflow p a, False) \<Rightarrow>
               handle_overflow env policy agents (measured_overflow p a)
                 (st\<lparr>st_overflow_retry_used := True\<rparr>) sh
           | _ \<Rightarrow>
               Stop (Adapter e)
                 (preserve_or_rollback_failed_turn (''agent provider failed: '' @ adapter_error_message e) st,
                  emit_partial_response env agents streamed_text sh)))"

definition provider_request ::
  "('w, 'd) env \<Rightarrow> turn_policy \<Rightarrow> string list \<Rightarrow> turn_state \<Rightarrow> 'w shared \<Rightarrow> (turn_state \<times> 'w shared) request_step" where
  "provider_request env policy agents st sh =
     (case charge_provider_request (env_now env (sh_world sh)) (sh_budget sh) of
        (budget, Inl e) \<Rightarrow>
          Stop (Exhausted e) (preserve_or_rollback_failed_turn (exhausted_message e) st, sh\<lparr>sh_budget := budget\<rparr>)
      | (budget, Inr _) \<Rightarrow>
        (let staged = stage_compaction (env_json env) (tp_compactor policy) (st_history st);
             request = fst (merge_system_messages (case staged of Some (h, _) \<Rightarrow> h | None \<Rightarrow> st_history st))
         in case env_chat env request (ts_definitions (tp_tools policy)) (sh_world sh) of
           ((deltas, outcome), world) \<Rightarrow>
             handle_outcome env policy agents staged (concat deltas) outcome st
               (emit_all env agents (map TextDelta deltas)
                 (sh\<lparr>sh_budget := budget, sh_world := world, sh_trace := sh_trace sh @ [Chat request]\<rparr>))))"

section \<open>Tool calls\<close>

text \<open>
  A nested turn, as the tool loop sees it: policy, observers, history, task and shared state in;
  result, final history, abort flag and shared state out. \<open>None\<close> means that it did not return.
\<close>

type_synonym 'w child =
  "turn_policy \<Rightarrow> string list \<Rightarrow> chat_message list \<Rightarrow> string \<Rightarrow> 'w shared \<Rightarrow>
     (turn_result \<times> chat_message list \<times> bool \<times> 'w shared) option"

record delegation =
  dl_result :: string
  dl_aborted :: bool

definition DEFAULT_SYSTEM_PROMPT :: string where
  "DEFAULT_SYSTEM_PROMPT = ''You are a helpful engineering assistant. Be explicit about uncertainty. Do not take irreversible, destructive, or security-sensitive actions without explaining the intended action and obtaining confirmation.''"

definition SUBAGENT_SYSTEM_PROMPT :: string where
  "SUBAGENT_SYSTEM_PROMPT = ''You are a subagent started by another agent to complete one bounded task. Work only on that task. You cannot ask the user questions. Your final message is returned to the other agent as the task'' @ apostrophe @ ''s result, so make it a complete, self-contained answer that states what you found and anything you could not determine.''"

definition refused_delegation :: "string \<Rightarrow> delegation" where
  "refused_delegation message = \<lparr>dl_result = ''tool error: '' @ message, dl_aborted = False\<rparr>"

definition string_argument :: "tool_call \<Rightarrow> string \<Rightarrow> string option" where
  "string_argument call key = Option.bind (json_get (tc_arguments call) key) as_str"

definition child_tools :: "turn_policy \<Rightarrow> tool_set \<Rightarrow> tool_set" where
  "child_tools policy requested = ts_without (ts_intersect requested (tp_tools policy)) DelegateTask"

definition final_answer :: "chat_message list \<Rightarrow> string" where
  "final_answer h =
     (case find (\<lambda>m. role m = Assistant) (rev h) of
        Some m \<Rightarrow> if trim (content m) \<noteq> [] then trim (content m) else ''(the subagent finished without a final answer)''
      | None \<Rightarrow> ''(the subagent finished without a final answer)'')"

definition delegation_outcome ::
  "bool \<Rightarrow> string \<Rightarrow> turn_result \<Rightarrow> bool \<Rightarrow> chat_message list \<Rightarrow> string \<times> string option \<times> string" where
  "delegation_outcome cancelled name r aborted h =
     (case r of
        Inr _ \<Rightarrow>
          if aborted then (''aborted'', None, ''subagent '' @ name @ '' stopped: the user aborted its turn'')
          else (''completed'', None, final_answer h)
      | Inl e \<Rightarrow>
          let detail = turn_error_message e in
          case e of
            Exhausted _ \<Rightarrow> (''budget_exhausted'', Some detail, ''subagent '' @ name @ '' stopped: '' @ detail)
          | _ \<Rightarrow>
              if cancelled then (''cancelled'', None, ''subagent '' @ name @ '' was cancelled'')
              else (''failed'', Some detail, ''subagent '' @ name @ '' failed: '' @ detail))"

definition start_subagent ::
  "('w, 'd) env \<Rightarrow> 'w child \<Rightarrow> turn_policy \<Rightarrow> string list \<Rightarrow> string \<Rightarrow> tool_set \<Rightarrow> string \<Rightarrow> 'w shared \<Rightarrow> (delegation \<times> 'w shared) option" where
  "start_subagent env child policy agents task tools name sh =
     (let child_policy = policy\<lparr>tp_tools := tools, tp_agent_scope := Some name\<rparr>;
          sh = emit env agents (SubagentStarted name task (map name_of_tool (ts_tools tools))) sh;
          history = [system_message (DEFAULT_SYSTEM_PROMPT @ [lf, lf] @ SUBAGENT_SYSTEM_PROMPT)]
      in case child child_policy (agents @ [name]) history task sh of
           None \<Rightarrow> None
         | Some (r, h, aborted, sh) \<Rightarrow>
             (case delegation_outcome (is_cancelled env sh) name r aborted h of
                (status, message, result) \<Rightarrow>
                  Some (\<lparr>dl_result = truncate_output result, dl_aborted = aborted\<rparr>,
                        emit env agents (SubagentFinished name status message) sh)))"

definition run_delegation ::
  "('w, 'd) env \<Rightarrow> 'w child \<Rightarrow> turn_policy \<Rightarrow> string list \<Rightarrow> tool_call \<Rightarrow> nat \<Rightarrow> 'w shared \<Rightarrow> (delegation \<times> 'w shared) option" where
  "run_delegation env child policy agents call number sh =
     (let task = (case string_argument call ''task'' of
                    Some t \<Rightarrow> if trim t \<noteq> [] then Some t else None | None \<Rightarrow> None);
          requested = (case string_argument call ''tools'' of
                         None \<Rightarrow> Ok ts_read_only
                       | Some t \<Rightarrow> if t = ''read_only'' then Ok ts_read_only
                                   else if t = ''inherit'' then Ok ts_all
                                   else Err t);
          name = (case tp_agent_scope policy of Some s \<Rightarrow> s @ ''/delegate-'' @ show_nat number
                  | None \<Rightarrow> ''delegate-'' @ show_nat number)
      in case (task, requested) of
           (None, _) \<Rightarrow>
             Some (refused_delegation (''delegate_task requires a non-empty string argument '' @ debug_str ''task''), sh)
         | (Some _, Inl other) \<Rightarrow>
             Some (refused_delegation (''delegate_task '' @ debug_str ''tools'' @ '' must be '' @ debug_str ''read_only''
                     @ '' or '' @ debug_str ''inherit'' @ '', not '' @ debug_str other), sh)
         | (Some task, Inr requested) \<Rightarrow>
             start_subagent env child policy agents task (child_tools policy requested) name sh)"

text \<open>
  The outcome of one call: the loop goes on, or the turn ends. The rest of the batch, as pairs
  of the provider's call and its scoped copy, is what an early end has to answer.
\<close>

type_synonym 'w call_outcome = "turn_result option \<times> turn_state \<times> 'w shared"

definition call_facts_of :: "tool_call \<Rightarrow> tool \<Rightarrow> 'd preparation \<Rightarrow> call_facts" where
  "call_facts_of call t p =
     \<lparr>cf_tool = tc_name call,
      cf_command = (if t = RunShell then string_argument call ''command'' else None),
      cf_path = preparation_path p,
      cf_gated = (gate call p \<noteq> None),
      cf_sensitive = (gate call p = Some SensitivePath)\<rparr>"

definition ABORTED_RESULT :: string where
  "ABORTED_RESULT = ''tool execution aborted by user; agent turn stopped''"

text \<open>After the decision: run or refuse, report the result, and stop if asked to.\<close>

definition finish_call ::
  "('w, 'd) env \<Rightarrow> string list \<Rightarrow> tool_call \<Rightarrow> tool_call \<Rightarrow> (tool_call \<times> tool_call) list \<Rightarrow>
     string \<Rightarrow> bool \<Rightarrow> turn_state \<Rightarrow> 'w shared \<Rightarrow> 'w call_outcome" where
  "finish_call env agents call sc rest result subagent_aborted st sh =
     (let sh = emit env agents (ToolResult (tc_id sc) (tc_name call) result) sh;
          st = st\<lparr>st_history := st_history st @ [tool_result call result]\<rparr>
      in if subagent_aborted then
           (Some (Ok ()),
            (stub_unfinished_tool_calls (map fst rest) ABORTED_RESULT st)\<lparr>st_aborted := True\<rparr>,
            emit env agents TurnAborted (emit_all env agents (skip_events (map snd rest)) sh))
         else if is_cancelled env sh then
           (let sh = emit_all env agents (skip_events (map snd rest)) sh;
                st = stub_unfinished_tool_calls (map fst rest)
                       ''tool not run because the agent turn was cancelled'' st
            in (Some (Err (Bailed ''agent turn cancelled during tool execution'')),
                preserve_or_rollback_failed_turn ''agent turn cancelled during tool execution'' st, sh))
         else (None, st, sh))"

definition run_call ::
  "('w, 'd) env \<Rightarrow> 'w child \<Rightarrow> turn_policy \<Rightarrow> string list \<Rightarrow> tool_call \<Rightarrow> tool_call \<Rightarrow> (tool_call \<times> tool_call) list \<Rightarrow>
     tool \<Rightarrow> 'd preparation \<Rightarrow> bool \<Rightarrow> approval_decision \<Rightarrow> turn_state \<Rightarrow> 'w shared \<Rightarrow> 'w call_outcome option" where
  "run_call env child policy agents call sc rest t p denied_by_policy decision st sh =
     (if denied_by_policy then
        Some (finish_call env agents call sc rest ''tool denied by the approval policy'' False st sh)
      else if decision \<noteq> Approve then
        Some (finish_call env agents call sc rest ''tool denied by user'' False st sh)
      else if t = DelegateTask then
        (let st = st\<lparr>st_observed_tool_activity := True, st_delegations := st_delegations st + 1\<rparr> in
         case run_delegation env child policy agents call (st_delegations st) sh of
           None \<Rightarrow> None
         | Some (d, sh) \<Rightarrow> Some (finish_call env agents call sc rest (dl_result d) (dl_aborted d) st sh))
      else
        (let st = st\<lparr>st_observed_tool_activity := True\<rparr>;
             sh = sh\<lparr>sh_trace := sh_trace sh @ [Execute call sc (call_facts_of call t p)]\<rparr>;
             (result, world) = execute_prepared (env_os env) (env_lossy env)
                (env_shell env (tl_shell_timeout (b_limits (sh_budget sh)))) call p (sh_world sh)
         in Some (finish_call env agents call sc rest result False st (sh\<lparr>sh_world := world\<rparr>))))"

definition decide_call ::
  "('w, 'd) env \<Rightarrow> turn_policy \<Rightarrow> string list \<Rightarrow> tool_call \<Rightarrow> gate_reason option \<Rightarrow> call_facts \<Rightarrow> 'w shared \<Rightarrow>
     approval_decision \<times> 'w shared" where
  "decide_call env policy agents sc gate_reason facts sh =
     (case rules_decide (env_shell_words env) (tp_rules policy) facts (tp_approval policy) of
        Run \<Rightarrow> (Approve, sh)
      | Deny \<Rightarrow> (DenyCall, sh)
      | Prompt \<Rightarrow>
          (let reason = (case gate_reason of Some r \<Rightarrow> r | None \<Rightarrow> PolicyGate);
               sh = emit env agents (ApprovalRequested sc (Some reason)) sh;
               (decision, world) = env_approve env sc reason (sh_world sh)
           in (decision, sh\<lparr>sh_world := world, sh_trace := sh_trace sh @ [AskApproval sc reason decision]\<rparr>)))"

definition evaluate_call ::
  "('w, 'd) env \<Rightarrow> 'w child \<Rightarrow> turn_policy \<Rightarrow> string list \<Rightarrow> string \<Rightarrow> tool_call \<Rightarrow> tool_call \<Rightarrow> (tool_call \<times> tool_call) list \<Rightarrow>
     tool \<Rightarrow> turn_state \<Rightarrow> 'w shared \<Rightarrow> 'w call_outcome option" where
  "evaluate_call env child policy agents cwd call sc rest t st sh =
     (let (p, world) = prepare_call (env_os env) call cwd (tp_sensitive_paths policy) (tp_blocked_paths policy) (sh_world sh);
          sh = sh\<lparr>sh_world := world\<rparr>;
          facts = call_facts_of call t p;
          denied_by_policy =
            (rules_decide (env_shell_words env) (tp_rules policy) facts (tp_approval policy) = Deny \<and>
             default_decision facts (tp_approval policy) \<noteq> Deny);
          (decision, sh) = decide_call env policy agents sc (gate call p) facts sh;
          sh = emit env agents (ToolDecision (tc_id sc) decision) sh
      in if is_cancelled env sh then
           (let st = (if st_observed_tool_activity st
                      then stub_unfinished_tool_calls (call # map fst rest)
                             ''tool not run because the agent turn was cancelled before execution'' st
                      else st)
            in Some (Some (Err (Bailed ''agent turn cancelled before tool execution'')),
                     preserve_or_rollback_failed_turn ''agent turn cancelled before tool execution'' st, sh))
         else if decision = AbortTurn then
           Some (Some (Ok ()),
                 (stub_unfinished_tool_calls (call # map fst rest) ABORTED_RESULT st)\<lparr>st_aborted := True\<rparr>,
                 emit env agents TurnAborted (emit_all env agents (skip_events (map snd rest)) sh))
         else run_call env child policy agents call sc rest t p denied_by_policy decision st sh)"

definition dispatch_call ::
  "('w, 'd) env \<Rightarrow> 'w child \<Rightarrow> turn_policy \<Rightarrow> string list \<Rightarrow> string \<Rightarrow> nat \<Rightarrow> tool_call \<Rightarrow> tool_call \<Rightarrow> (tool_call \<times> tool_call) list \<Rightarrow>
     turn_state \<Rightarrow> 'w shared \<Rightarrow> 'w call_outcome option" where
  "dispatch_call env child policy agents cwd index call sc rest st sh =
     (let per_response = tl_tool_calls_per_response (b_limits (sh_budget sh)) in
      if is_cancelled env sh then
        (let st = (if st_observed_tool_activity st
                   then stub_unfinished_tool_calls (call # map fst rest)
                          ''tool not run because the agent turn was cancelled'' st
                   else st)
         in Some (Some (Err (Bailed ''agent turn cancelled'')),
                  preserve_or_rollback_failed_turn ''agent turn cancelled'' st, sh))
      else if index \<ge> per_response then
        (let (st, sh) = refuse_tool_call env agents call sc
               (''tool error: not run; the response exceeded the limit of '' @ show_nat per_response
                @ '' tool calls per response'') st sh
         in Some (None, st, sh))
      else
        (let (budget, charged) = charge_tool_call (env_now env (sh_world sh)) (sh_budget sh);
             sh = sh\<lparr>sh_budget := budget\<rparr>
         in case charged of
           Inl e \<Rightarrow>
             (let (st, sh) = refuse_all env agents (''tool error: not run; '' @ exhausted_message e)
                    ((call, sc) # rest) st sh
              in Some (Some (Err (Exhausted e)), preserve_or_rollback_failed_turn (exhausted_message e) st, sh))
         | Inr _ \<Rightarrow>
             (case ts_get (tp_tools policy) (tc_name call) of
                None \<Rightarrow>
                  (let result =
                     (if tool_from_name (tc_name call) \<noteq> None
                      then ''tool error: '' @ tc_name call @ '' is not available to this agent''
                      else ''tool error: unknown tool '' @ tc_name call);
                       (st, sh) = refuse_tool_call env agents call sc result st sh
                   in Some (None, st, sh))
              | Some t \<Rightarrow> evaluate_call env child policy agents cwd call sc rest t st sh)))"

fun run_tools ::
  "('w, 'd) env \<Rightarrow> 'w child \<Rightarrow> turn_policy \<Rightarrow> string list \<Rightarrow> string \<Rightarrow> nat \<Rightarrow> (tool_call \<times> tool_call) list \<Rightarrow>
     turn_state \<Rightarrow> 'w shared \<Rightarrow> 'w call_outcome option" where
  "run_tools env child policy agents cwd index [] st sh = Some (None, st, sh)"
| "run_tools env child policy agents cwd index ((call, sc) # rest) st sh =
     (case dispatch_call env child policy agents cwd index call sc rest st sh of
        None \<Rightarrow> None
      | Some (Some r, st, sh) \<Rightarrow> Some (Some r, st, sh)
      | Some (None, st, sh) \<Rightarrow> run_tools env child policy agents cwd (Suc index) rest st sh)"

section \<open>The turn\<close>

definition turn_start :: "turn_policy \<Rightarrow> chat_message list \<Rightarrow> string \<Rightarrow> turn_state" where
  "turn_start policy history task =
     \<lparr>st_history = history @ [user_message task], st_rollback = history,
      st_call_ids = call_ids_new (tp_agent_scope policy), st_delegations = 0,
      st_observed_tool_activity = False, st_auto_continues = 0,
      st_overflow_retry_used = False, st_aborted = False\<rparr>"

text \<open>What a response does to the turn: record it, then end, nudge, or run its calls.\<close>

definition record_response ::
  "('w, 'd) env \<Rightarrow> string list \<Rightarrow> assistant_response \<Rightarrow> turn_state \<Rightarrow> 'w shared \<Rightarrow>
     (tool_call list \<times> turn_state \<times> 'w shared) option" where
  "record_response env agents response st sh =
     (let sh = emit env agents (AgentResponse (ar_content response) (length (ar_tool_calls response)) False
                 (ar_reasoning response) (ar_finish_reason response)) sh
      in case scoped_all (st_call_ids st) (ar_tool_calls response) of
           None \<Rightarrow> None
         | Some (scs, ids) \<Rightarrow>
             Some (scs,
               st\<lparr>st_call_ids := ids,
                  st_history := st_history st @ [with_reasoning
                    (assistant_with_tools (ar_content response) (ar_tool_calls response)) (ar_reasoning response)]\<rparr>,
               emit_all env agents (map ToolRequested scs) sh))"

primrec agent_loop ::
  "('w, 'd) env \<Rightarrow> string \<Rightarrow> nat \<Rightarrow> turn_policy \<Rightarrow> string list \<Rightarrow> turn_state \<Rightarrow> 'w shared \<Rightarrow>
     (turn_result \<times> turn_state \<times> 'w shared) option" where
  "agent_loop env cwd 0 = (\<lambda>policy agents st sh. None)"
| "agent_loop env cwd (Suc fuel) = (\<lambda>policy agents st sh.
     let child = (\<lambda>policy agents history task sh.
           map_option (\<lambda>(r, st, sh). (r, st_history st, st_aborted st, sh))
             (agent_loop env cwd fuel policy agents (turn_start policy history task) sh))
     in case provider_request env policy agents st sh of
       Stop e (st, sh) \<Rightarrow> Some (Err e, st, sh)
     | Retry (st, sh) \<Rightarrow> agent_loop env cwd fuel policy agents st sh
     | Sent response (st, sh) \<Rightarrow>
       (case record_response env agents response st sh of
          None \<Rightarrow> None
        | Some (scs, st, sh) \<Rightarrow>
          if ar_tool_calls response = [] then
            (case auto_continue_reason (env_lowercase env) response of
               Some (reason, prompt) \<Rightarrow>
                 if st_auto_continues st < tl_auto_continues (b_limits (sh_budget sh)) then
                   agent_loop env cwd fuel policy agents
                     (st\<lparr>st_auto_continues := st_auto_continues st + 1,
                         st_history := st_history st @ [user_message prompt]\<rparr>)
                     (emit env agents (AutoContinued reason prompt) sh)
                 else
                   (let (h, sh) = compact_history env agents policy (st_history st) sh
                    in Some (Ok (), st\<lparr>st_history := h\<rparr>, sh))
             | None \<Rightarrow>
                 (let (h, sh) = compact_history env agents policy (st_history st) sh
                  in Some (Ok (), st\<lparr>st_history := h\<rparr>, sh)))
          else
            (case run_tools env child policy agents cwd 0 (zip (ar_tool_calls response) scs) st sh of
               None \<Rightarrow> None
             | Some (Some r, st, sh) \<Rightarrow> Some (r, st, sh)
             | Some (None, st, sh) \<Rightarrow> agent_loop env cwd fuel policy agents st sh)))"

definition run_agent_turn_with_budget ::
  "('w, 'd) env \<Rightarrow> string \<Rightarrow> nat \<Rightarrow> turn_policy \<Rightarrow> string list \<Rightarrow> chat_message list \<Rightarrow> string \<Rightarrow> 'w shared \<Rightarrow>
     (turn_result \<times> turn_state \<times> 'w shared) option" where
  "run_agent_turn_with_budget env cwd fuel policy agents history message sh =
     agent_loop env cwd fuel policy agents (turn_start policy history message) sh"

text \<open>The root turn, with fuel for all provider requests of its limits.\<close>

definition run_agent_turn ::
  "('w, 'd) env \<Rightarrow> string \<Rightarrow> turn_policy \<Rightarrow> chat_message list \<Rightarrow> string \<Rightarrow> 'w \<Rightarrow>
     (turn_result \<times> turn_state \<times> 'w shared) option" where
  "run_agent_turn env cwd policy history message w =
     run_agent_turn_with_budget env cwd (Suc (tl_provider_requests (tp_limits policy))) policy [] history message
       \<lparr>sh_world = w, sh_budget = budget_new (env_now env w) (tp_limits policy), sh_trace = []\<rparr>"

text \<open>The nested turn that the tool loop of a pass with fuel \<open>Suc fuel\<close> can start.\<close>

definition subturn :: "('w, 'd) env \<Rightarrow> string \<Rightarrow> nat \<Rightarrow> 'w child" where
  "subturn env cwd fuel policy agents history task sh =
     map_option (\<lambda>(r, st, sh). (r, st_history st, st_aborted st, sh))
       (agent_loop env cwd fuel policy agents (turn_start policy history task) sh)"

lemma subturn_eq:
  "(\<lambda>policy agents history task sh.
      map_option (\<lambda>(r, st, sh). (r, st_history st, st_aborted st, sh))
        (agent_loop env cwd fuel policy agents (turn_start policy history task) sh)) = subturn env cwd fuel"
  by (intro ext) (simp add: subturn_def)

section \<open>Authority: what the trace of a turn may contain\<close>

fun is_chat :: "action \<Rightarrow> bool" where
  "is_chat (Chat _) = True"
| "is_chat _ = False"

fun is_execute :: "action \<Rightarrow> bool" where
  "is_execute (Execute _ _ _) = True"
| "is_execute _ = False"

text \<open>
  An executed call is in the agent's tool set and is not a delegation; the approval rules let it
  run on the facts recorded, or they asked and the answer, earlier in the trace and about the
  same call, was to approve.
\<close>

definition may_execute ::
  "('w, 'd) env \<Rightarrow> turn_policy \<Rightarrow> action set \<Rightarrow> tool_call \<Rightarrow> tool_call \<Rightarrow> call_facts \<Rightarrow> bool" where
  "may_execute env policy earlier call sc facts \<longleftrightarrow>
     (\<exists>t. ts_get (tp_tools policy) (tc_name call) = Some t \<and> t \<noteq> DelegateTask) \<and>
     cf_tool facts = tc_name call \<and>
     (rules_decide (env_shell_words env) (tp_rules policy) facts (tp_approval policy) = Run \<or>
      rules_decide (env_shell_words env) (tp_rules policy) facts (tp_approval policy) = Prompt \<and>
      (\<exists>reason. AskApproval sc reason Approve \<in> earlier))"

definition authorised :: "('w, 'd) env \<Rightarrow> turn_policy \<Rightarrow> action list \<Rightarrow> bool" where
  "authorised env policy acts \<longleftrightarrow>
     (\<forall>i < length acts. \<forall>call sc facts. acts ! i = Execute call sc facts \<longrightarrow>
        may_execute env policy (set (take i acts)) call sc facts)"

lemma may_execute_mono:
  "may_execute env policy A call sc facts \<Longrightarrow> A \<subseteq> B \<Longrightarrow> may_execute env policy B call sc facts"
  by (auto simp: may_execute_def)

lemma authorised_Nil [simp]: "authorised env policy []"
  by (simp add: authorised_def)

lemma authorised_append:
  assumes "authorised env policy xs" and "authorised env policy ys"
  shows "authorised env policy (xs @ ys)"
  unfolding authorised_def
proof (intro allI impI)
  fix i call sc facts
  assume i: "i < length (xs @ ys)" and e: "(xs @ ys) ! i = Execute call sc facts"
  show "may_execute env policy (set (take i (xs @ ys))) call sc facts"
  proof (cases "i < length xs")
    case True
    with e assms(1) show ?thesis by (simp add: authorised_def nth_append)
  next
    case False
    then have "ys ! (i - length xs) = Execute call sc facts" "i - length xs < length ys"
      using i e by (auto simp: nth_append)
    with assms(2) have "may_execute env policy (set (take (i - length xs) ys)) call sc facts"
      by (simp add: authorised_def)
    then show ?thesis by (rule may_execute_mono) auto
  qed
qed

lemma authorised_no_execute: "\<forall>a \<in> set acts. \<not> is_execute a \<Longrightarrow> authorised env policy acts"
  unfolding authorised_def by (metis is_execute.simps(1) nth_mem)

text \<open>A subagent's authority is below its parent's.\<close>

lemma authorised_narrower:
  assumes "authorised env child acts" and "tp_rules child = tp_rules policy" and "tp_approval child = tp_approval policy"
    and "\<And>t. ts_contains (tp_tools child) t \<Longrightarrow> ts_contains (tp_tools policy) t"
  shows "authorised env policy acts"
  using assms unfolding authorised_def may_execute_def ts_get_Some by fastforce

text \<open>
  A request that strict endpoints accept: only the first message may be a system message.
\<close>

definition system_first :: "chat_message list \<Rightarrow> bool" where
  "system_first msgs \<longleftrightarrow> (\<forall>m \<in> set (tl msgs). role m \<noteq> System)"

definition requests_ok :: "action list \<Rightarrow> bool" where
  "requests_ok acts \<longleftrightarrow> (\<forall>msgs. Chat msgs \<in> set acts \<longrightarrow> system_first msgs)"

lemma requests_ok_simps [simp]:
  "requests_ok []"
  "requests_ok (xs @ ys) \<longleftrightarrow> requests_ok xs \<and> requests_ok ys"
  by (auto simp: requests_ok_def)

lemma requests_ok_no_chat: "\<forall>a \<in> set acts. \<not> is_chat a \<Longrightarrow> requests_ok acts"
  by (auto simp: requests_ok_def)

abbreviation is_system :: "chat_message \<Rightarrow> bool" where
  "is_system m \<equiv> role m = System"

lemma merge_system_messages_prefix:
  assumes "is_system m"
  shows "merge_system_messages (m # t) =
    (if filter is_system t = [] then (m # t, 0)
     else (m\<lparr>content := join [lf, lf] (map content (filter is_system (m # t)))\<rparr> # filter (\<lambda>m. \<not> is_system m) t,
           length (filter is_system t)))"
  using assms by (simp add: merge_system_messages_def Let_def)

lemma merge_system_messages_no_prefix:
  assumes "h = [] \<or> \<not> is_system (hd h)"
  shows "merge_system_messages h =
    (if filter is_system h = [] then (h, 0)
     else (system_message (join [lf, lf] (map content (filter is_system h))) # filter (\<lambda>m. \<not> is_system m) h,
           length (filter is_system h)))"
  using assms by (cases h) (simp_all add: merge_system_messages_def Let_def)

lemma merge_system_messages_system_first: "system_first (fst (merge_system_messages h))"
proof (cases "h = [] \<or> \<not> is_system (hd h)")
  case True
  show ?thesis
    unfolding merge_system_messages_no_prefix [OF True] system_first_def
    by (cases h) (auto simp: filter_empty_conv)
next
  case False
  then obtain m t where "h = m # t" "is_system m" by (cases h) auto
  then show ?thesis
    by (auto simp: merge_system_messages_prefix system_first_def filter_empty_conv)
qed

text \<open>
  How the shared state may evolve: the trace grows by authorised actions and well-formed
  requests, every provider request in it has been charged, and so has every execution but the
  last \<open>k\<close>.
\<close>

definition evolves :: "nat \<Rightarrow> ('w, 'd) env \<Rightarrow> turn_policy \<Rightarrow> 'w shared \<Rightarrow> 'w shared \<Rightarrow> bool" where
  "evolves k env policy sh sh' \<longleftrightarrow>
     (\<exists>acts. sh_trace sh' = sh_trace sh @ acts \<and> authorised env policy acts \<and> requests_ok acts \<and>
        b_limits (sh_budget sh') = b_limits (sh_budget sh) \<and>
        b_provider_requests (sh_budget sh')
          = b_provider_requests (sh_budget sh) + length (filter is_chat acts) \<and>
        b_tool_calls (sh_budget sh) + length (filter is_execute acts) \<le> b_tool_calls (sh_budget sh') + k) \<and>
     (within_limits (sh_budget sh) \<longrightarrow> within_limits (sh_budget sh'))"

lemma evolves_refl [simp]: "evolves k env policy sh sh"
  unfolding evolves_def by (auto intro: exI [of _ "[]"])

lemma evolves_trans:
  assumes "evolves k env policy sh sh1" and "evolves m env policy sh1 sh2"
  shows "evolves (k + m) env policy sh sh2"
proof -
  obtain xs ys where "sh_trace sh1 = sh_trace sh @ xs" "sh_trace sh2 = sh_trace sh1 @ ys"
    "authorised env policy xs" "authorised env policy ys" "requests_ok xs" "requests_ok ys"
    "b_limits (sh_budget sh1) = b_limits (sh_budget sh)" "b_limits (sh_budget sh2) = b_limits (sh_budget sh1)"
    "b_provider_requests (sh_budget sh1) = b_provider_requests (sh_budget sh) + length (filter is_chat xs)"
    "b_provider_requests (sh_budget sh2) = b_provider_requests (sh_budget sh1) + length (filter is_chat ys)"
    "b_tool_calls (sh_budget sh) + length (filter is_execute xs) \<le> b_tool_calls (sh_budget sh1) + k"
    "b_tool_calls (sh_budget sh1) + length (filter is_execute ys) \<le> b_tool_calls (sh_budget sh2) + m"
    using assms unfolding evolves_def by blast
  then have "sh_trace sh2 = sh_trace sh @ (xs @ ys) \<and> authorised env policy (xs @ ys) \<and> requests_ok (xs @ ys) \<and>
        b_limits (sh_budget sh2) = b_limits (sh_budget sh) \<and>
        b_provider_requests (sh_budget sh2)
          = b_provider_requests (sh_budget sh) + length (filter is_chat (xs @ ys)) \<and>
        b_tool_calls (sh_budget sh) + length (filter is_execute (xs @ ys)) \<le> b_tool_calls (sh_budget sh2) + (k + m)"
    using authorised_append by auto
  moreover have "within_limits (sh_budget sh) \<longrightarrow> within_limits (sh_budget sh2)"
    using assms by (simp add: evolves_def)
  ultimately show ?thesis unfolding evolves_def by blast
qed

lemma evolves_trans0 [trans]:
  "evolves 0 env policy sh sh1 \<Longrightarrow> evolves k env policy sh1 sh2 \<Longrightarrow> evolves k env policy sh sh2"
  "evolves k env policy sh sh1 \<Longrightarrow> evolves 0 env policy sh1 sh2 \<Longrightarrow> evolves k env policy sh sh2"
  using evolves_trans [of 0 env policy sh sh1 k sh2] evolves_trans [of k env policy sh sh1 0 sh2] by simp_all

lemma evolves_mono: "evolves k env policy sh sh' \<Longrightarrow> k \<le> m \<Longrightarrow> evolves m env policy sh sh'"
  unfolding evolves_def by (meson add_left_mono order_trans)

lemma evolves_narrower:
  assumes "evolves k env child sh sh'" and "tp_rules child = tp_rules policy" and "tp_approval child = tp_approval policy"
    and "\<And>t. ts_contains (tp_tools child) t \<Longrightarrow> ts_contains (tp_tools policy) t"
  shows "evolves k env policy sh sh'"
  using assms(1) authorised_narrower [OF _ assms(2-4), of env] unfolding evolves_def by blast

definition remaining :: "'w shared \<Rightarrow> nat" where
  "remaining sh = tl_provider_requests (b_limits (sh_budget sh)) - b_provider_requests (sh_budget sh)"

lemma evolves_remaining: "evolves k env policy sh sh' \<Longrightarrow> remaining sh' \<le> remaining sh"
  by (auto simp: evolves_def remaining_def)

subsection \<open>Steps\<close>

lemma evolves_world: "evolves k env policy sh sh' \<Longrightarrow> evolves k env policy sh (sh'\<lparr>sh_world := w\<rparr>)"
  "evolves k env policy (sh\<lparr>sh_world := w\<rparr>) sh' \<longleftrightarrow> evolves k env policy sh sh'"
  by (simp_all add: evolves_def)

lemma evolves_act:
  assumes "\<not> is_execute a" and "\<not> is_chat a" and "sh_trace sh' = sh_trace sh @ [a]" and "sh_budget sh' = sh_budget sh"
  shows "evolves 0 env policy sh sh'"
  using assms authorised_no_execute [of "[a]" env policy] requests_ok_no_chat [of "[a]"] unfolding evolves_def
  by (intro conjI exI [of _ "[a]"]) auto

lemma emit_evolves [simp]: "evolves 0 env policy sh (emit env agents e sh)"
  by (rule evolves_act [of "Emit (wrap agents e)"]) (simp_all add: emit_def)

lemma emit_all_evolves [simp]: "evolves 0 env policy sh (emit_all env agents es sh)"
proof (induction es arbitrary: sh)
  case Nil
  then show ?case by (simp add: emit_all_def)
next
  case (Cons e es)
  have "emit_all env agents (e # es) sh = emit_all env agents es (emit env agents e sh)"
    by (simp add: emit_all_def)
  with Cons show ?case using evolves_trans0(1) emit_evolves by metis
qed

lemma emit_budget [simp]:
  "sh_budget (emit env agents e sh) = sh_budget sh"
  "sh_budget (emit_all env agents es sh) = sh_budget sh"
proof -
  show "sh_budget (emit env agents e sh) = sh_budget sh" for e and sh :: "'a shared" by (simp add: emit_def)
  then show "sh_budget (emit_all env agents es sh) = sh_budget sh"
    by (induction es arbitrary: sh) (simp_all add: emit_all_def)
qed

lemma evolves_emitI [intro!]:
  "evolves k env policy sh sh' \<Longrightarrow> evolves k env policy sh (emit env agents e sh')"
  "evolves k env policy sh sh' \<Longrightarrow> evolves k env policy sh (emit_all env agents es sh')"
  using evolves_trans0(2) emit_evolves emit_all_evolves by blast+

lemma emit_partial_response_evolves [intro!]:
  "evolves k env policy sh sh' \<Longrightarrow> evolves k env policy sh (emit_partial_response env agents t sh')"
  by (auto simp: emit_partial_response_def)

lemma refuse_tool_call_evolves:
  "refuse_tool_call env agents call sc result st sh = (st', sh') \<Longrightarrow> evolves 0 env policy sh sh'"
  unfolding refuse_tool_call_def by auto

lemma refuse_all_evolves: "refuse_all env agents result calls st sh = (st', sh') \<Longrightarrow> evolves 0 env policy sh sh'"
proof (induction env agents result calls st sh rule: refuse_all.induct)
  case (2 env agents result call sc rest st sh)
  obtain st1 sh1 where r: "refuse_tool_call env agents call sc result st sh = (st1, sh1)" by fastforce
  with 2 have "evolves 0 env policy sh1 sh'" by simp
  with refuse_tool_call_evolves [OF r] show ?case by (rule evolves_trans0(1))
qed simp

lemma compact_history_evolves: "compact_history env agents policy' h sh = (h', sh') \<Longrightarrow> evolves 0 env policy sh sh'"
  by (auto simp: compact_history_def split: prod.splits option.splits)

lemma decide_call_evolves:
  "decide_call env policy' agents sc reason facts sh = (d, sh') \<Longrightarrow> evolves 0 env policy sh sh'"
  unfolding decide_call_def
  by (auto simp: Let_def split: policy_decision.splits prod.splits
      intro!: evolves_trans0(1) [OF emit_evolves evolves_act [of "AskApproval _ _ _"]])

lemma finish_call_evolves:
  "finish_call env agents call sc rest result ab st sh = (r, st', sh') \<Longrightarrow> evolves 0 env policy sh sh'"
  unfolding finish_call_def Let_def by (auto split: if_splits)

fun step_state :: "(turn_state \<times> 'w shared) request_step \<Rightarrow> turn_state" where
  "step_state (Sent _ p) = fst p"
| "step_state (Retry p) = fst p"
| "step_state (Stop _ p) = fst p"

fun step_shared :: "(turn_state \<times> 'w shared) request_step \<Rightarrow> 'w shared" where
  "step_shared (Sent _ p) = snd p"
| "step_shared (Retry p) = snd p"
| "step_shared (Stop _ p) = snd p"

fun is_stop :: "'a request_step \<Rightarrow> bool" where
  "is_stop (Stop _ _) = True"
| "is_stop _ = False"

lemma handle_overflow_evolves: "evolves 0 env policy sh (step_shared (handle_overflow env policy' agents m st sh))"
  unfolding handle_overflow_def Let_def by (auto split: prod.splits option.splits)

lemma handle_outcome_evolves:
  "evolves 0 env policy sh (step_shared (handle_outcome env policy' agents staged text outcome st sh))"
  unfolding handle_outcome_def Let_def
  using handle_overflow_evolves
  by (auto split: provider_outcome.splits sum.splits option.splits adapter_error.splits bool.splits)

lemma provider_request_evolves:
  "evolves 0 env policy sh (step_shared (provider_request env policy' agents st sh)) \<and>
   (\<not> is_stop (provider_request env policy' agents st sh) \<longrightarrow>
      remaining (step_shared (provider_request env policy' agents st sh)) < remaining sh)"
proof -
  obtain b r where c: "charge_provider_request (env_now env (sh_world sh)) (sh_budget sh) = (b, r)" by fastforce
  then show ?thesis
  proof (cases rule: charge_provider_request_cases)
    case (err e)
    then show ?thesis
      using c by (simp add: provider_request_def Let_def evolves_def authorised_def)
  next
    case ok
    define staged where "staged = stage_compaction (env_json env) (tp_compactor policy') (st_history st)"
    define request where "request = fst (merge_system_messages
               (case staged of Some (h, _) \<Rightarrow> h | None \<Rightarrow> st_history st))"
    obtain deltas outcome w where chat: "env_chat env request (ts_definitions (tp_tools policy')) (sh_world sh)
        = ((deltas, outcome), w)" by (metis prod.collapse)
    define sh1 where "sh1 = emit_all env agents (map TextDelta deltas)
        (sh\<lparr>sh_budget := b, sh_world := w, sh_trace := sh_trace sh @ [Chat request]\<rparr>)"
    have "evolves 0 env policy sh (sh\<lparr>sh_budget := b, sh_world := w, sh_trace := sh_trace sh @ [Chat request]\<rparr>)"
      using ok authorised_no_execute [of "[Chat request]" env policy] merge_system_messages_system_first
      unfolding evolves_def
      by (intro conjI exI [of _ "[Chat request]"]) (auto simp: within_limits_def requests_ok_def request_def)
    then have ev: "evolves 0 env policy sh sh1" unfolding sh1_def by blast
    have rem: "remaining sh1 < remaining sh"
      using ok by (simp add: remaining_def sh1_def)
    have "provider_request env policy' agents st sh
        = handle_outcome env policy' agents staged (concat deltas) outcome st sh1"
      using c ok(1) chat by (simp add: provider_request_def Let_def staged_def [symmetric] request_def [symmetric] sh1_def)
    moreover have "evolves 0 env policy sh1 (step_shared (handle_outcome env policy' agents staged (concat deltas) outcome st sh1))"
      by (rule handle_outcome_evolves)
    ultimately show ?thesis
      using evolves_trans0(1) [OF ev] evolves_remaining rem order.strict_trans1 by metis
  qed
qed

lemma decide_call_spec:
  assumes "decide_call env policy agents sc reason facts sh = (d, sh')"
  shows "\<exists>acts. sh_trace sh' = sh_trace sh @ acts \<and> sh_budget sh' = sh_budget sh \<and>
    (\<forall>a \<in> set acts. \<not> is_execute a \<and> \<not> is_chat a) \<and>
    (d = Approve \<longrightarrow>
       rules_decide (env_shell_words env) (tp_rules policy) facts (tp_approval policy) = Run \<or>
       rules_decide (env_shell_words env) (tp_rules policy) facts (tp_approval policy) = Prompt \<and>
       (\<exists>reason. AskApproval sc reason Approve \<in> set acts))"
proof (cases "rules_decide (env_shell_words env) (tp_rules policy) facts (tp_approval policy)")
  case Prompt
  let ?r = "case reason of Some r \<Rightarrow> r | None \<Rightarrow> PolicyGate"
  let ?sh = "emit env agents (ApprovalRequested sc (Some ?r)) sh"
  have "sh_trace sh' = sh_trace sh @ [Emit (wrap agents (ApprovalRequested sc (Some ?r))), AskApproval sc ?r d]"
    "sh_budget sh' = sh_budget sh"
    using assms Prompt by (auto simp: decide_call_def Let_def emit_def split: prod.splits)
  with Prompt show ?thesis
    by (intro exI [of _ "[Emit (wrap agents (ApprovalRequested sc (Some ?r))), AskApproval sc ?r d]"]) auto
qed (use assms in \<open>auto simp: decide_call_def\<close>)

lemma paired_system: "paired h \<Longrightarrow> paired (h @ [system_message t])"
  by (rule paired_append) (auto simp: system_message_def)

lemma paired_user: "paired h \<Longrightarrow> paired (h @ [user_message t])"
  by (rule paired_append) (auto simp: user_message_def)

section \<open>The interface of a nested turn\<close>

text \<open>
  What the tool loop relies on when a call delegates: a nested turn returns when there is fuel
  for every provider request left, and it stays within the authority of the policy it is given.
  The tool loop's own guarantees are proved once from this.
\<close>

locale nested_turn =
  fixes env :: "('w, 'd) env" and child :: "'w child" and fuel :: nat
  assumes child_returns: "paired h \<Longrightarrow> remaining sh < fuel \<Longrightarrow> \<exists>out. child policy agents h task sh = Some out"
    and child_evolves: "child policy agents h task sh = Some (r, h', ab, sh') \<Longrightarrow> evolves 0 env policy sh sh'"
begin

lemma start_subagent_evolves:
  assumes "start_subagent env child policy agents task (child_tools policy requested) name sh = Some (d, sh')"
  shows "evolves 0 env policy sh sh'"
proof -
  let ?p = "policy\<lparr>tp_tools := child_tools policy requested, tp_agent_scope := Some name\<rparr>"
  let ?sh = "emit env agents (SubagentStarted name task (map name_of_tool (ts_tools (child_tools policy requested)))) sh"
  obtain r h ab sh1 s m where c: "child ?p (agents @ [name])
      [system_message (DEFAULT_SYSTEM_PROMPT @ [lf, lf] @ SUBAGENT_SYSTEM_PROMPT)] task ?sh = Some (r, h, ab, sh1)"
    and sh': "sh' = emit env agents (SubagentFinished name s m) sh1"
    using assms unfolding start_subagent_def Let_def by (auto split: option.splits prod.splits)
  have "evolves 0 env policy ?sh sh1"
    by (rule evolves_narrower [OF child_evolves [OF c]]) (auto simp: child_tools_def)
  then have "evolves 0 env policy sh sh1" by (rule evolves_trans0(1) [OF emit_evolves])
  then show ?thesis unfolding sh' by blast
qed

lemma run_delegation_evolves:
  assumes "run_delegation env child policy agents call n sh = Some (d, sh')"
  shows "evolves 0 env policy sh sh'"
  using assms start_subagent_evolves unfolding run_delegation_def Let_def
  by (simp split: option.splits sum.splits if_splits; blast)

lemma run_delegation_returns:
  assumes "remaining sh < fuel"
  shows "\<exists>out. run_delegation env child policy agents call n sh = Some out"
proof -
  have "\<exists>out. child p ags [system_message t] task (emit env agents e sh) = Some out" for p ags t task e
    using child_returns [of "[system_message t]"] assms evolves_remaining [OF emit_evolves] order.strict_trans1
      paired_system [OF paired_Nil, of t]
    by (metis append_Nil)
  then have "\<exists>out. start_subagent env child policy agents task tools name sh = Some out" for task tools name
    unfolding start_subagent_def Let_def by (auto split: option.splits prod.splits)
  then show ?thesis
    unfolding run_delegation_def Let_def by (simp split: option.splits sum.splits)
qed

lemma run_call_evolves:
  assumes "run_call env child policy agents call sc rest t p denied decision st sh1 = Some (r, st', sh')"
    and "sh_trace sh1 = sh_trace sh @ acts" and "sh_budget sh1 = sh_budget sh"
    and "\<forall>a \<in> set acts. \<not> is_execute a \<and> \<not> is_chat a"
    and "decision = Approve \<Longrightarrow> t \<noteq> DelegateTask \<Longrightarrow> may_execute env policy (set acts) call sc (call_facts_of call t p)"
  shows "evolves 1 env policy sh sh'"
proof -
  have auth: "authorised env policy acts" using authorised_no_execute assms(4) by blast
  have req: "requests_ok acts" using requests_ok_no_chat assms(4) by blast
  have none: "filter is_chat acts = []" "filter is_execute acts = []"
    using assms(4) by (auto simp: filter_empty_conv)
  have quiet: "evolves 0 env policy sh sh1"
    using assms(2,3) auth none req by (auto simp: evolves_def)
  show ?thesis
  proof (cases "denied \<or> decision \<noteq> Approve")
    case True
    then obtain result where "finish_call env agents call sc rest result False st sh1 = (r, st', sh')"
      using assms(1) by (auto simp: run_call_def split: if_splits)
    then have "evolves 0 env policy sh1 sh'" by (rule finish_call_evolves)
    with quiet show ?thesis by (meson evolves_mono evolves_trans0(1) zero_le)
  next
    case run: False
    show ?thesis
    proof (cases "t = DelegateTask")
      case True
      with run assms(1) obtain d sh2 st2 where
        d: "run_delegation env child policy agents call (st_delegations st + 1) sh1 = Some (d, sh2)"
        and f: "finish_call env agents call sc rest (dl_result d) (dl_aborted d) st2 sh2 = (r, st', sh')"
        by (auto simp: run_call_def Let_def split: option.splits)
      have "evolves 0 env policy sh1 sh'"
        by (rule evolves_trans0(1) [OF run_delegation_evolves [OF d] finish_call_evolves [OF f]])
      with quiet show ?thesis by (meson evolves_mono evolves_trans0(1) zero_le)
    next
      case False
      let ?a = "Execute call sc (call_facts_of call t p)"
      obtain result w st2 where
        f: "finish_call env agents call sc rest result False st2
          (sh1\<lparr>sh_trace := sh_trace sh1 @ [?a], sh_world := w\<rparr>) = (r, st', sh')"
        using run False assms(1) by (auto simp: run_call_def Let_def split: prod.splits)
      have "authorised env policy (acts @ [?a])"
        using assms(5) run False auth by (auto simp: authorised_def nth_append less_Suc_eq)
      then have "evolves 1 env policy sh (sh1\<lparr>sh_trace := sh_trace sh1 @ [?a], sh_world := w\<rparr>)"
        using assms(2,3) none req requests_ok_no_chat [of "[?a]"]
        unfolding evolves_def by (intro conjI exI [of _ "acts @ [?a]"]) auto
      then show ?thesis using finish_call_evolves [OF f] by (rule evolves_trans0(2))
    qed
  qed
qed

lemma evaluate_call_evolves:
  assumes "evaluate_call env child policy agents cwd call sc rest t st sh = Some (r, st', sh')"
    and "ts_get (tp_tools policy) (tc_name call) = Some t"
  shows "evolves 1 env policy sh sh'"
proof -
  obtain p w where p: "prepare_call (env_os env) call cwd (tp_sensitive_paths policy) (tp_blocked_paths policy) (sh_world sh)
      = (p, w)" by fastforce
  let ?facts = "call_facts_of call t p"
  obtain d sh1 where d: "decide_call env policy agents sc (gate call p) ?facts (sh\<lparr>sh_world := w\<rparr>) = (d, sh1)"
    by fastforce
  let ?sh = "emit env agents (ToolDecision (tc_id sc) d) sh1"
  obtain acts where acts: "sh_trace sh1 = sh_trace sh @ acts" "sh_budget sh1 = sh_budget sh"
    "\<forall>a \<in> set acts. \<not> is_execute a \<and> \<not> is_chat a"
    "d = Approve \<longrightarrow> rules_decide (env_shell_words env) (tp_rules policy) ?facts (tp_approval policy) = Run \<or>
       rules_decide (env_shell_words env) (tp_rules policy) ?facts (tp_approval policy) = Prompt \<and>
       (\<exists>reason. AskApproval sc reason Approve \<in> set acts)"
    using decide_call_spec [OF d] by auto
  have ev: "evolves 0 env policy sh ?sh"
    using decide_call_evolves [OF d, of policy] by (auto simp: evolves_world)
  let ?denied = "rules_decide (env_shell_words env) (tp_rules policy) ?facts (tp_approval policy) = Deny \<and>
             default_decision ?facts (tp_approval policy) \<noteq> Deny"
  consider (cancelled) "is_cancelled env ?sh" "sh' = ?sh"
    | (aborted) "sh' = emit env agents TurnAborted (emit_all env agents (skip_events (map snd rest)) ?sh)"
    | (run) "run_call env child policy agents call sc rest t p ?denied d st ?sh = Some (r, st', sh')"
    using assms(1) unfolding evaluate_call_def p Let_def prod.case d by (auto split: if_splits)
  then show ?thesis
  proof cases
    case cancelled
    with ev show ?thesis by (meson evolves_mono zero_le)
  next
    case aborted
    with ev have "evolves 0 env policy sh sh'" by auto
    then show ?thesis by (meson evolves_mono zero_le)
  next
    case run
    show ?thesis
    proof (rule run_call_evolves [OF run])
      show "sh_trace ?sh = sh_trace sh @ (acts @ [Emit (wrap agents (ToolDecision (tc_id sc) d))])"
        using acts(1) by (simp add: emit_def)
      show "sh_budget ?sh = sh_budget sh" using acts(2) by simp
      show "\<forall>a \<in> set (acts @ [Emit (wrap agents (ToolDecision (tc_id sc) d))]). \<not> is_execute a \<and> \<not> is_chat a"
        using acts(3) by simp
      show "may_execute env policy (set (acts @ [Emit (wrap agents (ToolDecision (tc_id sc) d))])) call sc ?facts"
        if "d = Approve" "t \<noteq> DelegateTask"
        using acts(4) that assms(2) by (auto simp: may_execute_def call_facts_of_def)
    qed
  qed
qed

lemma evaluate_call_returns:
  assumes "remaining sh < fuel"
  shows "\<exists>out. evaluate_call env child policy agents cwd call sc rest t st sh = Some out"
proof -
  have "\<exists>out. run_delegation env child policy agents call n (emit env agents e sh1) = Some out"
    if "decide_call env policy agents sc g facts (sh\<lparr>sh_world := w\<rparr>) = (d, sh1)" for n e g facts w d sh1
  proof (rule run_delegation_returns)
    have "evolves 0 env policy sh (emit env agents e sh1)"
      using decide_call_evolves [OF that, of policy] by (auto simp: evolves_world)
    then show "remaining (emit env agents e sh1) < fuel"
      using evolves_remaining assms order.strict_trans1 by blast
  qed
  then have returns: False
    if "run_delegation env child policy agents call n (emit env agents e sh1) = None"
      "decide_call env policy agents sc g facts (sh\<lparr>sh_world := w\<rparr>) = (d, sh1)" for n e g facts w d sh1
    using that by (metis option.distinct(1))
  show ?thesis
  proof (rule ccontr)
    assume "\<not> ?thesis"
    then have "evaluate_call env child policy agents cwd call sc rest t st sh = None" by (metis not_None_eq)
    then show False
      unfolding evaluate_call_def run_call_def Let_def
      by (auto split: prod.splits option.splits if_splits dest: returns)
  qed
qed

lemma charge_then_evolves:
  assumes "b_tool_calls b = b_tool_calls (sh_budget sh) + 1" and "b_limits b = b_limits (sh_budget sh)"
    and "b_provider_requests b = b_provider_requests (sh_budget sh)"
    and "within_limits (sh_budget sh) \<Longrightarrow> within_limits b"
    and "evolves 1 env policy (sh\<lparr>sh_budget := b\<rparr>) sh'"
  shows "evolves 0 env policy sh sh'"
  using assms unfolding evolves_def by auto

lemma dispatch_call_evolves:
  assumes "dispatch_call env child policy agents cwd index call sc rest st sh = Some (r, st', sh')"
  shows "evolves 0 env policy sh sh'"
proof -
  obtain b c where ch: "charge_tool_call (env_now env (sh_world sh)) (sh_budget sh) = (b, c)" by fastforce
  consider "sh' = sh"
    | result st1 where "refuse_tool_call env agents call sc result st sh = (st1, sh')"
    | e result st1 where "c = Err e" "refuse_all env agents result ((call, sc) # rest) st (sh\<lparr>sh_budget := b\<rparr>) = (st1, sh')"
    | result st1 where "c = Ok ()" "refuse_tool_call env agents call sc result st (sh\<lparr>sh_budget := b\<rparr>) = (st1, sh')"
    | t where "c = Ok ()" "ts_get (tp_tools policy) (tc_name call) = Some t"
        "evaluate_call env child policy agents cwd call sc rest t st (sh\<lparr>sh_budget := b\<rparr>) = Some (r, st', sh')"
    using assms unfolding dispatch_call_def Let_def ch
    by (simp split: if_splits sum.splits option.splits prod.splits) blast+
  then show ?thesis
  proof cases
    case 1
    then show ?thesis by simp
  next
    case 2
    then show ?thesis by (rule refuse_tool_call_evolves)
  next
    case 3
    with ch have "b = sh_budget sh" by (auto elim: charge_tool_call_cases)
    then have "sh\<lparr>sh_budget := b\<rparr> = sh" by simp
    then show ?thesis using refuse_all_evolves [OF 3(2), of policy] by simp
  next
    case 4
    with ch have b: "b = sh_budget sh\<lparr>b_tool_calls := b_tool_calls (sh_budget sh) + 1\<rparr>"
      "b_tool_calls (sh_budget sh) < tl_tool_calls (b_limits (sh_budget sh))"
      by (auto elim: charge_tool_call_cases)
    show ?thesis
      by (rule charge_then_evolves [of b])
        (use b 4 in \<open>auto simp: within_limits_def intro: evolves_mono refuse_tool_call_evolves\<close>)
  next
    case 5
    with ch have b: "b = sh_budget sh\<lparr>b_tool_calls := b_tool_calls (sh_budget sh) + 1\<rparr>"
      "b_tool_calls (sh_budget sh) < tl_tool_calls (b_limits (sh_budget sh))"
      by (auto elim: charge_tool_call_cases)
    show ?thesis
      by (rule charge_then_evolves [of b])
        (use b evaluate_call_evolves [OF 5(3,2)] in \<open>auto simp: within_limits_def\<close>)
  qed
qed

lemma dispatch_call_returns:
  assumes "remaining sh < fuel"
  shows "\<exists>out. dispatch_call env child policy agents cwd index call sc rest st sh = Some out"
proof -
  obtain b c where ch: "charge_tool_call (env_now env (sh_world sh)) (sh_budget sh) = (b, c)" by fastforce
  then have "remaining (sh\<lparr>sh_budget := b\<rparr>) < fuel"
    using assms by (elim charge_tool_call_cases) (simp_all add: remaining_def)
  then have "\<exists>out. evaluate_call env child policy agents cwd call sc rest t st (sh\<lparr>sh_budget := b\<rparr>) = Some out" for t
    by (rule evaluate_call_returns)
  then show ?thesis
    unfolding dispatch_call_def Let_def ch by (simp split: sum.splits option.splits prod.splits)
qed

lemma run_tools_evolves:
  assumes "run_tools env child policy agents cwd index calls st sh = Some (r, st', sh')"
  shows "evolves 0 env policy sh sh'"
  using assms
proof (induction calls arbitrary: index st sh)
  case Nil
  then show ?case by simp
next
  case (Cons a rest)
  obtain call sc where a: "a = (call, sc)" by fastforce
  with Cons.prems obtain r1 st1 sh1 where
    d: "dispatch_call env child policy agents cwd index call sc rest st sh = Some (r1, st1, sh1)"
    by (auto split: option.splits)
  note ev = dispatch_call_evolves [OF d]
  show ?case
  proof (cases r1)
    case None
    with Cons.prems a d have "run_tools env child policy agents cwd (Suc index) rest st1 sh1 = Some (r, st', sh')" by simp
    with Cons.IH ev show ?thesis by (blast intro: evolves_trans0(1))
  next
    case (Some x)
    with Cons.prems a d ev show ?thesis by simp
  qed
qed

lemma run_tools_returns:
  assumes "remaining sh < fuel"
  shows "\<exists>out. run_tools env child policy agents cwd index calls st sh = Some out"
  using assms
proof (induction calls arbitrary: index st sh)
  case Nil
  then show ?case by simp
next
  case (Cons a rest)
  obtain call sc where a: "a = (call, sc)" by fastforce
  obtain r1 st1 sh1 where
    d: "dispatch_call env child policy agents cwd index call sc rest st sh = Some (r1, st1, sh1)"
    using dispatch_call_returns [OF Cons.prems] by (metis prod_cases3)
  have "remaining sh1 < fuel"
    using evolves_remaining [OF dispatch_call_evolves [OF d]] Cons.prems by simp
  with Cons.IH a d show ?case by (cases r1) auto
qed

end

section \<open>The loop\<close>

lemma scoped_all_returns:
  assumes "finite (ci_seen ids)"
  shows "\<exists>scs ids'. scoped_all ids calls = Some (scs, ids') \<and> finite (ci_seen ids') \<and> length scs = length calls"
  using assms
proof (induction calls arbitrary: ids)
  case Nil
  then show ?case by simp
next
  case (Cons c cs)
  obtain id where id: "scoped ids c = Some (\<lparr>tc_id = scope_prefix (ci_scope ids) @ id, tc_name = tc_name c,
      tc_arguments = tc_arguments c\<rparr>, ids\<lparr>ci_seen := insert id (ci_seen ids)\<rparr>)"
    using scoped_spec [OF Cons.prems, of c] by blast
  have "finite (ci_seen (ids\<lparr>ci_seen := insert id (ci_seen ids)\<rparr>))" using Cons.prems by simp
  from Cons.IH [OF this] id show ?case by auto
qed

lemma record_response_evolves:
  "record_response env agents response st sh = Some (scs, st', sh') \<Longrightarrow> evolves 0 env policy sh sh'"
  by (auto simp: record_response_def Let_def split: option.splits)

lemma record_response_returns:
  assumes "finite (ci_seen (st_call_ids st))"
  shows "\<exists>scs st' sh'. record_response env agents response st sh = Some (scs, st', sh') \<and>
    finite (ci_seen (st_call_ids st')) \<and> length scs = length (ar_tool_calls response)"
  using scoped_all_returns [OF assms, of "ar_tool_calls response"]
  by (auto simp: record_response_def Let_def)

subsection \<open>What the tool loop keeps of the turn's state\<close>

text \<open>
  An open batch: the history ends with an assistant message and the results of some of its
  calls; the calls still to be answered are \<open>calls\<close>.
\<close>

definition awaiting :: "chat_message list \<Rightarrow> tool_call list \<Rightarrow> bool" where
  "awaiting h calls \<longleftrightarrow> (\<exists>pre m results answered. h = pre @ m # results \<and> paired pre \<and>
     role m = Assistant \<and> tool_calls m = answered @ calls \<and> list_all2 answers answered results)"

lemma awaiting_answer: "awaiting h (c # cs) \<Longrightarrow> awaiting (h @ [tool_result c msg]) cs"
proof -
  assume "awaiting h (c # cs)"
  then obtain pre m results answered where "h = pre @ m # results" "paired pre" "role m = Assistant"
    "tool_calls m = answered @ c # cs" "list_all2 answers answered results"
    by (auto simp: awaiting_def)
  then show ?thesis unfolding awaiting_def
    by (intro exI [of _ pre] exI [of _ m] exI [of _ "results @ [tool_result c msg]"] exI [of _ "answered @ [c]"])
      (auto intro: list_all2_appendI)
qed

lemma awaiting_answers: "awaiting h (cs @ ds) \<Longrightarrow> awaiting (h @ map (\<lambda>c. tool_result c msg) cs) ds"
proof (induction cs arbitrary: h)
  case (Cons c cs)
  from Cons.IH [OF awaiting_answer [OF Cons.prems [unfolded append_Cons], of msg]] show ?case by simp
qed simp

lemma awaiting_Nil: "awaiting h [] \<Longrightarrow> paired h"
proof -
  assume "awaiting h []"
  then obtain pre m results where "h = pre @ m # results" "paired pre" "role m = Assistant"
    "list_all2 answers (tool_calls m) results" by (auto simp: awaiting_def)
  then show ?thesis using paired_append [of pre "m # results @ []"] paired.paired_assistant [of m results "[]"]
    by (simp add: paired_Nil)
qed

lemma awaiting_stubs: "awaiting h cs \<Longrightarrow> paired (h @ map (\<lambda>c. tool_result c msg) cs)"
  using awaiting_answers [of h cs "[]" msg] awaiting_Nil by simp

lemma preserve_or_rollback_paired:
  "paired (st_rollback st) \<Longrightarrow> (st_observed_tool_activity st \<Longrightarrow> paired (st_history st)) \<Longrightarrow>
     paired (st_history (preserve_or_rollback_failed_turn msg st))"
  by (auto simp: preserve_or_rollback_failed_turn_def paired_system)

text \<open>The other variables of the turn are not touched.\<close>

definition framed :: "turn_state \<Rightarrow> turn_state \<Rightarrow> bool" where
  "framed st st' \<longleftrightarrow> st_rollback st' = st_rollback st \<and> st_call_ids st' = st_call_ids st \<and>
     st_auto_continues st' = st_auto_continues st \<and>
     st_overflow_retry_used st' = st_overflow_retry_used st \<and>
     (st_observed_tool_activity st \<longrightarrow> st_observed_tool_activity st')"

lemma framed_refl [simp]: "framed st st"
  by (simp add: framed_def)

lemma framed_trans: "framed a b \<Longrightarrow> framed b c \<Longrightarrow> framed a c"
  by (auto simp: framed_def)

lemma framed_updates [simp]:
  "framed st (st'\<lparr>st_history := h\<rparr>) \<longleftrightarrow> framed st st'"
  "framed st (st'\<lparr>st_delegations := n\<rparr>) \<longleftrightarrow> framed st st'"
  "framed st (st'\<lparr>st_aborted := b\<rparr>) \<longleftrightarrow> framed st st'"
  "framed st (stub_unfinished_tool_calls cs t st') \<longleftrightarrow> framed st st'"
  "framed st (preserve_or_rollback_failed_turn t st') \<longleftrightarrow> framed st st'"
  "framed (st\<lparr>st_history := h\<rparr>) st' \<longleftrightarrow> framed st st'"
  by (auto simp: framed_def stub_unfinished_tool_calls_def preserve_or_rollback_failed_turn_def)

text \<open>What a call does to the turn: a result for it, or an end that leaves a consistent history.\<close>

definition rolled_back :: "turn_state \<Rightarrow> bool" where
  "rolled_back st \<longleftrightarrow> st_observed_tool_activity st \<or> st_history st = st_rollback st \<or>
     (\<exists>t. st_history st = st_rollback st @ [system_message t])"

lemma rolled_back_preserve [simp]: "rolled_back (preserve_or_rollback_failed_turn msg st)"
  by (simp add: rolled_back_def preserve_or_rollback_failed_turn_def)

definition call_ok :: "turn_state \<Rightarrow> tool_call list \<Rightarrow> turn_result option \<Rightarrow> turn_state \<Rightarrow> bool" where
  "call_ok st cs r st' \<longleftrightarrow> framed st st' \<and> ((\<exists>e. r = Some (Err e)) \<longrightarrow> rolled_back st') \<and>
     (case r of None \<Rightarrow> awaiting (st_history st') cs | Some _ \<Rightarrow> paired (st_history st'))"

lemma finish_call_ok:
  assumes "finish_call env agents call sc rest result ab st sh = (r, st', sh')"
    and "awaiting (st_history st) (call # map fst rest)" and "paired (st_rollback st)"
  shows "call_ok st (map fst rest) r st'"
proof -
  let ?st = "st\<lparr>st_history := st_history st @ [tool_result call result]\<rparr>"
  have aw: "awaiting (st_history ?st) (map fst rest)" using awaiting_answer [OF assms(2)] by simp
  have "paired (st_history (stub_unfinished_tool_calls (map fst rest) t ?st))" for t
    using awaiting_stubs [OF aw] by (simp add: stub_unfinished_tool_calls_def)
  moreover have "st_rollback (stub_unfinished_tool_calls (map fst rest) t ?st) = st_rollback st" for t
    by (simp add: stub_unfinished_tool_calls_def)
  ultimately show ?thesis
    using assms(1,3) aw unfolding finish_call_def Let_def call_ok_def
    by (auto split: if_splits intro!: preserve_or_rollback_paired)
qed

lemma run_call_ok:
  assumes "run_call env child policy agents call sc rest t p denied d st sh = Some (r, st', sh')"
    and "awaiting (st_history st) (call # map fst rest)" and "paired (st_rollback st)"
  shows "call_ok st (map fst rest) r st'"
proof -
  obtain result ab st1 sh1 where f: "finish_call env agents call sc rest result ab st1 sh1 = (r, st', sh')"
    and st1: "framed st st1" "st_history st1 = st_history st"
    using assms(1) unfolding run_call_def Let_def
    by (auto split: if_splits option.splits prod.splits simp: framed_def)
  then have "call_ok st1 (map fst rest) r st'"
    using finish_call_ok [OF f] assms(2,3) by (simp add: framed_def)
  then show ?thesis using framed_trans [OF st1(1)] by (auto simp: call_ok_def split: option.splits)
qed

lemma evaluate_call_ok:
  assumes "evaluate_call env child policy agents cwd call sc rest t st sh = Some (r, st', sh')"
    and "awaiting (st_history st) (call # map fst rest)" and "paired (st_rollback st)"
  shows "call_ok st (map fst rest) r st'"
proof -
  have stub: "paired (st_history (stub_unfinished_tool_calls (call # map fst rest) msg st))" for msg
    using awaiting_stubs [OF assms(2)] by (simp add: stub_unfinished_tool_calls_def)
  have rb: "st_rollback (stub_unfinished_tool_calls cs msg st) = st_rollback st" for cs msg
    by (simp add: stub_unfinished_tool_calls_def)
  show ?thesis
    using assms stub unfolding evaluate_call_def Let_def
    by (auto simp: call_ok_def rb split: prod.splits if_splits
        intro!: preserve_or_rollback_paired dest: run_call_ok)
qed

lemma refuse_tool_call_ok:
  assumes "refuse_tool_call env agents call sc result st sh = (st', sh')"
    and "awaiting (st_history st) (call # cs)"
  shows "framed st st' \<and> awaiting (st_history st') cs"
  using assms awaiting_answer by (auto simp: refuse_tool_call_def)

lemma refuse_all_ok:
  assumes "refuse_all env agents result calls st sh = (st', sh')" and "awaiting (st_history st) (map fst calls)"
  shows "framed st st' \<and> paired (st_history st')"
  using assms
proof (induction env agents result calls st sh rule: refuse_all.induct)
  case (1 env agents result st sh)
  then show ?case using awaiting_Nil by simp
next
  case (2 env agents result call sc rest st sh)
  obtain st1 sh1 where r: "refuse_tool_call env agents call sc result st sh = (st1, sh1)" by fastforce
  with 2 refuse_tool_call_ok [OF r] show ?case using framed_trans by fastforce
qed

lemma dispatch_call_ok:
  assumes "dispatch_call env child policy agents cwd index call sc rest st sh = Some (r, st', sh')"
    and "awaiting (st_history st) (call # map fst rest)" and "paired (st_rollback st)"
  shows "call_ok st (map fst rest) r st'"
proof -
  have stub: "paired (st_history (stub_unfinished_tool_calls (call # map fst rest) msg st))" for msg
    using awaiting_stubs [OF assms(2)] by (simp add: stub_unfinished_tool_calls_def)
  have rb: "st_rollback (stub_unfinished_tool_calls cs msg st) = st_rollback st" for cs msg
    by (simp add: stub_unfinished_tool_calls_def)
  have refuse: "call_ok st (map fst rest) None st1"
    if "refuse_tool_call env agents call sc result st sh1 = (st1, sh2)" for result sh1 st1 sh2
    using refuse_tool_call_ok [OF that assms(2)] by (simp add: call_ok_def)
  have all: "call_ok st (map fst rest) (Some x) (preserve_or_rollback_failed_turn msg st1)"
    if "refuse_all env agents result ((call, sc) # rest) st sh1 = (st1, sh2)" for result sh1 st1 sh2 x msg
  proof -
    have "framed st st1" "paired (st_history st1)" using refuse_all_ok [OF that] assms(2) by simp_all
    moreover from this have "st_rollback st1 = st_rollback st" by (simp add: framed_def)
    ultimately show ?thesis using assms(3) by (simp add: call_ok_def preserve_or_rollback_paired)
  qed
  have stubbed: "call_ok st (map fst rest) (Some x) (preserve_or_rollback_failed_turn msg
      (stub_unfinished_tool_calls (call # map fst rest) msg' st))" for x msg msg'
    using stub assms(3) by (simp add: call_ok_def rb preserve_or_rollback_paired)
  have quiet: "call_ok st (map fst rest) (Some x) (preserve_or_rollback_failed_turn msg st)"
    if "\<not> st_observed_tool_activity st" for x msg
    using that assms(3) by (simp add: call_ok_def preserve_or_rollback_failed_turn_def rolled_back_def)
  show ?thesis
    using assms(1) unfolding dispatch_call_def Let_def
    by (auto simp del: refuse_all.simps split: prod.splits if_splits sum.splits option.splits
        intro: refuse all stubbed quiet evaluate_call_ok [OF _ assms(2,3)])
qed

lemma run_tools_ok:
  assumes "run_tools env child policy agents cwd index calls st sh = Some (r, st', sh')"
    and "awaiting (st_history st) (map fst calls)" and "paired (st_rollback st)"
  shows "framed st st' \<and> paired (st_history st') \<and> ((\<exists>e. r = Some (Err e)) \<longrightarrow> rolled_back st')"
  using assms
proof (induction calls arbitrary: index st sh)
  case Nil
  then show ?case using awaiting_Nil by simp
next
  case (Cons a rest)
  obtain call sc where a: "a = (call, sc)" by fastforce
  with Cons.prems obtain r1 st1 sh1 where
    d: "dispatch_call env child policy agents cwd index call sc rest st sh = Some (r1, st1, sh1)"
    by (auto split: option.splits)
  have ok: "call_ok st (map fst rest) r1 st1"
    using dispatch_call_ok [OF d] Cons.prems(2,3) a by simp
  show ?case
  proof (cases r1)
    case None
    with Cons.prems(1) a d have "run_tools env child policy agents cwd (Suc index) rest st1 sh1 = Some (r, st', sh')" by simp
    moreover have fr: "framed st st1" and "awaiting (st_history st1) (map fst rest)"
      using ok None by (auto simp: call_ok_def)
    moreover have "paired (st_rollback st1)" using fr Cons.prems(3) by (simp add: framed_def)
    ultimately have "framed st1 st' \<and> paired (st_history st') \<and> ((\<exists>e. r = Some (Err e)) \<longrightarrow> rolled_back st')"
      using Cons.IH by blast
    with fr show ?thesis using framed_trans by blast
  next
    case (Some x)
    with Cons.prems a d ok show ?thesis by (auto simp: call_ok_def)
  qed
qed

text \<open>The invariant of the turn at the head of the loop.\<close>

definition turn_inv :: "turn_state \<Rightarrow> bool" where
  "turn_inv st \<longleftrightarrow> paired (st_history st) \<and> paired (st_rollback st) \<and> finite (ci_seen (st_call_ids st))"

lemma stage_compaction_paired: "stage_compaction js c h = Some (h', rep) \<Longrightarrow> paired h \<Longrightarrow> paired h'"
  using compacting.keeps_pairing [of h js c]
  by (auto simp: stage_compaction_def split: if_splits prod.splits option.splits)

lemma skeleton_drop_tool_payload [simp]: "skeleton (fst (drop_tool_payload m)) = skeleton m"
  by (simp add: drop_tool_payload_def Let_def skeleton_def)

lemma drop_last_turn_payloads_paired: "paired h \<Longrightarrow> paired (drop_last_turn_payloads h)"
proof -
  assume "paired h"
  moreover have "map skeleton (drop_last_turn_payloads h) = map skeleton h"
    unfolding drop_last_turn_payloads_def drop_tool_payloads_def Let_def
    by (simp add: comp_def) (metis append_take_drop_id map_append)
  ultimately show ?thesis using paired_skeleton by metis
qed

lemma handle_overflow_inv:
  assumes "turn_inv st"
  shows "turn_inv (step_state (handle_overflow env policy agents m st sh))"
proof -
  have r: "paired (fst (compact_overflow js c (st_rollback st)))" for js c
    using assms overflowing.keeps_pairing by (simp add: turn_inv_def)
  have h: "paired h" if "compact_overflow js c (st_history st) = (h, x)" for js c h x
    using assms overflowing.keeps_pairing [of "st_history st" js c] that by (simp add: turn_inv_def)
  show ?thesis
    using assms r
    unfolding handle_overflow_def turn_inv_def preserve_or_rollback_failed_turn_def Let_def
    by (auto split: prod.splits option.splits simp: paired_system drop_last_turn_payloads_paired dest: h)
qed

lemma preserve_inv: "turn_inv st \<Longrightarrow> turn_inv (preserve_or_rollback_failed_turn msg st)"
  by (auto simp: turn_inv_def preserve_or_rollback_failed_turn_def paired_system)

lemma provider_request_inv:
  assumes "turn_inv st"
  shows "turn_inv (step_state (provider_request env policy agents st sh))"
proof -
  have staged: "turn_inv (st\<lparr>st_history := h\<rparr>)"
    if "stage_compaction js c (st_history st) = Some (h, rep)" for js c h rep
    using stage_compaction_paired [OF that] assms by (simp add: turn_inv_def)
  have "turn_inv (st\<lparr>st_overflow_retry_used := True\<rparr>)" using assms by (simp add: turn_inv_def)
  then have "turn_inv (step_state (handle_outcome env policy agents (stage_compaction js c (st_history st)) t out st sh1))"
    for t out sh1 js c
    unfolding handle_outcome_def Let_def
    using staged preserve_inv [OF assms] assms
    by (auto split: provider_outcome.splits sum.splits option.splits adapter_error.splits bool.splits
        intro: handle_overflow_inv)
  then show ?thesis
    unfolding provider_request_def Let_def using preserve_inv [OF assms]
    by (auto split: prod.splits sum.splits)
qed

lemma record_response_awaiting:
  assumes "record_response env agents response st sh = Some (scs, st', sh')" and "turn_inv st"
  shows "awaiting (st_history st') (ar_tool_calls response) \<and> st_rollback st' = st_rollback st \<and>
    length scs = length (ar_tool_calls response) \<and> finite (ci_seen (st_call_ids st'))"
proof -
  let ?m = "with_reasoning (assistant_with_tools (ar_content response) (ar_tool_calls response)) (ar_reasoning response)"
  have "st_history st' = st_history st @ [?m]" "st_rollback st' = st_rollback st"
    using assms(1) by (auto simp: record_response_def Let_def split: option.splits)
  moreover have "role ?m = Assistant" "tool_calls ?m = ar_tool_calls response"
    by (simp_all add: with_reasoning_def assistant_with_tools_def)
  then have "awaiting (st_history st @ [?m]) (ar_tool_calls response)"
    using assms(2) unfolding awaiting_def turn_inv_def
    by (intro exI [of _ "st_history st"] exI [of _ ?m] exI [of _ "[]"]) simp
  ultimately show ?thesis
    using record_response_returns [of st env agents response sh] assms by (auto simp: turn_inv_def)
qed

subsection \<open>One pass\<close>

text \<open>The ways a pass of the loop can end or go on.\<close>

lemma agent_loop_cases:
  assumes "agent_loop env cwd (Suc fuel) policy agents st sh = out"
  obtains
    (stop) e st1 sh1 where "provider_request env policy agents st sh = Stop e (st1, sh1)" "out = Some (Err e, st1, sh1)"
  | (retry) st1 sh1 where "provider_request env policy agents st sh = Retry (st1, sh1)"
      "out = agent_loop env cwd fuel policy agents st1 sh1"
  | (stuck) response st1 sh1 where "provider_request env policy agents st sh = Sent response (st1, sh1)"
      "record_response env agents response st1 sh1 = None" "out = None"
  | (nudged) response st1 sh1 scs st2 sh2 reason prompt where
      "provider_request env policy agents st sh = Sent response (st1, sh1)"
      "record_response env agents response st1 sh1 = Some (scs, st2, sh2)" "ar_tool_calls response = []"
      "st_auto_continues st2 < tl_auto_continues (b_limits (sh_budget sh2))"
      "out = agent_loop env cwd fuel policy agents
         (st2\<lparr>st_auto_continues := st_auto_continues st2 + 1, st_history := st_history st2 @ [user_message prompt]\<rparr>)
         (emit env agents (AutoContinued reason prompt) sh2)"
  | (finished) response st1 sh1 scs st2 sh2 h sh3 where
      "provider_request env policy agents st sh = Sent response (st1, sh1)"
      "record_response env agents response st1 sh1 = Some (scs, st2, sh2)" "ar_tool_calls response = []"
      "compact_history env agents policy (st_history st2) sh2 = (h, sh3)"
      "out = Some (Ok (), st2\<lparr>st_history := h\<rparr>, sh3)"
  | (tools) response st1 sh1 scs st2 sh2 where
      "provider_request env policy agents st sh = Sent response (st1, sh1)"
      "record_response env agents response st1 sh1 = Some (scs, st2, sh2)"
      "out = (case run_tools env (subturn env cwd fuel) policy agents cwd 0 (zip (ar_tool_calls response) scs) st2 sh2 of
         None \<Rightarrow> None
       | Some (Some r, st, sh) \<Rightarrow> Some (r, st, sh)
       | Some (None, st, sh) \<Rightarrow> agent_loop env cwd fuel policy agents st sh)"
proof (cases "provider_request env policy agents st sh")
  case (Stop e x)
  with assms that(1) show ?thesis by (cases x) simp
next
  case (Retry x)
  with assms that(2) show ?thesis by (cases x) simp
next
  case (Sent response x)
  obtain st1 sh1 where x: "x = (st1, sh1)" by fastforce
  note s = Sent [unfolded x]
  show ?thesis
  proof (cases "record_response env agents response st1 sh1")
    case None
    with assms that(3) s show ?thesis by simp
  next
    case (Some y)
    obtain scs st2 sh2 where y: "y = (scs, st2, sh2)" by (metis prod_cases3)
    note r = Some [unfolded y]
    show ?thesis
    proof (cases "ar_tool_calls response = []")
      case True
      obtain h sh3 where c: "compact_history env agents policy (st_history st2) sh2 = (h, sh3)" by fastforce
      show ?thesis
      proof (cases "\<exists>reason prompt. auto_continue_reason (env_lowercase env) response = Some (reason, prompt) \<and>
          st_auto_continues st2 < tl_auto_continues (b_limits (sh_budget sh2))")
        case True
        then obtain reason prompt where "auto_continue_reason (env_lowercase env) response = Some (reason, prompt)"
          "st_auto_continues st2 < tl_auto_continues (b_limits (sh_budget sh2))" by blast
        moreover from this have "out = agent_loop env cwd fuel policy agents
            (st2\<lparr>st_auto_continues := st_auto_continues st2 + 1, st_history := st_history st2 @ [user_message prompt]\<rparr>)
            (emit env agents (AutoContinued reason prompt) sh2)"
          using assms s r \<open>ar_tool_calls response = []\<close> by simp
        ultimately show ?thesis using that(4) [OF s r \<open>ar_tool_calls response = []\<close>] by blast
      next
        case False
        then have "out = Some (Ok (), st2\<lparr>st_history := h\<rparr>, sh3)"
          using assms s r c \<open>ar_tool_calls response = []\<close>
          by (auto split: option.splits)
        with that(5) s r c True show ?thesis by blast
      qed
    next
      case False
      with assms that(6) s r show ?thesis by (simp add: subturn_eq)
    qed
  qed
qed

text \<open>One pass, given what the passes with less fuel guarantee.\<close>

lemma agent_loop_pass_evolves:
  assumes nested: "nested_turn env (subturn env cwd fuel) fuel"
    and ev: "\<And>policy agents st sh r st' sh'. agent_loop env cwd fuel policy agents st sh = Some (r, st', sh') \<Longrightarrow>
      evolves 0 env policy sh sh'"
    and run: "agent_loop env cwd (Suc fuel) policy agents st sh = Some (r, st', sh')"
  shows "evolves 0 env policy sh sh'"
proof -
  have pr: "evolves 0 env policy sh sh1"
    if "step_shared (provider_request env policy agents st sh) = sh1" for sh1
    using provider_request_evolves that by blast
  have rr: "evolves 0 env policy sh sh2"
    if "provider_request env policy agents st sh = Sent response (st1, sh1)"
      "record_response env agents response st1 sh1 = Some (scs, st2, sh2)" for response st1 sh1 scs st2 sh2
    by (rule evolves_trans0(1) [OF pr record_response_evolves [OF that(2)]]) (simp add: that(1))
  from run show ?thesis
  proof (cases rule: agent_loop_cases)
    case (stop e st1 sh1)
    then show ?thesis using pr by simp
  next
    case (retry st1 sh1)
    then show ?thesis using pr [of sh1] ev evolves_trans0(1) by (metis step_shared.simps(2) snd_conv)
  next
    case (nudged response st1 sh1 scs st2 sh2 reason prompt)
    have "evolves 0 env policy sh (emit env agents (AutoContinued reason prompt) sh2)"
      using rr [OF nudged(1,2)] by blast
    with ev [OF nudged(5) [symmetric]] show ?thesis using evolves_trans0(1) by blast
  next
    case (finished response st1 sh1 scs st2 sh2 h sh3)
    have "evolves 0 env policy sh sh3"
      using rr [OF finished(1,2)] compact_history_evolves [OF finished(4)] evolves_trans0(1) by blast
    with finished(5) show ?thesis by simp
  next
    case (tools response st1 sh1 scs st2 sh2)
    from tools(3) obtain r3 st3 sh3 where
      t: "run_tools env (subturn env cwd fuel) policy agents cwd 0 (zip (ar_tool_calls response) scs) st2 sh2
        = Some (r3, st3, sh3)" by (auto split: option.splits)
    have e3: "evolves 0 env policy sh sh3"
      using rr [OF tools(1,2)] nested_turn.run_tools_evolves [OF nested t] evolves_trans0(1) by blast
    show ?thesis
    proof (cases r3)
      case None
      with tools(3) t have "agent_loop env cwd fuel policy agents st3 sh3 = Some (r, st', sh')" by simp
      with e3 ev evolves_trans0(1) show ?thesis by blast
    next
      case (Some x)
      with tools(3) t e3 show ?thesis by simp
    qed
  qed simp
qed

lemma agent_loop_pass_returns:
  assumes nested: "nested_turn env (subturn env cwd fuel) fuel"
    and ret: "\<And>policy agents st sh. turn_inv st \<Longrightarrow> remaining sh < fuel \<Longrightarrow>
      \<exists>out. agent_loop env cwd fuel policy agents st sh = Some out"
    and inv: "turn_inv st" and rem: "remaining sh < Suc fuel"
  shows "\<exists>out. agent_loop env cwd (Suc fuel) policy agents st sh = Some out"
proof -
  have inv1: "turn_inv (step_state (provider_request env policy agents st sh))"
    using provider_request_inv inv by blast
  have rem1: "remaining sh1 < fuel"
    if "step_shared (provider_request env policy agents st sh) = sh1"
      "\<not> is_stop (provider_request env policy agents st sh)" for sh1
    using provider_request_evolves [of env policy sh policy agents st] that rem by auto
  obtain out where o: "agent_loop env cwd (Suc fuel) policy agents st sh = out" by simp
  from o have "\<exists>res. out = Some res"
  proof (cases rule: agent_loop_cases)
    case (stop e st1 sh1)
    then show ?thesis by simp
  next
    case (retry st1 sh1)
    then show ?thesis using ret [of st1 sh1] inv1 rem1 by simp
  next
    case (stuck response st1 sh1)
    then show ?thesis using record_response_returns [of st1 env agents response sh1] inv1 by (simp add: turn_inv_def)
  next
    case (nudged response st1 sh1 scs st2 sh2 reason prompt)
    have "turn_inv st1" using inv1 nudged(1) by simp
    from record_response_awaiting [OF nudged(2) this] this
    have "turn_inv (st2\<lparr>st_auto_continues := st_auto_continues st2 + 1, st_history := st_history st2 @ [user_message prompt]\<rparr>)"
      using nudged(3) awaiting_Nil paired_user by (auto simp: turn_inv_def)
    moreover have "remaining (emit env agents (AutoContinued reason prompt) sh2) < fuel"
      using rem1 [of sh1] nudged(1) evolves_remaining [OF record_response_evolves [OF nudged(2), of policy]]
      by (simp add: remaining_def)
    ultimately show ?thesis using nudged(5) ret by simp
  next
    case (finished response st1 sh1 scs st2 sh2 h sh3)
    then show ?thesis by simp
  next
    case (tools response st1 sh1 scs st2 sh2)
    have i1: "turn_inv st1" using inv1 tools(1) by simp
    note aw = record_response_awaiting [OF tools(2) i1]
    have r2: "remaining sh2 < fuel"
      using rem1 [of sh1] tools(1) evolves_remaining [OF record_response_evolves [OF tools(2), of policy]] by simp
    obtain r3 st3 sh3 where
      t: "run_tools env (subturn env cwd fuel) policy agents cwd 0 (zip (ar_tool_calls response) scs) st2 sh2
        = Some (r3, st3, sh3)"
      using nested_turn.run_tools_returns [OF nested r2] by (metis prod_cases3)
    have "framed st2 st3 \<and> paired (st_history st3)"
      using run_tools_ok [OF t] aw i1 by (simp add: turn_inv_def)
    then have "turn_inv st3" using aw i1 by (auto simp: turn_inv_def framed_def)
    moreover have "remaining sh3 < fuel"
      using evolves_remaining [OF nested_turn.run_tools_evolves [OF nested t]] r2 by simp
    ultimately show ?thesis using tools(3) t ret [of st3 sh3] by (cases r3) auto
  qed
  with o show ?thesis by simp
qed

lemma turn_start_inv: "paired h \<Longrightarrow> turn_inv (turn_start policy h task)"
  by (simp add: turn_inv_def turn_start_def call_ids_new_def paired_user)

lemma nested_turn_agent_loop:
  assumes ev: "\<And>policy agents st sh r st' sh'. agent_loop env cwd fuel policy agents st sh = Some (r, st', sh') \<Longrightarrow>
      evolves 0 env policy sh sh'"
    and ret: "\<And>policy agents st sh. turn_inv st \<Longrightarrow> remaining sh < fuel \<Longrightarrow>
      \<exists>out. agent_loop env cwd fuel policy agents st sh = Some out"
  shows "nested_turn env (subturn env cwd fuel) fuel"
proof
  fix sh :: "'a shared" and policy agents h task
  assume "paired h" and "remaining sh < fuel"
  then show "\<exists>out. subturn env cwd fuel policy agents h task sh = Some out"
    using ret [OF turn_start_inv] by (fastforce simp: subturn_def)
next
  fix sh sh' :: "'a shared" and policy agents h task r h' ab
  assume "subturn env cwd fuel policy agents h task sh = Some (r, h', ab, sh')"
  then show "evolves 0 env policy sh sh'" by (auto simp: subturn_def dest: ev)
qed

lemma agent_loop_evolves_returns:
  "(\<forall>policy agents st sh r st' sh'. agent_loop env cwd fuel policy agents st sh = Some (r, st', sh') \<longrightarrow>
      evolves 0 env policy sh sh') \<and>
   (\<forall>policy agents st sh. turn_inv st \<longrightarrow> remaining sh < fuel \<longrightarrow>
      (\<exists>out. agent_loop env cwd fuel policy agents st sh = Some out))"
proof (induction fuel)
  case 0
  then show ?case by simp
next
  case (Suc fuel)
  then have nested: "nested_turn env (subturn env cwd fuel) fuel"
    by (intro nested_turn_agent_loop) blast+
  show ?case
  proof (intro conjI allI impI)
    fix policy agents st sh r st' sh'
    assume "agent_loop env cwd (Suc fuel) policy agents st sh = Some (r, st', sh')"
    then show "evolves 0 env policy sh sh'" using agent_loop_pass_evolves [OF nested] Suc by blast
  next
    fix policy agents st and sh :: "'a shared"
    assume "turn_inv st" "remaining sh < Suc fuel"
    then show "\<exists>out. agent_loop env cwd (Suc fuel) policy agents st sh = Some out"
      using agent_loop_pass_returns [OF nested] Suc by blast
  qed
qed

text \<open>Every fuel gives a nested turn that keeps the contract.\<close>

interpretation subagent: nested_turn env "subturn env cwd fuel" fuel for env cwd fuel
  using agent_loop_evolves_returns by (intro nested_turn_agent_loop) blast+

lemma agent_loop_evolves:
  "agent_loop env cwd fuel policy agents st sh = Some (r, st', sh') \<Longrightarrow> evolves 0 env policy sh sh'"
  using agent_loop_evolves_returns by blast

lemma agent_loop_returns:
  "turn_inv st \<Longrightarrow> remaining sh < fuel \<Longrightarrow> \<exists>out. agent_loop env cwd fuel policy agents st sh = Some out"
  using agent_loop_evolves_returns by blast

section \<open>What a turn leaves behind\<close>

text \<open>
  The snapshot of the history before the turn: as it was, or shrunk once after the provider has
  rejected the request as too long.
\<close>

definition snapshot_of :: "('w, 'd) env \<Rightarrow> turn_policy \<Rightarrow> chat_message list \<Rightarrow> turn_state \<Rightarrow> bool" where
  "snapshot_of env policy h0 st \<longleftrightarrow>
     st_rollback st = h0 \<or>
     st_overflow_retry_used st \<and> st_rollback st = fst (compact_overflow (env_json env) (tp_compactor policy) h0)"

fun stop_ok :: "(turn_state \<times> 'w shared) request_step \<Rightarrow> bool" where
  "stop_ok (Stop _ p) = rolled_back (fst p)"
| "stop_ok _ = True"

lemma snapshot_preserve [simp]:
  "snapshot_of env policy h0 (preserve_or_rollback_failed_turn m st) = snapshot_of env policy h0 st"
  by (simp add: snapshot_of_def preserve_or_rollback_failed_turn_def)

lemma snapshot_history [simp]:
  "snapshot_of env policy h0 (st\<lparr>st_history := h\<rparr>) = snapshot_of env policy h0 st"
  by (simp add: snapshot_of_def)

lemma snapshot_framed: "snapshot_of env policy h0 st \<Longrightarrow> framed st st' \<Longrightarrow> snapshot_of env policy h0 st'"
  by (simp add: snapshot_of_def framed_def)

lemma handle_overflow_snapshot:
  assumes "st_rollback st = h0" and "st_overflow_retry_used st"
  shows "snapshot_of env policy h0 (step_state (handle_overflow env policy agents m st sh)) \<and>
    stop_ok (handle_overflow env policy agents m st sh)"
  using assms unfolding handle_overflow_def Let_def
  by (auto split: prod.splits option.splits
      simp: snapshot_of_def rolled_back_def preserve_or_rollback_failed_turn_def)

lemma provider_request_snapshot:
  assumes "snapshot_of env policy h0 st"
  shows "snapshot_of env policy h0 (step_state (provider_request env policy agents st sh)) \<and>
    stop_ok (provider_request env policy agents st sh)"
proof -
  have "snapshot_of env policy h0 (step_state (handle_outcome env policy agents staged t out st sh1)) \<and>
      stop_ok (handle_outcome env policy agents staged t out st sh1)" for staged t out sh1
  proof (cases "st_overflow_retry_used st")
    case True
    with assms show ?thesis
      unfolding handle_outcome_def Let_def
      by (auto split: provider_outcome.splits sum.splits option.splits adapter_error.splits)
  next
    case False
    with assms have "st_rollback (st\<lparr>st_overflow_retry_used := True\<rparr>) = h0" by (simp add: snapshot_of_def)
    with False assms show ?thesis
      unfolding handle_outcome_def Let_def
      using handle_overflow_snapshot [of "st\<lparr>st_overflow_retry_used := True\<rparr>" h0 env policy]
      by (auto split: provider_outcome.splits sum.splits option.splits adapter_error.splits)
  qed
  then show ?thesis
    unfolding provider_request_def Let_def using assms by (auto split: prod.splits sum.splits)
qed

lemma record_response_snapshot:
  "record_response env agents response st sh = Some (scs, st', sh') \<Longrightarrow>
     snapshot_of env policy h0 st' = snapshot_of env policy h0 st"
  by (auto simp: record_response_def Let_def snapshot_of_def split: option.splits)

lemma agent_loop_leaves:
  assumes "agent_loop env cwd fuel policy agents st sh = Some (r, st', sh')" and "turn_inv st"
    and "snapshot_of env policy h0 st"
  shows "paired (st_history st') \<and>
    ((\<exists>e. r = Err e) \<longrightarrow> snapshot_of env policy h0 st' \<and> rolled_back st')"
  using assms
proof (induction fuel arbitrary: st sh)
  case 0
  then show ?case by simp
next
  case (Suc fuel)
  have inv1: "turn_inv (step_state (provider_request env policy agents st sh))"
    using provider_request_inv Suc.prems(2) by blast
  note snap1 = provider_request_snapshot [OF Suc.prems(3), of agents sh]
  from Suc.prems(1) show ?case
  proof (cases rule: agent_loop_cases)
    case (stop e st1 sh1)
    then show ?thesis using inv1 snap1 by (simp add: turn_inv_def)
  next
    case (retry st1 sh1)
    then show ?thesis using Suc.IH [OF retry(2) [symmetric]] inv1 snap1 by simp
  next
    case (nudged response st1 sh1 scs st2 sh2 reason prompt)
    have i1: "turn_inv st1" using inv1 nudged(1) by simp
    from record_response_awaiting [OF nudged(2) i1] i1
    have "turn_inv (st2\<lparr>st_auto_continues := st_auto_continues st2 + 1, st_history := st_history st2 @ [user_message prompt]\<rparr>)"
      using nudged(3) awaiting_Nil paired_user by (auto simp: turn_inv_def)
    moreover have "snapshot_of env policy h0 (st2\<lparr>st_auto_continues := st_auto_continues st2 + 1, st_history := st_history st2 @ [user_message prompt]\<rparr>)"
      using snap1 nudged(1) record_response_snapshot [OF nudged(2)] by (simp add: snapshot_of_def)
    ultimately show ?thesis using Suc.IH [OF nudged(5) [symmetric]] by blast
  next
    case (finished response st1 sh1 scs st2 sh2 h sh3)
    have "turn_inv st1" using inv1 finished(1) by simp
    from record_response_awaiting [OF finished(2) this] have "paired (st_history st2)"
      using finished(3) awaiting_Nil by simp
    then have "paired h"
      using finished(4) compacting.keeps_pairing [of "st_history st2" "env_json env" "tp_compactor policy"]
      by (auto simp: compact_history_def split: prod.splits option.splits)
    with finished(5) show ?thesis by simp
  next
    case (tools response st1 sh1 scs st2 sh2)
    have i1: "turn_inv st1" using inv1 tools(1) by simp
    note aw = record_response_awaiting [OF tools(2) i1]
    from tools(3) obtain r3 st3 sh3 where
      t: "run_tools env (subturn env cwd fuel) policy agents cwd 0 (zip (ar_tool_calls response) scs) st2 sh2
        = Some (r3, st3, sh3)" by (auto split: option.splits)
    have ok: "framed st2 st3 \<and> paired (st_history st3) \<and> ((\<exists>e. r3 = Some (Err e)) \<longrightarrow> rolled_back st3)"
      using run_tools_ok [OF t] aw i1 by (simp add: turn_inv_def)
    have snap3: "snapshot_of env policy h0 st3"
      using snapshot_framed [of env policy h0 st2 st3] ok snap1 tools(1) record_response_snapshot [OF tools(2)]
      by simp
    show ?thesis
    proof (cases r3)
      case None
      have "turn_inv st3" using ok aw i1 by (auto simp: turn_inv_def framed_def)
      moreover have "agent_loop env cwd fuel policy agents st3 sh3 = Some (r, st', sh')"
        using tools(3) t None by simp
      ultimately show ?thesis using Suc.IH snap3 by blast
    next
      case (Some x)
      with tools(3) t ok snap3 show ?thesis by auto
    qed
  qed simp
qed

section \<open>Properties of a turn\<close>

lemma run_agent_turn_evolves:
  assumes "run_agent_turn env cwd policy history message w = Some (r, st, sh)"
  shows "authorised env policy (sh_trace sh) \<and> requests_ok (sh_trace sh) \<and>
    length (filter is_chat (sh_trace sh)) \<le> tl_provider_requests (tp_limits policy) \<and>
    length (filter is_execute (sh_trace sh)) \<le> tl_tool_calls (tp_limits policy)"
proof -
  let ?sh = "\<lparr>sh_world = w, sh_budget = budget_new (env_now env w) (tp_limits policy), sh_trace = []\<rparr>"
  have "evolves 0 env policy ?sh sh"
    using assms agent_loop_evolves unfolding run_agent_turn_def run_agent_turn_with_budget_def by blast
  then show ?thesis
    unfolding evolves_def by (auto simp: budget_new_def within_limits_def)
qed

text \<open>
  C4. No tool runs without authority. In every turn, whatever the provider, the observer and the
  operating system do, each call that reaches execution (a subagent's calls too) names a tool of
  the agent's tool set other than delegation, and the approval rules let it run on the facts
  that were established for it, or they asked and an approval of this very call came before.
\<close>

theorem executed_calls_are_authorised:
  assumes "run_agent_turn env cwd policy history message w = Some (r, st, sh)"
    and "sh_trace sh = before @ Execute call sc facts # after"
  shows "(\<exists>t. ts_get (tp_tools policy) (tc_name call) = Some t \<and> t \<noteq> DelegateTask) \<and>
    cf_tool facts = tc_name call \<and>
    (rules_decide (env_shell_words env) (tp_rules policy) facts (tp_approval policy) = Run \<or>
     rules_decide (env_shell_words env) (tp_rules policy) facts (tp_approval policy) = Prompt \<and>
     (\<exists>reason. AskApproval sc reason Approve \<in> set before))"
proof -
  have "authorised env policy (before @ Execute call sc facts # after)"
    using run_agent_turn_evolves [OF assms(1)] assms(2) by simp
  then have "may_execute env policy (set before) call sc facts"
    unfolding authorised_def by (auto dest!: spec [of _ "length before"])
  then show ?thesis by (simp add: may_execute_def)
qed

text \<open>
  C13. Every turn ends and stays within its budget: with fuel for the provider requests of its
  limits the loop returns, subagents included, and the trace contains at most that many
  provider requests and at most the allowed number of tool executions. Every request sent has
  its only system message, if any, in front.
\<close>

theorem turn_ends_within_budget:
  assumes "paired history"
  shows "\<exists>r st sh. run_agent_turn env cwd policy history message w = Some (r, st, sh) \<and>
    length (filter is_chat (sh_trace sh)) \<le> tl_provider_requests (tp_limits policy) \<and>
    length (filter is_execute (sh_trace sh)) \<le> tl_tool_calls (tp_limits policy) \<and>
    (\<forall>msgs. Chat msgs \<in> set (sh_trace sh) \<longrightarrow> system_first msgs)"
proof -
  let ?sh = "\<lparr>sh_world = w, sh_budget = budget_new (env_now env w) (tp_limits policy), sh_trace = []\<rparr>"
  have "remaining ?sh < Suc (tl_provider_requests (tp_limits policy))"
    by (simp add: remaining_def budget_new_def)
  then obtain out where "run_agent_turn env cwd policy history message w = Some out"
    using agent_loop_returns [OF turn_start_inv [OF assms]]
    unfolding run_agent_turn_def run_agent_turn_with_budget_def by blast
  moreover obtain r st sh where "out = (r, st, sh)" by (metis prod_cases3)
  ultimately show ?thesis
    using run_agent_turn_evolves [of env cwd policy history message w r st sh] by (auto simp: requests_ok_def)
qed

text \<open>
  C14. A turn leaves a consistent conversation on every path: success, abort by the user,
  cancellation before, between or during tool calls, exhausted budget, provider failure and
  context overflow. Whatever the outcome, every tool call in the history is answered in order
  and every tool result answers a call.
\<close>

theorem turn_leaves_consistent_history:
  assumes "paired history"
    and "run_agent_turn_with_budget env cwd fuel policy agents history message sh = Some (r, st, sh')"
  shows "paired (st_history st)"
  using agent_loop_leaves [OF assms(2) [unfolded run_agent_turn_with_budget_def] turn_start_inv [OF assms(1)], of history]
  by (simp add: snapshot_of_def turn_start_def)

text \<open>
  C18. A failed turn without tool activity leaves nothing of itself: the history is the one from
  before the turn, or that history shrunk by the overflow pass, with at most one record of the
  failure appended.
\<close>

theorem failed_turn_rolls_back:
  assumes "paired history"
    and "run_agent_turn_with_budget env cwd fuel policy agents history message sh = Some (Err e, st, sh')"
    and "\<not> st_observed_tool_activity st"
  shows "\<exists>h. (h = history \<or> h = fst (compact_overflow (env_json env) (tp_compactor policy) history)) \<and>
    (st_history st = h \<or> (\<exists>t. st_history st = h @ [system_message t]))"
proof -
  have "snapshot_of env policy history st \<and> rolled_back st"
    using agent_loop_leaves [OF assms(2) [unfolded run_agent_turn_with_budget_def] turn_start_inv [OF assms(1)], of history]
    by (simp add: snapshot_of_def turn_start_def)
  with assms(3) show ?thesis by (auto simp: snapshot_of_def rolled_back_def)
qed

text \<open>
  Merging system messages for a request keeps the conversation: all other messages stay in
  order, the texts of all system messages are joined in order in the first message, no system
  message is left elsewhere, and the number reported is the number of messages moved.
\<close>

theorem merge_system_messages_keeps_everything:
  assumes "merge_system_messages h = (h', n)" and "list_ex (\<lambda>m. role m = System) h"
  shows "\<exists>m t. h' = m # t \<and> role m = System \<and>
    content m = join [lf, lf] (map content (filter (\<lambda>m. role m = System) h)) \<and>
    t = filter (\<lambda>m. role m \<noteq> System) h \<and>
    n = length (filter (\<lambda>m. role m = System) h) - (if role (hd h) = System then 1 else 0)"
proof (cases "is_system (hd h)")
  case True
  then obtain m t where h: "h = m # t" "is_system m" using assms(2) by (cases h) auto
  show ?thesis
  proof (cases "filter is_system t = []")
    case True
    then have "filter (\<lambda>m. \<not> is_system m) t = t" by (auto simp: filter_empty_conv intro: filter_True)
    with h True assms(1) show ?thesis by (auto simp: merge_system_messages_prefix)
  next
    case False
    with h assms(1) show ?thesis by (auto simp: merge_system_messages_prefix)
  qed
next
  case False
  then have "filter is_system h \<noteq> []" using assms(2) by (auto simp: filter_empty_conv list_ex_iff)
  with False assms(1) show ?thesis
    by (auto simp: merge_system_messages_no_prefix system_message_def)
qed

section \<open>A small turn\<close>

text \<open>
  A model that asks for one tool call and, once it has been answered, ends: the environment of
  the examples.
\<close>

definition small_call :: tool_call where
  "small_call = \<lparr>tc_id = ''a'', tc_name = ''read_file'', tc_arguments = JNull\<rparr>"

definition small_chat :: "chat_message list \<Rightarrow> assistant_response" where
  "small_chat msgs =
     \<lparr>ar_content = ''done'', ar_tool_calls = (if role (last msgs) = Tool then [] else [small_call]),
      ar_reasoning = None, ar_finish_reason = Some ''length''\<rparr>"

definition small_env :: "(unit, string) env" where
  "small_env = \<lparr>env_os = small_os, env_chat = (\<lambda>msgs tools w. (([], Response (Ok (small_chat msgs))), w)),
     env_now = (\<lambda>w. 0), env_cancelled = (\<lambda>w. False), env_emit = (\<lambda>e w. w),
     env_approve = (\<lambda>c r w. (Approve, w)), env_shell = (\<lambda>d a w. (Ok ''out'', w)),
     env_json = (\<lambda>v. ''{}''), env_lossy = id, env_lowercase = id, env_shell_words = split_spaces\<rparr>"

definition small_policy :: "approval_policy \<Rightarrow> turn_policy" where
  "small_policy approval = (turn_policy_new None approval)\<lparr>tp_compactor := NoCompaction\<rparr>"

theorem turn_ends_within_budget_witness:
  "\<exists>r st sh. run_agent_turn small_env ''/w'' (small_policy Ask) [] ''read it'' () = Some (r, st, sh) \<and>
     length (filter is_chat (sh_trace sh)) \<le> tl_provider_requests limits_default"
  using turn_ends_within_budget [OF paired_Nil, of small_env "''/w''" "small_policy Ask" "''read it''" "()"]
  by (auto simp: small_policy_def turn_policy_new_def)

theorem turn_leaves_consistent_history_witness:
  "\<exists>r st sh. run_agent_turn_with_budget small_env ''/w'' 129 (small_policy Ask) [] [] ''read it''
      \<lparr>sh_world = (), sh_budget = budget_new 0 limits_default, sh_trace = []\<rparr> = Some (r, st, sh) \<and>
     paired (st_history st)"
proof -
  let ?sh = "\<lparr>sh_world = (), sh_budget = budget_new 0 limits_default, sh_trace = []\<rparr>"
  have "remaining ?sh < 129" by (simp add: remaining_def budget_new_def limits_default_def)
  then obtain r st sh where
    run: "run_agent_turn_with_budget small_env ''/w'' 129 (small_policy Ask) [] [] ''read it'' ?sh = Some (r, st, sh)"
    using agent_loop_returns [OF turn_start_inv [OF paired_Nil]] unfolding run_agent_turn_with_budget_def
    by (metis prod_cases3)
  with turn_leaves_consistent_history [OF paired_Nil run] show ?thesis by blast
qed

theorem failed_turn_rolls_back_witness:
  "\<exists>e st sh. run_agent_turn_with_budget small_env ''/w'' (Suc 0) (small_policy Ask) [] [system_message ''be brief''] ''read it''
      \<lparr>sh_world = (), sh_budget = budget_new 0 (limits_default\<lparr>tl_provider_requests := 0\<rparr>), sh_trace = []\<rparr>
        = Some (Err e, st, sh) \<and> st_history st = [system_message ''be brief'']"
proof -
  let ?sh = "\<lparr>sh_world = (), sh_budget = budget_new 0 (limits_default\<lparr>tl_provider_requests := 0\<rparr>), sh_trace = []\<rparr>"
  let ?b = "budget_new 0 (limits_default\<lparr>tl_provider_requests := 0\<rparr>)"
  obtain b c where ch: "charge_provider_request 0 ?b = (b, c)" by fastforce
  then obtain e where "b = ?b" "c = Err e"
    by (cases rule: charge_provider_request_cases) (auto simp: budget_new_def)
  with ch have "provider_request small_env (small_policy Ask) [] st0 ?sh
      = Stop (Exhausted e) (preserve_or_rollback_failed_turn (exhausted_message e) st0, ?sh)" for st0
    by (simp add: provider_request_def small_env_def)
  then obtain st sh where
    run: "run_agent_turn_with_budget small_env ''/w'' (Suc 0) (small_policy Ask) [] [system_message ''be brief''] ''read it'' ?sh
      = Some (Err (Exhausted e), st, sh)"
    and st: "st_history st = [system_message ''be brief'']" "\<not> st_observed_tool_activity st"
    by (simp add: run_agent_turn_with_budget_def preserve_or_rollback_failed_turn_def turn_start_def)
  have "paired [system_message ''be brief'']" by (simp add: paired_system [OF paired_Nil, simplified])
  from failed_turn_rolls_back [OF this run st(2)] run st(1) show ?thesis by blast
qed

theorem merge_system_messages_keeps_everything_witness:
  "\<exists>m. fst (merge_system_messages [user_message ''a'', system_message ''b'']) = [m, user_message ''a''] \<and> content m = ''b''"
  using merge_system_messages_keeps_everything [of "[user_message ''a'', system_message ''b'']", OF prod.collapse [symmetric]]
  by (auto, simp add: system_message_def)

lemma budget_new_default:
  "budget_new 0 limits_default = \<lparr>b_limits = limits_default, b_deadline = 3600000000000,
     b_provider_requests = 0, b_tool_calls = 0\<rparr>"
  by (simp add: budget_new_def instant_checked_add_def limits_default_def from_secs_def nanos_per_sec_def as_secs_def)

definition small_shared :: "action list \<Rightarrow> unit shared" where
  "small_shared tr = \<lparr>sh_world = (), sh_budget = \<lparr>b_limits = limits_default, b_deadline = 3600000000000,
     b_provider_requests = 1, b_tool_calls = 0\<rparr>, sh_trace = tr\<rparr>"

definition small_facts :: call_facts where
  "small_facts = \<lparr>cf_tool = ''read_file'', cf_command = None, cf_path = None, cf_gated = False, cf_sensitive = False\<rparr>"

abbreviation small_start :: turn_state where
  "small_start \<equiv> turn_start (small_policy Ask) [] ''read it''"

lemma default_requests: "tl_provider_requests limits_default = 128"
  by (simp add: limits_default_def)

lemma small_request:
  "provider_request small_env (small_policy Ask) [] small_start
     \<lparr>sh_world = (), sh_budget = budget_new 0 limits_default, sh_trace = []\<rparr>
   = Sent (small_chat [user_message ''read it'']) (small_start, small_shared [Chat [user_message ''read it'']])"
  by (simp add: default_requests provider_request_def budget_new_default charge_provider_request_def
      check_time_def charge_def small_env_def stage_compaction_def small_policy_def turn_start_def
      merge_system_messages_def user_message_def handle_outcome_def emit_all_def small_shared_def Let_def)

lemma small_record:
  "record_response small_env [] (small_chat [user_message ''read it'']) small_start (small_shared tr)
   = Some ([small_call], small_start\<lparr>st_call_ids := \<lparr>ci_scope = None, ci_seen = {''a''}\<rparr>,
       st_history := [user_message ''read it'', assistant_with_tools ''done'' [small_call]]\<rparr>,
     small_shared (tr @ [Emit (AgentResponse ''done'' 1 False None (Some ''length'')), Emit (ToolRequested small_call)]))"
  by (simp add: record_response_def small_chat_def small_call_def turn_start_def scoped_def call_ids_new_def
      user_message_def scope_prefix_def emit_def emit_all_def small_env_def small_shared_def wrap_def
      small_policy_def turn_policy_new_def with_reasoning_def assistant_with_tools_def)

lemma small_dispatch:
  "\<exists>r st' sh'. dispatch_call small_env child (small_policy Ask) [] ''/w'' 0 small_call small_call [] st (small_shared tr)
      = Some (r, st', sh') \<and>
     prefix (tr @ [Emit (ToolDecision ''a'' Approve), Execute small_call small_call small_facts]) (sh_trace sh')"
  by (simp add: dispatch_call_def Let_def small_env_def small_shared_def charge_tool_call_def check_time_def
      charge_def limits_default_def small_policy_def turn_policy_new_def ts_get_def small_call_def
      tool_from_name_def ALL_TOOLS_def evaluate_call_def prepare_call_def read_request_def
      required_string_def json_get_def gate_def requires_approval_by_name_def call_facts_of_def
      rules_decide_def policy_decide_def denial_is_uncheckable_def decide_by_rules_def
      default_decision_def decide_call_def emit_def wrap_def run_call_def execute_prepared_def
      finish_call_def small_facts_def)

lemma small_pass:
  "agent_loop small_env cwd (Suc n) (small_policy Ask) [] small_start
     \<lparr>sh_world = (), sh_budget = budget_new 0 limits_default, sh_trace = []\<rparr>
   = (case dispatch_call small_env (subturn small_env cwd n) (small_policy Ask) [] cwd 0 small_call small_call []
       (small_start\<lparr>st_call_ids := \<lparr>ci_scope = None, ci_seen = {''a''}\<rparr>,
          st_history := [user_message ''read it'', assistant_with_tools ''done'' [small_call]]\<rparr>)
       (small_shared ([Chat [user_message ''read it'']]
          @ [Emit (AgentResponse ''done'' 1 False None (Some ''length'')), Emit (ToolRequested small_call)])) of
        None \<Rightarrow> None
      | Some (Some r, st, sh) \<Rightarrow> Some (r, st, sh)
      | Some (None, st, sh) \<Rightarrow> agent_loop small_env cwd n (small_policy Ask) [] st sh)"
  unfolding agent_loop.simps(2) Let_def small_request request_step.case prod.case small_record option.case subturn_eq
  by (auto simp: small_chat_def split: option.splits prod.splits)

theorem executed_calls_are_authorised_witness:
  "\<exists>r st sh before after. run_agent_turn small_env ''/w'' (small_policy Ask) [] ''read it'' () = Some (r, st, sh) \<and>
     sh_trace sh = before @ Execute small_call small_call small_facts # after \<and>
     (\<exists>t. ts_get (tp_tools (small_policy Ask)) ''read_file'' = Some t)"
proof -
  let ?sh = "\<lparr>sh_world = (), sh_budget = budget_new 0 limits_default, sh_trace = []\<rparr>"
  have turn: "run_agent_turn small_env ''/w'' (small_policy Ask) [] ''read it'' ()
      = agent_loop small_env ''/w'' (Suc 128) (small_policy Ask) [] small_start ?sh"
    by (simp add: run_agent_turn_def run_agent_turn_with_budget_def small_policy_def turn_policy_new_def
        default_requests small_env_def)
  have "remaining ?sh < Suc 128" by (simp add: remaining_def budget_new_default default_requests)
  then obtain r st sh where
    run: "agent_loop small_env ''/w'' (Suc 128) (small_policy Ask) [] small_start ?sh = Some (r, st, sh)"
    using agent_loop_returns [OF turn_start_inv [OF paired_Nil]] by (metis prod_cases3)
  let ?tr = "[Chat [user_message ''read it'']] @ [Emit (AgentResponse ''done'' 1 False None (Some ''length'')), Emit (ToolRequested small_call)]"
  let ?st = "small_start\<lparr>st_call_ids := \<lparr>ci_scope = None, ci_seen = {''a''}\<rparr>,
       st_history := [user_message ''read it'', assistant_with_tools ''done'' [small_call]]\<rparr>"
  obtain r1 st1 sh1 where
    d: "dispatch_call small_env (subturn small_env ''/w'' 128) (small_policy Ask) [] ''/w'' 0 small_call small_call []
        ?st (small_shared ?tr) = Some (r1, st1, sh1)"
    and tr: "prefix (?tr @ [Emit (ToolDecision ''a'' Approve), Execute small_call small_call small_facts]) (sh_trace sh1)"
    using small_dispatch [of "subturn small_env ''/w'' 128" ?st ?tr] by blast
  have "r1 = None \<and> agent_loop small_env ''/w'' 128 (small_policy Ask) [] st1 sh1 = Some (r, st, sh) \<or> sh = sh1"
    using run unfolding small_pass d by (cases r1) simp_all
  then have "\<exists>zs. sh_trace sh = sh_trace sh1 @ zs"
    using agent_loop_evolves by (fastforce simp: evolves_def)
  then obtain zs where "sh_trace sh = (?tr @ [Emit (ToolDecision ''a'' Approve)]) @ Execute small_call small_call small_facts # zs"
    using tr by (auto simp: prefix_def)
  then obtain before after where t: "sh_trace sh = before @ Execute small_call small_call small_facts # after" by blast
  from executed_calls_are_authorised [OF _ t] run turn have "\<exists>t. ts_get (tp_tools (small_policy Ask)) (tc_name small_call) = Some t"
    by metis
  with run turn t show ?thesis by (auto simp: small_call_def)
qed

end
