(* ===== verification/Direct_Shell.thy ===== *)
theory Direct_Shell
  imports Tools
begin

text \<open>
  Shell lines the user types (\<open>run_direct_shell_streaming_cancellable\<close> of
  \<open>xshell-execution/src/engine.rs\<close>): the built-in \<open>cd\<close>, and a command whose output is streamed
  to the client and retained up to a limit. The process with its two pipes is a parameter: the
  chunks in the order in which they arrive, and how it ended. So are the environment variable
  \<open>HOME\<close>, the check of a directory and \<open>shell_words::split\<close>.
\<close>

definition DIRECT_SHELL_OUTPUT_LIMIT :: nat where
  "DIRECT_SHELL_OUTPUT_LIMIT = 4 * 1024 * 1024"

record direct_shell_result =
  ds_cwd :: string
  ds_status :: string
  ds_stdout :: string
  ds_stderr :: string

section \<open>Working directory\<close>

record quote_state =
  single_quoted :: bool
  double_quoted :: bool
  escaped :: bool

definition shell_operators :: "char list" where
  "shell_operators = '';&|<>()'' @ [char_of (10 :: nat)]"

fun operator_loop :: "quote_state \<Rightarrow> string \<Rightarrow> bool" where
  "operator_loop q [] = False"
| "operator_loop q (c # s) =
     (if escaped q then operator_loop (q\<lparr>escaped := False\<rparr>) s
      else if c = CHR 0x5C \<and> \<not> single_quoted q then operator_loop (q\<lparr>escaped := True\<rparr>) s
      else if c = CHR 0x27 \<and> \<not> double_quoted q then operator_loop (q\<lparr>single_quoted := \<not> single_quoted q\<rparr>) s
      else if c = CHR 0x22 \<and> \<not> single_quoted q then operator_loop (q\<lparr>double_quoted := \<not> double_quoted q\<rparr>) s
      else if c \<in> set shell_operators \<and> \<not> single_quoted q \<and> \<not> double_quoted q then True
      else operator_loop q s)"

definition has_unquoted_shell_operator :: "string \<Rightarrow> bool" where
  "has_unquoted_shell_operator command =
     operator_loop \<lparr>single_quoted = False, double_quoted = False, escaped = False\<rparr> command"

definition home_dir :: "string option \<Rightarrow> (string, string) result" where
  "home_dir home = (case home of Some h \<Rightarrow> Ok h | None \<Rightarrow> Err ''HOME is not set'')"

text \<open>\<open>Path::join\<close>: an absolute path replaces the base.\<close>

definition path_join_any :: "string \<Rightarrow> string \<Rightarrow> string" where
  "path_join_any base p = (if is_absolute p then p else path_join base p)"

definition expand_tilde :: "string option \<Rightarrow> string \<Rightarrow> (string, string) result" where
  "expand_tilde home p =
     (if p = ''~'' then home_dir home
      else case strip_prefix ''~/'' p of
        Some rest \<Rightarrow> and_then (home_dir home) (\<lambda>h. Ok (path_join_any h rest))
      | None \<Rightarrow> Ok p)"

definition captured_cd_destination ::
  "shell_words \<Rightarrow> string option \<Rightarrow> string \<Rightarrow> string \<Rightarrow> (string, string option) result" where
  "captured_cd_destination sw home command cwd =
     (let trimmed = trim command in
      if trimmed \<noteq> ''cd'' \<and> (\<not> starts_with trimmed ''cd '' \<or> has_unquoted_shell_operator trimmed) then Ok None
      else case sw trimmed of
        Inl e \<Rightarrow> Err (''could not parse shell command: '' @ e)
      | Inr words \<Rightarrow>
          if words = [] \<or> hd words \<noteq> ''cd'' then Ok None
          else if length words > 2 then Err ''cd expects zero or one path''
          else and_then (if length words > 1 then expand_tilde home (words ! 1) else home_dir home)
            (\<lambda>destination. Ok (Some (path_join_any cwd destination))))"

section \<open>Output\<close>

datatype shell_stream = Stdout | Stderr

text \<open>\<open>retain_shell_chunk\<close>: the retained bytes of one stream, and what is shown to the client.\<close>

definition retain_bytes :: "string \<Rightarrow> string \<Rightarrow> string" where
  "retain_bytes target bytes =
     (if length target < DIRECT_SHELL_OUTPUT_LIMIT
      then target @ take (min (length bytes) (DIRECT_SHELL_OUTPUT_LIMIT - length target)) bytes
      else target)"

definition retain_shell_chunk ::
  "(string \<Rightarrow> string) \<Rightarrow> shell_stream \<times> string \<Rightarrow> string \<times> string \<times> (shell_stream \<times> string) list \<Rightarrow>
     string \<times> string \<times> (shell_stream \<times> string) list" where
  "retain_shell_chunk lossy chunk state =
     (let (stream, bytes) = chunk; (out, err, shown) = state in
      case stream of
        Stderr \<Rightarrow> (out, retain_bytes err bytes, shown @ [(stream, lossy bytes)])
      | Stdout \<Rightarrow> (retain_bytes out bytes, err, shown @ [(stream, lossy bytes)]))"

definition bounded_utf8 :: "(string \<Rightarrow> string) \<Rightarrow> string \<Rightarrow> string" where
  "bounded_utf8 lossy bytes =
     lossy (take (min (length bytes) DIRECT_SHELL_OUTPUT_LIMIT) bytes)
     @ (if length bytes > DIRECT_SHELL_OUTPUT_LIMIT then [char_of (10 :: nat)] @ ''[output truncated]'' else [])"

datatype process_end = Exited string | Cancelled_process | Timed_out | Wait_failed string

definition run_direct_shell ::
  "shell_words \<Rightarrow> (string \<Rightarrow> string) \<Rightarrow> string option \<Rightarrow> (string \<Rightarrow> 'w \<Rightarrow> ('w, string, string) outcome) \<Rightarrow>
     (string \<Rightarrow> string \<Rightarrow> 'w \<Rightarrow> ('w, string, (shell_stream \<times> string) list \<times> process_end) outcome) \<Rightarrow>
     string \<Rightarrow> string \<Rightarrow> 'w \<Rightarrow> ('w, string, direct_shell_result) outcome \<times> (shell_stream \<times> string) list" where
  "run_direct_shell sw lossy home validate process command cwd w =
     (if trim command = [] then
        ((Ok \<lparr>ds_cwd = cwd, ds_status = ''empty command'', ds_stdout = [], ds_stderr = []\<rparr>, w), [])
      else case captured_cd_destination sw home command cwd of
        Inl e \<Rightarrow> ((Err e, w), [])
      | Inr (Some next) \<Rightarrow>
          (bind_w (validate next w) (\<lambda>d w.
             (Ok \<lparr>ds_cwd = d, ds_status = ''working directory changed'', ds_stdout = [], ds_stderr = []\<rparr>, w)), [])
      | Inr None \<Rightarrow>
          (case process command cwd w of
             (Inl e, w) \<Rightarrow> ((Err e, w), [])
           | (Inr (chunks, ending), w) \<Rightarrow>
               (let (out, err, shown) = fold (retain_shell_chunk lossy) chunks ([], [], []) in
                case ending of
                  Exited status \<Rightarrow>
                    ((Ok \<lparr>ds_cwd = cwd, ds_status = status, ds_stdout = bounded_utf8 lossy out,
                          ds_stderr = bounded_utf8 lossy err\<rparr>, w), shown)
                | Cancelled_process \<Rightarrow>
                    ((Err ''shell command cancelled; the process group was killed and reaped'', w), shown)
                | Timed_out \<Rightarrow>
                    ((Err ''shell command timed out; the process group was killed and reaped'', w), shown)
                | Wait_failed e \<Rightarrow> ((Err e, w), shown))))"

section \<open>Properties\<close>

definition stream_bytes :: "shell_stream \<Rightarrow> (shell_stream \<times> string) list \<Rightarrow> string" where
  "stream_bytes s chunks = concat (map snd (filter (\<lambda>c. fst c = s) chunks))"

lemma retain_bytes_take:
  "retain_bytes (take DIRECT_SHELL_OUTPUT_LIMIT xs) bytes = take DIRECT_SHELL_OUTPUT_LIMIT (xs @ bytes)"
  by (auto simp: retain_bytes_def min_def)

lemma fold_retain:
  "fold (retain_shell_chunk lossy) chunks
     (take DIRECT_SHELL_OUTPUT_LIMIT out, take DIRECT_SHELL_OUTPUT_LIMIT err, shown)
   = (take DIRECT_SHELL_OUTPUT_LIMIT (out @ stream_bytes Stdout chunks),
      take DIRECT_SHELL_OUTPUT_LIMIT (err @ stream_bytes Stderr chunks),
      shown @ map (\<lambda>(s, b). (s, lossy b)) chunks)"
proof (induction chunks arbitrary: out err shown)
  case Nil
  then show ?case by (simp add: stream_bytes_def)
next
  case (Cons c chunks)
  obtain s b where c: "c = (s, b)" by fastforce
  show ?case
    using Cons [of "if s = Stdout then out @ b else out" "if s = Stderr then err @ b else err" "shown @ [(s, lossy b)]"]
    by (cases s) (simp_all add: c retain_shell_chunk_def retain_bytes_take stream_bytes_def)
qed

text \<open>
  The client sees every chunk of a command's output, and the result retains the first four
  megabytes of each stream; but the result never says that it was cut. The bytes are bounded
  before they reach \<open>bounded_utf8\<close>, so its marker cannot appear: a longer stream is retained
  exactly like its first four megabytes.
\<close>

theorem retained_output_is_never_marked:
  assumes "trim command \<noteq> []" and "captured_cd_destination sw home command cwd = Ok None"
    and "process command cwd w = (Ok (chunks, Exited status), w')"
  shows "run_direct_shell sw lossy home validate process command cwd w =
    ((Ok \<lparr>ds_cwd = cwd, ds_status = status,
          ds_stdout = lossy (take DIRECT_SHELL_OUTPUT_LIMIT (stream_bytes Stdout chunks)),
          ds_stderr = lossy (take DIRECT_SHELL_OUTPUT_LIMIT (stream_bytes Stderr chunks))\<rparr>, w'),
     map (\<lambda>(s, b). (s, lossy b)) chunks)"
proof -
  have "bounded_utf8 lossy (take DIRECT_SHELL_OUTPUT_LIMIT xs) = lossy (take DIRECT_SHELL_OUTPUT_LIMIT xs)" for xs
    by (simp add: bounded_utf8_def min_def)
  then show ?thesis
    using assms fold_retain [of lossy chunks "[]" "[]" "[]"] by (simp add: run_direct_shell_def)
qed

theorem retained_output_is_never_marked_witness:
  "run_direct_shell split_spaces id None (\<lambda>p w. (Ok p, w)) (\<lambda>c d w. (Ok ([(Stdout, ''hi'')], Exited ''0''), w)) ''ls'' ''/'' ()
     = ((Ok \<lparr>ds_cwd = ''/'', ds_status = ''0'', ds_stdout = ''hi'', ds_stderr = []\<rparr>, ()), [(Stdout, ''hi'')])"
proof -
  have t: "trim ''ls'' = ''ls''" by code_simp
  have "captured_cd_destination split_spaces None ''ls'' ''/'' = Ok None"
    by (simp add: captured_cd_destination_def t starts_with_def)
  then show ?thesis
    using retained_output_is_never_marked [of "''ls''" split_spaces None "''/''"
        "\<lambda>c d w. (Ok ([(Stdout, ''hi'')], Exited ''0''), w)" "()" "[(Stdout, ''hi'')]" "''0''" "()" id]
    by (simp add: t stream_bytes_def DIRECT_SHELL_OUTPUT_LIMIT_def)
qed

end
