(* ===== verification/Audit_Log.thy ===== *)
theory Audit_Log
  imports Chat
begin

text \<open>
  The append-only audit log of \<^verbatim>\<open>crates/xshell-audit/src/log.rs\<close> and the data it stores
  (\<^verbatim>\<open>model.rs\<close>): records chained by hashes, checkpoints signed over the chain head, the
  writer that produces them and the verifier that reads a log back.

  The cryptographic libraries and the JSON printer and parser are third-party code: they are the
  fields of an \<open>audit_lib\<close>, and what the crate relies on are the named predicates
  \<open>hex_round_trips\<close>, \<open>signatures_verify\<close>, \<open>json_lines\<close> and \<open>bodies_distinguished\<close>. The clock,
  the random nonces and the outcome of every write come from an \<open>audit_os\<close>, which also holds the
  bytes that reached the two files.
\<close>

section \<open>Data\<close>

type_synonym bytes = string

definition AUDIT_FORMAT_VERSION :: nat where
  "AUDIT_FORMAT_VERSION = 5"

definition MIN_SUPPORTED_AUDIT_FORMAT_VERSION :: nat where
  "MIN_SUPPORTED_AUDIT_FORMAT_VERSION = 1"

definition AUDIT_PROTOCOL_VERSION :: nat where
  "AUDIT_PROTOCOL_VERSION = 6"

record audit_config =
  ac_enabled :: bool
  ac_required :: bool
  ac_socket :: "string option"
  ac_directory :: "string option"
  ac_checkpoint_interval :: nat
  ac_terminal_stream :: bool
  ac_terminal_stream_max_bytes :: nat
  ac_ack_timeout_ms :: nat

definition ack_timeout :: "audit_config \<Rightarrow> nat" where
  "ack_timeout c = max (ac_ack_timeout_ms c) 1"

definition audit_config_default :: audit_config where
  "audit_config_default =
     \<lparr>ac_enabled = False, ac_required = True, ac_socket = None, ac_directory = None,
      ac_checkpoint_interval = 16, ac_terminal_stream = False,
      ac_terminal_stream_max_bytes = 16 * 1024 * 1024, ac_ack_timeout_ms = 5000\<rparr>"

text \<open>
  The constructors carry the prefix \<open>Ev\<close> because the engine has events of the same names. The
  arguments are the fields in the order of the source.
\<close>

datatype audit_event =
    EvSessionStarted string string string string string string string string
  | EvLogicalSessionAttached string string string string string string "bool option"
  | EvLogicalSessionDetached string string string
  | EvInput string string
  | EvWorkingDirectoryChanged string
  | EvModelSwitched string string
  | EvAgentResponse string nat bool "string option" "string option"
  | EvAutoContinued string string
  | EvAgentError string
  | EvToolRequested string string json
  | EvToolDecision string string
  | EvToolResult string string string
  | EvViewOperation string "string option" "string option" "string option" "nat option" string
  | EvShellFinished string string string
  | EvTerminalStream string string nat string nat
  | EvHistoryCompacted string nat nat nat nat nat
  | EvSubagentStarted string string "string list"
  | EvSubagentFinished string string "string option"
  | EvSessionEnded string

record audit_record_body =
  rb_format_version :: nat
  rb_session_id :: string
  rb_sequence :: nat
  rb_timestamp :: nat
  rb_client_uid :: nat
  rb_previous_hash :: string
  rb_event :: audit_event

record audit_record =
  ar_body :: audit_record_body
  ar_record_hash :: string

record checkpoint_body =
  cb_format_version :: nat
  cb_session_id :: string
  cb_checkpoint_sequence :: nat
  cb_previous_checkpoint_hash :: string
  cb_sequence :: nat
  cb_timestamp :: nat
  cb_chain_head :: string
  cb_signing_key_id :: string
  cb_final_checkpoint :: bool

record blinded_witness =
  wc_scheme :: string
  wc_commitment :: string

record audit_checkpoint =
  ck_body :: checkpoint_body
  ck_blinding_nonce :: string
  ck_witness :: blinded_witness
  ck_signature :: string
  ck_checkpoint_hash :: string

datatype audit_log_entry = Record audit_record | Checkpoint audit_checkpoint

section \<open>Libraries\<close>

text \<open>
  \<open>sha2\<close>, \<open>hex\<close>, \<open>ed25519_dalek\<close> and \<open>serde_json\<close>. A key is given by its bytes; \<open>None\<close> from a
  printer or a decoder is its error.
\<close>

record audit_lib =
  al_sha256 :: "bytes \<Rightarrow> bytes"
  al_hex_encode :: "bytes \<Rightarrow> string"
  al_hex_decode :: "string \<Rightarrow> bytes option"
  al_public_key :: "bytes \<Rightarrow> bytes"
  al_sign :: "bytes \<Rightarrow> bytes \<Rightarrow> bytes"
  al_key_valid :: "bytes \<Rightarrow> bool"
  al_signature_valid :: "bytes \<Rightarrow> bool"
  al_verify :: "bytes \<Rightarrow> bytes \<Rightarrow> bytes \<Rightarrow> bool"
  al_record_body_json :: "audit_record_body \<Rightarrow> bytes option"
  al_checkpoint_body_json :: "checkpoint_body \<Rightarrow> bytes option"
  al_checkpoint_json :: "audit_checkpoint \<Rightarrow> bytes option"
  al_entry_json :: "audit_log_entry \<Rightarrow> bytes option"
  al_entry_parse :: "string \<Rightarrow> audit_log_entry option"

definition hex_round_trips :: "audit_lib \<Rightarrow> bool" where
  "hex_round_trips lib \<longleftrightarrow>
     (\<forall>b. al_hex_decode lib (al_hex_encode lib b) = Some b \<and>
          (\<forall>c \<in> set (al_hex_encode lib b). is_ascii_alphanumeric c))"

definition signatures_verify :: "audit_lib \<Rightarrow> bytes \<Rightarrow> bool" where
  "signatures_verify lib key \<longleftrightarrow>
     length (al_public_key lib key) = 32 \<and> al_key_valid lib (al_public_key lib key) \<and>
     (\<forall>m. al_signature_valid lib (al_sign lib key m) \<and>
          al_verify lib (al_public_key lib key) m (al_sign lib key m))"

text \<open>
  An entry prints on one line of valid UTF-8 and parses back to itself. This is asked of the
  entries for given events only, because \<open>serde_json\<close> does not promise it for every float.
\<close>

definition entry_of :: "audit_event set \<Rightarrow> audit_log_entry \<Rightarrow> bool" where
  "entry_of events e =
     (case e of Record rec \<Rightarrow> rb_event (ar_body rec) \<in> events | Checkpoint _ \<Rightarrow> True)"

definition json_lines :: "audit_lib \<Rightarrow> audit_event set \<Rightarrow> bool" where
  "json_lines lib events \<longleftrightarrow>
     (\<forall>e s. entry_of events e \<longrightarrow> al_entry_json lib e = Some s \<longrightarrow>
        line_body s \<and> valid_utf8 s \<and> al_entry_parse lib s = Some e)"

definition bodies_distinguished :: "audit_lib \<Rightarrow> bool" where
  "bodies_distinguished lib \<longleftrightarrow>
     inj (al_hex_encode lib) \<and>
     (\<forall>a b. al_record_body_json lib a \<noteq> None \<longrightarrow>
            al_record_body_json lib a = al_record_body_json lib b \<longrightarrow> a = b)"

section \<open>Hashes and messages\<close>

definition nul :: char where
  "nul = char_of (0 :: nat)"

definition RECORD_DOMAIN :: bytes where
  "RECORD_DOMAIN = ''xshell-audit-record-v1'' @ [nul]"

definition CHECKPOINT_DOMAIN :: bytes where
  "CHECKPOINT_DOMAIN = ''xshell-audit-checkpoint-v1'' @ [nul]"

definition CHECKPOINT_HASH_DOMAIN :: bytes where
  "CHECKPOINT_HASH_DOMAIN = ''xshell-audit-checkpoint-hash-v1'' @ [nul]"

definition WITNESS_DOMAIN :: bytes where
  "WITNESS_DOMAIN = ''xshell-audit-witness-v1'' @ [nul]"

definition hash_record_body :: "audit_lib \<Rightarrow> audit_record_body \<Rightarrow> string option" where
  "hash_record_body lib body =
     map_option (\<lambda>encoded. al_hex_encode lib (al_sha256 lib (RECORD_DOMAIN @ encoded)))
       (al_record_body_json lib body)"

definition witness_commitment :: "audit_lib \<Rightarrow> checkpoint_body \<Rightarrow> bytes \<Rightarrow> string option" where
  "witness_commitment lib body nonce =
     map_option (\<lambda>encoded. al_hex_encode lib (al_sha256 lib (WITNESS_DOMAIN @ encoded @ nonce)))
       (al_checkpoint_body_json lib body)"

definition checkpoint_message :: "audit_lib \<Rightarrow> checkpoint_body \<Rightarrow> string \<Rightarrow> bytes option" where
  "checkpoint_message lib body commitment =
     map_option (\<lambda>encoded. CHECKPOINT_DOMAIN @ encoded @ commitment)
       (al_checkpoint_body_json lib body)"

definition hash_checkpoint :: "audit_lib \<Rightarrow> audit_checkpoint \<Rightarrow> string option" where
  "hash_checkpoint lib ck =
     map_option (\<lambda>encoded. al_hex_encode lib (al_sha256 lib
         (CHECKPOINT_HASH_DOMAIN @ encoded @ ck_blinding_nonce ck @ wc_scheme (ck_witness ck) @
          wc_commitment (ck_witness ck) @ ck_signature ck)))
       (al_checkpoint_body_json lib (ck_body ck))"

definition key_id_of :: "audit_lib \<Rightarrow> bytes \<Rightarrow> string" where
  "key_id_of lib public_bytes = al_hex_encode lib (take 16 (al_sha256 lib public_bytes))"

section \<open>Writer\<close>

text \<open>
  The answers of the operating system, by the number of calls made so far: the clock reading
  (\<open>None\<close> when it is before the epoch or too large), the next nonce, and how many bytes of a write
  reach the file when the write fails (\<open>None\<close> when it succeeds).
\<close>

record audit_os =
  os_clock :: "nat \<Rightarrow> nat option"
  os_nonce :: "nat \<Rightarrow> bytes"
  os_write :: "nat \<Rightarrow> nat option"
  os_calls :: nat
  os_log :: bytes
  os_index :: bytes

record signing_identity =
  si_signing_key :: bytes
  si_key_id :: string

record audit_log_writer =
  lw_format_version :: nat
  lw_session_id :: string
  lw_client_uid :: nat
  lw_sequence :: nat
  lw_chain_head :: string
  lw_checkpoint_interval :: nat
  lw_checkpoint_sequence :: nat
  lw_checkpoint_head :: string
  lw_identity :: signing_identity
  lw_os :: audit_os

datatype audit_error =
    ClockError
  | SerializeError
  | WriteError
  | InsecureDirectory
  | ZeroInterval
  | CannotCreateLog
  | CannotOpenIndex

type_synonym 'a writer_result = "(audit_log_writer, audit_error, 'a) outcome"

definition public_key_hex :: "audit_lib \<Rightarrow> signing_identity \<Rightarrow> string" where
  "public_key_hex lib identity = al_hex_encode lib (al_public_key lib (si_signing_key identity))"

text \<open>
  \<open>SigningIdentity::load_or_create\<close> on the two key files: their contents when they exist, and the
  answer of \<open>validate_key_file\<close> for each. A missing pair is created from a fresh key.
\<close>

record key_files =
  kf_private :: "string option"
  kf_public :: "string option"
  kf_private_valid :: bool
  kf_public_valid :: bool

datatype identity_error =
    KeyDirectoryInsecure
  | KeyPairIncomplete
  | KeyFileInvalid
  | KeyEncodingInvalid
  | KeyLength
  | PublicKeyDiffers

definition load_or_create ::
  "audit_lib \<Rightarrow> bool \<Rightarrow> bytes \<Rightarrow> key_files \<Rightarrow> (identity_error, signing_identity) result \<times> key_files" where
  "load_or_create lib secure fresh files =
     (if \<not> secure then (Err KeyDirectoryInsecure, files)
      else if (kf_private files = None) \<noteq> (kf_public files = None) then (Err KeyPairIncomplete, files)
      else
        let (loaded, files) =
          (case kf_private files of
             Some encoded \<Rightarrow>
               (if \<not> kf_private_valid files then Err KeyFileInvalid
                else and_then (ok_or KeyEncodingInvalid (al_hex_decode lib (trim encoded))) (\<lambda>key.
                  if length key \<noteq> 32 then Err KeyLength else Ok key), files)
           | None \<Rightarrow> (Ok fresh, files\<lparr>kf_private := Some (al_hex_encode lib fresh @ [lf])\<rparr>)) in
        case loaded of
          Inl e \<Rightarrow> (Err e, files)
        | Inr key \<Rightarrow>
            let public_bytes = al_public_key lib key;
                identity = \<lparr>si_signing_key = key, si_key_id = key_id_of lib public_bytes\<rparr> in
            case kf_public files of
              Some existing \<Rightarrow>
                if \<not> kf_public_valid files then (Err KeyFileInvalid, files)
                else if trim existing \<noteq> al_hex_encode lib public_bytes then (Err PublicKeyDiffers, files)
                else (Ok identity, files)
            | None \<Rightarrow> (Ok identity, files\<lparr>kf_public := Some (al_hex_encode lib public_bytes @ [lf])\<rparr>))"

text \<open>The result of the file-system calls of \<open>create_with_format\<close>, in their order.\<close>

record audit_setup =
  se_directory_secure :: bool
  se_uuid :: string
  se_sessions_secure :: bool
  se_log_created :: bool
  se_index_opened :: bool

definition ZERO_HASH :: string where
  "ZERO_HASH = replicate 64 (CHR ''0'')"

definition create_with_format ::
  "audit_setup \<Rightarrow> audit_os \<Rightarrow> signing_identity \<Rightarrow> nat \<Rightarrow> nat \<Rightarrow> nat \<Rightarrow> (audit_error, audit_log_writer) result" where
  "create_with_format se os identity client_uid checkpoint_interval format_version =
     (if \<not> se_directory_secure se then Err InsecureDirectory
      else if checkpoint_interval = 0 then Err ZeroInterval
      else if \<not> se_sessions_secure se then Err InsecureDirectory
      else if \<not> se_log_created se then Err CannotCreateLog
      else if \<not> se_index_opened se then Err CannotOpenIndex
      else Ok \<lparr>lw_format_version = format_version, lw_session_id = se_uuid se,
               lw_client_uid = client_uid, lw_sequence = 0, lw_chain_head = ZERO_HASH,
               lw_checkpoint_interval = checkpoint_interval, lw_checkpoint_sequence = 0,
               lw_checkpoint_head = ZERO_HASH, lw_identity = identity,
               lw_os = os\<lparr>os_log := []\<rparr>\<rparr>)"

definition create ::
  "audit_setup \<Rightarrow> audit_os \<Rightarrow> signing_identity \<Rightarrow> nat \<Rightarrow> nat \<Rightarrow> (audit_error, audit_log_writer) result" where
  "create se os identity client_uid checkpoint_interval =
     create_with_format se os identity client_uid checkpoint_interval AUDIT_FORMAT_VERSION"

definition os_tick :: "audit_os \<Rightarrow> audit_os" where
  "os_tick os = os\<lparr>os_calls := Suc (os_calls os)\<rparr>"

definition unix_timestamp_ms :: "audit_log_writer \<Rightarrow> nat writer_result" where
  "unix_timestamp_ms w =
     (case os_clock (lw_os w) (os_calls (lw_os w)) of None \<Rightarrow> Err ClockError | Some t \<Rightarrow> Ok t,
      w\<lparr>lw_os := os_tick (lw_os w)\<rparr>)"

definition fill_nonce :: "audit_log_writer \<Rightarrow> bytes writer_result" where
  "fill_nonce w = (Ok (os_nonce (lw_os w) (os_calls (lw_os w))), w\<lparr>lw_os := os_tick (lw_os w)\<rparr>)"

definition serialized :: "'a option \<Rightarrow> audit_log_writer \<Rightarrow> 'a writer_result" where
  "serialized r w = (case r of None \<Rightarrow> Err SerializeError | Some x \<Rightarrow> Ok x, w)"

text \<open>
  A write that fails leaves a prefix of the line in the file. The bytes that the buffered writer of the
  source still holds are left out: the service ends the connection after a failed append.
\<close>

definition write_entry :: "audit_lib \<Rightarrow> audit_log_entry \<Rightarrow> audit_log_writer \<Rightarrow> unit writer_result" where
  "write_entry lib e w =
     bind_w (serialized (al_entry_json lib e) w) (\<lambda>line w.
       let os = lw_os w in
       case os_write os (os_calls os) of
         None \<Rightarrow> (Ok (), w\<lparr>lw_os := os_tick (os\<lparr>os_log := os_log os @ line @ [lf]\<rparr>)\<rparr>)
       | Some n \<Rightarrow> (Err WriteError, w\<lparr>lw_os := os_tick (os\<lparr>os_log := os_log os @ take n (line @ [lf])\<rparr>)\<rparr>))"

text \<open>The lock on the index and the write under it succeed or fail together.\<close>

definition append_checkpoint_index :: "audit_lib \<Rightarrow> audit_checkpoint \<Rightarrow> audit_log_writer \<Rightarrow> unit writer_result" where
  "append_checkpoint_index lib ck w =
     bind_w (serialized (al_checkpoint_json lib ck) w) (\<lambda>encoded w.
       let os = lw_os w in
       case os_write os (os_calls os) of
         None \<Rightarrow> (Ok (), w\<lparr>lw_os := os_tick (os\<lparr>os_index := os_index os @ encoded @ [lf]\<rparr>)\<rparr>)
       | Some n \<Rightarrow> (Err WriteError, w\<lparr>lw_os := os_tick (os\<lparr>os_index := os_index os @ take n (encoded @ [lf])\<rparr>)\<rparr>))"

definition WITNESS_SCHEME :: string where
  "WITNESS_SCHEME = ''sha256-blinded-v1''"

definition write_checkpoint :: "audit_lib \<Rightarrow> bool \<Rightarrow> audit_log_writer \<Rightarrow> audit_checkpoint writer_result" where
  "write_checkpoint lib final_checkpoint w =
     (let w = w\<lparr>lw_checkpoint_sequence := Suc (lw_checkpoint_sequence w)\<rparr> in
      bind_w (unix_timestamp_ms w) (\<lambda>now w.
      let body = \<lparr>cb_format_version = lw_format_version w, cb_session_id = lw_session_id w,
                  cb_checkpoint_sequence = lw_checkpoint_sequence w,
                  cb_previous_checkpoint_hash = lw_checkpoint_head w,
                  cb_sequence = lw_sequence w, cb_timestamp = now,
                  cb_chain_head = lw_chain_head w,
                  cb_signing_key_id = si_key_id (lw_identity w),
                  cb_final_checkpoint = final_checkpoint\<rparr> in
      bind_w (fill_nonce w) (\<lambda>nonce w.
      bind_w (serialized (witness_commitment lib body nonce) w) (\<lambda>commitment w.
      bind_w (serialized (checkpoint_message lib body commitment) w) (\<lambda>message w.
      let signature = al_sign lib (si_signing_key (lw_identity w)) message;
          ck = \<lparr>ck_body = body, ck_blinding_nonce = al_hex_encode lib nonce,
                ck_witness = \<lparr>wc_scheme = WITNESS_SCHEME, wc_commitment = commitment\<rparr>,
                ck_signature = al_hex_encode lib signature, ck_checkpoint_hash = []\<rparr> in
      bind_w (serialized (hash_checkpoint lib ck) w) (\<lambda>hash w.
      let ck = ck\<lparr>ck_checkpoint_hash := hash\<rparr> in
      bind_w (write_entry lib (Checkpoint ck) w) (\<lambda>_ w.
      bind_w (append_checkpoint_index lib ck w) (\<lambda>_ w.
        (Ok ck, w\<lparr>lw_checkpoint_head := ck_checkpoint_hash ck\<rparr>)))))))))"

definition append_event :: "audit_lib \<Rightarrow> audit_event \<Rightarrow> audit_log_writer \<Rightarrow> audit_record writer_result" where
  "append_event lib event w =
     (let w = w\<lparr>lw_sequence := Suc (lw_sequence w)\<rparr> in
      bind_w (unix_timestamp_ms w) (\<lambda>now w.
      let body = \<lparr>rb_format_version = lw_format_version w, rb_session_id = lw_session_id w,
                  rb_sequence = lw_sequence w, rb_timestamp = now,
                  rb_client_uid = lw_client_uid w, rb_previous_hash = lw_chain_head w,
                  rb_event = event\<rparr> in
      bind_w (serialized (hash_record_body lib body) w) (\<lambda>record_hash w.
      let rec = \<lparr>ar_body = body, ar_record_hash = record_hash\<rparr> in
      bind_w (write_entry lib (Record rec) w) (\<lambda>_ w.
      let w = w\<lparr>lw_chain_head := record_hash\<rparr> in
      if lw_sequence w mod lw_checkpoint_interval w = 0
      then bind_w (write_checkpoint lib False w) (\<lambda>_ w. (Ok rec, w))
      else (Ok rec, w)))))"

definition close :: "audit_lib \<Rightarrow> audit_log_writer \<Rightarrow> audit_checkpoint writer_result" where
  "close lib w = write_checkpoint lib True w"

section \<open>Verifier\<close>

datatype checkpoint_error =
    InvalidNonce
  | WitnessMismatch
  | CheckpointHashMismatch
  | InvalidSignatureEncoding
  | InvalidSignature
  | SignatureVerificationFailed
  | CheckpointSerialize

datatype verify_error =
    CannotReadPublicKey
  | InvalidPublicKeyEncoding
  | PublicKeyLength
  | InvalidPublicKey
  | CannotOpenLog
  | CannotReadLine nat
  | InvalidEntry nat
  | UnsupportedFormat nat
  | SessionIdChanged nat
  | SequenceGap nat
  | PreviousHashMismatch nat
  | RecordHashMismatch nat
  | RecordSerialize
  | CheckpointStateMismatch nat
  | InvalidCheckpoint nat checkpoint_error
  | NoRecords

record verification_report =
  vr_session_id :: string
  vr_records :: nat
  vr_checkpoints :: nat
  vr_final_checkpoint :: bool
  vr_chain_head :: string

record verify_state =
  vs_session_id :: "string option"
  vs_expected_sequence :: nat
  vs_chain_head :: string
  vs_checkpoints :: nat
  vs_checkpoint_head :: string
  vs_final_checkpoint :: bool

definition verify_init :: verify_state where
  "verify_init = \<lparr>vs_session_id = None, vs_expected_sequence = 1, vs_chain_head = ZERO_HASH,
                  vs_checkpoints = 0, vs_checkpoint_head = ZERO_HASH, vs_final_checkpoint = False\<rparr>"

definition supported_format :: "nat \<Rightarrow> bool" where
  "supported_format version \<longleftrightarrow>
     MIN_SUPPORTED_AUDIT_FORMAT_VERSION \<le> version \<and> version \<le> AUDIT_FORMAT_VERSION"

definition verify_checkpoint :: "audit_lib \<Rightarrow> audit_checkpoint \<Rightarrow> bytes \<Rightarrow> (checkpoint_error, unit) result" where
  "verify_checkpoint lib ck key =
     and_then (ok_or InvalidNonce (al_hex_decode lib (ck_blinding_nonce ck))) (\<lambda>nonce.
     and_then (ok_or CheckpointSerialize (witness_commitment lib (ck_body ck) nonce)) (\<lambda>expected.
     if wc_scheme (ck_witness ck) \<noteq> WITNESS_SCHEME \<or> wc_commitment (ck_witness ck) \<noteq> expected
     then Err WitnessMismatch
     else and_then (ok_or CheckpointSerialize (hash_checkpoint lib ck)) (\<lambda>hash.
     if ck_checkpoint_hash ck \<noteq> hash then Err CheckpointHashMismatch
     else and_then (ok_or InvalidSignatureEncoding (al_hex_decode lib (ck_signature ck))) (\<lambda>signature.
     if \<not> al_signature_valid lib signature then Err InvalidSignature
     else and_then (ok_or CheckpointSerialize
                      (checkpoint_message lib (ck_body ck) (wc_commitment (ck_witness ck)))) (\<lambda>message.
     if al_verify lib key message signature then Ok () else Err SignatureVerificationFailed)))))"

definition verify_record :: "audit_lib \<Rightarrow> nat \<Rightarrow> audit_record \<Rightarrow> verify_state \<Rightarrow> (verify_error, verify_state) result" where
  "verify_record lib n rec vs =
     (let body = ar_body rec in
      if \<not> supported_format (rb_format_version body) then Err (UnsupportedFormat n)
      else if vs_session_id vs \<noteq> None \<and> vs_session_id vs \<noteq> Some (rb_session_id body) then Err (SessionIdChanged n)
      else if rb_sequence body \<noteq> vs_expected_sequence vs then Err (SequenceGap n)
      else if rb_previous_hash body \<noteq> vs_chain_head vs then Err (PreviousHashMismatch n)
      else and_then (ok_or RecordSerialize (hash_record_body lib body)) (\<lambda>calculated.
        if ar_record_hash rec \<noteq> calculated then Err (RecordHashMismatch n)
        else Ok (vs\<lparr>vs_session_id := Some (rb_session_id body), vs_chain_head := calculated,
                    vs_expected_sequence := Suc (vs_expected_sequence vs)\<rparr>)))"

definition verify_checkpoint_entry ::
  "audit_lib \<Rightarrow> bytes \<Rightarrow> string \<Rightarrow> nat \<Rightarrow> audit_checkpoint \<Rightarrow> verify_state \<Rightarrow> (verify_error, verify_state) result" where
  "verify_checkpoint_entry lib key key_id n ck vs =
     (let body = ck_body ck in
      if \<not> supported_format (cb_format_version body) then Err (UnsupportedFormat n)
      else
        let expected_session = (case vs_session_id vs of None \<Rightarrow> cb_session_id body | Some s \<Rightarrow> s) in
        if cb_session_id body \<noteq> expected_session
           \<or> cb_checkpoint_sequence body \<noteq> vs_checkpoints vs + 1
           \<or> cb_previous_checkpoint_hash body \<noteq> vs_checkpoint_head vs
           \<or> cb_sequence body \<noteq> vs_expected_sequence vs - 1
           \<or> cb_chain_head body \<noteq> vs_chain_head vs
           \<or> cb_signing_key_id body \<noteq> key_id
        then Err (CheckpointStateMismatch n)
        else case verify_checkpoint lib ck key of
               Inl e \<Rightarrow> Err (InvalidCheckpoint n e)
             | Inr _ \<Rightarrow> Ok (vs\<lparr>vs_session_id := Some expected_session,
                              vs_checkpoint_head := ck_checkpoint_hash ck,
                              vs_checkpoints := vs_checkpoints vs + 1,
                              vs_final_checkpoint := cb_final_checkpoint body\<rparr>))"

definition verify_entry ::
  "audit_lib \<Rightarrow> bytes \<Rightarrow> string \<Rightarrow> nat \<Rightarrow> audit_log_entry \<Rightarrow> verify_state \<Rightarrow> (verify_error, verify_state) result" where
  "verify_entry lib key key_id n e vs =
     (case e of
        Record rec \<Rightarrow> verify_record lib n rec vs
      | Checkpoint ck \<Rightarrow> verify_checkpoint_entry lib key key_id n ck vs)"

text \<open>The loop over the lines; \<open>n\<close> is \<open>line_number + 1\<close>.\<close>

fun verify_lines ::
  "audit_lib \<Rightarrow> bytes \<Rightarrow> string \<Rightarrow> nat \<Rightarrow> string list \<Rightarrow> verify_state \<Rightarrow> (verify_error, verify_state) result" where
  "verify_lines lib key key_id n [] vs = Ok vs"
| "verify_lines lib key key_id n (line # ls) vs =
     (if \<not> valid_utf8 line then Err (CannotReadLine n)
      else and_then (ok_or (InvalidEntry n) (al_entry_parse lib line)) (\<lambda>e.
        and_then (verify_entry lib key key_id n e vs) (\<lambda>vs.
          verify_lines lib key key_id (Suc n) ls vs)))"

definition verify_log ::
  "audit_lib \<Rightarrow> bytes option \<Rightarrow> string option \<Rightarrow> (verify_error, verification_report) result" where
  "verify_log lib log_file key_file =
     and_then (ok_or CannotReadPublicKey key_file) (\<lambda>public_hex.
     and_then (ok_or InvalidPublicKeyEncoding (al_hex_decode lib (trim public_hex))) (\<lambda>public_bytes.
     if length public_bytes \<noteq> 32 then Err PublicKeyLength
     else if \<not> al_key_valid lib public_bytes then Err InvalidPublicKey
     else and_then (ok_or CannotOpenLog log_file) (\<lambda>contents.
     and_then (verify_lines lib public_bytes (key_id_of lib public_bytes) 1 (str_lines contents) verify_init) (\<lambda>vs.
     and_then (ok_or NoRecords (vs_session_id vs)) (\<lambda>session_id.
       Ok \<lparr>vr_session_id = session_id, vr_records = vs_expected_sequence vs - 1,
           vr_checkpoints = vs_checkpoints vs, vr_final_checkpoint = vs_final_checkpoint vs,
           vr_chain_head = vs_chain_head vs\<rparr>)))))"

section \<open>Signing identity\<close>

lemma is_ascii_alphanumeric_ws_free: "is_ascii_alphanumeric c \<Longrightarrow> ws_free c"
  by (rule ws_free_graph)
     (auto simp: is_ascii_alphanumeric_def is_ascii_digit_def is_ascii_alphabetic_def)

lemma trim_hex_line:
  assumes "hex_round_trips lib"
  shows "trim (al_hex_encode lib b @ [lf]) = al_hex_encode lib b"
  using assms by (intro trim_line) (auto simp: hex_round_trips_def is_ascii_alphanumeric_ws_free)

section \<open>Chains of records\<close>

fun records_of :: "audit_log_entry list \<Rightarrow> audit_record list" where
  "records_of [] = []"
| "records_of (Record r # es) = r # records_of es"
| "records_of (Checkpoint _ # es) = records_of es"

lemma records_of_append [simp]: "records_of (xs @ ys) = records_of xs @ records_of ys"
  by (induction xs rule: records_of.induct) auto

fun chained :: "audit_lib \<Rightarrow> string \<Rightarrow> audit_record list \<Rightarrow> string \<Rightarrow> bool" where
  "chained lib prev [] head \<longleftrightarrow> head = prev"
| "chained lib prev (r # rs) head \<longleftrightarrow>
     rb_previous_hash (ar_body r) = prev \<and> hash_record_body lib (ar_body r) = Some (ar_record_hash r) \<and>
     chained lib (ar_record_hash r) rs head"

lemma chained_snoc [simp]:
  "chained lib prev (rs @ [r]) head \<longleftrightarrow>
     chained lib prev rs (rb_previous_hash (ar_body r)) \<and>
     hash_record_body lib (ar_body r) = Some (ar_record_hash r) \<and> head = ar_record_hash r"
  by (induction rs arbitrary: prev) auto

text \<open>
  Two bodies that print differently and have one digest, and two lists of records with such bodies at
  the same place: what a forgery of the chain has to produce.
\<close>

definition bodies_collide :: "audit_lib \<Rightarrow> audit_record_body \<Rightarrow> audit_record_body \<Rightarrow> bool" where
  "bodies_collide lib a b \<longleftrightarrow>
     (\<exists>x y. al_record_body_json lib a = Some x \<and> al_record_body_json lib b = Some y \<and> x \<noteq> y \<and>
        al_sha256 lib (RECORD_DOMAIN @ x) = al_sha256 lib (RECORD_DOMAIN @ y))"

definition records_collide :: "audit_lib \<Rightarrow> audit_record list \<Rightarrow> audit_record list \<Rightarrow> bool" where
  "records_collide lib rs rs' \<longleftrightarrow> list_ex (\<lambda>(r, s). bodies_collide lib (ar_body r) (ar_body s)) (zip rs rs')"

lemma hash_record_body_inj:
  assumes "bodies_distinguished lib" "hash_record_body lib a = Some h" "hash_record_body lib b = Some h"
  shows "a = b \<or> bodies_collide lib a b"
proof -
  from assms obtain x y where xy: "al_record_body_json lib a = Some x" "al_record_body_json lib b = Some y"
    and "al_hex_encode lib (al_sha256 lib (RECORD_DOMAIN @ x)) = al_hex_encode lib (al_sha256 lib (RECORD_DOMAIN @ y))"
    by (auto simp: hash_record_body_def)
  with assms(1) have "al_sha256 lib (RECORD_DOMAIN @ x) = al_sha256 lib (RECORD_DOMAIN @ y)"
    by (auto simp: bodies_distinguished_def dest: injD)
  moreover have "a = b" if "x = y" using that xy assms(1) by (auto simp: bodies_distinguished_def)
  ultimately show ?thesis using xy unfolding bodies_collide_def by blast
qed

lemma chained_unique:
  assumes "bodies_distinguished lib" "length rs = length rs'" "chained lib prev rs head" "chained lib prev rs' head"
  shows "rs = rs' \<or> records_collide lib rs rs'"
  using assms(2-)
proof (induction rs arbitrary: rs' head rule: rev_induct)
  case Nil
  then show ?case by simp
next
  case (snoc r rs)
  then obtain s ss where rs': "rs' = ss @ [s]" "length ss = length rs"
    by (cases rs' rule: rev_cases) auto
  with snoc.prems have h: "hash_record_body lib (ar_body r) = Some head" "hash_record_body lib (ar_body s) = Some head"
    and heads: "ar_record_hash r = head" "ar_record_hash s = head"
    by auto
  have zipped: "records_collide lib (rs @ [r]) (ss @ [s]) \<longleftrightarrow> records_collide lib rs ss \<or> bodies_collide lib (ar_body r) (ar_body s)"
    using rs'(2) by (simp add: records_collide_def)
  show ?case
  proof (cases "bodies_collide lib (ar_body r) (ar_body s)")
    case False
    with hash_record_body_inj [OF assms(1) h] have body: "ar_body r = ar_body s" by simp
    with snoc.prems rs' have "rs = ss \<or> records_collide lib rs ss"
      by (intro snoc.IH) auto
    with body heads rs'(1) zipped show ?thesis by (cases r; cases s) auto
  qed (simp add: rs'(1) zipped)
qed

section \<open>Verification over parsed entries\<close>

fun verify_entries ::
  "audit_lib \<Rightarrow> bytes \<Rightarrow> string \<Rightarrow> nat \<Rightarrow> audit_log_entry list \<Rightarrow> verify_state \<Rightarrow> (verify_error, verify_state) result" where
  "verify_entries lib key key_id n [] vs = Ok vs"
| "verify_entries lib key key_id n (e # es) vs =
     and_then (verify_entry lib key key_id n e vs) (\<lambda>vs. verify_entries lib key key_id (Suc n) es vs)"

definition log_entries :: "audit_lib \<Rightarrow> bytes \<Rightarrow> audit_log_entry list option" where
  "log_entries lib contents = those (map (al_entry_parse lib) (str_lines contents))"

lemma verify_entries_append:
  "verify_entries lib key kid n (es @ fs) vs =
     and_then (verify_entries lib key kid n es vs) (\<lambda>vs. verify_entries lib key kid (n + length es) fs vs)"
proof (induction es arbitrary: n vs)
  case (Cons e es)
  then show ?case by (cases "verify_entry lib key kid n e vs") simp_all
qed simp

lemma verify_lines_Ok:
  "verify_lines lib key kid n ls vs = Ok vs' \<longleftrightarrow>
     (\<forall>l \<in> set ls. valid_utf8 l) \<and>
     (\<exists>es. those (map (al_entry_parse lib) ls) = Some es \<and> verify_entries lib key kid n es vs = Ok vs')"
proof (induction ls arbitrary: n vs)
  case (Cons l ls)
  show ?case
  proof (cases "al_entry_parse lib l")
    case (Some e)
    then show ?thesis
      using Cons by (cases "verify_entry lib key kid n e vs") auto
  qed simp
qed simp

lemma verify_entry_chain:
  assumes "verify_entry lib key kid n e vs = Ok vs'"
  shows "chained lib (vs_chain_head vs) (records_of [e]) (vs_chain_head vs') \<and>
         vs_expected_sequence vs' = vs_expected_sequence vs + length (records_of [e])"
  using assms
  by (cases e) (auto simp: verify_entry_def verify_record_def verify_checkpoint_entry_def Let_def
                     split: if_splits sum.splits)

lemma chained_append:
  "chained lib a rs b \<Longrightarrow> chained lib b ss c \<Longrightarrow> chained lib a (rs @ ss) c"
  by (induction rs arbitrary: a) auto

lemma verify_entries_chain:
  assumes "verify_entries lib key kid n es vs = Ok vs'"
  shows "chained lib (vs_chain_head vs) (records_of es) (vs_chain_head vs') \<and>
         vs_expected_sequence vs' = vs_expected_sequence vs + length (records_of es)"
  using assms
proof (induction es arbitrary: n vs)
  case (Cons e es)
  then obtain vs1 where "verify_entry lib key kid n e vs = Ok vs1"
    and "verify_entries lib key kid (Suc n) es vs1 = Ok vs'" by auto
  moreover have "records_of (e # es) = records_of [e] @ records_of es"
    using records_of_append [of "[e]" es] by simp
  ultimately show ?case
    using Cons.IH [of "Suc n" vs1] verify_entry_chain [of lib key kid n e vs vs1]
    by (auto intro: chained_append)
qed simp

lemma verify_log_entries:
  assumes "verify_log lib (Some c) (Some k) = Ok r"
  shows "\<exists>key es vs. al_hex_decode lib (trim k) = Some key \<and> log_entries lib c = Some es \<and>
           verify_entries lib key (key_id_of lib key) 1 es verify_init = Ok vs \<and>
           vr_session_id r = the (vs_session_id vs) \<and> vr_records r = vs_expected_sequence vs - 1 \<and>
           vr_checkpoints r = vs_checkpoints vs \<and> vr_final_checkpoint r = vs_final_checkpoint vs \<and>
           vr_chain_head r = vs_chain_head vs"
  using assms
  by (auto simp: verify_log_def verify_lines_Ok log_entries_def split: if_splits)

lemma verify_checkpoint_signed:
  assumes "verify_checkpoint lib ck key = Ok ()"
  shows "\<exists>message signature. checkpoint_message lib (ck_body ck) (wc_commitment (ck_witness ck)) = Some message \<and>
           al_hex_decode lib (ck_signature ck) = Some signature \<and> al_verify lib key message signature"
  using assms by (auto simp: verify_checkpoint_def split: if_splits)

lemma verified_checkpoint_at:
  assumes "verify_log lib (Some c) (Some k) = Ok r"
    and "log_entries lib c = Some (es @ Checkpoint ck # rest)"
  obtains key where "al_hex_decode lib (trim k) = Some key"
    and "verify_checkpoint lib ck key = Ok ()"
    and "cb_sequence (ck_body ck) = length (records_of es)"
    and "chained lib ZERO_HASH (records_of es) (cb_chain_head (ck_body ck))"
    and "cb_signing_key_id (ck_body ck) = key_id_of lib key"
proof -
  from verify_log_entries [OF assms(1)] assms(2) obtain key vs where key: "al_hex_decode lib (trim k) = Some key"
    and "verify_entries lib key (key_id_of lib key) 1 (es @ Checkpoint ck # rest) verify_init = Ok vs"
    by auto
  then obtain vs1 vs2 where es: "verify_entries lib key (key_id_of lib key) 1 es verify_init = Ok vs1"
    and ck: "verify_entry lib key (key_id_of lib key) (1 + length es) (Checkpoint ck) vs1 = Ok vs2"
    by (auto simp: verify_entries_append)
  from verify_entries_chain [OF es] have "chained lib ZERO_HASH (records_of es) (vs_chain_head vs1)"
    and "vs_expected_sequence vs1 - 1 = length (records_of es)"
    by (auto simp: verify_init_def)
  with ck key show ?thesis
    by (intro that [of key])
       (auto simp: verify_entry_def verify_checkpoint_entry_def Let_def split: if_splits sum.splits)
qed

section \<open>What the writer leaves in the log\<close>

definition log_holds :: "audit_lib \<Rightarrow> audit_log_entry list \<Rightarrow> audit_log_writer \<Rightarrow> bool" where
  "log_holds lib es w \<longleftrightarrow>
     (\<exists>ls. list_all2 (\<lambda>e l. al_entry_json lib e = Some l) es ls \<and>
           os_log (lw_os w) = concat (map (\<lambda>l. l @ [lf]) ls))"

lemma log_holds_snoc:
  assumes "log_holds lib es w" "al_entry_json lib e = Some line" "os_log (lw_os w') = os_log (lw_os w) @ line @ [lf]"
  shows "log_holds lib (es @ [e]) w'"
proof -
  from assms(1) obtain ls where "list_all2 (\<lambda>e l. al_entry_json lib e = Some l) es ls"
    "os_log (lw_os w) = concat (map (\<lambda>l. l @ [lf]) ls)" by (auto simp: log_holds_def)
  with assms(2,3) show ?thesis
    unfolding log_holds_def by (intro exI [of _ "ls @ [line]"]) (auto intro: list_all2_appendI)
qed

lemma log_holds_cong: "os_log (lw_os w) = os_log (lw_os w') \<Longrightarrow> log_holds lib es w = log_holds lib es w'"
  by (simp add: log_holds_def)

lemma serialized_Ok [simp]: "serialized r w = (Inr x, w') \<longleftrightarrow> r = Some x \<and> w' = w"
  by (auto simp: serialized_def split: option.splits)

lemma write_entry_Ok:
  "write_entry lib e w = (Inr u, w') \<longleftrightarrow>
     (\<exists>line. al_entry_json lib e = Some line \<and> os_write (lw_os w) (os_calls (lw_os w)) = None \<and>
        w' = w\<lparr>lw_os := os_tick ((lw_os w)\<lparr>os_log := os_log (lw_os w) @ line @ [lf]\<rparr>)\<rparr>)"
  by (auto simp: write_entry_def bind_w_Ok Let_def split: option.splits)

lemma append_checkpoint_index_Ok:
  assumes "append_checkpoint_index lib ck w = (Inr u, w')"
  shows "\<exists>os. w' = w\<lparr>lw_os := os\<rparr> \<and> os_log os = os_log (lw_os w)"
  using assms
  by (auto simp: append_checkpoint_index_def bind_w_Ok Let_def os_tick_def split: option.splits)

lemma unix_timestamp_Ok:
  assumes "unix_timestamp_ms w = (Inr t, w')"
  shows "w' = w\<lparr>lw_os := os_tick (lw_os w)\<rparr>"
  using assms by (auto simp: unix_timestamp_ms_def split: option.splits)

definition checkpoint_body_of :: "audit_log_writer \<Rightarrow> nat \<Rightarrow> bool \<Rightarrow> checkpoint_body" where
  "checkpoint_body_of w now final =
     \<lparr>cb_format_version = lw_format_version w, cb_session_id = lw_session_id w,
      cb_checkpoint_sequence = Suc (lw_checkpoint_sequence w),
      cb_previous_checkpoint_hash = lw_checkpoint_head w, cb_sequence = lw_sequence w,
      cb_timestamp = now, cb_chain_head = lw_chain_head w,
      cb_signing_key_id = si_key_id (lw_identity w), cb_final_checkpoint = final\<rparr>"

definition signed_checkpoint :: "audit_lib \<Rightarrow> bytes \<Rightarrow> checkpoint_body \<Rightarrow> audit_checkpoint \<Rightarrow> bool" where
  "signed_checkpoint lib key body ck \<longleftrightarrow>
     (\<exists>nonce commitment message.
        witness_commitment lib body nonce = Some commitment \<and>
        checkpoint_message lib body commitment = Some message \<and>
        hash_checkpoint lib ck = Some (ck_checkpoint_hash ck) \<and>
        ck_body ck = body \<and> ck_blinding_nonce ck = al_hex_encode lib nonce \<and>
        ck_witness ck = \<lparr>wc_scheme = WITNESS_SCHEME, wc_commitment = commitment\<rparr> \<and>
        ck_signature ck = al_hex_encode lib (al_sign lib key message))"

lemma signed_checkpoint_verifies:
  assumes "hex_round_trips lib" "signatures_verify lib key" "signed_checkpoint lib key body ck"
  shows "verify_checkpoint lib ck (al_public_key lib key) = Ok ()"
  using assms
  by (auto simp: signed_checkpoint_def verify_checkpoint_def hex_round_trips_def signatures_verify_def
           simp del: and_then_eq_Ok)

lemma signed_checkpointI:
  assumes "witness_commitment lib body nonce = Some commitment"
    and "checkpoint_message lib body commitment = Some message"
    and "hash_checkpoint lib \<lparr>ck_body = body, ck_blinding_nonce = al_hex_encode lib nonce,
           ck_witness = \<lparr>wc_scheme = WITNESS_SCHEME, wc_commitment = commitment\<rparr>,
           ck_signature = al_hex_encode lib (al_sign lib key message), ck_checkpoint_hash = []\<rparr> = Some hash"
  shows "signed_checkpoint lib key body \<lparr>ck_body = body, ck_blinding_nonce = al_hex_encode lib nonce,
           ck_witness = \<lparr>wc_scheme = WITNESS_SCHEME, wc_commitment = commitment\<rparr>,
           ck_signature = al_hex_encode lib (al_sign lib key message), ck_checkpoint_hash = hash\<rparr>"
  unfolding signed_checkpoint_def using assms
  by (intro exI [of _ nonce] exI [of _ commitment] exI [of _ message]) (simp add: hash_checkpoint_def)

lemma write_checkpoint_Ok:
  assumes "write_checkpoint lib final w = (Inr ck, w')"
  shows "\<exists>now line os. signed_checkpoint lib (si_signing_key (lw_identity w)) (checkpoint_body_of w now final) ck \<and>
           al_entry_json lib (Checkpoint ck) = Some line \<and>
           os_log os = os_log (lw_os w) @ line @ [lf] \<and>
           w' = w\<lparr>lw_checkpoint_sequence := Suc (lw_checkpoint_sequence w),
                  lw_os := os, lw_checkpoint_head := ck_checkpoint_hash ck\<rparr>"
  using assms
  by (auto simp: write_checkpoint_def Let_def bind_w_Ok fill_nonce_def write_entry_Ok
                 checkpoint_body_of_def os_tick_def
           dest!: unix_timestamp_Ok append_checkpoint_index_Ok)
     (rule exI, rule signed_checkpointI, assumption+)

text \<open>The state of a verifier that has read everything the writer wrote.\<close>

definition in_step :: "audit_log_writer \<Rightarrow> verify_state \<Rightarrow> bool" where
  "in_step w vs \<longleftrightarrow>
     vs_session_id vs \<in> {None, Some (lw_session_id w)} \<and>
     vs_expected_sequence vs = Suc (lw_sequence w) \<and> vs_chain_head vs = lw_chain_head w \<and>
     vs_checkpoints vs = lw_checkpoint_sequence w \<and> vs_checkpoint_head vs = lw_checkpoint_head w"

definition writer_valid :: "audit_lib \<Rightarrow> bytes \<Rightarrow> audit_log_writer \<Rightarrow> bool" where
  "writer_valid lib key w \<longleftrightarrow>
     supported_format (lw_format_version w) \<and> 0 < lw_checkpoint_interval w \<and>
     lw_identity w = \<lparr>si_signing_key = key, si_key_id = key_id_of lib (al_public_key lib key)\<rparr>"

definition verified_writer ::
  "audit_lib \<Rightarrow> bytes \<Rightarrow> audit_event set \<Rightarrow> audit_log_writer \<Rightarrow> audit_log_entry list \<Rightarrow> verify_state \<Rightarrow> bool" where
  "verified_writer lib key events w es vs \<longleftrightarrow>
     writer_valid lib key w \<and> log_holds lib es w \<and> (\<forall>e \<in> set es. entry_of events e) \<and>
     verify_entries lib (al_public_key lib key) (key_id_of lib (al_public_key lib key)) 1 es verify_init = Ok vs \<and>
     in_step w vs"

lemma write_checkpoint_verified:
  assumes laws: "hex_round_trips lib" "signatures_verify lib key"
    and w: "verified_writer lib key events w es vs"
    and run: "write_checkpoint lib final w = (Inr ck, w')"
  shows "\<exists>vs'. verified_writer lib key events w' (es @ [Checkpoint ck]) vs' \<and>
           vs_final_checkpoint vs' = final \<and> vs_session_id vs' = Some (lw_session_id w)"
proof -
  from write_checkpoint_Ok [OF run] w obtain now line os
    where ck: "signed_checkpoint lib key (checkpoint_body_of w now final) ck"
      and line: "al_entry_json lib (Checkpoint ck) = Some line" "os_log os = os_log (lw_os w) @ line @ [lf]"
      and w': "w' = w\<lparr>lw_checkpoint_sequence := Suc (lw_checkpoint_sequence w),
                  lw_os := os, lw_checkpoint_head := ck_checkpoint_hash ck\<rparr>"
    by (auto simp: verified_writer_def writer_valid_def)
  let ?pub = "al_public_key lib key"
  define vs' where "vs' = vs\<lparr>vs_session_id := Some (lw_session_id w), vs_checkpoint_head := ck_checkpoint_hash ck,
                              vs_checkpoints := vs_checkpoints vs + 1, vs_final_checkpoint := final\<rparr>"
  have "verify_entry lib ?pub (key_id_of lib ?pub) n (Checkpoint ck) vs = Ok vs'" for n
    using w signed_checkpoint_verifies [OF laws ck] ck
    by (auto simp: verify_entry_def verify_checkpoint_entry_def Let_def verified_writer_def writer_valid_def
                   in_step_def signed_checkpoint_def checkpoint_body_of_def vs'_def)
  moreover have "log_holds lib (es @ [Checkpoint ck]) w'"
    using w line w' by (intro log_holds_snoc [of lib es w]) (auto simp: verified_writer_def)
  ultimately show ?thesis
    using w w'
    by (intro exI [of _ vs'])
       (auto simp: verified_writer_def verify_entries_append writer_valid_def in_step_def vs'_def entry_of_def)
qed

lemma write_record_verified:
  assumes w: "verified_writer lib key events w es vs" and event: "event \<in> events"
    and hash: "hash_record_body lib (ar_body rec) = Some (ar_record_hash rec)"
    and body: "ar_body rec = \<lparr>rb_format_version = lw_format_version w, rb_session_id = lw_session_id w,
                 rb_sequence = Suc (lw_sequence w), rb_timestamp = now, rb_client_uid = uid,
                 rb_previous_hash = lw_chain_head w, rb_event = event\<rparr>"
    and line: "al_entry_json lib (Record rec) = Some line" "os_log os = os_log (lw_os w) @ line @ [lf]"
    and w': "w' = w\<lparr>lw_sequence := Suc (lw_sequence w), lw_os := os, lw_chain_head := ar_record_hash rec\<rparr>"
  shows "\<exists>vs'. verified_writer lib key events w' (es @ [Record rec]) vs'"
proof -
  let ?pub = "al_public_key lib key"
  define vs' where "vs' = vs\<lparr>vs_session_id := Some (lw_session_id w), vs_chain_head := ar_record_hash rec,
                              vs_expected_sequence := Suc (vs_expected_sequence vs)\<rparr>"
  have "verify_entry lib ?pub (key_id_of lib ?pub) n (Record rec) vs = Ok vs'" for n
    using w hash body
    by (auto simp: verify_entry_def verify_record_def Let_def verified_writer_def writer_valid_def in_step_def vs'_def)
  moreover have "log_holds lib (es @ [Record rec]) w'"
    using w line w' by (intro log_holds_snoc [of lib es w]) (auto simp: verified_writer_def)
  ultimately show ?thesis
    using w w' event body
    by (intro exI [of _ vs'])
       (auto simp: verified_writer_def verify_entries_append writer_valid_def in_step_def vs'_def entry_of_def)
qed

lemma append_Ok:
  assumes run: "append_event lib event w = (Inr rec, w')"
  shows "\<exists>now line os. hash_record_body lib (ar_body rec) = Some (ar_record_hash rec) \<and>
           ar_body rec = \<lparr>rb_format_version = lw_format_version w, rb_session_id = lw_session_id w,
                 rb_sequence = Suc (lw_sequence w), rb_timestamp = now, rb_client_uid = lw_client_uid w,
                 rb_previous_hash = lw_chain_head w, rb_event = event\<rparr> \<and>
           al_entry_json lib (Record rec) = Some line \<and> os_log os = os_log (lw_os w) @ line @ [lf] \<and>
           (let w1 = w\<lparr>lw_sequence := Suc (lw_sequence w), lw_os := os, lw_chain_head := ar_record_hash rec\<rparr> in
            if Suc (lw_sequence w) mod lw_checkpoint_interval w = 0
            then \<exists>ck. write_checkpoint lib False w1 = (Inr ck, w') else w' = w1)"
proof (cases "Suc (lw_sequence w) mod lw_checkpoint_interval w = 0")
  case True
  with run show ?thesis
    by (clarsimp simp: append_event_def Let_def bind_w_Ok write_entry_Ok os_tick_def dest!: unix_timestamp_Ok)
       (intro exI conjI refl; (assumption | simp))
next
  case False
  with run show ?thesis
    by (clarsimp simp: append_event_def Let_def bind_w_Ok write_entry_Ok os_tick_def dest!: unix_timestamp_Ok)
       (intro exI conjI refl; (assumption | simp))
qed

lemma append_verified:
  assumes laws: "hex_round_trips lib" "signatures_verify lib key"
    and w: "verified_writer lib key events w es vs" and event: "event \<in> events"
    and run: "append_event lib event w = (Inr rec, w')"
  shows "\<exists>es' vs'. verified_writer lib key events w' (es @ Record rec # es') vs' \<and> records_of es' = [] \<and>
           rb_event (ar_body rec) = event \<and>
           lw_session_id w' = lw_session_id w \<and> lw_checkpoint_interval w' = lw_checkpoint_interval w \<and>
           lw_sequence w' = Suc (lw_sequence w) \<and>
           lw_checkpoint_sequence w' = lw_checkpoint_sequence w + (if Suc (lw_sequence w) mod lw_checkpoint_interval w = 0 then 1 else 0)"
proof -
  from run obtain now line os w1
    where hash: "hash_record_body lib (ar_body rec) = Some (ar_record_hash rec)"
    and body: "ar_body rec = \<lparr>rb_format_version = lw_format_version w, rb_session_id = lw_session_id w,
                 rb_sequence = Suc (lw_sequence w), rb_timestamp = now, rb_client_uid = lw_client_uid w,
                 rb_previous_hash = lw_chain_head w, rb_event = event\<rparr>"
    and line: "al_entry_json lib (Record rec) = Some line" "os_log os = os_log (lw_os w) @ line @ [lf]"
    and w1: "w1 = w\<lparr>lw_sequence := Suc (lw_sequence w), lw_os := os, lw_chain_head := ar_record_hash rec\<rparr>"
    and rest: "if lw_sequence w1 mod lw_checkpoint_interval w1 = 0
               then \<exists>ck. write_checkpoint lib False w1 = (Inr ck, w') else w' = w1"
    unfolding Let_def using append_Ok [OF run] by (auto simp: Let_def split: if_splits)
  from write_record_verified [OF w event hash body line w1] obtain vs1
    where v1: "verified_writer lib key events w1 (es @ [Record rec]) vs1" ..
  show ?thesis
  proof (cases "lw_sequence w1 mod lw_checkpoint_interval w1 = 0")
    case True
    with rest obtain ck where ck: "write_checkpoint lib False w1 = (Inr ck, w')" by auto
    from write_checkpoint_verified [OF laws v1 ck] obtain vs'
      where "verified_writer lib key events w' (es @ Record rec # [Checkpoint ck]) vs'" by auto
    with write_checkpoint_Ok [OF ck] True w1 body show ?thesis
      by (intro exI [of _ "[Checkpoint ck]"] exI [of _ vs']) auto
  next
    case False
    with rest v1 w1 body show ?thesis
      by (intro exI [of _ "[]"] exI [of _ vs1]) auto
  qed
qed

fun append_all :: "audit_lib \<Rightarrow> audit_event list \<Rightarrow> audit_log_writer \<Rightarrow> audit_record list writer_result" where
  "append_all lib [] w = (Ok [], w)"
| "append_all lib (event # events) w =
     bind_w (append_event lib event w) (\<lambda>rec w.
     bind_w (append_all lib events w) (\<lambda>recs w. (Ok (rec # recs), w)))"

lemma append_all_verified:
  assumes laws: "hex_round_trips lib" "signatures_verify lib key"
    and w: "verified_writer lib key all w es vs" and events: "set events \<subseteq> all"
    and run: "append_all lib events w = (Inr recs, w')"
    and count: "lw_checkpoint_sequence w = lw_sequence w div lw_checkpoint_interval w"
  shows "\<exists>es' vs'. verified_writer lib key all w' (es @ es') vs' \<and> records_of es' = recs \<and>
           map (rb_event \<circ> ar_body) recs = events \<and>
           lw_session_id w' = lw_session_id w \<and> lw_checkpoint_interval w' = lw_checkpoint_interval w \<and>
           lw_sequence w' = lw_sequence w + length events \<and>
           lw_checkpoint_sequence w' = lw_sequence w' div lw_checkpoint_interval w'"
  using w events run count
proof (induction events arbitrary: w es vs recs)
  case Nil
  then show ?case by (intro exI [of _ "[]"] exI [of _ vs]) auto
next
  case (Cons event events)
  from Cons.prems(3) obtain rec w1 rs where run1: "append_event lib event w = (Inr rec, w1)"
    and run2: "append_all lib events w1 = (Inr rs, w')" and recs: "recs = rec # rs"
    by (auto simp: bind_w_Ok)
  from append_verified [OF laws Cons.prems(1) _ run1] Cons.prems(2) obtain es1 vs1
    where v1: "verified_writer lib key all w1 (es @ Record rec # es1) vs1" and "records_of es1 = []"
      and "rb_event (ar_body rec) = event" "lw_session_id w1 = lw_session_id w"
      and w1: "lw_checkpoint_interval w1 = lw_checkpoint_interval w" "lw_sequence w1 = Suc (lw_sequence w)"
        "lw_checkpoint_sequence w1 = lw_checkpoint_sequence w +
           (if Suc (lw_sequence w) mod lw_checkpoint_interval w = 0 then 1 else 0)"
    by auto
  moreover have "lw_checkpoint_sequence w1 = lw_sequence w1 div lw_checkpoint_interval w1"
    using w1 Cons.prems(4) by (simp add: div_Suc)
  with Cons.IH [OF v1 _ run2] Cons.prems(2) obtain es2 vs2
    where "verified_writer lib key all w' ((es @ Record rec # es1) @ es2) vs2" "records_of es2 = rs"
      "map (rb_event \<circ> ar_body) rs = events" "lw_session_id w' = lw_session_id w1"
      "lw_checkpoint_interval w' = lw_checkpoint_interval w1"
      "lw_sequence w' = lw_sequence w1 + length events"
      "lw_checkpoint_sequence w' = lw_sequence w' div lw_checkpoint_interval w'"
    by auto
  ultimately show ?case
    using recs by (intro exI [of _ "Record rec # es1 @ es2"] exI [of _ vs2]) auto
qed

lemma log_holds_lines:
  assumes "json_lines lib events" "log_holds lib es w" "\<forall>e \<in> set es. entry_of events e"
  shows "log_entries lib (os_log (lw_os w)) = Some es \<and> (\<forall>l \<in> set (str_lines (os_log (lw_os w))). valid_utf8 l)"
proof -
  from assms(2) obtain ls where ls: "list_all2 (\<lambda>e l. al_entry_json lib e = Some l) es ls"
    and log: "os_log (lw_os w) = concat (map (\<lambda>l. l @ [lf]) ls)"
    by (auto simp: log_holds_def)
  from ls assms(1,3) have props: "(\<forall>l \<in> set ls. line_body l \<and> valid_utf8 l) \<and>
      those (map (al_entry_parse lib) ls) = Some es"
  proof (induction rule: list_all2_induct)
    case (Cons e es l ls)
    from Cons have "entry_of events e" by simp
    with Cons.hyps(1) assms(1) have "line_body l \<and> valid_utf8 l \<and> al_entry_parse lib l = Some e"
      unfolding json_lines_def by blast
    with Cons show ?case by simp
  qed simp
  then have "str_lines (os_log (lw_os w)) = ls"
    using str_lines_terminated log by simp
  with props show ?thesis by (simp add: log_entries_def)
qed

lemma verified_writer_log:
  assumes laws: "hex_round_trips lib" "signatures_verify lib key" "json_lines lib events"
    and w: "verified_writer lib key events w es vs" and sid: "vs_session_id vs = Some sid"
  shows "verify_log lib (Some (os_log (lw_os w))) (Some (al_hex_encode lib (al_public_key lib key) @ [lf])) =
           Ok \<lparr>vr_session_id = sid, vr_records = lw_sequence w, vr_checkpoints = lw_checkpoint_sequence w,
               vr_final_checkpoint = vs_final_checkpoint vs, vr_chain_head = lw_chain_head w\<rparr>"
proof -
  from w have es: "log_holds lib es w" "\<forall>e \<in> set es. entry_of events e"
    and vs: "verify_entries lib (al_public_key lib key) (key_id_of lib (al_public_key lib key)) 1 es verify_init = Ok vs"
    and step: "in_step w vs" by (auto simp: verified_writer_def)
  from log_holds_lines [OF laws(3) es] vs
  have "verify_lines lib (al_public_key lib key) (key_id_of lib (al_public_key lib key)) 1
          (str_lines (os_log (lw_os w))) verify_init = Ok vs"
    by (simp add: verify_lines_Ok log_entries_def)
  with laws(1,2) step sid show ?thesis
    by (simp add: verify_log_def trim_hex_line in_step_def del: and_then_eq_Ok)
       (simp add: hex_round_trips_def signatures_verify_def del: and_then_eq_Ok)
qed

lemma create_verified:
  assumes "create se os \<lparr>si_signing_key = key, si_key_id = key_id_of lib (al_public_key lib key)\<rparr> uid interval = Ok w"
  shows "verified_writer lib key events w [] verify_init \<and> lw_session_id w = se_uuid se \<and>
         lw_sequence w = 0 \<and> lw_checkpoint_sequence w = 0 \<and> lw_checkpoint_interval w = interval"
  using assms
  by (auto simp: create_def create_with_format_def verified_writer_def writer_valid_def log_holds_def in_step_def
                 verify_init_def supported_format_def AUDIT_FORMAT_VERSION_def MIN_SUPPORTED_AUDIT_FORMAT_VERSION_def
           split: if_splits)

section \<open>A concrete library\<close>

text \<open>
  One instance of the library with the identity as digest, real hexadecimal digits and JSON for
  the entries of one short log. The witnesses of this theory evaluate it.
\<close>

definition demo_hex :: "bytes \<Rightarrow> string" where
  "demo_hex b = concat (map (\<lambda>c. [hex_digit (of_char c div 16), hex_digit (of_char c mod 16)]) b)"

definition hex_value :: "char \<Rightarrow> nat" where
  "hex_value c = (if of_char c < (58 :: nat) then of_char c - 48 else of_char c - 87)"

fun demo_unhex :: "string \<Rightarrow> bytes option" where
  "demo_unhex [] = Some []"
| "demo_unhex [_] = None"
| "demo_unhex (a # b # s) = map_option (Cons (char_of (hex_value a * 16 + hex_value b))) (demo_unhex s)"

lemma hex_value_hex_digit: "n < 16 \<Longrightarrow> hex_value (hex_digit n) = n"
  by (auto simp: hex_value_def hex_digit_def)

lemma demo_unhex_hex [simp]: "demo_unhex (demo_hex b) = Some b"
proof (induction b)
  case (Cons c b)
  have "of_char c div 16 < (16 :: nat)" using nat_of_char_less_256 [of c] by linarith
  with Cons show ?case
    by (simp add: demo_hex_def hex_value_hex_digit)
qed (simp add: demo_hex_def)

lemma demo_hex_alphanumeric: "c \<in> set (demo_hex b) \<Longrightarrow> is_ascii_alphanumeric c"
proof -
  have "is_ascii_alphanumeric (hex_digit n)" if "n < 16" for n
    using that by (auto simp: is_ascii_alphanumeric_def is_ascii_digit_def is_ascii_alphabetic_def hex_digit_def)
  moreover have "of_char d div 16 < (16 :: nat)" for d
    using nat_of_char_less_256 [of d] by linarith
  ultimately show "c \<in> set (demo_hex b) \<Longrightarrow> is_ascii_alphanumeric c"
    by (auto simp: demo_hex_def)
qed

lemma demo_hex_inj: "demo_hex a = demo_hex b \<longleftrightarrow> a = b"
  by (metis demo_unhex_hex option.inject)

definition demo_key :: bytes where
  "demo_key = replicate 32 (CHR ''k'')"

definition demo_body :: audit_record_body where
  "demo_body = \<lparr>rb_format_version = 5, rb_session_id = ''s'', rb_sequence = 1, rb_timestamp = 7,
                rb_client_uid = 1000, rb_previous_hash = ZERO_HASH, rb_event = EvSessionEnded ''exit''\<rparr>"

definition demo_record :: audit_record where
  "demo_record = \<lparr>ar_body = demo_body, ar_record_hash = demo_hex (RECORD_DOMAIN @ ''r'')\<rparr>"

definition demo_commitment :: string where
  "demo_commitment = demo_hex (WITNESS_DOMAIN @ ''c'')"

definition demo_signature :: string where
  "demo_signature = demo_hex (CHECKPOINT_DOMAIN @ ''c'' @ demo_commitment)"

definition demo_checkpoint :: audit_checkpoint where
  "demo_checkpoint =
     \<lparr>ck_body = \<lparr>cb_format_version = 5, cb_session_id = ''s'', cb_checkpoint_sequence = 1,
                 cb_previous_checkpoint_hash = ZERO_HASH, cb_sequence = 1, cb_timestamp = 7,
                 cb_chain_head = demo_hex (RECORD_DOMAIN @ ''r''),
                 cb_signing_key_id = demo_hex (take 16 demo_key), cb_final_checkpoint = True\<rparr>,
      ck_blinding_nonce = [], ck_witness = \<lparr>wc_scheme = WITNESS_SCHEME, wc_commitment = demo_commitment\<rparr>,
      ck_signature = demo_signature,
      ck_checkpoint_hash = demo_hex (CHECKPOINT_HASH_DOMAIN @ ''c'' @ WITNESS_SCHEME @ demo_commitment @ demo_signature)\<rparr>"

text \<open>A record nobody signed, chained to the head of the closed log.\<close>

definition demo_late_body :: audit_record_body where
  "demo_late_body = demo_body\<lparr>rb_sequence := 2, rb_previous_hash := demo_hex (RECORD_DOMAIN @ ''r'')\<rparr>"

definition demo_late_record :: audit_record where
  "demo_late_record = \<lparr>ar_body = demo_late_body, ar_record_hash = demo_hex (RECORD_DOMAIN @ ''l'')\<rparr>"

definition demo_lib :: audit_lib where
  "demo_lib =
     \<lparr>al_sha256 = (\<lambda>b. b), al_hex_encode = demo_hex, al_hex_decode = demo_unhex,
      al_public_key = (\<lambda>k. demo_key), al_sign = (\<lambda>k m. m), al_key_valid = (\<lambda>_. True),
      al_signature_valid = (\<lambda>_. True), al_verify = (\<lambda>p m s. s = m),
      al_record_body_json = (\<lambda>b. if b = demo_body then Some ''r'' else if b = demo_late_body then Some ''l'' else None),
      al_checkpoint_body_json = (\<lambda>_. Some ''c''),
      al_checkpoint_json = (\<lambda>_. Some ''c''),
      al_entry_json = (\<lambda>e. if e = Record demo_record then Some ''r''
                            else if e = Checkpoint demo_checkpoint then Some ''c''
                            else if e = Record demo_late_record then Some ''l'' else None),
      al_entry_parse = (\<lambda>s. if s = ''r'' then Some (Record demo_record)
                             else if s = ''c'' then Some (Checkpoint demo_checkpoint)
                             else if s = ''l'' then Some (Record demo_late_record) else None)\<rparr>"

definition demo_os :: audit_os where
  "demo_os = \<lparr>os_clock = (\<lambda>_. Some 7), os_nonce = (\<lambda>_. []), os_write = (\<lambda>_. None), os_calls = 0,
              os_log = [], os_index = []\<rparr>"

definition demo_setup :: audit_setup where
  "demo_setup = \<lparr>se_directory_secure = True, se_uuid = ''s'', se_sessions_secure = True,
                 se_log_created = True, se_index_opened = True\<rparr>"

definition demo_identity :: signing_identity where
  "demo_identity = \<lparr>si_signing_key = demo_key, si_key_id = key_id_of demo_lib (al_public_key demo_lib demo_key)\<rparr>"

lemma demo_laws:
  "hex_round_trips demo_lib" "signatures_verify demo_lib demo_key" "json_lines demo_lib events"
  "bodies_distinguished demo_lib"
proof -
  show "hex_round_trips demo_lib"
    by (simp add: hex_round_trips_def demo_lib_def demo_hex_alphanumeric)
  show "signatures_verify demo_lib demo_key"
    by (simp add: signatures_verify_def demo_lib_def demo_key_def)
  show "json_lines demo_lib events"
    by (auto simp: json_lines_def demo_lib_def line_body_def lf_def cr_def char_of_def split: if_splits)
  show "bodies_distinguished demo_lib"
    by (auto simp: bodies_distinguished_def demo_lib_def inj_def demo_hex_inj split: if_splits)
qed

section \<open>Properties\<close>

text \<open>
  C31. A log that was created, extended and closed without an error verifies against the public key
  file of its signing identity, and the report names the session, counts every event and one
  checkpoint per interval plus the final one, and gives the writer's chain head.
\<close>

theorem closed_log_verifies:
  assumes "hex_round_trips lib" "signatures_verify lib key" "json_lines lib (set events)"
    and "create se os \<lparr>si_signing_key = key, si_key_id = key_id_of lib (al_public_key lib key)\<rparr> uid interval = Ok w0"
    and "append_all lib events w0 = (Ok recs, w1)" and "close lib w1 = (Ok ck, w2)"
  shows "verify_log lib (Some (os_log (lw_os w2))) (Some (al_hex_encode lib (al_public_key lib key) @ [lf])) =
           Ok \<lparr>vr_session_id = se_uuid se, vr_records = length events,
               vr_checkpoints = length events div interval + 1, vr_final_checkpoint = True,
               vr_chain_head = lw_chain_head w2\<rparr>"
proof -
  note laws = assms(1,2)
  from create_verified [OF assms(4), of "set events"] have "verified_writer lib key (set events) w0 [] verify_init"
    and w0: "lw_session_id w0 = se_uuid se" "lw_sequence w0 = 0" "lw_checkpoint_sequence w0 = 0"
      "lw_checkpoint_interval w0 = interval" by blast+
  from append_all_verified [OF laws this(1) _ assms(5)] w0 obtain es vs
    where "verified_writer lib key (set events) w1 es vs" and w1: "lw_session_id w1 = se_uuid se"
      "lw_sequence w1 = length events" "lw_checkpoint_sequence w1 = length events div interval"
    by auto
  from write_checkpoint_verified [OF laws this(1) assms(6) [unfolded close_def]] w1 obtain vs'
    where "verified_writer lib key (set events) w2 (es @ [Checkpoint ck]) vs'" "vs_final_checkpoint vs'"
      "vs_session_id vs' = Some (se_uuid se)" by auto
  with verified_writer_log [OF laws assms(3)] write_checkpoint_Ok [OF assms(6) [unfolded close_def]] w1
  show ?thesis by auto
qed

definition demo_open :: audit_log_writer where
  "demo_open = \<lparr>lw_format_version = 5, lw_session_id = ''s'', lw_client_uid = 1000, lw_sequence = 0,
                lw_chain_head = ZERO_HASH, lw_checkpoint_interval = 2, lw_checkpoint_sequence = 0,
                lw_checkpoint_head = ZERO_HASH, lw_identity = demo_identity, lw_os = demo_os\<rparr>"

definition demo_appended :: audit_log_writer where
  "demo_appended = demo_open\<lparr>lw_sequence := 1, lw_chain_head := demo_hex (RECORD_DOMAIN @ ''r''),
     lw_os := demo_os\<lparr>os_calls := 2, os_log := ''r'' @ [lf]\<rparr>\<rparr>"

definition demo_closed :: audit_log_writer where
  "demo_closed = demo_appended\<lparr>lw_checkpoint_sequence := 1,
     lw_checkpoint_head := ck_checkpoint_hash demo_checkpoint,
     lw_os := demo_os\<lparr>os_calls := 6, os_log := ''r'' @ [lf] @ ''c'' @ [lf], os_index := ''c'' @ [lf]\<rparr>\<rparr>"

lemma demo_create: "create demo_setup demo_os demo_identity 1000 2 = Ok demo_open"
  by (simp add: create_def create_with_format_def demo_setup_def demo_open_def demo_os_def AUDIT_FORMAT_VERSION_def)

lemma demo_append: "append_all demo_lib [EvSessionEnded ''exit''] demo_open = (Ok [demo_record], demo_appended)"
  by (simp add: append_event_def Let_def unix_timestamp_ms_def demo_open_def demo_os_def os_tick_def serialized_def
      hash_record_body_def demo_lib_def demo_body_def write_entry_def demo_record_def demo_appended_def)

lemma demo_close: "close demo_lib demo_appended = (Ok demo_checkpoint, demo_closed)"
  by (simp add: close_def write_checkpoint_def Let_def unix_timestamp_ms_def demo_appended_def demo_open_def
      demo_os_def os_tick_def serialized_def fill_nonce_def witness_commitment_def checkpoint_message_def
      hash_checkpoint_def demo_lib_def demo_identity_def key_id_of_def write_entry_def append_checkpoint_index_def
      demo_checkpoint_def demo_commitment_def demo_signature_def demo_closed_def demo_hex_def)

theorem closed_log_verifies_witness:
  "verify_log demo_lib (Some (os_log (lw_os demo_closed))) (Some (demo_hex demo_key @ [lf])) =
     Ok \<lparr>vr_session_id = ''s'', vr_records = 1, vr_checkpoints = 1, vr_final_checkpoint = True,
         vr_chain_head = demo_hex (RECORD_DOMAIN @ ''r'')\<rparr>"
  using closed_log_verifies [OF demo_laws(1,2,3) demo_create [unfolded demo_identity_def] demo_append demo_close]
  by (simp add: demo_lib_def demo_setup_def demo_closed_def demo_appended_def)

text \<open>
  C32. A checkpoint pins the records before it. When two logs verify and contain checkpoints with the
  same body, each covers as many records as its sequence number says, and the two lists of records
  are the same, unless two records at the same place in the two logs print differently and yet have
  the same digest.
\<close>

theorem checkpoint_pins_records:
  assumes "bodies_distinguished lib"
    and "verify_log lib (Some c) (Some k) = Ok r" "verify_log lib (Some c') (Some k') = Ok r'"
    and "log_entries lib c = Some (es @ Checkpoint ck # rest)"
    and "log_entries lib c' = Some (es' @ Checkpoint ck' # rest')"
    and "ck_body ck = ck_body ck'"
  shows "length (records_of es) = cb_sequence (ck_body ck) \<and>
         (records_of es = records_of es' \<or> records_collide lib (records_of es) (records_of es'))"
  using verified_checkpoint_at [OF assms(2,4)] verified_checkpoint_at [OF assms(3,5)] assms(1,6)
  by (metis chained_unique)

lemma demo_entries:
  "log_entries demo_lib (os_log (lw_os demo_closed)) = Some ([Record demo_record] @ Checkpoint demo_checkpoint # [])"
  by (simp add: log_entries_def str_lines_def demo_closed_def lf_def strip_cr_def cr_def char_of_def demo_lib_def)

lemma demo_key_file: "trim (demo_hex demo_key @ [lf]) = demo_hex demo_key"
  using trim_hex_line [OF demo_laws(1), of demo_key] by (simp add: demo_lib_def)

lemma demo_verify_record:
  "verify_record demo_lib n demo_record verify_init =
     Ok (verify_init\<lparr>vs_session_id := Some ''s'', vs_chain_head := demo_hex (RECORD_DOMAIN @ ''r''), vs_expected_sequence := 2\<rparr>)"
  by (simp add: verify_record_def verify_init_def demo_record_def demo_body_def demo_lib_def hash_record_body_def
      supported_format_def AUDIT_FORMAT_VERSION_def MIN_SUPPORTED_AUDIT_FORMAT_VERSION_def)

lemma demo_signed: "signed_checkpoint demo_lib demo_key (ck_body demo_checkpoint) demo_checkpoint"
  unfolding signed_checkpoint_def
  by (intro exI [of _ "[]"] exI [of _ demo_commitment] exI [of _ "CHECKPOINT_DOMAIN @ ''c'' @ demo_commitment"])
     (simp add: demo_checkpoint_def demo_lib_def witness_commitment_def checkpoint_message_def hash_checkpoint_def
        demo_commitment_def demo_signature_def demo_hex_def)

lemma demo_verify_checkpoint:
  "verify_checkpoint_entry demo_lib demo_key (demo_hex (take 16 demo_key)) n demo_checkpoint
     (verify_init\<lparr>vs_session_id := Some ''s'', vs_chain_head := demo_hex (RECORD_DOMAIN @ ''r''), vs_expected_sequence := 2\<rparr>) =
   Ok \<lparr>vs_session_id = Some ''s'', vs_expected_sequence = 2, vs_chain_head = demo_hex (RECORD_DOMAIN @ ''r''),
      vs_checkpoints = 1, vs_checkpoint_head = ck_checkpoint_hash demo_checkpoint, vs_final_checkpoint = True\<rparr>"
proof -
  have "verify_checkpoint demo_lib demo_checkpoint demo_key = Ok ()"
    using signed_checkpoint_verifies [OF demo_laws(1,2) demo_signed] by (simp add: demo_lib_def)
  then show ?thesis
    by (simp add: verify_checkpoint_entry_def verify_init_def demo_checkpoint_def supported_format_def
        AUDIT_FORMAT_VERSION_def MIN_SUPPORTED_AUDIT_FORMAT_VERSION_def)
qed

definition demo_lines :: "string list" where
  "demo_lines = [''r'', ''c'']"

lemma demo_log: "os_log (lw_os demo_closed) = concat (map (\<lambda>l. l @ [lf]) demo_lines)"
  by (simp add: demo_closed_def demo_lines_def)

lemma demo_line_body: "\<forall>l \<in> set demo_lines. line_body l"
  by (simp add: demo_lines_def line_body_def lf_def cr_def char_of_def)

lemma demo_verifies:
  "verify_log demo_lib (Some (os_log (lw_os demo_closed))) (Some (demo_hex demo_key @ [lf])) =
     Ok \<lparr>vr_session_id = ''s'', vr_records = 1, vr_checkpoints = 1, vr_final_checkpoint = True,
         vr_chain_head = demo_hex (RECORD_DOMAIN @ ''r'')\<rparr>"
proof -
  have kid: "key_id_of demo_lib demo_key = demo_hex (take 16 demo_key)"
    by (simp add: key_id_of_def demo_lib_def)
  have parse: "al_entry_parse demo_lib ''r'' = Some (Record demo_record)"
    "al_entry_parse demo_lib ''c'' = Some (Checkpoint demo_checkpoint)"
    by (simp_all add: demo_lib_def)
  have "al_hex_decode demo_lib (demo_hex demo_key) = Some demo_key" "al_key_valid demo_lib demo_key"
    "length demo_key = 32"
    by (simp_all add: demo_lib_def demo_key_def)
  moreover have "str_lines (os_log (lw_os demo_closed)) = [''r'', ''c'']"
    using str_lines_terminated [OF demo_line_body] by (simp only: demo_log demo_lines_def)
  ultimately show ?thesis
    by (simp add: verify_log_def demo_key_file kid parse verify_entry_def demo_verify_record demo_verify_checkpoint
        del: and_then_eq_Ok)
qed

definition demo_extended_log :: string where
  "demo_extended_log = os_log (lw_os demo_closed) @ ''l'' @ [lf]"

lemma demo_verify_late_record:
  "verify_record demo_lib n demo_late_record
     \<lparr>vs_session_id = Some ''s'', vs_expected_sequence = 2, vs_chain_head = demo_hex (RECORD_DOMAIN @ ''r''),
      vs_checkpoints = k, vs_checkpoint_head = h, vs_final_checkpoint = True\<rparr> =
   Ok \<lparr>vs_session_id = Some ''s'', vs_expected_sequence = 3, vs_chain_head = demo_hex (RECORD_DOMAIN @ ''l''),
      vs_checkpoints = k, vs_checkpoint_head = h, vs_final_checkpoint = True\<rparr>"
  by (simp add: verify_record_def demo_late_record_def demo_late_body_def demo_body_def demo_lib_def
      hash_record_body_def supported_format_def AUDIT_FORMAT_VERSION_def MIN_SUPPORTED_AUDIT_FORMAT_VERSION_def)

lemma demo_extended_lines: "str_lines demo_extended_log = [''r'', ''c'', ''l'']"
  using str_lines_terminated [of "[''r'', ''c'', ''l'']"]
  by (simp add: demo_extended_log_def demo_closed_def line_body_def lf_def cr_def char_of_def)

lemma demo_extended_entries:
  "log_entries demo_lib demo_extended_log =
     Some ([Record demo_record] @ Checkpoint demo_checkpoint # [Record demo_late_record])"
  by (simp add: log_entries_def demo_extended_lines demo_lib_def)

lemma demo_extended_verifies:
  "verify_log demo_lib (Some demo_extended_log) (Some (demo_hex demo_key @ [lf])) =
     Ok \<lparr>vr_session_id = ''s'', vr_records = 2, vr_checkpoints = 1, vr_final_checkpoint = True,
         vr_chain_head = demo_hex (RECORD_DOMAIN @ ''l'')\<rparr>"
proof -
  have kid: "key_id_of demo_lib demo_key = demo_hex (take 16 demo_key)"
    by (simp add: key_id_of_def demo_lib_def)
  have parse: "al_entry_parse demo_lib ''r'' = Some (Record demo_record)"
    "al_entry_parse demo_lib ''c'' = Some (Checkpoint demo_checkpoint)"
    "al_entry_parse demo_lib ''l'' = Some (Record demo_late_record)"
    by (simp_all add: demo_lib_def)
  have "al_hex_decode demo_lib (demo_hex demo_key) = Some demo_key" "al_key_valid demo_lib demo_key"
    "length demo_key = 32"
    by (simp_all add: demo_lib_def demo_key_def)
  then show ?thesis
    by (simp add: verify_log_def demo_extended_lines demo_key_file kid parse verify_entry_def demo_verify_record
        demo_verify_checkpoint demo_verify_late_record del: and_then_eq_Ok)
qed

theorem checkpoint_pins_records_witness:
  "length (records_of [Record demo_record]) = cb_sequence (ck_body demo_checkpoint) \<and>
   (records_of [Record demo_record] = records_of [Record demo_record] \<or>
    records_collide demo_lib (records_of [Record demo_record]) (records_of [Record demo_record])) \<and>
   log_entries demo_lib (os_log (lw_os demo_closed)) \<noteq> log_entries demo_lib demo_extended_log"
  using checkpoint_pins_records [OF demo_laws(4) demo_verifies demo_extended_verifies demo_entries
      demo_extended_entries refl] demo_entries demo_extended_entries by simp

text \<open>
  Every checkpoint of a log that verifies carries a signature that the given public key accepts,
  over a message that fixes its whole body, and it names that key.
\<close>

theorem verified_checkpoint_is_signed:
  assumes "verify_log lib (Some c) (Some k) = Ok r"
    and "log_entries lib c = Some (es @ Checkpoint ck # rest)"
  shows "\<exists>key encoded signature. al_hex_decode lib (trim k) = Some key \<and>
           al_checkpoint_body_json lib (ck_body ck) = Some encoded \<and>
           al_hex_decode lib (ck_signature ck) = Some signature \<and>
           al_verify lib key (CHECKPOINT_DOMAIN @ encoded @ wc_commitment (ck_witness ck)) signature \<and>
           cb_signing_key_id (ck_body ck) = key_id_of lib key"
proof -
  from verified_checkpoint_at [OF assms] obtain key where key: "al_hex_decode lib (trim k) = Some key"
      "cb_signing_key_id (ck_body ck) = key_id_of lib key" and "verify_checkpoint lib ck key = Ok ()" .
  from verify_checkpoint_signed [OF this(3)] key show ?thesis
    by (auto simp: checkpoint_message_def)
qed

theorem verified_checkpoint_is_signed_witness:
  "\<exists>key encoded signature. al_hex_decode demo_lib (trim (demo_hex demo_key @ [lf])) = Some key \<and>
     al_checkpoint_body_json demo_lib (ck_body demo_checkpoint) = Some encoded \<and>
     al_hex_decode demo_lib (ck_signature demo_checkpoint) = Some signature \<and>
     al_verify demo_lib key (CHECKPOINT_DOMAIN @ encoded @ wc_commitment (ck_witness demo_checkpoint)) signature \<and>
     cb_signing_key_id (ck_body demo_checkpoint) = key_id_of demo_lib key"
  using verified_checkpoint_is_signed [OF demo_verifies demo_entries] .

text \<open>
  The final checkpoint does not close the log for the verifier. Whoever can append to the file,
  without any key, can add a record that continues the chain after the final checkpoint: the log
  still verifies and the report still says that the final checkpoint is present.
\<close>

theorem final_flag_survives_appended_record:
  assumes "verify_log lib (Some (concat (map (\<lambda>l. l @ [lf]) ls))) (Some k) = Ok r"
    and "\<forall>l \<in> set ls. line_body l" "line_body line" "valid_utf8 line"
    and "al_entry_parse lib line = Some (Record rec)"
    and "supported_format (rb_format_version (ar_body rec))"
    and "rb_session_id (ar_body rec) = vr_session_id r" "rb_sequence (ar_body rec) = Suc (vr_records r)"
    and "rb_previous_hash (ar_body rec) = vr_chain_head r"
    and "hash_record_body lib (ar_body rec) = Some (ar_record_hash rec)"
  shows "verify_log lib (Some (concat (map (\<lambda>l. l @ [lf]) (ls @ [line])))) (Some k) =
           Ok (r\<lparr>vr_records := Suc (vr_records r), vr_chain_head := ar_record_hash rec\<rparr>)"
proof -
  have lines: "str_lines (concat (map (\<lambda>l. l @ [lf]) ls)) = ls"
    "str_lines (concat (map (\<lambda>l. l @ [lf]) (ls @ [line]))) = ls @ [line]"
    using assms(2,3) str_lines_terminated [of ls] str_lines_terminated [of "ls @ [line]"] by auto
  from assms(1) obtain key vs sid where key: "al_hex_decode lib (trim k) = Some key" "length key = 32" "al_key_valid lib key"
    and vs: "verify_lines lib key (key_id_of lib key) 1 ls verify_init = Ok vs" "vs_session_id vs = Some sid"
    and r: "r = \<lparr>vr_session_id = sid, vr_records = vs_expected_sequence vs - 1, vr_checkpoints = vs_checkpoints vs,
                 vr_final_checkpoint = vs_final_checkpoint vs, vr_chain_head = vs_chain_head vs\<rparr>"
    by (auto simp: verify_log_def lines(1) split: if_splits)
  from vs(1) obtain es where es: "\<forall>l \<in> set ls. valid_utf8 l" "those (map (al_entry_parse lib) ls) = Some es"
    "verify_entries lib key (key_id_of lib key) 1 es verify_init = Ok vs"
    by (auto simp: verify_lines_Ok)
  from verify_entries_chain [OF es(3)] have pos: "0 < vs_expected_sequence vs"
    by (simp add: verify_init_def)
  define vs' where "vs' = vs\<lparr>vs_session_id := Some sid, vs_chain_head := ar_record_hash rec,
                             vs_expected_sequence := Suc (vs_expected_sequence vs)\<rparr>"
  have "verify_entry lib key (key_id_of lib key) n (Record rec) vs = Ok vs'" for n
    using assms(6-10) r vs(2) pos by (simp add: verify_entry_def verify_record_def vs'_def)
  then have "verify_lines lib key (key_id_of lib key) 1 (ls @ [line]) verify_init = Ok vs'"
    using es assms(4,5)
    by (auto simp: verify_lines_Ok those_append_Some verify_entries_append)
  with key r pos show ?thesis
    unfolding verify_log_def and_then_simps ok_or_simps lines(2) by (simp add: vs'_def del: and_then_eq_Ok)
qed

theorem final_flag_survives_appended_record_witness:
  "\<exists>r. verify_log demo_lib (Some (concat (map (\<lambda>l. l @ [lf]) (demo_lines @ [''l''])))) (Some (demo_hex demo_key @ [lf])) = Ok r \<and>
       vr_final_checkpoint r \<and> vr_records r = 2"
proof -
  have "al_entry_parse demo_lib ''l'' = Some (Record demo_late_record)" by (simp add: demo_lib_def)
  moreover have "hash_record_body demo_lib (ar_body demo_late_record) = Some (ar_record_hash demo_late_record)"
    by (simp add: hash_record_body_def demo_lib_def demo_late_record_def demo_late_body_def demo_body_def)
  moreover have "line_body ''l''" "valid_utf8 ''l''"
    by (simp_all add: line_body_def lf_def cr_def char_of_def)
  ultimately show ?thesis
    using final_flag_survives_appended_record [OF demo_verifies [unfolded demo_log] demo_line_body,
        of "''l''" demo_late_record]
    by (simp add: demo_late_record_def demo_late_body_def demo_body_def supported_format_def
        AUDIT_FORMAT_VERSION_def MIN_SUPPORTED_AUDIT_FORMAT_VERSION_def)
qed

text \<open>
  The signing identity is stable: a service that finds no key pair creates one from a fresh
  key, and every later start reads the same identity back and leaves the files alone.
\<close>

theorem signing_identity_is_stable:
  assumes "hex_round_trips lib" and "length fresh = 32"
    and "load_or_create lib True fresh \<lparr>kf_private = None, kf_public = None, kf_private_valid = True, kf_public_valid = True\<rparr> =
           (Ok identity, files)"
  shows "si_signing_key identity = fresh \<and> si_key_id identity = key_id_of lib (al_public_key lib fresh) \<and>
         load_or_create lib True fresh' files = (Ok identity, files)"
proof -
  have "al_hex_decode lib (al_hex_encode lib b) = Some b" for b
    using assms(1) by (simp add: hex_round_trips_def)
  with assms(2,3) trim_hex_line [OF assms(1)] show ?thesis
    by (auto simp: load_or_create_def Let_def)
qed

theorem signing_identity_is_stable_witness:
  "load_or_create demo_lib True [] (\<lparr>kf_private = Some (demo_hex demo_key @ [lf]), kf_public = Some (demo_hex demo_key @ [lf]),
     kf_private_valid = True, kf_public_valid = True\<rparr>) =
   (Ok demo_identity, \<lparr>kf_private = Some (demo_hex demo_key @ [lf]), kf_public = Some (demo_hex demo_key @ [lf]),
     kf_private_valid = True, kf_public_valid = True\<rparr>)"
proof -
  have "load_or_create demo_lib True demo_key
          \<lparr>kf_private = None, kf_public = None, kf_private_valid = True, kf_public_valid = True\<rparr> =
        (Ok demo_identity, \<lparr>kf_private = Some (demo_hex demo_key @ [lf]), kf_public = Some (demo_hex demo_key @ [lf]),
           kf_private_valid = True, kf_public_valid = True\<rparr>)"
    by (simp add: load_or_create_def demo_identity_def demo_lib_def)
  from signing_identity_is_stable [OF demo_laws(1) _ this] show ?thesis
    by (simp add: demo_key_def)
qed

end
