(* ===== verification/Audit_Service.thy ===== *)
theory Audit_Service
  imports Audit_Log
begin

text \<open>
  The two ends of the audit connection: the service's connection handler
  (\<^verbatim>\<open>crates/xshell-audit/src/bin/xshell-auditd.rs\<close>, \<open>handle_client\<close>) and the client
  (\<^verbatim>\<open>client.rs\<close>), with the messages of \<^verbatim>\<open>protocol.rs\<close> between them. The handler runs on
  the bytes the peer sends and leaves a trace of the responses it sent, each with the contents of
  the log file at that moment; JSON parsing and the success of each socket write are parameters.
\<close>

section \<open>Messages\<close>

datatype client_request =
    OpenRequest nat string
  | AppendRequest audit_event
  | CloseRequest

definition open_request :: "string \<Rightarrow> client_request" where
  "open_request client_version = OpenRequest AUDIT_PROTOCOL_VERSION client_version"

datatype server_response =
    Opened nat string string
  | Ack nat string
  | Closed audit_checkpoint
  | ErrorResponse string

section \<open>Framing\<close>

text \<open>
  What the peer sent; \<open>broken\<close> when the stream ends in an I/O error rather than at its end.
  \<open>take(limit).read_until(LF)\<close> reads through the first line feed, or as much as the limit allows.
\<close>

record in_stream =
  is_bytes :: bytes
  is_broken :: bool

definition read_until :: "nat \<Rightarrow> bytes \<Rightarrow> bytes \<times> bytes" where
  "read_until limit s =
     (let line = takeWhile (\<lambda>c. c \<noteq> lf) (take limit s) in
      if length line < length (take limit s)
      then (line @ [lf], drop (Suc (length line)) s)
      else (take limit s, drop limit s))"

definition MAX_REQUEST_BYTES :: nat where
  "MAX_REQUEST_BYTES = 16 * 1024 * 1024"

datatype service_error =
    ReadFailed
  | RequestTooLong
  | RequestNotUtf8
  | InvalidOpenRequest
  | SendFailed
  | PeerUnknown
  | LogFailed audit_error

definition read_request_line :: "in_stream \<Rightarrow> (service_error, bytes option) result \<times> in_stream" where
  "read_request_line st =
     (let (got, rest) = read_until (MAX_REQUEST_BYTES + 1) (is_bytes st);
          st' = st\<lparr>is_bytes := rest\<rparr> in
      if is_broken st \<and> length got < MAX_REQUEST_BYTES + 1 \<and> (got = [] \<or> last got \<noteq> lf) then (Err ReadFailed, st')
      else if got = [] then (Ok None, st')
      else if length got > MAX_REQUEST_BYTES \<or> last got \<noteq> lf then (Err RequestTooLong, st')
      else if \<not> valid_utf8 got then (Err RequestNotUtf8, st')
      else (Ok (Some got), st'))"

lemma read_until_append: "read_until limit s = (got, rest) \<Longrightarrow> s = got @ rest"
proof -
  let ?w = "take limit s"
  let ?l = "takeWhile (\<lambda>c. c \<noteq> lf) ?w"
  assume r: "read_until limit s = (got, rest)"
  show "s = got @ rest"
  proof (cases "length ?l < length ?w")
    case True
    then have "?w ! length ?l = lf"
      using nth_length_takeWhile [of "\<lambda>c. c \<noteq> lf" ?w] by simp
    with True have "s ! length ?l = lf" and len: "length ?l < length s" by auto
    moreover have "?l = take (length ?l) s"
      using takeWhile_eq_take [of "\<lambda>c. c \<noteq> lf" ?w] True by (simp add: min_def split: if_splits)
    ultimately have "s = ?l @ lf # drop (Suc (length ?l)) s"
      using id_take_nth_drop [OF len] by simp
    moreover from r True have "got = ?l @ [lf]" "rest = drop (Suc (length ?l)) s"
      by (auto simp: read_until_def Let_def)
    ultimately show ?thesis by (metis append.assoc append_Cons append_Nil)
  next
    case False
    with r show ?thesis by (auto simp: read_until_def Let_def)
  qed
qed

lemma read_request_line_shorter:
  "read_request_line st = (Inr (Some line), st') \<Longrightarrow> length (is_bytes st') < length (is_bytes st)"
  by (auto simp: read_request_line_def Let_def split: prod.splits if_splits dest!: read_until_append)

section \<open>The connection handler\<close>

text \<open>
  \<open>sv_request\<close> is the JSON parser for requests, \<open>sv_send_ok\<close> tells whether the next write to the
  socket succeeds, by the number of responses sent before.
\<close>

record service_env =
  sv_request :: "bytes \<Rightarrow> client_request option"
  sv_send_ok :: "nat \<Rightarrow> bool"
  sv_peer_uid :: "nat option"
  sv_debug :: "audit_error \<Rightarrow> string"

type_synonym service_trace = "(server_response \<times> bytes) list"

definition send :: "service_env \<Rightarrow> server_response \<Rightarrow> bytes \<Rightarrow> service_trace \<Rightarrow> (service_error, unit) result \<times> service_trace" where
  "send sv response log trace =
     (if sv_send_ok sv (length trace) then (Ok (), trace @ [(response, log)]) else (Err SendFailed, trace))"

text \<open>\<open>send_error(..)?; return Ok(())\<close>.\<close>

definition refuse :: "service_env \<Rightarrow> string \<Rightarrow> bytes \<Rightarrow> service_trace \<Rightarrow> (service_error, unit) result \<times> service_trace" where
  "refuse sv message log trace = send sv (ErrorResponse message) log trace"

definition current_log :: "audit_log_writer \<Rightarrow> bytes" where
  "current_log w = os_log (lw_os w)"

function serve ::
  "service_env \<Rightarrow> audit_lib \<Rightarrow> in_stream \<Rightarrow> audit_log_writer \<Rightarrow> service_trace \<Rightarrow> (service_error, unit) result \<times> service_trace" where
  "serve sv lib st w trace =
     (case read_request_line st of
        (Inl e, _) \<Rightarrow> (Err e, trace)
      | (Inr None, _) \<Rightarrow> (Ok (), trace)
      | (Inr (Some line), st') \<Rightarrow>
          (case sv_request sv line of
             None \<Rightarrow> refuse sv ''invalid audit request'' (current_log w) trace
           | Some (AppendRequest event) \<Rightarrow>
               (case append_event lib event w of
                  (Inr rec, w') \<Rightarrow>
                    (case send sv (Ack (rb_sequence (ar_body rec)) (ar_record_hash rec)) (current_log w') trace of
                       (Inl e, trace') \<Rightarrow> (Err e, trace')
                     | (Inr _, trace') \<Rightarrow> serve sv lib st' w' trace')
                | (Inl e, w') \<Rightarrow>
                    (case send sv (ErrorResponse (''durable append failed: '' @ sv_debug sv e)) (current_log w') trace of
                       (Inl e', trace') \<Rightarrow> (Err e', trace')
                     | (Inr _, trace') \<Rightarrow> (Err (LogFailed e), trace')))
           | Some CloseRequest \<Rightarrow>
               (case close lib w of
                  (Inl e, _) \<Rightarrow> (Err (LogFailed e), trace)
                | (Inr ck, w') \<Rightarrow> send sv (Closed ck) (current_log w') trace)
           | Some (OpenRequest _ _) \<Rightarrow> refuse sv ''session is already open'' (current_log w) trace))"
  by pat_completeness auto
termination
  by (relation "measure (\<lambda>(sv, lib, st, w, trace). length (is_bytes st))") (auto dest: read_request_line_shorter [OF sym])

declare serve.simps [simp del]

definition protocol_mismatch :: "nat \<Rightarrow> string" where
  "protocol_mismatch version =
     ''client speaks audit protocol '' @ show_nat version @ '' but this xshell-auditd requires '' @
     show_nat AUDIT_PROTOCOL_VERSION @ ''; upgrade the client or restart xshell-auditd from the same build''"

definition handle_client ::
  "service_env \<Rightarrow> audit_lib \<Rightarrow> audit_setup \<Rightarrow> audit_os \<Rightarrow> signing_identity \<Rightarrow> nat \<Rightarrow> in_stream \<Rightarrow>
   (service_error, unit) result \<times> service_trace" where
  "handle_client sv lib se os identity checkpoint_interval st =
     (case sv_peer_uid sv of
        None \<Rightarrow> (Err PeerUnknown, [])
      | Some client_uid \<Rightarrow>
          (case read_request_line st of
             (Inl e, _) \<Rightarrow> (Err e, [])
           | (Inr None, _) \<Rightarrow> (Ok (), [])
           | (Inr (Some line), st') \<Rightarrow>
               (case sv_request sv line of
                  None \<Rightarrow> (Err InvalidOpenRequest, [])
                | Some (OpenRequest protocol_version _) \<Rightarrow>
                    if protocol_version \<noteq> AUDIT_PROTOCOL_VERSION
                    then refuse sv (protocol_mismatch protocol_version) [] []
                    else
                      (case create se os identity client_uid checkpoint_interval of
                         Inl e \<Rightarrow> (Err (LogFailed e), [])
                       | Inr w \<Rightarrow>
                           (case send sv (Opened AUDIT_PROTOCOL_VERSION (lw_session_id w) (si_key_id (lw_identity w)))
                                   (current_log w) [] of
                              (Inl e, trace) \<Rightarrow> (Err e, trace)
                            | (Inr _, trace) \<Rightarrow> serve sv lib st' w trace))
                | Some _ \<Rightarrow> refuse sv ''first request must open a session'' [] [])))"

section \<open>Acknowledged records are in the log\<close>

lemma verify_entry_session:
  "verify_entry lib key kid n e vs = Ok vs' \<Longrightarrow> vs_session_id vs' \<noteq> None"
  by (cases e) (auto simp: verify_entry_def verify_record_def verify_checkpoint_entry_def Let_def
                     split: if_splits sum.splits)

lemma verify_entries_session:
  "verify_entries lib key kid n es vs = Ok vs' \<Longrightarrow> es \<noteq> [] \<Longrightarrow> vs_session_id vs' \<noteq> None"
  by (cases es rule: rev_cases) (auto simp: verify_entries_append dest: verify_entry_session)

lemma append_head:
  assumes "append_event lib event w = (Inr rec, w')"
  shows "lw_chain_head w' = ar_record_hash rec \<and> lw_sequence w' = rb_sequence (ar_body rec)"
  using append_Ok [OF assms] write_checkpoint_Ok
  by (fastforce simp: Let_def split: if_splits)

definition log_reports :: "audit_lib \<Rightarrow> bytes \<Rightarrow> bytes \<Rightarrow> (verification_report \<Rightarrow> bool) \<Rightarrow> bool" where
  "log_reports lib key log P \<longleftrightarrow>
     (\<exists>r. verify_log lib (Some log) (Some (al_hex_encode lib (al_public_key lib key) @ [lf])) = Ok r \<and> P r)"

definition honest_response :: "audit_lib \<Rightarrow> bytes \<Rightarrow> server_response \<times> bytes \<Rightarrow> bool" where
  "honest_response lib key sent \<longleftrightarrow>
     (case sent of
        (Ack n hash, log) \<Rightarrow> log_reports lib key log (\<lambda>r. vr_records r = n \<and> vr_chain_head r = hash)
      | (Closed ck, log) \<Rightarrow>
          log_reports lib key log (\<lambda>r. vr_final_checkpoint r \<and> vr_records r = cb_sequence (ck_body ck))
      | _ \<Rightarrow> True)"

text \<open>The events that the lines of one connection ask to append.\<close>

function requested_events :: "service_env \<Rightarrow> in_stream \<Rightarrow> audit_event list" where
  "requested_events sv st =
     (case read_request_line st of
        (Inr (Some line), st') \<Rightarrow>
          (case sv_request sv line of
             Some (AppendRequest event) \<Rightarrow> event # requested_events sv st'
           | _ \<Rightarrow> requested_events sv st')
      | _ \<Rightarrow> [])"
  by pat_completeness auto
termination
  by (relation "measure (\<lambda>(sv, st). length (is_bytes st))") (auto dest: read_request_line_shorter [OF sym])

declare requested_events.simps [simp del]

lemma requested_events_line:
  assumes "read_request_line st = (Inr (Some line), st')"
  shows "set (requested_events sv st') \<subseteq> set (requested_events sv st)"
    and "sv_request sv line = Some (AppendRequest event) \<Longrightarrow> event \<in> set (requested_events sv st)"
  using assms by (auto simp: requested_events.simps [of sv st] split: option.splits client_request.splits)

lemma verified_writer_reports:
  assumes "hex_round_trips lib" "signatures_verify lib key" "json_lines lib events"
    and "verified_writer lib key events w es vs" "es \<noteq> []"
  shows "log_reports lib key (current_log w)
           (\<lambda>r. vr_records r = lw_sequence w \<and> vr_chain_head r = lw_chain_head w \<and>
                vr_final_checkpoint r = vs_final_checkpoint vs)"
proof -
  from assms(4,5) obtain sid where "vs_session_id vs = Some sid"
    using verify_entries_session by (fastforce simp: verified_writer_def)
  from verified_writer_log [OF assms(1-4) this] show ?thesis
    by (simp add: log_reports_def current_log_def)
qed

lemma send_trace:
  "send sv response log trace = (r, trace') \<Longrightarrow> set trace' \<subseteq> insert (response, log) (set trace)"
  by (auto simp: send_def split: if_splits)

lemma send_honest:
  assumes "honest_response lib key (response, log)" "\<forall>sent \<in> set trace. honest_response lib key sent"
  shows "sent \<in> set (snd (send sv response log trace)) \<Longrightarrow> honest_response lib key sent"
    and "send sv response log trace = (r, trace') \<Longrightarrow> sent \<in> set trace' \<Longrightarrow> honest_response lib key sent"
  using assms by (auto simp: send_def split: if_splits)

lemma append_ack_honest:
  assumes laws: "hex_round_trips lib" "signatures_verify lib key" "json_lines lib events"
    and w: "verified_writer lib key events w es vs" and event: "event \<in> events"
    and run: "append_event lib event w = (Inr rec, w')"
  shows "\<exists>es' vs'. verified_writer lib key events w' es' vs' \<and>
           honest_response lib key (Ack (rb_sequence (ar_body rec)) (ar_record_hash rec), current_log w')"
proof -
  from append_verified [OF laws(1,2) w event run] obtain es1 vs'
    where v: "verified_writer lib key events w' (es @ Record rec # es1) vs'" by blast
  from verified_writer_reports [OF laws v] append_head [OF run] v show ?thesis
    by (auto simp: honest_response_def log_reports_def)
qed

lemma close_honest:
  assumes laws: "hex_round_trips lib" "signatures_verify lib key" "json_lines lib events"
    and w: "verified_writer lib key events w es vs" and run: "close lib w = (Inr ck, w')"
  shows "honest_response lib key (Closed ck, current_log w')"
proof -
  note run = run [unfolded close_def]
  from write_checkpoint_verified [OF laws(1,2) w run] obtain vs'
    where v: "verified_writer lib key events w' (es @ [Checkpoint ck]) vs'" and "vs_final_checkpoint vs'" by blast
  moreover from write_checkpoint_Ok [OF run] have "cb_sequence (ck_body ck) = lw_sequence w'"
    by (auto simp: signed_checkpoint_def checkpoint_body_of_def)
  ultimately show ?thesis
    using verified_writer_reports [OF laws v] by (auto simp: honest_response_def log_reports_def)
qed

lemma serve_honest:
  assumes laws: "hex_round_trips lib" "signatures_verify lib key" "json_lines lib events"
    and "verified_writer lib key events w es vs"
    and "\<forall>sent \<in> set trace. honest_response lib key sent"
    and "sent \<in> set (snd (serve sv lib st w trace))"
    and "set (requested_events sv st) \<subseteq> events"
  shows "honest_response lib key sent"
  using assms
proof (induction sv lib st w trace arbitrary: es vs rule: serve.induct)
  case (1 sv lib st w trace)
  have error: "honest_response lib key (ErrorResponse m, log)" for m log
    by (simp add: honest_response_def)
  note refused = send_honest [OF error "1.prems"(5)]
  show ?case
  proof (cases "read_request_line st")
    case (Pair got st')
    show ?thesis
    proof (cases "\<exists>line event rec w'. got = Inr (Some line) \<and> sv_request sv line = Some (AppendRequest event) \<and>
                    append_event lib event w = (Inr rec, w')")
      case True
      then obtain line event rec w' where got: "got = Inr (Some line)" "sv_request sv line = Some (AppendRequest event)"
        and run: "append_event lib event w = (Inr rec, w')" by blast
      let ?ack = "Ack (rb_sequence (ar_body rec)) (ar_record_hash rec)"
      have "event \<in> events" and later: "set (requested_events sv st') \<subseteq> events"
        using requested_events_line [OF Pair [unfolded got(1)]] got(2) "1.prems"(7) by blast+
      from append_ack_honest [OF "1.prems"(1,2,3,4) this(1) run] obtain es' vs'
        where v: "verified_writer lib key events w' es' vs'"
          and ack: "honest_response lib key (?ack, current_log w')" by blast
      obtain r trace' where s: "send sv ?ack (current_log w') trace = (r, trace')" by fastforce
      with send_trace [OF s] ack "1.prems"(5) have tr: "\<forall>sent \<in> set trace'. honest_response lib key sent" by auto
      show ?thesis
      proof (cases r)
        case (Inl e)
        with Pair got run s tr "1.prems"(6) show ?thesis by (simp add: serve.simps)
      next
        case (Inr u)
        with Pair got run s "1.prems"(6) have "sent \<in> set (snd (serve sv lib st' w' trace'))"
          by (simp add: serve.simps [of sv lib st])
        with "1.IH" [OF Pair [symmetric] got(1) refl got(2) refl run [symmetric] refl s [symmetric] Inr
            "1.prems"(1,2,3) v tr] later show ?thesis by blast
      qed
    next
      case False
      then show ?thesis
        using Pair "1.prems"(6) "1.prems"(5) refused send_honest(1) [OF close_honest [OF "1.prems"(1,2,3,4)] "1.prems"(5)]
        by (auto simp: serve.simps [of sv lib st] refuse_def
                 split: sum.splits option.splits client_request.splits prod.splits)
    qed
  qed
qed

lemma read_until_line:
  assumes "lf \<notin> set l" "length l < limit"
  shows "read_until limit (l @ lf # rest) = (l @ [lf], rest)"
proof -
  from assms(2) have t: "take limit (l @ lf # rest) = l @ lf # take (limit - Suc (length l)) rest"
    by (cases "limit - length l") (auto simp: Suc_diff_Suc diff_Suc)
  have "takeWhile (\<lambda>c. c \<noteq> lf) (l @ lf # take (limit - Suc (length l)) rest) = l"
    using assms(1) by (subst takeWhile_append2) auto
  with t show ?thesis by (simp add: read_until_def)
qed

lemma read_request_line_line:
  assumes "lf \<notin> set l" "length l < MAX_REQUEST_BYTES" "valid_utf8 (l @ [lf])"
  shows "read_request_line \<lparr>is_bytes = l @ lf # rest, is_broken = b\<rparr> =
           (Ok (Some (l @ [lf])), \<lparr>is_bytes = rest, is_broken = b\<rparr>)"
  using assms read_until_line [of l "MAX_REQUEST_BYTES + 1" rest]
  by (simp add: read_request_line_def)

definition served ::
  "service_env \<Rightarrow> audit_lib \<Rightarrow> audit_setup \<Rightarrow> audit_os \<Rightarrow> signing_identity \<Rightarrow> nat \<Rightarrow> in_stream \<Rightarrow>
   server_response \<times> bytes \<Rightarrow> bool" where
  "served sv lib se os identity interval st sent \<longleftrightarrow>
     (\<exists>uid w v i s log line st'. create se os identity uid interval = Ok w \<and>
        read_request_line st = (Inr (Some line), st') \<and>
        sent \<in> set (snd (serve sv lib st' w [(Opened v i s, log)])))"

lemma servedI:
  "create se os identity uid interval = Ok w \<Longrightarrow> read_request_line st = (Inr (Some line), st') \<Longrightarrow>
   serve sv lib st' w [(Opened v i s, log)] = (result, trace) \<Longrightarrow>
   sent \<in> set trace \<Longrightarrow> served sv lib se os identity interval st sent"
  unfolding served_def by (metis snd_conv)

lemma handle_client_sent:
  assumes "handle_client sv lib se os identity interval st = (result, trace)" "sent \<in> set trace"
  shows "(\<exists>m log. sent = (ErrorResponse m, log)) \<or> (\<exists>v i s log. sent = (Opened v i s, log)) \<or>
         served sv lib se os identity interval st sent"
  using assms
  by (auto simp: handle_client_def refuse_def send_def
        split: option.splits prod.splits sum.splits client_request.splits if_splits
        intro: servedI)

text \<open>
  C30. The service never acknowledges what is not in the log. At the moment it sends the
  acknowledgement of a record, the log file verifies with exactly as many records as the
  acknowledged sequence number and with the acknowledged hash as its chain head; at the moment it
  reports a session closed, the log verifies with its final checkpoint. Hexadecimal coding and
  signatures keep their laws, and the entries for the events that this connection asks to append
  print on one line that parses back to them.
\<close>

theorem acknowledged_records_are_durable:
  assumes "hex_round_trips lib" "signatures_verify lib key" "json_lines lib (set (requested_events sv st))"
    and "handle_client sv lib se os \<lparr>si_signing_key = key, si_key_id = key_id_of lib (al_public_key lib key)\<rparr>
           interval st = (result, trace)"
    and "(response, log) \<in> set trace"
  shows "case response of
           Ack n hash \<Rightarrow> \<exists>r. verify_log lib (Some log) (Some (al_hex_encode lib (al_public_key lib key) @ [lf])) = Ok r \<and>
                              vr_records r = n \<and> vr_chain_head r = hash
         | Closed ck \<Rightarrow> \<exists>r. verify_log lib (Some log) (Some (al_hex_encode lib (al_public_key lib key) @ [lf])) = Ok r \<and>
                              vr_final_checkpoint r \<and> vr_records r = cb_sequence (ck_body ck)
         | _ \<Rightarrow> True"
proof -
  have "honest_response lib key (response, log)"
    if served: "served sv lib se os \<lparr>si_signing_key = key, si_key_id = key_id_of lib (al_public_key lib key)\<rparr>
        interval st (response, log)"
  proof -
    from served obtain uid w v i s log0 line st'
      where w: "create se os \<lparr>si_signing_key = key, si_key_id = key_id_of lib (al_public_key lib key)\<rparr> uid interval = Ok w"
        and line: "read_request_line st = (Inr (Some line), st')"
        and sent: "(response, log) \<in> set (snd (serve sv lib st' w [(Opened v i s, log0)]))"
      unfolding served_def by blast
    from create_verified [OF w]
    have "verified_writer lib key (set (requested_events sv st)) w [] verify_init" by blast
    then show ?thesis
      by (rule serve_honest [OF assms(1,2,3) _ _ sent requested_events_line(1) [OF line]])
         (simp add: honest_response_def)
  qed
  with handle_client_sent [OF assms(4,5)] have "honest_response lib key (response, log)"
    by (auto simp: honest_response_def)
  then show ?thesis
    by (auto simp: honest_response_def log_reports_def split: server_response.splits)
qed

definition demo_service :: service_env where
  "demo_service =
     \<lparr>sv_request = (\<lambda>line. if line = ''o'' @ [lf] then Some (OpenRequest 6 ''v'')
                            else if line = ''a'' @ [lf] then Some (AppendRequest (EvSessionEnded ''exit''))
                            else if line = ''q'' @ [lf] then Some CloseRequest else None),
      sv_send_ok = (\<lambda>_. True), sv_peer_uid = Some 1000, sv_debug = (\<lambda>_. [])\<rparr>"

lemma demo_request_line:
  "c \<in> {CHR ''o'', CHR ''a'', CHR ''q''} \<Longrightarrow>
   read_request_line \<lparr>is_bytes = c # lf # rest, is_broken = False\<rparr> =
     (Ok (Some (c # [lf])), \<lparr>is_bytes = rest, is_broken = False\<rparr>)"
  using read_request_line_line [of "[c]" rest False]
  by (auto simp: MAX_REQUEST_BYTES_def lf_def char_of_def)

lemma demo_session:
  "handle_client demo_service demo_lib demo_setup demo_os demo_identity 2
     \<lparr>is_bytes = [CHR ''o'', lf, CHR ''a'', lf, CHR ''q'', lf], is_broken = False\<rparr> =
   (Ok (), [(Opened 6 ''s'' (si_key_id demo_identity), []),
            (Ack 1 (demo_hex (RECORD_DOMAIN @ ''r'')), ''r'' @ [lf]),
            (Closed demo_checkpoint, ''r'' @ [lf] @ ''c'' @ [lf])])"
proof -
  have app: "append_event demo_lib (EvSessionEnded ''exit'') demo_open = (Ok demo_record, demo_appended)"
    using demo_append by (auto simp: bind_w_Ok)
  have ids: "lw_session_id demo_open = ''s''" "lw_identity demo_open = demo_identity" "current_log demo_open = []"
    "current_log demo_appended = ''r'' @ [lf]" "current_log demo_closed = ''r'' @ [lf] @ ''c'' @ [lf]"
    "rb_sequence (ar_body demo_record) = 1" "ar_record_hash demo_record = demo_hex (RECORD_DOMAIN @ ''r'')"
    by (simp_all add: demo_open_def demo_appended_def demo_closed_def current_log_def demo_os_def demo_record_def demo_body_def)
  show ?thesis
    by (simp add: handle_client_def demo_service_def demo_request_line AUDIT_PROTOCOL_VERSION_def demo_create
        send_def serve.simps app demo_close ids)
qed

theorem acknowledged_records_are_durable_witness:
  "\<exists>r. verify_log demo_lib (Some (''r'' @ [lf])) (Some (demo_hex demo_key @ [lf])) = Ok r \<and>
       vr_records r = 1 \<and> vr_chain_head r = demo_hex (RECORD_DOMAIN @ ''r'')"
  using acknowledged_records_are_durable [OF demo_laws(1,2,3) demo_session [unfolded demo_identity_def],
      of "Ack 1 (demo_hex (RECORD_DOMAIN @ ''r''))" "''r'' @ [lf]"]
  by (simp add: demo_lib_def)

section \<open>The client\<close>

text \<open>
  The socket of the client: sending a request and reading up to a line feed within a byte limit,
  both under the deadline of the exchange, with the link's own state.
\<close>

datatype io_kind = TimedOut | WouldBlock | OtherIo

record 'p link =
  ln_connect :: "'p \<Rightarrow> bool \<times> 'p"
  ln_send :: "nat \<Rightarrow> client_request \<Rightarrow> 'p \<Rightarrow> (io_kind, unit) result \<times> 'p"
  ln_read_until :: "nat \<Rightarrow> nat \<Rightarrow> 'p \<Rightarrow> (io_kind, bytes) result \<times> 'p"
  ln_response :: "bytes \<Rightarrow> server_response option"

record 'p audit_client =
  cl_session_id :: string
  cl_signing_key_id :: string
  cl_timeout :: nat
  cl_failed :: bool
  cl_link :: 'p

datatype client_error =
    CannotConnect
  | ConnectionReused
  | ClosedByService
  | ResponseTooLong
  | InvalidResponse
  | IoFailed io_kind
  | DeadlineMissed nat io_kind
  | Rejected string
  | ProtocolMismatch nat
  | Unexpected server_response

definition MAX_RESPONSE_BYTES :: nat where
  "MAX_RESPONSE_BYTES = 1024 * 1024"

definition receive :: "'p link \<Rightarrow> nat \<Rightarrow> 'p \<Rightarrow> ('p, client_error, server_response) outcome" where
  "receive ln timeout p =
     (case ln_read_until ln timeout (MAX_RESPONSE_BYTES + 1) p of
        (Inl k, p) \<Rightarrow> (Err (IoFailed k), p)
      | (Inr got, p) \<Rightarrow>
          if got = [] then (Err ClosedByService, p)
          else if length got > MAX_RESPONSE_BYTES \<or> last got \<noteq> lf then (Err ResponseTooLong, p)
          else (ok_or InvalidResponse (ln_response ln got), p))"

definition with_deadline :: "nat \<Rightarrow> client_error \<Rightarrow> client_error" where
  "with_deadline timeout e =
     (case e of IoFailed k \<Rightarrow> if k = TimedOut \<or> k = WouldBlock then DeadlineMissed timeout k else e | _ \<Rightarrow> e)"

definition exchange ::
  "'p link \<Rightarrow> client_request \<Rightarrow> 'p audit_client \<Rightarrow> ('p audit_client, client_error, server_response) outcome" where
  "exchange ln request c =
     (if cl_failed c then (Err ConnectionReused, c)
      else
        let (result, p) =
          (case ln_send ln (cl_timeout c) request (cl_link c) of
             (Inl k, p) \<Rightarrow> (Err (IoFailed k), p)
           | (Inr _, p) \<Rightarrow> receive ln (cl_timeout c) p) in
        case result of
          Inl e \<Rightarrow> (Err (with_deadline (cl_timeout c) e), c\<lparr>cl_link := p, cl_failed := True\<rparr>)
        | Inr response \<Rightarrow> (Ok response, c\<lparr>cl_link := p\<rparr>))"

definition connect_with_timeout ::
  "'p link \<Rightarrow> string \<Rightarrow> nat \<Rightarrow> 'p \<Rightarrow> (client_error, 'p audit_client) result \<times> 'p" where
  "connect_with_timeout ln client_version timeout p =
     (case ln_connect ln p of
        (False, p) \<Rightarrow> (Err CannotConnect, p)
      | (True, p) \<Rightarrow>
          let client = \<lparr>cl_session_id = [], cl_signing_key_id = [], cl_timeout = timeout, cl_failed = False, cl_link = p\<rparr> in
          case exchange ln (open_request client_version) client of
            (Inl e, c) \<Rightarrow> (Err e, cl_link c)
          | (Inr response, c) \<Rightarrow>
              (case response of
                 Opened protocol_version session_id signing_key_id \<Rightarrow>
                   if protocol_version \<noteq> AUDIT_PROTOCOL_VERSION then Err (ProtocolMismatch protocol_version)
                   else Ok (c\<lparr>cl_session_id := session_id, cl_signing_key_id := signing_key_id\<rparr>)
               | ErrorResponse message \<Rightarrow> Err (Rejected message)
               | response \<Rightarrow> Err (Unexpected response), cl_link c))"

definition client_append ::
  "'p link \<Rightarrow> audit_event \<Rightarrow> 'p audit_client \<Rightarrow> ('p audit_client, client_error, nat \<times> string) outcome" where
  "client_append ln event c =
     bind_w (exchange ln (AppendRequest event) c) (\<lambda>response c.
       (case response of
          Ack n hash \<Rightarrow> Ok (n, hash)
        | ErrorResponse message \<Rightarrow> Err (Rejected message)
        | response \<Rightarrow> Err (Unexpected response), c))"

definition client_close ::
  "'p link \<Rightarrow> 'p audit_client \<Rightarrow> ('p audit_client, client_error, audit_checkpoint) outcome" where
  "client_close ln c =
     bind_w (exchange ln CloseRequest c) (\<lambda>response c.
       (case response of
          Closed ck \<Rightarrow> Ok ck
        | ErrorResponse message \<Rightarrow> Err (Rejected message)
        | response \<Rightarrow> Err (Unexpected response), c))"

fun client_appends ::
  "'p link \<Rightarrow> audit_event list \<Rightarrow> 'p audit_client \<Rightarrow> (client_error, nat \<times> string) result list \<times> 'p audit_client" where
  "client_appends ln [] c = ([], c)"
| "client_appends ln (event # events) c =
     (let (r, c) = client_append ln event c; (rs, c) = client_appends ln events c in (r # rs, c))"

lemma client_appends_failed:
  "cl_failed c \<Longrightarrow> client_appends ln events c = (map (\<lambda>_. Err ConnectionReused) events, c)"
  by (induction events) (simp_all add: client_append_def exchange_def)

lemma exchange_failed:
  "exchange ln request c = (Inl e, c') \<Longrightarrow> cl_failed c'"
  by (auto simp: exchange_def Let_def split: if_splits sum.splits prod.splits)

text \<open>
  A connection on which an exchange failed is never used again: whatever events follow, every
  append is an error, nothing is sent, and no record is taken as acknowledged.
\<close>

theorem failed_client_stays_failed:
  assumes "exchange ln request c = (Err e, c')"
  shows "client_appends ln events c' = (map (\<lambda>_. Err ConnectionReused) events, c')
         \<and> client_close ln c' = (Err ConnectionReused, c')"
proof -
  from assms have failed: "cl_failed c'" by (rule exchange_failed)
  then show ?thesis
    by (simp add: client_appends_failed client_close_def exchange_def)
qed

definition demo_link :: "nat link" where
  "demo_link = \<lparr>ln_connect = (\<lambda>p. (True, p)), ln_send = (\<lambda>_ _ p. (Ok (), Suc p)),
                ln_read_until = (\<lambda>_ _ p. (Err TimedOut, p)), ln_response = (\<lambda>_. None)\<rparr>"

definition demo_client :: "nat audit_client" where
  "demo_client = \<lparr>cl_session_id = ''s'', cl_signing_key_id = [], cl_timeout = 5000, cl_failed = False, cl_link = 0\<rparr>"

theorem failed_client_stays_failed_witness:
  "client_appends demo_link [EvAgentError ''x''] (demo_client\<lparr>cl_link := 1, cl_failed := True\<rparr>) =
     ([Err ConnectionReused], demo_client\<lparr>cl_link := 1, cl_failed := True\<rparr>)"
proof -
  have "exchange demo_link CloseRequest demo_client =
          (Err (DeadlineMissed 5000 TimedOut), demo_client\<lparr>cl_link := 1, cl_failed := True\<rparr>)"
    by (simp add: exchange_def demo_link_def demo_client_def receive_def with_deadline_def)
  from failed_client_stays_failed [OF this, of "[EvAgentError ''x'']"] show ?thesis by simp
qed

end
