(* ===== verification/Topo.thy ===== *)
theory Topo
  imports Rust_Std "HOL-Library.AList"
begin

text \<open>
  Counting-degree traversal of a dependency graph. Two loops of the program are instances: the
  cycle check of \<^verbatim>\<open>crates/xshell-flow/src/validate.rs\<close> (a first-in first-out queue) and the
  task order of \<^verbatim>\<open>crates/xshell-plan/src/lower.rs\<close> (an ordered set). The interface between
  the loop and its queue is the locale \<open>ready_queue\<close>; both queues interpret it.
\<close>

section \<open>Ordered maps\<close>

text \<open>\<open>BTreeMap\<close> as the list of its entries in key order.\<close>

fun btm_insert :: "'k::linorder \<Rightarrow> 'v \<Rightarrow> ('k \<times> 'v) list \<Rightarrow> ('k \<times> 'v) list" where
  "btm_insert k v [] = [(k, v)]"
| "btm_insert k v ((k', v') # m) =
     (if k < k' then (k, v) # (k', v') # m
      else if k = k' then (k, v) # m
      else (k', v') # btm_insert k v m)"

definition btm_of :: "('k::linorder \<times> 'v) list \<Rightarrow> ('k \<times> 'v) list" where
  "btm_of kvs = foldl (\<lambda>m (k, v). btm_insert k v m) [] kvs"

lemma map_of_btm_insert [btm_simps]: "map_of (btm_insert k v m) = (map_of m)(k \<mapsto> v)"
  by (induction k v m rule: btm_insert.induct) auto

lemma keys_btm_insert [btm_simps]: "set (map fst (btm_insert k v m)) = insert k (set (map fst m))"
  by (induction k v m rule: btm_insert.induct) auto

lemma sorted_btm_insert: "sorted_wrt (<) (map fst m) \<Longrightarrow> sorted_wrt (<) (map fst (btm_insert k v m))"
proof (induction k v m rule: btm_insert.induct)
  case (2 k v k' v' m)
  have "x \<in> set (map fst (btm_insert k v m)) \<longleftrightarrow> x = k \<or> x \<in> set (map fst m)" for x
    by (simp only: keys_btm_insert insert_iff)
  then show ?case using 2 by (auto simp del: set_map dest: less_trans)
qed simp

lemma btm_of_snoc: "btm_of (kvs @ [(k, v)]) = btm_insert k v (btm_of kvs)"
  by (simp add: btm_of_def)

lemma map_of_btm_of: "map_of (btm_of kvs) = map_of (rev kvs)"
  by (induction kvs rule: rev_induct) (auto simp: btm_of_def btm_simps)

lemma sorted_btm_of: "sorted_wrt (<) (map fst (btm_of kvs))"
  by (induction kvs rule: rev_induct) (auto simp: btm_of_def sorted_btm_insert)

lemma keys_btm_of: "set (map fst (btm_of kvs)) = set (map fst kvs)"
proof (induction kvs rule: rev_induct)
  case (snoc kv kvs)
  then show ?case by (cases kv) (simp only: btm_of_snoc keys_btm_insert, auto)
qed (simp add: btm_of_def)

section \<open>Queues\<close>

datatype ready_policy = Fifo | Ordered

text \<open>\<open>push_back\<close> on a \<open>VecDeque\<close>, \<open>insert\<close> on a \<open>BTreeSet\<close>. Both pop at the front.\<close>

definition push_ready :: "ready_policy \<Rightarrow> 'a::linorder \<Rightarrow> 'a list \<Rightarrow> 'a list" where
  "push_ready p s q = (case p of Fifo \<Rightarrow> q @ [s] | Ordered \<Rightarrow> insort_insert s q)"

locale ready_queue =
  fixes push :: "'a \<Rightarrow> 'a list \<Rightarrow> 'a list"
  assumes set_push: "set (push s q) = insert s (set q)"
    and distinct_push: "distinct q \<Longrightarrow> s \<notin> set q \<Longrightarrow> distinct (push s q)"
    and length_push: "length (push s q) \<le> Suc (length q)"

interpretation ready: ready_queue "push_ready p"
proof
  fix s :: 'a and q
  show "set (push_ready p s q) = insert s (set q)"
    by (cases p) (auto simp: push_ready_def set_insort_insert)
  show "length (push_ready p s q) \<le> Suc (length q)"
    by (cases p) (auto simp: push_ready_def insort_insert_key_def)
  assume "distinct q" "s \<notin> set q"
  then show "distinct (push_ready p s q)"
    by (cases p) (auto simp: push_ready_def distinct_insort_insert)
qed

section \<open>The traversal\<close>

text \<open>
  The body of the loop: every successor loses one incoming edge, and is pushed when none is left.
  A successor without a counter, or with a counter that is already zero, is a panic.
\<close>

fun relax ::
  "('a \<Rightarrow> 'a list \<Rightarrow> 'a list) \<Rightarrow> 'a list \<Rightarrow> ('a \<times> nat) list \<Rightarrow> 'a list \<Rightarrow> (('a \<times> nat) list \<times> 'a list) option" where
  "relax push [] degree q = Some (degree, q)"
| "relax push (s # ss) degree q =
     (case map_of degree s of
        None \<Rightarrow> None
      | Some 0 \<Rightarrow> None
      | Some (Suc d) \<Rightarrow> relax push ss (AList.update s d degree) (if d = 0 then push s q else q))"

lemma sum_update:
  "map_of degree s = Some (Suc d) \<Longrightarrow> Suc (sum_list (map snd (AList.update s d degree))) = sum_list (map snd degree)"
  by (induction degree) (auto split: if_splits)

context ready_queue
begin

lemma relax_measure:
  "relax push ss degree q = Some (degree', q') \<Longrightarrow>
   sum_list (map snd degree') + length q' \<le> sum_list (map snd degree) + length q"
proof (induction ss arbitrary: degree q)
  case (Cons s ss)
  then obtain d where d: "map_of degree s = Some (Suc d)"
    and r: "relax push ss (AList.update s d degree) (if d = 0 then push s q else q) = Some (degree', q')"
    by (auto split: option.splits nat.splits)
  from Cons.IH [OF r] sum_update [OF d] length_push [of s q] show ?case
    by (auto split: if_splits)
qed simp

lemma relax_spec:
  assumes "\<forall>v \<in> set ss. \<exists>d. map_of degree v = Some d \<and> count_list ss v \<le> d"
    and "set ss \<inter> set q = {}" and "distinct q"
  shows "\<exists>degree' q'. relax push ss degree q = Some (degree', q') \<and>
           (\<forall>v. map_of degree' v = map_option (\<lambda>d. d - count_list ss v) (map_of degree v)) \<and>
           distinct q' \<and> set q' = set q \<union> {v \<in> set ss. map_of degree v = Some (count_list ss v)}"
  using assms
proof (induction ss arbitrary: degree q)
  case (Cons s ss)
  from Cons.prems(1) obtain e where "map_of degree s = Some e" "Suc (count_list ss s) \<le> e" by auto
  then obtain d where d: "map_of degree s = Some (Suc d)" "count_list ss s \<le> d"
    by (cases e) auto
  let ?degree = "AList.update s d degree" and ?q = "if d = 0 then push s q else q"
  have up: "map_of ?degree = (map_of degree)(s \<mapsto> d)" by (simp add: update_conv')
  have "\<forall>v \<in> set ss. \<exists>e. map_of ?degree v = Some e \<and> count_list ss v \<le> e"
    using Cons.prems(1) d(2) by (auto simp: up)
  moreover have "set ss \<inter> set ?q = {}"
    using Cons.prems(2) d(2) by (auto simp: set_push count_list_0_iff)
  moreover have "distinct ?q"
    using Cons.prems by (auto intro: distinct_push)
  ultimately obtain degree' q' where r: "relax push ss ?degree ?q = Some (degree', q')"
    and deg: "\<forall>v. map_of degree' v = map_option (\<lambda>d. d - count_list ss v) (map_of ?degree v)"
    and q: "distinct q'" "set q' = set ?q \<union> {v \<in> set ss. map_of ?degree v = Some (count_list ss v)}"
    using Cons.IH by blast
  have "set q' = set q \<union> {v \<in> set (s # ss). map_of degree v = Some (count_list (s # ss) v)}"
    using q(2) d Cons.prems(2) by (auto simp: up set_push count_list_0_iff split: if_splits)
  with r deg q(1) d show ?case
    by (intro exI [of _ degree'] exI [of _ q']) (auto simp: up)
qed (auto simp: option.map_ident)

end

function drain ::
  "ready_policy \<Rightarrow> ('a::linorder \<Rightarrow> 'a list) \<Rightarrow> ('a \<times> nat) list \<Rightarrow> 'a list \<Rightarrow> 'a list \<Rightarrow> 'a list option" where
  "drain p out degree [] order = Some order"
| "drain p out degree (node # q) order =
     (case relax (push_ready p) (out node) degree q of
        None \<Rightarrow> None
      | Some (degree', q') \<Rightarrow> drain p out degree' q' (order @ [node]))"
  by pat_completeness auto
termination
  by (relation "measure (\<lambda>(p, out, degree, q, order). sum_list (map snd degree) + length q)")
     (auto dest: ready.relax_measure)

section \<open>Correctness\<close>

text \<open>
  \<open>rem_degree\<close> is the number of edges into a node whose source has not been visited; \<open>topo_sorted\<close>
  says that a list has every source of an edge before its target.
\<close>

definition rem_degree :: "('a \<times> 'a) list \<Rightarrow> 'a list \<Rightarrow> 'a \<Rightarrow> nat" where
  "rem_degree es order v = length (filter (\<lambda>(a, b). b = v \<and> a \<notin> set order) es)"

definition successors :: "('a \<times> 'a) list \<Rightarrow> 'a \<Rightarrow> 'a list" where
  "successors es a = map snd (filter (\<lambda>e. fst e = a) es)"

definition topo_sorted :: "('a \<times> 'a) set \<Rightarrow> 'a list \<Rightarrow> bool" where
  "topo_sorted E xs \<longleftrightarrow> (\<forall>i < length xs. \<forall>a. (a, xs ! i) \<in> E \<longrightarrow> a \<in> set (take i xs))"

lemma topo_sorted_Nil [simp]: "topo_sorted E []"
  by (simp add: topo_sorted_def)

lemma topo_sorted_snoc [simp]:
  "topo_sorted E (xs @ [x]) \<longleftrightarrow> topo_sorted E xs \<and> (\<forall>a. (a, x) \<in> E \<longrightarrow> a \<in> set xs)"
  by (auto simp: topo_sorted_def nth_append less_Suc_eq all_conj_distrib)

lemma rem_degree_0_iff: "rem_degree es order v = 0 \<longleftrightarrow> (\<forall>a. (a, v) \<in> set es \<longrightarrow> a \<in> set order)"
  by (auto simp: rem_degree_def filter_empty_conv)

lemma rem_degree_snoc:
  "n \<notin> set order \<Longrightarrow> rem_degree es order v = rem_degree es (order @ [n]) v + count_list (successors es n) v"
  by (induction es) (auto simp: rem_degree_def successors_def)

lemma acyclic_into:
  assumes "acyclic r" and "\<And>b. (n, b) \<notin> r" and "n \<notin> A"
  shows "acyclic (r \<union> A \<times> {n})"
proof (rule acyclicI, intro allI notI)
  fix x assume loop: "(x, x) \<in> (r \<union> A \<times> {n})\<^sup>+"
  have stuck: "(n, b) \<notin> (r \<union> A \<times> {n})\<^sup>+" for b
    using assms(2,3) by (auto dest: tranclD)
  have avoid: "(a, b) \<in> (r \<union> A \<times> {n})\<^sup>+ \<Longrightarrow> b \<noteq> n \<Longrightarrow> (a, b) \<in> r\<^sup>+" for a b
  proof (induction rule: trancl.induct)
    case (trancl_into_trancl a b c)
    then have "b \<noteq> n" using assms(2,3) by auto
    with trancl_into_trancl show ?case by (auto intro: trancl.trancl_into_trancl)
  qed auto
  from loop stuck have "x \<noteq> n" by auto
  with avoid loop assms(1) show False by (auto simp: acyclic_def)
qed

lemma topo_sorted_acyclic:
  "topo_sorted E xs \<Longrightarrow> distinct xs \<Longrightarrow> acyclic {(a, b) \<in> E. b \<in> set xs}"
proof (induction xs rule: rev_induct)
  case (snoc x xs)
  let ?r = "{(a, b) \<in> E. b \<in> set xs}"
  have closed: "a \<in> set xs" if "(a, b) \<in> ?r" for a b
  proof -
    from that obtain i where "i < length xs" "xs ! i = b" "(a, b) \<in> E"
      by (auto simp: in_set_conv_nth)
    moreover from snoc.prems(1) have "topo_sorted E xs" by simp
    ultimately show ?thesis unfolding topo_sorted_def by (meson in_set_takeD)
  qed
  have "acyclic (?r \<union> {a. (a, x) \<in> E} \<times> {x})"
  proof (rule acyclic_into)
    show "acyclic ?r" using snoc by simp
    show "(x, b) \<notin> ?r" for b
    proof
      assume "(x, b) \<in> ?r"
      then have "x \<in> set xs" by (rule closed)
      with snoc.prems(2) show False by simp
    qed
    show "x \<notin> {a. (a, x) \<in> E}" using snoc.prems by auto
  qed
  moreover have "{(a, b) \<in> E. b \<in> set (xs @ [x])} = ?r \<union> {a. (a, x) \<in> E} \<times> {x}"
    by auto
  ultimately show ?case by simp
qed (simp add: acyclic_def)

lemma acyclic_source:
  assumes "acyclic E" "finite E" "v \<in> W" "\<And>w. w \<in> W \<Longrightarrow> \<exists>u \<in> W. (u, w) \<in> E"
  shows False
proof -
  from assms(1,2) have "wf E" by (rule finite_acyclic_wf [rotated])
  from wfE_min [OF this assms(3)] assms(4) show False by metis
qed

locale degree_walk =
  fixes V :: "'a::linorder list" and es :: "('a \<times> 'a) list" and out :: "'a \<Rightarrow> 'a list"
  assumes edges_inside: "set es \<subseteq> set V \<times> set V"
    and count_out: "count_list (out a) v = count_list (successors es a) v"
begin

definition walk_inv :: "('a \<times> nat) list \<Rightarrow> 'a list \<Rightarrow> 'a list \<Rightarrow> bool" where
  "walk_inv degree q order \<longleftrightarrow>
     (\<forall>v \<in> set V. map_of degree v = Some (rem_degree es order v)) \<and>
     distinct (order @ q) \<and> set order \<subseteq> set V \<and>
     set q = {v \<in> set V. v \<notin> set order \<and> rem_degree es order v = 0} \<and>
     topo_sorted (set es) order"

lemma set_out: "set (out a) = set (successors es a)"
  using count_out count_list_0_iff by (metis subsetI subset_antisym)

lemma walk_step:
  assumes inv: "walk_inv degree (node # q) order"
  shows "\<exists>degree' q'. relax (push_ready p) (out node) degree q = Some (degree', q') \<and>
           walk_inv degree' q' (order @ [node])"
proof -
  from inv have node: "node \<notin> set order" "node \<in> set V" "rem_degree es order node = 0"
    and q: "set (node # q) = {v \<in> set V. v \<notin> set order \<and> rem_degree es order v = 0}"
    and deg: "\<forall>v \<in> set V. map_of degree v = Some (rem_degree es order v)"
    and dist: "distinct (order @ node # q)" and ts: "topo_sorted (set es) order"
    by (auto simp: walk_inv_def)
  have split: "rem_degree es order v = rem_degree es (order @ [node]) v + count_list (out node) v" for v
    using rem_degree_snoc [OF node(1)] count_out by simp
  have outV: "set (out node) \<subseteq> set V"
    using edges_inside by (auto simp: set_out successors_def)
  have avail: "\<forall>v \<in> set (out node). \<exists>d. map_of degree v = Some d \<and> count_list (out node) v \<le> d"
    using deg outV split by auto
  have pos: "v \<in> set (out node) \<Longrightarrow> 0 < rem_degree es order v" for v
    using split [of v] count_list_0_iff [of "out node" v] by auto
  have disj: "set (out node) \<inter> set q = {}"
  proof (intro equals0I, elim IntE)
    fix v assume "v \<in> set (out node)" "v \<in> set q"
    with pos [of v] q show False by (metis (mono_tags, lifting) less_irrefl list.set_intros(2) mem_Collect_eq)
  qed
  have "distinct q" using dist by simp
  with avail disj obtain degree' q' where r: "relax (push_ready p) (out node) degree q = Some (degree', q')"
    and deg': "\<forall>v. map_of degree' v = map_option (\<lambda>d. d - count_list (out node) v) (map_of degree v)"
    and q': "distinct q'" "set q' = set q \<union> {v \<in> set (out node). map_of degree v = Some (count_list (out node) v)}"
    using ready.relax_spec [of "out node" degree q p] by blast
  have zero: "rem_degree es order v = 0 \<Longrightarrow> rem_degree es (order @ [node]) v = 0" for v
    using split [of v] by simp
  have preds: "(a, node) \<in> set es \<Longrightarrow> a \<in> set order" for a
    using node(3) by (auto simp: rem_degree_0_iff)
  have "v \<in> set q' \<longleftrightarrow> v \<in> set V \<and> v \<notin> set (order @ [node]) \<and> rem_degree es (order @ [node]) v = 0" for v
  proof (cases "v \<in> set (out node)")
    case True
    then have "v \<in> set V" "v \<notin> set q" "0 < rem_degree es order v" "v \<noteq> node"
      using outV disj pos [OF True] node(3) by auto
    moreover have "v \<notin> set order"
    proof
      assume "v \<in> set order"
      then obtain i where "i < length order" "order ! i = v" by (auto simp: in_set_conv_nth)
      with ts have "\<forall>a. (a, v) \<in> set es \<longrightarrow> a \<in> set order"
        by (auto simp: topo_sorted_def dest: in_set_takeD)
      with \<open>0 < rem_degree es order v\<close> show False by (auto simp: rem_degree_0_iff [symmetric])
    qed
    ultimately show ?thesis using q' deg split [of v] True by auto
  next
    case False
    then have "rem_degree es (order @ [node]) v = rem_degree es order v"
      using split [of v] count_list_0_iff [of "out node" v] by simp
    then show ?thesis using q q' False dist by auto
  qed
  then have "set q' = {v \<in> set V. v \<notin> set (order @ [node]) \<and> rem_degree es (order @ [node]) v = 0}" by blast
  moreover have "\<forall>v \<in> set V. map_of degree' v = Some (rem_degree es (order @ [node]) v)"
    using deg deg' split by simp
  ultimately have "walk_inv degree' q' (order @ [node])"
    using dist q'(1) node inv ts preds by (auto simp: walk_inv_def)
  with r show ?thesis by blast
qed

lemma drain_walk:
  "walk_inv degree q order \<Longrightarrow> \<exists>final degree'. drain p out degree q order = Some final \<and> walk_inv degree' [] final"
proof (induction "sum_list (map snd degree) + length q" arbitrary: degree q order rule: less_induct)
  case less
  show ?case
  proof (cases q)
    case Nil
    with less.prems show ?thesis by auto
  next
    case (Cons node rest)
    with walk_step less.prems obtain degree' q'
      where r: "relax (push_ready p) (out node) degree rest = Some (degree', q')"
        and inv: "walk_inv degree' q' (order @ [node])" by blast
    from ready.relax_measure [OF r] Cons have "sum_list (map snd degree') + length q' < sum_list (map snd degree) + length q"
      by simp
    from less.hyps [OF this inv] r Cons show ?thesis by simp
  qed
qed

lemma walk_end:
  assumes "walk_inv degree [] order"
  shows "set order = set V \<longleftrightarrow> acyclic (set es)"
proof
  assume "set order = set V"
  with edges_inside have "{(a, b) \<in> set es. b \<in> set order} = set es" by auto
  with topo_sorted_acyclic [of "set es" order] assms show "acyclic (set es)"
    by (simp add: walk_inv_def)
next
  assume ac: "acyclic (set es)"
  let ?W = "set V - set order"
  have "\<exists>u \<in> ?W. (u, w) \<in> set es" if "w \<in> ?W" for w
  proof -
    from that assms obtain a where "(a, w) \<in> set es" "a \<notin> set order"
      by (auto simp: walk_inv_def rem_degree_0_iff)
    with edges_inside show ?thesis by blast
  qed
  with acyclic_source [OF ac] have "?W = {}" by blast
  with assms show "set order = set V" by (auto simp: walk_inv_def)
qed

theorem drain_correct:
  assumes "distinct V" "\<forall>v \<in> set V. map_of degree v = Some (rem_degree es [] v)"
    and "distinct q" "set q = {v \<in> set V. rem_degree es [] v = 0}"
  obtains order where "drain p out degree q [] = Some order" "distinct order" "set order \<subseteq> set V"
    "topo_sorted (set es) order" "set order = set V \<longleftrightarrow> acyclic (set es)" "length order = length V \<longleftrightarrow> acyclic (set es)"
proof -
  have "walk_inv degree q []" using assms by (simp add: walk_inv_def)
  then obtain order degree' where "drain p out degree q [] = Some order" and inv: "walk_inv degree' [] order"
    using drain_walk by blast
  moreover have "length order = length V \<longleftrightarrow> set order = set V"
    using inv assms(1) by (metis (no_types, lifting) List.finite_set append_Nil2 card_subset_eq distinct_card walk_inv_def)
  ultimately show ?thesis
    using that walk_end [OF inv] by (auto simp: walk_inv_def)
qed

end

section \<open>Degrees\<close>

text \<open>The counters: zero for every node, then one more for each edge into a node.\<close>

definition count_edge :: "('a::linorder \<times> 'a) \<Rightarrow> ('a \<times> nat) list \<Rightarrow> ('a \<times> nat) list" where
  "count_edge e degree = btm_insert (snd e) (Suc (case map_of degree (snd e) of None \<Rightarrow> 0 | Some d \<Rightarrow> d)) degree"

definition degrees :: "'a::linorder list \<Rightarrow> ('a \<times> 'a) list \<Rightarrow> ('a \<times> nat) list" where
  "degrees V es = fold count_edge es (map (\<lambda>v. (v, 0)) V)"

definition no_incoming :: "('a \<times> nat) list \<Rightarrow> 'a list" where
  "no_incoming degree = map fst (filter (\<lambda>e. snd e = 0) degree)"

definition visit_order :: "ready_policy \<Rightarrow> ('a::linorder \<Rightarrow> 'a list) \<Rightarrow> 'a list \<Rightarrow> ('a \<times> 'a) list \<Rightarrow> 'a list option" where
  "visit_order p out V es = drain p out (degrees V es) (no_incoming (degrees V es)) []"

lemma map_of_fold_count_edge:
  "map_of (fold count_edge es base) v =
     (if v \<in> snd ` set es \<or> map_of base v \<noteq> None
      then Some ((case map_of base v of None \<Rightarrow> 0 | Some d \<Rightarrow> d) + rem_degree es [] v) else None)"
proof (induction es arbitrary: base)
  case (Cons e es)
  have "rem_degree (e # es) [] v = (if snd e = v then Suc (rem_degree es [] v) else rem_degree es [] v)"
    by (cases e) (auto simp: rem_degree_def)
  moreover have "map_of (count_edge e base) v =
      (if snd e = v then Some (Suc (case map_of base v of None \<Rightarrow> 0 | Some d \<Rightarrow> d)) else map_of base v)"
    by (auto simp: count_edge_def btm_simps)
  ultimately show ?case
    by (cases "map_of base v") (auto simp: Cons.IH)
qed (auto simp: rem_degree_def split: option.splits)

lemma sorted_fold_count_edge:
  "sorted_wrt (<) (map fst base) \<Longrightarrow> sorted_wrt (<) (map fst (fold count_edge es base))"
  by (induction es arbitrary: base) (auto simp: count_edge_def sorted_btm_insert)

lemma map_of_degrees: "v \<in> set V \<Longrightarrow> map_of (degrees V es) v = Some (rem_degree es [] v)"
proof -
  assume "v \<in> set V"
  then have "map_of (map (\<lambda>v. (v, 0 :: nat)) V) v = Some 0" by (induction V) auto
  then show ?thesis by (simp add: degrees_def map_of_fold_count_edge)
qed

lemma dom_degrees: "map_of (degrees V es) v \<noteq> None \<Longrightarrow> v \<in> set V \<or> v \<in> snd ` set es"
proof -
  have "map_of (map (\<lambda>v. (v, 0 :: nat)) V) v \<noteq> None \<Longrightarrow> v \<in> set V" by (induction V) (auto split: if_splits)
  then show "map_of (degrees V es) v \<noteq> None \<Longrightarrow> v \<in> set V \<or> v \<in> snd ` set es"
    by (auto simp: degrees_def map_of_fold_count_edge split: if_splits)
qed

lemma sorted_degrees: "sorted_wrt (<) V \<Longrightarrow> sorted_wrt (<) (map fst (degrees V es))"
  by (simp add: degrees_def sorted_fold_count_edge comp_def)

lemma strictly_sorted_distinct: "sorted_wrt (<) (xs :: 'a::linorder list) \<Longrightarrow> distinct xs"
  by (induction xs) auto

lemma no_incoming_degrees:
  assumes "sorted_wrt (<) V" "set es \<subseteq> set V \<times> set V"
  shows "distinct (no_incoming (degrees V es))"
    and "set (no_incoming (degrees V es)) = {v \<in> set V. rem_degree es [] v = 0}"
proof -
  have d: "distinct (map fst (degrees V es))"
    using sorted_degrees [OF assms(1)] by (rule strictly_sorted_distinct)
  then show "distinct (no_incoming (degrees V es))"
    unfolding no_incoming_def by (rule distinct_map_filter)
  have "v \<in> set (no_incoming (degrees V es)) \<longleftrightarrow> map_of (degrees V es) v = Some 0" for v
    using d by (force simp: no_incoming_def)
  moreover have "map_of (degrees V es) v = Some 0 \<longleftrightarrow> v \<in> set V \<and> rem_degree es [] v = 0" for v
    using map_of_degrees [of v V es] dom_degrees [of V es v] assms(2) by fastforce
  ultimately show "set (no_incoming (degrees V es)) = {v \<in> set V. rem_degree es [] v = 0}" by blast
qed

context degree_walk
begin

theorem visit_order_correct:
  assumes "sorted_wrt (<) V"
  obtains order where "visit_order p out V es = Some order" "distinct order" "set order \<subseteq> set V"
    "topo_sorted (set es) order" "set order = set V \<longleftrightarrow> acyclic (set es)" "length order = length V \<longleftrightarrow> acyclic (set es)"
proof -
  have "\<forall>v \<in> set V. map_of (degrees V es) v = Some (rem_degree es [] v)"
    by (simp add: map_of_degrees)
  from drain_correct [OF strictly_sorted_distinct [OF assms] this no_incoming_degrees [OF assms edges_inside], where p = p]
  show ?thesis using that by (auto simp: visit_order_def)
qed

end

end
