(* ===== verification/Flow_Model.thy ===== *)
theory Flow_Model
  imports Chat Topo "HOL-Library.Product_Lexorder"
begin

text \<open>
  The typed dataflow graph of \<^verbatim>\<open>crates/xshell-flow/src/model.rs\<close>: interface, contracts,
  nodes, edges and regions. A \<open>BTreeMap\<close> is the list of its entries in key order.
\<close>

definition FLOW_SCHEMA_V0 :: string where
  "FLOW_SCHEMA_V0 = ''xshell.flow/v0''"

datatype value_type =
    VBool
  | VInt
  | VString
  | VPath
  | VEvidence
  | VContractReport
  | VReceipt
  | VArtifact "string option" "string option"
  | VList value_type

record port =
  pt_name :: string
  pt_value_type :: value_type
  pt_optional :: bool

record flow_interface =
  fi_inputs :: "port list"
  fi_outputs :: "port list"

datatype contract_expression =
    Predicate string "(string \<times> json) list"
  | AllOf "contract_expression list"
  | AnyOf "contract_expression list"
  | NotClause contract_expression

record contract =
  ct_id :: string
  ct_expression :: contract_expression

record program_reference =
  pr_source :: string
  pr_entrypoint :: "string option"

datatype join_strategy = JoinAll | JoinAny | JoinFirstValid

datatype node_kind =
    InputNode
  | OutputNode
  | TaskNode program_reference
  | GateNode string
  | JoinNode join_strategy
  | PromoteNode "string list"
  | DiscardNode

record capabilities =
  cp_read :: "string list"
  cp_write :: "string list"
  cp_execute :: "string list"
  cp_network :: "string list"

record resources =
  rs_timeout_ms :: "64 word option"
  rs_memory_bytes :: "64 word option"
  rs_output_bytes :: "64 word option"
  rs_attempts :: "32 word option"

record node =
  nd_id :: string
  nd_label :: "string option"
  nd_inputs :: "port list"
  nd_outputs :: "port list"
  nd_kind :: node_kind
  nd_capabilities :: capabilities
  nd_resources :: resources
  nd_annotations :: "(string \<times> json) list"

record endpoint =
  ep_node :: string
  ep_port :: "string option"

datatype gate_outcome = OutcomeValid | OutcomeInvalid | OutcomeError | OutcomeCancelled

datatype edge_kind =
    DataEdge
  | DependencyEdge
  | RouteEdge gate_outcome
  | FeedbackEdge string string

record edge =
  ed_id :: string
  ed_from :: endpoint
  ed_to :: endpoint
  ed_kind :: edge_kind

record gate_outcome_reference =
  go_gate :: string
  go_outcome :: gate_outcome

datatype exhaustion_policy = ExhaustFail | ExhaustYieldLast | ExhaustDiscard

datatype region_kind =
    ScopeRegion
  | ParallelRegion
  | TransactionRegion string
  | LoopRegion "32 word" gate_outcome_reference exhaustion_policy

record region =
  rg_id :: string
  rg_parent :: "string option"
  rg_nodes :: "string list"
  rg_kind :: region_kind
  rg_annotations :: "(string \<times> json) list"

record flow =
  fl_schema :: string
  fl_name :: string
  fl_interface :: flow_interface
  fl_contracts :: "contract list"
  fl_nodes :: "node list"
  fl_edges :: "edge list"
  fl_regions :: "region list"
  fl_annotations :: "(string \<times> json) list"

section \<open>Shape tests\<close>

definition is_feedback :: "edge \<Rightarrow> bool" where
  "is_feedback e \<longleftrightarrow> (case ed_kind e of FeedbackEdge _ _ \<Rightarrow> True | _ \<Rightarrow> False)"

definition is_gate :: "node \<Rightarrow> bool" where
  "is_gate n \<longleftrightarrow> (case nd_kind n of GateNode _ \<Rightarrow> True | _ \<Rightarrow> False)"

definition is_loop :: "region \<Rightarrow> bool" where
  "is_loop r \<longleftrightarrow> (case rg_kind r of LoopRegion _ _ _ \<Rightarrow> True | _ \<Rightarrow> False)"

section \<open>Debug output of types\<close>

definition debug_option :: "string option \<Rightarrow> string" where
  "debug_option v = (case v of None \<Rightarrow> ''None'' | Some s \<Rightarrow> ''Some('' @ debug_str s @ '')'')"

fun debug_type :: "value_type \<Rightarrow> string" where
  "debug_type VBool = ''Bool''"
| "debug_type VInt = ''Int''"
| "debug_type VString = ''String''"
| "debug_type VPath = ''Path''"
| "debug_type VEvidence = ''Evidence''"
| "debug_type VContractReport = ''ContractReport''"
| "debug_type VReceipt = ''Receipt''"
| "debug_type (VArtifact m s) =
     ''Artifact { media_type: '' @ debug_option m @ '', schema: '' @ debug_option s @ '' }''"
| "debug_type (VList t) = ''List { item: '' @ debug_type t @ '' }''"

section \<open>Stable sorting by a key\<close>

lemma sort_key_eq_iff:
  assumes "inj_on f (set xs)" "distinct xs" "inj_on f (set ys)" "distinct ys"
  shows "sort_key f xs = sort_key f ys \<longleftrightarrow> set xs = set ys"
proof
  assume "set xs = set ys"
  then show "sort_key f xs = sort_key f ys"
    using assms by (intro map_sorted_distinct_set_unique [where f = f]) (auto simp: distinct_map)
qed (metis set_sort)

lemma distinct_keys: "distinct (map f xs) \<longleftrightarrow> distinct xs \<and> inj_on f (set xs)"
  by (simp add: distinct_map)

end
