(* ===== verification/Flow_Validate.thy ===== *)
theory Flow_Validate
  imports Flow_Model
begin

text \<open>
  The validator of \<^verbatim>\<open>crates/xshell-flow/src/validate.rs\<close>. Every check of the source only
  appends to the list of diagnostics, so each one is the list it appends, and \<open>run\<close> puts them
  together in the order of the source. The declarative counterpart is \<open>well_formed\<close>: a flow is
  accepted exactly when it is well formed.
\<close>

section \<open>Diagnostics\<close>

record diagnostic =
  dg_code :: string
  dg_path :: string
  dg_message :: string

definition error :: "string \<Rightarrow> string \<Rightarrow> string \<Rightarrow> diagnostic list" where
  "error code path message = [\<lparr>dg_code = code, dg_path = path, dg_message = message\<rparr>]"

definition check :: "bool \<Rightarrow> string \<Rightarrow> string \<Rightarrow> string \<Rightarrow> diagnostic list" where
  "check ok code path message = (if ok then [] else error code path message)"

text \<open>A loop over \<open>iter().enumerate()\<close>; the body also sees the items before the current one.\<close>

definition each :: "(nat \<Rightarrow> 'a list \<Rightarrow> 'a \<Rightarrow> diagnostic list) \<Rightarrow> 'a list \<Rightarrow> diagnostic list" where
  "each body xs = concat (map (\<lambda>i. body i (take i xs) (xs ! i)) [0..<length xs])"

definition indexed :: "string \<Rightarrow> nat \<Rightarrow> string" where
  "indexed path i = path @ ''['' @ show_nat i @ '']''"

section \<open>Local checks\<close>

definition identifier_start :: "char \<Rightarrow> bool" where
  "identifier_start c \<longleftrightarrow> c = CHR ''_'' \<or> is_ascii_alphabetic c"

definition identifier_rest :: "char \<Rightarrow> bool" where
  "identifier_rest c \<longleftrightarrow> c = CHR ''_'' \<or> c = CHR ''-'' \<or> c = CHR ''.'' \<or> is_ascii_alphanumeric c"

definition valid_identifier :: "string \<Rightarrow> bool" where
  "valid_identifier s \<longleftrightarrow> (case s of [] \<Rightarrow> False | c # cs \<Rightarrow> identifier_start c \<and> list_all identifier_rest cs)"

definition check_identifier :: "string \<Rightarrow> string \<Rightarrow> diagnostic list" where
  "check_identifier path s = check (valid_identifier s) ''F0604'' path (''invalid identifier '' @ debug_str s)"

definition check_sorted_unique_strings :: "string \<Rightarrow> string list \<Rightarrow> diagnostic list" where
  "check_sorted_unique_strings path values =
     each (\<lambda>i before v.
       if is_blank v then error ''F0602'' (indexed path i) ''capability value cannot be empty''
       else check (v \<notin> set (filter (\<lambda>w. \<not> is_blank w) before)) ''F0603'' (indexed path i)
              (''duplicate capability '' @ debug_str v)) values"

definition check_ports :: "string \<Rightarrow> port list \<Rightarrow> diagnostic list" where
  "check_ports path ports =
     each (\<lambda>i before p.
       check_identifier (indexed path i @ ''.name'') (pt_name p) @
       check (pt_name p \<notin> pt_name ` set before) ''F0601'' (indexed path i @ ''.name'')
         (''duplicate port name '' @ debug_str (pt_name p))) ports"

definition require_portless :: "string option \<Rightarrow> string \<Rightarrow> diagnostic list" where
  "require_portless p path = check (p = None) ''F0414'' path ''dependency and route endpoints cannot name a port''"

definition port_type :: "port list \<Rightarrow> string option \<Rightarrow> string \<Rightarrow> string \<Rightarrow> value_type option \<times> diagnostic list" where
  "port_type ports p path direction =
     (case p of
        None \<Rightarrow> (None, error ''F0412'' path (''data and feedback endpoints require a '' @ direction @ '' port''))
      | Some name \<Rightarrow>
          (case find (\<lambda>candidate. pt_name candidate = name) ports of
             Some found \<Rightarrow> (Some (pt_value_type found), [])
           | None \<Rightarrow> (None, error ''F0413'' path (''unknown '' @ direction @ '' port '' @ debug_str name))))"

definition output_type :: "node \<Rightarrow> string option \<Rightarrow> string \<Rightarrow> value_type option \<times> diagnostic list" where
  "output_type n p path = port_type (nd_outputs n) p path ''output''"

definition input_type :: "node \<Rightarrow> string option \<Rightarrow> string \<Rightarrow> value_type option \<times> diagnostic list" where
  "input_type n p path = port_type (nd_inputs n) p path ''input''"

fun check_contract_expression :: "string \<Rightarrow> contract_expression \<Rightarrow> diagnostic list"
  and check_clauses :: "string \<Rightarrow> nat \<Rightarrow> contract_expression list \<Rightarrow> diagnostic list" where
  "check_contract_expression path (Predicate name arguments) =
     check (\<not> is_blank name) ''F0102'' (path @ ''.name'') ''predicate name cannot be empty''"
| "check_contract_expression path (AllOf clauses) =
     check (clauses \<noteq> []) ''F0103'' path ''contract conjunctions and disjunctions cannot be empty'' @
     check_clauses path 0 clauses"
| "check_contract_expression path (AnyOf clauses) =
     check (clauses \<noteq> []) ''F0103'' path ''contract conjunctions and disjunctions cannot be empty'' @
     check_clauses path 0 clauses"
| "check_contract_expression path (NotClause clause) = check_contract_expression (path @ ''.clause'') clause"
| "check_clauses path i [] = []"
| "check_clauses path i (c # cs) =
     check_contract_expression (indexed (path @ ''.clauses'') i) c @ check_clauses path (Suc i) cs"

text \<open>\<open>sort_by\<close> is stable, as is \<open>sort_key\<close>.\<close>

definition same_ports :: "port list \<Rightarrow> port list \<Rightarrow> bool" where
  "same_ports left right \<longleftrightarrow> sort_key pt_name left = sort_key pt_name right"

section \<open>The validator\<close>

definition validator_nodes :: "flow \<Rightarrow> (string \<times> node) list" where
  "validator_nodes fl = btm_of (map (\<lambda>n. (nd_id n, n)) (fl_nodes fl))"

definition validator_regions :: "flow \<Rightarrow> (string \<times> region) list" where
  "validator_regions fl = btm_of (map (\<lambda>r. (rg_id r, r)) (fl_regions fl))"

definition check_interface :: "flow \<Rightarrow> diagnostic list" where
  "check_interface fl =
     check_ports ''interface.inputs'' (fi_inputs (fl_interface fl)) @
     check_ports ''interface.outputs'' (fi_outputs (fl_interface fl))"

definition index_contracts :: "flow \<Rightarrow> diagnostic list" where
  "index_contracts fl =
     each (\<lambda>i before c.
       let path = indexed ''contracts'' i in
       check_identifier (path @ ''.id'') (ct_id c) @
       check (ct_id c \<notin> ct_id ` set before) ''F0101'' (path @ ''.id'') (''duplicate contract id '' @ debug_str (ct_id c)) @
       check_contract_expression (path @ ''.expression'') (ct_expression c)) (fl_contracts fl)"

definition index_nodes :: "flow \<Rightarrow> diagnostic list" where
  "index_nodes fl =
     each (\<lambda>i before n.
       let path = indexed ''nodes'' i @ ''.id'' in
       check_identifier path (nd_id n) @
       check (nd_id n \<notin> nd_id ` set before) ''F0201'' path (''duplicate node id '' @ debug_str (nd_id n))) (fl_nodes fl)"

definition index_regions :: "flow \<Rightarrow> diagnostic list" where
  "index_regions fl =
     each (\<lambda>i before r.
       let path = indexed ''regions'' i @ ''.id'' in
       check_identifier path (rg_id r) @
       check (rg_id r \<notin> rg_id ` set before) ''F0301'' path (''duplicate region id '' @ debug_str (rg_id r))) (fl_regions fl)"

definition check_node_kind :: "flow \<Rightarrow> string \<Rightarrow> node \<Rightarrow> diagnostic list" where
  "check_node_kind fl path n =
     (case nd_kind n of
        InputNode \<Rightarrow>
          check (nd_inputs n = []) ''F0202'' path ''input nodes cannot have input ports'' @
          check (same_ports (nd_outputs n) (fi_inputs (fl_interface fl))) ''F0203'' path
            ''input node outputs must match the flow inputs''
      | OutputNode \<Rightarrow>
          check (nd_outputs n = []) ''F0204'' path ''output nodes cannot have output ports'' @
          check (same_ports (nd_inputs n) (fi_outputs (fl_interface fl))) ''F0205'' path
            ''output node inputs must match the flow outputs''
      | TaskNode program \<Rightarrow>
          check (\<not> is_blank (pr_source program)) ''F0206'' (path @ ''.program.source'') ''program source cannot be empty''
      | GateNode c \<Rightarrow>
          check (c \<in> ct_id ` set (fl_contracts fl)) ''F0207'' (path @ ''.contract'') (''unknown contract '' @ debug_str c)
      | _ \<Rightarrow> [])"

definition count_kind :: "node_kind \<Rightarrow> flow \<Rightarrow> nat" where
  "count_kind k fl = length (filter (\<lambda>n. nd_kind n = k) (fl_nodes fl))"

definition check_nodes :: "flow \<Rightarrow> diagnostic list" where
  "check_nodes fl =
     each (\<lambda>i before n.
       let path = indexed ''nodes'' i in
       check_ports (path @ ''.inputs'') (nd_inputs n) @
       check_ports (path @ ''.outputs'') (nd_outputs n) @
       check_sorted_unique_strings (path @ ''.capabilities.read'') (cp_read (nd_capabilities n)) @
       check_sorted_unique_strings (path @ ''.capabilities.write'') (cp_write (nd_capabilities n)) @
       check_sorted_unique_strings (path @ ''.capabilities.execute'') (cp_execute (nd_capabilities n)) @
       check_sorted_unique_strings (path @ ''.capabilities.network'') (cp_network (nd_capabilities n)) @
       check_node_kind fl path n) (fl_nodes fl) @
     check (count_kind InputNode fl = 1) ''F0208'' ''nodes''
       (''a flow must have exactly one input node; found '' @ show_nat (count_kind InputNode fl)) @
     check (count_kind OutputNode fl = 1) ''F0209'' ''nodes''
       (''a flow must have exactly one output node; found '' @ show_nat (count_kind OutputNode fl))"

definition check_loop_exit :: "flow \<Rightarrow> string \<Rightarrow> region \<Rightarrow> diagnostic list" where
  "check_loop_exit fl path r =
     (case rg_kind r of
        LoopRegion max_iterations until _ \<Rightarrow>
          check (max_iterations \<noteq> 0) ''F0305'' (path @ ''.max_iterations'') ''loop must allow at least one iteration'' @
          (case map_of (validator_nodes fl) (go_gate until) of
             Some n \<Rightarrow>
               if is_gate n
               then check (go_gate until \<in> set (rg_nodes r)) ''F0306'' (path @ ''.until.gate'')
                      ''loop exit gate must be a member of the loop region''
               else error ''F0307'' (path @ ''.until.gate'') ''loop exit must reference a gate node''
           | None \<Rightarrow> error ''F0308'' (path @ ''.until.gate'') (''unknown gate '' @ debug_str (go_gate until)))
      | _ \<Rightarrow> [])"

definition check_regions :: "flow \<Rightarrow> diagnostic list" where
  "check_regions fl =
     each (\<lambda>i before r.
       let path = indexed ''regions'' i in
       (case rg_parent r of
          Some parent \<Rightarrow>
            check (map_of (validator_regions fl) parent \<noteq> None) ''F0302'' (path @ ''.parent'')
              (''unknown parent region '' @ debug_str parent)
        | None \<Rightarrow> []) @
       each (\<lambda>j members m.
         check (map_of (validator_nodes fl) m \<noteq> None) ''F0303'' (indexed (path @ ''.nodes'') j)
           (''unknown node '' @ debug_str m) @
         check (m \<notin> set members) ''F0304'' (indexed (path @ ''.nodes'') j)
           (''duplicate region member '' @ debug_str m)) (rg_nodes r) @
       check_loop_exit fl path r) (fl_regions fl)"

definition check_edge_ports :: "flow \<Rightarrow> string \<Rightarrow> edge \<Rightarrow> diagnostic list" where
  "check_edge_ports fl path e =
     (let from_node = map_of (validator_nodes fl) (ep_node (ed_from e));
          to_node = map_of (validator_nodes fl) (ep_node (ed_to e));
          typed =
            (let (source, d1) = (case from_node of None \<Rightarrow> (None, []) | Some n \<Rightarrow> output_type n (ep_port (ed_from e)) (path @ ''.from''));
                 (destination, d2) = (case to_node of None \<Rightarrow> (None, []) | Some n \<Rightarrow> input_type n (ep_port (ed_to e)) (path @ ''.to''))
             in d1 @ d2 @
                (case (source, destination) of
                   (Some s, Some d) \<Rightarrow>
                     check (s = d) ''F0404'' path
                       (''port type mismatch: '' @ debug_type s @ '' cannot flow to '' @ debug_type d)
                 | _ \<Rightarrow> []));
          portless = require_portless (ep_port (ed_from e)) (path @ ''.from'') @
                     require_portless (ep_port (ed_to e)) (path @ ''.to'')
      in case ed_kind e of
           DataEdge \<Rightarrow> typed
         | FeedbackEdge _ _ \<Rightarrow> typed
         | DependencyEdge \<Rightarrow> portless
         | RouteEdge _ \<Rightarrow>
             portless @
             (case from_node of
                Some n \<Rightarrow> check (is_gate n) ''F0405'' (path @ ''.from'') ''route edges must originate at a gate node''
              | None \<Rightarrow> []))"

definition check_feedback :: "flow \<Rightarrow> string \<Rightarrow> edge \<Rightarrow> diagnostic list" where
  "check_feedback fl path e =
     (case ed_kind e of
        FeedbackEdge loop_region state \<Rightarrow>
          check (\<not> is_blank state) ''F0406'' (path @ ''.state'') ''feedback state name cannot be empty'' @
          (case map_of (validator_regions fl) loop_region of
             Some r \<Rightarrow>
               if is_loop r
               then check (ep_node (ed_from e) \<in> set (rg_nodes r) \<and> ep_node (ed_to e) \<in> set (rg_nodes r)) ''F0407'' path
                      ''feedback endpoints must both belong to its loop region''
               else error ''F0408'' (path @ ''.loop_region'') ''feedback must reference a loop region''
           | None \<Rightarrow> error ''F0409'' (path @ ''.loop_region'') (''unknown loop region '' @ debug_str loop_region))
      | _ \<Rightarrow> [])"

definition check_edges :: "flow \<Rightarrow> diagnostic list" where
  "check_edges fl =
     each (\<lambda>i before e.
       let path = indexed ''edges'' i in
       check_identifier (path @ ''.id'') (ed_id e) @
       check (ed_id e \<notin> ed_id ` set before) ''F0401'' (path @ ''.id'') (''duplicate edge id '' @ debug_str (ed_id e)) @
       check (map_of (validator_nodes fl) (ep_node (ed_from e)) \<noteq> None) ''F0402'' (path @ ''.from.node'')
         (''unknown node '' @ debug_str (ep_node (ed_from e))) @
       check (map_of (validator_nodes fl) (ep_node (ed_to e)) \<noteq> None) ''F0403'' (path @ ''.to.node'')
         (''unknown node '' @ debug_str (ep_node (ed_to e))) @
       check_edge_ports fl path e @
       check_feedback fl path e) (fl_edges fl)"

text \<open>The counters of ordinary and feedback producers by node and port.\<close>

definition count_producer :: "edge \<Rightarrow> (string \<times> string \<Rightarrow> nat \<times> nat) \<Rightarrow> (string \<times> string \<Rightarrow> nat \<times> nat)" where
  "count_producer e counts =
     (case (ed_kind e, ep_port (ed_to e)) of
        (DataEdge, Some p) \<Rightarrow> counts((ep_node (ed_to e), p) := map_prod Suc (\<lambda>n. n) (counts (ep_node (ed_to e), p)))
      | (FeedbackEdge _ _, Some p) \<Rightarrow> counts((ep_node (ed_to e), p) := map_prod (\<lambda>n. n) Suc (counts (ep_node (ed_to e), p)))
      | _ \<Rightarrow> counts)"

definition incoming :: "edge list \<Rightarrow> string \<times> string \<Rightarrow> nat \<times> nat" where
  "incoming es = fold count_producer es (\<lambda>_. (0, 0))"

definition check_required_inputs :: "flow \<Rightarrow> diagnostic list" where
  "check_required_inputs fl =
     each (\<lambda>i _ n.
       each (\<lambda>j _ p.
         let (ordinary, feedback) = incoming (fl_edges fl) (nd_id n, pt_name p);
             path = indexed (indexed ''nodes'' i @ ''.inputs'') j in
         if \<not> pt_optional p \<and> ordinary + feedback = 0
         then error ''F0410'' path ''required input port has no incoming data edge''
         else check (\<not> (ordinary > 1 \<or> feedback > 1 \<or> (feedback > 0 \<and> ordinary \<noteq> 1))) ''F0411'' path
                ''input ports accept one producer, or one initial producer plus one loop feedback producer'')
         (nd_inputs n)) (fl_nodes fl)"

text \<open>The walk up the parents of one region; the result says that it came back to a region seen before.\<close>

function parent_cycle :: "(string \<times> region) list \<Rightarrow> string list \<Rightarrow> string \<Rightarrow> bool" where
  "parent_cycle regions seen rid =
     (if rid \<in> set seen then True
      else case map_of regions rid of
             None \<Rightarrow> False
           | Some r \<Rightarrow> (case rg_parent r of None \<Rightarrow> False | Some parent \<Rightarrow> parent_cycle regions (rid # seen) parent))"
  by pat_completeness auto
termination
proof (relation "measure (\<lambda>(regions, seen, rid). length (filter (\<lambda>(k, _). k \<notin> set seen) regions))")
  fix regions :: "(string \<times> region) list" and seen rid r parent
  assume "rid \<notin> set seen" "map_of regions rid = Some r"
  let ?rest = "filter (\<lambda>(k, _). k \<notin> set seen) regions"
  from \<open>rid \<notin> set seen\<close> \<open>map_of regions rid = Some r\<close> have "(rid, r) \<in> set ?rest"
    by (auto dest: map_of_SomeD)
  then have "length (filter (\<lambda>(k, _). k \<noteq> rid) ?rest) < length ?rest"
    by (rule length_filter_less) simp
  moreover have "filter (\<lambda>(k, _). k \<notin> set (rid # seen)) regions = filter (\<lambda>(k, _). k \<noteq> rid) ?rest"
    by (simp add: case_prod_unfold conj_commute)
  ultimately show "((regions, rid # seen, parent), regions, seen, rid)
      \<in> measure (\<lambda>(regions, seen, rid). length (filter (\<lambda>(k, _). k \<notin> set seen) regions))"
    by (simp only: in_measure case_prod_conv)
qed simp

declare parent_cycle.simps [simp del]

definition check_region_parent_cycles :: "flow \<Rightarrow> diagnostic list" where
  "check_region_parent_cycles fl =
     each (\<lambda>_ _ r.
       check (\<not> parent_cycle (validator_regions fl) [] (rg_id r)) ''F0310'' (''regions.'' @ rg_id r @ ''.parent'')
         ''region parent relationship contains a cycle'') (fl_regions fl)"

definition node_ids :: "flow \<Rightarrow> string list" where
  "node_ids fl = map fst (validator_nodes fl)"

definition execution_edges :: "flow \<Rightarrow> (string \<times> string) list" where
  "execution_edges fl =
     map (\<lambda>e. (ep_node (ed_from e), ep_node (ed_to e)))
       (filter (\<lambda>e. \<not> is_feedback e \<and> ep_node (ed_from e) \<in> set (node_ids fl) \<and> ep_node (ed_to e) \<in> set (node_ids fl))
         (fl_edges fl))"

text \<open>\<open>None\<close> from the traversal would be a panic; \<open>check_execution_cycles_defined\<close> rules it out.\<close>

definition check_execution_cycles :: "flow \<Rightarrow> diagnostic list" where
  "check_execution_cycles fl =
     check (map_option length (visit_order Fifo (successors (execution_edges fl)) (node_ids fl) (execution_edges fl)) =
              Some (length (node_ids fl)))
       ''F0501'' ''edges''
       ''ordinary data, dependency, and route edges must form a DAG; use bounded loop feedback edges for cycles''"

definition run :: "flow \<Rightarrow> diagnostic list" where
  "run fl =
     check (fl_schema fl = FLOW_SCHEMA_V0) ''F0001'' ''schema''
       (''unsupported schema '' @ debug_str (fl_schema fl) @ ''; expected '' @ debug_str FLOW_SCHEMA_V0) @
     check_identifier ''name'' (fl_name fl) @
     check_interface fl @
     index_contracts fl @
     index_nodes fl @
     index_regions fl @
     check_nodes fl @
     check_regions fl @
     check_edges fl @
     check_required_inputs fl @
     check_region_parent_cycles fl @
     check_execution_cycles fl"

definition validate :: "flow \<Rightarrow> (diagnostic list, unit) result" where
  "validate fl = (if run fl = [] then Ok () else Err (run fl))"

section \<open>Well-formed flows\<close>

definition ports_valid :: "port list \<Rightarrow> bool" where
  "ports_valid ps \<longleftrightarrow> (\<forall>p \<in> set ps. valid_identifier (pt_name p)) \<and> distinct (map pt_name ps)"

definition strings_valid :: "string list \<Rightarrow> bool" where
  "strings_valid vs \<longleftrightarrow> (\<forall>v \<in> set vs. \<not> is_blank v) \<and> distinct vs"

fun expression_valid :: "contract_expression \<Rightarrow> bool" where
  "expression_valid (Predicate name _) \<longleftrightarrow> \<not> is_blank name"
| "expression_valid (AllOf cs) \<longleftrightarrow> cs \<noteq> [] \<and> (\<forall>c \<in> set cs. expression_valid c)"
| "expression_valid (AnyOf cs) \<longleftrightarrow> cs \<noteq> [] \<and> (\<forall>c \<in> set cs. expression_valid c)"
| "expression_valid (NotClause c) \<longleftrightarrow> expression_valid c"

definition kind_valid :: "flow \<Rightarrow> node \<Rightarrow> bool" where
  "kind_valid fl n \<longleftrightarrow>
     (case nd_kind n of
        InputNode \<Rightarrow> nd_inputs n = [] \<and> set (nd_outputs n) = set (fi_inputs (fl_interface fl))
      | OutputNode \<Rightarrow> nd_outputs n = [] \<and> set (nd_inputs n) = set (fi_outputs (fl_interface fl))
      | TaskNode program \<Rightarrow> \<not> is_blank (pr_source program)
      | GateNode c \<Rightarrow> c \<in> ct_id ` set (fl_contracts fl)
      | _ \<Rightarrow> True)"

definition node_valid :: "flow \<Rightarrow> node \<Rightarrow> bool" where
  "node_valid fl n \<longleftrightarrow>
     ports_valid (nd_inputs n) \<and> ports_valid (nd_outputs n) \<and>
     strings_valid (cp_read (nd_capabilities n)) \<and> strings_valid (cp_write (nd_capabilities n)) \<and>
     strings_valid (cp_execute (nd_capabilities n)) \<and> strings_valid (cp_network (nd_capabilities n)) \<and>
     kind_valid fl n"

definition region_valid :: "flow \<Rightarrow> region \<Rightarrow> bool" where
  "region_valid fl r \<longleftrightarrow>
     (case rg_parent r of None \<Rightarrow> True | Some p \<Rightarrow> p \<in> rg_id ` set (fl_regions fl)) \<and>
     set (rg_nodes r) \<subseteq> nd_id ` set (fl_nodes fl) \<and> distinct (rg_nodes r) \<and>
     (case rg_kind r of
        LoopRegion m until _ \<Rightarrow>
          m \<noteq> 0 \<and> go_gate until \<in> set (rg_nodes r) \<and>
          (\<exists>n \<in> set (fl_nodes fl). nd_id n = go_gate until \<and> is_gate n)
      | _ \<Rightarrow> True)"

definition has_port :: "port list \<Rightarrow> string option \<Rightarrow> value_type \<Rightarrow> bool" where
  "has_port ps name t \<longleftrightarrow> (\<exists>p \<in> set ps. name = Some (pt_name p) \<and> pt_value_type p = t)"

definition same_type :: "node \<Rightarrow> node \<Rightarrow> edge \<Rightarrow> bool" where
  "same_type a b e \<longleftrightarrow>
     (\<exists>t. has_port (nd_outputs a) (ep_port (ed_from e)) t \<and> has_port (nd_inputs b) (ep_port (ed_to e)) t)"

definition edge_between :: "flow \<Rightarrow> node \<Rightarrow> node \<Rightarrow> edge \<Rightarrow> bool" where
  "edge_between fl a b e \<longleftrightarrow>
     (case ed_kind e of
        DataEdge \<Rightarrow> same_type a b e
      | DependencyEdge \<Rightarrow> ep_port (ed_from e) = None \<and> ep_port (ed_to e) = None
      | RouteEdge _ \<Rightarrow> ep_port (ed_from e) = None \<and> ep_port (ed_to e) = None \<and> is_gate a
      | FeedbackEdge l state \<Rightarrow>
          same_type a b e \<and> \<not> is_blank state \<and>
          (\<exists>r \<in> set (fl_regions fl). rg_id r = l \<and> is_loop r \<and> nd_id a \<in> set (rg_nodes r) \<and> nd_id b \<in> set (rg_nodes r)))"

definition edge_valid :: "flow \<Rightarrow> edge \<Rightarrow> bool" where
  "edge_valid fl e \<longleftrightarrow>
     (\<exists>a \<in> set (fl_nodes fl). \<exists>b \<in> set (fl_nodes fl).
        nd_id a = ep_node (ed_from e) \<and> nd_id b = ep_node (ed_to e) \<and> edge_between fl a b e)"

definition ordinary_producers :: "flow \<Rightarrow> string \<Rightarrow> string \<Rightarrow> nat" where
  "ordinary_producers fl n p =
     length (filter (\<lambda>e. ed_kind e = DataEdge \<and> ed_to e = \<lparr>ep_node = n, ep_port = Some p\<rparr>) (fl_edges fl))"

definition feedback_producers :: "flow \<Rightarrow> string \<Rightarrow> string \<Rightarrow> nat" where
  "feedback_producers fl n p =
     length (filter (\<lambda>e. is_feedback e \<and> ed_to e = \<lparr>ep_node = n, ep_port = Some p\<rparr>) (fl_edges fl))"

definition producers_valid :: "flow \<Rightarrow> node \<Rightarrow> port \<Rightarrow> bool" where
  "producers_valid fl n p \<longleftrightarrow>
     (let ordinary = ordinary_producers fl (nd_id n) (pt_name p); feedback = feedback_producers fl (nd_id n) (pt_name p) in
      (ordinary = 0 \<and> feedback = 0 \<and> pt_optional p) \<or> (ordinary = 1 \<and> feedback \<le> 1))"

definition parent_relation :: "flow \<Rightarrow> (string \<times> string) set" where
  "parent_relation fl = {(rg_id r, p) | r p. r \<in> set (fl_regions fl) \<and> rg_parent r = Some p}"

definition execution_relation :: "flow \<Rightarrow> (string \<times> string) set" where
  "execution_relation fl =
     {(ep_node (ed_from e), ep_node (ed_to e)) | e. e \<in> set (fl_edges fl) \<and> \<not> is_feedback e}"

definition well_formed :: "flow \<Rightarrow> bool" where
  "well_formed fl \<longleftrightarrow>
     fl_schema fl = FLOW_SCHEMA_V0 \<and> valid_identifier (fl_name fl) \<and>
     ports_valid (fi_inputs (fl_interface fl)) \<and> ports_valid (fi_outputs (fl_interface fl)) \<and>
     (\<forall>c \<in> set (fl_contracts fl). valid_identifier (ct_id c) \<and> expression_valid (ct_expression c)) \<and>
     distinct (map ct_id (fl_contracts fl)) \<and>
     (\<forall>n \<in> set (fl_nodes fl). valid_identifier (nd_id n) \<and> node_valid fl n) \<and>
     distinct (map nd_id (fl_nodes fl)) \<and>
     (\<forall>r \<in> set (fl_regions fl). valid_identifier (rg_id r) \<and> region_valid fl r) \<and>
     distinct (map rg_id (fl_regions fl)) \<and>
     count_kind InputNode fl = 1 \<and> count_kind OutputNode fl = 1 \<and>
     (\<forall>e \<in> set (fl_edges fl). valid_identifier (ed_id e) \<and> edge_valid fl e) \<and>
     distinct (map ed_id (fl_edges fl)) \<and>
     (\<forall>n \<in> set (fl_nodes fl). \<forall>p \<in> set (nd_inputs n). producers_valid fl n p) \<and>
     acyclic (parent_relation fl) \<and> acyclic (execution_relation fl)"

lemma well_formedD:
  assumes "well_formed fl"
  shows "distinct (map nd_id (fl_nodes fl))" "distinct (map rg_id (fl_regions fl))"
    "n \<in> set (fl_nodes fl) \<Longrightarrow> node_valid fl n" "r \<in> set (fl_regions fl) \<Longrightarrow> region_valid fl r"
    "e \<in> set (fl_edges fl) \<Longrightarrow> edge_valid fl e"
    "n \<in> set (fl_nodes fl) \<Longrightarrow> q \<in> set (nd_inputs n) \<Longrightarrow> producers_valid fl n q"
    "acyclic (parent_relation fl)" "acyclic (execution_relation fl)"
  using assms unfolding well_formed_def by blast+

section \<open>Each check in terms of its clause\<close>

lemma check_Nil [simp]: "check ok code path message = [] \<longleftrightarrow> ok"
  by (simp add: check_def error_def)

lemma error_not_Nil [simp]: "error code path message \<noteq> []"
  by (simp add: error_def)

lemma each_Nil: "each body xs = [] \<longleftrightarrow> (\<forall>i < length xs. body i (take i xs) (xs ! i) = [])"
  by (auto simp: each_def)

lemma each_Nil_all:
  assumes "\<And>i before x. x \<in> set xs \<Longrightarrow> body i before x = [] \<longleftrightarrow> P x"
  shows "each body xs = [] \<longleftrightarrow> (\<forall>x \<in> set xs. P x)"
  using assms by (auto simp: each_Nil all_set_conv_all_nth)

lemma distinct_map_before:
  "distinct (map key xs) \<longleftrightarrow> (\<forall>i < length xs. key (xs ! i) \<notin> key ` set (take i xs))"
proof (induction xs rule: rev_induct)
  case (snoc x xs)
  then show ?case by (auto simp: nth_append less_Suc_eq)
qed simp

lemma each_Nil_distinct:
  assumes "\<And>i before x. x \<in> set xs \<Longrightarrow> body i before x = [] \<longleftrightarrow> P x \<and> key x \<notin> key ` set before"
  shows "each body xs = [] \<longleftrightarrow> (\<forall>x \<in> set xs. P x) \<and> distinct (map key xs)"
  using assms by (auto simp: each_Nil all_set_conv_all_nth distinct_map_before)

lemma check_identifier_Nil [simp]: "check_identifier path s = [] \<longleftrightarrow> valid_identifier s"
  by (simp add: check_identifier_def)

lemma check_ports_Nil [simp]: "check_ports path ps = [] \<longleftrightarrow> ports_valid ps"
  unfolding check_ports_def ports_valid_def by (rule each_Nil_distinct) simp

lemma check_strings_Nil [simp]: "check_sorted_unique_strings path vs = [] \<longleftrightarrow> strings_valid vs"
proof -
  have "check_sorted_unique_strings path vs = [] \<longleftrightarrow> (\<forall>v \<in> set vs. \<not> is_blank v) \<and> distinct (map (\<lambda>v. v) vs)"
    unfolding check_sorted_unique_strings_def by (rule each_Nil_distinct) auto
  then show ?thesis by (simp add: strings_valid_def)
qed

lemma check_expression_Nil:
  "check_contract_expression path e = [] \<longleftrightarrow> expression_valid e"
  "check_clauses path i cs = [] \<longleftrightarrow> (\<forall>c \<in> set cs. expression_valid c)"
  by (induction path e and path i cs rule: check_contract_expression_check_clauses.induct) auto

lemma check_interface_Nil:
  "check_interface fl = [] \<longleftrightarrow> ports_valid (fi_inputs (fl_interface fl)) \<and> ports_valid (fi_outputs (fl_interface fl))"
  by (simp add: check_interface_def)

lemma index_contracts_Nil:
  "index_contracts fl = [] \<longleftrightarrow>
     (\<forall>c \<in> set (fl_contracts fl). valid_identifier (ct_id c) \<and> expression_valid (ct_expression c)) \<and>
     distinct (map ct_id (fl_contracts fl))"
  unfolding index_contracts_def by (rule each_Nil_distinct) (auto simp: Let_def check_expression_Nil)

lemma index_nodes_Nil:
  "index_nodes fl = [] \<longleftrightarrow> (\<forall>n \<in> set (fl_nodes fl). valid_identifier (nd_id n)) \<and> distinct (map nd_id (fl_nodes fl))"
  unfolding index_nodes_def by (rule each_Nil_distinct) (auto simp: Let_def)

lemma index_regions_Nil:
  "index_regions fl = [] \<longleftrightarrow> (\<forall>r \<in> set (fl_regions fl). valid_identifier (rg_id r)) \<and> distinct (map rg_id (fl_regions fl))"
  unfolding index_regions_def by (rule each_Nil_distinct) (auto simp: Let_def)

lemma same_ports_iff:
  "ports_valid ps \<Longrightarrow> ports_valid qs \<Longrightarrow> same_ports ps qs \<longleftrightarrow> set ps = set qs"
  by (simp add: same_ports_def ports_valid_def distinct_map sort_key_eq_iff)

lemma check_nodes_Nil:
  assumes "ports_valid (fi_inputs (fl_interface fl))" "ports_valid (fi_outputs (fl_interface fl))"
  shows "check_nodes fl = [] \<longleftrightarrow>
     (\<forall>n \<in> set (fl_nodes fl). node_valid fl n) \<and> count_kind InputNode fl = 1 \<and> count_kind OutputNode fl = 1"
proof -
  have "check_node_kind fl path n = [] \<longleftrightarrow> kind_valid fl n"
    if "ports_valid (nd_inputs n)" "ports_valid (nd_outputs n)" for path n
    using that assms by (auto simp: check_node_kind_def kind_valid_def same_ports_iff split: node_kind.splits)
  then show ?thesis
    unfolding check_nodes_def append_is_Nil_conv check_Nil
    by (intro arg_cong2 [of _ _ _ _ "(\<and>)"] each_Nil_all refl) (auto simp: Let_def node_valid_def)
qed

subsection \<open>Lookups\<close>

lemma map_of_btm_of_distinct:
  assumes "distinct (map key xs)"
  shows "map_of (btm_of (map (\<lambda>x. (key x, x)) xs)) k = Some x \<longleftrightarrow> x \<in> set xs \<and> key x = k"
proof -
  have "map fst (rev (map (\<lambda>x. (key x, x)) xs)) = rev (map key xs)"
    by (simp add: rev_map comp_def)
  with assms have "distinct (map fst (rev (map (\<lambda>x. (key x, x)) xs)))" by simp
  then have "map_of (rev (map (\<lambda>x. (key x, x)) xs)) k = Some x \<longleftrightarrow> (k, x) \<in> set (rev (map (\<lambda>x. (key x, x)) xs))"
    by (rule map_of_eq_Some_iff)
  then show ?thesis by (auto simp: map_of_btm_of)
qed

lemma map_of_btm_of_None:
  "map_of (btm_of (map (\<lambda>x. (key x, x)) xs)) k = None \<longleftrightarrow> k \<notin> key ` set xs"
  by (auto simp: map_of_btm_of map_of_eq_None_iff image_image)

lemma node_lookup:
  "distinct (map nd_id (fl_nodes fl)) \<Longrightarrow>
   map_of (validator_nodes fl) k = Some n \<longleftrightarrow> n \<in> set (fl_nodes fl) \<and> nd_id n = k"
  unfolding validator_nodes_def by (rule map_of_btm_of_distinct)

lemma node_lookup_None: "map_of (validator_nodes fl) k = None \<longleftrightarrow> k \<notin> nd_id ` set (fl_nodes fl)"
  unfolding validator_nodes_def by (rule map_of_btm_of_None)

lemma region_lookup:
  "distinct (map rg_id (fl_regions fl)) \<Longrightarrow>
   map_of (validator_regions fl) k = Some r \<longleftrightarrow> r \<in> set (fl_regions fl) \<and> rg_id r = k"
  unfolding validator_regions_def by (rule map_of_btm_of_distinct)

lemma region_lookup_None: "map_of (validator_regions fl) k = None \<longleftrightarrow> k \<notin> rg_id ` set (fl_regions fl)"
  unfolding validator_regions_def by (rule map_of_btm_of_None)

lemma check_loop_exit_Nil:
  assumes "distinct (map nd_id (fl_nodes fl))"
  shows "check_loop_exit fl path r = [] \<longleftrightarrow>
     (case rg_kind r of
        LoopRegion m until _ \<Rightarrow>
          m \<noteq> 0 \<and> go_gate until \<in> set (rg_nodes r) \<and> (\<exists>n \<in> set (fl_nodes fl). nd_id n = go_gate until \<and> is_gate n)
      | _ \<Rightarrow> True)"
proof (cases "rg_kind r")
  case (LoopRegion m until x)
  show ?thesis
  proof (cases "map_of (validator_nodes fl) (go_gate until)")
    case None
    moreover from None have "go_gate until \<notin> nd_id ` set (fl_nodes fl)" by (simp add: node_lookup_None)
    ultimately show ?thesis using LoopRegion by (auto simp: check_loop_exit_def image_iff)
  next
    case (Some n)
    then have n: "n \<in> set (fl_nodes fl)" "nd_id n = go_gate until" using node_lookup [OF assms] by auto
    have "(\<exists>m \<in> set (fl_nodes fl). nd_id m = go_gate until \<and> is_gate m) \<longleftrightarrow> is_gate n"
      using n assms by (metis distinct_map inj_onD)
    with n show ?thesis using LoopRegion Some by (simp add: check_loop_exit_def)
  qed
qed (simp_all add: check_loop_exit_def)

lemma check_regions_Nil:
  assumes "distinct (map nd_id (fl_nodes fl))"
  shows "check_regions fl = [] \<longleftrightarrow> (\<forall>r \<in> set (fl_regions fl). region_valid fl r)"
proof -
  have members: "each (\<lambda>j members m. check (map_of (validator_nodes fl) m \<noteq> None) c (p j) (t m) @
      check (m \<notin> set members) c' (p j) (t' m)) ms = [] \<longleftrightarrow> set ms \<subseteq> nd_id ` set (fl_nodes fl) \<and> distinct ms"
    for c c' p t t' ms
  proof -
    have "each (\<lambda>j members m. check (map_of (validator_nodes fl) m \<noteq> None) c (p j) (t m) @
      check (m \<notin> set members) c' (p j) (t' m)) ms = [] \<longleftrightarrow>
      (\<forall>m \<in> set ms. m \<in> nd_id ` set (fl_nodes fl)) \<and> distinct (map (\<lambda>m. m) ms)"
      using node_lookup_None [of fl] by (intro each_Nil_distinct) auto
    then show ?thesis by auto
  qed
  show ?thesis
    unfolding check_regions_def Let_def
  proof (rule each_Nil_all)
    fix i before r assume "r \<in> set (fl_regions fl)"
    show "((case rg_parent r of Some parent \<Rightarrow>
            check (map_of (validator_regions fl) parent \<noteq> None) ''F0302'' (indexed ''regions'' i @ ''.parent'')
              (''unknown parent region '' @ debug_str parent)
        | None \<Rightarrow> []) @
       each (\<lambda>j members m.
         check (map_of (validator_nodes fl) m \<noteq> None) ''F0303'' (indexed (indexed ''regions'' i @ ''.nodes'') j)
           (''unknown node '' @ debug_str m) @
         check (m \<notin> set members) ''F0304'' (indexed (indexed ''regions'' i @ ''.nodes'') j)
           (''duplicate region member '' @ debug_str m)) (rg_nodes r) @
       check_loop_exit fl (indexed ''regions'' i) r) = [] \<longleftrightarrow> region_valid fl r"
      unfolding append_is_Nil_conv members check_loop_exit_Nil [OF assms] region_valid_def
      using region_lookup_None [of fl] by (auto split: option.splits)
  qed
qed

subsection \<open>Edges\<close>

lemma port_type_Some:
  assumes "distinct (map pt_name ps)"
  shows "port_type ps name path direction = (Some t, []) \<longleftrightarrow> has_port ps name t"
    and "snd (port_type ps name path direction) = [] \<longleftrightarrow> (\<exists>t. has_port ps name t)"
    and "fst (port_type ps name path direction) = Some t \<longleftrightarrow> has_port ps name t"
proof -
  have "find (\<lambda>p. pt_name p = s) ps = Some p \<longleftrightarrow> p \<in> set ps \<and> pt_name p = s" for s p
  proof
    assume p: "p \<in> set ps \<and> pt_name p = s"
    then obtain q where "find (\<lambda>p. pt_name p = s) ps = Some q"
      by (cases "find (\<lambda>p. pt_name p = s) ps") (auto simp: find_None_iff)
    moreover from this have "q \<in> set ps \<and> pt_name q = s" by (auto simp: find_Some_iff)
    ultimately show "find (\<lambda>p. pt_name p = s) ps = Some p"
      using p assms by (auto simp: distinct_map dest: inj_onD)
  qed (auto simp: find_Some_iff)
  then show "port_type ps name path direction = (Some t, []) \<longleftrightarrow> has_port ps name t"
    and "snd (port_type ps name path direction) = [] \<longleftrightarrow> (\<exists>t. has_port ps name t)"
    and "fst (port_type ps name path direction) = Some t \<longleftrightarrow> has_port ps name t"
    using inj_onD [OF conjunct2 [OF assms [unfolded distinct_map]]]
    by (auto simp: port_type_def has_port_def find_None_iff split: option.splits)
qed

lemma has_port_unique:
  "distinct (map pt_name ps) \<Longrightarrow> has_port ps name t \<Longrightarrow> has_port ps name u \<Longrightarrow> t = u"
  by (auto simp: has_port_def distinct_map dest: inj_onD)

lemma check_value_types:
  assumes "distinct (map pt_name ps)" "distinct (map pt_name qs)"
  shows "(let (source, d1) = port_type ps a pa da; (destination, d2) = port_type qs b pb db
          in d1 @ d2 @ (case (source, destination) of (Some s, Some d) \<Rightarrow> check (s = d) c p (m s d) | _ \<Rightarrow> [])) = [] \<longleftrightarrow>
         (\<exists>t. has_port ps a t \<and> has_port qs b t)"
proof -
  obtain s d1 d d2 where pt: "port_type ps a pa da = (s, d1)" "port_type qs b pb db = (d, d2)" by fastforce
  note ps = port_type_Some [OF assms(1), of a pa da] and qs = port_type_Some [OF assms(2), of b pb db]
  show ?thesis
  proof (cases "\<exists>t u. s = Some t \<and> d = Some u")
    case True
    then obtain t u where s: "s = Some t" "d = Some u" by blast
    then have ports: "has_port ps a t" "has_port qs b u" using ps(3) qs(3) pt by auto
    then have "d1 = []" "d2 = []" using ps(2) qs(2) pt by auto
    with s pt have "?thesis \<longleftrightarrow> (t = u \<longleftrightarrow> (\<exists>t. has_port ps a t \<and> has_port qs b t))" by simp
    then show ?thesis
      using ports has_port_unique [OF assms(1)] has_port_unique [OF assms(2)] by blast
  next
    case False
    then have "\<not> (\<exists>t. has_port ps a t \<and> has_port qs b t)" "d1 \<noteq> [] \<or> d2 \<noteq> []"
      using ps(2,3) qs(2,3) pt by (metis fst_conv option.exhaust snd_conv)+
    with pt show ?thesis by auto
  qed
qed

lemma check_edge_Nil:
  assumes ids: "distinct (map nd_id (fl_nodes fl))" "distinct (map rg_id (fl_regions fl))"
    and ports: "\<And>n. n \<in> set (fl_nodes fl) \<Longrightarrow> ports_valid (nd_inputs n) \<and> ports_valid (nd_outputs n)"
    and a: "a \<in> set (fl_nodes fl)" "nd_id a = ep_node (ed_from e)"
    and b: "b \<in> set (fl_nodes fl)" "nd_id b = ep_node (ed_to e)"
  shows "check_edge_ports fl path e = [] \<and> check_feedback fl path e = [] \<longleftrightarrow> edge_valid fl e"
proof -
  have look: "map_of (validator_nodes fl) (ep_node (ed_from e)) = Some a"
    "map_of (validator_nodes fl) (ep_node (ed_to e)) = Some b"
    using a b node_lookup [OF ids(1)] by auto
  have uniq: "n = a" if "n \<in> set (fl_nodes fl)" "nd_id n = nd_id a" for n
    using that a ids(1) by (metis distinct_map inj_onD)
  have uniq': "n = b" if "n \<in> set (fl_nodes fl)" "nd_id n = nd_id b" for n
    using that b ids(1) by (metis distinct_map inj_onD)
  have vt: "(let (source, d1) = output_type a (ep_port (ed_from e)) (path @ ''.from'');
              (destination, d2) = input_type b (ep_port (ed_to e)) (path @ ''.to'')
          in d1 @ d2 @ (case (source, destination) of (Some s, Some d) \<Rightarrow> check (s = d) ''F0404'' path
                       (''port type mismatch: '' @ debug_type s @ '' cannot flow to '' @ debug_type d) | _ \<Rightarrow> [])) = []
      \<longleftrightarrow> same_type a b e"
    unfolding output_type_def input_type_def same_type_def
    using ports [OF a(1)] ports [OF b(1)] by (intro check_value_types) (auto simp: ports_valid_def)
  have valid: "edge_valid fl e \<longleftrightarrow> edge_between fl a b e"
    unfolding edge_valid_def using a b uniq uniq' by metis
  show ?thesis
  proof (cases "ed_kind e")
    case (FeedbackEdge l state)
    show ?thesis
    proof (cases "map_of (validator_regions fl) l")
      case None
      then have "l \<notin> rg_id ` set (fl_regions fl)" by (simp add: region_lookup_None)
      with None FeedbackEdge valid show ?thesis by (auto simp: check_feedback_def edge_between_def image_iff)
    next
      case (Some r)
      then have r: "r \<in> set (fl_regions fl)" "rg_id r = l" using region_lookup [OF ids(2)] by auto
      then have "(\<exists>r' \<in> set (fl_regions fl). rg_id r' = l \<and> P r') \<longleftrightarrow> P r" for P
        using ids(2) by (metis distinct_map inj_onD)
      with Some FeedbackEdge valid vt look a b show ?thesis
        by (auto simp: check_feedback_def check_edge_ports_def edge_between_def)
    qed
  qed (use valid vt look in \<open>auto simp: check_feedback_def check_edge_ports_def require_portless_def edge_between_def\<close>)
qed

lemma check_edges_Nil:
  assumes ids: "distinct (map nd_id (fl_nodes fl))" "distinct (map rg_id (fl_regions fl))"
    and ports: "\<And>n. n \<in> set (fl_nodes fl) \<Longrightarrow> ports_valid (nd_inputs n) \<and> ports_valid (nd_outputs n)"
  shows "check_edges fl = [] \<longleftrightarrow>
     (\<forall>e \<in> set (fl_edges fl). valid_identifier (ed_id e) \<and> edge_valid fl e) \<and> distinct (map ed_id (fl_edges fl))"
  unfolding check_edges_def Let_def
proof (rule each_Nil_distinct)
  fix i before e assume "e \<in> set (fl_edges fl)"
  let ?path = "indexed ''edges'' i"
  have "(map_of (validator_nodes fl) (ep_node (ed_from e)) \<noteq> None \<and> map_of (validator_nodes fl) (ep_node (ed_to e)) \<noteq> None \<and>
        check_edge_ports fl ?path e = [] \<and> check_feedback fl ?path e = []) \<longleftrightarrow> edge_valid fl e"
  proof (cases "ep_node (ed_from e) \<in> nd_id ` set (fl_nodes fl) \<and> ep_node (ed_to e) \<in> nd_id ` set (fl_nodes fl)")
    case True
    then obtain a b where "a \<in> set (fl_nodes fl)" "nd_id a = ep_node (ed_from e)"
      "b \<in> set (fl_nodes fl)" "nd_id b = ep_node (ed_to e)" by auto
    from check_edge_Nil [OF ids ports this] have "check_edge_ports fl ?path e = [] \<and> check_feedback fl ?path e = [] \<longleftrightarrow> edge_valid fl e" .
    moreover have "map_of (validator_nodes fl) (ep_node (ed_from e)) \<noteq> None" "map_of (validator_nodes fl) (ep_node (ed_to e)) \<noteq> None"
      using True by (simp_all only: node_lookup_None not_not)
    ultimately show ?thesis by blast
  next
    case False
    then have "\<not> edge_valid fl e" by (auto simp: edge_valid_def image_iff)
    moreover have "map_of (validator_nodes fl) (ep_node (ed_from e)) = None \<or> map_of (validator_nodes fl) (ep_node (ed_to e)) = None"
      using False by (auto simp: node_lookup_None)
    ultimately show ?thesis by auto
  qed
  then show "(check_identifier (?path @ ''.id'') (ed_id e) @
       check (ed_id e \<notin> ed_id ` set before) ''F0401'' (?path @ ''.id'') (''duplicate edge id '' @ debug_str (ed_id e)) @
       check (map_of (validator_nodes fl) (ep_node (ed_from e)) \<noteq> None) ''F0402'' (?path @ ''.from.node'')
         (''unknown node '' @ debug_str (ep_node (ed_from e))) @
       check (map_of (validator_nodes fl) (ep_node (ed_to e)) \<noteq> None) ''F0403'' (?path @ ''.to.node'')
         (''unknown node '' @ debug_str (ep_node (ed_to e))) @
       check_edge_ports fl ?path e @
       check_feedback fl ?path e) = [] \<longleftrightarrow> (valid_identifier (ed_id e) \<and> edge_valid fl e) \<and> ed_id e \<notin> ed_id ` set before"
    unfolding append_is_Nil_conv check_Nil check_identifier_Nil by blast
qed

subsection \<open>Producers\<close>

lemma incoming_counts:
  "fold count_producer es counts (n, p) =
     (fst (counts (n, p)) + length (filter (\<lambda>e. ed_kind e = DataEdge \<and> ed_to e = \<lparr>ep_node = n, ep_port = Some p\<rparr>) es),
      snd (counts (n, p)) + length (filter (\<lambda>e. is_feedback e \<and> ed_to e = \<lparr>ep_node = n, ep_port = Some p\<rparr>) es))"
proof (induction es arbitrary: counts)
  case (Cons e es)
  obtain m q where to: "ed_to e = \<lparr>ep_node = m, ep_port = q\<rparr>" by (cases "ed_to e")
  then have "count_producer e counts (n, p) =
      (fst (counts (n, p)) + (if ed_kind e = DataEdge \<and> ed_to e = \<lparr>ep_node = n, ep_port = Some p\<rparr> then 1 else 0),
       snd (counts (n, p)) + (if is_feedback e \<and> ed_to e = \<lparr>ep_node = n, ep_port = Some p\<rparr> then 1 else 0))"
    by (cases "ed_kind e"; cases q; cases "counts (n, p)") (auto simp: count_producer_def is_feedback_def)
  then show ?case by (simp add: Cons.IH)
qed simp

lemma check_required_inputs_Nil:
  "check_required_inputs fl = [] \<longleftrightarrow> (\<forall>n \<in> set (fl_nodes fl). \<forall>p \<in> set (nd_inputs n). producers_valid fl n p)"
proof -
  have inc: "incoming (fl_edges fl) (n, p) = (ordinary_producers fl n p, feedback_producers fl n p)" for n p
    by (simp add: incoming_def incoming_counts ordinary_producers_def feedback_producers_def)
  show ?thesis
    unfolding check_required_inputs_def
    by (intro each_Nil_all) (auto simp: inc producers_valid_def Let_def)
qed

subsection \<open>Cycles\<close>

definition parent_of :: "(string \<times> region) list \<Rightarrow> (string \<times> string) set" where
  "parent_of regions = {(k, p). \<exists>r. map_of regions k = Some r \<and> rg_parent r = Some p}"

lemma single_valued_parent_of: "single_valued (parent_of regions)"
  by (auto simp: single_valued_def parent_of_def)

lemma no_parent_cycle:
  "\<not> parent_cycle regions seen rid \<Longrightarrow> \<exists>top. (rid, top) \<in> (parent_of regions)\<^sup>* \<and> top \<notin> Domain (parent_of regions)"
proof (induction regions seen rid rule: parent_cycle.induct)
  case (1 regions seen rid)
  show ?case
  proof (cases "\<exists>p. (rid, p) \<in> parent_of regions")
    case True
    then obtain r p where r: "map_of regions rid = Some r" "rg_parent r = Some p" by (auto simp: parent_of_def)
    from 1(2) have "rid \<notin> set seen" "\<not> parent_cycle regions (rid # seen) p"
      by (simp_all add: parent_cycle.simps [of regions seen rid] r split: if_splits)
    from "1.IH" [OF this(1) r this(2)] r show ?thesis
      by (auto simp: parent_of_def intro: converse_rtrancl_into_rtrancl)
  qed (auto intro: exI [of _ rid])
qed

lemma parent_cycle_found:
  "parent_cycle regions seen rid \<Longrightarrow> \<forall>s \<in> set seen. (s, rid) \<in> (parent_of regions)\<^sup>+ \<Longrightarrow> \<not> acyclic (parent_of regions)"
proof (induction regions seen rid rule: parent_cycle.induct)
  case (1 regions seen rid)
  show ?case
  proof (cases "rid \<in> set seen")
    case True
    with 1(3) show ?thesis by (auto simp: acyclic_def)
  next
    case False
    with 1(2) obtain r p where r: "map_of regions rid = Some r" "rg_parent r = Some p"
      and rec: "parent_cycle regions (rid # seen) p"
      by (auto simp: parent_cycle.simps [of regions seen rid] split: option.splits)
    then have "(rid, p) \<in> parent_of regions" by (auto simp: parent_of_def)
    then have "\<forall>s \<in> set (rid # seen). (s, p) \<in> (parent_of regions)\<^sup>+"
      using 1(3) by (auto intro: trancl_into_trancl)
    with "1.IH" [OF False r rec] show ?thesis by blast
  qed
qed

lemma cycle_closed:
  assumes "single_valued R" "(x, x) \<in> R\<^sup>+" "(x, y) \<in> R\<^sup>*"
  shows "(y, x) \<in> R\<^sup>+"
  using assms(3)
proof induction
  case (step y z)
  from tranclD [OF step.IH] obtain w where "(y, w) \<in> R" "(w, x) \<in> R\<^sup>*" by blast
  with step.hyps(2) assms(1) have "(z, x) \<in> R\<^sup>*" by (auto simp: single_valued_def)
  from rtrancl_trancl_trancl [OF this assms(2)] show ?case .
qed (rule assms(2))

lemma acyclic_parent_of: "acyclic (parent_of regions) \<longleftrightarrow> (\<forall>k \<in> fst ` set regions. \<not> parent_cycle regions [] k)"
proof
  assume "acyclic (parent_of regions)"
  then show "\<forall>k \<in> fst ` set regions. \<not> parent_cycle regions [] k"
    using parent_cycle_found [of regions "[]"] by auto
next
  assume no: "\<forall>k \<in> fst ` set regions. \<not> parent_cycle regions [] k"
  show "acyclic (parent_of regions)"
  proof (rule acyclicI, intro allI notI)
    fix x assume loop: "(x, x) \<in> (parent_of regions)\<^sup>+"
    then have "x \<in> Domain (parent_of regions)" by (meson Domain.DomainI tranclD)
    then have "x \<in> fst ` set regions"
      by (force simp: parent_of_def dest: map_of_SomeD)
    with no no_parent_cycle obtain top
      where "(x, top) \<in> (parent_of regions)\<^sup>*" "top \<notin> Domain (parent_of regions)" by blast
    with cycle_closed [OF single_valued_parent_of loop] show False
      by (meson Domain.DomainI tranclD)
  qed
qed

lemma check_region_parent_cycles_Nil:
  assumes "distinct (map rg_id (fl_regions fl))"
  shows "check_region_parent_cycles fl = [] \<longleftrightarrow> acyclic (parent_relation fl)"
proof -
  have rel: "parent_of (validator_regions fl) = parent_relation fl"
    using region_lookup [OF assms] by (auto simp: parent_of_def parent_relation_def)
  have keys: "fst ` set (validator_regions fl) = rg_id ` set (fl_regions fl)"
    using keys_btm_of [of "map (\<lambda>r. (rg_id r, r)) (fl_regions fl)"]
    by (simp add: validator_regions_def image_image)
  have "check_region_parent_cycles fl = [] \<longleftrightarrow>
      (\<forall>r \<in> set (fl_regions fl). \<not> parent_cycle (validator_regions fl) [] (rg_id r))"
    unfolding check_region_parent_cycles_def by (rule each_Nil_all) simp
  also have "\<dots> \<longleftrightarrow> acyclic (parent_of (validator_regions fl))"
    by (simp add: acyclic_parent_of keys)
  finally show ?thesis by (simp add: rel)
qed

interpretation execution: degree_walk "node_ids fl" "execution_edges fl" "successors (execution_edges fl)" for fl
  by unfold_locales (auto simp: execution_edges_def)

lemma node_ids_sorted: "sorted_wrt (<) (node_ids fl)"
  by (simp add: node_ids_def validator_nodes_def sorted_btm_of)

lemma set_node_ids: "set (node_ids fl) = nd_id ` set (fl_nodes fl)"
  using keys_btm_of [of "map (\<lambda>n. (nd_id n, n)) (fl_nodes fl)"]
  by (simp add: node_ids_def validator_nodes_def image_image)

lemma check_execution_cycles_defined:
  "visit_order Fifo (successors (execution_edges fl)) (node_ids fl) (execution_edges fl) \<noteq> None"
  using execution.visit_order_correct [OF node_ids_sorted, of Fifo fl] by blast

lemma check_execution_cycles_Nil:
  assumes "\<forall>e \<in> set (fl_edges fl). edge_valid fl e"
  shows "check_execution_cycles fl = [] \<longleftrightarrow> acyclic (execution_relation fl)"
proof -
  have "execution_relation fl = set (execution_edges fl)"
  proof -
    have "ep_node (ed_from e) \<in> set (node_ids fl) \<and> ep_node (ed_to e) \<in> set (node_ids fl)" if "e \<in> set (fl_edges fl)" for e
      using assms that unfolding edge_valid_def set_node_ids by (metis image_eqI)
    then show ?thesis by (auto simp: execution_relation_def execution_edges_def)
  qed
  moreover obtain order where
    "visit_order Fifo (successors (execution_edges fl)) (node_ids fl) (execution_edges fl) = Some order"
    "length order = length (node_ids fl) \<longleftrightarrow> acyclic (set (execution_edges fl))"
    using execution.visit_order_correct [OF node_ids_sorted, of Fifo fl] by metis
  ultimately show ?thesis
    by (simp add: check_execution_cycles_def)
qed

lemma run_Nil_iff: "run fl = [] \<longleftrightarrow> well_formed fl"
proof -
  let ?ids = "distinct (map nd_id (fl_nodes fl)) \<and> distinct (map rg_id (fl_regions fl)) \<and>
     ports_valid (fi_inputs (fl_interface fl)) \<and> ports_valid (fi_outputs (fl_interface fl))"
  show ?thesis
  proof (cases ?ids)
    case False
    then show ?thesis
      by (auto simp: run_def well_formed_def check_interface_Nil index_nodes_Nil index_regions_Nil)
  next
    case ids: True
    show ?thesis
    proof (cases "\<forall>n \<in> set (fl_nodes fl). node_valid fl n")
      case False
      then show ?thesis
        using ids by (auto simp: run_def well_formed_def check_nodes_Nil)
    next
      case nodes: True
      then have ports: "n \<in> set (fl_nodes fl) \<Longrightarrow> ports_valid (nd_inputs n) \<and> ports_valid (nd_outputs n)" for n
        by (auto simp: node_valid_def)
      show ?thesis
      proof (cases "\<forall>e \<in> set (fl_edges fl). edge_valid fl e")
        case False
        then show ?thesis
          using ids check_edges_Nil [OF _ _ ports] by (auto simp: run_def well_formed_def)
      next
        case True
        then show ?thesis
          using ids nodes check_edges_Nil [OF _ _ ports]
          by (auto simp: run_def well_formed_def check_interface_Nil index_contracts_Nil index_nodes_Nil index_regions_Nil
              check_nodes_Nil check_regions_Nil check_required_inputs_Nil check_region_parent_cycles_Nil
              check_execution_cycles_Nil)
      qed
    qed
  qed
qed

section \<open>Properties\<close>

text \<open>
  C7. The validator accepts exactly the well-formed flows: identifiers and their uniqueness, port
  types along every value edge, gates behind routes and loop exits, producers of every input port,
  loop membership of feedback, and acyclicity of the region parents and of all ordinary edges.
\<close>

theorem validate_iff_well_formed: "validate fl = Ok () \<longleftrightarrow> well_formed fl"
  by (simp add: validate_def run_Nil_iff)

end
