(* ===== verification/Flow_Hash.thy ===== *)
theory Flow_Hash
  imports Flow_Validate
begin

text \<open>
  The semantic form of a flow and its hash (\<^verbatim>\<open>crates/xshell-flow/src/hash.rs\<close>). The form
  drops labels and annotations and sorts every list whose order carries no meaning; the theorem
  says that two well-formed flows have the same form exactly when they mean the same. The JSON
  printer and the digest are the parameters of a \<open>flow_lib\<close>.
\<close>

section \<open>Semantic form\<close>

record semantic_node =
  sn_id :: string
  sn_inputs :: "port list"
  sn_outputs :: "port list"
  sn_kind :: node_kind
  sn_capabilities :: capabilities
  sn_resources :: resources

record semantic_region =
  sr_id :: string
  sr_parent :: "string option"
  sr_nodes :: "string list"
  sr_kind :: region_kind

record semantic_flow =
  sf_schema :: string
  sf_name :: string
  sf_interface :: flow_interface
  sf_contracts :: "contract list"
  sf_nodes :: "semantic_node list"
  sf_edges :: "edge list"
  sf_regions :: "semantic_region list"

definition sorted_capabilities :: "capabilities \<Rightarrow> capabilities" where
  "sorted_capabilities c =
     \<lparr>cp_read = sort (cp_read c), cp_write = sort (cp_write c), cp_execute = sort (cp_execute c),
      cp_network = sort (cp_network c)\<rparr>"

definition semantic_node_of :: "node \<Rightarrow> semantic_node" where
  "semantic_node_of n =
     \<lparr>sn_id = nd_id n, sn_inputs = sort_key pt_name (nd_inputs n), sn_outputs = sort_key pt_name (nd_outputs n),
      sn_kind = nd_kind n, sn_capabilities = sorted_capabilities (nd_capabilities n), sn_resources = nd_resources n\<rparr>"

definition semantic_region_of :: "region \<Rightarrow> semantic_region" where
  "semantic_region_of r =
     \<lparr>sr_id = rg_id r, sr_parent = rg_parent r, sr_nodes = sort (rg_nodes r), sr_kind = rg_kind r\<rparr>"

definition semantic_form :: "flow \<Rightarrow> semantic_flow" where
  "semantic_form fl =
     \<lparr>sf_schema = fl_schema fl, sf_name = fl_name fl,
      sf_interface = \<lparr>fi_inputs = sort_key pt_name (fi_inputs (fl_interface fl)),
                      fi_outputs = sort_key pt_name (fi_outputs (fl_interface fl))\<rparr>,
      sf_contracts = sort_key ct_id (fl_contracts fl),
      sf_nodes = sort_key sn_id (map semantic_node_of (fl_nodes fl)),
      sf_edges = sort_key ed_id (fl_edges fl),
      sf_regions = sort_key sr_id (map semantic_region_of (fl_regions fl))\<rparr>"

record flow_lib =
  fb_json :: "semantic_flow \<Rightarrow> string option"
  fb_sha256 :: "string \<Rightarrow> string"
  fb_hex :: "string \<Rightarrow> string"

definition canonical_semantic_bytes :: "flow_lib \<Rightarrow> flow \<Rightarrow> string option" where
  "canonical_semantic_bytes lib fl = fb_json lib (semantic_form fl)"

definition HASH_DOMAIN :: string where
  "HASH_DOMAIN = ''xshell.flow.semantic.v0'' @ [char_of (0 :: nat)]"

definition semantic_hash :: "flow_lib \<Rightarrow> flow \<Rightarrow> string option" where
  "semantic_hash lib fl =
     map_option (\<lambda>encoded. fb_hex lib (fb_sha256 lib (HASH_DOMAIN @ encoded))) (canonical_semantic_bytes lib fl)"

section \<open>Meaning\<close>

text \<open>What a flow says, with sets where the order of a list says nothing.\<close>

definition capabilities_meaning :: "capabilities \<Rightarrow> string set \<times> string set \<times> string set \<times> string set" where
  "capabilities_meaning c = (set (cp_read c), set (cp_write c), set (cp_execute c), set (cp_network c))"

definition node_meaning ::
  "node \<Rightarrow> string \<times> port set \<times> port set \<times> node_kind \<times> (string set \<times> string set \<times> string set \<times> string set) \<times> resources" where
  "node_meaning n =
     (nd_id n, set (nd_inputs n), set (nd_outputs n), nd_kind n, capabilities_meaning (nd_capabilities n), nd_resources n)"

definition region_meaning :: "region \<Rightarrow> string \<times> string option \<times> string set \<times> region_kind" where
  "region_meaning r = (rg_id r, rg_parent r, set (rg_nodes r), rg_kind r)"

definition same_meaning :: "flow \<Rightarrow> flow \<Rightarrow> bool" where
  "same_meaning fl fl' \<longleftrightarrow>
     fl_schema fl = fl_schema fl' \<and> fl_name fl = fl_name fl' \<and>
     set (fi_inputs (fl_interface fl)) = set (fi_inputs (fl_interface fl')) \<and>
     set (fi_outputs (fl_interface fl)) = set (fi_outputs (fl_interface fl')) \<and>
     set (fl_contracts fl) = set (fl_contracts fl') \<and>
     node_meaning ` set (fl_nodes fl) = node_meaning ` set (fl_nodes fl') \<and>
     set (fl_edges fl) = set (fl_edges fl') \<and>
     region_meaning ` set (fl_regions fl) = region_meaning ` set (fl_regions fl')"

lemma sort_ports_iff:
  "ports_valid ps \<Longrightarrow> ports_valid qs \<Longrightarrow> sort_key pt_name ps = sort_key pt_name qs \<longleftrightarrow> set ps = set qs"
  using same_ports_iff by (simp add: same_ports_def)

lemma sort_strings_iff:
  "distinct (xs :: string list) \<Longrightarrow> distinct ys \<Longrightarrow> sort xs = sort ys \<longleftrightarrow> set xs = set ys"
  using sort_key_eq_iff [of "\<lambda>x. x" xs ys] by simp

lemma semantic_node_iff:
  assumes "node_valid fl n" "node_valid fl' m"
  shows "semantic_node_of n = semantic_node_of m \<longleftrightarrow> node_meaning n = node_meaning m"
  using assms
  by (auto simp: semantic_node_of_def node_meaning_def node_valid_def sort_ports_iff sorted_capabilities_def
      capabilities_meaning_def strings_valid_def sort_strings_iff)

lemma semantic_region_iff:
  assumes "region_valid fl r" "region_valid fl' s"
  shows "semantic_region_of r = semantic_region_of s \<longleftrightarrow> region_meaning r = region_meaning s"
  using assms by (auto simp: semantic_region_of_def region_meaning_def region_valid_def sort_strings_iff)

text \<open>Lists with distinct keys, mapped to a form that keeps the key, are equal once sorted when the images are.\<close>

lemma sort_map_iff:
  assumes "distinct (map key xs)" "distinct (map key ys)" "\<And>x. key' (form x) = key x"
    and "\<And>x y. x \<in> set xs \<union> set ys \<Longrightarrow> y \<in> set xs \<union> set ys \<Longrightarrow> form x = form y \<longleftrightarrow> meaning x = meaning y"
  shows "sort_key key' (map form xs) = sort_key key' (map form ys) \<longleftrightarrow> meaning ` set xs = meaning ` set ys"
proof -
  have d: "distinct (map key' (map form zs))" if "distinct (map key zs)" for zs
    using that assms(3) by (simp add: comp_def)
  then have "distinct (map form zs) \<and> inj_on key' (set (map form zs))" if "distinct (map key zs)" for zs
    using that distinct_map [of key' "map form zs"] by blast
  then have "sort_key key' (map form xs) = sort_key key' (map form ys) \<longleftrightarrow> set (map form xs) = set (map form ys)"
    using assms(1,2) by (intro sort_key_eq_iff) blast+
  also have "\<dots> \<longleftrightarrow> meaning ` set xs = meaning ` set ys"
    using assms(4) by (auto simp: set_eq_iff image_iff) (metis UnI1 UnI2)+
  finally show ?thesis .
qed

lemma sort_self_iff:
  "distinct (map key xs) \<Longrightarrow> distinct (map key ys) \<Longrightarrow> sort_key key xs = sort_key key ys \<longleftrightarrow> set xs = set ys"
  by (simp add: sort_key_eq_iff distinct_map)

lemma semantic_form_iff:
  assumes fl: "well_formed fl" and fl': "well_formed fl'"
  shows "semantic_form fl = semantic_form fl' \<longleftrightarrow> same_meaning fl fl'"
proof -
  have nodes: "sort_key sn_id (map semantic_node_of (fl_nodes fl)) = sort_key sn_id (map semantic_node_of (fl_nodes fl')) \<longleftrightarrow>
      node_meaning ` set (fl_nodes fl) = node_meaning ` set (fl_nodes fl')"
  proof (rule sort_map_iff [where key = nd_id])
    fix x y assume xy: "x \<in> set (fl_nodes fl) \<union> set (fl_nodes fl')" "y \<in> set (fl_nodes fl) \<union> set (fl_nodes fl')"
    have "\<exists>g. node_valid g z" if "z \<in> set (fl_nodes fl) \<union> set (fl_nodes fl')" for z
      using that fl fl' unfolding well_formed_def by blast
    with xy obtain g h where "node_valid g x" "node_valid h y" by blast
    then show "semantic_node_of x = semantic_node_of y \<longleftrightarrow> node_meaning x = node_meaning y"
      by (rule semantic_node_iff)
  qed (use fl fl' in \<open>simp_all add: well_formed_def semantic_node_of_def\<close>)
  have regions: "sort_key sr_id (map semantic_region_of (fl_regions fl)) = sort_key sr_id (map semantic_region_of (fl_regions fl')) \<longleftrightarrow>
      region_meaning ` set (fl_regions fl) = region_meaning ` set (fl_regions fl')"
  proof (rule sort_map_iff [where key = rg_id])
    fix x y assume xy: "x \<in> set (fl_regions fl) \<union> set (fl_regions fl')" "y \<in> set (fl_regions fl) \<union> set (fl_regions fl')"
    have "\<exists>g. region_valid g z" if "z \<in> set (fl_regions fl) \<union> set (fl_regions fl')" for z
      using that fl fl' unfolding well_formed_def by blast
    with xy obtain g h where "region_valid g x" "region_valid h y" by blast
    then show "semantic_region_of x = semantic_region_of y \<longleftrightarrow> region_meaning x = region_meaning y"
      by (rule semantic_region_iff)
  qed (use fl fl' in \<open>simp_all add: well_formed_def semantic_region_of_def\<close>)
  show ?thesis
    using fl fl'
    by (simp add: semantic_form_def same_meaning_def nodes regions sort_ports_iff sort_self_iff well_formed_def)
qed

section \<open>Properties\<close>

text \<open>The JSON text of a semantic form determines the form.\<close>

definition json_distinguishes :: "flow_lib \<Rightarrow> bool" where
  "json_distinguishes lib \<longleftrightarrow>
     (\<forall>a b. fb_json lib a \<noteq> None \<longrightarrow> fb_json lib a = fb_json lib b \<longrightarrow> a = b)"

text \<open>Two flows whose semantic forms print differently and have one digest.\<close>

definition forms_collide :: "flow_lib \<Rightarrow> flow \<Rightarrow> flow \<Rightarrow> bool" where
  "forms_collide lib fl fl' \<longleftrightarrow>
     (\<exists>x y. fb_json lib (semantic_form fl) = Some x \<and> fb_json lib (semantic_form fl') = Some y \<and> x \<noteq> y \<and>
        fb_sha256 lib (HASH_DOMAIN @ x) = fb_sha256 lib (HASH_DOMAIN @ y))"

text \<open>
  C34. The semantic hash identifies what a flow means: two well-formed flows that mean the same,
  whatever the order of their lists, labels and annotations, have the same hash, and two well-formed
  flows with the same hash mean the same, unless the texts of these two flows differ and have one
  digest. The JSON printer distinguishes semantic forms and hexadecimal coding is injective.
\<close>

theorem semantic_hash_identifies_meaning:
  assumes "well_formed fl" "well_formed fl'" "json_distinguishes lib" "inj (fb_hex lib)"
    and "semantic_hash lib fl = Some h" "semantic_hash lib fl' = Some h'"
  shows "(same_meaning fl fl' \<longrightarrow> h = h') \<and> (h = h' \<longrightarrow> same_meaning fl fl' \<or> forms_collide lib fl fl')"
proof (intro conjI impI)
  assume "same_meaning fl fl'"
  with semantic_form_iff [OF assms(1,2)] assms(5,6) show "h = h'"
    by (auto simp: semantic_hash_def canonical_semantic_bytes_def)
next
  assume "h = h'"
  with assms(5,6) obtain x y where xy: "fb_json lib (semantic_form fl) = Some x" "fb_json lib (semantic_form fl') = Some y"
    and "fb_hex lib (fb_sha256 lib (HASH_DOMAIN @ x)) = fb_hex lib (fb_sha256 lib (HASH_DOMAIN @ y))"
    by (auto simp: semantic_hash_def canonical_semantic_bytes_def)
  with assms(4) have "fb_sha256 lib (HASH_DOMAIN @ x) = fb_sha256 lib (HASH_DOMAIN @ y)"
    by (simp add: inj_eq)
  then have "x = y \<or> forms_collide lib fl fl'"
    using xy unfolding forms_collide_def by blast
  with xy assms(3) semantic_form_iff [OF assms(1,2)] show "same_meaning fl fl' \<or> forms_collide lib fl fl'"
    by (auto simp: json_distinguishes_def)
qed

definition no_capabilities :: capabilities where
  "no_capabilities = \<lparr>cp_read = [], cp_write = [], cp_execute = [], cp_network = []\<rparr>"

definition no_resources :: resources where
  "no_resources = \<lparr>rs_timeout_ms = None, rs_memory_bytes = None, rs_output_bytes = None, rs_attempts = None\<rparr>"

definition plain_node :: "string \<Rightarrow> node_kind \<Rightarrow> node" where
  "plain_node i k = \<lparr>nd_id = i, nd_label = None, nd_inputs = [], nd_outputs = [], nd_kind = k,
     nd_capabilities = no_capabilities, nd_resources = no_resources, nd_annotations = []\<rparr>"

definition demo_flow :: flow where
  "demo_flow = \<lparr>fl_schema = FLOW_SCHEMA_V0, fl_name = ''demo'', fl_interface = \<lparr>fi_inputs = [], fi_outputs = []\<rparr>,
     fl_contracts = [], fl_nodes = [plain_node ''in'' InputNode, plain_node ''out'' OutputNode],
     fl_edges = [\<lparr>ed_id = ''e'', ed_from = \<lparr>ep_node = ''in'', ep_port = None\<rparr>, ed_to = \<lparr>ep_node = ''out'', ep_port = None\<rparr>,
                  ed_kind = DependencyEdge\<rparr>],
     fl_regions = [], fl_annotations = []\<rparr>"

definition demo_flow' :: flow where
  "demo_flow' = demo_flow\<lparr>fl_nodes := [(plain_node ''out'' OutputNode)\<lparr>nd_label := Some ''result''\<rparr>, plain_node ''in'' InputNode]\<rparr>"

lemma demo_flow_well_formed: "well_formed demo_flow" "well_formed demo_flow'"
proof -
  have "execution_relation demo_flow = {(''in'', ''out'')}" "execution_relation demo_flow' = {(''in'', ''out'')}"
    "parent_relation demo_flow = {}" "parent_relation demo_flow' = {}"
    by (auto simp: execution_relation_def parent_relation_def demo_flow_def demo_flow'_def is_feedback_def)
  then show "well_formed demo_flow" "well_formed demo_flow'"
    by (auto simp: well_formed_def demo_flow_def demo_flow'_def valid_identifier_def identifier_start_def identifier_rest_def
        is_ascii_alphabetic_def is_ascii_alphanumeric_def ports_valid_def plain_node_def node_valid_def strings_valid_def
        no_capabilities_def kind_valid_def count_kind_def edge_valid_def edge_between_def acyclic_def trancl_insert)
qed

definition demo_other_flow :: flow where
  "demo_other_flow = demo_flow\<lparr>fl_name := ''other''\<rparr>"

lemma demo_other_flow_well_formed: "well_formed demo_other_flow"
proof -
  have "execution_relation demo_other_flow = {(''in'', ''out'')}" "parent_relation demo_other_flow = {}"
    by (auto simp: execution_relation_def parent_relation_def demo_flow_def demo_other_flow_def is_feedback_def)
  then show ?thesis
    by (auto simp: well_formed_def demo_flow_def demo_other_flow_def valid_identifier_def identifier_start_def
        identifier_rest_def is_ascii_alphabetic_def is_ascii_alphanumeric_def ports_valid_def plain_node_def
        node_valid_def strings_valid_def no_capabilities_def kind_valid_def count_kind_def edge_valid_def
        edge_between_def acyclic_def trancl_insert)
qed

definition demo_flow_lib :: flow_lib where
  "demo_flow_lib = \<lparr>fb_json = (\<lambda>s. if s = semantic_form demo_flow then Some ''x''
                               else if s = semantic_form demo_other_flow then Some ''y'' else None),
                    fb_sha256 = (\<lambda>b. b), fb_hex = (\<lambda>b. b)\<rparr>"

lemma demo_flow_lib_laws: "json_distinguishes demo_flow_lib" "inj (fb_hex demo_flow_lib)"
  by (auto simp: json_distinguishes_def demo_flow_lib_def split: if_splits)

theorem semantic_hash_identifies_meaning_witness:
  "semantic_hash demo_flow_lib demo_flow = semantic_hash demo_flow_lib demo_flow' \<and>
   semantic_hash demo_flow_lib demo_flow \<noteq> semantic_hash demo_flow_lib demo_other_flow"
proof -
  have meaning: "same_meaning demo_flow demo_flow'" "\<not> same_meaning demo_flow demo_other_flow"
    by (auto simp: same_meaning_def demo_flow_def demo_flow'_def demo_other_flow_def node_meaning_def plain_node_def)
  then have forms: "semantic_form demo_flow' = semantic_form demo_flow" "semantic_form demo_other_flow \<noteq> semantic_form demo_flow"
    using semantic_form_iff [OF demo_flow_well_formed]
      semantic_form_iff [OF demo_flow_well_formed(1) demo_other_flow_well_formed] by auto
  then have hashes: "semantic_hash demo_flow_lib demo_flow = Some (HASH_DOMAIN @ ''x'')"
    "semantic_hash demo_flow_lib demo_flow' = Some (HASH_DOMAIN @ ''x'')"
    "semantic_hash demo_flow_lib demo_other_flow = Some (HASH_DOMAIN @ ''y'')"
    by (simp_all add: semantic_hash_def canonical_semantic_bytes_def demo_flow_lib_def)
  have "\<not> forms_collide demo_flow_lib demo_flow demo_other_flow"
    by (simp add: forms_collide_def demo_flow_lib_def)
  with meaning hashes
    semantic_hash_identifies_meaning [OF demo_flow_well_formed demo_flow_lib_laws hashes(1,2)]
    semantic_hash_identifies_meaning [OF demo_flow_well_formed(1) demo_other_flow_well_formed demo_flow_lib_laws
      hashes(1,3)]
  show ?thesis by auto
qed

end
