(* ===== verification/Plan_Model.thy ===== *)
theory Plan_Model
  imports Flow_Hash
begin

text \<open>
  The execution plan of \<^verbatim>\<open>crates/xshell-plan/src/model.rs\<close> and the conversions from the flow
  model. The types that the source sorts by their derived order (gate outcomes, route conditions,
  value selections, blockers) are linear orders through an injective key: the position of the
  variant, then its fields.
\<close>

definition PLAN_SCHEMA_V0 :: string where
  "PLAN_SCHEMA_V0 = ''xshell.plan/v0''"

section \<open>Data\<close>

record flow_identity =
  fy_schema :: string
  fy_semantic_sha256 :: string

datatype plan_value_type =
    PBool
  | PInt
  | PString
  | PPath
  | PEvidence
  | PContractReport
  | PReceipt
  | PArtifact "string option" "string option"
  | PList plan_value_type

record plan_port =
  pp_name :: string
  pp_value_type :: plan_value_type
  pp_optional :: bool

record plan_interface =
  pi_inputs :: "plan_port list"
  pi_outputs :: "plan_port list"

record resolved_program =
  rp_manifest_sha256 :: string
  rp_source_sha256 :: string
  rp_entrypoint :: string

record resolved_predicate =
  rd_definition_sha256 :: string
  rd_version :: string
  rd_implementation_sha256 :: string

datatype plan_contract_expression =
    PlanPredicate string "(string \<times> json) list" "resolved_predicate option"
  | PlanAll "plan_contract_expression list"
  | PlanAny "plan_contract_expression list"
  | PlanNot plan_contract_expression

record plan_contract =
  pc_id :: string
  pc_expression :: plan_contract_expression

datatype plan_join_strategy = PlanJoinAll | PlanJoinAny | PlanJoinFirstValid

datatype plan_gate_outcome = PlanValid | PlanInvalid | PlanError | PlanCancelled

datatype plan_exhaustion_policy = PlanFail | PlanYieldLast | PlanDiscard

datatype task_operation =
    InputOp
  | OutputOp
  | ProgramOp string "string option" "resolved_program option"
  | GateOp string
  | JoinOp plan_join_strategy
  | PromoteOp "string list"
  | DiscardOp

record port_reference =
  pf_task :: string
  pf_port :: string

datatype value_selection =
    Direct
  | LoopInitial string
  | CurrentIteration string
  | LoopFinal string
  | PreviousIteration string string

record value_binding =
  vb_from :: port_reference
  vb_selection :: value_selection

record input_binding =
  ib_port :: plan_port
  ib_sources :: "value_binding list"

datatype readiness_mode = ModeAll | ModeAny

record data_readiness =
  dr_mode :: readiness_mode
  dr_tasks :: "string list"

datatype route_condition = RouteCondition (rc_gate: string) (rc_outcome: plan_gate_outcome)

record readiness =
  rn_data :: data_readiness
  rn_after :: "string list"
  rn_activate_on_any :: "route_condition list"

record plan_resources =
  pq_timeout_ms :: "64 word option"
  pq_memory_bytes :: "64 word option"
  pq_output_bytes :: "64 word option"
  pq_attempts :: "32 word option"

record capability_summary =
  cs_read :: "string list"
  cs_write :: "string list"
  cs_execute :: "string list"
  cs_network :: "string list"

record task_template =
  tk_id :: string
  tk_operation :: task_operation
  tk_inputs :: "input_binding list"
  tk_outputs :: "plan_port list"
  tk_readiness :: readiness
  tk_region_path :: "string list"
  tk_transaction :: "string option"
  tk_loop_context :: "string option"
  tk_capabilities :: capability_summary
  tk_resources :: plan_resources

datatype plan_region_kind = PlanScope | PlanParallel | PlanTransaction string | PlanLoop

record region_template =
  rt_id :: string
  rt_parent :: "string option"
  rt_kind :: plan_region_kind
  rt_direct_members :: "string list"

record loop_state =
  ls_name :: string
  ls_value_type :: plan_value_type
  ls_target :: port_reference
  ls_initial :: port_reference
  ls_feedback :: port_reference

record loop_template =
  lt_id :: string
  lt_body_order :: "string list"
  lt_max_iterations :: "32 word"
  lt_until :: route_condition
  lt_on_exhausted :: plan_exhaustion_policy
  lt_states :: "loop_state list"

datatype resolution_blocker =
    UnresolvedProgram string string
  | UncheckedPredicate string string

record resolution_status =
  ru_fully_resolved :: bool
  ru_blockers :: "resolution_blocker list"

record plan =
  pl_schema :: string
  pl_name :: string
  pl_flow :: flow_identity
  pl_interface :: plan_interface
  pl_contracts :: "plan_contract list"
  pl_tasks :: "task_template list"
  pl_regions :: "region_template list"
  pl_loops :: "loop_template list"
  pl_capabilities :: capability_summary
  pl_resolution :: resolution_status

section \<open>Derived orders\<close>

definition outcome_rank :: "plan_gate_outcome \<Rightarrow> nat" where
  "outcome_rank o' = (case o' of PlanValid \<Rightarrow> 0 | PlanInvalid \<Rightarrow> 1 | PlanError \<Rightarrow> 2 | PlanCancelled \<Rightarrow> 3)"

lemma outcome_rank_inj: "outcome_rank a = outcome_rank b \<longleftrightarrow> a = b"
  by (cases a; cases b) (simp_all add: outcome_rank_def)

instantiation plan_gate_outcome :: linorder
begin

definition less_eq_plan_gate_outcome :: "plan_gate_outcome \<Rightarrow> plan_gate_outcome \<Rightarrow> bool" where
  "less_eq_plan_gate_outcome a b \<longleftrightarrow> outcome_rank a \<le> outcome_rank b"

definition less_plan_gate_outcome :: "plan_gate_outcome \<Rightarrow> plan_gate_outcome \<Rightarrow> bool" where
  "less_plan_gate_outcome a b \<longleftrightarrow> outcome_rank a < outcome_rank b"

instance
  by standard (auto simp: less_eq_plan_gate_outcome_def less_plan_gate_outcome_def outcome_rank_inj)

end

definition route_key :: "route_condition \<Rightarrow> string \<times> plan_gate_outcome" where
  "route_key c = (rc_gate c, rc_outcome c)"

lemma route_key_inj: "route_key a = route_key b \<longleftrightarrow> a = b"
  by (cases a; cases b) (simp add: route_key_def)

instantiation route_condition :: linorder
begin

definition less_eq_route_condition :: "route_condition \<Rightarrow> route_condition \<Rightarrow> bool" where
  "less_eq_route_condition a b \<longleftrightarrow> route_key a \<le> route_key b"

definition less_route_condition :: "route_condition \<Rightarrow> route_condition \<Rightarrow> bool" where
  "less_route_condition a b \<longleftrightarrow> route_key a < route_key b"

instance
  by standard (auto simp: less_eq_route_condition_def less_route_condition_def route_key_inj [symmetric])

end

fun selection_key :: "value_selection \<Rightarrow> nat \<times> string \<times> string" where
  "selection_key Direct = (0, [], [])"
| "selection_key (LoopInitial l) = (1, l, [])"
| "selection_key (CurrentIteration l) = (2, l, [])"
| "selection_key (LoopFinal l) = (3, l, [])"
| "selection_key (PreviousIteration l s) = (4, l, s)"

lemma selection_key_inj: "selection_key a = selection_key b \<longleftrightarrow> a = b"
  by (cases a; cases b) simp_all

instantiation value_selection :: linorder
begin

definition less_eq_value_selection :: "value_selection \<Rightarrow> value_selection \<Rightarrow> bool" where
  "less_eq_value_selection a b \<longleftrightarrow> selection_key a \<le> selection_key b"

definition less_value_selection :: "value_selection \<Rightarrow> value_selection \<Rightarrow> bool" where
  "less_value_selection a b \<longleftrightarrow> selection_key a < selection_key b"

instance
  by standard (auto simp: less_eq_value_selection_def less_value_selection_def selection_key_inj [symmetric])

end

fun blocker_key :: "resolution_blocker \<Rightarrow> nat \<times> string \<times> string" where
  "blocker_key (UnresolvedProgram t s) = (0, t, s)"
| "blocker_key (UncheckedPredicate c p) = (1, c, p)"

lemma blocker_key_inj: "blocker_key a = blocker_key b \<longleftrightarrow> a = b"
  by (cases a; cases b) simp_all

instantiation resolution_blocker :: linorder
begin

definition less_eq_resolution_blocker :: "resolution_blocker \<Rightarrow> resolution_blocker \<Rightarrow> bool" where
  "less_eq_resolution_blocker a b \<longleftrightarrow> blocker_key a \<le> blocker_key b"

definition less_resolution_blocker :: "resolution_blocker \<Rightarrow> resolution_blocker \<Rightarrow> bool" where
  "less_resolution_blocker a b \<longleftrightarrow> blocker_key a < blocker_key b"

instance
  by standard (auto simp: less_eq_resolution_blocker_def less_resolution_blocker_def blocker_key_inj [symmetric])

end

text \<open>\<open>sort()\<close> followed by \<open>dedup()\<close>.\<close>

definition sort_dedup :: "'a::linorder list \<Rightarrow> 'a list" where
  "sort_dedup xs = remdups_adj (sort xs)"

lemma set_sort_dedup [simp]: "set (sort_dedup xs) = set xs"
  by (simp add: sort_dedup_def)

lemma remdups_adj_strict: "sorted xs \<Longrightarrow> sorted_wrt (<) (remdups_adj (xs :: 'a::linorder list))"
proof (induction xs rule: remdups_adj.induct)
  case (3 x y xs)
  then show ?case by (auto simp: order.strict_iff_order intro: less_le_trans)
qed simp_all

lemma sort_dedup_strict [simp]: "sorted_wrt (<) (sort_dedup xs)"
  by (simp add: sort_dedup_def remdups_adj_strict)

lemma sort_dedup_unique: "sort_dedup xs = sort_dedup ys \<longleftrightarrow> set xs = set ys"
  by (metis set_sort_dedup sort_dedup_strict strict_sorted_equal)

section \<open>Conversions\<close>

definition normalize :: "capability_summary \<Rightarrow> capability_summary" where
  "normalize c = \<lparr>cs_read = sort_dedup (cs_read c), cs_write = sort_dedup (cs_write c),
                  cs_execute = sort_dedup (cs_execute c), cs_network = sort_dedup (cs_network c)\<rparr>"

definition cs_extend :: "capability_summary \<Rightarrow> capability_summary \<Rightarrow> capability_summary" where
  "cs_extend c other = normalize
     \<lparr>cs_read = cs_read c @ cs_read other, cs_write = cs_write c @ cs_write other,
      cs_execute = cs_execute c @ cs_execute other, cs_network = cs_network c @ cs_network other\<rparr>"

definition empty_summary :: capability_summary where
  "empty_summary = \<lparr>cs_read = [], cs_write = [], cs_execute = [], cs_network = []\<rparr>"

fun plan_type :: "value_type \<Rightarrow> plan_value_type" where
  "plan_type VBool = PBool"
| "plan_type VInt = PInt"
| "plan_type VString = PString"
| "plan_type VPath = PPath"
| "plan_type VEvidence = PEvidence"
| "plan_type VContractReport = PContractReport"
| "plan_type VReceipt = PReceipt"
| "plan_type (VArtifact m s) = PArtifact m s"
| "plan_type (VList t) = PList (plan_type t)"

definition plan_port_of :: "port \<Rightarrow> plan_port" where
  "plan_port_of p = \<lparr>pp_name = pt_name p, pp_value_type = plan_type (pt_value_type p), pp_optional = pt_optional p\<rparr>"

definition plan_interface_of :: "flow_interface \<Rightarrow> plan_interface" where
  "plan_interface_of i = \<lparr>pi_inputs = map plan_port_of (fi_inputs i), pi_outputs = map plan_port_of (fi_outputs i)\<rparr>"

fun plan_expression :: "contract_expression \<Rightarrow> plan_contract_expression" where
  "plan_expression (Predicate name arguments) = PlanPredicate name arguments None"
| "plan_expression (AllOf cs) = PlanAll (map plan_expression cs)"
| "plan_expression (AnyOf cs) = PlanAny (map plan_expression cs)"
| "plan_expression (NotClause c) = PlanNot (plan_expression c)"

definition plan_join :: "join_strategy \<Rightarrow> plan_join_strategy" where
  "plan_join s = (case s of JoinAll \<Rightarrow> PlanJoinAll | JoinAny \<Rightarrow> PlanJoinAny | JoinFirstValid \<Rightarrow> PlanJoinFirstValid)"

definition plan_outcome :: "gate_outcome \<Rightarrow> plan_gate_outcome" where
  "plan_outcome o' =
     (case o' of OutcomeValid \<Rightarrow> PlanValid | OutcomeInvalid \<Rightarrow> PlanInvalid | OutcomeError \<Rightarrow> PlanError
      | OutcomeCancelled \<Rightarrow> PlanCancelled)"

definition plan_exhaustion :: "exhaustion_policy \<Rightarrow> plan_exhaustion_policy" where
  "plan_exhaustion p =
     (case p of ExhaustFail \<Rightarrow> PlanFail | ExhaustYieldLast \<Rightarrow> PlanYieldLast | ExhaustDiscard \<Rightarrow> PlanDiscard)"

definition plan_resources_of :: "resources \<Rightarrow> plan_resources" where
  "plan_resources_of r =
     \<lparr>pq_timeout_ms = rs_timeout_ms r, pq_memory_bytes = rs_memory_bytes r, pq_output_bytes = rs_output_bytes r,
      pq_attempts = rs_attempts r\<rparr>"

end
