(* ===== verification/Plan_Encode.thy ===== *)
theory Plan_Encode
  imports Plan_Model
begin

text \<open>
  The canonical bytes of a plan (\<^verbatim>\<open>crates/xshell-plan/src/hash.rs\<close>). An encoder returns
  \<open>None\<close> when a length does not fit in 32 bits. Every encoder is a prefix code: what it wrote can be
  told apart from whatever follows. That interface is the locale \<open>prefix_code\<close>, with a view of the
  value because two JSON values can have one encoding (the two zeros, and objects up to key order).
\<close>

section \<open>Encoders\<close>

text \<open>Encoding one thing after the other; an error anywhere is an error of the whole.\<close>

definition cat :: "string option \<Rightarrow> string option \<Rightarrow> string option" where
  "cat a b = (case a of None \<Rightarrow> None | Some x \<Rightarrow> map_option (\<lambda>y. x @ y) b)"

definition enc_u8 :: "nat \<Rightarrow> string option" where
  "enc_u8 k = Some [char_of k]"

definition enc_bool :: "bool \<Rightarrow> string option" where
  "enc_bool b = enc_u8 (if b then 1 else 0)"

definition enc_u32 :: "32 word \<Rightarrow> string option" where
  "enc_u32 w = Some (be_bytes 4 (unat w))"

definition enc_u64 :: "64 word \<Rightarrow> string option" where
  "enc_u64 w = Some (be_bytes 8 (unat w))"

definition enc_length :: "nat \<Rightarrow> string option" where
  "enc_length n = (if n < 2 ^ 32 then Some (be_bytes 4 n) else None)"

definition enc_string :: "string \<Rightarrow> string option" where
  "enc_string s = cat (enc_length (length s)) (Some s)"

fun enc_items :: "('a \<Rightarrow> string option) \<Rightarrow> 'a list \<Rightarrow> string option" where
  "enc_items enc [] = Some []"
| "enc_items enc (x # xs) = cat (enc x) (enc_items enc xs)"

lemma enc_items_cong [fundef_cong]:
  "xs = ys \<Longrightarrow> (\<And>x. x \<in> set ys \<Longrightarrow> f x = g x) \<Longrightarrow> enc_items f xs = enc_items g ys"
  by (induction ys arbitrary: xs) auto

definition enc_list :: "('a \<Rightarrow> string option) \<Rightarrow> 'a list \<Rightarrow> string option" where
  "enc_list enc xs = cat (enc_length (length xs)) (enc_items enc xs)"

lemma enc_list_cong [fundef_cong]:
  "xs = ys \<Longrightarrow> (\<And>x. x \<in> set ys \<Longrightarrow> f x = g x) \<Longrightarrow> enc_list f xs = enc_list g ys"
  by (auto simp: enc_list_def intro: arg_cong [OF enc_items_cong])

definition enc_optional :: "('a \<Rightarrow> string option) \<Rightarrow> 'a option \<Rightarrow> string option" where
  "enc_optional enc v = (case v of None \<Rightarrow> enc_u8 0 | Some x \<Rightarrow> cat (enc_u8 1) (enc x))"

definition enc_flow_identity :: "flow_identity \<Rightarrow> string option" where
  "enc_flow_identity f = cat (enc_string (fy_schema f)) (enc_string (fy_semantic_sha256 f))"

fun enc_value_type :: "plan_value_type \<Rightarrow> string option" where
  "enc_value_type PBool = enc_u8 0"
| "enc_value_type PInt = enc_u8 1"
| "enc_value_type PString = enc_u8 2"
| "enc_value_type PPath = enc_u8 3"
| "enc_value_type PEvidence = enc_u8 4"
| "enc_value_type PContractReport = enc_u8 5"
| "enc_value_type PReceipt = enc_u8 6"
| "enc_value_type (PArtifact m s) = cat (enc_u8 7) (cat (enc_optional enc_string m) (enc_optional enc_string s))"
| "enc_value_type (PList t) = cat (enc_u8 8) (enc_value_type t)"

definition enc_port :: "plan_port \<Rightarrow> string option" where
  "enc_port p = cat (enc_string (pp_name p)) (cat (enc_value_type (pp_value_type p)) (enc_bool (pp_optional p)))"

definition enc_interface :: "plan_interface \<Rightarrow> string option" where
  "enc_interface i = cat (enc_list enc_port (pi_inputs i)) (enc_list enc_port (pi_outputs i))"

definition enc_resolved_program :: "resolved_program \<Rightarrow> string option" where
  "enc_resolved_program r =
     cat (enc_string (rp_manifest_sha256 r)) (cat (enc_string (rp_source_sha256 r)) (enc_string (rp_entrypoint r)))"

definition enc_resolved_predicate :: "resolved_predicate \<Rightarrow> string option" where
  "enc_resolved_predicate r =
     cat (enc_string (rd_definition_sha256 r)) (cat (enc_string (rd_version r)) (enc_string (rd_implementation_sha256 r)))"

text \<open>
  \<open>Value::Number\<close>: every unsigned integer, then negative integers, then floats by their bits, with
  negative zero as zero. The entries of an object are sorted by key.
\<close>

definition canonical_float :: "64 word \<Rightarrow> 64 word" where
  "canonical_float w = (if w = 0 \<or> w = 2 ^ 63 then 0 else w)"

definition enc_number :: "json_number \<Rightarrow> string option" where
  "enc_number n =
     (case n of
        PosInt w \<Rightarrow> cat (enc_u8 3) (enc_u64 w)
      | NegInt w \<Rightarrow> cat (enc_u8 4) (enc_u64 w)
      | Float w \<Rightarrow> cat (enc_u8 5) (enc_u64 (canonical_float w)))"

lemma size_entry: "e \<in> set es \<Longrightarrow> size (snd e) < size (JObject es)"
  by (induction es) (auto simp: less_Suc_eq_le)

lemma size_element: "v \<in> set vs \<Longrightarrow> size v < size (JArray vs)"
  by (induction vs) auto

function enc_json :: "json \<Rightarrow> string option" where
  "enc_json JNull = enc_u8 0"
| "enc_json (JBool b) = enc_u8 (if b then 2 else 1)"
| "enc_json (JNumber n) = enc_number n"
| "enc_json (JString s) = cat (enc_u8 6) (enc_string s)"
| "enc_json (JArray vs) = cat (enc_u8 7) (enc_list enc_json vs)"
| "enc_json (JObject es) =
     cat (enc_u8 8) (enc_list (\<lambda>e. cat (enc_string (fst e)) (enc_json (snd e))) (sort_key fst es))"
  by pat_completeness auto
termination
  by (relation "measure size") (simp_all only: in_measure set_sort size_entry size_element wf_measure)

definition enc_json_map :: "(string \<times> json) list \<Rightarrow> string option" where
  "enc_json_map es = enc_list (\<lambda>e. cat (enc_string (fst e)) (enc_json (snd e))) (sort_key fst es)"

fun enc_expression :: "plan_contract_expression \<Rightarrow> string option" where
  "enc_expression (PlanPredicate name arguments resolution) =
     cat (enc_u8 0) (cat (enc_string name) (cat (enc_json_map arguments) (enc_optional enc_resolved_predicate resolution)))"
| "enc_expression (PlanAll cs) = cat (enc_u8 1) (enc_list enc_expression cs)"
| "enc_expression (PlanAny cs) = cat (enc_u8 2) (enc_list enc_expression cs)"
| "enc_expression (PlanNot c) = cat (enc_u8 3) (enc_expression c)"

definition enc_contract :: "plan_contract \<Rightarrow> string option" where
  "enc_contract c = cat (enc_string (pc_id c)) (enc_expression (pc_expression c))"

definition enc_join_strategy :: "plan_join_strategy \<Rightarrow> string option" where
  "enc_join_strategy s = enc_u8 (case s of PlanJoinAll \<Rightarrow> 0 | PlanJoinAny \<Rightarrow> 1 | PlanJoinFirstValid \<Rightarrow> 2)"

definition enc_gate_outcome :: "plan_gate_outcome \<Rightarrow> string option" where
  "enc_gate_outcome o' = enc_u8 (case o' of PlanValid \<Rightarrow> 0 | PlanInvalid \<Rightarrow> 1 | PlanError \<Rightarrow> 2 | PlanCancelled \<Rightarrow> 3)"

definition enc_exhaustion_policy :: "plan_exhaustion_policy \<Rightarrow> string option" where
  "enc_exhaustion_policy p = enc_u8 (case p of PlanFail \<Rightarrow> 0 | PlanYieldLast \<Rightarrow> 1 | PlanDiscard \<Rightarrow> 2)"

definition enc_operation :: "task_operation \<Rightarrow> string option" where
  "enc_operation op =
     (case op of
        InputOp \<Rightarrow> enc_u8 0
      | OutputOp \<Rightarrow> enc_u8 1
      | ProgramOp source entrypoint resolution \<Rightarrow>
          cat (enc_u8 2) (cat (enc_string source) (cat (enc_optional enc_string entrypoint)
            (enc_optional enc_resolved_program resolution)))
      | GateOp c \<Rightarrow> cat (enc_u8 3) (enc_string c)
      | JoinOp s \<Rightarrow> cat (enc_u8 4) (enc_join_strategy s)
      | PromoteOp ps \<Rightarrow> cat (enc_u8 5) (enc_list enc_string ps)
      | DiscardOp \<Rightarrow> enc_u8 6)"

definition enc_port_reference :: "port_reference \<Rightarrow> string option" where
  "enc_port_reference r = cat (enc_string (pf_task r)) (enc_string (pf_port r))"

definition enc_selection :: "value_selection \<Rightarrow> string option" where
  "enc_selection s =
     (case s of
        Direct \<Rightarrow> enc_u8 0
      | LoopInitial l \<Rightarrow> cat (enc_u8 1) (enc_string l)
      | CurrentIteration l \<Rightarrow> cat (enc_u8 2) (enc_string l)
      | LoopFinal l \<Rightarrow> cat (enc_u8 3) (enc_string l)
      | PreviousIteration l state \<Rightarrow> cat (enc_u8 4) (cat (enc_string l) (enc_string state)))"

definition enc_value_binding :: "value_binding \<Rightarrow> string option" where
  "enc_value_binding b = cat (enc_port_reference (vb_from b)) (enc_selection (vb_selection b))"

definition enc_input_binding :: "input_binding \<Rightarrow> string option" where
  "enc_input_binding b = cat (enc_port (ib_port b)) (enc_list enc_value_binding (ib_sources b))"

definition enc_readiness_mode :: "readiness_mode \<Rightarrow> string option" where
  "enc_readiness_mode m = enc_u8 (case m of ModeAll \<Rightarrow> 0 | ModeAny \<Rightarrow> 1)"

definition enc_data_readiness :: "data_readiness \<Rightarrow> string option" where
  "enc_data_readiness d = cat (enc_readiness_mode (dr_mode d)) (enc_list enc_string (dr_tasks d))"

definition enc_route_condition :: "route_condition \<Rightarrow> string option" where
  "enc_route_condition c = cat (enc_string (rc_gate c)) (enc_gate_outcome (rc_outcome c))"

definition enc_readiness :: "readiness \<Rightarrow> string option" where
  "enc_readiness r =
     cat (enc_data_readiness (rn_data r))
       (cat (enc_list enc_string (rn_after r)) (enc_list enc_route_condition (rn_activate_on_any r)))"

definition enc_summary :: "capability_summary \<Rightarrow> string option" where
  "enc_summary c =
     cat (enc_list enc_string (cs_read c)) (cat (enc_list enc_string (cs_write c))
       (cat (enc_list enc_string (cs_execute c)) (enc_list enc_string (cs_network c))))"

definition enc_resources :: "plan_resources \<Rightarrow> string option" where
  "enc_resources r =
     cat (enc_optional enc_u64 (pq_timeout_ms r)) (cat (enc_optional enc_u64 (pq_memory_bytes r))
       (cat (enc_optional enc_u64 (pq_output_bytes r)) (enc_optional enc_u32 (pq_attempts r))))"

definition enc_task :: "task_template \<Rightarrow> string option" where
  "enc_task t =
     cat (enc_string (tk_id t)) (cat (enc_operation (tk_operation t)) (cat (enc_list enc_input_binding (tk_inputs t))
       (cat (enc_list enc_port (tk_outputs t)) (cat (enc_readiness (tk_readiness t))
         (cat (enc_list enc_string (tk_region_path t)) (cat (enc_optional enc_string (tk_transaction t))
           (cat (enc_optional enc_string (tk_loop_context t)) (cat (enc_summary (tk_capabilities t))
             (enc_resources (tk_resources t))))))))))"

definition enc_region_kind :: "plan_region_kind \<Rightarrow> string option" where
  "enc_region_kind k =
     (case k of PlanScope \<Rightarrow> enc_u8 0 | PlanParallel \<Rightarrow> enc_u8 1 | PlanTransaction w \<Rightarrow> cat (enc_u8 2) (enc_string w)
      | PlanLoop \<Rightarrow> enc_u8 3)"

definition enc_region :: "region_template \<Rightarrow> string option" where
  "enc_region r =
     cat (enc_string (rt_id r)) (cat (enc_optional enc_string (rt_parent r))
       (cat (enc_region_kind (rt_kind r)) (enc_list enc_string (rt_direct_members r))))"

definition enc_loop_state :: "loop_state \<Rightarrow> string option" where
  "enc_loop_state s =
     cat (enc_string (ls_name s)) (cat (enc_value_type (ls_value_type s)) (cat (enc_port_reference (ls_target s))
       (cat (enc_port_reference (ls_initial s)) (enc_port_reference (ls_feedback s)))))"

definition enc_loop :: "loop_template \<Rightarrow> string option" where
  "enc_loop l =
     cat (enc_string (lt_id l)) (cat (enc_list enc_string (lt_body_order l)) (cat (enc_u32 (lt_max_iterations l))
       (cat (enc_route_condition (lt_until l)) (cat (enc_exhaustion_policy (lt_on_exhausted l))
         (enc_list enc_loop_state (lt_states l))))))"

definition enc_blocker :: "resolution_blocker \<Rightarrow> string option" where
  "enc_blocker b =
     (case b of
        UnresolvedProgram t s \<Rightarrow> cat (enc_u8 0) (cat (enc_string t) (enc_string s))
      | UncheckedPredicate c p \<Rightarrow> cat (enc_u8 1) (cat (enc_string c) (enc_string p)))"

definition enc_resolution :: "resolution_status \<Rightarrow> string option" where
  "enc_resolution r = cat (enc_bool (ru_fully_resolved r)) (enc_list enc_blocker (ru_blockers r))"

definition enc_plan :: "plan \<Rightarrow> string option" where
  "enc_plan p =
     cat (enc_string (pl_schema p)) (cat (enc_string (pl_name p)) (cat (enc_flow_identity (pl_flow p))
       (cat (enc_interface (pl_interface p)) (cat (enc_list enc_contract (pl_contracts p))
         (cat (enc_list enc_task (pl_tasks p)) (cat (enc_list enc_region (pl_regions p))
           (cat (enc_list enc_loop (pl_loops p)) (cat (enc_summary (pl_capabilities p))
             (enc_resolution (pl_resolution p))))))))))"

datatype encode_error = UnsupportedSchema string | LengthOverflow

definition CANONICAL_MAGIC :: string where
  "CANONICAL_MAGIC = ''FSPLAN'' @ [char_of (0 :: nat), char_of (1 :: nat)]"

definition canonical_plan_bytes :: "plan \<Rightarrow> (encode_error, string) result" where
  "canonical_plan_bytes p =
     (if pl_schema p \<noteq> PLAN_SCHEMA_V0 then Err (UnsupportedSchema (pl_schema p))
      else case enc_plan p of None \<Rightarrow> Err LengthOverflow | Some b \<Rightarrow> Ok (CANONICAL_MAGIC @ b))"

definition PLAN_HASH_DOMAIN :: string where
  "PLAN_HASH_DOMAIN = ''xshell.plan.semantic.fsplan-v1'' @ [char_of (0 :: nat)]"

definition plan_hash :: "(string \<Rightarrow> string) \<Rightarrow> plan \<Rightarrow> (encode_error, string) result" where
  "plan_hash sha256 p = and_then (canonical_plan_bytes p) (\<lambda>b. Ok (sha256 (PLAN_HASH_DOMAIN @ b)))"

record plan_artifact =
  pa_plan_hash :: string
  pa_plan :: plan

definition artifact :: "(string \<Rightarrow> string) \<Rightarrow> (string \<Rightarrow> string) \<Rightarrow> plan \<Rightarrow> (encode_error, plan_artifact) result" where
  "artifact sha256 hex p = and_then (plan_hash sha256 p) (\<lambda>h. Ok \<lparr>pa_plan_hash = hex h, pa_plan = p\<rparr>)"

definition verify_hash :: "(string \<Rightarrow> string) \<Rightarrow> (string \<Rightarrow> string) \<Rightarrow> plan_artifact \<Rightarrow> (encode_error, bool) result" where
  "verify_hash sha256 hex a = and_then (plan_hash sha256 (pa_plan a)) (\<lambda>h. Ok (hex h = pa_plan_hash a))"

section \<open>Prefix codes\<close>

text \<open>
  Two encodings agree on a statement when reading either of them off the front of the same bytes
  proves the statement and leaves the same rest.
\<close>

definition agree :: "string option \<Rightarrow> string option \<Rightarrow> bool \<Rightarrow> bool" where
  "agree A B P \<longleftrightarrow> (\<forall>a b s t. A = Some a \<longrightarrow> B = Some b \<longrightarrow> a @ s = b @ t \<longrightarrow> P \<and> s = t)"

lemma agreeI:
  "(\<And>a b s t. A = Some a \<Longrightarrow> B = Some b \<Longrightarrow> a @ s = b @ t \<Longrightarrow> P \<and> s = t) \<Longrightarrow> agree A B P"
  unfolding agree_def by blast

lemma agreeD:
  "agree A B P \<Longrightarrow> A = Some a \<Longrightarrow> B = Some b \<Longrightarrow> a @ s = b @ t \<Longrightarrow> P \<and> s = t"
  unfolding agree_def by metis

lemma agree_weaken: "agree A B P \<Longrightarrow> (P \<Longrightarrow> Q) \<Longrightarrow> agree A B Q"
  unfolding agree_def by metis

lemma cat_eq_Some: "cat A B = Some c \<longleftrightarrow> (\<exists>a b. A = Some a \<and> B = Some b \<and> c = a @ b)"
  by (auto simp: cat_def split: option.splits)

lemma agree_cat_dep:
  assumes "agree A B P" and "P \<Longrightarrow> agree A' B' Q"
  shows "agree (cat A A') (cat B B') (P \<and> Q)"
proof (rule agreeI)
  fix c d s t
  assume "cat A A' = Some c" "cat B B' = Some d" and eq: "c @ s = d @ t"
  then obtain a a' b b' where *: "A = Some a" "A' = Some a'" "c = a @ a'" "B = Some b" "B' = Some b'" "d = b @ b'"
    by (auto simp: cat_eq_Some)
  have "P \<and> a' @ s = b' @ t"
    by (rule agreeD [OF assms(1)]) (use * eq in auto)
  then show "(P \<and> Q) \<and> s = t"
    using agreeD [OF assms(2)] * by blast
qed

named_theorems agrees

lemma agree_cat [agrees]: "agree A B P \<Longrightarrow> agree A' B' Q \<Longrightarrow> agree (cat A A') (cat B B') (P \<and> Q)"
  by (rule agree_cat_dep)

lemma agree_bytes: "length a = length b \<Longrightarrow> (a = b \<Longrightarrow> P) \<Longrightarrow> agree (Some a) (Some b) P"
  by (auto simp: agree_def)

lemma agree_u8: "j < 256 \<Longrightarrow> k < 256 \<Longrightarrow> agree (enc_u8 j) (enc_u8 k) (j = k)"
  unfolding enc_u8_def by (rule agree_bytes) (simp_all add: char_of_quasi_inj)

lemma agree_bool [agrees]: "agree (enc_bool p) (enc_bool q) (p = q)"
  unfolding enc_bool_def by (rule agree_weaken, rule agree_u8) (auto split: if_splits)

lemma agree_u32 [agrees]: "agree (enc_u32 v) (enc_u32 w) (v = w)"
  unfolding enc_u32_def
  by (rule agree_bytes, simp)
     (use be_bytes_inject [of "unat v" 4 "unat w"] unsigned_less [of v] unsigned_less [of w] in \<open>simp add: word_unat_eq_iff\<close>)

lemma agree_u64 [agrees]: "agree (enc_u64 v) (enc_u64 w) (v = w)"
  unfolding enc_u64_def
  by (rule agree_bytes, simp)
     (use be_bytes_inject [of "unat v" 8 "unat w"] unsigned_less [of v] unsigned_less [of w] in \<open>simp add: word_unat_eq_iff\<close>)

lemma agree_length: "agree (enc_length m) (enc_length n) (m = n)"
proof (cases "m < 2 ^ 32 \<and> n < 2 ^ 32")
  case True
  then have "be_bytes 4 m = be_bytes 4 n \<longleftrightarrow> m = n" by (intro be_bytes_inject) simp_all
  with True show ?thesis by (auto simp: enc_length_def intro!: agree_bytes)
qed (auto simp: enc_length_def agree_def)

lemma agree_string [agrees]: "agree (enc_string x) (enc_string y) (x = y)"
  unfolding enc_string_def
  by (rule agree_weaken, rule agree_cat_dep [OF agree_length]) (auto intro: agree_bytes)

lemma agree_items:
  "length xs = length ys \<Longrightarrow> (\<And>x y. x \<in> set xs \<Longrightarrow> agree (enc x) (enc y) (view x = view y)) \<Longrightarrow>
     agree (enc_items enc xs) (enc_items enc ys) (map view xs = map view ys)"
proof (induction xs ys rule: list_induct2)
  case (Cons x xs y ys)
  then have "agree (cat (enc x) (enc_items enc xs)) (cat (enc y) (enc_items enc ys))
      (view x = view y \<and> map view xs = map view ys)"
    by (intro agree_cat) simp_all
  then show ?case by simp
qed (simp add: agree_def)

lemma agree_list_on:
  assumes "\<And>x y. x \<in> set xs \<Longrightarrow> agree (enc x) (enc y) (view x = view y)"
  shows "agree (enc_list enc xs) (enc_list enc ys) (map view xs = map view ys)"
  unfolding enc_list_def
  by (rule agree_weaken, rule agree_cat_dep [OF agree_length], rule agree_items) (use assms in auto)

lemma agree_optional_on:
  assumes "\<And>x y. agree (enc x) (enc y) (view x = view y)"
  shows "agree (enc_optional enc u) (enc_optional enc v) (map_option view u = map_option view v)"
proof (cases u; cases v)
  fix x y assume "u = Some x" "v = Some y"
  then show ?thesis
    using agree_cat [OF agree_u8 [of 1 1] assms [of x y]] by (simp add: enc_optional_def)
qed (auto simp: enc_optional_def agree_def cat_eq_Some enc_u8_def char_of_quasi_inj)

text \<open>A variant is told from another by its first byte.\<close>

lemma agree_tag_differ [simp]:
  assumes "j \<noteq> k" "j < 256" "k < 256"
  shows "agree (cat (enc_u8 j) A) (cat (enc_u8 k) B) P" "agree (enc_u8 j) (cat (enc_u8 k) B) P"
    "agree (cat (enc_u8 j) A) (enc_u8 k) P" "agree (enc_u8 j) (enc_u8 k) P"
  using assms by (auto simp: agree_def cat_eq_Some enc_u8_def char_of_quasi_inj)

lemma agree_tag_same: "agree A B P \<Longrightarrow> agree (cat (enc_u8 k) A) (cat (enc_u8 k) B) P"
  by (auto simp: agree_def cat_eq_Some enc_u8_def)

lemma agree_tag_only [simp]: "agree (enc_u8 k) (enc_u8 k) True"
  by (auto simp: agree_def enc_u8_def)

locale prefix_code =
  fixes enc :: "'a \<Rightarrow> string option" and view :: "'a \<Rightarrow> 'b"
  assumes agreement: "agree (enc x) (enc y) (view x = view y)"
begin

lemma encoding_identifies: "enc x = Some a \<Longrightarrow> enc y = Some a \<Longrightarrow> view x = view y"
  using agreeD [OF agreement, of x a y a "[]" "[]"] by simp

lemma sequence: "agree (enc_list enc xs) (enc_list enc ys) (map view xs = map view ys)"
  by (rule agree_list_on) (rule agreement)

lemma present: "agree (enc_optional enc u) (enc_optional enc v) (map_option view u = map_option view v)"
  by (rule agree_optional_on) (rule agreement)

end

section \<open>What the canonical bytes of JSON identify\<close>

definition canonical_number :: "json_number \<Rightarrow> json_number" where
  "canonical_number n = (case n of PosInt w \<Rightarrow> PosInt w | NegInt w \<Rightarrow> NegInt w | Float w \<Rightarrow> Float (canonical_float w))"

text \<open>Entries in key order at every level, one zero.\<close>

function canonical_json :: "json \<Rightarrow> json" where
  "canonical_json JNull = JNull"
| "canonical_json (JBool b) = JBool b"
| "canonical_json (JNumber n) = JNumber (canonical_number n)"
| "canonical_json (JString s) = JString s"
| "canonical_json (JArray vs) = JArray (map canonical_json vs)"
| "canonical_json (JObject es) = JObject (map (\<lambda>e. (fst e, canonical_json (snd e))) (sort_key fst es))"
  by pat_completeness auto
termination
  by (relation "measure size") (simp_all only: in_measure set_sort size_entry size_element wf_measure)

definition canonical_entries :: "(string \<times> json) list \<Rightarrow> (string \<times> json) list" where
  "canonical_entries es = map (\<lambda>e. (fst e, canonical_json (snd e))) (sort_key fst es)"

fun canonical_expression :: "plan_contract_expression \<Rightarrow> plan_contract_expression" where
  "canonical_expression (PlanPredicate name arguments resolution) =
     PlanPredicate name (canonical_entries arguments) resolution"
| "canonical_expression (PlanAll cs) = PlanAll (map canonical_expression cs)"
| "canonical_expression (PlanAny cs) = PlanAny (map canonical_expression cs)"
| "canonical_expression (PlanNot c) = PlanNot (canonical_expression c)"

definition canonical_contract :: "plan_contract \<Rightarrow> plan_contract" where
  "canonical_contract c = c\<lparr>pc_expression := canonical_expression (pc_expression c)\<rparr>"

definition canonical_plan :: "plan \<Rightarrow> plan" where
  "canonical_plan p = p\<lparr>pl_contracts := map canonical_contract (pl_contracts p)\<rparr>"

lemma agree_number: "agree (enc_number m) (enc_number n) (canonical_number m = canonical_number n)"
  by (cases m; cases n)
     (simp_all add: enc_number_def canonical_number_def agree_tag_same agree_u64)

lemma agree_entries:
  assumes "\<And>e y. e \<in> set es \<Longrightarrow> agree (enc_json (snd e)) (enc_json y) (canonical_json (snd e) = canonical_json y)"
  shows "agree (enc_json_map es) (enc_json_map fs) (canonical_entries es = canonical_entries fs)"
  unfolding enc_json_map_def canonical_entries_def
proof (rule agree_list_on)
  fix e f :: "string \<times> json"
  assume "e \<in> set (sort_key fst es)"
  then have "agree (enc_json (snd e)) (enc_json (snd f)) (canonical_json (snd e) = canonical_json (snd f))"
    by (intro assms) simp
  from agree_cat [OF agree_string [of "fst e" "fst f"] this]
  show "agree (cat (enc_string (fst e)) (enc_json (snd e))) (cat (enc_string (fst f)) (enc_json (snd f)))
     ((fst e, canonical_json (snd e)) = (fst f, canonical_json (snd f)))" by simp
qed

lemma enc_json_object: "enc_json (JObject es) = cat (enc_u8 8) (enc_json_map es)"
  by (simp add: enc_json_map_def)

lemma canonical_json_object: "canonical_json (JObject es) = JObject (canonical_entries es)"
  by (simp add: canonical_entries_def)

lemma agree_json: "agree (enc_json x) (enc_json y) (canonical_json x = canonical_json y)"
proof (induction x arbitrary: y rule: enc_json.induct)
  case (2 b)
  then show ?case by (cases y; cases b) (auto simp: enc_number_def split: json_number.splits)
next
  case (3 n)
  then show ?case
    by (cases y) (auto simp: canonical_number_def agree_tag_same agree_u64 enc_number_def split: json_number.splits)
next
  case (5 vs)
  then have "agree (enc_list enc_json vs) (enc_list enc_json ws) (map canonical_json vs = map canonical_json ws)" for ws
    by (intro agree_list_on) simp
  then show ?case by (cases y) (auto simp: agree_tag_same enc_number_def split: json_number.splits)
next
  case (6 es)
  then have "agree (enc_json_map es) (enc_json_map fs) (canonical_entries es = canonical_entries fs)" for fs
    by (intro agree_entries) simp
  then show ?case
    by (cases y) (auto simp: agree_tag_same enc_number_def enc_json_object canonical_json_object
        simp del: enc_json.simps(6) canonical_json.simps(6) split: json_number.splits)
next
  case 1
  then show ?case by (cases y) (auto simp: enc_number_def split: json_number.splits)
next
  case (4 s)
  then show ?case by (cases y) (auto simp: agree_tag_same agree_string enc_number_def split: json_number.splits)
qed

interpretation json_code: prefix_code enc_json canonical_json
  by unfold_locales (rule agree_json)

lemma agree_json_map [agrees]: "agree (enc_json_map es) (enc_json_map fs) (canonical_entries es = canonical_entries fs)"
  by (rule agree_entries) (rule agree_json)

section \<open>Every encoder of the plan is a prefix code\<close>

lemmas agree_strings [agrees] = agree_list_on [of _ enc_string "\<lambda>s. s", OF agree_string, unfolded list.map_ident]

lemmas agree_optional_string [agrees] =
  agree_optional_on [of enc_string "\<lambda>s. s", OF agree_string, unfolded option.map_ident]

lemmas agree_optional_u64 [agrees] =
  agree_optional_on [of enc_u64 "\<lambda>w. w", OF agree_u64, unfolded option.map_ident]

lemmas agree_optional_u32 [agrees] =
  agree_optional_on [of enc_u32 "\<lambda>w. w", OF agree_u32, unfolded option.map_ident]

text \<open>The code of a type whose encoding loses nothing, with the codes of its lists and options.\<close>

locale exact_code = prefix_code enc "\<lambda>x. x" for enc :: "'a \<Rightarrow> string option"
begin

lemma exact: "agree (enc x) (enc y) (x = y)"
  by (rule agreement)

lemma exact_list: "agree (enc_list enc xs) (enc_list enc ys) (xs = ys)"
  using sequence [of xs ys] by simp

lemma exact_optional: "agree (enc_optional enc u) (enc_optional enc v) (u = v)"
  using present [of u v] by (simp add: option.map_ident)

end

lemma agree_value_type [agrees]: "agree (enc_value_type x) (enc_value_type y) (x = y)"
proof (induction x arbitrary: y)
  case (PArtifact m s)
  have "agree (cat (enc_optional enc_string m) (enc_optional enc_string s))
      (cat (enc_optional enc_string m') (enc_optional enc_string s')) (m = m' \<and> s = s')" for m' s'
    by (rule agrees)+
  then show ?case by (cases y) (simp_all add: agree_tag_same)
next
  case (PList x)
  then show ?case by (cases y) (simp_all add: agree_tag_same)
qed (case_tac [!] y, simp_all)

lemma agree_port [agrees]: "agree (enc_port x) (enc_port y) (x = y)"
  unfolding enc_port_def by (rule agree_weaken, (rule agrees)+) simp

interpretation port_code: exact_code enc_port
  by unfold_locales (rule agree_port)

lemmas port_code.exact_list [agrees]

lemma agree_interface [agrees]: "agree (enc_interface x) (enc_interface y) (x = y)"
  unfolding enc_interface_def by (rule agree_weaken, (rule agrees)+) simp

lemma agree_flow_identity [agrees]: "agree (enc_flow_identity x) (enc_flow_identity y) (x = y)"
  unfolding enc_flow_identity_def by (rule agree_weaken, (rule agrees)+) simp

lemma agree_resolved_program: "agree (enc_resolved_program x) (enc_resolved_program y) (x = y)"
  unfolding enc_resolved_program_def by (rule agree_weaken, (rule agrees)+) simp

interpretation program_code: exact_code enc_resolved_program
  by unfold_locales (rule agree_resolved_program)

lemma agree_resolved_predicate: "agree (enc_resolved_predicate x) (enc_resolved_predicate y) (x = y)"
  unfolding enc_resolved_predicate_def by (rule agree_weaken, (rule agrees)+) simp

interpretation predicate_code: exact_code enc_resolved_predicate
  by unfold_locales (rule agree_resolved_predicate)

lemmas program_code.exact_optional [agrees] predicate_code.exact_optional [agrees]

lemma agree_expression: "agree (enc_expression x) (enc_expression y) (canonical_expression x = canonical_expression y)"
proof (induction x arbitrary: y)
  case (PlanPredicate n es r)
  have "agree (cat (enc_string n) (cat (enc_json_map es) (enc_optional enc_resolved_predicate r)))
      (cat (enc_string n') (cat (enc_json_map es') (enc_optional enc_resolved_predicate r')))
      (n = n' \<and> canonical_entries es = canonical_entries es' \<and> r = r')" for n' es' r'
    by (rule agrees)+
  then show ?case by (cases y) (simp_all add: agree_tag_same)
next
  case (PlanAll cs)
  then show ?case by (cases y) (simp_all add: agree_tag_same agree_list_on)
next
  case (PlanAny cs)
  then show ?case by (cases y) (simp_all add: agree_tag_same agree_list_on)
next
  case (PlanNot x)
  then show ?case by (cases y) (simp_all add: agree_tag_same)
qed

lemma agree_contract: "agree (enc_contract x) (enc_contract y) (canonical_contract x = canonical_contract y)"
  unfolding enc_contract_def
  by (rule agree_weaken, rule agree_cat [OF agree_string agree_expression]) (simp add: canonical_contract_def)

interpretation contract_code: prefix_code enc_contract canonical_contract
  by unfold_locales (rule agree_contract)

lemmas contract_code.sequence [agrees]

lemma agree_join_strategy: "agree (enc_join_strategy x) (enc_join_strategy y) (x = y)"
  by (cases x; cases y) (simp_all add: enc_join_strategy_def)

lemma agree_gate_outcome [agrees]: "agree (enc_gate_outcome x) (enc_gate_outcome y) (x = y)"
  by (cases x; cases y) (simp_all add: enc_gate_outcome_def)

lemma agree_exhaustion_policy [agrees]: "agree (enc_exhaustion_policy x) (enc_exhaustion_policy y) (x = y)"
  by (cases x; cases y) (simp_all add: enc_exhaustion_policy_def)

lemma agree_readiness_mode [agrees]: "agree (enc_readiness_mode x) (enc_readiness_mode y) (x = y)"
  by (cases x; cases y) (simp_all add: enc_readiness_mode_def)

lemma agree_operation [agrees]: "agree (enc_operation x) (enc_operation y) (x = y)"
proof -
  have *: "agree (cat (enc_string s) (cat (enc_optional enc_string e) (enc_optional enc_resolved_program r)))
      (cat (enc_string s') (cat (enc_optional enc_string e') (enc_optional enc_resolved_program r')))
      (s = s' \<and> e = e' \<and> r = r')" for s s' e e' r r'
    by (rule agrees)+
  show ?thesis
    by (cases x; cases y) (simp_all add: enc_operation_def agree_tag_same * agree_string agree_strings agree_join_strategy)
qed

lemma agree_port_reference [agrees]: "agree (enc_port_reference x) (enc_port_reference y) (x = y)"
  unfolding enc_port_reference_def by (rule agree_weaken, (rule agrees)+) simp

lemma agree_two_strings: "agree (cat (enc_string a) (enc_string b)) (cat (enc_string c) (enc_string d)) (a = c \<and> b = d)"
  by (rule agrees)+

lemma agree_selection [agrees]: "agree (enc_selection x) (enc_selection y) (x = y)"
  by (cases x; cases y) (simp_all add: enc_selection_def agree_tag_same agree_two_strings agree_string)

lemma agree_value_binding: "agree (enc_value_binding x) (enc_value_binding y) (x = y)"
  unfolding enc_value_binding_def by (rule agree_weaken, (rule agrees)+) simp

interpretation value_binding_code: exact_code enc_value_binding
  by unfold_locales (rule agree_value_binding)

lemmas value_binding_code.exact_list [agrees]

lemma agree_input_binding: "agree (enc_input_binding x) (enc_input_binding y) (x = y)"
  unfolding enc_input_binding_def by (rule agree_weaken, (rule agrees)+) simp

interpretation input_binding_code: exact_code enc_input_binding
  by unfold_locales (rule agree_input_binding)

lemma agree_route_condition [agrees]: "agree (enc_route_condition x) (enc_route_condition y) (x = y)"
  unfolding enc_route_condition_def by (rule agree_weaken, (rule agrees)+) (simp add: route_condition.expand)

interpretation route_code: exact_code enc_route_condition
  by unfold_locales (rule agree_route_condition)

lemmas input_binding_code.exact_list [agrees] route_code.exact_list [agrees]

lemma agree_data_readiness [agrees]: "agree (enc_data_readiness x) (enc_data_readiness y) (x = y)"
  unfolding enc_data_readiness_def by (rule agree_weaken, (rule agrees)+) simp

lemma agree_readiness [agrees]: "agree (enc_readiness x) (enc_readiness y) (x = y)"
  unfolding enc_readiness_def by (rule agree_weaken, (rule agrees)+) simp

lemma agree_summary [agrees]: "agree (enc_summary x) (enc_summary y) (x = y)"
  unfolding enc_summary_def by (rule agree_weaken, (rule agrees)+) simp

lemma agree_resources [agrees]: "agree (enc_resources x) (enc_resources y) (x = y)"
  unfolding enc_resources_def by (rule agree_weaken, (rule agrees)+) simp

lemma agree_task: "agree (enc_task x) (enc_task y) (x = y)"
  unfolding enc_task_def by (rule agree_weaken, (rule agrees)+) simp

interpretation task_code: exact_code enc_task
  by unfold_locales (rule agree_task)

lemma agree_region_kind [agrees]: "agree (enc_region_kind x) (enc_region_kind y) (x = y)"
  by (cases x; cases y) (simp_all add: enc_region_kind_def agree_tag_same agree_string)

lemma agree_region: "agree (enc_region x) (enc_region y) (x = y)"
  unfolding enc_region_def by (rule agree_weaken, (rule agrees)+) simp

interpretation region_code: exact_code enc_region
  by unfold_locales (rule agree_region)

lemma agree_loop_state: "agree (enc_loop_state x) (enc_loop_state y) (x = y)"
  unfolding enc_loop_state_def by (rule agree_weaken, (rule agrees)+) simp

interpretation loop_state_code: exact_code enc_loop_state
  by unfold_locales (rule agree_loop_state)

lemmas task_code.exact_list [agrees] region_code.exact_list [agrees] loop_state_code.exact_list [agrees]

lemma agree_loop: "agree (enc_loop x) (enc_loop y) (x = y)"
  unfolding enc_loop_def by (rule agree_weaken, (rule agrees)+) simp

interpretation loop_code: exact_code enc_loop
  by unfold_locales (rule agree_loop)

lemma agree_blocker: "agree (enc_blocker x) (enc_blocker y) (x = y)"
  by (cases x; cases y) (simp_all add: enc_blocker_def agree_tag_same agree_two_strings)

interpretation blocker_code: exact_code enc_blocker
  by unfold_locales (rule agree_blocker)

lemmas loop_code.exact_list [agrees] blocker_code.exact_list [agrees]

lemma agree_resolution [agrees]: "agree (enc_resolution x) (enc_resolution y) (x = y)"
  unfolding enc_resolution_def by (rule agree_weaken, (rule agrees)+) simp

lemma agree_plan: "agree (enc_plan x) (enc_plan y) (canonical_plan x = canonical_plan y)"
  unfolding enc_plan_def by (rule agree_weaken, (rule agrees)+) (simp add: canonical_plan_def)

interpretation plan_code: prefix_code enc_plan canonical_plan
  by unfold_locales (rule agree_plan)

section \<open>Properties\<close>

lemma sort_key_mapped [simp]:
  "sort_key fst (map (\<lambda>e. (fst e, f (snd e))) (sort_key fst es)) = map (\<lambda>e. (fst e, f (snd e))) (sort_key fst es)"
  by (rule sort_key_id_if_sorted) (simp add: comp_def)

lemma enc_items_map: "enc_items enc (map f xs) = enc_items (\<lambda>x. enc (f x)) xs"
  by (induction xs) auto

lemma enc_list_map: "enc_list enc (map f xs) = enc_list (\<lambda>x. enc (f x)) xs"
  by (simp add: enc_list_def enc_items_map)

lemma enc_canonical_number: "enc_number (canonical_number n) = enc_number n"
  by (cases n) (simp_all add: enc_number_def canonical_number_def canonical_float_def)

lemma enc_canonical_json [simp]: "enc_json (canonical_json x) = enc_json x"
proof (induction x rule: canonical_json.induct)
  case (6 es)
  then have "enc_list (\<lambda>e. cat (enc_string (fst e)) (enc_json (canonical_json (snd e)))) (sort_key fst es) =
      enc_list (\<lambda>e. cat (enc_string (fst e)) (enc_json (snd e))) (sort_key fst es)"
    by (intro enc_list_cong) simp_all
  then show ?case by (simp add: enc_list_map)
qed (auto simp: enc_list_map enc_canonical_number cong: enc_list_cong)

lemma enc_canonical_entries [simp]: "enc_json_map (canonical_entries es) = enc_json_map es"
  by (simp add: enc_json_map_def canonical_entries_def enc_list_map)

lemma enc_canonical_expression [simp]: "enc_expression (canonical_expression x) = enc_expression x"
  by (induction x) (auto simp: enc_list_map cong: enc_list_cong)

lemma enc_canonical_plan: "enc_plan (canonical_plan p) = enc_plan p"
  by (simp add: enc_plan_def canonical_plan_def enc_list_map canonical_contract_def enc_contract_def cong: enc_list_cong)

lemma canonical_bytes_schema: "canonical_plan_bytes p = Ok b \<Longrightarrow> pl_schema p = PLAN_SCHEMA_V0"
  by (simp add: canonical_plan_bytes_def split: if_splits)

lemma canonical_bytes_iff:
  assumes "canonical_plan_bytes p = Ok b"
  shows "canonical_plan_bytes q = Ok b \<longleftrightarrow> canonical_plan q = canonical_plan p"
proof
  assume "canonical_plan_bytes q = Ok b"
  with assms obtain c where "enc_plan p = Some c" "enc_plan q = Some c"
    by (auto simp: canonical_plan_bytes_def split: if_splits option.splits)
  then show "canonical_plan q = canonical_plan p"
    by (intro plan_code.encoding_identifies)
next
  assume same: "canonical_plan q = canonical_plan p"
  then have "pl_schema (canonical_plan q) = pl_schema (canonical_plan p)" by simp
  moreover from same have "enc_plan q = enc_plan p" by (metis enc_canonical_plan)
  ultimately have "canonical_plan_bytes q = canonical_plan_bytes p"
    by (simp add: canonical_plan_bytes_def canonical_plan_def)
  with assms show "canonical_plan_bytes q = Ok b" by simp
qed

text \<open>
  C17. The canonical bytes are a faithful name for a plan: another plan has the same bytes exactly
  when it is the same plan, up to the order of the keys of JSON objects in predicate arguments and
  the sign of a floating-point zero there.
\<close>

theorem canonical_bytes_identify_plan:
  assumes "canonical_plan_bytes p = Ok b"
  shows "canonical_plan_bytes q = Ok b \<longleftrightarrow> canonical_plan q = canonical_plan p"
  using assms by (rule canonical_bytes_iff)

definition empty_plan :: plan where
  "empty_plan = \<lparr>pl_schema = PLAN_SCHEMA_V0, pl_name = ''p'', pl_flow = \<lparr>fy_schema = ''f'', fy_semantic_sha256 = ''h''\<rparr>,
     pl_interface = \<lparr>pi_inputs = [], pi_outputs = []\<rparr>, pl_contracts = [], pl_tasks = [], pl_regions = [], pl_loops = [],
     pl_capabilities = empty_summary, pl_resolution = \<lparr>ru_fully_resolved = True, ru_blockers = []\<rparr>\<rparr>"

lemma empty_plan_encodes: "\<exists>b. canonical_plan_bytes empty_plan = Ok b"
  by (simp add: empty_plan_def canonical_plan_bytes_def enc_plan_def enc_flow_identity_def enc_interface_def
      enc_resolution_def enc_summary_def empty_summary_def enc_list_def enc_string_def enc_length_def cat_def
      PLAN_SCHEMA_V0_def enc_bool_def enc_u8_def)

theorem canonical_bytes_identify_plan_witness:
  "canonical_plan_bytes empty_plan \<noteq> canonical_plan_bytes (empty_plan\<lparr>pl_name := ''q''\<rparr>)"
proof -
  obtain b where b: "canonical_plan_bytes empty_plan = Ok b" using empty_plan_encodes by blast
  have "canonical_plan (empty_plan\<lparr>pl_name := ''q''\<rparr>) \<noteq> canonical_plan empty_plan"
    by (simp add: canonical_plan_def empty_plan_def)
  with canonical_bytes_identify_plan [OF b, of "empty_plan\<lparr>pl_name := ''q''\<rparr>"] b show ?thesis by auto
qed

text \<open>Two plans with different canonical bytes and one digest.\<close>

definition plans_collide :: "(string \<Rightarrow> string) \<Rightarrow> plan \<Rightarrow> plan \<Rightarrow> bool" where
  "plans_collide sha256 p q \<longleftrightarrow>
     (\<exists>b c. canonical_plan_bytes p = Ok b \<and> canonical_plan_bytes q = Ok c \<and> b \<noteq> c \<and>
        sha256 (PLAN_HASH_DOMAIN @ b) = sha256 (PLAN_HASH_DOMAIN @ c))"

text \<open>
  C35. A plan artifact certifies its plan. Take the artifact made for a plan and put any plan in it:
  it verifies when that plan is the original up to the order of the keys of JSON objects in predicate
  arguments and the sign of a floating-point zero there, and when it verifies, the plan is the
  original up to these differences, unless the canonical bytes of these two plans differ and have one
  digest. Hexadecimal coding is injective.
\<close>

theorem artifact_pins_plan:
  assumes "artifact sha256 hex p = Ok a" and "inj hex"
  shows "(canonical_plan q = canonical_plan p \<longrightarrow> verify_hash sha256 hex (a\<lparr>pa_plan := q\<rparr>) = Ok True) \<and>
    (verify_hash sha256 hex (a\<lparr>pa_plan := q\<rparr>) = Ok True \<longrightarrow>
       canonical_plan q = canonical_plan p \<or> plans_collide sha256 p q)"
proof -
  from assms(1) obtain b where b: "canonical_plan_bytes p = Ok b"
    and a: "a = \<lparr>pa_plan_hash = hex (sha256 (PLAN_HASH_DOMAIN @ b)), pa_plan = p\<rparr>"
    by (auto simp: artifact_def plan_hash_def)
  have "verify_hash sha256 hex (a\<lparr>pa_plan := q\<rparr>) = Ok True \<longleftrightarrow>
      (\<exists>c. canonical_plan_bytes q = Ok c \<and> sha256 (PLAN_HASH_DOMAIN @ c) = sha256 (PLAN_HASH_DOMAIN @ b))"
    using a assms(2) by (auto simp: verify_hash_def plan_hash_def inj_eq)
  moreover have "canonical_plan_bytes q = Ok b \<longleftrightarrow> canonical_plan q = canonical_plan p"
    using b by (rule canonical_bytes_iff)
  ultimately show ?thesis using b unfolding plans_collide_def by metis
qed

theorem artifact_pins_plan_witness:
  "\<exists>a. artifact (\<lambda>b. b) (\<lambda>b. b) empty_plan = Ok a \<and>
       verify_hash (\<lambda>b. b) (\<lambda>b. b) (a\<lparr>pa_plan := empty_plan\<rparr>) = Ok True \<and>
       verify_hash (\<lambda>b. b) (\<lambda>b. b) (a\<lparr>pa_plan := empty_plan\<lparr>pl_name := ''q''\<rparr>\<rparr>) \<noteq> Ok True"
proof -
  obtain b where "canonical_plan_bytes empty_plan = Ok b" using empty_plan_encodes by blast
  then obtain a where a: "artifact (\<lambda>b. b) (\<lambda>b. b) empty_plan = Ok a"
    by (simp add: artifact_def plan_hash_def)
  have "canonical_plan (empty_plan\<lparr>pl_name := ''q''\<rparr>) \<noteq> canonical_plan empty_plan"
    "\<not> plans_collide (\<lambda>b. b) empty_plan (empty_plan\<lparr>pl_name := ''q''\<rparr>)"
    by (simp_all add: canonical_plan_def empty_plan_def plans_collide_def)
  with a artifact_pins_plan [OF a, of empty_plan] artifact_pins_plan [OF a, of "empty_plan\<lparr>pl_name := ''q''\<rparr>"]
  show ?thesis by auto
qed

end
