(* ===== verification/Plan_Lower.thy ===== *)
theory Plan_Lower
  imports Plan_Encode "HOL-Library.Monad_Syntax"
begin

text \<open>
  Lowering a validated flow to a plan (\<^verbatim>\<open>crates/xshell-plan/src/lower.rs\<close>) and the write
  conflict check (\<^verbatim>\<open>conflict.rs\<close>). Code that can panic (an index, an \<open>expect\<close>, an
  \<open>unreachable!\<close>) or loop returns an option, \<open>None\<close> standing for not returning; diagnostics are lists,
  as in the validator.
\<close>

section \<open>Workspace paths\<close>

fun workspace_components :: "string \<Rightarrow> string list \<Rightarrow> (string, string list) result" where
  "workspace_components path [] = Ok []"
| "workspace_components path (c # cs) =
     (if c = [] then Err (''workspace path '' @ debug_str path @ '' contains an empty component'')
      else if c = ''.'' then workspace_components path cs
      else if c = ''..'' then Err (''workspace path '' @ debug_str path @ '' escapes its workspace'')
      else and_then (workspace_components path cs) (\<lambda>rest. Ok (c # rest)))"

definition normalize_workspace_path :: "string \<Rightarrow> bool \<Rightarrow> (string, string) result" where
  "normalize_workspace_path path allow_dot =
     (if starts_with path ''/'' then Err (''workspace path '' @ debug_str path @ '' must be relative'')
      else if CHR 0x5C \<in> set path
      then Err (''workspace path '' @ debug_str path @ '' must use '' @ [CHR 0x27, CHR 0x2F, CHR 0x27] @ '' separators'')
      else and_then (workspace_components path (split_on (\<lambda>c. c = CHR ''/'') path)) (\<lambda>cs.
             if cs = [] then
               if allow_dot then Ok ''.''
               else Err (''workspace path '' @ debug_str path @ '' does not select a path'')
             else Ok (join ''/'' cs)))"

text \<open>\<open>expect("checked path")\<close>.\<close>

definition expect_path :: "string \<Rightarrow> bool \<Rightarrow> string option" where
  "expect_path path allow_dot =
     (case normalize_workspace_path path allow_dot of Inl _ \<Rightarrow> None | Inr p \<Rightarrow> Some p)"

section \<open>Regions\<close>

text \<open>The inner loop of \<open>region_paths\<close>: a region and its ancestors, innermost first.\<close>

partial_function (option) region_chain :: "(string \<times> region) list \<Rightarrow> string option \<Rightarrow> string list option" where
  "region_chain regions current =
     (case current of
        None \<Rightarrow> Some []
      | Some rid \<Rightarrow>
          (case map_of regions rid of
             None \<Rightarrow> None
           | Some r \<Rightarrow> Option.bind (region_chain regions (rg_parent r)) (\<lambda>rest. Some (rid # rest))))"

partial_function (option) ancestor_walk :: "(string \<times> region) list \<Rightarrow> string \<Rightarrow> string option \<Rightarrow> bool option" where
  "ancestor_walk regions candidate current =
     (case current of
        None \<Rightarrow> Some False
      | Some rid \<Rightarrow>
          if rid = candidate then Some True
          else ancestor_walk regions candidate (Option.bind (map_of regions rid) rg_parent))"

definition is_ancestor :: "(string \<times> region) list \<Rightarrow> string \<Rightarrow> string \<Rightarrow> bool option" where
  "is_ancestor regions candidate rid = ancestor_walk regions candidate (Option.bind (map_of regions rid) rg_parent)"

partial_function (option) depth_walk :: "(string \<times> region) list \<Rightarrow> string option \<Rightarrow> nat option" where
  "depth_walk regions current =
     (case current of
        None \<Rightarrow> Some 0
      | Some rid \<Rightarrow>
          (case map_of regions rid of
             None \<Rightarrow> None
           | Some r \<Rightarrow> Option.bind (depth_walk regions (rg_parent r)) (\<lambda>d. Some (Suc d))))"

definition region_depth :: "(string \<times> region) list \<Rightarrow> string \<Rightarrow> nat option" where
  "region_depth regions rid =
     (case map_of regions rid of None \<Rightarrow> None | Some r \<Rightarrow> depth_walk regions (rg_parent r))"

declare region_chain.simps [code] ancestor_walk.simps [code] depth_walk.simps [code]

definition related :: "(string \<times> region) list \<Rightarrow> region \<Rightarrow> region \<Rightarrow> bool option" where
  "related regions left right = do {
     a \<leftarrow> is_ancestor regions (rg_id left) (rg_id right);
     if a then Some True else is_ancestor regions (rg_id right) (rg_id left) }"

fun check_related :: "(string \<times> region) list \<Rightarrow> string \<Rightarrow> region list \<Rightarrow> diagnostic list option" where
  "check_related regions nid [] = Some []"
| "check_related regions nid (left # rest) = do {
     here \<leftarrow> those (map (\<lambda>right. map_option (\<lambda>ok. check ok ''P0101'' (''nodes.'' @ nid @ ''.regions'')
               (''node belongs to unrelated regions '' @ debug_str (rg_id left) @ '' and '' @ debug_str (rg_id right) @
                ''; regions must form a lexical parent chain'')) (related regions left right)) rest);
     later \<leftarrow> check_related regions nid rest;
     Some (concat here @ later) }"

definition loop_region :: "(string \<times> region) list \<Rightarrow> string \<Rightarrow> bool option" where
  "loop_region regions rid = map_option is_loop (map_of regions rid)"

definition node_regions :: "flow \<Rightarrow> node \<Rightarrow> (diagnostic list \<times> string list) option" where
  "node_regions fl n = do {
     let regions = validator_regions fl;
     let direct = filter (\<lambda>r. nd_id n \<in> set (rg_nodes r)) (fl_regions fl);
     ds \<leftarrow> check_related regions (nd_id n) direct;
     chains \<leftarrow> those (map (\<lambda>r. region_chain regions (Some (rg_id r))) direct);
     let members = sort_dedup (concat chains);
     depths \<leftarrow> those (map (region_depth regions) members);
     let path = map snd (sort (zip depths members));
     loops \<leftarrow> those (map (loop_region regions) path);
     Some (ds @ check (length (filter (\<lambda>b. b) loops) \<le> 1) ''P0102'' (''nodes.'' @ nd_id n @ ''.regions'')
             ''Plan V0 does not support nested loop regions'', path) }"

type_synonym region_map = "(string \<times> string list) list"

definition region_paths :: "flow \<Rightarrow> (diagnostic list \<times> region_map) option" where
  "region_paths fl = do {
     found \<leftarrow> those (map (node_regions fl) (fl_nodes fl));
     Some (concat (map fst found), btm_of (zip (map nd_id (fl_nodes fl)) (map snd found))) }"

section \<open>Checks\<close>

definition check_paths :: "string \<Rightarrow> string \<Rightarrow> string list \<Rightarrow> diagnostic list" where
  "check_paths code at paths =
     each (\<lambda>i _ p. case normalize_workspace_path p False of
                      Inl message \<Rightarrow> error code (indexed at i) message
                    | Inr _ \<Rightarrow> []) paths"

definition check_bound :: "string \<Rightarrow> string \<Rightarrow> bool \<Rightarrow> diagnostic list" where
  "check_bound nid field positive =
     check positive ''P0204'' (''nodes.'' @ nid @ ''.resources.'' @ field) ''resource bounds must be greater than zero''"

definition check_node_paths :: "node \<Rightarrow> diagnostic list" where
  "check_node_paths n =
     check_paths ''P0201'' (''nodes.'' @ nd_id n @ ''.capabilities.read'') (cp_read (nd_capabilities n)) @
     check_paths ''P0201'' (''nodes.'' @ nd_id n @ ''.capabilities.write'') (cp_write (nd_capabilities n)) @
     (case nd_kind n of
        PromoteNode paths \<Rightarrow> check_paths ''P0202'' (''nodes.'' @ nd_id n @ ''.paths'') paths
      | _ \<Rightarrow> []) @
     check_bound (nd_id n) ''timeout_ms'' (rs_timeout_ms (nd_resources n) \<noteq> Some 0) @
     check_bound (nd_id n) ''memory_bytes'' (rs_memory_bytes (nd_resources n) \<noteq> Some 0) @
     check_bound (nd_id n) ''output_bytes'' (rs_output_bytes (nd_resources n) \<noteq> Some 0) @
     check_bound (nd_id n) ''attempts'' (rs_attempts (nd_resources n) \<noteq> Some 0)"

definition check_workspace :: "region \<Rightarrow> diagnostic list" where
  "check_workspace r =
     (case rg_kind r of
        TransactionRegion workspace \<Rightarrow>
          (case normalize_workspace_path workspace True of
             Inl message \<Rightarrow> error ''P0203'' (''regions.'' @ rg_id r @ ''.workspace'') message
           | Inr _ \<Rightarrow> [])
      | _ \<Rightarrow> [])"

definition check_capability_paths :: "flow \<Rightarrow> diagnostic list" where
  "check_capability_paths fl =
     concat (map check_node_paths (fl_nodes fl)) @ concat (map check_workspace (fl_regions fl))"

text \<open>The last region of a node's path that satisfies a test; an unknown node or region is a panic.\<close>

fun find_region :: "(region \<Rightarrow> bool) \<Rightarrow> (string \<times> region) list \<Rightarrow> string list \<Rightarrow> string option option" where
  "find_region P regions [] = Some None"
| "find_region P regions (rid # rest) =
     (case map_of regions rid of
        None \<Rightarrow> None
      | Some r \<Rightarrow> if P r then Some (Some rid) else find_region P regions rest)"

definition loop_for :: "flow \<Rightarrow> region_map \<Rightarrow> string \<Rightarrow> string option option" where
  "loop_for fl paths nid = do {
     path \<leftarrow> map_of paths nid;
     find_region is_loop (validator_regions fl) (rev path) }"

definition check_loop_edge :: "flow \<Rightarrow> region_map \<Rightarrow> edge \<Rightarrow> diagnostic list option" where
  "check_loop_edge fl paths e = do {
     from_loop \<leftarrow> loop_for fl paths (ep_node (ed_from e));
     to_loop \<leftarrow> loop_for fl paths (ep_node (ed_to e));
     Some (check (is_feedback e \<or> from_loop = None \<or> to_loop = None \<or> from_loop = to_loop)
             ''P0301'' (''edges.'' @ ed_id e) ''Plan V0 cannot bind values directly between different loop regions'') }"

definition feedback_of :: "region \<Rightarrow> edge \<Rightarrow> bool" where
  "feedback_of r e \<longleftrightarrow> (case ed_kind e of FeedbackEdge l _ \<Rightarrow> l = rg_id r | _ \<Rightarrow> False)"

definition feedback_state :: "edge \<Rightarrow> string" where
  "feedback_state e = (case ed_kind e of FeedbackEdge _ s \<Rightarrow> s | _ \<Rightarrow> [])"

definition initial_edges :: "flow \<Rightarrow> region \<Rightarrow> edge \<Rightarrow> edge list" where
  "initial_edges fl r feedback =
     filter (\<lambda>e. ed_kind e = DataEdge \<and> ed_to e = ed_to feedback \<and> ep_node (ed_from e) \<notin> set (rg_nodes r)) (fl_edges fl)"

definition check_loop_states :: "flow \<Rightarrow> region \<Rightarrow> diagnostic list" where
  "check_loop_states fl r =
     (if is_loop r
      then each (\<lambda>_ before e.
             check (feedback_state e \<notin> feedback_state ` set before) ''P0302'' (''edges.'' @ ed_id e @ ''.state'')
               (''duplicate feedback state '' @ debug_str (feedback_state e) @ '' in loop '' @ debug_str (rg_id r)) @
             check (length (initial_edges fl r e) = 1) ''P0303'' (''edges.'' @ ed_id e)
               (''loop feedback state '' @ debug_str (feedback_state e) @
                '' requires exactly one initial producer outside the loop; found '' @ show_nat (length (initial_edges fl r e))))
             (filter (feedback_of r) (fl_edges fl))
      else [])"

definition check_loop_boundaries :: "flow \<Rightarrow> region_map \<Rightarrow> diagnostic list option" where
  "check_loop_boundaries fl paths = do {
     ds \<leftarrow> those (map (check_loop_edge fl paths) (fl_edges fl));
     Some (concat ds @ concat (map (check_loop_states fl) (fl_regions fl))) }"

section \<open>Order\<close>

definition included :: "string list option \<Rightarrow> string \<Rightarrow> bool" where
  "included members n \<longleftrightarrow> (case members of None \<Rightarrow> True | Some ms \<Rightarrow> n \<in> set ms)"

definition order_nodes :: "flow \<Rightarrow> string list option \<Rightarrow> string list" where
  "order_nodes fl members = sort_dedup (filter (included members) (map nd_id (fl_nodes fl)))"

definition order_edges :: "flow \<Rightarrow> string list option \<Rightarrow> (string \<times> string) list" where
  "order_edges fl members =
     map (\<lambda>e. (ep_node (ed_from e), ep_node (ed_to e)))
       (filter (\<lambda>e. \<not> is_feedback e \<and> included members (ep_node (ed_from e)) \<and> included members (ep_node (ed_to e)))
         (fl_edges fl))"

definition topological_order :: "flow \<Rightarrow> string list option \<Rightarrow> string list option" where
  "topological_order fl members =
     visit_order Ordered (\<lambda>n. sort (successors (order_edges fl members) n)) (order_nodes fl members) (order_edges fl members)"

section \<open>Tasks\<close>

definition port_reference_of :: "endpoint \<Rightarrow> port_reference option" where
  "port_reference_of ep = map_option (\<lambda>p. \<lparr>pf_task = ep_node ep, pf_port = p\<rparr>) (ep_port ep)"

definition normalized_capabilities :: "capabilities \<Rightarrow> capability_summary option" where
  "normalized_capabilities c = do {
     rs \<leftarrow> those (map (\<lambda>p. expect_path p False) (cp_read c));
     ws \<leftarrow> those (map (\<lambda>p. expect_path p False) (cp_write c));
     Some (normalize \<lparr>cs_read = rs, cs_write = ws, cs_execute = cp_execute c, cs_network = cp_network c\<rparr>) }"

definition select_value :: "edge_kind \<Rightarrow> string option \<Rightarrow> string option \<Rightarrow> value_selection option" where
  "select_value kind from_loop to_loop =
     (case kind of
        FeedbackEdge l state \<Rightarrow> Some (PreviousIteration l state)
      | DataEdge \<Rightarrow>
          (case (from_loop, to_loop) of
             (None, None) \<Rightarrow> Some Direct
           | (None, Some l) \<Rightarrow> Some (LoopInitial l)
           | (Some l, Some r) \<Rightarrow> if l = r then Some (CurrentIteration l) else None
           | (Some l, None) \<Rightarrow> Some (LoopFinal l))
      | _ \<Rightarrow> None)"

definition lower_value_binding :: "flow \<Rightarrow> region_map \<Rightarrow> edge \<Rightarrow> value_binding option" where
  "lower_value_binding fl paths e = do {
     from_loop \<leftarrow> loop_for fl paths (ep_node (ed_from e));
     to_loop \<leftarrow> loop_for fl paths (ep_node (ed_to e));
     selection \<leftarrow> select_value (ed_kind e) from_loop to_loop;
     source \<leftarrow> port_reference_of (ed_from e);
     Some \<lparr>vb_from = source, vb_selection = selection\<rparr> }"

definition binding_key :: "value_binding \<Rightarrow> value_selection \<times> string \<times> string" where
  "binding_key b = (vb_selection b, pf_task (vb_from b), pf_port (vb_from b))"

definition value_edge_into :: "string \<Rightarrow> string \<Rightarrow> edge \<Rightarrow> bool" where
  "value_edge_into nid p e \<longleftrightarrow>
     ep_node (ed_to e) = nid \<and> ep_port (ed_to e) = Some p \<and> (ed_kind e = DataEdge \<or> is_feedback e)"

definition lower_input :: "flow \<Rightarrow> region_map \<Rightarrow> node \<Rightarrow> port \<Rightarrow> input_binding option" where
  "lower_input fl paths n p = do {
     sources \<leftarrow> those (map (lower_value_binding fl paths) (filter (value_edge_into (nd_id n) (pt_name p)) (fl_edges fl)));
     Some \<lparr>ib_port = plan_port_of p, ib_sources = sort_key binding_key sources\<rparr> }"

definition sources_of :: "flow \<Rightarrow> edge_kind \<Rightarrow> node \<Rightarrow> string list" where
  "sources_of fl kind n =
     sort_dedup (map (\<lambda>e. ep_node (ed_from e))
       (filter (\<lambda>e. ep_node (ed_to e) = nd_id n \<and> ed_kind e = kind) (fl_edges fl)))"

definition routes_into :: "flow \<Rightarrow> node \<Rightarrow> route_condition list" where
  "routes_into fl n =
     sort_dedup (List.map_filter (\<lambda>e.
       if ep_node (ed_to e) \<noteq> nd_id n then None
       else case ed_kind e of
              RouteEdge o' \<Rightarrow> Some (RouteCondition (ep_node (ed_from e)) (plan_outcome o'))
            | _ \<Rightarrow> None) (fl_edges fl))"

definition lower_operation :: "node_kind \<Rightarrow> task_operation option" where
  "lower_operation kind =
     (case kind of
        InputNode \<Rightarrow> Some InputOp
      | OutputNode \<Rightarrow> Some OutputOp
      | TaskNode program \<Rightarrow> Some (ProgramOp (pr_source program) (pr_entrypoint program) None)
      | GateNode c \<Rightarrow> Some (GateOp c)
      | JoinNode s \<Rightarrow> Some (JoinOp (plan_join s))
      | PromoteNode paths \<Rightarrow>
          map_option (\<lambda>ps. PromoteOp (sort_dedup ps)) (those (map (\<lambda>p. expect_path p False) paths))
      | DiscardNode \<Rightarrow> Some DiscardOp)"

definition readiness_mode_of :: "node_kind \<Rightarrow> readiness_mode" where
  "readiness_mode_of kind =
     (case kind of JoinNode JoinAny \<Rightarrow> ModeAny | JoinNode JoinFirstValid \<Rightarrow> ModeAny | _ \<Rightarrow> ModeAll)"

definition is_transaction :: "region \<Rightarrow> bool" where
  "is_transaction r \<longleftrightarrow> (case rg_kind r of TransactionRegion _ \<Rightarrow> True | _ \<Rightarrow> False)"

definition lower_task :: "flow \<Rightarrow> region_map \<Rightarrow> node \<Rightarrow> task_template option" where
  "lower_task fl paths n = do {
     loop_context \<leftarrow> loop_for fl paths (nd_id n);
     path \<leftarrow> map_of paths (nd_id n);
     transaction \<leftarrow> find_region is_transaction (validator_regions fl) (rev path);
     inputs \<leftarrow> those (map (lower_input fl paths n) (nd_inputs n));
     operation \<leftarrow> lower_operation (nd_kind n);
     granted \<leftarrow> normalized_capabilities (nd_capabilities n);
     Some \<lparr>tk_id = nd_id n, tk_operation = operation,
           tk_inputs = sort_key (\<lambda>b. pp_name (ib_port b)) inputs,
           tk_outputs = sort_key pp_name (map plan_port_of (nd_outputs n)),
           tk_readiness = \<lparr>rn_data = \<lparr>dr_mode = readiness_mode_of (nd_kind n), dr_tasks = sources_of fl DataEdge n\<rparr>,
                           rn_after = sources_of fl DependencyEdge n, rn_activate_on_any = routes_into fl n\<rparr>,
           tk_region_path = path, tk_transaction = transaction, tk_loop_context = loop_context,
           tk_capabilities = granted, tk_resources = plan_resources_of (nd_resources n)\<rparr> }"

section \<open>Regions and loops of the plan\<close>

definition lower_region :: "region \<Rightarrow> region_template option" where
  "lower_region r = do {
     kind \<leftarrow> (case rg_kind r of
               ScopeRegion \<Rightarrow> Some PlanScope
             | ParallelRegion \<Rightarrow> Some PlanParallel
             | TransactionRegion workspace \<Rightarrow> map_option PlanTransaction (expect_path workspace True)
             | LoopRegion _ _ _ \<Rightarrow> Some PlanLoop);
     Some \<lparr>rt_id = rg_id r, rt_parent = rg_parent r, rt_kind = kind, rt_direct_members = sort_dedup (rg_nodes r)\<rparr> }"

definition lower_regions :: "flow \<Rightarrow> region_template list option" where
  "lower_regions fl = map_option (sort_key rt_id) (those (map lower_region (fl_regions fl)))"

definition lower_state :: "flow \<Rightarrow> region \<Rightarrow> edge \<Rightarrow> loop_state option" where
  "lower_state fl r feedback = do {
     initial \<leftarrow> (case initial_edges fl r feedback of [] \<Rightarrow> None | e # _ \<Rightarrow> Some e);
     target_node \<leftarrow> map_of (validator_nodes fl) (ep_node (ed_to feedback));
     target_port \<leftarrow> ep_port (ed_to feedback);
     p \<leftarrow> find (\<lambda>p. pt_name p = target_port) (nd_inputs target_node);
     target \<leftarrow> port_reference_of (ed_to feedback);
     first_value \<leftarrow> port_reference_of (ed_from initial);
     next_value \<leftarrow> port_reference_of (ed_from feedback);
     Some \<lparr>ls_name = feedback_state feedback, ls_value_type = plan_type (pt_value_type p), ls_target = target,
           ls_initial = first_value, ls_feedback = next_value\<rparr> }"

definition lower_loop :: "flow \<Rightarrow> region \<Rightarrow> loop_template list option" where
  "lower_loop fl r =
     (case rg_kind r of
        LoopRegion max_iterations until on_exhausted \<Rightarrow> do {
          states \<leftarrow> those (map (lower_state fl r) (filter (feedback_of r) (fl_edges fl)));
          body \<leftarrow> topological_order fl (Some (rg_nodes r));
          Some [\<lparr>lt_id = rg_id r, lt_body_order = body, lt_max_iterations = max_iterations,
                 lt_until = RouteCondition (go_gate until) (plan_outcome (go_outcome until)),
                 lt_on_exhausted = plan_exhaustion on_exhausted, lt_states = sort_key ls_name states\<rparr>] }
      | _ \<Rightarrow> Some [])"

definition lower_loops :: "flow \<Rightarrow> loop_template list option" where
  "lower_loops fl = map_option (\<lambda>ls. sort_key lt_id (concat ls)) (those (map (lower_loop fl) (fl_regions fl)))"

fun predicate_blockers :: "string \<Rightarrow> contract_expression \<Rightarrow> resolution_blocker list" where
  "predicate_blockers c (Predicate name _) = [UncheckedPredicate c name]"
| "predicate_blockers c (AllOf cs) = concat (map (predicate_blockers c) cs)"
| "predicate_blockers c (AnyOf cs) = concat (map (predicate_blockers c) cs)"
| "predicate_blockers c (NotClause e) = predicate_blockers c e"

section \<open>Write conflicts\<close>

definition mutually_exclusive :: "route_condition list \<Rightarrow> route_condition list \<Rightarrow> bool" where
  "mutually_exclusive left right \<longleftrightarrow>
     left \<noteq> [] \<and> right \<noteq> [] \<and>
     list_all (\<lambda>l. list_all (\<lambda>r. rc_gate l = rc_gate r \<and> rc_outcome l \<noteq> rc_outcome r) right) left"

definition glob_component :: "string \<Rightarrow> bool" where
  "glob_component c \<longleftrightarrow> list_ex (\<lambda>x. x \<in> {CHR ''*'', CHR ''?'', CHR ''['', CHR '']''}) c"

definition literal_prefix :: "string \<Rightarrow> string list" where
  "literal_prefix spec = takeWhile (\<lambda>c. \<not> glob_component c) (split_on (\<lambda>c. c = CHR ''/'') spec)"

definition component_prefix :: "string list \<Rightarrow> string list \<Rightarrow> bool" where
  "component_prefix front path \<longleftrightarrow> length front \<le> length path \<and> list_all (\<lambda>(l, r). l = r) (zip front path)"

definition path_specs_overlap :: "string \<Rightarrow> string \<Rightarrow> bool" where
  "path_specs_overlap left right \<longleftrightarrow>
     (let l = literal_prefix left; r = literal_prefix right in
      l = [] \<or> r = [] \<or> component_prefix l r \<or> component_prefix r l)"

definition outgoing_edges :: "flow \<Rightarrow> (string \<times> string) list" where
  "outgoing_edges fl =
     map (\<lambda>e. (ep_node (ed_from e), ep_node (ed_to e))) (filter (\<lambda>e. \<not> is_feedback e) (fl_edges fl))"

function reaches_loop :: "(string \<times> string) list \<Rightarrow> string \<Rightarrow> string list \<Rightarrow> string list \<Rightarrow> bool" where
  "reaches_loop es target [] seen = False"
| "reaches_loop es target (n # q) seen =
     (if n \<in> set seen then reaches_loop es target q seen
      else if target \<in> set (successors es n) then True
      else reaches_loop es target (q @ successors es n) (n # seen))"
  by pat_completeness auto
termination
proof (relation "measures [\<lambda>(es, target, q, seen). card (fst ` set es - set seen), \<lambda>(es, target, q, seen). length q]")
  fix es :: "(string \<times> string) list" and target n :: string and q seen
  assume new: "n \<notin> set seen"
  show "((es, target, q @ successors es n, n # seen), es, target, n # q, seen)
      \<in> measures [\<lambda>(es, target, q, seen). card (fst ` set es - set seen), \<lambda>(es, target, q, seen). length q]"
  proof (cases "n \<in> fst ` set es")
    case True
    with new have "fst ` set es - set (n # seen) \<subset> fst ` set es - set seen" by auto
    then have "card (fst ` set es - set (n # seen)) < card (fst ` set es - set seen)"
      by (intro psubset_card_mono) auto
    then show ?thesis by simp
  next
    case False
    then have "successors es n = []" by (force simp: successors_def filter_empty_conv)
    moreover from False have "fst ` set es - set (n # seen) = fst ` set es - set seen" by auto
    ultimately show ?thesis by simp
  qed
qed auto

definition reaches :: "(string \<times> string) list \<Rightarrow> string \<Rightarrow> string \<Rightarrow> bool" where
  "reaches es start target = reaches_loop es target [start] []"

definition ordered :: "(string \<times> string) list \<Rightarrow> string \<Rightarrow> string \<Rightarrow> bool" where
  "ordered es left right \<longleftrightarrow> reaches es left right \<or> reaches es right left"

definition check_write_pair :: "(string \<times> string) list \<Rightarrow> task_template \<Rightarrow> task_template \<Rightarrow> diagnostic list" where
  "check_write_pair es left right =
     (if cs_write (tk_capabilities left) = [] \<or> cs_write (tk_capabilities right) = [] then []
      else if ordered es (tk_id left) (tk_id right) \<or>
              mutually_exclusive (rn_activate_on_any (tk_readiness left)) (rn_activate_on_any (tk_readiness right)) then []
      else concat (map (\<lambda>lp. concat (map (\<lambda>rp.
             check (\<not> path_specs_overlap lp rp) ''P0401'' (''tasks.'' @ tk_id left @ ''.capabilities.write'')
               (''unordered tasks '' @ debug_str (tk_id left) @ '' and '' @ debug_str (tk_id right) @
                '' have overlapping write capabilities '' @ debug_str lp @ '' and '' @ debug_str rp))
             (cs_write (tk_capabilities right)))) (cs_write (tk_capabilities left))))"

fun check_write_conflicts :: "(string \<times> string) list \<Rightarrow> task_template list \<Rightarrow> diagnostic list" where
  "check_write_conflicts es [] = []"
| "check_write_conflicts es (left # rest) =
     concat (map (check_write_pair es left) rest) @ check_write_conflicts es rest"

section \<open>Lowering\<close>

definition program_blockers :: "task_template list \<Rightarrow> resolution_blocker list" where
  "program_blockers tasks =
     List.map_filter (\<lambda>t. case tk_operation t of
         ProgramOp source _ _ \<Rightarrow> Some (UnresolvedProgram (tk_id t) source)
       | _ \<Rightarrow> None) tasks"

definition plan_contract_of :: "contract \<Rightarrow> plan_contract" where
  "plan_contract_of c = \<lparr>pc_id = ct_id c, pc_expression = plan_expression (ct_expression c)\<rparr>"

definition sorted_interface :: "plan_interface \<Rightarrow> plan_interface" where
  "sorted_interface i = \<lparr>pi_inputs = sort_key pp_name (pi_inputs i), pi_outputs = sort_key pp_name (pi_outputs i)\<rparr>"

definition assemble_plan ::
  "flow_lib \<Rightarrow> flow \<Rightarrow> task_template list \<Rightarrow> region_template list \<Rightarrow> loop_template list \<Rightarrow> plan option" where
  "assemble_plan lib fl tasks regions loops = do {
     let blockers = sort_dedup (program_blockers tasks @
           concat (map (\<lambda>c. predicate_blockers (ct_id c) (ct_expression c)) (fl_contracts fl)));
     h \<leftarrow> semantic_hash lib fl;
     Some \<lparr>pl_schema = PLAN_SCHEMA_V0, pl_name = fl_name fl,
           pl_flow = \<lparr>fy_schema = fl_schema fl, fy_semantic_sha256 = h\<rparr>,
           pl_interface = sorted_interface (plan_interface_of (fl_interface fl)),
           pl_contracts = sort_key pc_id (map plan_contract_of (fl_contracts fl)),
           pl_tasks = tasks, pl_regions = regions, pl_loops = loops,
           pl_capabilities = foldl (\<lambda>c t. cs_extend c (tk_capabilities t)) empty_summary tasks,
           pl_resolution = \<lparr>ru_fully_resolved = (blockers = []), ru_blockers = blockers\<rparr>\<rparr> }"

definition lower :: "flow_lib \<Rightarrow> flow \<Rightarrow> (diagnostic list, plan) result option" where
  "lower lib fl =
     (case validate fl of
        Inl ds \<Rightarrow> Some (Err (map (\<lambda>d. d\<lparr>dg_code := ''P-'' @ dg_code d\<rparr>) ds))
      | Inr _ \<Rightarrow> do {
          (ds1, paths) \<leftarrow> region_paths fl;
          let ds2 = check_capability_paths fl;
          ds3 \<leftarrow> check_loop_boundaries fl paths;
          if ds1 @ ds2 @ ds3 \<noteq> [] then Some (Err (ds1 @ ds2 @ ds3))
          else do {
            order \<leftarrow> topological_order fl None;
            nodes \<leftarrow> those (map (map_of (validator_nodes fl)) order);
            tasks \<leftarrow> those (map (lower_task fl paths) nodes);
            loops \<leftarrow> lower_loops fl;
            regions \<leftarrow> lower_regions fl;
            let ds4 = check_write_conflicts (outgoing_edges fl) tasks;
            if ds4 \<noteq> [] then Some (Err ds4)
            else map_option Ok (assemble_plan lib fl tasks regions loops) } })"

section \<open>Region walks of a well-formed flow\<close>

lemma wf_parents:
  assumes "well_formed fl"
  shows "wf ((parent_relation fl)\<inverse>)"
proof -
  have "parent_relation fl \<subseteq> (\<lambda>r. (rg_id r, the (rg_parent r))) ` set (fl_regions fl)"
    by (force simp: parent_relation_def)
  then have "finite (parent_relation fl)" by (rule finite_surj [rotated]) simp
  from finite_acyclic_wf_converse [OF this well_formedD(7) [OF assms]] show ?thesis .
qed

lemma region_known:
  assumes "well_formed fl"
  shows "map_of (validator_regions fl) k = Some r \<longleftrightarrow> r \<in> set (fl_regions fl) \<and> rg_id r = k"
  by (rule region_lookup) (rule well_formedD(2) [OF assms])

lemma parent_known:
  assumes "well_formed fl" "r \<in> set (fl_regions fl)" "rg_parent r = Some p"
  shows "\<exists>r' \<in> set (fl_regions fl). rg_id r' = p"
  using well_formedD(4) [OF assms(1,2)] assms(3) by (auto simp: region_valid_def)

text \<open>Induction from a region's parent to the region.\<close>

lemma region_induct [consumes 2, case_names region]:
  assumes wf: "well_formed fl" and r: "r \<in> set (fl_regions fl)"
    and step: "\<And>r. r \<in> set (fl_regions fl) \<Longrightarrow>
      (\<And>p. p \<in> set (fl_regions fl) \<Longrightarrow> rg_parent r = Some (rg_id p) \<Longrightarrow> P p) \<Longrightarrow> P r"
  shows "P r"
proof -
  have "\<forall>r \<in> set (fl_regions fl). rg_id r = k \<longrightarrow> P r" for k
  proof (induction k rule: wf_induct_rule [OF wf_parents [OF wf]])
    case (1 k)
    show ?case
    proof (intro ballI impI)
      fix r assume "r \<in> set (fl_regions fl)" "rg_id r = k"
      show "P r"
      proof (rule step)
        fix p assume p: "p \<in> set (fl_regions fl)" "rg_parent r = Some (rg_id p)"
        with \<open>r \<in> set (fl_regions fl)\<close> \<open>rg_id r = k\<close> have "(rg_id p, k) \<in> (parent_relation fl)\<inverse>"
          by (auto simp: parent_relation_def)
        with 1 p(1) show "P p" by blast
      qed fact
    qed
  qed
  with r show ?thesis by blast
qed

definition ancestors :: "flow \<Rightarrow> string \<Rightarrow> string set" where
  "ancestors fl rid = {a. (rid, a) \<in> (parent_relation fl)\<^sup>*}"

lemma ancestors_unfold:
  assumes "well_formed fl" "r \<in> set (fl_regions fl)"
  shows "ancestors fl (rg_id r) = insert (rg_id r) (case rg_parent r of None \<Rightarrow> {} | Some p \<Rightarrow> ancestors fl p)"
proof -
  have "(rg_id r, x) \<in> parent_relation fl \<longleftrightarrow> rg_parent r = Some x" for x
    using well_formedD(2) [OF assms(1)] assms(2) by (auto simp: parent_relation_def distinct_map inj_on_eq_iff)
  then show ?thesis
    by (auto simp: ancestors_def split: option.splits elim: converse_rtranclE intro: converse_rtrancl_into_rtrancl)
qed

lemma ancestors_known:
  assumes wf: "well_formed fl" and r: "r \<in> set (fl_regions fl)"
  shows "ancestors fl (rg_id r) \<subseteq> rg_id ` set (fl_regions fl)"
  using wf r
proof (induction r rule: region_induct)
  case (region r)
  show ?case
  proof (cases "rg_parent r")
    case (Some p)
    with parent_known [OF wf region(1)] obtain r' where "r' \<in> set (fl_regions fl)" "rg_id r' = p" by blast
    with region Some have "ancestors fl p \<subseteq> rg_id ` set (fl_regions fl)" by blast
    with region(1) Some show ?thesis by (simp add: ancestors_unfold wf)
  qed (use region in \<open>simp add: ancestors_unfold wf\<close>)
qed

lemma region_chain_total:
  assumes wf: "well_formed fl" and r: "r \<in> set (fl_regions fl)"
  shows "\<exists>c. region_chain (validator_regions fl) (Some (rg_id r)) = Some c \<and> set c = ancestors fl (rg_id r)"
  using wf r
proof (induction r rule: region_induct)
  case (region r)
  then have look: "map_of (validator_regions fl) (rg_id r) = Some r" by (simp add: region_known wf)
  show ?case
  proof (cases "rg_parent r")
    case None
    with look show ?thesis
      by (simp add: region_chain.simps [of _ "Some (rg_id r)"] region_chain.simps [of _ None] ancestors_unfold wf region(1))
  next
    case (Some p)
    with parent_known [OF wf region(1)] obtain r' where "r' \<in> set (fl_regions fl)" "rg_id r' = p" by blast
    with region Some obtain c where "region_chain (validator_regions fl) (Some p) = Some c" "set c = ancestors fl p" by blast
    with look Some show ?thesis
      by (simp add: region_chain.simps [of _ "Some (rg_id r)"] ancestors_unfold wf region(1))
  qed
qed

lemma depth_walk_total:
  assumes wf: "well_formed fl" and r: "r \<in> set (fl_regions fl)"
  shows "\<exists>d. depth_walk (validator_regions fl) (rg_parent r) = Some d"
  using wf r
proof (induction r rule: region_induct)
  case (region r)
  show ?case
  proof (cases "rg_parent r")
    case None
    then show ?thesis by (simp add: depth_walk.simps [of _ None])
  next
    case (Some p)
    with parent_known [OF wf region(1)] obtain r' where r': "r' \<in> set (fl_regions fl)" "rg_id r' = p" by blast
    with region Some obtain d where "depth_walk (validator_regions fl) (rg_parent r') = Some d" by blast
    with r' Some show ?thesis
      by (simp add: depth_walk.simps [of _ "Some p"] region_known [OF wf, THEN iffD2])
  qed
qed

lemma region_depth_total:
  assumes "well_formed fl" "r \<in> set (fl_regions fl)"
  shows "\<exists>d. region_depth (validator_regions fl) (rg_id r) = Some d"
proof -
  have "map_of (validator_regions fl) (rg_id r) = Some r" using assms by (simp add: region_known)
  with depth_walk_total [OF assms] show ?thesis by (simp add: region_depth_def)
qed

lemma ancestor_walk_total:
  assumes wf: "well_formed fl" and r: "r \<in> set (fl_regions fl)"
  shows "ancestor_walk (validator_regions fl) c (rg_parent r) =
     Some (case rg_parent r of None \<Rightarrow> False | Some p \<Rightarrow> c \<in> ancestors fl p)"
  using wf r
proof (induction r rule: region_induct)
  case (region r)
  show ?case
  proof (cases "rg_parent r")
    case None
    then show ?thesis by (simp add: ancestor_walk.simps [of _ _ None])
  next
    case (Some p)
    with parent_known [OF wf region(1)] obtain r' where r': "r' \<in> set (fl_regions fl)" "rg_id r' = p" by blast
    with region Some have IH: "ancestor_walk (validator_regions fl) c (rg_parent r') =
       Some (case rg_parent r' of None \<Rightarrow> False | Some p \<Rightarrow> c \<in> ancestors fl p)" by blast
    have "map_of (validator_regions fl) p = Some r'" using r' by (simp add: region_known wf)
    with Some IH r' ancestors_unfold [OF wf r'(1)] show ?thesis
      by (auto simp: ancestor_walk.simps [of _ _ "Some p"] split: option.splits)
  qed
qed

lemma is_ancestor_iff:
  assumes wf: "well_formed fl" and r: "r \<in> set (fl_regions fl)"
  shows "is_ancestor (validator_regions fl) c (rg_id r) = Some ((rg_id r, c) \<in> (parent_relation fl)\<^sup>+)"
proof -
  have "map_of (validator_regions fl) (rg_id r) = Some r" using r by (simp add: region_known wf)
  moreover have "(case rg_parent r of None \<Rightarrow> False | Some p \<Rightarrow> c \<in> ancestors fl p) \<longleftrightarrow> (rg_id r, c) \<in> (parent_relation fl)\<^sup>+"
  proof -
    have "(rg_id r, x) \<in> parent_relation fl \<longleftrightarrow> rg_parent r = Some x" for x
      using well_formedD(2) [OF wf] r by (auto simp: parent_relation_def distinct_map inj_on_eq_iff)
    then show ?thesis
      by (auto simp: ancestors_def split: option.splits dest: tranclD intro: rtrancl_into_trancl2)
  qed
  ultimately show ?thesis by (simp add: is_ancestor_def ancestor_walk_total [OF wf r])
qed

text \<open>The regions around a node: those that list it, and their ancestors.\<close>

definition around :: "flow \<Rightarrow> string \<Rightarrow> string set" where
  "around fl nid = (\<Union>r \<in> {r \<in> set (fl_regions fl). nid \<in> set (rg_nodes r)}. ancestors fl (rg_id r))"

lemma related_total:
  assumes "well_formed fl" "l \<in> set (fl_regions fl)" "r \<in> set (fl_regions fl)"
  shows "\<exists>b. related (validator_regions fl) l r = Some b"
  using is_ancestor_iff [OF assms(1,2)] is_ancestor_iff [OF assms(1,3)] by (auto simp: related_def)

lemma check_related_total:
  assumes wf: "well_formed fl" and "set rs \<subseteq> set (fl_regions fl)"
  shows "\<exists>ds. check_related (validator_regions fl) nid rs = Some ds"
  using assms(2)
proof (induction rs)
  case (Cons r rs)
  have "\<exists>hs. those (map (\<lambda>right. map_option (\<lambda>ok. check ok c l (m right)) (related (validator_regions fl) r right)) rs) =
      Some hs \<and> list_all2 (\<lambda>_ _. True) rs hs" for c l m
  proof (rule those_map_total)
    fix x assume "x \<in> set rs"
    with Cons.prems related_total [OF wf, of r x]
    show "\<exists>y. map_option (\<lambda>ok. check ok c l (m x)) (related (validator_regions fl) r x) = Some y \<and> True" by auto
  qed
  moreover obtain ds where "check_related (validator_regions fl) nid rs = Some ds" using Cons by auto
  ultimately show ?case unfolding check_related.simps by (metis bind.bind_lunit)
qed simp

lemma around_known:
  assumes "well_formed fl" "x \<in> around fl nid"
  shows "\<exists>r \<in> set (fl_regions fl). rg_id r = x"
proof -
  from assms(2) obtain r where "r \<in> set (fl_regions fl)" "x \<in> ancestors fl (rg_id r)" by (auto simp: around_def)
  with ancestors_known [OF assms(1)] show ?thesis by blast
qed

lemma set_sorted_path:
  assumes "length ds = length xs"
  shows "set (map snd (sort (zip ds xs))) = set xs"
proof -
  have "set (map snd (sort (zip ds xs))) = set (map snd (zip ds xs))" by simp
  with assms show ?thesis by (simp only: map_snd_zip)
qed

lemma set_concat_all2:
  assumes "list_all2 (\<lambda>x c. set c = F x) xs cs"
  shows "set (concat cs) = (\<Union>x \<in> set xs. F x)"
  using assms by (induction rule: list_all2_induct) auto

lemma node_regions_total:
  assumes wf: "well_formed fl"
  shows "\<exists>ds path. node_regions fl n = Some (ds, path) \<and> set path = around fl (nd_id n)"
proof -
  let ?rs = "filter (\<lambda>r. nd_id n \<in> set (rg_nodes r)) (fl_regions fl)" and ?m = "validator_regions fl"
  obtain ds where ds: "check_related ?m (nd_id n) ?rs = Some ds"
    using check_related_total [OF wf, of ?rs "nd_id n"] by auto
  have "\<exists>cs. those (map (\<lambda>r. region_chain ?m (Some (rg_id r))) ?rs) = Some cs \<and>
      list_all2 (\<lambda>r c. set c = ancestors fl (rg_id r)) ?rs cs"
    by (rule those_map_total) (simp add: region_chain_total [OF wf])
  then obtain chains where c: "those (map (\<lambda>r. region_chain ?m (Some (rg_id r))) ?rs) = Some chains"
    and "list_all2 (\<lambda>r c. set c = ancestors fl (rg_id r)) ?rs chains" by blast
  from set_concat_all2 [OF this(2)] have members: "set (sort_dedup (concat chains)) = around fl (nd_id n)"
    by (simp add: around_def)
  have "\<exists>ds. those (map (region_depth ?m) (sort_dedup (concat chains))) = Some ds \<and>
      list_all2 (\<lambda>_ _. True) (sort_dedup (concat chains)) ds"
  proof (rule those_map_total)
    fix x assume "x \<in> set (sort_dedup (concat chains))"
    with members around_known [OF wf] obtain r where "r \<in> set (fl_regions fl)" "rg_id r = x" by blast
    with region_depth_total [OF wf] show "\<exists>y. region_depth ?m x = Some y \<and> True" by blast
  qed
  then obtain depths where d: "those (map (region_depth ?m) (sort_dedup (concat chains))) = Some depths"
    and len: "length depths = length (sort_dedup (concat chains))" by (metis list_all2_lengthD)
  let ?path = "map snd (sort (zip depths (sort_dedup (concat chains))))"
  have path: "set ?path = around fl (nd_id n)"
    using set_sorted_path [OF len] members by simp
  have "\<exists>bs. those (map (loop_region ?m) ?path) = Some bs \<and> list_all2 (\<lambda>_ _. True) ?path bs"
  proof (rule those_map_total)
    fix x assume "x \<in> set ?path"
    with path around_known [OF wf] obtain r where "r \<in> set (fl_regions fl)" "rg_id r = x" by blast
    then show "\<exists>y. loop_region ?m x = Some y \<and> True" using region_known [OF wf] by (auto simp: loop_region_def)
  qed
  then obtain loops where "those (map (loop_region ?m) ?path) = Some loops" by blast
  with ds c d path show ?thesis by (simp add: node_regions_def Let_def)
qed

definition paths_ok :: "flow \<Rightarrow> region_map \<Rightarrow> bool" where
  "paths_ok fl paths \<longleftrightarrow>
     (\<forall>n \<in> set (fl_nodes fl). \<exists>path. map_of paths (nd_id n) = Some path \<and> set path = around fl (nd_id n))"

lemma map_of_btm_zip:
  assumes "distinct ks" "length ks = length vs" "i < length ks"
  shows "map_of (btm_of (zip ks vs)) (ks ! i) = Some (vs ! i)"
proof -
  have "map fst (rev (zip ks vs)) = rev ks" using assms(2) by (simp add: rev_map [symmetric])
  with assms(1) have "distinct (map fst (rev (zip ks vs)))" by simp
  moreover have "(ks ! i, vs ! i) \<in> set (rev (zip ks vs))" using assms by (auto simp: set_zip)
  ultimately show ?thesis by (simp only: map_of_btm_of map_of_eq_Some_iff)
qed

lemma region_paths_total:
  assumes wf: "well_formed fl"
  shows "\<exists>ds paths. region_paths fl = Some (ds, paths) \<and> paths_ok fl paths"
proof -
  have "\<exists>found. those (map (node_regions fl) (fl_nodes fl)) = Some found \<and>
      list_all2 (\<lambda>n x. set (snd x) = around fl (nd_id n)) (fl_nodes fl) found"
    by (rule those_map_total) (use node_regions_total [OF wf] in force)
  then obtain found where f: "those (map (node_regions fl) (fl_nodes fl)) = Some found"
    and all: "list_all2 (\<lambda>n x. set (snd x) = around fl (nd_id n)) (fl_nodes fl) found" by blast
  let ?ids = "map nd_id (fl_nodes fl)" and ?vs = "map snd found"
  have "paths_ok fl (btm_of (zip ?ids ?vs))"
    unfolding paths_ok_def
  proof
    fix n assume "n \<in> set (fl_nodes fl)"
    then obtain i where i: "i < length (fl_nodes fl)" "fl_nodes fl ! i = n" by (auto simp: in_set_conv_nth)
    moreover have "length found = length (fl_nodes fl)" using list_all2_lengthD [OF all] by simp
    ultimately have "map_of (btm_of (zip ?ids ?vs)) (nd_id n) = Some (snd (found ! i))"
      using map_of_btm_zip [OF well_formedD(1) [OF wf], of ?vs i] by simp
    with list_all2_nthD [OF all i(1)] i(2)
    show "\<exists>path. map_of (btm_of (zip ?ids ?vs)) (nd_id n) = Some path \<and> set path = around fl (nd_id n)" by simp
  qed
  with f show ?thesis by (simp add: region_paths_def)
qed

lemma find_region_total:
  "(\<And>x. x \<in> set path \<Longrightarrow> \<exists>r. map_of regions x = Some r) \<Longrightarrow> \<exists>found. find_region P regions path = Some found"
proof (induction path)
  case (Cons x path)
  then obtain r where "map_of regions x = Some r" by auto
  with Cons show ?case by auto
qed simp

lemma path_find_total:
  assumes wf: "well_formed fl" and "paths_ok fl paths" "n \<in> set (fl_nodes fl)"
  shows "\<exists>path found. map_of paths (nd_id n) = Some path \<and> find_region P (validator_regions fl) (rev path) = Some found"
proof -
  from assms(2,3) obtain path where path: "map_of paths (nd_id n) = Some path" "set path = around fl (nd_id n)"
    by (auto simp: paths_ok_def)
  have "\<exists>found. find_region P (validator_regions fl) (rev path) = Some found"
  proof (rule find_region_total)
    fix x assume "x \<in> set (rev path)"
    then have "x \<in> around fl (nd_id n)" using path(2) by simp
    with around_known [OF wf] obtain r where "r \<in> set (fl_regions fl)" "rg_id r = x" by blast
    then show "\<exists>r. map_of (validator_regions fl) x = Some r" by (auto simp: region_known wf)
  qed
  with path(1) show ?thesis by blast
qed

lemma loop_for_total:
  assumes "well_formed fl" "paths_ok fl paths" "n \<in> set (fl_nodes fl)"
  shows "\<exists>l. loop_for fl paths (nd_id n) = Some l"
  using path_find_total [OF assms, of is_loop] by (auto simp: loop_for_def)

lemma edge_ends:
  assumes "well_formed fl" "e \<in> set (fl_edges fl)"
  obtains a b where "a \<in> set (fl_nodes fl)" "b \<in> set (fl_nodes fl)" "nd_id a = ep_node (ed_from e)"
    "nd_id b = ep_node (ed_to e)" "edge_between fl a b e"
  using well_formedD(5) [OF assms] by (auto simp: edge_valid_def)

lemma edge_loops_total:
  assumes "well_formed fl" "paths_ok fl paths" "e \<in> set (fl_edges fl)"
  shows "\<exists>l l'. loop_for fl paths (ep_node (ed_from e)) = Some l \<and> loop_for fl paths (ep_node (ed_to e)) = Some l'"
proof -
  obtain a b where "a \<in> set (fl_nodes fl)" "b \<in> set (fl_nodes fl)" "nd_id a = ep_node (ed_from e)" "nd_id b = ep_node (ed_to e)"
    using assms(1,3) by (rule edge_ends)
  with loop_for_total [OF assms(1,2)] show ?thesis by metis
qed

lemma check_loop_boundaries_total:
  assumes "well_formed fl" "paths_ok fl paths"
  shows "\<exists>ds. check_loop_boundaries fl paths = Some ds"
proof -
  have "\<exists>ds. those (map (check_loop_edge fl paths) (fl_edges fl)) = Some ds \<and> list_all2 (\<lambda>_ _. True) (fl_edges fl) ds"
  proof (rule those_map_total)
    fix e assume "e \<in> set (fl_edges fl)"
    from edge_loops_total [OF assms this] show "\<exists>y. check_loop_edge fl paths e = Some y \<and> True"
      by (auto simp: check_loop_edge_def)
  qed
  then show ?thesis by (auto simp: check_loop_boundaries_def)
qed

section \<open>What the checks establish\<close>

lemma expect_path_iff: "(\<exists>q. expect_path p d = Some q) \<longleftrightarrow> (\<exists>q. normalize_workspace_path p d = Ok q)"
  by (simp add: expect_path_def split: sum.splits)

lemma check_paths_Nil: "check_paths code at ps = [] \<longleftrightarrow> (\<forall>p \<in> set ps. \<exists>q. expect_path p False = Some q)"
  unfolding check_paths_def
  by (rule each_Nil_all) (auto simp: expect_path_def split: sum.splits)

lemma check_bound_Nil: "check_bound nid field b = [] \<longleftrightarrow> b"
  by (simp add: check_bound_def)

definition paths_checked :: "flow \<Rightarrow> bool" where
  "paths_checked fl \<longleftrightarrow>
     (\<forall>n \<in> set (fl_nodes fl).
        (\<forall>p \<in> set (cp_read (nd_capabilities n)) \<union> set (cp_write (nd_capabilities n)). \<exists>q. expect_path p False = Some q) \<and>
        (\<forall>ps. nd_kind n = PromoteNode ps \<longrightarrow> (\<forall>p \<in> set ps. \<exists>q. expect_path p False = Some q))) \<and>
     (\<forall>r \<in> set (fl_regions fl). \<forall>w. rg_kind r = TransactionRegion w \<longrightarrow> (\<exists>q. expect_path w True = Some q))"

lemma check_node_paths_Nil:
  assumes "check_node_paths n = []"
  shows "\<forall>p \<in> set (cp_read (nd_capabilities n)) \<union> set (cp_write (nd_capabilities n)). \<exists>q. expect_path p False = Some q"
    and "nd_kind n = PromoteNode ps \<Longrightarrow> \<forall>p \<in> set ps. \<exists>q. expect_path p False = Some q"
  using assms by (simp_all add: check_node_paths_def check_paths_Nil ball_Un)

lemma check_workspace_Nil:
  "check_workspace r = [] \<Longrightarrow> rg_kind r = TransactionRegion w \<Longrightarrow> \<exists>q. expect_path w True = Some q"
  by (auto simp: check_workspace_def expect_path_def split: sum.splits)

lemma check_capability_paths_Nil: "check_capability_paths fl = [] \<Longrightarrow> paths_checked fl"
  unfolding check_capability_paths_def paths_checked_def
  by (simp, blast dest: check_node_paths_Nil check_workspace_Nil)

lemma check_loop_boundaries_Nil:
  assumes "check_loop_boundaries fl paths = Some []"
  shows "e \<in> set (fl_edges fl) \<Longrightarrow> check_loop_edge fl paths e = Some []"
    and "r \<in> set (fl_regions fl) \<Longrightarrow> check_loop_states fl r = []"
proof -
  from assms obtain ds where ds: "list_all2 (\<lambda>e d. check_loop_edge fl paths e = Some d) (fl_edges fl) ds"
    and "concat ds = []" "concat (map (check_loop_states fl) (fl_regions fl)) = []"
    by (auto simp: check_loop_boundaries_def those_map_iff bind_eq_Some_conv)
  then show "r \<in> set (fl_regions fl) \<Longrightarrow> check_loop_states fl r = []" by simp
  assume "e \<in> set (fl_edges fl)"
  with ds obtain d where "d \<in> set ds" "check_loop_edge fl paths e = Some d"
    by (auto simp: list_all2_conv_all_nth in_set_conv_nth) metis
  with \<open>concat ds = []\<close> show "check_loop_edge fl paths e = Some []" by simp
qed

lemma check_loop_states_Nil:
  assumes "check_loop_states fl r = []" "is_loop r" "e \<in> set (fl_edges fl)" "feedback_of r e"
  shows "length (initial_edges fl r e) = 1"
proof -
  from assms(3,4) obtain i where "i < length (filter (feedback_of r) (fl_edges fl))" "filter (feedback_of r) (fl_edges fl) ! i = e"
    by (metis (mono_tags, lifting) filter_set in_set_conv_nth mem_Collect_eq set_filter)
  with assms(1,2) show ?thesis by (auto simp: check_loop_states_def each_Nil)
qed

text \<open>The facts about a flow that lowering relies on once every check has passed.\<close>

definition lowerable :: "flow \<Rightarrow> region_map \<Rightarrow> bool" where
  "lowerable fl paths \<longleftrightarrow>
     well_formed fl \<and> paths_ok fl paths \<and> paths_checked fl \<and> check_loop_boundaries fl paths = Some []"

lemma value_ports:
  assumes "edge_between fl a b e" "ed_kind e = DataEdge \<or> is_feedback e"
  shows "same_type a b e"
  using assms by (cases "ed_kind e") (auto simp: edge_between_def is_feedback_def)

lemma port_reference_total:
  assumes "same_type a b e"
  shows "\<exists>p. port_reference_of (ed_from e) = Some p" "\<exists>p. port_reference_of (ed_to e) = Some p"
  using assms by (auto simp: same_type_def has_port_def port_reference_of_def)

lemma lower_value_binding_total:
  assumes "lowerable fl paths" "e \<in> set (fl_edges fl)" "ed_kind e = DataEdge \<or> is_feedback e"
  shows "\<exists>b. lower_value_binding fl paths e = Some b"
proof -
  from assms(1) have wf: "well_formed fl" and paths: "paths_ok fl paths" and nil: "check_loop_boundaries fl paths = Some []"
    by (simp_all add: lowerable_def)
  obtain l l' where loops: "loop_for fl paths (ep_node (ed_from e)) = Some l" "loop_for fl paths (ep_node (ed_to e)) = Some l'"
    using edge_loops_total [OF wf paths assms(2)] by blast
  with check_loop_boundaries_Nil(1) [OF nil assms(2)]
  have "is_feedback e \<or> l = None \<or> l' = None \<or> l = l'" by (simp add: check_loop_edge_def)
  with assms(3) obtain sel where "select_value (ed_kind e) l l' = Some sel"
    by (cases l; cases l'; cases "ed_kind e") (auto simp: select_value_def is_feedback_def)
  moreover obtain a b where "edge_between fl a b e" using wf assms(2) by (rule edge_ends)
  with assms(3) value_ports port_reference_total obtain p where "port_reference_of (ed_from e) = Some p" by blast
  ultimately show ?thesis using loops by (simp add: lower_value_binding_def)
qed

lemma those_total: "(\<And>x. x \<in> set xs \<Longrightarrow> \<exists>y. f x = Some y) \<Longrightarrow> \<exists>ys. those (map f xs) = Some ys"
  using those_map_total [of xs f "\<lambda>_ _. True"] by auto

lemma lower_input_total:
  assumes "lowerable fl paths"
  shows "\<exists>b. lower_input fl paths n p = Some b"
proof -
  have "\<exists>bs. those (map (lower_value_binding fl paths) (filter (value_edge_into (nd_id n) (pt_name p)) (fl_edges fl))) = Some bs"
    by (rule those_total) (auto simp: value_edge_into_def intro: lower_value_binding_total [OF assms])
  then show ?thesis by (auto simp: lower_input_def)
qed

lemma normalized_capabilities_total:
  assumes "\<forall>p \<in> set (cp_read c) \<union> set (cp_write c). \<exists>q. expect_path p False = Some q"
  shows "\<exists>s. normalized_capabilities c = Some s"
proof -
  have "\<exists>rs. those (map (\<lambda>p. expect_path p False) (cp_read c)) = Some rs" "\<exists>ws. those (map (\<lambda>p. expect_path p False) (cp_write c)) = Some ws"
    using assms by (auto intro!: those_total)
  then show ?thesis by (auto simp: normalized_capabilities_def)
qed

lemma lower_operation_total:
  assumes "\<forall>ps. k = PromoteNode ps \<longrightarrow> (\<forall>p \<in> set ps. \<exists>q. expect_path p False = Some q)"
  shows "\<exists>op. lower_operation k = Some op"
proof (cases k)
  case (PromoteNode ps)
  have "\<exists>qs. those (map (\<lambda>p. expect_path p False) ps) = Some qs"
    by (rule those_total) (use assms PromoteNode in blast)
  with PromoteNode show ?thesis by (auto simp: lower_operation_def)
qed (simp_all add: lower_operation_def)

lemma lower_task_total:
  assumes "lowerable fl paths" "n \<in> set (fl_nodes fl)"
  shows "\<exists>t. lower_task fl paths n = Some t \<and> tk_id t = nd_id n"
proof -
  from assms(1) have wf: "well_formed fl" and paths: "paths_ok fl paths" and chk: "paths_checked fl"
    by (simp_all add: lowerable_def)
  from loop_for_total [OF wf paths assms(2)] obtain l where "loop_for fl paths (nd_id n) = Some l" ..
  moreover from path_find_total [OF wf paths assms(2)] obtain path found where
    "map_of paths (nd_id n) = Some path" "find_region is_transaction (validator_regions fl) (rev path) = Some found" by blast
  moreover have "\<exists>ins. those (map (lower_input fl paths n) (nd_inputs n)) = Some ins"
    by (rule those_total) (rule lower_input_total [OF assms(1)])
  then obtain ins where "those (map (lower_input fl paths n) (nd_inputs n)) = Some ins" ..
  moreover obtain op where "lower_operation (nd_kind n) = Some op"
    using lower_operation_total chk assms(2) unfolding paths_checked_def by metis
  moreover obtain s where "normalized_capabilities (nd_capabilities n) = Some s"
    using normalized_capabilities_total chk assms(2) unfolding paths_checked_def by metis
  ultimately show ?thesis by (simp add: lower_task_def)
qed

lemma lower_regions_total:
  assumes "lowerable fl paths"
  shows "\<exists>rs. lower_regions fl = Some rs"
proof -
  have "\<exists>rs. those (map lower_region (fl_regions fl)) = Some rs"
  proof (rule those_total)
    fix r assume "r \<in> set (fl_regions fl)"
    with assms have "\<forall>w. rg_kind r = TransactionRegion w \<longrightarrow> (\<exists>q. expect_path w True = Some q)"
      unfolding lowerable_def paths_checked_def by blast
    then show "\<exists>t. lower_region r = Some t" by (cases "rg_kind r") (auto simp: lower_region_def)
  qed
  then show ?thesis by (auto simp: lower_regions_def)
qed

section \<open>The task order\<close>

lemma count_list_sort: "count_list (sort xs) v = count_list xs v"
proof -
  have "count_list (insort x ys) v = count_list (x # ys) v" for x ys by (induction ys) auto
  then show ?thesis by (induction xs) auto
qed

lemma set_order_nodes: "set (order_nodes fl ms) = {i \<in> nd_id ` set (fl_nodes fl). included ms i}"
  by (auto simp: order_nodes_def)

lemma order_walk:
  assumes "well_formed fl"
  shows "degree_walk (order_nodes fl ms) (order_edges fl ms) (\<lambda>n. sort (successors (order_edges fl ms) n))"
proof
  show "set (order_edges fl ms) \<subseteq> set (order_nodes fl ms) \<times> set (order_nodes fl ms)"
  proof
    fix x assume "x \<in> set (order_edges fl ms)"
    then obtain e where e: "e \<in> set (fl_edges fl)" and x: "x = (ep_node (ed_from e), ep_node (ed_to e))"
      "included ms (ep_node (ed_from e))" "included ms (ep_node (ed_to e))" by (auto simp: order_edges_def)
    obtain a b where "a \<in> set (fl_nodes fl)" "b \<in> set (fl_nodes fl)" "nd_id a = ep_node (ed_from e)" "nd_id b = ep_node (ed_to e)"
      using assms e by (rule edge_ends)
    with x show "x \<in> set (order_nodes fl ms) \<times> set (order_nodes fl ms)"
      unfolding set_order_nodes by (metis (mono_tags, lifting) imageI mem_Collect_eq mem_Sigma_iff)
  qed
qed (simp add: count_list_sort)

lemma topological_order_correct:
  assumes "well_formed fl"
  shows "\<exists>order. topological_order fl ms = Some order \<and> distinct order \<and> set order = set (order_nodes fl ms) \<and>
     topo_sorted (set (order_edges fl ms)) order"
proof -
  have "acyclic (set (order_edges fl ms))"
    by (rule acyclic_subset [OF well_formedD(8) [OF assms]]) (auto simp: order_edges_def execution_relation_def)
  moreover obtain order where "topological_order fl ms = Some order" "distinct order" "set order \<subseteq> set (order_nodes fl ms)"
    "topo_sorted (set (order_edges fl ms)) order" "set order = set (order_nodes fl ms) \<longleftrightarrow> acyclic (set (order_edges fl ms))"
    unfolding topological_order_def
    by (rule degree_walk.visit_order_correct [OF order_walk [OF assms]]) (auto simp: order_nodes_def)
  ultimately show ?thesis by blast
qed

section \<open>Loops\<close>

lemma lower_state_total:
  assumes low: "lowerable fl paths" and r: "r \<in> set (fl_regions fl)" "is_loop r"
    and e: "e \<in> set (fl_edges fl)" "feedback_of r e"
  shows "\<exists>s. lower_state fl r e = Some s"
proof -
  from low have wf: "well_formed fl" and nil: "check_loop_boundaries fl paths = Some []" by (simp_all add: lowerable_def)
  from check_loop_states_Nil [OF check_loop_boundaries_Nil(2) [OF nil r(1)] r(2) e]
  obtain i where i: "initial_edges fl r e = [i]" by (auto simp: length_Suc_conv)
  then have "i \<in> set (initial_edges fl r e)" by simp
  then have "i \<in> set (fl_edges fl)" "ed_kind i = DataEdge" by (simp_all add: initial_edges_def)
  then obtain p where first: "port_reference_of (ed_from i) = Some p"
    using edge_ends [OF wf] value_ports port_reference_total(1) by metis
  obtain a b where b: "b \<in> set (fl_nodes fl)" "nd_id b = ep_node (ed_to e)" and ab: "edge_between fl a b e"
    using wf e(1) by (rule edge_ends)
  have "is_feedback e" using e(2) by (simp add: feedback_of_def is_feedback_def split: edge_kind.splits)
  with value_ports [OF ab] have same: "same_type a b e" by blast
  then obtain q where q: "q \<in> set (nd_inputs b)" "ep_port (ed_to e) = Some (pt_name q)"
    by (auto simp: same_type_def has_port_def)
  then obtain q' where "find (\<lambda>p. pt_name p = pt_name q) (nd_inputs b) = Some q'"
    by (metis (mono_tags, lifting) find_None_iff option.exhaust)
  moreover have "map_of (validator_nodes fl) (ep_node (ed_to e)) = Some b"
    using node_lookup [OF well_formedD(1) [OF wf]] b by blast
  moreover obtain t u where "port_reference_of (ed_to e) = Some t" "port_reference_of (ed_from e) = Some u"
    using port_reference_total [OF same] by blast
  ultimately show ?thesis using i first q(2) by (simp add: lower_state_def)
qed

lemma lower_loops_total:
  assumes "lowerable fl paths"
  shows "\<exists>ls. lower_loops fl = Some ls"
proof -
  have "\<exists>ls. those (map (lower_loop fl) (fl_regions fl)) = Some ls"
  proof (rule those_total)
    fix r assume r: "r \<in> set (fl_regions fl)"
    show "\<exists>l. lower_loop fl r = Some l"
    proof (cases "rg_kind r")
      case (LoopRegion m u x)
      then have "is_loop r" by (simp add: is_loop_def)
      then have "\<exists>ss. those (map (lower_state fl r) (filter (feedback_of r) (fl_edges fl))) = Some ss"
        by (intro those_total) (auto intro: lower_state_total [OF assms r])
      moreover have "\<exists>order. topological_order fl (Some (rg_nodes r)) = Some order"
        using assms topological_order_correct by (metis lowerable_def)
      ultimately show ?thesis using LoopRegion by (auto simp: lower_loop_def)
    qed (simp_all add: lower_loop_def)
  qed
  then show ?thesis by (auto simp: lower_loops_def)
qed

section \<open>Lowering returns\<close>

definition json_total :: "flow_lib \<Rightarrow> bool" where
  "json_total lib \<longleftrightarrow> (\<forall>s. fb_json lib s \<noteq> None)"

lemma lower_tasks_total:
  assumes "lowerable fl paths"
  shows "\<exists>order nodes tasks. topological_order fl None = Some order \<and> those (map (map_of (validator_nodes fl)) order) = Some nodes \<and>
     those (map (lower_task fl paths) nodes) = Some tasks"
proof -
  from assms have wf: "well_formed fl" by (simp add: lowerable_def)
  obtain order where order: "topological_order fl None = Some order" "set order = nd_id ` set (fl_nodes fl)"
    using topological_order_correct [OF wf, of None] by (auto simp: set_order_nodes included_def)
  have "\<exists>nodes. those (map (map_of (validator_nodes fl)) order) = Some nodes \<and> list_all2 (\<lambda>i n. n \<in> set (fl_nodes fl)) order nodes"
  proof (rule those_map_total)
    fix i assume "i \<in> set order"
    then have "i \<in> nd_id ` set (fl_nodes fl)" by (simp only: order(2))
    then obtain n where "n \<in> set (fl_nodes fl)" "nd_id n = i" by auto
    then have "map_of (validator_nodes fl) i = Some n" using node_lookup [OF well_formedD(1) [OF wf]] by blast
    with \<open>n \<in> set (fl_nodes fl)\<close> show "\<exists>n. map_of (validator_nodes fl) i = Some n \<and> n \<in> set (fl_nodes fl)" by blast
  qed
  then obtain nodes where nodes: "those (map (map_of (validator_nodes fl)) order) = Some nodes"
    and "list_all2 (\<lambda>i n. n \<in> set (fl_nodes fl)) order nodes" by blast
  then have "set nodes \<subseteq> set (fl_nodes fl)" by (auto simp: list_all2_conv_all_nth in_set_conv_nth)
  then have "\<exists>tasks. those (map (lower_task fl paths) nodes) = Some tasks"
    using lower_task_total [OF assms] by (intro those_total) blast
  with order(1) nodes show ?thesis by blast
qed

lemma validate_cases: "validate fl = (if well_formed fl then Ok () else Err (run fl))"
  by (simp add: validate_def run_Nil_iff)

lemma assemble_total:
  assumes "json_total lib"
  shows "\<exists>p. assemble_plan lib fl tasks regions loops = Some p"
proof -
  from assms obtain x where "fb_json lib (semantic_form fl) = Some x" by (auto simp: json_total_def)
  then show ?thesis by (simp add: assemble_plan_def Let_def semantic_hash_def canonical_semantic_bytes_def)
qed

text \<open>
  C16. Lowering always answers: for every flow, well formed or not, it returns a plan or a list of
  diagnostics. No index, \<open>expect\<close> or \<open>unreachable!\<close> on its way can fail and none of its loops over the
  region parents can run forever.
\<close>

theorem lower_always_returns:
  assumes "json_total lib"
  shows "\<exists>r. lower lib fl = Some r"
proof (cases "well_formed fl")
  case False
  then show ?thesis by (simp add: lower_def validate_cases)
next
  case wf: True
  obtain ds1 paths where paths: "region_paths fl = Some (ds1, paths)" "paths_ok fl paths"
    using region_paths_total [OF wf] by blast
  obtain ds3 where ds3: "check_loop_boundaries fl paths = Some ds3"
    using check_loop_boundaries_total [OF wf paths(2)] ..
  show ?thesis
  proof (cases "ds1 @ check_capability_paths fl @ ds3 = []")
    case False
    with wf paths ds3 show ?thesis by (simp add: lower_def validate_cases)
  next
    case True
    then have low: "lowerable fl paths"
      using wf paths ds3 check_capability_paths_Nil by (simp add: lowerable_def)
    obtain order nodes tasks where "topological_order fl None = Some order"
      "those (map (map_of (validator_nodes fl)) order) = Some nodes" "those (map (lower_task fl paths) nodes) = Some tasks"
      using lower_tasks_total [OF low] by blast
    moreover obtain loops where "lower_loops fl = Some loops" using lower_loops_total [OF low] ..
    moreover obtain regions where "lower_regions fl = Some regions" using lower_regions_total [OF low] ..
    moreover obtain p where "assemble_plan lib fl tasks regions loops = Some p" using assemble_total [OF assms] ..
    ultimately show ?thesis using wf paths ds3 True by (simp add: lower_def validate_cases Let_def)
  qed
qed

lemma lower_OkE:
  assumes "lower lib fl = Some (Ok p)"
  obtains paths order nodes tasks loops regions where
    "lowerable fl paths" "topological_order fl None = Some order"
    "those (map (map_of (validator_nodes fl)) order) = Some nodes" "those (map (lower_task fl paths) nodes) = Some tasks"
    "lower_loops fl = Some loops" "lower_regions fl = Some regions"
    "check_write_conflicts (outgoing_edges fl) tasks = []" "assemble_plan lib fl tasks regions loops = Some p"
proof -
  from assms have wf: "well_formed fl" by (auto simp: lower_def validate_cases split: if_splits)
  obtain ds1 paths where paths: "region_paths fl = Some (ds1, paths)" "paths_ok fl paths"
    using region_paths_total [OF wf] by blast
  obtain ds3 where ds3: "check_loop_boundaries fl paths = Some ds3"
    using check_loop_boundaries_total [OF wf paths(2)] ..
  from assms wf paths ds3 have nil: "ds1 @ check_capability_paths fl @ ds3 = []"
    by (auto simp: lower_def validate_cases Let_def split: if_splits)
  then have "lowerable fl paths"
    using wf paths ds3 check_capability_paths_Nil by (simp add: lowerable_def)
  with that assms wf paths ds3 nil show thesis
    by (auto simp: lower_def validate_cases Let_def bind_eq_Some_conv split: if_splits)
qed

text \<open>The tasks of an accepted plan are the nodes of the flow, in the topological order.\<close>

lemma lower_tasks:
  assumes "lower lib fl = Some (Ok p)"
  obtains paths where "lowerable fl paths" "topological_order fl None = Some (map tk_id (pl_tasks p))"
    "\<And>t. t \<in> set (pl_tasks p) \<Longrightarrow> \<exists>n \<in> set (fl_nodes fl). lower_task fl paths n = Some t \<and> tk_id t = nd_id n"
    "check_write_conflicts (outgoing_edges fl) (pl_tasks p) = []"
proof -
  from assms obtain paths order nodes tasks loops regions where low: "lowerable fl paths"
    and order: "topological_order fl None = Some order"
    and nodes: "those (map (map_of (validator_nodes fl)) order) = Some nodes"
    and tasks: "those (map (lower_task fl paths) nodes) = Some tasks"
    and conflicts: "check_write_conflicts (outgoing_edges fl) tasks = []"
    and p: "assemble_plan lib fl tasks regions loops = Some p"
    by (rule lower_OkE)
  from low have wf: "well_formed fl" by (simp add: lowerable_def)
  have n: "list_all2 (\<lambda>i n. n \<in> set (fl_nodes fl) \<and> nd_id n = i) order nodes"
    using nodes node_lookup [OF well_formedD(1) [OF wf]] by (auto simp: those_map_iff elim: list_all2_mono)
  have t: "list_all2 (\<lambda>n t. lower_task fl paths n = Some t) nodes tasks"
    using tasks by (simp add: those_map_iff)
  from list_all2_trans [of "\<lambda>i n. n \<in> set (fl_nodes fl) \<and> nd_id n = i" "\<lambda>n t. lower_task fl paths n = Some t"
      "\<lambda>i t. tk_id t = i \<and> (\<exists>n \<in> set (fl_nodes fl). lower_task fl paths n = Some t \<and> tk_id t = nd_id n)", OF _ n t]
  have all: "list_all2 (\<lambda>i t. tk_id t = i \<and> (\<exists>n \<in> set (fl_nodes fl). lower_task fl paths n = Some t \<and> tk_id t = nd_id n)) order tasks"
    using lower_task_total [OF low] by fastforce
  then have "map tk_id tasks = order"
    by (auto simp: list_all2_conv_all_nth intro: nth_equalityI)
  moreover have "pl_tasks p = tasks"
    using p by (auto simp: assemble_plan_def Let_def bind_eq_Some_conv)
  moreover have "\<exists>n \<in> set (fl_nodes fl). lower_task fl paths n = Some t \<and> tk_id t = nd_id n" if "t \<in> set tasks" for t
    using all that by (auto simp: list_all2_conv_all_nth in_set_conv_nth)
  ultimately show thesis using that low order conflicts by blast
qed

section \<open>Dependencies\<close>

text \<open>
  The tasks that the readiness of a task names: the producers of its data, its explicit predecessors
  and the gates that may activate it. A \<open>loop_final\<close> binding names its producer only; that the loop
  of the producer has to end first is not part of the readiness.
\<close>

definition waits_for :: "task_template \<Rightarrow> string set" where
  "waits_for t =
     set (dr_tasks (rn_data (tk_readiness t))) \<union> set (rn_after (tk_readiness t)) \<union>
     rc_gate ` set (rn_activate_on_any (tk_readiness t))"

lemma lower_task_fields:
  assumes "lower_task fl paths n = Some t"
  shows "tk_id t = nd_id n" "dr_tasks (rn_data (tk_readiness t)) = sources_of fl DataEdge n"
    "rn_after (tk_readiness t) = sources_of fl DependencyEdge n" "rn_activate_on_any (tk_readiness t) = routes_into fl n"
    "tk_outputs t = sort_key pp_name (map plan_port_of (nd_outputs n))"
    "\<exists>ins. those (map (lower_input fl paths n) (nd_inputs n)) = Some ins \<and>
       tk_inputs t = sort_key (\<lambda>b. pp_name (ib_port b)) ins"
  using assms by (auto simp: lower_task_def bind_eq_Some_conv)

lemma waits_for_edges:
  assumes "lower_task fl paths n = Some t" "d \<in> waits_for t"
  shows "(d, nd_id n) \<in> set (order_edges fl None)"
proof -
  from assms(2) consider "d \<in> set (sources_of fl DataEdge n)" | "d \<in> set (sources_of fl DependencyEdge n)"
    | "d \<in> rc_gate ` set (routes_into fl n)"
    by (auto simp: waits_for_def lower_task_fields [OF assms(1)])
  then have "\<exists>e \<in> set (fl_edges fl). ep_node (ed_to e) = nd_id n \<and> ep_node (ed_from e) = d \<and> \<not> is_feedback e"
  proof cases
    case 3
    then show ?thesis
      by (force simp: routes_into_def is_feedback_def set_map_filter split: if_splits edge_kind.splits)
  qed (force simp: sources_of_def is_feedback_def)+
  then show ?thesis by (auto simp: order_edges_def included_def image_iff)
qed

lemma plan_order:
  assumes "lower lib fl = Some (Ok p)"
  shows "distinct (map tk_id (pl_tasks p))" "tk_id ` set (pl_tasks p) = nd_id ` set (fl_nodes fl)"
    "i < length (pl_tasks p) \<Longrightarrow> waits_for (pl_tasks p ! i) \<subseteq> tk_id ` set (take i (pl_tasks p))"
proof -
  from assms obtain paths where low: "lowerable fl paths"
    and order: "topological_order fl None = Some (map tk_id (pl_tasks p))"
    and task: "\<And>t. t \<in> set (pl_tasks p) \<Longrightarrow> \<exists>n \<in> set (fl_nodes fl). lower_task fl paths n = Some t \<and> tk_id t = nd_id n"
    using lower_tasks by metis
  from low have wf: "well_formed fl" by (simp add: lowerable_def)
  from topological_order_correct [OF wf, of None] order
  have "distinct (map tk_id (pl_tasks p))" "set (map tk_id (pl_tasks p)) = set (order_nodes fl None)"
    and topo: "topo_sorted (set (order_edges fl None)) (map tk_id (pl_tasks p))" by auto
  then show "distinct (map tk_id (pl_tasks p))" "tk_id ` set (pl_tasks p) = nd_id ` set (fl_nodes fl)"
    by (simp_all add: set_order_nodes included_def)
  assume i: "i < length (pl_tasks p)"
  then obtain n where "lower_task fl paths (n :: node) = Some (pl_tasks p ! i)" "tk_id (pl_tasks p ! i) = nd_id n"
    using task nth_mem by blast
  then show "waits_for (pl_tasks p ! i) \<subseteq> tk_id ` set (take i (pl_tasks p))"
    using waits_for_edges topo i by (fastforce simp: topo_sorted_def take_map)
qed

text \<open>
  C36. The tasks of a plan are listed in dependency order: each node of the flow is one task, and
  whatever the readiness of a task names (the producers of its data, its explicit predecessors, the
  gates that may activate it) comes before it.
\<close>

theorem plan_lists_dependencies_first:
  assumes "lower lib fl = Some (Ok p)" and "i < length (pl_tasks p)"
  shows "distinct (map tk_id (pl_tasks p)) \<and> tk_id ` set (pl_tasks p) = nd_id ` set (fl_nodes fl) \<and>
     waits_for (pl_tasks p ! i) \<subseteq> tk_id ` set (take i (pl_tasks p))"
  using plan_order [OF assms(1)] assms(2) by blast

section \<open>Types of bindings\<close>

lemma lower_inputE:
  assumes "lower_input fl paths n q = Some b" "v \<in> set (ib_sources b)"
  obtains e where "e \<in> set (fl_edges fl)" "value_edge_into (nd_id n) (pt_name q) e" "port_reference_of (ed_from e) = Some (vb_from v)"
proof -
  from assms obtain vs where "list_all2 (\<lambda>e v. lower_value_binding fl paths e = Some v)
      (filter (value_edge_into (nd_id n) (pt_name q)) (fl_edges fl)) vs" "v \<in> set vs"
    by (auto simp: lower_input_def bind_eq_Some_conv those_map_iff)
  then obtain e where "e \<in> set (filter (value_edge_into (nd_id n) (pt_name q)) (fl_edges fl))"
    "lower_value_binding fl paths e = Some v"
    by (blast dest: list_all2_set2)
  moreover from this have "port_reference_of (ed_from e) = Some (vb_from v)"
    by (auto simp: lower_value_binding_def bind_eq_Some_conv)
  ultimately show thesis using that by auto
qed

lemma unique_node: "well_formed fl \<Longrightarrow> n \<in> set (fl_nodes fl) \<Longrightarrow> m \<in> set (fl_nodes fl) \<Longrightarrow> nd_id n = nd_id m \<Longrightarrow> n = m"
  using well_formedD(1) by (metis distinct_map inj_onD)

lemma unique_port:
  assumes "well_formed fl" "n \<in> set (fl_nodes fl)" "q \<in> set (nd_inputs n)" "q' \<in> set (nd_inputs n)" "pt_name q = pt_name q'"
  shows "q = q'"
  using well_formedD(3) [OF assms(1,2)] assms(3-5) by (metis distinct_map inj_onD node_valid_def ports_valid_def)

lemma binding_source:
  assumes wf: "well_formed fl" and n: "n \<in> set (fl_nodes fl)" "q \<in> set (nd_inputs n)"
    and b: "lower_input fl paths n q = Some b" "v \<in> set (ib_sources b)"
  obtains a o' where "a \<in> set (fl_nodes fl)" "nd_id a = pf_task (vb_from v)" "o' \<in> set (nd_outputs a)"
    "pt_name o' = pf_port (vb_from v)" "pt_value_type o' = pt_value_type q"
proof -
  obtain e where e: "e \<in> set (fl_edges fl)" "value_edge_into (nd_id n) (pt_name q) e" "port_reference_of (ed_from e) = Some (vb_from v)"
    using b by (rule lower_inputE)
  obtain a m where am: "a \<in> set (fl_nodes fl)" "m \<in> set (fl_nodes fl)" "nd_id a = ep_node (ed_from e)" "nd_id m = ep_node (ed_to e)"
    "edge_between fl a m e" using wf e(1) by (rule edge_ends)
  from e(2) am n(1) have "m = n" by (intro unique_node [OF wf]) (simp_all add: value_edge_into_def)
  moreover have "same_type a m e" using value_ports [OF am(5)] e(2) unfolding value_edge_into_def by blast
  ultimately obtain o' q' where o': "o' \<in> set (nd_outputs a)" "ep_port (ed_from e) = Some (pt_name o')"
    and q': "q' \<in> set (nd_inputs n)" "ep_port (ed_to e) = Some (pt_name q')" "pt_value_type o' = pt_value_type q'"
    by (auto simp: same_type_def has_port_def)
  from q'(2) e(2) have "q' = q" by (intro unique_port [OF wf n(1) q'(1) n(2)]) (simp add: value_edge_into_def)
  moreover from e(3) o'(2) have "vb_from v = \<lparr>pf_task = ep_node (ed_from e), pf_port = pt_name o'\<rparr>"
    by (simp add: port_reference_of_def)
  ultimately show thesis using that am(1,3) o'(1) q'(3) by simp
qed

lemma lower_input_sources:
  assumes "lower_input fl paths n q = Some b"
  shows "ib_port b = plan_port_of q"
    "length (ib_sources b) = length (filter (value_edge_into (nd_id n) (pt_name q)) (fl_edges fl))"
  using assms by (auto simp: lower_input_def bind_eq_Some_conv those_map_iff dest: list_all2_lengthD)

lemma value_edges_counted:
  "length (filter (value_edge_into i q) (fl_edges fl)) = ordinary_producers fl i q + feedback_producers fl i q"
proof -
  have "length (filter (\<lambda>e. ep_node (ed_to e) = i \<and> ep_port (ed_to e) = Some q \<and> (ed_kind e = DataEdge \<or> is_feedback e)) es) =
      length (filter (\<lambda>e. ed_kind e = DataEdge \<and> ed_to e = \<lparr>ep_node = i, ep_port = Some q\<rparr>) es) +
      length (filter (\<lambda>e. is_feedback e \<and> ed_to e = \<lparr>ep_node = i, ep_port = Some q\<rparr>) es)" for es
    by (induction es) (auto simp: is_feedback_def endpoint.equality endpoint.ext_inject split: edge_kind.splits)
  then show ?thesis by (simp add: value_edge_into_def [abs_def] ordinary_producers_def feedback_producers_def)
qed

text \<open>
  C15. Values are well typed along every binding of a plan: a source of an input port names an output
  port of a task of the plan, that port has the type of the input, and an input port that is not
  optional has a source.
\<close>

theorem plan_bindings_are_typed:
  assumes "lower lib fl = Some (Ok p)" and "t \<in> set (pl_tasks p)" and "b \<in> set (tk_inputs t)"
  shows "(\<not> pp_optional (ib_port b) \<longrightarrow> ib_sources b \<noteq> []) \<and>
     (\<forall>v \<in> set (ib_sources b). \<exists>s \<in> set (pl_tasks p). \<exists>o' \<in> set (tk_outputs s).
        tk_id s = pf_task (vb_from v) \<and> pp_name o' = pf_port (vb_from v) \<and> pp_value_type o' = pp_value_type (ib_port b))"
proof -
  from assms(1) obtain paths where low: "lowerable fl paths"
    and task: "\<And>t. t \<in> set (pl_tasks p) \<Longrightarrow> \<exists>n \<in> set (fl_nodes fl). lower_task fl paths n = Some t \<and> tk_id t = nd_id n"
    using lower_tasks by metis
  from low have wf: "well_formed fl" by (simp add: lowerable_def)
  from task assms(2) obtain n where n: "n \<in> set (fl_nodes fl)" "lower_task fl paths n = Some t" by blast
  from lower_task_fields(6) [OF n(2)] assms(3) obtain ins where
    "list_all2 (\<lambda>q b. lower_input fl paths n q = Some b) (nd_inputs n) ins" "b \<in> set ins"
    by (auto simp: those_map_iff)
  then obtain q where q: "q \<in> set (nd_inputs n)" "lower_input fl paths n q = Some b"
    by (blast dest: list_all2_set2)
  have "ib_sources b \<noteq> []" if "\<not> pp_optional (ib_port b)"
  proof -
    from that have "\<not> pt_optional q" by (simp add: lower_input_sources(1) [OF q(2)] plan_port_of_def)
    with well_formedD(6) [OF wf n(1) q(1)] have "ordinary_producers fl (nd_id n) (pt_name q) = 1"
      by (auto simp: producers_valid_def Let_def)
    with lower_input_sources(2) [OF q(2)] have "length (ib_sources b) \<noteq> 0" by (simp add: value_edges_counted)
    then show ?thesis by simp
  qed
  moreover have "\<exists>s \<in> set (pl_tasks p). \<exists>o' \<in> set (tk_outputs s).
        tk_id s = pf_task (vb_from v) \<and> pp_name o' = pf_port (vb_from v) \<and> pp_value_type o' = pp_value_type (ib_port b)"
    if v: "v \<in> set (ib_sources b)" for v
  proof -
    obtain a o' where a: "a \<in> set (fl_nodes fl)" "nd_id a = pf_task (vb_from v)" "o' \<in> set (nd_outputs a)"
      "pt_name o' = pf_port (vb_from v)" "pt_value_type o' = pt_value_type q"
      using wf n(1) q v by (rule binding_source)
    from plan_order(2) [OF assms(1)] a(1) obtain s where s: "s \<in> set (pl_tasks p)" "tk_id s = nd_id a"
      by (metis imageE imageI)
    with task obtain m where "m \<in> set (fl_nodes fl)" "lower_task fl paths m = Some s" "nd_id m = nd_id a" by metis
    with unique_node [OF wf _ a(1)] have "lower_task fl paths a = Some s" by blast
    then have "plan_port_of o' \<in> set (tk_outputs s)" using a(3) by (simp add: lower_task_fields(5))
    with a s show ?thesis
      by (intro bexI [of _ s] bexI [of _ "plan_port_of o'"])
         (simp_all add: plan_port_of_def lower_input_sources(1) [OF q(2)])
  qed
  ultimately show ?thesis by blast
qed

section \<open>Write conflicts of an accepted plan\<close>

lemma reaches_loop_sound:
  "reaches_loop es target q seen \<Longrightarrow> \<exists>n \<in> set q. (n, target) \<in> (set es)\<^sup>+"
proof (induction es target q seen rule: reaches_loop.induct)
  case (2 es target n q seen)
  have succ: "(n, v) \<in> set es" if "v \<in> set (successors es n)" for v
    using that by (auto simp: successors_def)
  show ?case
  proof (cases "n \<in> set seen")
    case False
    note fresh = this
    show ?thesis
    proof (cases "target \<in> set (successors es n)")
      case True
      with succ show ?thesis by (auto intro: r_into_trancl)
    next
      case False
      with 2 fresh obtain m where "m \<in> set q \<or> m \<in> set (successors es n)" "(m, target) \<in> (set es)\<^sup>+" by auto
      with succ show ?thesis by (auto intro: trancl_into_trancl2)
    qed
  qed (use 2 in auto)
qed simp

lemma reaches_loop_complete:
  "\<not> reaches_loop es target q seen \<Longrightarrow>
   \<forall>s \<in> set seen. \<forall>v. (s, v) \<in> set es \<longrightarrow> v \<noteq> target \<and> (v \<in> set seen \<or> v \<in> set q) \<Longrightarrow>
   \<exists>S. set q \<union> set seen \<subseteq> S \<and> (\<forall>s \<in> S. \<forall>v. (s, v) \<in> set es \<longrightarrow> v \<noteq> target \<and> v \<in> S)"
proof (induction es target q seen rule: reaches_loop.induct)
  case (1 es target seen)
  then show ?case by (intro exI [of _ "set seen"]) auto
next
  case (2 es target n q seen)
  have succ: "(n, v) \<in> set es \<longleftrightarrow> v \<in> set (successors es n)" for v by (force simp: successors_def)
  show ?case
  proof (cases "n \<in> set seen")
    case True
    have "\<forall>s \<in> set seen. \<forall>v. (s, v) \<in> set es \<longrightarrow> v \<noteq> target \<and> (v \<in> set seen \<or> v \<in> set q)"
      using "2.prems"(2) True by (metis set_ConsD)
    moreover from "2.prems"(1) True have "\<not> reaches_loop es target q seen" by simp
    ultimately obtain S where "set q \<union> set seen \<subseteq> S" "\<forall>s \<in> S. \<forall>v. (s, v) \<in> set es \<longrightarrow> v \<noteq> target \<and> v \<in> S"
      using "2.IH"(1) [OF True] by blast
    with True show ?thesis by (intro exI [of _ S]) auto
  next
    case False
    with "2.prems"(1) have *: "target \<notin> set (successors es n)" "\<not> reaches_loop es target (q @ successors es n) (n # seen)"
      by (auto split: if_splits)
    have "\<forall>s \<in> set (n # seen). \<forall>v. (s, v) \<in> set es \<longrightarrow> v \<noteq> target \<and> (v \<in> set (n # seen) \<or> v \<in> set (q @ successors es n))"
      using "2.prems"(2) *(1) succ by auto
    from "2.IH"(2) [OF False *(1,2) this] show ?thesis by auto
  qed
qed

lemma reaches_iff: "reaches es start target \<longleftrightarrow> (start, target) \<in> (set es)\<^sup>+"
proof
  assume "(start, target) \<in> (set es)\<^sup>+"
  then show "reaches es start target"
  proof (rule contrapos_pp)
    assume "\<not> reaches es start target"
    from reaches_loop_complete [OF this [unfolded reaches_def]] obtain S where S: "start \<in> S"
      "\<forall>s \<in> S. \<forall>v. (s, v) \<in> set es \<longrightarrow> v \<noteq> target \<and> v \<in> S" by auto
    have "v \<in> S \<and> v \<noteq> target" if "(start, v) \<in> (set es)\<^sup>+" for v
      using that by (induction rule: trancl_induct) (use S in blast)+
    then show "(start, target) \<notin> (set es)\<^sup>+" by blast
  qed
qed (use reaches_loop_sound [of es target "[start]" "[]"] in \<open>simp add: reaches_def\<close>)

lemma component_prefix_iff: "component_prefix xs ys \<longleftrightarrow> prefix xs ys"
proof (induction xs arbitrary: ys)
  case (Cons x xs)
  show ?case
  proof (cases ys)
    case (Cons y zs)
    with Cons.IH [of zs] show ?thesis by (auto simp: component_prefix_def)
  qed (simp add: component_prefix_def)
qed (simp add: component_prefix_def)

text \<open>Two specifications overlap exactly when some path lies below the literal part of both.\<close>

lemma path_specs_overlap_iff:
  "path_specs_overlap left right \<longleftrightarrow>
     (\<exists>path. prefix (literal_prefix left) path \<and> prefix (literal_prefix right) path)"
proof -
  have "(\<exists>path. prefix xs path \<and> prefix ys path) \<longleftrightarrow> prefix xs ys \<or> prefix ys xs" for xs ys :: "string list"
    by (metis prefix_order.refl prefix_same_cases)
  then show ?thesis by (auto simp: path_specs_overlap_def Let_def component_prefix_iff)
qed

lemma set_outgoing_edges: "set (outgoing_edges fl) = execution_relation fl"
  by (auto simp: outgoing_edges_def execution_relation_def)

lemma check_write_conflicts_Nil:
  assumes "check_write_conflicts es ts = []" "i < j" "j < length ts"
  shows "check_write_pair es (ts ! i) (ts ! j) = []"
  using assms
proof (induction ts arbitrary: i j)
  case (Cons t ts)
  then obtain k where j: "j = Suc k" by (cases j) auto
  show ?case
  proof (cases i)
    case 0
    with Cons.prems j show ?thesis by (auto simp: nth_mem)
  next
    case (Suc h)
    with Cons.prems j Cons.IH [of h k] show ?thesis by auto
  qed
qed simp

text \<open>
  C8. A plan has no write races: when two tasks may write below a common path (one that lies below
  the literal part of a write capability of each), then either the flow orders them, the one that
  comes first in the plan before the other, or every route that activates the one and every route
  that activates the other leave the same gate on different outcomes.
\<close>

theorem plan_has_no_write_races:
  assumes "lower lib fl = Some (Ok p)" and "i < j" and "j < length (pl_tasks p)"
    and "l \<in> set (cs_write (tk_capabilities (pl_tasks p ! i)))" and "r \<in> set (cs_write (tk_capabilities (pl_tasks p ! j)))"
    and "prefix (literal_prefix l) path" and "prefix (literal_prefix r) path"
  shows "(tk_id (pl_tasks p ! i), tk_id (pl_tasks p ! j)) \<in> (execution_relation fl)\<^sup>+ \<or>
    (\<forall>c \<in> set (rn_activate_on_any (tk_readiness (pl_tasks p ! i))).
     \<forall>d \<in> set (rn_activate_on_any (tk_readiness (pl_tasks p ! j))). rc_gate c = rc_gate d \<and> rc_outcome c \<noteq> rc_outcome d) \<and>
    rn_activate_on_any (tk_readiness (pl_tasks p ! i)) \<noteq> [] \<and> rn_activate_on_any (tk_readiness (pl_tasks p ! j)) \<noteq> []"
proof -
  let ?l = "pl_tasks p ! i" and ?r = "pl_tasks p ! j"
  from assms(1) obtain paths where low: "lowerable fl paths"
    and order: "topological_order fl None = Some (map tk_id (pl_tasks p))"
    and nil: "check_write_conflicts (outgoing_edges fl) (pl_tasks p) = []"
    using lower_tasks by metis
  from low have wf: "well_formed fl" by (simp add: lowerable_def)
  have "path_specs_overlap l r" using assms(6,7) by (auto simp: path_specs_overlap_iff)
  with check_write_conflicts_Nil [OF nil assms(2,3)] assms(4,5)
  have "ordered (outgoing_edges fl) (tk_id ?l) (tk_id ?r) \<or>
      mutually_exclusive (rn_activate_on_any (tk_readiness ?l)) (rn_activate_on_any (tk_readiness ?r))"
    by (auto simp: check_write_pair_def split: if_splits)
  moreover have "(tk_id ?r, tk_id ?l) \<notin> (execution_relation fl)\<^sup>+"
  proof
    assume later: "(tk_id ?r, tk_id ?l) \<in> (execution_relation fl)\<^sup>+"
    have topo: "topo_sorted (set (order_edges fl None)) (map tk_id (pl_tasks p))" and dist: "distinct (map tk_id (pl_tasks p))"
      using topological_order_correct [OF wf, of None] order by auto
    have rel: "set (order_edges fl None) = execution_relation fl"
      by (auto simp: order_edges_def execution_relation_def included_def)
    have "a \<in> set (take k (map tk_id (pl_tasks p)))"
      if "(a, b) \<in> (execution_relation fl)\<^sup>+" "b = map tk_id (pl_tasks p) ! k" "k < length (pl_tasks p)" for a b k
      using that
    proof (induction arbitrary: k rule: trancl_induct)
      case (base y)
      with topo rel show ?case by (auto simp: topo_sorted_def)
    next
      case (step y z)
      with topo rel have "y \<in> set (take k (map tk_id (pl_tasks p)))" by (auto simp: topo_sorted_def)
      then obtain m where m: "m < k" "y = map tk_id (pl_tasks p) ! m" using step.prems by (auto simp: in_set_conv_nth)
      with step.IH [of m] step.prems have "a \<in> set (take m (map tk_id (pl_tasks p)))" by simp
      with m(1) show ?case using set_take_subset_set_take [of m k "map tk_id (pl_tasks p)"] by auto
    qed
    from this [OF later, of i] assms(2,3) have "tk_id ?r \<in> set (take i (map tk_id (pl_tasks p)))" by simp
    then obtain m where "m < i" "map tk_id (pl_tasks p) ! m = map tk_id (pl_tasks p) ! j"
      using assms(2,3) by (auto simp: in_set_conv_nth)
    with dist assms(2,3) nth_eq_iff_index_eq [OF dist, of m j] show False by simp
  qed
  ultimately show ?thesis
    by (auto simp: ordered_def reaches_iff set_outgoing_edges mutually_exclusive_def list_all_iff)
qed

section \<open>A flow that lowers\<close>

definition int_port :: port where
  "int_port = \<lparr>pt_name = ''x'', pt_value_type = VInt, pt_optional = False\<rparr>"

definition write_flow :: flow where
  "write_flow = \<lparr>fl_schema = FLOW_SCHEMA_V0, fl_name = ''demo'', fl_interface = \<lparr>fi_inputs = [int_port], fi_outputs = [int_port]\<rparr>,
     fl_contracts = [],
     fl_nodes = [(plain_node ''in'' InputNode)\<lparr>nd_outputs := [int_port]\<rparr>,
                 (plain_node ''w'' (TaskNode \<lparr>pr_source = ''p'', pr_entrypoint = None\<rparr>))\<lparr>nd_capabilities := no_capabilities\<lparr>cp_write := [''a'']\<rparr>\<rparr>,
                 (plain_node ''out'' OutputNode)\<lparr>nd_inputs := [int_port], nd_capabilities := no_capabilities\<lparr>cp_write := [''a/b'']\<rparr>\<rparr>],
     fl_edges = [\<lparr>ed_id = ''d'', ed_from = \<lparr>ep_node = ''in'', ep_port = Some ''x''\<rparr>, ed_to = \<lparr>ep_node = ''out'', ep_port = Some ''x''\<rparr>,
                  ed_kind = DataEdge\<rparr>,
                 \<lparr>ed_id = ''e'', ed_from = \<lparr>ep_node = ''w'', ep_port = None\<rparr>, ed_to = \<lparr>ep_node = ''out'', ep_port = None\<rparr>,
                  ed_kind = DependencyEdge\<rparr>],
     fl_regions = [], fl_annotations = []\<rparr>"

definition write_lib :: flow_lib where
  "write_lib = \<lparr>fb_json = (\<lambda>s. Some ''x''), fb_sha256 = (\<lambda>b. b), fb_hex = (\<lambda>b. b)\<rparr>"

lemmas identifier_simps =
  valid_identifier_def identifier_start_def identifier_rest_def is_ascii_alphabetic_def is_ascii_alphanumeric_def

lemma write_flow_texts: "\<not> is_blank ''a''" "\<not> is_blank ''p''" "\<not> is_blank ''a/b''"
  by (simp_all add: is_blank_def trim_id ws_free_graph)

lemma write_flow_nodes: "\<forall>n \<in> set (fl_nodes write_flow). valid_identifier (nd_id n) \<and> node_valid write_flow n"
  by (simp add: write_flow_def identifier_simps node_valid_def ports_valid_def strings_valid_def plain_node_def
      no_capabilities_def kind_valid_def int_port_def write_flow_texts)

lemma write_flow_edges: "\<forall>e \<in> set (fl_edges write_flow). valid_identifier (ed_id e) \<and> edge_valid write_flow e"
  by (auto simp: write_flow_def identifier_simps edge_valid_def edge_between_def same_type_def has_port_def
      plain_node_def int_port_def)

lemma write_flow_acyclic: "acyclic (execution_relation write_flow)" "acyclic (parent_relation write_flow)"
proof -
  have "execution_relation write_flow = {(''in'', ''out''), (''w'', ''out'')}"
    by (simp add: set_outgoing_edges [symmetric] outgoing_edges_def write_flow_def is_feedback_def)
  moreover have "acyclic {(''in'', ''out''), (''w'', ''out'')}"
    by (rule acyclicI_order [of _ "\<lambda>n. if n = ''out'' then 0 else 1 :: nat"]) auto
  ultimately show "acyclic (execution_relation write_flow)" by simp
  show "acyclic (parent_relation write_flow)"
    by (simp add: parent_relation_def write_flow_def acyclic_def)
qed

lemma write_flow_counts:
  "count_kind InputNode write_flow = 1" "count_kind OutputNode write_flow = 1"
  "\<forall>n \<in> set (fl_nodes write_flow). \<forall>p \<in> set (nd_inputs n). producers_valid write_flow n p"
  by code_simp+

lemma write_flow_well_formed: "well_formed write_flow"
  unfolding well_formed_def
  using write_flow_nodes write_flow_edges write_flow_acyclic write_flow_counts
  by (simp add: write_flow_def identifier_simps ports_valid_def int_port_def plain_node_def)

definition write_paths :: region_map where
  "write_paths = [(''in'', []), (''out'', []), (''w'', [])]"

definition write_tasks :: "task_template list" where
  "write_tasks = (case those (map (lower_task write_flow write_paths) (fl_nodes write_flow)) of None \<Rightarrow> [] | Some ts \<Rightarrow> ts)"

lemma write_flow_steps:
  "region_paths write_flow = Some ([], write_paths)"
  "check_capability_paths write_flow = []"
  "check_loop_boundaries write_flow write_paths = Some []"
  "topological_order write_flow None = Some [''in'', ''w'', ''out'']"
  "those (map (map_of (validator_nodes write_flow)) [''in'', ''w'', ''out'']) = Some (fl_nodes write_flow)"
  "those (map (lower_task write_flow write_paths) (fl_nodes write_flow)) = Some write_tasks"
  "lower_loops write_flow = Some []"
  "lower_regions write_flow = Some []"
  "check_write_conflicts (outgoing_edges write_flow) write_tasks = []"
  by code_simp+

lemma write_tasks_shape:
  "length write_tasks = 3" "map tk_id write_tasks = [''in'', ''w'', ''out'']"
  "map (\<lambda>t. cs_write (tk_capabilities t)) write_tasks = [[], [''a''], [''a/b'']]"
  "map (\<lambda>t. rn_activate_on_any (tk_readiness t)) write_tasks = [[], [], []]"
  "map (\<lambda>t. length (tk_inputs t)) write_tasks = [0, 0, 1]"
  by code_simp+

lemma write_flow_lowers: "\<exists>p. lower write_lib write_flow = Some (Ok p) \<and> pl_tasks p = write_tasks"
proof -
  have "validate write_flow = Ok ()" by (simp add: validate_cases write_flow_well_formed)
  moreover obtain p where p: "assemble_plan write_lib write_flow write_tasks [] [] = Some p"
    using assemble_total [of write_lib write_flow write_tasks "[]" "[]"] by (auto simp: json_total_def write_lib_def)
  ultimately have "lower write_lib write_flow = Some (Ok p)"
    by (simp add: lower_def write_flow_steps Let_def del: map_eq_Cons_conv list.map)
  moreover have "pl_tasks p = write_tasks"
    using p by (auto simp: assemble_plan_def Let_def bind_eq_Some_conv)
  ultimately show ?thesis by blast
qed

theorem lower_always_returns_witness: "\<exists>r. lower write_lib demo_flow = Some r"
  by (rule lower_always_returns) (simp add: json_total_def write_lib_def)

theorem plan_lists_dependencies_first_witness:
  "\<exists>p. lower write_lib write_flow = Some (Ok p) \<and> waits_for (pl_tasks p ! 2) \<subseteq> {''in'', ''w''}"
proof -
  obtain p where p: "lower write_lib write_flow = Some (Ok p)" "pl_tasks p = write_tasks"
    using write_flow_lowers by blast
  with write_tasks_shape(1) have "2 < length (pl_tasks p)" by simp
  with plan_lists_dependencies_first [OF p(1)] have "waits_for (pl_tasks p ! 2) \<subseteq> set (take 2 (map tk_id write_tasks))"
    by (simp add: take_map p(2))
  with p(1) show ?thesis by (auto simp: write_tasks_shape(2))
qed

theorem plan_bindings_are_typed_witness:
  "\<exists>p b. lower write_lib write_flow = Some (Ok p) \<and> b \<in> set (tk_inputs (pl_tasks p ! 2)) \<and>
     (\<forall>v \<in> set (ib_sources b). \<exists>s \<in> set (pl_tasks p). \<exists>o' \<in> set (tk_outputs s).
        tk_id s = pf_task (vb_from v) \<and> pp_name o' = pf_port (vb_from v) \<and> pp_value_type o' = pp_value_type (ib_port b))"
proof -
  obtain p where p: "lower write_lib write_flow = Some (Ok p)" "pl_tasks p = write_tasks"
    using write_flow_lowers by blast
  have "length (tk_inputs (write_tasks ! 2)) = map (\<lambda>t. length (tk_inputs t)) write_tasks ! 2"
    using write_tasks_shape(1) by simp
  then have "length (tk_inputs (write_tasks ! 2)) = 1" by (simp add: write_tasks_shape(5))
  then obtain b where b: "b \<in> set (tk_inputs (pl_tasks p ! 2))" unfolding p(2) by (auto simp: length_Suc_conv)
  moreover have "pl_tasks p ! 2 \<in> set (pl_tasks p)" using p(2) write_tasks_shape(1) by simp
  ultimately show ?thesis using plan_bindings_are_typed [OF p(1)] p(1) by blast
qed

theorem plan_has_no_write_races_witness:
  "(''w'', ''out'') \<in> (execution_relation write_flow)\<^sup>+"
proof -
  obtain p where p: "lower write_lib write_flow = Some (Ok p)" "pl_tasks p = write_tasks"
    using write_flow_lowers by blast
  have at: "cs_write (tk_capabilities (write_tasks ! 1)) = [''a'']" "cs_write (tk_capabilities (write_tasks ! 2)) = [''a/b'']"
    "tk_id (write_tasks ! 1) = ''w''" "tk_id (write_tasks ! 2) = ''out''" "rn_activate_on_any (tk_readiness (write_tasks ! 1)) = []"
    by code_simp+
  have "prefix (literal_prefix ''a'') [''a'', ''b'']" "prefix (literal_prefix ''a/b'') [''a'', ''b'']"
    by code_simp+
  with plan_has_no_write_races [OF p(1), of 1 2 "''a''" "''a/b''" "[''a'', ''b'']"] at p(2) write_tasks_shape(1)
  show ?thesis by simp
qed

section \<open>Normalised paths stay inside the workspace\<close>

lemma split_on_join:
  assumes "xs \<noteq> []" and "\<And>x. x \<in> set xs \<Longrightarrow> c \<notin> set x"
  shows "split_on (\<lambda>d. d = c) (join [c] xs) = xs"
  using assms
proof (induction xs rule: list_nonempty_induct)
  case (single x)
  then show ?case by (simp add: split_on_none)
next
  case (cons x xs)
  have "split_on (\<lambda>d. d = c) (x @ c # join [c] xs) = x # split_on (\<lambda>d. d = c) (join [c] xs)"
    by (rule split_on_append_sep) (use cons.prems in auto)
  with cons show ?case by (simp add: join_Cons)
qed

lemma workspace_components_Ok:
  "workspace_components p cs = Ok ds \<Longrightarrow>
   ds = filter (\<lambda>c. c \<noteq> ''.'') cs \<and> [] \<notin> set cs \<and> ''..'' \<notin> set cs"
proof (induction p cs arbitrary: ds rule: workspace_components.induct)
  case (2 p c cs)
  then show ?case by (cases "c = []"; cases "c = ''.''"; cases "c = ''..''") auto
qed simp

lemma workspace_components_id:
  "[] \<notin> set cs \<Longrightarrow> ''..'' \<notin> set cs \<Longrightarrow> ''.'' \<notin> set cs \<Longrightarrow> workspace_components p cs = Ok cs"
  by (induction cs) auto

text \<open>
  C37. A workspace path that is accepted cannot leave the workspace: its normal form is relative, has
  no empty component and none that climbs, keeps every other component of the input in order, and
  normalising it again changes nothing.
\<close>

theorem normalized_path_stays_inside:
  assumes "normalize_workspace_path path allow_dot = Ok q"
  shows "normalize_workspace_path q allow_dot = Ok q \<and> \<not> starts_with q ''/'' \<and>
     (let cs = split_on (\<lambda>c. c = CHR ''/'') q in [] \<notin> set cs \<and> ''..'' \<notin> set cs \<and>
        filter (\<lambda>c. c \<noteq> ''.'') cs = filter (\<lambda>c. c \<noteq> ''.'') (split_on (\<lambda>c. c = CHR ''/'') path))"
proof -
  let ?P = "\<lambda>c. c = CHR ''/''" and ?ps = "split_on (\<lambda>c. c = CHR ''/'') path"
  from assms obtain ds where ds: "workspace_components path ?ps = Ok ds" and slash: "CHR 0x5C \<notin> set path"
    and q: "if ds = [] then allow_dot \<and> q = ''.'' else q = join ''/'' ds"
    by (auto simp: normalize_workspace_path_def split: if_splits)
  note kept = workspace_components_Ok [OF ds]
  show ?thesis
  proof (cases "ds = []")
    case True
    with q have "q = ''.''" "allow_dot" by auto
    moreover have "split_on ?P ''.'' = [''.'']" by (simp add: split_on_none)
    ultimately show ?thesis using True kept by (simp add: normalize_workspace_path_def starts_with_def Let_def)
  next
    case False
    have parts: "d \<in> set ?ps" "CHR ''/'' \<notin> set d" "d \<noteq> []" "d \<noteq> ''..''" "d \<noteq> ''.''" "CHR 0x5C \<notin> set d" if "d \<in> set ds" for d
    proof -
      from that kept show *: "d \<in> set ?ps" "d \<noteq> []" "d \<noteq> ''..''" "d \<noteq> ''.''" by auto
      from split_on_no_sep [OF *(1)] show "CHR ''/'' \<notin> set d" by blast
      from split_on_char_subset [OF *(1)] slash show "CHR 0x5C \<notin> set d" by blast
    qed
    have sp: "split_on ?P q = ds" using q False split_on_join [OF False, of "CHR ''/''"] parts(2) by simp
    have "\<not> starts_with q ''/''"
    proof
      assume "starts_with q ''/''"
      then obtain r where "q = CHR ''/'' # r" by (auto simp: starts_with_def prefix_def)
      with sp have "[] \<in> set ds" by (metis (full_types) list.set_intros(1) split_on.simps(2))
      with parts(3) show False by blast
    qed
    moreover have "CHR 0x5C \<notin> set q"
    proof -
      have "set (join ''/'' xs) \<subseteq> insert (CHR ''/'') (\<Union>x \<in> set xs. set x)" for xs
        by (induction xs rule: induct_list012) (auto simp: join_Cons)
      then show ?thesis using q False parts(6) by force
    qed
    moreover have "workspace_components q ds = Ok ds"
      using parts by (intro workspace_components_id) blast+
    moreover have "join ''/'' ds = q" using q False by simp
    ultimately have "normalize_workspace_path q allow_dot = Ok q"
      using False by (simp add: normalize_workspace_path_def sp)
    moreover have "[] \<notin> set ds" "''..'' \<notin> set ds" "filter (\<lambda>c. c \<noteq> ''.'') ds = filter (\<lambda>c. c \<noteq> ''.'') ?ps"
      using kept by auto
    ultimately show ?thesis
      using \<open>\<not> starts_with q ''/''\<close> by (simp only: sp Let_def simp_thms)
  qed
qed

theorem normalized_path_stays_inside_witness:
  "normalize_workspace_path ''./a/./b'' False = Ok ''a/b'' \<and> normalize_workspace_path ''a/b'' False = Ok ''a/b''"
proof -
  have "normalize_workspace_path ''./a/./b'' False = Ok ''a/b''" by code_simp
  with normalized_path_stays_inside [OF this] show ?thesis by blast
qed

end
