(* ===== verification/Session_Registry.thy ===== *)
theory Session_Registry
  imports Chat "HOL-Library.AList"
begin

text \<open>
  The sessions of a daemon and their durable state (\<^verbatim>\<open>crates/xshell-session/src/registry.rs\<close>
  and the session types of \<^verbatim>\<open>model.rs\<close>). A hash map is the list of its entries, in whatever order
  it iterates. The state file is a store with the file and its temporary sibling; what the operating
  system answers (clock, random identifier, working directory, faults of a write) is an argument of
  each operation, and the JSON printer and parser of the state are the parameters of a \<open>session_lib\<close>.
\<close>

section \<open>Data\<close>

datatype persistence_mode = Ephemeral | DaemonMode | Durable

datatype visibility = HostOnly | Fabric

datatype access_mode = SingleUser | MultiUserReserved

datatype attachment_role = Owner | Operator | Viewer

datatype session_status = Attached | Detached

datatype agent_turn_phase = Running | WaitingApproval | Stopping

datatype session_activity =
    Idle
  | AgentTurn string agent_turn_phase
  | InteractiveProcess string bool

record model_binding =
  md_profile_name :: "string option"
  md_provider :: string
  md_model :: string
  md_base_url :: string
  md_api_key_env :: "string option"
  md_max_history_bytes :: "nat option"
  md_context_tokens :: "nat option"
  md_reserve_output_tokens :: "nat option"

record session_descriptor =
  sd_id :: string
  sd_name :: string
  sd_host_id :: string
  sd_host_alias :: string
  sd_user :: string
  sd_model :: model_binding
  sd_cwd :: string
  sd_persistence :: persistence_mode
  sd_visibility :: visibility
  sd_access_mode :: access_mode
  sd_status :: session_status
  sd_activity :: session_activity
  sd_attached_clients :: "32 word"
  sd_created_at :: "64 word"
  sd_last_active_at :: "64 word"

record session_snapshot =
  sn_descriptor :: session_descriptor
  sn_history :: "chat_message list"

record session_creation =
  sc_name :: string
  sc_model :: model_binding
  sc_cwd :: string
  sc_persistence :: persistence_mode
  sc_visibility :: visibility
  sc_history :: "chat_message list"

record session_record =
  se_snapshot :: session_snapshot
  se_attachments :: "string list"

record durable_in_flight =
  di_session_id :: string
  di_operation_id :: string
  di_route :: string

record durable_state =
  ds_format_version :: "32 word"
  ds_sessions :: "session_snapshot list"
  ds_in_flight :: "durable_in_flight list"

record session_registry =
  rg_host_id :: string
  rg_host_alias :: string
  rg_user :: string
  rg_sessions :: "(string \<times> session_record) list"
  rg_in_flight :: "(string \<times> durable_in_flight) list"

text \<open>The two files of the state directory.\<close>

record state_store =
  ss_final :: "string option"
  ss_temporary :: "string option"

text \<open>Where writing the state can fail; a failed write leaves part of the bytes in the temporary file.\<close>

datatype persist_fault = OpenFault string | WriteFault string string | RenameFault string

record session_env =
  sv_now :: "(string, 64 word) result"
  sv_uuid :: string
  sv_cwd :: "string \<Rightarrow> (string, string) result"
  sv_fault :: "persist_fault option"
  sv_directory :: "(string, unit) result"
  sv_read_fault :: "string option"

record session_lib =
  sb_encode :: "durable_state \<Rightarrow> (string, string) result"
  sb_decode :: "string \<Rightarrow> (string, durable_state) result"
  sb_directory :: string

record session_host =
  sh_registry :: session_registry
  sh_store :: state_store

abbreviation descriptor_of :: "session_record \<Rightarrow> session_descriptor" where
  "descriptor_of r \<equiv> sn_descriptor (se_snapshot r)"

definition map_descriptor :: "(session_descriptor \<Rightarrow> session_descriptor) \<Rightarrow> session_snapshot \<Rightarrow> session_snapshot" where
  "map_descriptor f s = s\<lparr>sn_descriptor := f (sn_descriptor s)\<rparr>"

definition map_snapshot :: "(session_snapshot \<Rightarrow> session_snapshot) \<Rightarrow> session_record \<Rightarrow> session_record" where
  "map_snapshot f r = r\<lparr>se_snapshot := f (se_snapshot r)\<rparr>"

section \<open>Queries\<close>

definition descriptor_with_status :: "session_record \<Rightarrow> session_descriptor" where
  "descriptor_with_status r =
     (descriptor_of r)\<lparr>sd_attached_clients := of_nat (length (se_attachments r)),
                       sd_status := (if se_attachments r = [] then Detached else Attached)\<rparr>"

definition snapshot_with_status :: "session_record \<Rightarrow> session_snapshot" where
  "snapshot_with_status r = (se_snapshot r)\<lparr>sn_descriptor := descriptor_with_status r\<rparr>"

definition list_sessions :: "session_registry \<Rightarrow> session_descriptor list" where
  "list_sessions g = sort_key sd_name (map (\<lambda>e. descriptor_with_status (snd e)) (rg_sessions g))"

definition name_char :: "char \<Rightarrow> bool" where
  "name_char c \<longleftrightarrow> is_ascii_alphanumeric c \<or> c = CHR ''-'' \<or> c = CHR ''_''"

definition validate_name :: "string \<Rightarrow> (string, unit) result" where
  "validate_name name =
     (if name = [] \<or> length name > 64 then Err ''session names must contain 1 to 64 characters''
      else if \<not> list_all name_char name
      then Err (''session names may contain only ASCII letters, digits, '' @ [CHR 0x27, CHR 0x2D, CHR 0x27] @ '' and '' @
                [CHR 0x27, CHR 0x5F, CHR 0x27])
      else Ok ())"

definition resolve :: "session_registry \<Rightarrow> string \<Rightarrow> (string, string) result" where
  "resolve g selector =
     (if map_of (rg_sessions g) selector \<noteq> None then Ok selector
      else case map fst (filter (\<lambda>e. sd_name (descriptor_of (snd e)) = selector) (rg_sessions g)) of
             [i] \<Rightarrow> Ok i
           | [] \<Rightarrow> Err (''unknown session '' @ debug_str selector)
           | _ \<Rightarrow> Err (''ambiguous session selector '' @ debug_str selector))"

definition snapshot :: "session_registry \<Rightarrow> string \<Rightarrow> (string, session_snapshot) result option" where
  "snapshot g selector =
     (case resolve g selector of
        Inl e \<Rightarrow> Some (Err e)
      | Inr i \<Rightarrow> map_option (\<lambda>r. Ok (snapshot_with_status r)) (map_of (rg_sessions g) i))"

section \<open>Persistence\<close>

definition durable_snapshot :: "session_record \<Rightarrow> session_snapshot" where
  "durable_snapshot r = map_descriptor (\<lambda>d. d\<lparr>sd_status := Detached, sd_attached_clients := 0\<rparr>) (se_snapshot r)"

definition durable_state_of :: "session_registry \<Rightarrow> durable_state" where
  "durable_state_of g =
     \<lparr>ds_format_version = 1,
      ds_sessions = sort_key (\<lambda>s. sd_name (sn_descriptor s))
        (map (\<lambda>e. durable_snapshot (snd e))
          (filter (\<lambda>e. sd_persistence (descriptor_of (snd e)) = Durable) (rg_sessions g))),
      ds_in_flight = sort_key di_session_id (map snd (rg_in_flight g))\<rparr>"

definition persist :: "session_lib \<Rightarrow> session_env \<Rightarrow> session_registry \<Rightarrow> state_store \<Rightarrow> (state_store, string, unit) outcome" where
  "persist lib env g st =
     (case sb_encode lib (durable_state_of g) of
        Inl e \<Rightarrow> (Err e, st)
      | Inr encoded \<Rightarrow>
          (case sv_fault env of
             Some (OpenFault e) \<Rightarrow> (Err e, st)
           | Some (WriteFault e part) \<Rightarrow> (Err e, st\<lparr>ss_temporary := Some part\<rparr>)
           | Some (RenameFault e) \<Rightarrow> (Err e, st\<lparr>ss_temporary := Some encoded\<rparr>)
           | None \<Rightarrow> (Ok (), st\<lparr>ss_temporary := None, ss_final := Some encoded\<rparr>)))"

text \<open>The end of an operation: write the new registry, whatever the outcome keep it in memory.\<close>

definition persisting ::
  "session_lib \<Rightarrow> session_env \<Rightarrow> session_registry \<Rightarrow> 'a \<Rightarrow> session_host \<Rightarrow> (session_host, string, 'a) outcome" where
  "persisting lib env g a h =
     (case persist lib env g (sh_store h) of
        (Inl e, st) \<Rightarrow> (Err e, \<lparr>sh_registry = g, sh_store = st\<rparr>)
      | (Inr _, st) \<Rightarrow> (Ok a, \<lparr>sh_registry = g, sh_store = st\<rparr>))"

section \<open>Loading\<close>

definition state_path :: "session_lib \<Rightarrow> string" where
  "state_path lib = sb_directory lib @ ''/sessions.json''"

definition adopt :: "session_registry \<Rightarrow> string \<Rightarrow> session_snapshot \<Rightarrow> session_snapshot" where
  "adopt g cwd = map_descriptor (\<lambda>d. d\<lparr>sd_cwd := cwd, sd_host_id := rg_host_id g, sd_host_alias := rg_host_alias g,
     sd_user := rg_user g, sd_status := Detached, sd_activity := Idle, sd_attached_clients := 0\<rparr>)"

fun load_sessions ::
  "session_env \<Rightarrow> session_registry \<Rightarrow> string list \<Rightarrow> session_snapshot list \<Rightarrow> (string, session_registry) result" where
  "load_sessions env g names [] = Ok g"
| "load_sessions env g names (s # ss) =
     (let d = sn_descriptor s in
      and_then (validate_name (sd_name d)) (\<lambda>_.
      and_then (case sv_cwd env (sd_cwd d) of
                  Inl e \<Rightarrow> Err (''invalid working directory for durable session '' @ debug_str (sd_name d) @ '': '' @ e)
                | Inr cwd \<Rightarrow> Ok cwd) (\<lambda>cwd.
      if sd_persistence d \<noteq> Durable then Err ''non-durable session found in durable state''
      else if sd_name d \<in> set names then Err ''duplicate session name in durable state''
      else if map_of (rg_sessions g) (sd_id d) \<noteq> None then Err ''duplicate session ID in durable state''
      else load_sessions env
             (g\<lparr>rg_sessions := AList.update (sd_id d) \<lparr>se_snapshot = adopt g cwd s, se_attachments = []\<rparr> (rg_sessions g)\<rparr>)
             (sd_name d # names) ss)))"

definition recovery_text :: "durable_in_flight \<Rightarrow> string" where
  "recovery_text i =
     ''[xshell recovery] outcome_unknown: '' @ di_route i @ '' operation '' @ di_operation_id i @
     '' was interrupted before a terminal outcome was persisted; inspect external effects before retrying''"

definition recovered :: "durable_in_flight \<Rightarrow> chat_message list \<Rightarrow> chat_message list" where
  "recovered i history =
     (if history \<noteq> [] \<and> content (last history) = recovery_text i then history
      else history @ [system_message (recovery_text i)])"

definition recover_record :: "durable_in_flight \<Rightarrow> session_record \<Rightarrow> session_record" where
  "recover_record i = map_snapshot (\<lambda>s. s\<lparr>sn_history := recovered i (sn_history s)\<rparr>)"

fun recover_in_flight :: "session_registry \<Rightarrow> durable_in_flight list \<Rightarrow> (string, session_registry) result" where
  "recover_in_flight g [] = Ok g"
| "recover_in_flight g (i # is') =
     (case map_of (rg_sessions g) (di_session_id i) of
        None \<Rightarrow> Err (''in-flight operation '' @ debug_str (di_operation_id i) @ '' references an unknown durable session'')
      | Some r \<Rightarrow>
          recover_in_flight (g\<lparr>rg_sessions := AList.update (di_session_id i) (recover_record i r) (rg_sessions g)\<rparr>) is')"

definition read_state :: "session_lib \<Rightarrow> session_env \<Rightarrow> string \<Rightarrow> (string, durable_state) result" where
  "read_state lib env source =
     (case sv_read_fault env of
        Some e \<Rightarrow> Err (''cannot read session state '' @ state_path lib @ '': '' @ e)
      | None \<Rightarrow>
          (case sb_decode lib source of
             Inl e \<Rightarrow> Err (''invalid session state '' @ state_path lib @ '': '' @ e)
           | Inr state \<Rightarrow>
               if ds_format_version state \<noteq> 1
               then Err (''unsupported session state format '' @ show_nat (unat (ds_format_version state)))
               else Ok state))"

definition load ::
  "session_lib \<Rightarrow> session_env \<Rightarrow> string \<Rightarrow> string \<Rightarrow> string \<Rightarrow> state_store \<Rightarrow> (state_store, string, session_registry) outcome" where
  "load lib env host_id host_alias user st =
     (let fresh = \<lparr>rg_host_id = host_id, rg_host_alias = host_alias, rg_user = user, rg_sessions = [], rg_in_flight = []\<rparr> in
      case sv_directory env of
        Inl e \<Rightarrow> (Err e, st)
      | Inr _ \<Rightarrow>
          (case ss_final st of
             None \<Rightarrow> (Ok fresh, st)
           | Some source \<Rightarrow>
               (case and_then (read_state lib env source) (\<lambda>state.
                      and_then (load_sessions env fresh [] (ds_sessions state)) (\<lambda>g.
                      and_then (recover_in_flight g (ds_in_flight state)) (\<lambda>g'. Ok (g', ds_in_flight state \<noteq> [])))) of
                  Inl e \<Rightarrow> (Err e, st)
                | Inr (g, interrupted) \<Rightarrow>
                    if interrupted then
                      (case persist lib env g st of (Inl e, st') \<Rightarrow> (Err e, st') | (Inr _, st') \<Rightarrow> (Ok g, st'))
                    else (Ok g, st))))"

section \<open>Operations\<close>

text \<open>
  An operation takes the host and returns its result with the new host. \<open>None\<close> is a panic, which
  \<open>expect("resolved session exists")\<close> would be.
\<close>

definition set_session :: "string \<Rightarrow> session_record \<Rightarrow> session_registry \<Rightarrow> session_registry" where
  "set_session i r g = g\<lparr>rg_sessions := AList.update i r (rg_sessions g)\<rparr>"

definition remove_session :: "string \<Rightarrow> session_registry \<Rightarrow> session_registry" where
  "remove_session i g = g\<lparr>rg_sessions := AList.delete i (rg_sessions g)\<rparr>"

definition new_descriptor :: "session_registry \<Rightarrow> session_env \<Rightarrow> session_creation \<Rightarrow> string \<Rightarrow> 64 word \<Rightarrow> session_descriptor" where
  "new_descriptor g env c cwd now =
     \<lparr>sd_id = sv_uuid env, sd_name = sc_name c, sd_host_id = rg_host_id g, sd_host_alias = rg_host_alias g,
      sd_user = rg_user g, sd_model = sc_model c, sd_cwd = cwd, sd_persistence = sc_persistence c,
      sd_visibility = sc_visibility c, sd_access_mode = SingleUser, sd_status = Attached, sd_activity = Idle,
      sd_attached_clients = 1, sd_created_at = now, sd_last_active_at = now\<rparr>"

definition create_session ::
  "session_lib \<Rightarrow> session_env \<Rightarrow> string \<Rightarrow> session_creation \<Rightarrow> session_host \<Rightarrow> (session_host, string, session_snapshot) outcome" where
  "create_session lib env client c h =
     (let g = sh_registry h in
      case validate_name (sc_name c) of
        Inl e \<Rightarrow> (Err e, h)
      | Inr _ \<Rightarrow>
          (case sv_cwd env (sc_cwd c) of
             Inl e \<Rightarrow> (Err e, h)
           | Inr cwd \<Rightarrow>
               if list_ex (\<lambda>e. sd_name (descriptor_of (snd e)) = sc_name c) (rg_sessions g)
               then (Err (''a session named '' @ debug_str (sc_name c) @ '' already exists on this host''), h)
               else (case sv_now env of
                       Inl e \<Rightarrow> (Err e, h)
                     | Inr now \<Rightarrow>
                         let s = \<lparr>sn_descriptor = new_descriptor g env c cwd now, sn_history = sc_history c\<rparr> in
                         persisting lib env
                           (set_session (sv_uuid env) \<lparr>se_snapshot = s, se_attachments = [client]\<rparr> g) s h)))"

definition attach_session ::
  "session_env \<Rightarrow> string \<Rightarrow> string \<Rightarrow> attachment_role \<Rightarrow> session_host \<Rightarrow> (session_host, string, session_snapshot) outcome option" where
  "attach_session env client selector wanted h =
     (let g = sh_registry h in
      if wanted \<noteq> Owner then Some (Err ''operator and viewer roles are reserved for future multi-user sessions'', h)
      else case resolve g selector of
             Inl e \<Rightarrow> Some (Err e, h)
           | Inr i \<Rightarrow>
               (case map_of (rg_sessions g) i of
                  None \<Rightarrow> None
                | Some r \<Rightarrow>
                    if se_attachments r \<noteq> [] \<and> client \<notin> set (se_attachments r)
                    then Some (Err (''session '' @ debug_str (sd_name (descriptor_of r)) @ '' already has an interactive controller''), h)
                    else
                      let joined = r\<lparr>se_attachments := List.insert client (se_attachments r)\<rparr> in
                      (case sv_now env of
                         Inl e \<Rightarrow> Some (Err e, h\<lparr>sh_registry := set_session i joined g\<rparr>)
                       | Inr now \<Rightarrow>
                           let touched = map_snapshot (map_descriptor (\<lambda>d. d\<lparr>sd_last_active_at := now\<rparr>)) joined in
                           Some (Ok (snapshot_with_status touched), h\<lparr>sh_registry := set_session i touched g\<rparr>))))"

definition detach ::
  "session_lib \<Rightarrow> session_env \<Rightarrow> string \<Rightarrow> string \<Rightarrow> session_host \<Rightarrow> (session_host, string, string option) outcome" where
  "detach lib env client sid h =
     (let g = sh_registry h in
      case map_of (rg_sessions g) sid of
        None \<Rightarrow> (Ok None, h)
      | Some r \<Rightarrow>
          let left = r\<lparr>se_attachments := removeAll client (se_attachments r)\<rparr> in
          persisting lib env
            (if se_attachments left = [] \<and> sd_persistence (descriptor_of left) = Ephemeral
             then remove_session sid g else set_session sid left g) (Some sid) h)"

definition changed_record :: "model_binding option \<Rightarrow> string \<Rightarrow> 64 word \<Rightarrow> chat_message list \<Rightarrow> session_record \<Rightarrow> session_record" where
  "changed_record model cwd now history =
     map_snapshot (\<lambda>s. map_descriptor (\<lambda>d. d\<lparr>sd_model := (case model of None \<Rightarrow> sd_model d | Some m \<Rightarrow> m), sd_cwd := cwd,
        sd_last_active_at := now\<rparr>) (s\<lparr>sn_history := history\<rparr>))"

definition touched_record :: "model_binding option \<Rightarrow> string \<Rightarrow> session_record \<Rightarrow> session_record" where
  "touched_record model cwd =
     map_snapshot (map_descriptor (\<lambda>d. d\<lparr>sd_model := (case model of None \<Rightarrow> sd_model d | Some m \<Rightarrow> m), sd_cwd := cwd\<rparr>))"

definition update_session ::
  "session_lib \<Rightarrow> session_env \<Rightarrow> string \<Rightarrow> string \<Rightarrow> model_binding \<Rightarrow> string \<Rightarrow> chat_message list \<Rightarrow> session_host \<Rightarrow>
   (session_host, string, session_descriptor) outcome" where
  "update_session lib env client sid model cwd history h =
     (let g = sh_registry h in
      case sv_cwd env cwd of
        Inl e \<Rightarrow> (Err e, h)
      | Inr cwd' \<Rightarrow>
          (case map_of (rg_sessions g) sid of
             None \<Rightarrow> (Err (''unknown session '' @ debug_str sid), h)
           | Some r \<Rightarrow>
               if client \<notin> set (se_attachments r)
               then (Err (''client is not attached to session '' @ debug_str (sd_name (descriptor_of r))), h)
               else (case sv_now env of
                       Inl e \<Rightarrow> (Err e, h\<lparr>sh_registry := set_session sid (touched_record (Some model) cwd' r) g\<rparr>)
                     | Inr now \<Rightarrow>
                         let r' = changed_record (Some model) cwd' now history r in
                         persisting lib env (set_session sid r' g) (descriptor_with_status r') h)))"

definition begin_execution ::
  "session_lib \<Rightarrow> session_env \<Rightarrow> string \<Rightarrow> string \<Rightarrow> string \<Rightarrow> session_host \<Rightarrow> (session_host, string, unit) outcome" where
  "begin_execution lib env sid op route h =
     (let g = sh_registry h in
      case map_of (rg_sessions g) sid of
        None \<Rightarrow> (Err (''unknown session '' @ debug_str sid), h)
      | Some r \<Rightarrow>
          if sd_persistence (descriptor_of r) \<noteq> Durable then (Ok (), h)
          else if map_of (rg_in_flight g) sid \<noteq> None then (Err ''durable session already has an in-flight operation'', h)
          else
            let g' = g\<lparr>rg_in_flight := AList.update sid \<lparr>di_session_id = sid, di_operation_id = op, di_route = route\<rparr> (rg_in_flight g)\<rparr> in
            (case persist lib env g' (sh_store h) of
               (Inl e, st) \<Rightarrow> (Err e, \<lparr>sh_registry = g'\<lparr>rg_in_flight := AList.delete sid (rg_in_flight g')\<rparr>, sh_store = st\<rparr>)
             | (Inr _, st) \<Rightarrow> (Ok (), \<lparr>sh_registry = g', sh_store = st\<rparr>)))"

definition finish_execution ::
  "session_lib \<Rightarrow> session_env \<Rightarrow> string \<Rightarrow> string \<Rightarrow> session_host \<Rightarrow> (session_host, string, unit) outcome" where
  "finish_execution lib env sid op h =
     (let g = sh_registry h in
      case map_of (rg_in_flight g) sid of
        None \<Rightarrow> (Ok (), h)
      | Some i \<Rightarrow>
          if di_operation_id i = op
          then persisting lib env (g\<lparr>rg_in_flight := AList.delete sid (rg_in_flight g)\<rparr>) () h
          else (Ok (), h))"

definition update_execution_state ::
  "session_lib \<Rightarrow> session_env \<Rightarrow> string \<Rightarrow> string \<Rightarrow> chat_message list \<Rightarrow> session_host \<Rightarrow> (session_host, string, session_descriptor) outcome" where
  "update_execution_state lib env sid cwd history h =
     (let g = sh_registry h in
      case sv_cwd env cwd of
        Inl e \<Rightarrow> (Err e, h)
      | Inr cwd' \<Rightarrow>
          (case map_of (rg_sessions g) sid of
             None \<Rightarrow> (Err (''unknown session '' @ debug_str sid), h)
           | Some r \<Rightarrow>
               (case sv_now env of
                  Inl e \<Rightarrow> (Err e, h\<lparr>sh_registry := set_session sid (touched_record None cwd' r) g\<rparr>)
                | Inr now \<Rightarrow>
                    let r' = changed_record None cwd' now history r in
                    persisting lib env
                      ((set_session sid r' g)\<lparr>rg_in_flight := AList.delete sid (rg_in_flight g)\<rparr>) (descriptor_with_status r') h)))"

definition close_session ::
  "session_lib \<Rightarrow> session_env \<Rightarrow> string \<Rightarrow> string \<Rightarrow> session_host \<Rightarrow> (session_host, string, string) outcome option" where
  "close_session lib env client selector h =
     (let g = sh_registry h in
      case resolve g selector of
        Inl e \<Rightarrow> Some (Err e, h)
      | Inr i \<Rightarrow>
          (case map_of (rg_sessions g) i of
             None \<Rightarrow> None
           | Some r \<Rightarrow>
               if list_ex (\<lambda>a. a \<noteq> client) (se_attachments r)
               then Some (Err (''session '' @ debug_str (sd_name (descriptor_of r)) @ '' is controlled by another client''), h)
               else Some (persisting lib env (remove_session i g) i h)))"

section \<open>The invariant of the registry\<close>

definition record_ok :: "string \<Rightarrow> session_record \<Rightarrow> bool" where
  "record_ok i r \<longleftrightarrow>
     sd_id (descriptor_of r) = i \<and> validate_name (sd_name (descriptor_of r)) = Ok () \<and> length (se_attachments r) \<le> 1 \<and>
     (sd_persistence (descriptor_of r) = Ephemeral \<longrightarrow> se_attachments r \<noteq> [])"

definition names_unique :: "(string \<times> session_record) list \<Rightarrow> bool" where
  "names_unique ss \<longleftrightarrow>
     (\<forall>i j r s. map_of ss i = Some r \<longrightarrow> map_of ss j = Some s \<longrightarrow>
        sd_name (descriptor_of r) = sd_name (descriptor_of s) \<longrightarrow> i = j)"

definition in_flight_ok :: "session_registry \<Rightarrow> bool" where
  "in_flight_ok g \<longleftrightarrow>
     (\<forall>i f. map_of (rg_in_flight g) i = Some f \<longrightarrow>
        di_session_id f = i \<and> (\<forall>r. map_of (rg_sessions g) i = Some r \<longrightarrow> sd_persistence (descriptor_of r) = Durable))"

definition reg_inv :: "session_registry \<Rightarrow> bool" where
  "reg_inv g \<longleftrightarrow>
     distinct (map fst (rg_sessions g)) \<and> distinct (map fst (rg_in_flight g)) \<and>
     (\<forall>i r. map_of (rg_sessions g) i = Some r \<longrightarrow> record_ok i r) \<and> names_unique (rg_sessions g) \<and> in_flight_ok g"

lemma reg_invD:
  assumes "reg_inv g"
  shows "distinct (map fst (rg_sessions g))" "distinct (map fst (rg_in_flight g))"
    "map_of (rg_sessions g) i = Some r \<Longrightarrow> record_ok i r" "names_unique (rg_sessions g)" "in_flight_ok g"
  using assms by (auto simp: reg_inv_def)

lemma snapshot_updates [simp]:
  "se_snapshot (map_snapshot f r) = f (se_snapshot r)" "se_attachments (map_snapshot f r) = se_attachments r"
  "sn_descriptor (map_descriptor d s) = d (sn_descriptor s)" "sn_history (map_descriptor d s) = sn_history s"
  by (simp_all add: map_snapshot_def map_descriptor_def)

lemma set_session_simps [simp]:
  "map_of (rg_sessions (set_session i r g)) = (map_of (rg_sessions g))(i \<mapsto> r)"
  "rg_in_flight (set_session i r g) = rg_in_flight g"
  "rg_in_flight (remove_session i g) = rg_in_flight g"
  "map_of (rg_sessions (remove_session i g)) = (map_of (rg_sessions g))(i := None)"
  by (simp_all add: set_session_def remove_session_def update_conv' delete_conv')

lemma distinct_sessions [simp]:
  "distinct (map fst (rg_sessions g)) \<Longrightarrow> distinct (map fst (rg_sessions (set_session i r g)))"
  "distinct (map fst (rg_sessions g)) \<Longrightarrow> distinct (map fst (rg_sessions (remove_session i g)))"
  by (simp_all add: set_session_def remove_session_def distinct_update distinct_delete)

text \<open>A record may be replaced by one with the same identity, name and persistence.\<close>

lemma reg_inv_set_session:
  assumes inv: "reg_inv g" and r: "map_of (rg_sessions g) i = Some r"
    and same: "sd_id (descriptor_of r') = sd_id (descriptor_of r)" "sd_name (descriptor_of r') = sd_name (descriptor_of r)"
      "sd_persistence (descriptor_of r') = sd_persistence (descriptor_of r)"
    and att: "length (se_attachments r') \<le> 1" "sd_persistence (descriptor_of r) = Ephemeral \<Longrightarrow> se_attachments r' \<noteq> []"
  shows "reg_inv (set_session i r' g)"
proof -
  have "record_ok i r'" using reg_invD(3) [OF inv r] same att by (simp add: record_ok_def)
  moreover have "names_unique (rg_sessions (set_session i r' g))"
    using reg_invD(4) [OF inv] r same(2) unfolding names_unique_def set_session_simps by (metis fun_upd_apply option.inject)
  ultimately show ?thesis
    using inv r same(3) by (auto simp: reg_inv_def in_flight_ok_def)
qed

lemma reg_inv_remove_session: "reg_inv g \<Longrightarrow> reg_inv (remove_session i g)"
  by (auto simp: reg_inv_def names_unique_def in_flight_ok_def split: if_splits)

lemma reg_inv_add_session:
  assumes inv: "reg_inv g" and fresh: "map_of (rg_sessions g) i = None" "map_of (rg_in_flight g) i = None"
    and name: "\<And>j s. map_of (rg_sessions g) j = Some s \<Longrightarrow> sd_name (descriptor_of s) \<noteq> sd_name (descriptor_of r)"
    and ok: "record_ok i r"
  shows "reg_inv (set_session i r g)"
proof -
  have "names_unique (rg_sessions (set_session i r g))"
    using reg_invD(4) [OF inv] name unfolding names_unique_def set_session_simps by (metis fun_upd_apply option.inject)
  then show ?thesis using inv fresh ok by (auto simp: reg_inv_def in_flight_ok_def)
qed

lemma reg_inv_drop_in_flight: "reg_inv g \<Longrightarrow> reg_inv (g\<lparr>rg_in_flight := AList.delete i (rg_in_flight g)\<rparr>)"
  by (auto simp: reg_inv_def in_flight_ok_def distinct_delete delete_conv' split: if_splits)

lemma reg_inv_add_in_flight:
  assumes "reg_inv g" "map_of (rg_sessions g) i = Some r" "sd_persistence (descriptor_of r) = Durable" "di_session_id f = i"
  shows "reg_inv (g\<lparr>rg_in_flight := AList.update i f (rg_in_flight g)\<rparr>)"
  using assms by (simp add: reg_inv_def in_flight_ok_def distinct_update update_conv' del: map_of_eq_Some_iff)

lemma persisting_registry: "sh_registry (snd (persisting lib env g a h)) = g"
  by (simp add: persisting_def split: prod.splits sum.splits)

lemma not_named:
  assumes "\<not> list_ex (\<lambda>e. sd_name (descriptor_of (snd e)) = n) ss" "map_of ss j = Some s"
  shows "sd_name (descriptor_of s) \<noteq> n"
  using assms map_of_SomeD [of ss j s] by (fastforce simp: list_ex_iff)

lemma create_session_inv:
  assumes "reg_inv (sh_registry h)" "map_of (rg_sessions (sh_registry h)) (sv_uuid env) = None"
    "map_of (rg_in_flight (sh_registry h)) (sv_uuid env) = None"
  shows "reg_inv (sh_registry (snd (create_session lib env client c h)))"
  using assms
  by (auto simp: create_session_def Let_def persisting_registry new_descriptor_def record_ok_def
      intro!: reg_inv_add_session dest: not_named split: sum.splits)

lemma attach_session_inv:
  assumes "reg_inv (sh_registry h)" "attach_session env client selector wanted h = Some (res, h')"
  shows "reg_inv (sh_registry h')"
proof -
  have "length (se_attachments r) \<le> Suc 0" if "map_of (rg_sessions (sh_registry h)) i = Some r" for i r
    using reg_invD(3) [OF assms(1) that] by (simp add: record_ok_def)
  then show ?thesis
    using assms
    by (auto simp: attach_session_def Let_def split: if_splits sum.splits option.splits intro!: reg_inv_set_session)
qed

lemma detach_inv:
  assumes "reg_inv (sh_registry h)"
  shows "reg_inv (sh_registry (snd (detach lib env client sid h)))"
proof (cases "map_of (rg_sessions (sh_registry h)) sid")
  case (Some r)
  have "length (removeAll client (se_attachments r)) \<le> 1"
    using reg_invD(3) [OF assms Some] le_trans [OF length_removeAll_less_eq] by (auto simp: record_ok_def)
  then show ?thesis using assms Some
    by (auto simp: detach_def Let_def persisting_registry intro!: reg_inv_remove_session reg_inv_set_session)
qed (simp add: detach_def assms)

lemma update_session_inv:
  assumes "reg_inv (sh_registry h)"
  shows "reg_inv (sh_registry (snd (update_session lib env client sid model cwd history h)))"
  using assms reg_invD(3) [OF assms]
  by (auto simp: update_session_def Let_def persisting_registry changed_record_def touched_record_def record_ok_def
      split: sum.splits option.splits intro!: reg_inv_set_session)

lemma update_execution_state_inv:
  assumes "reg_inv (sh_registry h)"
  shows "reg_inv (sh_registry (snd (update_execution_state lib env sid cwd history h)))"
proof -
  have "reg_inv (set_session sid r' (sh_registry h))"
    if "map_of (rg_sessions (sh_registry h)) sid = Some r" "r' = changed_record None cwd' now history r \<or> r' = touched_record None cwd' r"
    for r r' cwd' now
    using that reg_invD(3) [OF assms that(1)]
    by (auto simp: changed_record_def touched_record_def record_ok_def intro!: reg_inv_set_session [OF assms])
  then have "reg_inv (set_session sid (touched_record None cwd' r) (sh_registry h))"
      "reg_inv ((set_session sid (changed_record None cwd' now history r) (sh_registry h))\<lparr>rg_in_flight := AList.delete sid (rg_in_flight (sh_registry h))\<rparr>)"
    if "map_of (rg_sessions (sh_registry h)) sid = Some r" for r cwd' now
    using reg_inv_drop_in_flight [of "set_session sid (changed_record None cwd' now history r) (sh_registry h)" sid] that by auto
  then show ?thesis
    using assms by (auto simp: update_execution_state_def Let_def persisting_registry split: sum.splits option.splits)
qed

lemma begin_execution_inv:
  assumes "reg_inv (sh_registry h)"
  shows "reg_inv (sh_registry (snd (begin_execution lib env sid op route h)))"
proof (cases "map_of (rg_sessions (sh_registry h)) sid")
  case (Some r)
  let ?g = "(sh_registry h)\<lparr>rg_in_flight := AList.update sid \<lparr>di_session_id = sid, di_operation_id = op, di_route = route\<rparr>
    (rg_in_flight (sh_registry h))\<rparr>"
  have "reg_inv ?g" "reg_inv (?g\<lparr>rg_in_flight := AList.delete sid (rg_in_flight ?g)\<rparr>)" if "sd_persistence (descriptor_of r) = Durable"
    using reg_inv_add_in_flight [OF assms Some that] reg_inv_drop_in_flight [of ?g sid] by simp_all
  then show ?thesis using assms Some
    by (auto simp: begin_execution_def Let_def split: prod.splits sum.splits)
qed (simp add: begin_execution_def assms)

lemma finish_execution_inv:
  "reg_inv (sh_registry h) \<Longrightarrow> reg_inv (sh_registry (snd (finish_execution lib env sid op h)))"
  by (auto simp: finish_execution_def Let_def persisting_registry reg_inv_drop_in_flight split: option.splits)

lemma close_session_inv:
  assumes "reg_inv (sh_registry h)" "close_session lib env client selector h = Some (res, h')"
  shows "reg_inv (sh_registry h')"
proof -
  have "sh_registry h' = remove_session i (sh_registry h)" if "persisting lib env (remove_session i (sh_registry h)) i h = (res, h')" for i
    using persisting_registry [of lib env "remove_session i (sh_registry h)" i h] that by simp
  then show ?thesis using assms reg_inv_remove_session [OF assms(1)]
    by (auto simp: close_session_def Let_def split: sum.splits option.splits if_splits)
qed

section \<open>Loading the durable state\<close>

text \<open>The entry a loaded snapshot gets, and what one pass over the snapshots demands of them.\<close>

definition loaded_entry :: "session_env \<Rightarrow> session_registry \<Rightarrow> session_snapshot \<Rightarrow> string \<times> session_record" where
  "loaded_entry env g s =
     (sd_id (sn_descriptor s),
      \<lparr>se_snapshot = adopt g (case sv_cwd env (sd_cwd (sn_descriptor s)) of Inl e \<Rightarrow> [] | Inr cwd \<Rightarrow> cwd) s, se_attachments = []\<rparr>)"

definition loadable :: "session_env \<Rightarrow> session_snapshot \<Rightarrow> bool" where
  "loadable env s \<longleftrightarrow>
     validate_name (sd_name (sn_descriptor s)) = Ok () \<and> sd_persistence (sn_descriptor s) = Durable \<and>
     (\<exists>cwd. sv_cwd env (sd_cwd (sn_descriptor s)) = Ok cwd)"

abbreviation snapshot_names :: "session_snapshot list \<Rightarrow> string list" where
  "snapshot_names ss \<equiv> map (\<lambda>s. sd_name (sn_descriptor s)) ss"

abbreviation snapshot_ids :: "session_snapshot list \<Rightarrow> string list" where
  "snapshot_ids ss \<equiv> map (\<lambda>s. sd_id (sn_descriptor s)) ss"

lemma update_fresh: "map_of al k = None \<Longrightarrow> AList.update k v al = al @ [(k, v)]"
  by (induction al) (auto split: if_splits)

lemma loaded_entry_update [simp]: "loaded_entry env (g\<lparr>rg_sessions := x\<rparr>) s = loaded_entry env g s"
  by (simp add: loaded_entry_def adopt_def)

lemma load_sessions_iff:
  "load_sessions env g names ss = Ok g' \<longleftrightarrow>
     list_all (loadable env) ss \<and> distinct (snapshot_names ss) \<and> set (snapshot_names ss) \<inter> set names = {} \<and>
     distinct (snapshot_ids ss) \<and> (\<forall>i \<in> set (snapshot_ids ss). map_of (rg_sessions g) i = None) \<and>
     g' = g\<lparr>rg_sessions := rg_sessions g @ map (loaded_entry env g) ss\<rparr>"
proof (induction ss arbitrary: g names)
  case (Cons s ss)
  let ?d = "sn_descriptor s"
  let ?step = "g\<lparr>rg_sessions := rg_sessions g @ [loaded_entry env g s]\<rparr>"
  have step: "load_sessions env g names (s # ss) = Ok g' \<longleftrightarrow>
      loadable env s \<and> sd_name ?d \<notin> set names \<and> map_of (rg_sessions g) (sd_id ?d) = None \<and>
      load_sessions env ?step (sd_name ?d # names) ss = Ok g'"
    by (cases "map_of (rg_sessions g) (sd_id ?d) = None")
      (auto simp: Let_def loadable_def loaded_entry_def update_fresh split: sum.splits if_splits)
  have fst_entry: "fst (loaded_entry env g s) = sd_id ?d" by (simp add: loaded_entry_def)
  have fresh: "map_of (rg_sessions ?step) i = None \<longleftrightarrow> map_of (rg_sessions g) i = None \<and> i \<noteq> sd_id ?d" for i
    using fst_entry by (cases "loaded_entry env g s") (auto simp: map_add_def split: option.splits)
  show ?case unfolding step Cons.IH fresh by (auto simp: image_iff)
qed auto

lemma recover_in_flight_known:
  "recover_in_flight g is' = Ok g' \<Longrightarrow> f \<in> set is' \<Longrightarrow> map_of (rg_sessions g) (di_session_id f) \<noteq> None"
proof (induction is' arbitrary: g)
  case (Cons i is')
  show ?case
  proof (cases "map_of (rg_sessions g) (di_session_id i)")
    case (Some r)
    then show ?thesis using Cons.IH [of "g\<lparr>rg_sessions := AList.update (di_session_id i) (recover_record i r) (rg_sessions g)\<rparr>"] Cons.prems
      by (auto simp: update_conv' split: if_splits)
  qed (use Cons.prems in simp)
qed simp

lemma list_all_loadableD:
  assumes "list_all (loadable env) ss" "map_of (map (loaded_entry env g) ss) i = Some r"
  obtains s cwd where "s \<in> set ss" "loadable env s" "sd_id (sn_descriptor s) = i" "r = \<lparr>se_snapshot = adopt g cwd s, se_attachments = []\<rparr>"
    "sd_name (descriptor_of r) = sd_name (sn_descriptor s)"
  using assms map_of_SomeD [OF assms(2)] by (auto simp: loaded_entry_def list_all_iff adopt_def)

lemma map_of_loaded_eq:
  assumes "distinct (snapshot_ids ss)" "s \<in> set ss"
  shows "map_of (map (loaded_entry env g) ss) (sd_id (sn_descriptor s)) = Some (snd (loaded_entry env g s))"
  using assms by (induction ss) (force simp: loaded_entry_def image_iff)+

lemma load_sessions_inv:
  assumes "load_sessions env g [] ss = Ok g'" "rg_sessions g = []" "rg_in_flight g = []"
  shows "reg_inv g'"
proof -
  from assms(1,2) have l: "list_all (loadable env) ss" "distinct (snapshot_names ss)" "distinct (snapshot_ids ss)"
    and g': "g' = g\<lparr>rg_sessions := map (loaded_entry env g) ss\<rparr>"
    by (auto simp: load_sessions_iff)
  have key: "map fst (map (loaded_entry env g) ss) = snapshot_ids ss" by (simp add: loaded_entry_def)
  have "record_ok i r" if r: "map_of (map (loaded_entry env g) ss) i = Some r" for i r
  proof -
    obtain s cwd where "loadable env s" "sd_id (sn_descriptor s) = i" "r = \<lparr>se_snapshot = adopt g cwd s, se_attachments = []\<rparr>"
      by (rule list_all_loadableD [OF l(1) r])
    then show ?thesis by (auto simp: record_ok_def adopt_def loadable_def)
  qed
  moreover have "names_unique (map (loaded_entry env g) ss)"
    unfolding names_unique_def
  proof (intro allI impI)
    fix i j r s
    assume a: "map_of (map (loaded_entry env g) ss) i = Some r" "map_of (map (loaded_entry env g) ss) j = Some s"
      "sd_name (descriptor_of r) = sd_name (descriptor_of s)"
    obtain t where "t \<in> set ss" "sd_id (sn_descriptor t) = i" "sd_name (descriptor_of r) = sd_name (sn_descriptor t)"
      by (rule list_all_loadableD [OF l(1) a(1)])
    moreover obtain u where "u \<in> set ss" "sd_id (sn_descriptor u) = j" "sd_name (descriptor_of s) = sd_name (sn_descriptor u)"
      by (rule list_all_loadableD [OF l(1) a(2)])
    moreover have "inj_on (\<lambda>s. sd_name (sn_descriptor s)) (set ss)" using l(2) by (simp add: distinct_map)
    ultimately have "t = u" using a(3) by (simp add: inj_on_def)
    then show "i = j" using \<open>sd_id (sn_descriptor t) = i\<close> \<open>sd_id (sn_descriptor u) = j\<close> by simp
  qed
  ultimately show ?thesis using l(3) key by (simp add: g' reg_inv_def in_flight_ok_def assms(3) del: map_map)
qed

lemma recover_in_flight_inv: "reg_inv g \<Longrightarrow> recover_in_flight g is' = Ok g' \<Longrightarrow> reg_inv g'"
proof (induction is' arbitrary: g)
  case (Cons i is')
  from Cons.prems(2) obtain r where r: "map_of (rg_sessions g) (di_session_id i) = Some r"
    and rest: "recover_in_flight (set_session (di_session_id i) (recover_record i r) g) is' = Ok g'"
    by (auto simp: set_session_def split: option.splits)
  have "reg_inv (set_session (di_session_id i) (recover_record i r) g)"
    using reg_invD(3) [OF Cons.prems(1) r]
    by (intro reg_inv_set_session [OF Cons.prems(1) r]) (auto simp: recover_record_def record_ok_def)
  from Cons.IH [OF this rest] show ?case .
qed simp

lemma load_inv:
  assumes "load lib env host_id host_alias user st = (Ok g, st')"
  shows "reg_inv g"
proof -
  let ?fresh = "\<lparr>rg_host_id = host_id, rg_host_alias = host_alias, rg_user = user, rg_sessions = [], rg_in_flight = []\<rparr>"
  have "reg_inv ?fresh" by (simp add: reg_inv_def names_unique_def in_flight_ok_def)
  moreover have "reg_inv g'" if "load_sessions env ?fresh [] ss = Ok g''" "recover_in_flight g'' is' = Ok g'" for ss is' g' g''
    using load_sessions_inv [OF that(1)] recover_in_flight_inv [OF _ that(2)] by simp
  moreover have "reg_inv g'" if "load_sessions env ?fresh [] ss = Ok g'" for ss g'
    using load_sessions_inv [OF that] by simp
  ultimately show ?thesis
    using assms by (auto simp: load_def Let_def split: sum.splits option.splits if_splits prod.splits)
qed

section \<open>The life of a daemon\<close>

text \<open>
  One request at a time changes the registry, each under the daemon's lock: the operations are the
  steps, with any client, any arguments and any answer of the operating system. A random identifier
  is one that no session and no operation in flight has.
\<close>

definition fresh_uuid :: "session_env \<Rightarrow> session_registry \<Rightarrow> bool" where
  "fresh_uuid env g \<longleftrightarrow> sv_uuid env \<notin> fst ` set (rg_sessions g) \<and> sv_uuid env \<notin> fst ` set (rg_in_flight g)"

inductive registry_step :: "session_lib \<Rightarrow> session_host \<Rightarrow> session_host \<Rightarrow> bool" for lib where
  step_create: "fresh_uuid env (sh_registry h) \<Longrightarrow> registry_step lib h (snd (create_session lib env client c h))"
| step_attach: "attach_session env client selector wanted h = Some (res, h') \<Longrightarrow> registry_step lib h h'"
| step_detach: "registry_step lib h (snd (detach lib env client sid h))"
| step_update: "registry_step lib h (snd (update_session lib env client sid model cwd history h))"
| step_begin: "registry_step lib h (snd (begin_execution lib env sid op route h))"
| step_finish: "registry_step lib h (snd (finish_execution lib env sid op h))"
| step_terminal: "registry_step lib h (snd (update_execution_state lib env sid cwd history h))"
| step_close: "close_session lib env client selector h = Some (res, h') \<Longrightarrow> registry_step lib h h'"

inductive registry_reachable :: "session_lib \<Rightarrow> session_host \<Rightarrow> bool" for lib where
  started: "load lib env host_id host_alias user st = (Ok g, st') \<Longrightarrow> registry_reachable lib \<lparr>sh_registry = g, sh_store = st'\<rparr>"
| stepped: "registry_reachable lib h \<Longrightarrow> registry_step lib h h' \<Longrightarrow> registry_reachable lib h'"

lemma registry_step_inv: "registry_step lib h h' \<Longrightarrow> reg_inv (sh_registry h) \<Longrightarrow> reg_inv (sh_registry h')"
proof (induction rule: registry_step.induct)
  case (step_create env h client c)
  then show ?case by (intro create_session_inv) (auto simp: fresh_uuid_def map_of_eq_None_iff)
qed (auto intro: attach_session_inv detach_inv update_session_inv begin_execution_inv finish_execution_inv
    update_execution_state_inv close_session_inv)

lemma reachable_inv: "registry_reachable lib h \<Longrightarrow> reg_inv (sh_registry h)"
  by (induction rule: registry_reachable.induct) (auto intro: load_inv registry_step_inv)

lemma resolve_known: "resolve g selector = Ok i \<Longrightarrow> \<exists>r. map_of (rg_sessions g) i = Some r"
proof -
  assume a: "resolve g selector = Ok i"
  show "\<exists>r. map_of (rg_sessions g) i = Some r"
  proof (cases "map_of (rg_sessions g) selector")
    case None
    with a have "map fst (filter (\<lambda>e. sd_name (descriptor_of (snd e)) = selector) (rg_sessions g)) = [i]"
      by (auto simp: resolve_def split: list.splits)
    then have "i \<in> set (map fst (filter (\<lambda>e. sd_name (descriptor_of (snd e)) = selector) (rg_sessions g)))" by simp
    then have "i \<in> fst ` set (rg_sessions g)" by auto
    then show ?thesis using map_of_eq_None_iff [of "rg_sessions g" i] by auto
  qed (use a in \<open>auto simp: resolve_def\<close>)
qed

section \<open>Restarting\<close>

text \<open>
  What a restart promises: the durable sessions and no others, detached and idle on the host that
  loads them, each history ending with a note about the operation that was interrupted, if one was.
\<close>

definition restarted :: "string \<Rightarrow> string \<Rightarrow> string \<Rightarrow> session_registry \<Rightarrow> string \<Rightarrow> session_record option" where
  "restarted host_id host_alias user g i =
     (case map_of (rg_sessions g) i of
        None \<Rightarrow> None
      | Some r \<Rightarrow>
          if sd_persistence (descriptor_of r) \<noteq> Durable then None
          else Some \<lparr>se_snapshot =
                 \<lparr>sn_descriptor = (descriptor_of r)\<lparr>sd_host_id := host_id, sd_host_alias := host_alias, sd_user := user,
                    sd_status := Detached, sd_activity := Idle, sd_attached_clients := 0\<rparr>,
                  sn_history = (case map_of (rg_in_flight g) i of
                                  None \<Rightarrow> sn_history (se_snapshot r)
                                | Some f \<Rightarrow> recovered f (sn_history (se_snapshot r)))\<rparr>,
               se_attachments = []\<rparr>)"

lemma distinct_map_sort_key: "distinct (map f (sort_key k xs)) \<longleftrightarrow> distinct (map f xs)"
  by (simp add: distinct_map)

abbreviation is_durable :: "string \<times> session_record \<Rightarrow> bool" where
  "is_durable e \<equiv> sd_persistence (descriptor_of (snd e)) = Durable"

lemma durable_sessions:
  assumes "reg_inv g"
  defines "ss \<equiv> ds_sessions (durable_state_of g)"
  shows "distinct (snapshot_names ss)" "distinct (snapshot_ids ss)"
    "s \<in> set ss \<longleftrightarrow> (\<exists>i r. map_of (rg_sessions g) i = Some r \<and> sd_persistence (descriptor_of r) = Durable \<and> s = durable_snapshot r)"
proof -
  let ?D = "filter is_durable (rg_sessions g)"
  have d: "distinct (map fst ?D)" using reg_invD(1) [OF assms(1)] by (rule distinct_map_filter)
  have entry: "map_of (rg_sessions g) (fst e) = Some (snd e)" if "e \<in> set ?D" for e
    using that reg_invD(1) [OF assms(1)] by (simp add: map_of_is_SomeI)
  have "sd_id (descriptor_of (snd e)) = fst e" if "e \<in> set ?D" for e
    using reg_invD(3) [OF assms(1) entry [OF that]] by (simp add: record_ok_def)
  then have ids: "map (\<lambda>e. sd_id (descriptor_of (snd e))) ?D = map fst ?D" by simp
  have "inj_on (\<lambda>e. sd_name (descriptor_of (snd e))) (set ?D)"
    using reg_invD(4) [OF assms(1)] entry unfolding names_unique_def inj_on_def by (metis option.inject prod_eqI)
  moreover have "distinct ?D" using d by (simp add: distinct_map)
  ultimately have names: "distinct (map (\<lambda>e. sd_name (descriptor_of (snd e))) ?D)" by (simp add: distinct_map)
  show "distinct (snapshot_names ss)" "distinct (snapshot_ids ss)"
    using names d [folded ids] by (simp_all add: ss_def durable_state_of_def distinct_map_sort_key durable_snapshot_def comp_def)
  show "s \<in> set ss \<longleftrightarrow> (\<exists>i r. map_of (rg_sessions g) i = Some r \<and> sd_persistence (descriptor_of r) = Durable \<and> s = durable_snapshot r)"
    using reg_invD(1) [OF assms(1)] by (force simp: ss_def durable_state_of_def)
qed

lemma durable_ids:
  assumes "reg_inv g" "i \<in> set (snapshot_ids (ds_sessions (durable_state_of g)))"
  shows "map_of (rg_sessions g) i \<noteq> None"
proof -
  from assms(2) obtain s where s: "s \<in> set (ds_sessions (durable_state_of g))" "i = sd_id (sn_descriptor s)" by auto
  from s(1) obtain j r where "map_of (rg_sessions g) j = Some r" "s = durable_snapshot r"
    unfolding durable_sessions(3) [OF assms(1)] by blast
  with s(2) show ?thesis using reg_invD(3) [OF assms(1)] by (auto simp: record_ok_def durable_snapshot_def)
qed

lemma durable_in_flight_operations:
  assumes "reg_inv g"
  defines "is' \<equiv> ds_in_flight (durable_state_of g)"
  shows "distinct (map di_session_id is')" "map_of (map (\<lambda>f. (di_session_id f, f)) is') = map_of (rg_in_flight g)"
    "f \<in> set is' \<Longrightarrow> map_of (rg_in_flight g) (di_session_id f) = Some f"
proof -
  have di: "di_session_id (snd e) = fst e" if "e \<in> set (rg_in_flight g)" for e
    using reg_invD(5) [OF assms(1)] reg_invD(2) [OF assms(1)] that
    unfolding in_flight_ok_def by (metis map_of_eq_Some_iff prod.collapse)
  then have key: "map (\<lambda>e. (di_session_id (snd e), snd e)) (rg_in_flight g) = rg_in_flight g"
    and ids: "map (\<lambda>e. di_session_id (snd e)) (rg_in_flight g) = map fst (rg_in_flight g)"
    by (simp_all add: map_idI)
  show "f \<in> set is' \<Longrightarrow> map_of (rg_in_flight g) (di_session_id f) = Some f"
    using di reg_invD(2) [OF assms(1)] by (fastforce simp: is'_def durable_state_of_def)
  show d: "distinct (map di_session_id is')"
    using reg_invD(2) [OF assms(1)] unfolding ids [symmetric] by (simp add: is'_def durable_state_of_def distinct_map_sort_key comp_def)
  have "set (map (\<lambda>f. (di_session_id f, f)) is') = set (rg_in_flight g)"
    using arg_cong [OF key, of set] by (simp add: is'_def durable_state_of_def image_image)
  then show "map_of (map (\<lambda>f. (di_session_id f, f)) is') = map_of (rg_in_flight g)"
    using d reg_invD(2) [OF assms(1)] by (subst map_of_inject_set) (simp_all add: comp_def)
qed

lemma recover_in_flight_all:
  assumes "distinct (map di_session_id is')" "\<And>f. f \<in> set is' \<Longrightarrow> map_of (rg_sessions g) (di_session_id f) \<noteq> None"
  shows "\<exists>g'. recover_in_flight g is' = Ok g' \<and> rg_in_flight g' = rg_in_flight g \<and>
    (\<forall>i. map_of (rg_sessions g') i =
       (case map_of (map (\<lambda>f. (di_session_id f, f)) is') i of
          None \<Rightarrow> map_of (rg_sessions g) i | Some f \<Rightarrow> map_option (recover_record f) (map_of (rg_sessions g) i)))"
  using assms
proof (induction is' arbitrary: g)
  case (Cons f is')
  obtain r where r: "map_of (rg_sessions g) (di_session_id f) = Some r" using Cons.prems(2) [of f] by auto
  let ?g = "g\<lparr>rg_sessions := AList.update (di_session_id f) (recover_record f r) (rg_sessions g)\<rparr>"
  have upd: "map_of (rg_sessions ?g) = (map_of (rg_sessions g))(di_session_id f \<mapsto> recover_record f r)" by (simp add: update_conv')
  have "map_of (rg_sessions ?g) (di_session_id f') \<noteq> None" if "f' \<in> set is'" for f'
    using Cons.prems(2) [of f'] that unfolding upd by simp
  from Cons.IH [OF _ this] Cons.prems(1) obtain g' where g': "recover_in_flight ?g is' = Ok g'" "rg_in_flight g' = rg_in_flight ?g"
    "\<And>i. map_of (rg_sessions g') i =
       (case map_of (map (\<lambda>f. (di_session_id f, f)) is') i of
          None \<Rightarrow> map_of (rg_sessions ?g) i | Some f \<Rightarrow> map_option (recover_record f) (map_of (rg_sessions ?g) i))" by auto
  have "map_of (map (\<lambda>f. (di_session_id f, f)) is') (di_session_id f) = None"
    using Cons.prems(1) by (auto simp: map_of_eq_None_iff image_image)
  with g' r show ?case unfolding upd by (intro exI [of _ g']) (auto split: option.splits)
qed simp

lemma load_sessions_durable:
  assumes inv: "reg_inv g" and fresh: "rg_sessions g0 = []" "rg_in_flight g0 = []"
    and dirs: "\<And>i r. map_of (rg_sessions g) i = Some r \<Longrightarrow> sd_persistence (descriptor_of r) = Durable \<Longrightarrow>
      sv_cwd env (sd_cwd (descriptor_of r)) = Ok (sd_cwd (descriptor_of r))"
  shows "\<exists>g'. load_sessions env g0 [] (ds_sessions (durable_state_of g)) = Ok g' \<and> rg_in_flight g' = [] \<and>
    (\<forall>i. map_of (rg_sessions g') i =
       (case map_of (rg_sessions g) i of None \<Rightarrow> None
        | Some r \<Rightarrow> if sd_persistence (descriptor_of r) \<noteq> Durable then None
                    else Some \<lparr>se_snapshot = adopt g0 (sd_cwd (descriptor_of r)) (durable_snapshot r), se_attachments = []\<rparr>))"
proof -
  let ?ss = "ds_sessions (durable_state_of g)"
  let ?g = "g0\<lparr>rg_sessions := map (loaded_entry env g0) ?ss\<rparr>"
  note ss = durable_sessions [OF inv]
  have "list_all (loadable env) ?ss"
    using reg_invD(3) [OF inv] dirs by (auto simp: list_all_iff ss(3) loadable_def record_ok_def durable_snapshot_def)
  then have ok: "load_sessions env g0 [] ?ss = Ok ?g" using ss(1,2) fresh by (simp add: load_sessions_iff)
  have "map_of (rg_sessions ?g) i =
       (case map_of (rg_sessions g) i of None \<Rightarrow> None
        | Some r \<Rightarrow> if sd_persistence (descriptor_of r) \<noteq> Durable then None
                    else Some \<lparr>se_snapshot = adopt g0 (sd_cwd (descriptor_of r)) (durable_snapshot r), se_attachments = []\<rparr>)" for i
  proof (cases "\<exists>r. map_of (rg_sessions g) i = Some r \<and> sd_persistence (descriptor_of r) = Durable")
    case True
    then obtain r where r: "map_of (rg_sessions g) i = Some r" "sd_persistence (descriptor_of r) = Durable" by blast
    have "sd_id (sn_descriptor (durable_snapshot r)) = i"
      using reg_invD(3) [OF inv r(1)] by (simp add: record_ok_def durable_snapshot_def)
    moreover have "durable_snapshot r \<in> set ?ss" using ss(3) r by blast
    ultimately have "map_of (rg_sessions ?g) i = Some (snd (loaded_entry env g0 (durable_snapshot r)))"
      using map_of_loaded_eq [OF ss(2)] by force
    then show ?thesis using r dirs [OF r] by (simp add: loaded_entry_def) (simp add: durable_snapshot_def)
  next
    case False
    have "i \<notin> set (snapshot_ids ?ss)"
      using False reg_invD(3) [OF inv] by (auto simp: ss(3) durable_snapshot_def record_ok_def)
    then have "map_of (rg_sessions ?g) i = None" by (auto simp: map_of_eq_None_iff loaded_entry_def)
    then show ?thesis using False by (auto split: option.splits)
  qed
  then show ?thesis using ok fresh by (intro exI [of _ ?g]) simp
qed

lemma persist_succeeds:
  "sv_fault env = None \<Longrightarrow> sb_encode lib (durable_state_of g) = Ok x \<Longrightarrow>
   persist lib env g st = (Ok (), st\<lparr>ss_temporary := None, ss_final := Some x\<rparr>)"
  by (simp add: persist_def)

text \<open>
  C22. Restart. When the state file holds what the last write printed, a daemon that starts again on
  it comes up, provided the working directories still exist and every operation in flight belongs to
  a session; it then has exactly the durable sessions, as \<open>restarted\<close> describes them, and nothing in
  flight.
\<close>

theorem restart_recovers_durable_sessions:
  assumes "registry_reachable lib h"
    and written: "ss_final (sh_store h) = Some e" "sb_decode lib e = Ok (durable_state_of (sh_registry h))"
    and env: "sv_directory env = Ok ()" "sv_read_fault env = None" "sv_fault env = None" "\<And>s. \<exists>x. sb_encode lib s = Ok x"
    and dirs: "\<And>i r. map_of (rg_sessions (sh_registry h)) i = Some r \<Longrightarrow> sd_persistence (descriptor_of r) = Durable \<Longrightarrow>
      sv_cwd env (sd_cwd (descriptor_of r)) = Ok (sd_cwd (descriptor_of r))"
    and known: "\<And>i f. map_of (rg_in_flight (sh_registry h)) i = Some f \<Longrightarrow> map_of (rg_sessions (sh_registry h)) i \<noteq> None"
  shows "\<exists>g st. load lib env host_id host_alias user (sh_store h) = (Ok g, st) \<and>
    map_of (rg_sessions g) = restarted host_id host_alias user (sh_registry h) \<and> rg_in_flight g = []"
proof -
  let ?g = "sh_registry h"
  let ?fresh = "\<lparr>rg_host_id = host_id, rg_host_alias = host_alias, rg_user = user, rg_sessions = [], rg_in_flight = []\<rparr>"
  have inv: "reg_inv ?g" by (rule reachable_inv [OF assms(1)])
  note ops = durable_in_flight_operations [OF inv]
  obtain g1 where g1: "load_sessions env ?fresh [] (ds_sessions (durable_state_of ?g)) = Ok g1" "rg_in_flight g1 = []"
    "\<And>i. map_of (rg_sessions g1) i =
       (case map_of (rg_sessions ?g) i of None \<Rightarrow> None
        | Some r \<Rightarrow> if sd_persistence (descriptor_of r) \<noteq> Durable then None
                    else Some \<lparr>se_snapshot = adopt ?fresh (sd_cwd (descriptor_of r)) (durable_snapshot r), se_attachments = []\<rparr>)"
    using load_sessions_durable [OF inv, of ?fresh env] dirs by auto
  have "map_of (rg_sessions g1) (di_session_id f) \<noteq> None" if "f \<in> set (ds_in_flight (durable_state_of ?g))" for f
  proof -
    have "map_of (rg_in_flight ?g) (di_session_id f) = Some f"
      using that by (rule ops(3))
    moreover from this obtain r where r: "map_of (rg_sessions ?g) (di_session_id f) = Some r" using known by blast
    ultimately have "sd_persistence (descriptor_of r) = Durable" using reg_invD(5) [OF inv] unfolding in_flight_ok_def by blast
    then show ?thesis unfolding g1(3) r by simp
  qed
  from recover_in_flight_all [OF ops(1) this] obtain g2 where g2: "recover_in_flight g1 (ds_in_flight (durable_state_of ?g)) = Ok g2"
    "rg_in_flight g2 = []" "\<And>i. map_of (rg_sessions g2) i =
       (case map_of (rg_in_flight ?g) i of
          None \<Rightarrow> map_of (rg_sessions g1) i | Some f \<Rightarrow> map_option (recover_record f) (map_of (rg_sessions g1) i))"
    using g1(2) ops(2) by auto
  have "map_of (rg_sessions g2) = restarted host_id host_alias user ?g"
    by (rule ext) (simp add: g2(3) g1(3) restarted_def adopt_def durable_snapshot_def recover_record_def map_snapshot_def
        map_descriptor_def split: option.splits)
  moreover obtain x where "sb_encode lib (durable_state_of g2) = Ok x" using env(4) by blast
  moreover have "read_state lib env e = Ok (durable_state_of ?g)"
    using written(2) env(2) by (simp add: read_state_def durable_state_of_def)
  ultimately show ?thesis
    using g1(1) g2(1,2) written(1) env(1) persist_succeeds [OF env(3), of lib g2] by (simp add: load_def Let_def)
qed

section \<open>Controllers\<close>

text \<open>
  C21. The registry of a daemon stays consistent, from the state it loads on and through every
  sequence of requests, whatever the operating system answers and whether or not the state could be
  written: identifiers and names are unique and names valid, a session has at most one controller,
  an ephemeral session always has one, and only durable sessions have an operation in flight.
\<close>

theorem registry_stays_consistent:
  assumes "registry_reachable lib h"
  shows "reg_inv (sh_registry h)"
  using assms by (rule reachable_inv)

lemma resolve_id: "map_of (rg_sessions g) i = Some r \<Longrightarrow> resolve g i = Ok i"
  by (simp add: resolve_def)

lemma attach_session_Ok:
  assumes "attach_session env client selector wanted h = Some (Ok s, h')"
  obtains i r now where "map_of (rg_sessions (sh_registry h)) i = Some r" "se_attachments r = [] \<or> client \<in> set (se_attachments r)"
    "s = snapshot_with_status (map_snapshot (map_descriptor (\<lambda>d. d\<lparr>sd_last_active_at := now\<rparr>))
       (r\<lparr>se_attachments := List.insert client (se_attachments r)\<rparr>))"
    "h' = h\<lparr>sh_registry := set_session i (map_snapshot (map_descriptor (\<lambda>d. d\<lparr>sd_last_active_at := now\<rparr>))
       (r\<lparr>se_attachments := List.insert client (se_attachments r)\<rparr>)) (sh_registry h)\<rparr>"
  using assms by (auto simp: attach_session_def Let_def simp del: in_set_insert not_in_set_insert split: if_splits sum.splits option.splits)

lemma one_attachment:
  assumes "record_ok i r" "se_attachments r = [] \<or> client \<in> set (se_attachments r)"
  shows "List.insert client (se_attachments r) = [client]"
  using assms by (cases "se_attachments r") (auto simp: record_ok_def)

text \<open>
  C40. One controller at a time. The client whose attach to a session succeeds is its only controller
  afterwards, and in that state every other client is refused: it can neither attach to the
  session, nor change it, nor close it, and the attempt leaves the daemon as it was.
\<close>

theorem attached_client_is_sole_controller:
  assumes "registry_reachable lib h" "attach_session env client selector Owner h = Some (Ok s, h')" "other \<noteq> client"
  shows "\<exists>r e1 e2 e3. map_of (rg_sessions (sh_registry h')) (sd_id (sn_descriptor s)) = Some r \<and> se_attachments r = [client] \<and>
    attach_session env' other (sd_id (sn_descriptor s)) Owner h' = Some (Err e1, h') \<and>
    close_session lib env' other (sd_id (sn_descriptor s)) h' = Some (Err e2, h') \<and>
    update_session lib env' other (sd_id (sn_descriptor s)) model cwd history h' = (Err e3, h')"
proof -
  obtain i r now where r: "map_of (rg_sessions (sh_registry h)) i = Some r" "se_attachments r = [] \<or> client \<in> set (se_attachments r)"
    and s: "s = snapshot_with_status (map_snapshot (map_descriptor (\<lambda>d. d\<lparr>sd_last_active_at := now\<rparr>))
       (r\<lparr>se_attachments := List.insert client (se_attachments r)\<rparr>))"
    and h': "h' = h\<lparr>sh_registry := set_session i (map_snapshot (map_descriptor (\<lambda>d. d\<lparr>sd_last_active_at := now\<rparr>))
       (r\<lparr>se_attachments := List.insert client (se_attachments r)\<rparr>)) (sh_registry h)\<rparr>"
    by (rule attach_session_Ok [OF assms(2)])
  have ok: "record_ok i r" by (rule reg_invD(3) [OF reachable_inv [OF assms(1)] r(1)])
  let ?r = "map_snapshot (map_descriptor (\<lambda>d. d\<lparr>sd_last_active_at := now\<rparr>)) (r\<lparr>se_attachments := [client]\<rparr>)"
  have i: "sd_id (sn_descriptor s) = i"
    using ok by (simp add: s snapshot_with_status_def descriptor_with_status_def record_ok_def)
  have m: "map_of (rg_sessions (sh_registry h')) i = Some ?r" by (simp add: h' one_attachment [OF ok r(2)])
  have a: "se_attachments ?r = [client]" by simp
  show ?thesis
    unfolding i using m assms(3) resolve_id [OF m] a
    by (simp add: attach_session_def close_session_def update_session_def Let_def split: sum.splits)
qed

lemma close_session_Ok:
  assumes "close_session lib env client selector h = Some (Ok i, h')"
  shows "persisting lib env (remove_session i (sh_registry h)) i h = (Ok i, h')"
proof -
  have "b = a" if "persisting lib env g a h = (Ok b, h')" for a b :: string and g
    using that by (auto simp: persisting_def split: prod.splits sum.splits)
  with assms show ?thesis by (auto simp: close_session_def Let_def split: sum.splits option.splits if_splits)
qed

text \<open>
  A session that is closed while an operation of it is in flight leaves the operation behind in
  the state file. The turn that then ends is refused as one of an unknown session and leaves it
  there too, and every later start of the daemon on that file fails, whatever the operating system
  answers, and leaves the file as it is.
\<close>

theorem closing_busy_session_blocks_restart:
  assumes "registry_reachable lib h" "map_of (rg_in_flight (sh_registry h)) i = Some f"
    and "close_session lib env client selector h = Some (Ok i, h')"
    and law: "\<And>s x. sb_encode lib s = Ok x \<Longrightarrow> sb_decode lib x = Ok s"
  shows "\<exists>e e'. fst (update_execution_state lib env' i cwd history h') = Err e \<and> snd (update_execution_state lib env' i cwd history h') = h' \<and>
    load lib env'' host_id host_alias user (sh_store h') = (Err e', sh_store h')"
proof -
  have inv: "reg_inv (sh_registry h)" by (rule reachable_inv [OF assms(1)])
  have p: "persisting lib env (remove_session i (sh_registry h)) i h = (Ok i, h')" by (rule close_session_Ok [OF assms(3)])
  have g': "sh_registry h' = remove_session i (sh_registry h)"
    using persisting_registry [of lib env "remove_session i (sh_registry h)" i h] p by simp
  from p obtain x where x: "sb_encode lib (durable_state_of (sh_registry h')) = Ok x" "ss_final (sh_store h') = Some x"
    by (auto simp: persisting_def persist_def g' split: prod.splits sum.splits option.splits persist_fault.splits)
  have inv': "reg_inv (sh_registry h')" unfolding g' by (rule reg_inv_remove_session [OF inv])
  have f: "f \<in> set (ds_in_flight (durable_state_of (sh_registry h')))" "di_session_id f = i"
    using assms(2) reg_invD(5) [OF inv] by (auto simp: durable_state_of_def g' in_flight_ok_def dest!: map_of_SomeD intro: rev_image_eqI)
  have "recover_in_flight g (ds_in_flight (durable_state_of (sh_registry h'))) \<noteq> Ok g''"
    if l: "load_sessions env'' fresh [] (ds_sessions (durable_state_of (sh_registry h'))) = Ok g" "rg_sessions fresh = []" for fresh g g''
  proof
    assume "recover_in_flight g (ds_in_flight (durable_state_of (sh_registry h'))) = Ok g''"
    from recover_in_flight_known [OF this f(1)] have "map_of (rg_sessions g) i \<noteq> None" by (simp add: f(2))
    then have "i \<in> set (snapshot_ids (ds_sessions (durable_state_of (sh_registry h'))))"
      using l by (auto simp: load_sessions_iff map_of_eq_None_iff loaded_entry_def)
    from durable_ids [OF inv' this] show False by (simp add: g')
  qed
  then have "\<exists>e'. load lib env'' host_id host_alias user (sh_store h') = (Err e', sh_store h')"
    using x(2) law [OF x(1)]
    by (auto simp: load_def read_state_def Let_def split: sum.splits option.splits if_splits prod.splits)
  moreover have "map_of (rg_sessions (sh_registry h')) i = None" by (simp add: g')
  ultimately show ?thesis by (auto simp: update_execution_state_def Let_def split: sum.splits)
qed

text \<open>
  A durable session whose working directory disappears during a turn refuses every later turn.
  The terminal update of the turn fails on the directory before it clears the operation in flight,
  and from then on no new operation of the session can begin, whatever the operating system answers,
  although no turn is running.
\<close>

theorem lost_directory_wedges_session:
  assumes "map_of (rg_sessions (sh_registry h)) i = Some r" "sd_persistence (descriptor_of r) = Durable"
    and "begin_execution lib env i op route h = (Ok (), h')"
    and "sv_cwd env' cwd = Err e"
  shows "update_execution_state lib env' i cwd history h' = (Err e, h') \<and>
    (\<exists>refusal. begin_execution lib env'' i op' route' h' = (Err refusal, h'))"
proof -
  have "map_of (rg_sessions (sh_registry h')) i = Some r" "map_of (rg_in_flight (sh_registry h')) i \<noteq> None"
    using assms(1-3) by (auto simp: begin_execution_def Let_def update_conv' split: if_splits prod.splits sum.splits)
  then show ?thesis using assms(2,4) by (simp add: update_execution_state_def begin_execution_def)
qed

section \<open>A daemon with one session\<close>

definition demo_binding :: model_binding where
  "demo_binding = \<lparr>md_profile_name = None, md_provider = ''p'', md_model = ''m'', md_base_url = ''u'', md_api_key_env = None,
     md_max_history_bytes = None, md_context_tokens = None, md_reserve_output_tokens = None\<rparr>"

definition demo_creation :: "persistence_mode \<Rightarrow> session_creation" where
  "demo_creation p = \<lparr>sc_name = ''w'', sc_model = demo_binding, sc_cwd = ''/'', sc_persistence = p, sc_visibility = HostOnly,
     sc_history = []\<rparr>"

definition demo_session_env :: session_env where
  "demo_session_env = \<lparr>sv_now = Ok 5, sv_uuid = ''i'', sv_cwd = Ok, sv_fault = None, sv_directory = Ok (), sv_read_fault = None\<rparr>"

definition demo_snapshot :: session_snapshot where
  "demo_snapshot =
     \<lparr>sn_descriptor = \<lparr>sd_id = ''i'', sd_name = ''w'', sd_host_id = ''h'', sd_host_alias = ''a'', sd_user = ''u'',
        sd_model = demo_binding, sd_cwd = ''/'', sd_persistence = Durable, sd_visibility = HostOnly,
        sd_access_mode = SingleUser, sd_status = Detached, sd_activity = Idle, sd_attached_clients = 0, sd_created_at = 5,
        sd_last_active_at = 5\<rparr>, sn_history = []\<rparr>"

definition demo_operation :: durable_in_flight where
  "demo_operation = \<lparr>di_session_id = ''i'', di_operation_id = ''o'', di_route = ''agent''\<rparr>"

definition demo_busy :: durable_state where
  "demo_busy = \<lparr>ds_format_version = 1, ds_sessions = [demo_snapshot], ds_in_flight = [demo_operation]\<rparr>"

definition demo_orphan :: durable_state where
  "demo_orphan = \<lparr>ds_format_version = 1, ds_sessions = [], ds_in_flight = [demo_operation]\<rparr>"

text \<open>One library that prints and parses only the states the example meets, and one that prints anything.\<close>

definition exact_lib :: session_lib where
  "exact_lib =
     \<lparr>sb_encode = (\<lambda>s. if s = demo_busy then Ok ''1'' else if s = demo_orphan then Ok ''2'' else Err ''no''),
      sb_decode = (\<lambda>x. if x = ''1'' then Ok demo_busy else if x = ''2'' then Ok demo_orphan else Err ''no''),
      sb_directory = ''d''\<rparr>"

definition total_lib :: session_lib where
  "total_lib = \<lparr>sb_encode = (\<lambda>s. Ok ''1''), sb_decode = (\<lambda>x. Ok demo_busy), sb_directory = ''d''\<rparr>"

definition demo_start :: session_host where
  "demo_start = \<lparr>sh_registry = \<lparr>rg_host_id = ''h'', rg_host_alias = ''a'', rg_user = ''u'', rg_sessions = [], rg_in_flight = []\<rparr>,
     sh_store = \<lparr>ss_final = None, ss_temporary = None\<rparr>\<rparr>"

definition demo_created :: "session_lib \<Rightarrow> session_host" where
  "demo_created lib = snd (create_session lib demo_session_env ''c'' (demo_creation Durable) demo_start)"

definition demo_running :: "session_lib \<Rightarrow> session_host" where
  "demo_running lib = snd (begin_execution lib demo_session_env ''i'' ''o'' ''agent'' (demo_created lib))"

lemma demo_reachable: "registry_reachable lib (demo_created lib)" "registry_reachable lib (demo_running lib)"
proof -
  have "load lib demo_session_env ''h'' ''a'' ''u'' (sh_store demo_start) = (Ok (sh_registry demo_start), sh_store demo_start)"
    by (simp add: load_def demo_session_env_def demo_start_def)
  from started [OF this] have "registry_reachable lib demo_start" by (simp add: demo_start_def)
  moreover have "fresh_uuid demo_session_env (sh_registry demo_start)" by (simp add: fresh_uuid_def demo_start_def)
  ultimately show c: "registry_reachable lib (demo_created lib)"
    unfolding demo_created_def by (rule stepped [OF _ step_create])
  show "registry_reachable lib (demo_running lib)" unfolding demo_running_def by (rule stepped [OF c step_begin])
qed

lemma demo_running_eq:
  "durable_state_of (sh_registry (demo_running exact_lib)) = demo_busy"
  "durable_state_of (sh_registry (demo_running total_lib)) = demo_busy"
  "map_of (rg_in_flight (sh_registry (demo_running exact_lib))) ''i'' = Some demo_operation"
  by code_simp+

theorem registry_stays_consistent_witness: "reg_inv (sh_registry (demo_running exact_lib))"
  by (rule registry_stays_consistent [OF demo_reachable(2)])

definition demo_left :: session_host where
  "demo_left = snd (detach total_lib demo_session_env ''c'' ''i'' (demo_created total_lib))"

theorem attached_client_is_sole_controller_witness:
  "\<exists>r e1 e2 e3. map_of (rg_sessions (sh_registry (snd (the (attach_session demo_session_env ''x'' ''w'' Owner demo_left))))) ''i'' = Some r \<and>
    se_attachments r = [''x''] \<and>
    attach_session demo_session_env ''y'' ''i'' Owner (snd (the (attach_session demo_session_env ''x'' ''w'' Owner demo_left))) =
      Some (Err e1, snd (the (attach_session demo_session_env ''x'' ''w'' Owner demo_left))) \<and>
    close_session total_lib demo_session_env ''y'' ''i'' (snd (the (attach_session demo_session_env ''x'' ''w'' Owner demo_left))) =
      Some (Err e2, snd (the (attach_session demo_session_env ''x'' ''w'' Owner demo_left))) \<and>
    update_session total_lib demo_session_env ''y'' ''i'' demo_binding ''/'' [] (snd (the (attach_session demo_session_env ''x'' ''w'' Owner demo_left))) =
      (Err e3, snd (the (attach_session demo_session_env ''x'' ''w'' Owner demo_left)))"
proof -
  define h' where "h' = snd (the (attach_session demo_session_env ''x'' ''w'' Owner demo_left))"
  define s where "s = projr (fst (the (attach_session demo_session_env ''x'' ''w'' Owner demo_left)))"
  have "registry_reachable total_lib demo_left"
    unfolding demo_left_def by (rule stepped [OF demo_reachable(1) step_detach])
  moreover have "attach_session demo_session_env ''x'' ''w'' Owner demo_left = Some (Ok s, h')"
    unfolding s_def h'_def by code_simp
  moreover have "sd_id (sn_descriptor s) = ''i''" unfolding s_def by code_simp
  ultimately show ?thesis
    using attached_client_is_sole_controller [of total_lib demo_left demo_session_env "''x''" "''w''" s h' "''y''" demo_session_env demo_binding "''/''" "[]"]
    unfolding h'_def [symmetric] by simp
qed

theorem restart_recovers_durable_sessions_witness:
  "\<exists>g st. load total_lib demo_session_env ''h2'' ''a2'' ''u2'' (sh_store (demo_running total_lib)) = (Ok g, st) \<and>
    map_of (rg_sessions g) = restarted ''h2'' ''a2'' ''u2'' (sh_registry (demo_running total_lib)) \<and> rg_in_flight g = []"
proof (rule restart_recovers_durable_sessions [OF demo_reachable(2)])
  show "ss_final (sh_store (demo_running total_lib)) = Some ''1''" by code_simp
  show "sb_decode total_lib ''1'' = Ok (durable_state_of (sh_registry (demo_running total_lib)))"
    unfolding demo_running_eq(2) by (simp add: total_lib_def)
  have "rg_in_flight (sh_registry (demo_running total_lib)) = [(''i'', demo_operation)]"
    "map fst (rg_sessions (sh_registry (demo_running total_lib))) = [''i'']" by code_simp+
  then show "map_of (rg_sessions (sh_registry (demo_running total_lib))) i \<noteq> None"
    if "map_of (rg_in_flight (sh_registry (demo_running total_lib))) i = Some f" for i f
    using that by (auto simp: map_of_eq_None_iff dest: arg_cong [of _ _ set] split: if_splits)
qed (simp_all add: demo_session_env_def total_lib_def)

theorem closing_busy_session_blocks_restart_witness:
  "\<exists>e e'. fst (update_execution_state exact_lib demo_session_env ''i'' ''/'' []
        (snd (the (close_session exact_lib demo_session_env ''c'' ''w'' (demo_running exact_lib))))) = Err e \<and>
    snd (update_execution_state exact_lib demo_session_env ''i'' ''/'' []
        (snd (the (close_session exact_lib demo_session_env ''c'' ''w'' (demo_running exact_lib))))) =
      snd (the (close_session exact_lib demo_session_env ''c'' ''w'' (demo_running exact_lib))) \<and>
    load exact_lib demo_session_env ''h'' ''a'' ''u'' (sh_store (snd (the (close_session exact_lib demo_session_env ''c'' ''w'' (demo_running exact_lib))))) =
      (Err e', sh_store (snd (the (close_session exact_lib demo_session_env ''c'' ''w'' (demo_running exact_lib)))))"
proof (rule closing_busy_session_blocks_restart [OF demo_reachable(2) demo_running_eq(3)])
  show "close_session exact_lib demo_session_env ''c'' ''w'' (demo_running exact_lib) =
    Some (Ok ''i'', snd (the (close_session exact_lib demo_session_env ''c'' ''w'' (demo_running exact_lib))))"
    by code_simp
  show "sb_decode exact_lib x = Ok s" if "sb_encode exact_lib s = Ok x" for s x
    using that by (auto simp: exact_lib_def split: if_splits)
qed

theorem lost_directory_wedges_session_witness:
  "\<exists>refusal. begin_execution total_lib demo_session_env ''i'' ''o2'' ''shell'' (demo_running total_lib) = (Err refusal, demo_running total_lib)"
proof -
  have "begin_execution total_lib demo_session_env ''i'' ''o'' ''agent'' (demo_created total_lib) = (Ok (), demo_running total_lib)"
    by code_simp
  moreover have "map_of (rg_sessions (sh_registry (demo_created total_lib))) ''i'' =
      Some (the (map_of (rg_sessions (sh_registry (demo_created total_lib))) ''i''))"
    "sd_persistence (descriptor_of (the (map_of (rg_sessions (sh_registry (demo_created total_lib))) ''i''))) = Durable"
    by code_simp+
  ultimately show ?thesis
    using lost_directory_wedges_session [of "demo_created total_lib" "''i''" _ total_lib demo_session_env "''o''" "''agent''"
        "demo_running total_lib" "demo_session_env\<lparr>sv_cwd := (\<lambda>_. Err ''gone'')\<rparr>" "''/''" "''gone''" "[]" demo_session_env "''o2''" "''shell''"]
    by auto
qed

end
