(* ===== verification/Daemon_Audit.thy ===== *)
theory Daemon_Audit
  imports Audit_Service "HOL-Library.AList"
begin

text \<open>
  Auditing at the execution boundary (\<^verbatim>\<open>crates/xshell-session/src/audit.rs\<close>): the daemon keeps one
  connection to the audit service for each session, opens it on first use, reopens it after a
  failure once the deadline has passed, and, when auditing is required, refuses to go on without an
  acknowledgement. The connection is the client of \<open>Audit_Service\<close>; its link and the clock are
  parameters. \<open>sa_acked\<close> collects what the service has acknowledged over a session's connections:
  the code keeps no such list, the properties speak about it.
\<close>

record 'p audit_link =
  al_link :: "'p link"
  al_now :: "'p \<Rightarrow> nat"
  al_version :: string

datatype 'p connection =
    Unopened
  | OpenConnection "'p audit_client"
  | FailedAt nat
  | ClosedConnection

record audit_descriptor =
  ad_name :: string
  ad_host_id :: string
  ad_host_alias :: string
  ad_user :: string

text \<open>\<open>sa_link\<close> is the link's state while no client holds it.\<close>

record 'p session_audit =
  sa_session_id :: string
  sa_descriptor :: audit_descriptor
  sa_state :: "'p connection"
  sa_link :: 'p
  sa_acked :: "audit_event list"

datatype audit_error =
    SocketMissing
  | ProbeFailed client_error
  | AuditingUnavailable
  | AppendFailed client_error

definition ATTACH_ACTION :: string where
  "ATTACH_ACTION = ''xshelld_execution''"

definition RESUME_ACTION :: string where
  "RESUME_ACTION = ''xshelld_execution_resumed''"

section \<open>One session's connection\<close>

definition attach_event :: "audit_config \<Rightarrow> string \<Rightarrow> 'p session_audit \<Rightarrow> audit_event" where
  "attach_event cfg act sa =
     EvLogicalSessionAttached act (sa_session_id sa) (ad_name (sa_descriptor sa)) (ad_host_id (sa_descriptor sa))
       (ad_host_alias (sa_descriptor sa)) (ad_user (sa_descriptor sa)) (Some (ac_terminal_stream cfg))"

definition open_audit :: "'p audit_link \<Rightarrow> audit_config \<Rightarrow> string \<Rightarrow> 'p session_audit \<Rightarrow> 'p session_audit" where
  "open_audit al cfg act sa =
     (if ac_socket cfg = None then sa\<lparr>sa_state := FailedAt (al_now al (sa_link sa))\<rparr>
      else case connect_with_timeout (al_link al) (al_version al) (ack_timeout cfg) (sa_link sa) of
             (Inl e, p) \<Rightarrow> sa\<lparr>sa_state := FailedAt (al_now al p), sa_link := p\<rparr>
           | (Inr client, p) \<Rightarrow>
               (case client_append (al_link al) (attach_event cfg act sa) client of
                  (Inl e, client) \<Rightarrow> sa\<lparr>sa_state := FailedAt (al_now al (cl_link client)), sa_link := cl_link client\<rparr>
                | (Inr _, client) \<Rightarrow>
                    sa\<lparr>sa_state := OpenConnection client, sa_link := cl_link client,
                       sa_acked := sa_acked sa @ [attach_event cfg act sa]\<rparr>))"

text \<open>The first part of \<open>append\<close>: open the connection, or open it again after the deadline.\<close>

definition ready_audit :: "'p audit_link \<Rightarrow> audit_config \<Rightarrow> 'p session_audit \<Rightarrow> 'p session_audit" where
  "ready_audit al cfg sa =
     (case sa_state sa of
        Unopened \<Rightarrow> open_audit al cfg ATTACH_ACTION sa
      | FailedAt failed \<Rightarrow>
          if al_now al (sa_link sa) - failed \<ge> ack_timeout cfg then open_audit al cfg RESUME_ACTION sa else sa
      | _ \<Rightarrow> sa)"

definition audit_append ::
  "'p audit_link \<Rightarrow> audit_config \<Rightarrow> audit_event \<Rightarrow> 'p session_audit \<Rightarrow> ('p session_audit, audit_error, unit) outcome" where
  "audit_append al cfg event sa =
     (if sa_state sa = ClosedConnection then (Ok (), sa)
      else
        let sa = ready_audit al cfg sa in
        case sa_state sa of
          OpenConnection client \<Rightarrow>
            (case client_append (al_link al) event client of
               (Inr _, client) \<Rightarrow>
                 (Ok (), sa\<lparr>sa_state := OpenConnection client, sa_link := cl_link client, sa_acked := sa_acked sa @ [event]\<rparr>)
             | (Inl e, client) \<Rightarrow>
                 (if ac_required cfg then Err (AppendFailed e) else Ok (),
                  sa\<lparr>sa_state := FailedAt (al_now al (cl_link client)), sa_link := cl_link client\<rparr>))
        | _ \<Rightarrow> (if ac_required cfg then Err AuditingUnavailable else Ok (), sa))"

definition close_audit :: "'p audit_link \<Rightarrow> string \<Rightarrow> 'p session_audit \<Rightarrow> 'p session_audit" where
  "close_audit al reason sa =
     (case sa_state sa of
        OpenConnection client \<Rightarrow>
          (case client_append (al_link al) (EvSessionEnded reason) client of
             (Inl e, client) \<Rightarrow> sa\<lparr>sa_state := ClosedConnection, sa_link := cl_link client\<rparr>
           | (Inr _, client) \<Rightarrow>
               sa\<lparr>sa_state := ClosedConnection, sa_link := cl_link (snd (client_close (al_link al) client)),
                  sa_acked := sa_acked sa @ [EvSessionEnded reason]\<rparr>)
      | _ \<Rightarrow> sa\<lparr>sa_state := ClosedConnection\<rparr>)"

section \<open>The daemon's sessions\<close>

record 'p daemon_audit =
  da_config :: "audit_config option"
  da_sessions :: "(string \<times> 'p session_audit) list"

definition da_disabled :: "'p daemon_audit" where
  "da_disabled = \<lparr>da_config = None, da_sessions = []\<rparr>"

definition da_from_config :: "'p audit_link \<Rightarrow> audit_config \<Rightarrow> 'p \<Rightarrow> ('p, audit_error, 'p daemon_audit) outcome" where
  "da_from_config al cfg p =
     (if \<not> ac_enabled cfg then (Ok da_disabled, p)
      else if ac_socket cfg = None then (Err SocketMissing, p)
      else
        let ready = \<lparr>da_config = Some cfg, da_sessions = []\<rparr> in
        if \<not> ac_required cfg then (Ok ready, p)
        else case connect_with_timeout (al_link al) (al_version al) (ack_timeout cfg) p of
               (Inl e, p) \<Rightarrow> (Err (ProbeFailed e), p)
             | (Inr client, p) \<Rightarrow>
                 (case client_append (al_link al) (EvSessionEnded ''xshelld audit probe'') client of
                    (Inl e, client) \<Rightarrow> (Err (ProbeFailed e), cl_link client)
                  | (Inr _, client) \<Rightarrow>
                      (case client_close (al_link al) client of
                         (Inl e, client) \<Rightarrow> (Err (ProbeFailed e), cl_link client)
                       | (Inr _, client) \<Rightarrow> (Ok ready, cl_link client))))"

definition da_required :: "'p daemon_audit \<Rightarrow> bool" where
  "da_required d = (case da_config d of None \<Rightarrow> False | Some cfg \<Rightarrow> ac_required cfg)"

definition da_terminal_stream :: "'p daemon_audit \<Rightarrow> nat option option" where
  "da_terminal_stream d =
     (case da_config d of
        None \<Rightarrow> None
      | Some cfg \<Rightarrow>
          if \<not> ac_terminal_stream cfg then None
          else Some (if ac_terminal_stream_max_bytes cfg = 0 then None else Some (ac_terminal_stream_max_bytes cfg)))"

text \<open>
  \<open>session\<close> returns a handle to the entry: the model names the entry by its session. \<open>p\<close> is the
  link's state a new entry starts with.
\<close>

definition da_session :: "'p audit_link \<Rightarrow> 'p \<Rightarrow> string \<Rightarrow> audit_descriptor \<Rightarrow> 'p daemon_audit \<Rightarrow> 'p daemon_audit" where
  "da_session al p sid d da =
     (case da_config da of
        None \<Rightarrow> da
      | Some cfg \<Rightarrow>
          let sa = (case map_of (da_sessions da) sid of
                      Some sa \<Rightarrow> sa
                    | None \<Rightarrow> \<lparr>sa_session_id = sid, sa_descriptor = d, sa_state = Unopened, sa_link = p, sa_acked = []\<rparr>);
              sa = (if sa_state sa = Unopened then open_audit al cfg ATTACH_ACTION sa else sa)
          in da\<lparr>da_sessions := AList.update sid sa (da_sessions da)\<rparr>)"

definition da_audit_session_id :: "string \<Rightarrow> 'p daemon_audit \<Rightarrow> string option" where
  "da_audit_session_id sid da =
     (if da_config da = None then None
      else case map_of (da_sessions da) sid of
             None \<Rightarrow> None
           | Some sa \<Rightarrow> (case sa_state sa of OpenConnection client \<Rightarrow> Some (cl_session_id client) | _ \<Rightarrow> None))"

text \<open>A handle outlives the entry in the map, so closing returns what became of the entry.\<close>

definition da_close_session :: "'p audit_link \<Rightarrow> string \<Rightarrow> string \<Rightarrow> 'p daemon_audit \<Rightarrow> 'p session_audit option \<times> 'p daemon_audit" where
  "da_close_session al sid reason da =
     (if da_config da = None then (None, da)
      else (map_option (close_audit al reason) (map_of (da_sessions da) sid),
            da\<lparr>da_sessions := AList.delete sid (da_sessions da)\<rparr>))"

definition da_close_all :: "'p audit_link \<Rightarrow> string \<Rightarrow> 'p daemon_audit \<Rightarrow> 'p session_audit list \<times> 'p daemon_audit" where
  "da_close_all al reason da =
     (if da_config da = None then ([], da)
      else (map (\<lambda>e. close_audit al reason (snd e)) (da_sessions da), da\<lparr>da_sessions := []\<rparr>))"

text \<open>\<open>SessionAuditHandle::append\<close>: a handle of a disabled daemon accepts and drops everything.\<close>

definition handle_append ::
  "'p audit_link \<Rightarrow> (audit_config \<times> 'p session_audit) option \<Rightarrow> audit_event \<Rightarrow>
   ((audit_config \<times> 'p session_audit) option, audit_error, unit) outcome" where
  "handle_append al h event =
     (case h of
        None \<Rightarrow> (Ok (), None)
      | Some (cfg, sa) \<Rightarrow> (case audit_append al cfg event sa of (r, sa) \<Rightarrow> (r, Some (cfg, sa))))"

section \<open>What an acknowledgement means\<close>

lemma open_audit_acked:
  "\<exists>opened. sa_acked (open_audit al cfg act sa) = sa_acked sa @ opened"
  "sa_state (open_audit al cfg act sa) \<noteq> ClosedConnection" "sa_state (open_audit al cfg act sa) \<noteq> Unopened"
  by (auto simp: open_audit_def split: prod.splits sum.splits)

lemma ready_audit_acked:
  "\<exists>opened. sa_acked (ready_audit al cfg sa) = sa_acked sa @ opened"
  "sa_state (ready_audit al cfg sa) = ClosedConnection \<longleftrightarrow> sa_state sa = ClosedConnection"
  by (auto simp: ready_audit_def open_audit_acked split: connection.splits)

lemma ready_audit_opened: "sa_state (ready_audit al cfg sa) \<noteq> Unopened"
  by (auto simp: ready_audit_def open_audit_acked split: connection.splits)

lemma audit_append_acked:
  assumes "audit_append al cfg event sa = (r, sa')"
  shows "\<exists>more. sa_acked sa' = sa_acked sa @ more"
    "sa_state sa' = ClosedConnection \<longleftrightarrow> sa_state sa = ClosedConnection"
    "ac_required cfg \<Longrightarrow> sa_state sa \<noteq> ClosedConnection \<Longrightarrow> r = Ok () \<Longrightarrow> \<exists>opened. sa_acked sa' = sa_acked sa @ opened @ [event]"
proof -
  obtain opened where o: "sa_acked (ready_audit al cfg sa) = sa_acked sa @ opened" using ready_audit_acked(1) by blast
  note c = ready_audit_acked(2) [of al cfg sa]
  show "\<exists>more. sa_acked sa' = sa_acked sa @ more"
    using assms o by (auto simp: audit_append_def Let_def split: if_splits connection.splits prod.splits sum.splits)
  show "sa_state sa' = ClosedConnection \<longleftrightarrow> sa_state sa = ClosedConnection"
    using assms c by (auto simp: audit_append_def Let_def split: if_splits connection.splits prod.splits sum.splits)
  show "\<exists>opened. sa_acked sa' = sa_acked sa @ opened @ [event]"
    if "ac_required cfg" "sa_state sa \<noteq> ClosedConnection" "r = Ok ()"
    using assms o that by (auto simp: audit_append_def Let_def split: if_splits connection.splits prod.splits sum.splits)
qed

lemma close_audit_acked: "\<exists>more. sa_acked (close_audit al reason sa) = sa_acked sa @ more"
  "sa_state (close_audit al reason sa) = ClosedConnection"
  by (auto simp: close_audit_def split: connection.splits prod.splits sum.splits)

text \<open>
  C38. With required auditing, an accepted append was acknowledged: as long as the session is open,
  \<open>append\<close> succeeds only after the audit service has acknowledged this very event, as the last of
  all it acknowledged for the session, and the connection is usable; otherwise it returns an error
  and marks the connection failed.
\<close>

theorem required_append_is_acknowledged:
  assumes "ac_required cfg" "sa_state sa \<noteq> ClosedConnection" "audit_append al cfg event sa = (r, sa')"
  shows "if r = Ok () then \<exists>opened client. sa_acked sa' = sa_acked sa @ opened @ [event] \<and> sa_state sa' = OpenConnection client
    else \<exists>failed. sa_state sa' = FailedAt failed"
proof (cases "r = Ok ()")
  case True
  then show ?thesis
    using assms audit_append_acked(3) [OF assms(3,1,2)]
    by (auto simp: audit_append_def Let_def split: if_splits connection.splits prod.splits sum.splits)
next
  case False
  then show ?thesis
    using assms ready_audit_acked(2) [of al cfg sa] ready_audit_opened [of al cfg sa]
    by (auto simp: audit_append_def Let_def split: if_splits connection.splits prod.splits sum.splits)
qed

text \<open>
  A dead audit service costs a session one deadline an interval: after a failure, and until the
  deadline has passed on the clock, an append talks to nobody and changes nothing; it is refused
  when auditing is required and dropped otherwise.
\<close>

theorem failed_audit_fails_fast:
  assumes "sa_state sa = FailedAt failed" "al_now al (sa_link sa) < failed + ack_timeout cfg" "failed \<le> al_now al (sa_link sa)"
  shows "audit_append al cfg event sa = (if ac_required cfg then Err AuditingUnavailable else Ok (), sa)"
proof -
  have "\<not> ack_timeout cfg \<le> al_now al (sa_link sa) - failed" using assms(2,3) by linarith
  then show ?thesis using assms(1) by (simp add: audit_append_def ready_audit_def)
qed

definition demo_audit_link :: "nat audit_link" where
  "demo_audit_link =
     \<lparr>al_link = \<lparr>ln_connect = (\<lambda>p. (True, p)), ln_send = (\<lambda>_ _ p. (Ok (), Suc p)), ln_read_until = (\<lambda>_ _ p. (Ok [lf], p)),
        ln_response = (\<lambda>_. Some (Ack 1 []))\<rparr>, al_now = id, al_version = []\<rparr>"

definition demo_audit_config :: audit_config where
  "demo_audit_config = audit_config_default\<lparr>ac_enabled := True, ac_socket := Some ''s'', ac_ack_timeout_ms := 5\<rparr>"

definition demo_session_audit :: "nat connection \<Rightarrow> nat session_audit" where
  "demo_session_audit c = \<lparr>sa_session_id = ''i'', sa_descriptor = \<lparr>ad_name = [], ad_host_id = [], ad_host_alias = [], ad_user = []\<rparr>,
     sa_state = c, sa_link = 7, sa_acked = []\<rparr>"

definition demo_open_client :: "nat audit_client" where
  "demo_open_client = \<lparr>cl_session_id = ''a'', cl_signing_key_id = [], cl_timeout = 5, cl_failed = False, cl_link = 7\<rparr>"

theorem required_append_is_acknowledged_witness:
  "\<exists>opened client. sa_acked (snd (audit_append demo_audit_link demo_audit_config (EvAgentError ''x'')
      (demo_session_audit (OpenConnection demo_open_client)))) = opened @ [EvAgentError ''x''] \<and>
    sa_state (snd (audit_append demo_audit_link demo_audit_config (EvAgentError ''x'')
      (demo_session_audit (OpenConnection demo_open_client)))) = OpenConnection client"
proof -
  let ?sa = "demo_session_audit (OpenConnection demo_open_client)"
  let ?r = "audit_append demo_audit_link demo_audit_config (EvAgentError ''x'') ?sa"
  have "fst ?r = Ok ()"
    by (simp add: audit_append_def ready_audit_def demo_session_audit_def client_append_def exchange_def demo_audit_link_def
        demo_open_client_def receive_def MAX_RESPONSE_BYTES_def ok_or_def)
  moreover have "ac_required demo_audit_config" "sa_state ?sa \<noteq> ClosedConnection" "sa_acked ?sa = []"
    by (simp_all add: demo_audit_config_def audit_config_default_def demo_session_audit_def)
  ultimately show ?thesis
    using required_append_is_acknowledged [of demo_audit_config ?sa demo_audit_link "EvAgentError ''x''" "fst ?r" "snd ?r"]
      prod.collapse [of ?r] by simp
qed

theorem failed_audit_fails_fast_witness:
  "audit_append demo_audit_link demo_audit_config (EvAgentError ''x'') (demo_session_audit (FailedAt 4)) =
     (Err AuditingUnavailable, demo_session_audit (FailedAt 4))"
  using failed_audit_fails_fast [of "demo_session_audit (FailedAt 4)" 4 demo_audit_link demo_audit_config "EvAgentError ''x''"]
  by (simp add: demo_session_audit_def demo_audit_link_def demo_audit_config_def audit_config_default_def ack_timeout_def)

end
