(* ===== verification/Session_Execution.thy ===== *)
theory Session_Execution
  imports Engine Session_Registry Daemon_Audit "HOL-Library.Sublist"
begin

text \<open>
  Turns of the daemon (\<^verbatim>\<open>crates/xshell-session/src/execution.rs\<close>): the replay journal of a session,
  the active turn with its cancellation flag, the approvals clients are asked for and answer, and the
  admission of a new turn. The length of an event's JSON is a parameter, and so are the clock, the
  random identifiers and the outcome of starting a thread.
\<close>

section \<open>Data\<close>

datatype turn_input = AgentInput string | ShellInput string

datatype turn_failure_reason = BudgetExhausted | AuditUnavailable

datatype session_event_kind =
    TurnStarted turn_input approval_policy "approval_policy option" "turn_limits option" "turn_limits option"
  | Execution execution_event
  | ShellOutput string string
  | WorkingDirectoryChanged string
  | ShellFinished string string
  | TurnCompleted
  | TurnFailed string "turn_failure_reason option"
  | TurnCancelled

record session_event =
  ev_sequence :: nat
  ev_turn_id :: string
  ev_timestamp :: nat
  ev_event :: session_event_kind

record event_batch =
  eb_events :: "session_event list"
  eb_truncated_before :: "nat option"
  eb_next_sequence :: nat
  eb_active_turn_id :: "string option"

record approval_reply =
  rp_turn_id :: string
  rp_call_id :: string
  rp_decision :: approval_decision

record active_turn =
  at_id :: string
  at_cancelled :: bool

record execution_state =
  xs_events :: "session_event list"
  xs_event_bytes :: nat
  xs_next_sequence :: nat
  xs_active :: "active_turn option"
  xs_approvals :: "((string \<times> string) \<times> approval_decision) list"
  xs_pending :: "(string \<times> string) list"

definition MAX_JOURNAL_EVENTS :: nat where
  "MAX_JOURNAL_EVENTS = 8192"

definition MAX_JOURNAL_BYTES :: nat where
  "MAX_JOURNAL_BYTES = 16 * 1024 * 1024"

definition execution_new :: execution_state where
  "execution_new = \<lparr>xs_events = [], xs_event_bytes = 0, xs_next_sequence = 1, xs_active = None, xs_approvals = [], xs_pending = []\<rparr>"

section \<open>The journal\<close>

text \<open>
  The eviction loop. With an empty journal and bytes left over it would spin, so it is a partial
  function; \<open>None\<close> is the loop that does not end.
\<close>

partial_function (option) evict :: "(session_event \<Rightarrow> nat) \<Rightarrow> execution_state \<Rightarrow> execution_state option" where
  [code]: "evict json_len st =
     (if length (xs_events st) > MAX_JOURNAL_EVENTS \<or> xs_event_bytes st > MAX_JOURNAL_BYTES then
        (case xs_events st of
           [] \<Rightarrow> evict json_len st
         | removed # rest \<Rightarrow> evict json_len (st\<lparr>xs_events := rest, xs_event_bytes := xs_event_bytes st - json_len removed\<rparr>))
      else Some st)"

definition append_locked ::
  "(session_event \<Rightarrow> nat) \<Rightarrow> nat \<Rightarrow> string \<Rightarrow> session_event_kind \<Rightarrow> execution_state \<Rightarrow> execution_state option" where
  "append_locked json_len now turn_id event st =
     (let rec = \<lparr>ev_sequence = xs_next_sequence st, ev_turn_id = turn_id, ev_timestamp = now, ev_event = event\<rparr> in
      evict json_len (st\<lparr>xs_next_sequence := saturating_add (xs_next_sequence st) 1,
                     xs_event_bytes := saturating_add (xs_event_bytes st) (json_len rec),
                     xs_events := xs_events st @ [rec]\<rparr>))"

definition finish_locked :: "string \<Rightarrow> execution_state \<Rightarrow> execution_state" where
  "finish_locked turn_id st =
     st\<lparr>xs_active := (if map_option at_id (xs_active st) = Some turn_id then None else xs_active st),
        xs_pending := filter (\<lambda>k. fst k \<noteq> turn_id) (xs_pending st),
        xs_approvals := filter (\<lambda>a. fst (fst a) \<noteq> turn_id) (xs_approvals st)\<rparr>"

definition conclude ::
  "(session_event \<Rightarrow> nat) \<Rightarrow> nat \<Rightarrow> string \<Rightarrow> session_event_kind \<Rightarrow> execution_state \<Rightarrow> execution_state option" where
  "conclude json_len now turn_id event st = map_option (finish_locked turn_id) (append_locked json_len now turn_id event st)"

text \<open>
  Waiting for events: \<open>woken\<close> is the state at each wake-up before the deadline, in order.
\<close>

fun await_events :: "nat \<Rightarrow> execution_state list \<Rightarrow> execution_state \<Rightarrow> execution_state" where
  "await_events after [] st = st"
| "await_events after (woken # later) st =
     (if list_ex (\<lambda>e. ev_sequence e > after) (xs_events st) \<or> xs_active st = None then st
      else await_events after later woken)"

definition event_batch_of :: "nat \<Rightarrow> execution_state \<Rightarrow> event_batch" where
  "event_batch_of after st =
     \<lparr>eb_events = filter (\<lambda>e. ev_sequence e > after) (xs_events st),
      eb_truncated_before =
        (case xs_events st of
           [] \<Rightarrow> None
         | e # _ \<Rightarrow> if saturating_add after 1 < ev_sequence e then Some (ev_sequence e) else None),
      eb_next_sequence = xs_next_sequence st,
      eb_active_turn_id = map_option at_id (xs_active st)\<rparr>"

definition events :: "nat \<Rightarrow> execution_state list \<Rightarrow> execution_state \<Rightarrow> event_batch" where
  "events after woken st = event_batch_of after (await_events after woken st)"

section \<open>Approvals and cancellation\<close>

definition approve :: "approval_reply \<Rightarrow> execution_state \<Rightarrow> (string, unit) result \<times> execution_state" where
  "approve reply st =
     (if map_option at_id (xs_active st) \<noteq> Some (rp_turn_id reply) then (Err ''turn is no longer active'', st)
      else
        let key = (rp_turn_id reply, rp_call_id reply) in
        if key \<notin> set (xs_pending st) then (Err ''tool call is not waiting for approval'', st)
        else (Ok (), st\<lparr>xs_pending := removeAll key (xs_pending st),
                        xs_approvals := AList.update key (rp_decision reply) (xs_approvals st)\<rparr>))"

definition cancel :: "string \<Rightarrow> execution_state \<Rightarrow> (string, unit) result \<times> execution_state" where
  "cancel turn_id st =
     (case xs_active st of
        None \<Rightarrow> (Err ''session has no active turn'', st)
      | Some active \<Rightarrow>
          if at_id active \<noteq> turn_id then (Err (''turn '' @ debug_str turn_id @ '' is not active''), st)
          else (Ok (), st\<lparr>xs_active := Some (active\<lparr>at_cancelled := True\<rparr>)\<rparr>))"

text \<open>\<open>active.cancellation.cancel()\<close>, as shutting down and closing a session do.\<close>

definition cancel_active :: "execution_state \<Rightarrow> execution_state" where
  "cancel_active st = st\<lparr>xs_active := map_option (\<lambda>active. active\<lparr>at_cancelled := True\<rparr>) (xs_active st)\<rparr>"

definition activity :: "execution_state \<Rightarrow> session_activity" where
  "activity st =
     (case xs_active st of
        None \<Rightarrow> Idle
      | Some active \<Rightarrow>
          AgentTurn (at_id active)
            (if at_cancelled active then Stopping else if xs_pending st = [] then Running else WaitingApproval))"

text \<open>One pass of the observer's wait for a decision: \<open>None\<close> when it has to wait on.\<close>

definition poll_approval :: "bool \<Rightarrow> string \<times> string \<Rightarrow> execution_state \<Rightarrow> approval_decision option \<times> execution_state" where
  "poll_approval cancelled key st =
     (if cancelled then (Some AbortTurn, st)
      else case map_of (xs_approvals st) key of
             Some d \<Rightarrow> (Some d, st\<lparr>xs_approvals := AList.delete key (xs_approvals st)\<rparr>)
           | None \<Rightarrow> (None, st))"

text \<open>The part of \<open>emit\<close> that registers an approval request.\<close>

definition register_request :: "string \<Rightarrow> execution_event \<Rightarrow> execution_state \<Rightarrow> execution_state" where
  "register_request turn_id event st =
     (case innermost event of
        ApprovalRequested call reason \<Rightarrow> st\<lparr>xs_pending := List.insert (turn_id, tc_id call) (xs_pending st)\<rparr>
      | _ \<Rightarrow> st)"

text \<open>The reservation of a turn in \<open>submit\<close>.\<close>

definition reserve :: "string \<Rightarrow> execution_state \<Rightarrow> (string, unit) result \<times> execution_state" where
  "reserve turn_id st =
     (case xs_active st of
        Some active \<Rightarrow> (Err (''session already has active turn '' @ at_id active), st)
      | None \<Rightarrow> (Ok (), st\<lparr>xs_approvals := [], xs_pending := [], xs_active := Some \<lparr>at_id = turn_id, at_cancelled = False\<rparr>\<rparr>))"

section \<open>What the journal keeps\<close>

text \<open>
  The reference: the longest suffix of the events that stays within both limits. The journal
  evicts one event at a time as events arrive; it always holds that suffix of everything appended.
\<close>

definition fits :: "(session_event \<Rightarrow> nat) \<Rightarrow> session_event list \<Rightarrow> bool" where
  "fits json_len es \<longleftrightarrow> length es \<le> MAX_JOURNAL_EVENTS \<and> sum_list (map json_len es) \<le> MAX_JOURNAL_BYTES"

fun retained :: "(session_event \<Rightarrow> nat) \<Rightarrow> session_event list \<Rightarrow> session_event list" where
  "retained json_len [] = []"
| "retained json_len (e # es) = (if fits json_len (e # es) then e # es else retained json_len es)"

text \<open>Appending a sequence of events, and the records they become.\<close>

fun journal_all ::
  "(session_event \<Rightarrow> nat) \<Rightarrow> (nat \<times> string \<times> session_event_kind) list \<Rightarrow> execution_state \<Rightarrow> execution_state option" where
  "journal_all json_len [] st = Some st"
| "journal_all json_len ((now, turn_id, event) # items) st =
     (case append_locked json_len now turn_id event st of
        None \<Rightarrow> None
      | Some st \<Rightarrow> journal_all json_len items st)"

fun records :: "nat \<Rightarrow> (nat \<times> string \<times> session_event_kind) list \<Rightarrow> session_event list" where
  "records n [] = []"
| "records n ((now, turn_id, event) # items) =
     \<lparr>ev_sequence = n, ev_turn_id = turn_id, ev_timestamp = now, ev_event = event\<rparr> # records (saturating_add n 1) items"

text \<open>A vector's length is at most \<open>isize::MAX\<close>.\<close>

definition lengths_bounded :: "(session_event \<Rightarrow> nat) \<Rightarrow> bool" where
  "lengths_bounded json_len \<longleftrightarrow> (\<forall>e. json_len e \<le> 2 ^ 63 - 1)"

lemma fits_Nil [simp]: "fits json_len []"
  by (simp add: fits_def MAX_JOURNAL_EVENTS_def)

lemma fits_tl: "fits json_len (e # es) \<Longrightarrow> fits json_len es"
  by (simp add: fits_def)

lemma fits_suffix: "fits json_len (xs @ ys) \<Longrightarrow> fits json_len ys"
  by (induction xs) (auto dest: fits_tl)

lemma retained_fits: "fits json_len (retained json_len es)"
  by (induction es) auto

lemma retained_id: "fits json_len es \<Longrightarrow> retained json_len es = es"
  by (cases es) auto

lemma retained_is_suffix: "suffix (retained json_len es) es"
  by (induction es) (auto simp: suffix_Cons)

lemma retained_longest: "suffix recent es \<Longrightarrow> fits json_len recent \<Longrightarrow> suffix recent (retained json_len es)"
  by (induction es) (auto simp: suffix_Cons)

lemma fits_butlast: "fits json_len (xs @ [e]) \<Longrightarrow> fits json_len xs"
  by (simp add: fits_def)

lemma retained_snoc: "retained json_len (retained json_len es @ [e]) = retained json_len (es @ [e])"
proof (induction es)
  case (Cons a es)
  show ?case
  proof (cases "fits json_len (a # es)")
    case False
    then have "\<not> fits json_len (a # es @ [e])" using fits_butlast [of json_len "a # es" e] by auto
    with False Cons show ?thesis by simp
  qed simp
qed simp

lemma evict_retained:
  assumes "xs_event_bytes st = sum_list (map json_len (xs_events st))"
  shows "evict json_len st = Some (st\<lparr>xs_events := retained json_len (xs_events st),
    xs_event_bytes := sum_list (map json_len (retained json_len (xs_events st)))\<rparr>)"
  using assms
proof (induction "xs_events st" arbitrary: st)
  case Nil
  then show ?case by (subst evict.simps) (simp add: MAX_JOURNAL_EVENTS_def)
next
  case (Cons e es)
  have st: "xs_events st = e # es" using Cons.hyps(2) by simp
  let ?st = "st\<lparr>xs_events := es, xs_event_bytes := xs_event_bytes st - json_len e\<rparr>"
  have "evict json_len ?st = Some (?st\<lparr>xs_events := retained json_len es,
      xs_event_bytes := sum_list (map json_len (retained json_len es))\<rparr>)"
    using Cons.hyps(1) [of ?st] Cons.prems st by simp
  moreover have "(length (xs_events st) > MAX_JOURNAL_EVENTS \<or> xs_event_bytes st > MAX_JOURNAL_BYTES) \<longleftrightarrow> \<not> fits json_len (e # es)"
    using Cons.prems st by (auto simp: fits_def)
  ultimately show ?case using Cons.prems st by (subst evict.simps) simp
qed

lemma append_locked_eq:
  assumes "lengths_bounded json_len" "xs_event_bytes st = sum_list (map json_len (xs_events st))" "fits json_len (xs_events st)"
    and rec_def: "rec = \<lparr>ev_sequence = xs_next_sequence st, ev_turn_id = turn_id, ev_timestamp = now, ev_event = event\<rparr>"
  shows "append_locked json_len now turn_id event st =
    Some (st\<lparr>xs_next_sequence := saturating_add (xs_next_sequence st) 1, xs_events := retained json_len (xs_events st @ [rec]),
      xs_event_bytes := sum_list (map json_len (retained json_len (xs_events st @ [rec])))\<rparr>)"
proof -
  have "xs_event_bytes st \<le> 16 * 1024 * 1024" "json_len rec \<le> 2 ^ 63 - 1"
    using assms(1-3) by (simp_all add: fits_def MAX_JOURNAL_BYTES_def lengths_bounded_def)
  then have "saturating_add (xs_event_bytes st) (json_len rec) = xs_event_bytes st + json_len rec"
    by (simp add: saturating_add_def u64_max_def)
  then show ?thesis
    using assms(2) by (simp add: append_locked_def Let_def rec_def evict_retained)
qed

lemma journal_all_retained:
  assumes "lengths_bounded json_len" "xs_event_bytes st = sum_list (map json_len (xs_events st))" "xs_events st = retained json_len H"
  shows "\<exists>st'. journal_all json_len items st = Some st' \<and> xs_events st' = retained json_len (H @ records (xs_next_sequence st) items) \<and>
    xs_event_bytes st' = sum_list (map json_len (xs_events st')) \<and> xs_active st' = xs_active st"
  using assms(2,3)
proof (induction items arbitrary: st H)
  case (Cons item items)
  obtain now turn_id event where item: "item = (now, turn_id, event)" by (metis prod_cases3)
  let ?rec = "\<lparr>ev_sequence = xs_next_sequence st, ev_turn_id = turn_id, ev_timestamp = now, ev_event = event\<rparr>"
  let ?es = "retained json_len (H @ [?rec])"
  let ?st = "st\<lparr>xs_next_sequence := saturating_add (xs_next_sequence st) 1, xs_events := ?es, xs_event_bytes := sum_list (map json_len ?es)\<rparr>"
  have "append_locked json_len now turn_id event st = Some ?st"
    using append_locked_eq [OF assms(1) Cons.prems(1) _ refl] Cons.prems(2) retained_fits retained_snoc by simp
  moreover have "\<exists>st'. journal_all json_len items ?st = Some st' \<and>
      xs_events st' = retained json_len ((H @ [?rec]) @ records (xs_next_sequence ?st) items) \<and>
      xs_event_bytes st' = sum_list (map json_len (xs_events st')) \<and> xs_active st' = xs_active ?st"
    by (rule Cons.IH) simp_all
  ultimately show ?case by (simp add: item)
qed simp

text \<open>
  C23. The journal is the longest recent history that fits. However many events a session appends,
  every append returns (the eviction loop ends), and the journal then holds exactly the longest
  suffix of everything appended that has at most 8192 events and at most 16 MiB of JSON.
\<close>

theorem journal_is_longest_fitting_suffix:
  assumes "lengths_bounded json_len"
  shows "\<exists>st. journal_all json_len items execution_new = Some st \<and>
    suffix (xs_events st) (records 1 items) \<and> fits json_len (xs_events st) \<and>
    (\<forall>recent. suffix recent (records 1 items) \<longrightarrow> fits json_len recent \<longrightarrow> suffix recent (xs_events st))"
proof -
  obtain st where "journal_all json_len items execution_new = Some st" "xs_events st = retained json_len (records 1 items)"
    using journal_all_retained [OF assms, of execution_new "[]" items] by (auto simp: execution_new_def)
  then show ?thesis using retained_fits retained_longest retained_is_suffix by auto
qed

lemma records_sequence:
  "n + length items \<le> u64_max \<Longrightarrow> map ev_sequence (records n items) = [n ..< n + length items]"
proof (induction n items rule: records.induct)
  case (2 n now turn_id event items)
  then have "saturating_add n 1 = Suc n" by (simp add: saturating_add_def)
  with 2 show ?case using upt_conv_Cons [of n "n + length ((now, turn_id, event) # items)"] by (simp del: upt_Suc)
qed simp

lemma records_snoc:
  "\<exists>xs e. records n (items @ [(now, turn_id, event)]) = xs @ [e] \<and> ev_event e = event"
proof (induction n items rule: records.induct)
  case (2 n now' turn_id' event' items)
  then show ?case by (metis append_Cons records.simps(2))
qed simp

lemma journal_all_new:
  assumes "lengths_bounded json_len" "journal_all json_len items execution_new = Some st"
  shows "xs_events st = retained json_len (records 1 items)"
  using journal_all_retained [OF assms(1), of execution_new "[]" items] assms(2) by (simp add: execution_new_def)

lemma retained_Nil_iff:
  assumes "\<And>e. json_len e \<le> MAX_JOURNAL_BYTES"
  shows "retained json_len es = [] \<longleftrightarrow> es = []"
proof
  assume none: "retained json_len es = []"
  show "es = []"
  proof (rule ccontr)
    assume "es \<noteq> []"
    then have "suffix [last es] es" by (metis append_butlast_last_id suffixI)
    moreover have "fits json_len [last es]" using assms by (simp add: fits_def MAX_JOURNAL_EVENTS_def)
    ultimately show False using retained_longest none by fastforce
  qed
qed simp

text \<open>
  A client that polls the journal learns of every gap. When no single event exceeds the byte
  limit, a batch that reports no truncation holds exactly the events after the client's sequence
  number that were ever appended; one that reports a truncation before \<open>f\<close> holds exactly the events
  from \<open>f\<close> on, and \<open>f\<close> is beyond the event the client expects next.
\<close>

theorem batch_reports_every_gap:
  assumes "lengths_bounded json_len" "\<And>e. json_len e \<le> MAX_JOURNAL_BYTES" "length items < u64_max"
    and st: "journal_all json_len items execution_new = Some st"
  shows "case eb_truncated_before (event_batch_of seen st) of
      None \<Rightarrow> eb_events (event_batch_of seen st) = filter (\<lambda>e. seen < ev_sequence e) (records 1 items)
    | Some f \<Rightarrow> seen + 1 < f \<and> eb_events (event_batch_of seen st) = filter (\<lambda>e. f \<le> ev_sequence e) (records 1 items)"
proof (cases "xs_events st")
  case Nil
  then have "records 1 items = []"
    using journal_all_new [OF assms(1) st] retained_Nil_iff [of json_len, OF assms(2)] by simp
  with Nil show ?thesis by (simp add: event_batch_of_def)
next
  case (Cons e es)
  obtain gone where R: "records 1 items = gone @ e # es"
    using retained_is_suffix [of json_len "records 1 items"] journal_all_new [OF assms(1) st] Cons by (auto simp: suffix_def)
  have seqs: "map ev_sequence (gone @ e # es) = [1 ..< 1 + length items]"
    using records_sequence [of 1 items] assms(3) R by simp
  have srt: "sorted (map ev_sequence (gone @ e # es))" "distinct (map ev_sequence (gone @ e # es))"
    unfolding seqs by (rule sorted_upt distinct_upt)+
  have before: "ev_sequence g < ev_sequence e" if "g \<in> set gone" for g
    using srt that by (force simp: sorted_append image_iff order.strict_iff_order)
  have later: "ev_sequence e \<le> ev_sequence x" if "x \<in> set es" for x
    using srt that by (auto simp: sorted_append)
  have "ev_sequence e \<in> set [1 ..< 1 + length items]" unfolding seqs [symmetric] by simp
  then have small: "ev_sequence e \<le> u64_max" using assms(3) by auto
  show ?thesis
  proof (cases "saturating_add seen 1 < ev_sequence e")
    case True
    then have "seen + 1 < ev_sequence e" using small by (simp add: saturating_add_def)
    moreover have "filter (\<lambda>x. ev_sequence e \<le> ev_sequence x) gone = []" using before by (fastforce simp: filter_empty_conv)
    moreover have "filter (\<lambda>x. ev_sequence e \<le> ev_sequence x) es = es" using later by simp
    moreover have "filter (\<lambda>x. seen < ev_sequence x) es = es" using later calculation(1) by (fastforce simp: filter_id_conv)
    ultimately show ?thesis using True by (simp add: event_batch_of_def Cons R [simplified])
  next
    case False
    then have "ev_sequence e \<le> seen + 1" by (auto simp: saturating_add_def)
    then have "filter (\<lambda>x. seen < ev_sequence x) gone = []" using before by (fastforce simp: filter_empty_conv)
    with False show ?thesis by (simp add: event_batch_of_def Cons R [simplified])
  qed
qed

text \<open>
  An event larger than the journal's byte limit empties the journal, and the loss is not
  reported: a client that has seen nothing gets an empty batch with no truncation mark, although
  events were appended.
\<close>

theorem oversized_event_hides_loss:
  assumes "lengths_bounded json_len"
    and big: "\<And>e. ev_event e = event \<Longrightarrow> MAX_JOURNAL_BYTES < json_len e"
  shows "\<exists>st. journal_all json_len (items @ [(now, turn_id, event)]) execution_new = Some st \<and>
    eb_events (event_batch_of 0 st) = [] \<and> eb_truncated_before (event_batch_of 0 st) = None"
proof -
  obtain st where st: "journal_all json_len (items @ [(now, turn_id, event)]) execution_new = Some st"
    "xs_events st = retained json_len (records 1 (items @ [(now, turn_id, event)]))"
    using journal_all_retained [OF assms(1), of execution_new "[]"] by (auto simp: execution_new_def)
  have "xs_events st = []"
  proof (rule ccontr)
    assume ne: "xs_events st \<noteq> []"
    obtain xs e where R: "records 1 (items @ [(now, turn_id, event)]) = xs @ [e]" "ev_event e = event" using records_snoc by blast
    obtain gone where "xs @ [e] = gone @ xs_events st"
      using retained_is_suffix [of json_len "xs @ [e]"] st(2) R(1) by (auto simp: suffix_def)
    then have "e \<in> set (xs_events st)" using ne by (metis last_appendR last_in_set last_snoc)
    then have "json_len e \<le> sum_list (map json_len (xs_events st))" by (simp add: member_le_sum_list)
    then show False
      using big [OF R(2)] retained_fits [of json_len "records 1 (items @ [(now, turn_id, event)])"] st(2) by (simp add: fits_def)
  qed
  with st show ?thesis by (simp add: event_batch_of_def)
qed

theorem journal_is_longest_fitting_suffix_witness:
  "\<exists>st. journal_all (\<lambda>_. 10) [(5, ''t'', TurnCompleted), (6, ''t'', TurnCancelled)] execution_new = Some st \<and>
    suffix (xs_events st) (records 1 [(5, ''t'', TurnCompleted), (6, ''t'', TurnCancelled)]) \<and> fits (\<lambda>_. 10) (xs_events st) \<and>
    (\<forall>recent. suffix recent (records 1 [(5, ''t'', TurnCompleted), (6, ''t'', TurnCancelled)]) \<longrightarrow>
      fits (\<lambda>_. 10) recent \<longrightarrow> suffix recent (xs_events st))"
  by (rule journal_is_longest_fitting_suffix) (simp add: lengths_bounded_def)

theorem batch_reports_every_gap_witness:
  "case eb_truncated_before (event_batch_of 0 (the (journal_all (\<lambda>_. 10) [(5, ''t'', TurnCompleted)] execution_new))) of
      None \<Rightarrow> eb_events (event_batch_of 0 (the (journal_all (\<lambda>_. 10) [(5, ''t'', TurnCompleted)] execution_new)))
        = filter (\<lambda>e. 0 < ev_sequence e) (records 1 [(5, ''t'', TurnCompleted)])
    | Some f \<Rightarrow> 0 + 1 < f \<and> eb_events (event_batch_of 0 (the (journal_all (\<lambda>_. 10) [(5, ''t'', TurnCompleted)] execution_new)))
        = filter (\<lambda>e. f \<le> ev_sequence e) (records 1 [(5, ''t'', TurnCompleted)])"
proof (rule batch_reports_every_gap [where json_len = "\<lambda>_. 10"])
  have "\<exists>st. journal_all (\<lambda>_. 10) [(5, ''t'', TurnCompleted)] execution_new = Some st"
    using journal_all_retained [of "\<lambda>_. 10" execution_new "[]" "[(5, ''t'', TurnCompleted)]"]
    by (auto simp: lengths_bounded_def execution_new_def)
  then show "journal_all (\<lambda>_. 10) [(5, ''t'', TurnCompleted)] execution_new =
    Some (the (journal_all (\<lambda>_. 10) [(5, ''t'', TurnCompleted)] execution_new))" by auto
qed (simp_all add: lengths_bounded_def MAX_JOURNAL_BYTES_def u64_max_def)

theorem oversized_event_hides_loss_witness:
  "\<exists>st. journal_all (\<lambda>e. if ev_event e = TurnFailed ''long'' None then 2 ^ 30 else 10)
      ([(5, ''t'', TurnCompleted)] @ [(6, ''t'', TurnFailed ''long'' None)]) execution_new = Some st \<and>
    eb_events (event_batch_of 0 st) = [] \<and> eb_truncated_before (event_batch_of 0 st) = None"
  by (rule oversized_event_hides_loss) (simp_all add: lengths_bounded_def MAX_JOURNAL_BYTES_def)

section \<open>How approvals are used\<close>

text \<open>
  Everything that can happen to a session's execution state, in any order: client requests and the
  observer of a turn. The labels keep the approvals: what a turn asked, what a client answered and
  which answers a turn took.
\<close>

datatype exec_label =
    Requested "string \<times> string"
  | Replied "string \<times> string" approval_decision
  | Decided "string \<times> string" approval_decision

inductive exec_run :: "(session_event \<Rightarrow> nat) \<Rightarrow> exec_label list \<Rightarrow> execution_state \<Rightarrow> bool" for json_len where
  run_new: "exec_run json_len [] execution_new"
| run_reserve: "exec_run json_len ls st \<Longrightarrow> reserve turn_id st = (Ok (), st') \<Longrightarrow> exec_run json_len ls st'"
| run_append: "exec_run json_len ls st \<Longrightarrow> append_locked json_len now turn_id event st = Some st' \<Longrightarrow> exec_run json_len ls st'"
| run_finish: "exec_run json_len ls st \<Longrightarrow> exec_run json_len ls (finish_locked turn_id st)"
| run_cancel: "exec_run json_len ls st \<Longrightarrow> exec_run json_len ls (snd (cancel turn_id st))"
| run_cancel_active: "exec_run json_len ls st \<Longrightarrow> exec_run json_len ls (cancel_active st)"
| run_request: "exec_run json_len ls st \<Longrightarrow> innermost event = ApprovalRequested call reason \<Longrightarrow>
    exec_run json_len (ls @ [Requested (turn_id, tc_id call)]) (register_request turn_id event st)"
| run_reply: "exec_run json_len ls st \<Longrightarrow> approve reply st = (Ok (), st') \<Longrightarrow>
    exec_run json_len (ls @ [Replied (rp_turn_id reply, rp_call_id reply) (rp_decision reply)]) st'"
| run_poll: "exec_run json_len ls st \<Longrightarrow> poll_approval False key st = (Some d, st') \<Longrightarrow>
    exec_run json_len (ls @ [Decided key d]) st'"

fun requests :: "string \<times> string \<Rightarrow> exec_label list \<Rightarrow> nat" where
  "requests key [] = 0"
| "requests key (Requested k # ls) = (if k = key then 1 else 0) + requests key ls"
| "requests key (_ # ls) = requests key ls"

fun replies :: "string \<times> string \<Rightarrow> exec_label list \<Rightarrow> nat" where
  "replies key [] = 0"
| "replies key (Replied k _ # ls) = (if k = key then 1 else 0) + replies key ls"
| "replies key (_ # ls) = replies key ls"

fun decisions :: "string \<times> string \<Rightarrow> exec_label list \<Rightarrow> nat" where
  "decisions key [] = 0"
| "decisions key (Decided k _ # ls) = (if k = key then 1 else 0) + decisions key ls"
| "decisions key (_ # ls) = decisions key ls"

lemma label_counts_append [simp]:
  "requests key (xs @ ys) = requests key xs + requests key ys"
  "replies key (xs @ ys) = replies key xs + replies key ys"
  "decisions key (xs @ ys) = decisions key xs + decisions key ys"
proof -
  show "requests key (xs @ ys) = requests key xs + requests key ys" by (induction key xs rule: requests.induct) simp_all
  show "replies key (xs @ ys) = replies key xs + replies key ys" by (induction key xs rule: replies.induct) simp_all
  show "decisions key (xs @ ys) = decisions key xs + decisions key ys" by (induction key xs rule: decisions.induct) simp_all
qed

definition approvals_ok :: "exec_label list \<Rightarrow> execution_state \<Rightarrow> bool" where
  "approvals_ok ls st \<longleftrightarrow>
     (\<forall>key. replies key ls \<le> requests key ls \<and> (key \<in> set (xs_pending st) \<longrightarrow> replies key ls < requests key ls)) \<and>
     (\<forall>key. decisions key ls \<le> replies key ls \<and> (map_of (xs_approvals st) key \<noteq> None \<longrightarrow> decisions key ls < replies key ls)) \<and>
     (\<forall>key d. map_of (xs_approvals st) key = Some d \<longrightarrow> Replied key d \<in> set ls) \<and>
     (\<forall>key d. Decided key d \<in> set ls \<longrightarrow> Replied key d \<in> set ls)"

lemma evict_frame:
  assumes "evict json_len st = Some st'"
  shows "\<exists>es n. st' = st\<lparr>xs_events := es, xs_event_bytes := n\<rparr>"
  using assms
proof (rule evict.raw_induct [rotated])
  fix f json_len st st'
  assume IH: "\<And>json_len st st'. f json_len st = Some st' \<Longrightarrow> \<exists>es n. st' = st\<lparr>xs_events := es, xs_event_bytes := n\<rparr>"
    and body: "(if length (xs_events st) > MAX_JOURNAL_EVENTS \<or> xs_event_bytes st > MAX_JOURNAL_BYTES then
        (case xs_events st of
           [] \<Rightarrow> f json_len st
         | removed # rest \<Rightarrow> f json_len (st\<lparr>xs_events := rest, xs_event_bytes := xs_event_bytes st - json_len removed\<rparr>))
      else Some st) = Some st'"
  have "\<exists>es n. st = st\<lparr>xs_events := es, xs_event_bytes := n\<rparr>"
    by (intro exI [of _ "xs_events st"] exI [of _ "xs_event_bytes st"]) simp
  with body show "\<exists>es n. st' = st\<lparr>xs_events := es, xs_event_bytes := n\<rparr>"
    by (auto split: if_splits list.splits dest!: IH) blast+
qed

lemma append_locked_frame:
  "append_locked json_len now turn_id event st = Some st' \<Longrightarrow>
   xs_approvals st' = xs_approvals st \<and> xs_pending st' = xs_pending st \<and> xs_active st' = xs_active st"
  by (auto simp: append_locked_def Let_def dest!: evict_frame)

lemma map_of_filter_key: "map_of (filter (\<lambda>a. P (fst a)) al) k = (if P k then map_of al k else None)"
  by (induction al) auto

lemma exec_run_approvals_ok: "exec_run json_len ls st \<Longrightarrow> approvals_ok ls st"
proof (induction rule: exec_run.induct)
  case run_new
  then show ?case by (simp add: approvals_ok_def execution_new_def)
next
  case (run_reserve ls st turn_id st')
  then show ?case by (auto simp: approvals_ok_def reserve_def split: option.splits)
next
  case (run_append ls st now turn_id event st')
  then show ?case using append_locked_frame [OF run_append(2)] by (simp add: approvals_ok_def)
next
  case (run_finish ls st turn_id)
  then show ?case by (auto simp: approvals_ok_def finish_locked_def map_of_filter_key [of "\<lambda>k. fst k \<noteq> turn_id"] split: if_splits)
next
  case (run_cancel ls st turn_id)
  then show ?case by (auto simp: approvals_ok_def cancel_def split: option.splits)
next
  case (run_cancel_active ls st)
  then show ?case by (simp add: approvals_ok_def cancel_active_def)
next
  case (run_request ls st event call reason turn_id)
  then show ?case by (auto simp: approvals_ok_def register_request_def less_Suc_eq_le intro: le_SucI)
next
  case (run_reply ls st reply st')
  then show ?case by (auto simp: approvals_ok_def approve_def Let_def update_conv' less_Suc_eq_le le_Suc_eq Suc_le_eq split: if_splits)
next
  case (run_poll ls st key d st')
  then show ?case by (auto simp: approvals_ok_def poll_approval_def delete_conv' Suc_le_eq split: option.splits if_splits)
qed

text \<open>
  C24. An answer is used once and only for the call it was given for. Whatever clients and turns do,
  and in whatever order: a turn takes a decision only if a client replied with that very decision
  for that turn and that call, it takes no more decisions for a call than clients gave replies, and
  no more replies are accepted than the turn made requests.
\<close>

theorem approval_replies_are_used_once:
  assumes "exec_run json_len ls st"
  shows "decisions key ls \<le> replies key ls \<and> replies key ls \<le> requests key ls \<and>
    (Decided key d \<in> set ls \<longrightarrow> Replied key d \<in> set ls)"
  using exec_run_approvals_ok [OF assms] unfolding approvals_ok_def by blast

definition demo_call :: tool_call where
  "demo_call = \<lparr>tc_id = ''c'', tc_name = ''run_shell'', tc_arguments = JNull\<rparr>"

definition demo_reply :: approval_reply where
  "demo_reply = \<lparr>rp_turn_id = ''t'', rp_call_id = ''c'', rp_decision = Approve\<rparr>"

theorem approval_replies_are_used_once_witness:
  "decisions (''t'', ''c'') [Requested (''t'', ''c''), Replied (''t'', ''c'') Approve, Decided (''t'', ''c'') Approve] \<le>
     replies (''t'', ''c'') [Requested (''t'', ''c''), Replied (''t'', ''c'') Approve, Decided (''t'', ''c'') Approve] \<and>
   replies (''t'', ''c'') [Requested (''t'', ''c''), Replied (''t'', ''c'') Approve, Decided (''t'', ''c'') Approve] \<le>
     requests (''t'', ''c'') [Requested (''t'', ''c''), Replied (''t'', ''c'') Approve, Decided (''t'', ''c'') Approve] \<and>
   Replied (''t'', ''c'') Approve \<in> set [Requested (''t'', ''c''), Replied (''t'', ''c'') Approve, Decided (''t'', ''c'') Approve]"
proof -
  let ?len = "\<lambda>_ :: session_event. 1 :: nat"
  let ?s1 = "snd (reserve ''t'' execution_new)"
  let ?s2 = "register_request ''t'' (ApprovalRequested demo_call None) ?s1"
  let ?s3 = "snd (approve demo_reply ?s2)"
  have "exec_run ?len [] ?s1" by (rule run_reserve [OF run_new]) (simp add: reserve_def execution_new_def)
  from run_request [OF this, of "ApprovalRequested demo_call None" demo_call None "''t''"]
  have "exec_run ?len [Requested (''t'', ''c'')] ?s2" by (simp add: demo_call_def)
  then have "exec_run ?len ([Requested (''t'', ''c'')] @ [Replied (rp_turn_id demo_reply, rp_call_id demo_reply) (rp_decision demo_reply)]) ?s3"
    by (rule run_reply) (simp add: approve_def demo_reply_def register_request_def reserve_def execution_new_def demo_call_def)
  then have "exec_run ?len (([Requested (''t'', ''c'')] @ [Replied (rp_turn_id demo_reply, rp_call_id demo_reply) (rp_decision demo_reply)])
      @ [Decided (''t'', ''c'') Approve]) (snd (poll_approval False (''t'', ''c'') ?s3))"
    by (rule run_poll)
      (simp add: approve_def demo_reply_def register_request_def reserve_def execution_new_def demo_call_def poll_approval_def)
  from approval_replies_are_used_once [OF this, of "(''t'', ''c'')" Approve] show ?thesis by (simp add: demo_reply_def)
qed

end
