(* ===== verification/Engine_Observed.thy ===== *)
theory Engine_Observed
  imports Engine "HOL-Library.Sublist"
begin

text \<open>
  An interface between the agent loop and whoever observes it. The observer's world is part of the
  engine's state; an invariant of that state which every single step keeps is kept by a whole turn,
  subagents included. A tool runs only in a situation the interface describes: its request and its
  decision were emitted before, and no cancellation was seen after that.
\<close>

definition announced :: "string list \<Rightarrow> tool_call \<Rightarrow> action list \<Rightarrow> bool" where
  "announced agents sc acts \<longleftrightarrow> Emit (wrap agents (ToolRequested sc)) \<in> set acts"

lemma announced_mono: "announced agents sc xs \<Longrightarrow> prefix xs ys \<Longrightarrow> announced agents sc ys"
  by (auto simp: announced_def prefix_def)

locale observed_engine =
  fixes env :: "('w, 'd) env" and I :: "'w shared \<Rightarrow> bool"
  assumes emitted: "I sh \<Longrightarrow> I (emit env agents e sh)"
    and charged: "I sh \<Longrightarrow> I (sh\<lparr>sh_budget := b\<rparr>)"
    and asked_provider: "I sh \<Longrightarrow> env_chat env request tools (sh_world sh) = (x, w) \<Longrightarrow>
      I (sh\<lparr>sh_budget := b, sh_world := w, sh_trace := sh_trace sh @ [Chat request]\<rparr>)"
    and asked_user: "I sh \<Longrightarrow> env_approve env sc reason (sh_world sh) = (d, w) \<Longrightarrow>
      I (sh\<lparr>sh_world := w, sh_trace := sh_trace sh @ [AskApproval sc reason d]\<rparr>)"
    and prepared: "I sh \<Longrightarrow> prepare_call (env_os env) call cwd sensitive blocked (sh_world sh) = (p, w) \<Longrightarrow> I (sh\<lparr>sh_world := w\<rparr>)"
    and executed: "I sh \<Longrightarrow> \<not> is_cancelled env sh \<Longrightarrow> announced agents sc (sh_trace sh) \<Longrightarrow>
      last (sh_trace sh) = Emit (wrap agents (ToolDecision (tc_id sc) Approve)) \<Longrightarrow>
      execute_prepared (env_os env) (env_lossy env) (env_shell env timeout) call p (sh_world sh) = (result, w) \<Longrightarrow>
      I (sh\<lparr>sh_trace := sh_trace sh @ [Execute call sc facts], sh_world := w\<rparr>)"
begin

definition keeps :: "'w shared \<Rightarrow> 'w shared \<Rightarrow> bool" where
  "keeps sh sh' \<longleftrightarrow> (I sh \<longrightarrow> I sh') \<and> prefix (sh_trace sh) (sh_trace sh')"

lemma keeps_refl [simp]: "keeps sh sh"
  by (simp add: keeps_def)

lemma keeps_trans [trans]: "keeps sh sh1 \<Longrightarrow> keeps sh1 sh2 \<Longrightarrow> keeps sh sh2"
  by (auto simp: keeps_def intro: prefix_order.trans)

lemma keeps_announced: "keeps sh sh' \<Longrightarrow> announced agents sc (sh_trace sh) \<Longrightarrow> announced agents sc (sh_trace sh')"
  by (auto simp: keeps_def intro: announced_mono)

lemma keeps_emit [simp]: "keeps sh (emit env agents e sh)"
  using emitted by (simp add: keeps_def emit_def)

lemma emit_all_Cons: "emit_all env agents (e # es) sh = emit_all env agents es (emit env agents e sh)"
  by (simp add: emit_all_def)

lemma keeps_emit_all [simp]: "keeps sh (emit_all env agents es sh)"
proof (induction es arbitrary: sh)
  case (Cons e es)
  then show ?case unfolding emit_all_Cons by (blast intro: keeps_trans keeps_emit)
qed (simp add: emit_all_def)

lemma keeps_emitI [intro!]:
  "keeps sh sh' \<Longrightarrow> keeps sh (emit env agents e sh')"
  "keeps sh sh' \<Longrightarrow> keeps sh (emit_all env agents es sh')"
  "keeps sh sh' \<Longrightarrow> keeps sh (emit_partial_response env agents t sh')"
  using keeps_trans keeps_emit keeps_emit_all by (auto simp: emit_partial_response_def)

lemma emit_all_announces: "e \<in> set es \<Longrightarrow> Emit (wrap agents e) \<in> set (sh_trace (emit_all env agents es sh))"
proof (induction es arbitrary: sh)
  case (Cons a es)
  have "prefix (sh_trace (emit env agents a sh)) (sh_trace (emit_all env agents es (emit env agents a sh)))"
    using keeps_emit_all unfolding keeps_def by blast
  then have "Emit (wrap agents a) \<in> set (sh_trace (emit_all env agents (a # es) sh))"
    unfolding emit_all_Cons by (auto simp: emit_def prefix_def)
  with Cons show ?case unfolding emit_all_Cons by auto
qed simp

lemma keeps_budget [simp]: "keeps sh (sh\<lparr>sh_budget := b\<rparr>)"
  using charged by (simp add: keeps_def)

lemma refuse_tool_call_keeps: "refuse_tool_call env agents call sc result st sh = (st', sh') \<Longrightarrow> keeps sh sh'"
  by (auto simp: refuse_tool_call_def)

lemma refuse_all_keeps: "refuse_all env agents result calls st sh = (st', sh') \<Longrightarrow> keeps sh sh'"
proof (induction calls arbitrary: st sh)
  case (Cons a rest)
  obtain call sc st1 sh1 where a: "a = (call, sc)" and r: "refuse_tool_call env agents call sc result st sh = (st1, sh1)"
    by (metis prod.collapse)
  with Cons have "keeps sh1 sh'" by simp
  with refuse_tool_call_keeps [OF r] show ?case by (rule keeps_trans)
qed simp

lemma compact_history_keeps: "compact_history env agents policy h sh = (h', sh') \<Longrightarrow> keeps sh sh'"
  by (auto simp: compact_history_def split: prod.splits option.splits)

lemma handle_overflow_keeps: "keeps sh (step_shared (handle_overflow env policy agents m st sh))"
  unfolding handle_overflow_def Let_def by (auto split: prod.splits option.splits)

lemma handle_outcome_keeps: "keeps sh (step_shared (handle_outcome env policy agents staged t outcome st sh))"
  unfolding handle_outcome_def Let_def using handle_overflow_keeps
  by (auto split: provider_outcome.splits sum.splits option.splits adapter_error.splits bool.splits)

lemma provider_request_keeps: "keeps sh (step_shared (provider_request env policy agents st sh))"
proof -
  obtain b r where c: "charge_provider_request (env_now env (sh_world sh)) (sh_budget sh) = (b, r)" by fastforce
  show ?thesis
  proof (cases r)
    case (Inl e)
    with c show ?thesis by (simp add: provider_request_def)
  next
    case (Inr u)
    define staged where "staged = stage_compaction (env_json env) (tp_compactor policy) (st_history st)"
    define request where "request = fst (merge_system_messages (case staged of Some (h, _) \<Rightarrow> h | None \<Rightarrow> st_history st))"
    obtain deltas outcome w where chat: "env_chat env request (ts_definitions (tp_tools policy)) (sh_world sh)
        = ((deltas, outcome), w)" by (metis prod.collapse)
    let ?sh = "sh\<lparr>sh_budget := b, sh_world := w, sh_trace := sh_trace sh @ [Chat request]\<rparr>"
    have "keeps sh ?sh" using asked_provider [OF _ chat] by (simp add: keeps_def)
    then have "keeps sh (emit_all env agents (map TextDelta deltas) ?sh)" by blast
    moreover have "provider_request env policy agents st sh = handle_outcome env policy agents staged (concat deltas) outcome st
        (emit_all env agents (map TextDelta deltas) ?sh)"
      using c Inr chat by (simp add: provider_request_def Let_def staged_def [symmetric] request_def [symmetric])
    ultimately show ?thesis using handle_outcome_keeps keeps_trans by metis
  qed
qed

lemma finish_call_keeps: "finish_call env agents call sc rest result ab st sh = (r, st', sh') \<Longrightarrow> keeps sh sh'"
  unfolding finish_call_def Let_def by (auto split: if_splits)

lemma decide_call_keeps:
  assumes "decide_call env policy agents sc reason facts sh = (d, sh')"
  shows "keeps sh sh'"
proof (cases "rules_decide (env_shell_words env) (tp_rules policy) facts (tp_approval policy)")
  case Prompt
  let ?r = "case reason of Some r \<Rightarrow> r | None \<Rightarrow> PolicyGate"
  let ?sh = "emit env agents (ApprovalRequested sc (Some ?r)) sh"
  obtain w where w: "env_approve env sc ?r (sh_world ?sh) = (d, w)"
    and sh': "sh' = ?sh\<lparr>sh_world := w, sh_trace := sh_trace ?sh @ [AskApproval sc ?r d]\<rparr>"
    using assms Prompt by (auto simp: decide_call_def Let_def split: prod.splits)
  have "keeps ?sh sh'" using asked_user [OF _ w] unfolding sh' by (simp add: keeps_def)
  then show ?thesis by (rule keeps_trans [OF keeps_emit])
qed (use assms in \<open>auto simp: decide_call_def\<close>)

lemma record_response_keeps:
  assumes "record_response env agents response st sh = Some (scs, st', sh')"
  shows "keeps sh sh'" "\<And>sc. sc \<in> set scs \<Longrightarrow> announced agents sc (sh_trace sh')"
  using assms emit_all_announces by (auto simp: record_response_def Let_def announced_def split: option.splits)

end

text \<open>A nested turn keeps the invariant; then so does the tool loop that may start it.\<close>

locale observed_child = observed_engine env I for env :: "('w, 'd) env" and I +
  fixes child :: "'w child"
  assumes child_keeps: "child policy agents h task sh = Some (r, h', ab, sh') \<Longrightarrow> keeps sh sh'"
begin

lemma run_delegation_keeps:
  assumes "run_delegation env child policy agents call n sh = Some (d, sh')"
  shows "keeps sh sh'"
proof -
  have "keeps sh sh'" if "start_subagent env child policy agents task tools name sh = Some (d, sh')" for task tools name
    using that unfolding start_subagent_def Let_def
    by (auto split: option.splits prod.splits intro: keeps_trans [OF keeps_emit] dest!: child_keeps)
  then show ?thesis
    using assms unfolding run_delegation_def Let_def by (simp split: option.splits sum.splits if_splits; blast)
qed

lemma run_call_keeps:
  assumes "run_call env child policy agents call sc rest t p denied d st sh = Some (r, st', sh')"
    and "\<not> is_cancelled env sh" "announced agents sc (sh_trace sh)" "last (sh_trace sh) = Emit (wrap agents (ToolDecision (tc_id sc) d))"
  shows "keeps sh sh'"
proof (cases "denied \<or> d \<noteq> Approve")
  case True
  then show ?thesis using assms(1) finish_call_keeps by (auto simp: run_call_def split: if_splits)
next
  case run: False
  show ?thesis
  proof (cases "t = DelegateTask")
    case True
    with run assms(1) show ?thesis
      by (auto simp: run_call_def Let_def split: option.splits
          dest!: run_delegation_keeps finish_call_keeps intro: keeps_trans)
  next
    case False
    let ?sh = "sh\<lparr>sh_trace := sh_trace sh @ [Execute call sc (call_facts_of call t p)]\<rparr>"
    obtain result w st2 where
      x: "execute_prepared (env_os env) (env_lossy env) (env_shell env (tl_shell_timeout (b_limits (sh_budget sh)))) call p (sh_world sh)
        = (result, w)"
      and f: "finish_call env agents call sc rest result False st2 (?sh\<lparr>sh_world := w\<rparr>) = (r, st', sh')"
      using run False assms(1) by (auto simp: run_call_def Let_def split: prod.splits)
    have "keeps sh (?sh\<lparr>sh_world := w\<rparr>)"
      using executed [OF _ assms(2,3) _ x] assms(4) run by (simp add: keeps_def)
    then show ?thesis using finish_call_keeps [OF f] by (rule keeps_trans)
  qed
qed

lemma evaluate_call_keeps:
  assumes "evaluate_call env child policy agents cwd call sc rest t st sh = Some (r, st', sh')"
    and "announced agents sc (sh_trace sh)"
  shows "keeps sh sh'"
proof -
  obtain p w where p: "prepare_call (env_os env) call cwd (tp_sensitive_paths policy) (tp_blocked_paths policy) (sh_world sh)
      = (p, w)" by fastforce
  let ?facts = "call_facts_of call t p"
  obtain d sh1 where d: "decide_call env policy agents sc (gate call p) ?facts (sh\<lparr>sh_world := w\<rparr>) = (d, sh1)"
    by fastforce
  let ?sh = "emit env agents (ToolDecision (tc_id sc) d) sh1"
  have "keeps sh (sh\<lparr>sh_world := w\<rparr>)" using prepared [OF _ p] by (simp add: keeps_def)
  from keeps_trans [OF this decide_call_keeps [OF d]] have k: "keeps sh ?sh" by blast
  have ann: "announced agents sc (sh_trace ?sh)" by (rule keeps_announced [OF k assms(2)])
  have lst: "last (sh_trace ?sh) = Emit (wrap agents (ToolDecision (tc_id sc) d))" by (simp add: emit_def)
  let ?denied = "rules_decide (env_shell_words env) (tp_rules policy) ?facts (tp_approval policy) = Deny \<and>
             default_decision ?facts (tp_approval policy) \<noteq> Deny"
  consider (cancelled) "sh' = ?sh"
    | (aborted) "sh' = emit env agents TurnAborted (emit_all env agents (skip_events (map snd rest)) ?sh)"
    | (run) "\<not> is_cancelled env ?sh" "run_call env child policy agents call sc rest t p ?denied d st ?sh = Some (r, st', sh')"
    using assms(1) unfolding evaluate_call_def p Let_def prod.case d by (auto split: if_splits)
  then show ?thesis
  proof cases
    case run
    show ?thesis by (rule keeps_trans [OF k run_call_keeps [OF run(2,1) ann lst]])
  qed (use k in auto)
qed

lemma dispatch_call_keeps:
  assumes "dispatch_call env child policy agents cwd index call sc rest st sh = Some (r, st', sh')"
    and "announced agents sc (sh_trace sh)"
  shows "keeps sh sh'"
proof -
  obtain b c where ch: "charge_tool_call (env_now env (sh_world sh)) (sh_budget sh) = (b, c)" by fastforce
  consider "sh' = sh"
    | result st1 where "refuse_tool_call env agents call sc result st sh = (st1, sh')"
    | result st1 where "refuse_all env agents result ((call, sc) # rest) st (sh\<lparr>sh_budget := b\<rparr>) = (st1, sh')"
    | result st1 where "refuse_tool_call env agents call sc result st (sh\<lparr>sh_budget := b\<rparr>) = (st1, sh')"
    | t where "evaluate_call env child policy agents cwd call sc rest t st (sh\<lparr>sh_budget := b\<rparr>) = Some (r, st', sh')"
    using assms(1) unfolding dispatch_call_def Let_def ch
    by (simp split: if_splits sum.splits option.splits prod.splits) blast+
  then show ?thesis
    using assms(2)
    by cases (auto simp del: refuse_all.simps intro: keeps_trans [OF keeps_budget]
        dest: refuse_tool_call_keeps refuse_all_keeps evaluate_call_keeps)
qed

lemma run_tools_keeps:
  assumes "run_tools env child policy agents cwd index calls st sh = Some (r, st', sh')"
    and "\<And>call sc. (call, sc) \<in> set calls \<Longrightarrow> announced agents sc (sh_trace sh)"
  shows "keeps sh sh'"
  using assms
proof (induction calls arbitrary: index st sh)
  case (Cons a rest)
  obtain call sc where a: "a = (call, sc)" by fastforce
  with Cons.prems obtain r1 st1 sh1 where
    d: "dispatch_call env child policy agents cwd index call sc rest st sh = Some (r1, st1, sh1)"
    by (auto split: option.splits)
  have k: "keeps sh sh1" by (rule dispatch_call_keeps [OF d]) (use Cons.prems(2) a in auto)
  show ?case
  proof (cases r1)
    case None
    with Cons.prems a d have "run_tools env child policy agents cwd (Suc index) rest st1 sh1 = Some (r, st', sh')" by simp
    from Cons.IH [OF this] have "keeps sh1 sh'" using keeps_announced [OF k] Cons.prems(2) a by auto
    with k show ?thesis by (rule keeps_trans)
  next
    case (Some x)
    with Cons.prems a d k show ?thesis by simp
  qed
qed simp

end

section \<open>A whole turn\<close>

context observed_engine
begin

lemma agent_loop_keeps: "agent_loop env cwd fuel policy agents st sh = Some (r, st', sh') \<Longrightarrow> keeps sh sh'"
proof (induction fuel arbitrary: policy agents st sh r st' sh')
  case (Suc fuel)
  have child: "observed_child env I (subturn env cwd fuel)"
    by unfold_locales (auto simp: subturn_def dest: Suc.IH)
  obtain q where q: "provider_request env policy agents st sh = q" by blast
  have k: "keeps sh (step_shared q)" using provider_request_keeps q by blast
  show ?case
  proof (cases q)
    case (Stop e x)
    with q k Suc.prems show ?thesis by (cases x) simp
  next
    case (Retry x)
    with q Suc.prems have "keeps (step_shared q) sh'" by (cases x) (auto dest: Suc.IH)
    with k show ?thesis by (rule keeps_trans)
  next
    case (Sent response x)
    obtain st1 sh1 where x: "x = (st1, sh1)" by fastforce
    with Suc.prems q Sent obtain scs st2 sh2 where rr: "record_response env agents response st1 sh1 = Some (scs, st2, sh2)"
      by (auto simp: Let_def split: option.splits)
    have k2: "keeps sh sh2" using keeps_trans [OF k] record_response_keeps(1) [OF rr] Sent x by auto
    have ann: "announced agents sc (sh_trace sh2)" if "(call, sc) \<in> set (zip (ar_tool_calls response) scs)" for call sc
      using record_response_keeps(2) [OF rr] set_zip_rightD [OF that] by blast
    have tools: "keeps sh2 sh''" if "run_tools env (subturn env cwd fuel) policy agents cwd 0 (zip (ar_tool_calls response) scs) st2 sh2
        = Some (r', st'', sh'')" for r' st'' sh''
      by (rule observed_child.run_tools_keeps [OF child that ann])
    have "keeps sh2 sh'"
      using Suc.prems q Sent x rr
      by (auto simp: Let_def subturn_eq split: if_splits option.splits prod.splits
          dest!: tools compact_history_keeps Suc.IH intro: keeps_trans keeps_trans [OF keeps_emit])
    with k2 show ?thesis by (rule keeps_trans)
  qed
qed simp

lemma run_agent_turn_keeps:
  assumes "run_agent_turn env cwd policy history message w = Some (r, st, sh)"
    and "\<And>b. I \<lparr>sh_world = w, sh_budget = b, sh_trace = []\<rparr>"
  shows "I sh"
  using assms agent_loop_keeps unfolding run_agent_turn_def run_agent_turn_with_budget_def keeps_def by blast

end

end
