(* ===== verification/Os_Progress.thy ===== *)
theory Os_Progress
  imports Tools
begin

text \<open>
  The file tools reach the outside world only through the operating system's calls and the shell.
  So whatever way the world may move on in one of these calls, a preparation or an execution moves
  on in that way: the relation \<open>R\<close> is any preorder every single call stays within.
\<close>

locale os_progress =
  fixes sys :: "('w, 'd) os" and R :: "'w \<Rightarrow> 'w \<Rightarrow> bool"
  assumes R_refl: "R w w" and R_trans: "R u v \<Longrightarrow> R v w \<Longrightarrow> R u w"
    and canonicalize_R: "R w (snd (os_canonicalize sys p w))"
    and openat_R: "R w (snd (os_openat sys par p flags w))"
    and fstatat_R: "R w (snd (os_fstatat sys d p w))"
    and fstat_R: "R w (snd (os_fstat sys d w))"
    and readlinkat_R: "R w (snd (os_readlinkat sys d p w))"
    and read_R: "R w (snd (os_read sys d n w))"
    and readdir_R: "R w (snd (os_readdir sys d w))"
begin

lemma bind_R: "R u (snd m) \<Longrightarrow> (\<And>a v. m = (Inr a, v) \<Longrightarrow> R u v \<Longrightarrow> R u (snd (f a v))) \<Longrightarrow> R u (snd (bind_w m f))"
  by (cases m) (auto simp: bind_w_def split: sum.splits)

lemma context_R: "R u (snd m) \<Longrightarrow> R u (snd (with_context t m))"
  by (cases m) (auto simp: with_context_def split: sum.splits)

lemma if_R: "(b \<Longrightarrow> R u (snd x)) \<Longrightarrow> (\<not> b \<Longrightarrow> R u (snd y)) \<Longrightarrow> R u (snd (if b then x else y))"
  by simp

lemma pure_R: "R u w \<Longrightarrow> R u (snd (r, w))" "R u w \<Longrightarrow> R u (snd (c_name n w))"
  by (simp_all add: c_name_def)

lemma call_R:
  "R u w \<Longrightarrow> R u (snd (os_canonicalize sys p w))" "R u w \<Longrightarrow> R u (snd (os_openat sys par p flags w))"
  "R u w \<Longrightarrow> R u (snd (os_fstatat sys d p w))" "R u w \<Longrightarrow> R u (snd (os_fstat sys d w))"
  "R u w \<Longrightarrow> R u (snd (os_readlinkat sys d p w))" "R u w \<Longrightarrow> R u (snd (os_read sys d n w))"
  "R u w \<Longrightarrow> R u (snd (os_readdir sys d w))" "R u w \<Longrightarrow> R u (snd (open_at sys par p flags w))"
  using R_trans canonicalize_R openat_R fstatat_R fstat_R readlinkat_R read_R readdir_R
  by (auto simp: open_at_def; blast)+

lemma relative_to_root_R: "R u w \<Longrightarrow> R u (snd (relative_to_root sys root spelled requested w))"
  using call_R(1) [of u w requested] by (auto simp: relative_to_root_def Let_def split: option.splits sum.splits prod.splits)

lemmas progress = bind_R context_R pure_R call_R relative_to_root_R

lemma walk_eq_R: "sys' = sys \<Longrightarrow> R u w \<Longrightarrow> R u (snd (walk sys' root spelled requested pending opened hops w))"
proof (induction sys' root spelled requested pending opened hops w rule: walk.induct)
  case (2 sys' root spelled requested c pending opened hops w)
  note sys = 2(5) and start = 2(6)
  note IH = 2(1-4) [unfolded sys]
  show ?case
    unfolding walk.simps Let_def sys
    by (intro if_R bind_R context_R pure_R call_R relative_to_root_R start)
      (assumption | (rule IH; (assumption | rule refl | rule start)))+
qed simp

lemma prepare_R: "R u w \<Longrightarrow> R u (snd (prepare sys root requested kind sensitive w))"
  unfolding prepare_def Let_def by (intro progress walk_eq_R refl) (auto intro!: progress)

lemma po_read_R: "R u w \<Longrightarrow> R u (snd (po_read sys object n w))"
  unfolding po_read_def by (intro progress)

lemma list_entries_R: "R u w \<Longrightarrow> R u (snd (list_entries sys d n entries stream w))"
proof (induction stream arbitrary: entries w)
  case (Cons e stream)
  have "R u v" if "os_fstatat sys d p w = (x, v)" for p x v using call_R(3) [OF Cons.prems] that by (metis snd_conv)
  then show ?case using Cons by (cases e) (auto simp: Let_def split: dir_type.splits prod.splits)
qed simp

lemma po_list_R: "R u w \<Longrightarrow> R u (snd (po_list sys object n w))"
  unfolding po_list_def using list_entries_R by (intro progress) (auto simp: split_beta Let_def)

lemma run_blocking_R: "(\<And>w. R u w \<Longrightarrow> R u (snd (work w))) \<Longrightarrow> R u w \<Longrightarrow> R u (snd (run_blocking sys work w))"
  by (simp add: run_blocking_def split_beta Let_def)

lemma prepare_call_R:
  assumes "prepare_call sys call root sensitive blocked w = (p, w')"
  shows "R w w'"
proof -
  have "R w (snd (run_blocking sys (prepare sys root path kind sensitive) w))" for path kind
    by (intro run_blocking_R prepare_R R_refl)
  then have "R w v" if "run_blocking sys (prepare sys root path kind sensitive) w = (x, v)" for path kind x v
    using that by (metis snd_conv)
  then show ?thesis
    using assms R_refl by (auto simp: prepare_call_def Let_def split: option.splits sum.splits prod.splits if_splits)
qed

lemma execute_prepared_R:
  assumes shell: "\<And>arguments w. R w (snd (run_shell arguments w))"
    and run: "execute_prepared sys lossy run_shell call p w = (result, w')"
  shows "R w w'"
proof -
  have "R w (snd (read_file sys lossy object n v))" if "R w v" for object n v
    unfolding read_file_def using that by (intro progress po_read_R) (auto simp: split_beta)
  moreover have "R w (snd (list_directory sys lossy object v))" if "R w v" for object v
    unfolding list_directory_def using that by (intro progress po_list_R) (auto simp: split_beta)
  ultimately have "R w (snd (run_blocking sys (read_file sys lossy object n) w))"
      "R w (snd (run_blocking sys (list_directory sys lossy object) w))" for object n
    by (auto intro!: run_blocking_R R_refl)
  then show ?thesis
    using run shell R_refl [of w]
    by (auto simp: execute_prepared_def Let_def split_beta split: preparation.splits option.splits tool.splits sum.splits if_splits)
qed

end

end
