(* ===== verification/Daemon_Turn.thy ===== *)
theory Daemon_Turn
  imports Session_Execution Engine_Observed Os_Progress Direct_Shell
begin

text \<open>
  A turn as the daemon runs it (\<open>DaemonObserver\<close> of
  \<^verbatim>\<open>crates/xshell-session/src/execution.rs\<close>): the agent loop of \<open>Engine\<close> with an observer that audits
  every event, keeps the journal and waits for clients' answers, while other threads of the daemon
  cancel, answer, close the session or write to its audit connection.
\<close>

section \<open>The observer's world\<close>

text \<open>
  The state a turn shares: the execution state of its session, its cancellation flag, whether the
  coordinator still lists the session, the audit handle and the observer's own record of a failed
  audit. \<open>dw_outer\<close> is the rest of the world. \<open>dw_stalled\<close> marks that the thread of the turn waits
  without end: for which call, and with which cancellation flag and execution state.
\<close>

record ('w, 'p) daemon_world =
  dw_outer :: 'w
  dw_turn_id :: string
  dw_execution :: execution_state
  dw_cancelled :: bool
  dw_listed :: bool
  dw_handle :: "(audit_config \<times> 'p session_audit) option"
  dw_audit_failure :: "audit_error option"
  dw_stalled :: "(string \<times> bool \<times> execution_state) option"

text \<open>What other threads may do to it between two steps of the turn.\<close>

datatype interference =
    OtherCancel string
  | OtherReply approval_reply
  | OtherClose
  | OtherCloseAudit string
  | OtherAppend audit_event

record ('w, 'd, 'p) daemon_setup =
  dt_os :: "('w, 'd) os"
  dt_chat :: "chat_message list \<Rightarrow> tool_definition list \<Rightarrow> 'w \<Rightarrow> (string list \<times> provider_outcome) \<times> 'w"
  dt_now :: "'w \<Rightarrow> instant"
  dt_shell :: "duration \<Rightarrow> json \<Rightarrow> 'w \<Rightarrow> ('w, string, string) outcome"
  dt_json :: "json \<Rightarrow> string"
  dt_lossy :: "string \<Rightarrow> string"
  dt_lowercase :: "string \<Rightarrow> string"
  dt_shell_words :: shell_words
  dt_link :: "'p audit_link"
  dt_json_len :: "session_event \<Rightarrow> nat"
  dt_timestamp :: "'w \<Rightarrow> nat"
  dt_others :: "'w \<Rightarrow> interference list \<times> 'w"

definition set_cancelled :: "('w, 'p) daemon_world \<Rightarrow> ('w, 'p) daemon_world" where
  "set_cancelled w = w\<lparr>dw_cancelled := True, dw_execution := cancel_active (dw_execution w)\<rparr>"

fun other_step :: "('w, 'd, 'p) daemon_setup \<Rightarrow> interference \<Rightarrow> ('w, 'p) daemon_world \<Rightarrow> ('w, 'p) daemon_world" where
  "other_step D (OtherCancel turn_id) w =
     (if dw_listed w \<and> fst (cancel turn_id (dw_execution w)) = Ok () \<and> turn_id = dw_turn_id w
      then w\<lparr>dw_cancelled := True, dw_execution := snd (cancel turn_id (dw_execution w))\<rparr> else w)"
| "other_step D (OtherReply reply) w =
     (if dw_listed w then w\<lparr>dw_execution := snd (approve reply (dw_execution w))\<rparr> else w)"
| "other_step D OtherClose w = (if dw_listed w then (set_cancelled w)\<lparr>dw_listed := False\<rparr> else w)"
| "other_step D (OtherCloseAudit reason) w =
     (if dw_listed w then w
      else w\<lparr>dw_handle := map_option (\<lambda>(cfg, sa). (cfg, close_audit (dt_link D) reason sa)) (dw_handle w)\<rparr>)"
| "other_step D (OtherAppend event) w = w\<lparr>dw_handle := snd (handle_append (dt_link D) (dw_handle w) event)\<rparr>"

definition interfere :: "('w, 'd, 'p) daemon_setup \<Rightarrow> ('w, 'p) daemon_world \<Rightarrow> ('w, 'p) daemon_world" where
  "interfere D w =
     (case dt_others D (dw_outer w) of (steps, v) \<Rightarrow> fold (other_step D) steps (w\<lparr>dw_outer := v\<rparr>))"

text \<open>A call of the outer world, and what happens meanwhile.\<close>

definition outer :: "('w, 'd, 'p) daemon_setup \<Rightarrow> ('w \<Rightarrow> 'a \<times> 'w) \<Rightarrow> ('w, 'p) daemon_world \<Rightarrow> 'a \<times> ('w, 'p) daemon_world" where
  "outer D f w = (case f (dw_outer w) of (a, v) \<Rightarrow> (a, interfere D (w\<lparr>dw_outer := v\<rparr>)))"

section \<open>The observer\<close>

definition decision_text :: "approval_decision \<Rightarrow> string" where
  "decision_text d = (case d of Approve \<Rightarrow> ''approve'' | DenyCall \<Rightarrow> ''deny'' | AbortTurn \<Rightarrow> ''abort_turn'')"

fun audit_event_of :: "execution_event \<Rightarrow> audit_event option" where
  "audit_event_of (TextDelta _) = None"
| "audit_event_of (ApprovalRequested _ _) = None"
| "audit_event_of (AgentResponse answer calls partial thought ending) =
     Some (EvAgentResponse answer calls partial thought ending)"
| "audit_event_of (AutoContinued reason prompt) = Some (EvAutoContinued reason prompt)"
| "audit_event_of (ToolRequested call) = Some (EvToolRequested (tc_id call) (tc_name call) (tc_arguments call))"
| "audit_event_of (ToolDecision call_id d) = Some (EvToolDecision call_id (decision_text d))"
| "audit_event_of (ToolSkipped call_id _) = Some (EvToolDecision call_id ''skipped_after_abort'')"
| "audit_event_of (ToolResult call_id name result) = Some (EvToolResult call_id name result)"
| "audit_event_of TurnAborted = None"
| "audit_event_of (HistoryCompacted r) =
     Some (EvHistoryCompacted (cr_compactor r) (messages_before r) (messages_after r) (bytes_before r) (bytes_after r)
       (turns_removed r))"
| "audit_event_of (SubagentStarted agent task tools) = Some (EvSubagentStarted agent task tools)"
| "audit_event_of (Subagent _ event) = audit_event_of event"
| "audit_event_of (SubagentFinished agent result message) = Some (EvSubagentFinished agent result message)"

definition observer_audit :: "('w, 'd, 'p) daemon_setup \<Rightarrow> audit_event \<Rightarrow> ('w, 'p) daemon_world \<Rightarrow> ('w, 'p) daemon_world" where
  "observer_audit D event w =
     (if dw_audit_failure w \<noteq> None then w
      else case handle_append (dt_link D) (dw_handle w) event of
             (Inr _, h) \<Rightarrow> w\<lparr>dw_handle := h\<rparr>
           | (Inl e, h) \<Rightarrow> set_cancelled (w\<lparr>dw_handle := h, dw_audit_failure := Some e\<rparr>))"

definition audit_execution :: "('w, 'd, 'p) daemon_setup \<Rightarrow> execution_event \<Rightarrow> ('w, 'p) daemon_world \<Rightarrow> ('w, 'p) daemon_world" where
  "audit_execution D event w = (case audit_event_of event of None \<Rightarrow> w | Some a \<Rightarrow> observer_audit D a w)"

text \<open>Appending to the journal always returns (\<open>append_locked_eq\<close>), so the other branch is never taken.\<close>

definition journal :: "('w, 'd, 'p) daemon_setup \<Rightarrow> session_event_kind \<Rightarrow> ('w, 'p) daemon_world \<Rightarrow> ('w, 'p) daemon_world" where
  "journal D event w =
     (case append_locked (dt_json_len D) (dt_timestamp D (dw_outer w)) (dw_turn_id w) event (dw_execution w) of
        Some st \<Rightarrow> w\<lparr>dw_execution := st\<rparr>
      | None \<Rightarrow> w)"

definition observer_emit :: "('w, 'd, 'p) daemon_setup \<Rightarrow> execution_event \<Rightarrow> ('w, 'p) daemon_world \<Rightarrow> ('w, 'p) daemon_world" where
  "observer_emit D event w =
     (let w = audit_execution D event w;
          w = w\<lparr>dw_execution := register_request (dw_turn_id w) event (dw_execution w)\<rparr>
      in interfere D (journal D (Execution event) w))"

text \<open>
  Waiting for a decision: what other threads do during the wait, one after the other. The wait has no
  deadline. When nothing more happens and there is neither a reply nor a cancellation, the thread stays
  in it for ever; the world is marked as stalled, and what a model of the turn does with the value of a
  stalled wait happens to no turn. \<open>run_turn\<close> has no result then, and the value given here lets nothing
  be executed.
\<close>

fun await_reply ::
  "('w, 'd, 'p) daemon_setup \<Rightarrow> string \<Rightarrow> interference list \<Rightarrow> ('w, 'p) daemon_world \<Rightarrow> approval_decision \<times> ('w, 'p) daemon_world" where
  "await_reply D call_id steps w =
     (case poll_approval (dw_cancelled w) (dw_turn_id w, call_id) (dw_execution w) of
        (Some d, st) \<Rightarrow> (d, w\<lparr>dw_execution := st\<rparr>)
      | (None, _) \<Rightarrow>
          (case steps of
             [] \<Rightarrow> (AbortTurn, (set_cancelled w)\<lparr>dw_stalled := Some (call_id, dw_cancelled w, dw_execution w)\<rparr>)
           | s # later \<Rightarrow> await_reply D call_id later (other_step D s w)))"

declare await_reply.simps [simp del]

definition observer_approve ::
  "('w, 'd, 'p) daemon_setup \<Rightarrow> tool_call \<Rightarrow> gate_reason \<Rightarrow> ('w, 'p) daemon_world \<Rightarrow> approval_decision \<times> ('w, 'p) daemon_world" where
  "observer_approve D call reason w =
     (case dt_others D (dw_outer w) of (steps, v) \<Rightarrow> await_reply D (tc_id call) steps (w\<lparr>dw_outer := v\<rparr>))"

section \<open>The engine's environment\<close>

definition daemon_os :: "('w, 'd, 'p) daemon_setup \<Rightarrow> (('w, 'p) daemon_world, 'd) os" where
  "daemon_os D =
     \<lparr>os_canonicalize = (\<lambda>p. outer D (os_canonicalize (dt_os D) p)),
      os_openat = (\<lambda>par p flags. outer D (os_openat (dt_os D) par p flags)),
      os_fstatat = (\<lambda>d p. outer D (os_fstatat (dt_os D) d p)),
      os_fstat = (\<lambda>d. outer D (os_fstat (dt_os D) d)),
      os_readlinkat = (\<lambda>d p. outer D (os_readlinkat (dt_os D) d p)),
      os_read = (\<lambda>d n. outer D (os_read (dt_os D) d n)),
      os_readdir = (\<lambda>d. outer D (os_readdir (dt_os D) d)),
      os_late = (\<lambda>w. os_late (dt_os D) (dw_outer w))\<rparr>"

definition daemon_env :: "('w, 'd, 'p) daemon_setup \<Rightarrow> (('w, 'p) daemon_world, 'd) env" where
  "daemon_env D =
     \<lparr>env_os = daemon_os D,
      env_chat = (\<lambda>messages tools. outer D (dt_chat D messages tools)),
      env_now = (\<lambda>w. dt_now D (dw_outer w)),
      env_cancelled = dw_cancelled,
      env_emit = observer_emit D,
      env_approve = observer_approve D,
      env_shell = (\<lambda>timeout arguments. outer D (dt_shell D timeout arguments)),
      env_json = dt_json D, env_lossy = dt_lossy D, env_lowercase = dt_lowercase D, env_shell_words = dt_shell_words D\<rparr>"

section \<open>How the world moves\<close>

text \<open>
  With required auditing: a failed audit, a closed audit connection and a session that is no longer
  listed all imply that the turn is cancelled.
\<close>

definition world_ok :: "('w, 'p) daemon_world \<Rightarrow> bool" where
  "world_ok w \<longleftrightarrow>
     (\<exists>cfg sa. dw_handle w = Some (cfg, sa) \<and> ac_required cfg \<and> (sa_state sa = ClosedConnection \<longrightarrow> dw_cancelled w)) \<and>
     (dw_audit_failure w \<noteq> None \<longrightarrow> dw_cancelled w) \<and> (\<not> dw_listed w \<longrightarrow> dw_cancelled w)"

definition acked :: "('w, 'p) daemon_world \<Rightarrow> audit_event list" where
  "acked w = (case dw_handle w of None \<Rightarrow> [] | Some (_, sa) \<Rightarrow> sa_acked sa)"

definition moves :: "('w, 'p) daemon_world \<Rightarrow> ('w, 'p) daemon_world \<Rightarrow> bool" where
  "moves w w' \<longleftrightarrow>
     (world_ok w \<longrightarrow> world_ok w') \<and> (dw_cancelled w \<longrightarrow> dw_cancelled w') \<and> (\<exists>more. acked w' = acked w @ more)"

lemma moves_refl [simp]: "moves w w"
  by (simp add: moves_def)

lemma moves_trans [trans]: "moves u v \<Longrightarrow> moves v w \<Longrightarrow> moves u w"
  by (auto simp: moves_def)

lemma moves_same:
  assumes "dw_handle w' = dw_handle w" "dw_audit_failure w' = dw_audit_failure w" "dw_listed w' = dw_listed w"
    "dw_cancelled w \<longrightarrow> dw_cancelled w'"
  shows "moves w w'"
  using assms by (auto simp: moves_def world_ok_def acked_def)

lemma set_cancelled_simps [simp]:
  "dw_cancelled (set_cancelled w)" "dw_handle (set_cancelled w) = dw_handle w" "dw_listed (set_cancelled w) = dw_listed w"
  "dw_audit_failure (set_cancelled w) = dw_audit_failure w" "dw_outer (set_cancelled w) = dw_outer w"
  "dw_turn_id (set_cancelled w) = dw_turn_id w"
  by (simp_all add: set_cancelled_def)

lemma handle_append_acked:
  assumes "handle_append al (Some (cfg, sa)) event = (r, h)"
  obtains sa' more where "h = Some (cfg, sa')" "sa_acked sa' = sa_acked sa @ more"
    "sa_state sa' = ClosedConnection \<longleftrightarrow> sa_state sa = ClosedConnection"
    "ac_required cfg \<Longrightarrow> sa_state sa \<noteq> ClosedConnection \<Longrightarrow> r = Ok () \<Longrightarrow> \<exists>opened. more = opened @ [event]"
proof -
  obtain sa' where sa': "audit_append al cfg event sa = (r, sa')" "h = Some (cfg, sa')"
    using assms by (auto simp: handle_append_def split: prod.splits)
  note a = audit_append_acked [OF sa'(1)]
  from a(1) obtain more where more: "sa_acked sa' = sa_acked sa @ more" by blast
  show thesis using that [OF sa'(2) more a(2)] a(3) more by auto
qed

lemma other_step_moves: "moves w (other_step D s w)"
proof (cases s)
  case (OtherCloseAudit reason)
  then show ?thesis
    using close_audit_acked by (fastforce simp: moves_def world_ok_def acked_def split: option.splits prod.splits)
next
  case (OtherAppend event)
  show ?thesis
  proof (cases "dw_handle w")
    case (Some h)
    obtain cfg sa where h: "h = (cfg, sa)" by fastforce
    obtain r h' where a: "handle_append (dt_link D) (Some (cfg, sa)) event = (r, h')" by fastforce
    obtain sa' more where "h' = Some (cfg, sa')" "sa_acked sa' = sa_acked sa @ more"
      "sa_state sa' = ClosedConnection \<longleftrightarrow> sa_state sa = ClosedConnection"
      by (rule handle_append_acked [OF a])
    then show ?thesis using OtherAppend Some h a by (auto simp: moves_def world_ok_def acked_def)
  qed (simp add: OtherAppend moves_def world_ok_def acked_def handle_append_def)
next
  case OtherClose
  then show ?thesis by (auto simp: moves_def world_ok_def acked_def)
qed (auto intro!: moves_same)

lemma fold_other_moves: "moves w (fold (other_step D) steps w)"
proof (induction steps arbitrary: w)
  case (Cons s steps)
  then show ?case using other_step_moves moves_trans by (metis fold_simps(2))
qed simp

lemma outer_moves_same: "moves w (w\<lparr>dw_outer := v\<rparr>)"
  by (rule moves_same) simp_all

lemma interfere_moves: "moves w (interfere D w)"
  by (cases "dt_others D (dw_outer w)") (simp add: interfere_def moves_trans [OF outer_moves_same fold_other_moves])

lemma outer_moves: "moves w (snd (outer D f w))"
  by (cases "f (dw_outer w)") (simp add: outer_def moves_trans [OF outer_moves_same interfere_moves])

interpretation daemon_progress: os_progress "daemon_os D" moves
  by unfold_locales (auto simp: daemon_os_def intro: outer_moves moves_trans)

lemma await_reply_moves: "await_reply D call_id steps w = (d, w') \<Longrightarrow> moves w w'"
proof (induction steps arbitrary: w)
  case Nil
  then show ?case
    by (subst (asm) await_reply.simps) (auto simp: poll_approval_def split: if_splits option.splits intro!: moves_same)
next
  case (Cons s steps)
  show ?case
  proof (cases "fst (poll_approval (dw_cancelled w) (dw_turn_id w, call_id) (dw_execution w))")
    case None
    then have "await_reply D call_id steps (other_step D s w) = (d, w')"
      using Cons.prems by (subst (asm) await_reply.simps) (auto split: prod.splits)
    from moves_trans [OF other_step_moves Cons.IH [OF this]] show ?thesis .
  next
    case (Some x)
    then show ?thesis
      using Cons.prems by (subst (asm) await_reply.simps) (auto split: prod.splits intro!: moves_same)
  qed
qed

lemma observer_approve_moves: "observer_approve D call reason w = (d, w') \<Longrightarrow> moves w w'"
  by (cases "dt_others D (dw_outer w)") (auto simp: observer_approve_def intro: moves_trans [OF outer_moves_same await_reply_moves])

lemma journal_same [simp]:
  "dw_handle (journal D event w) = dw_handle w" "dw_cancelled (journal D event w) = dw_cancelled w"
  "dw_audit_failure (journal D event w) = dw_audit_failure w" "dw_listed (journal D event w) = dw_listed w"
  by (simp_all add: journal_def split: option.splits)

section \<open>Nothing runs unrecorded\<close>

text \<open>The audit events that the emitted events of a trace call for, in order.\<close>

definition recorded :: "action list \<Rightarrow> audit_event list" where
  "recorded acts = List.map_filter (\<lambda>a. case a of Emit e \<Rightarrow> audit_event_of e | _ \<Rightarrow> None) acts"

text \<open>
  Every execution in a trace was requested and approved by events before it, and all that was
  emitted before it is, in order, among what the audit service acknowledged.
\<close>

definition executions_recorded :: "action list \<Rightarrow> audit_event list \<Rightarrow> bool" where
  "executions_recorded acts acknowledged \<longleftrightarrow>
     (\<forall>i < length acts. \<forall>call sc facts. acts ! i = Execute call sc facts \<longrightarrow>
        subseq (recorded (take i acts)) acknowledged \<and>
        (\<exists>agents. Emit (wrap agents (ToolRequested sc)) \<in> set (take i acts) \<and>
                  Emit (wrap agents (ToolDecision (tc_id sc) Approve)) \<in> set (take i acts)))"

definition audited :: "audit_event list \<Rightarrow> ('w, 'p) daemon_world shared \<Rightarrow> bool" where
  "audited base sh \<longleftrightarrow>
     world_ok (sh_world sh) \<and>
     (\<exists>new. acked (sh_world sh) = base @ new \<and>
        (\<not> dw_cancelled (sh_world sh) \<longrightarrow> subseq (recorded (sh_trace sh)) new) \<and> executions_recorded (sh_trace sh) new)"

lemma recorded_append: "recorded (xs @ ys) = recorded xs @ recorded ys"
  by (simp add: recorded_def map_filter_def)

lemma recorded_simps [simp]:
  "recorded [] = []" "recorded [Chat m] = []" "recorded [AskApproval c r d] = []" "recorded [Execute c s f] = []"
  by (simp_all add: recorded_def map_filter_def)

lemma recorded_emit: "recorded [Emit e] = (case audit_event_of e of None \<Rightarrow> [] | Some a \<Rightarrow> [a])"
  by (simp add: recorded_def map_filter_def split: option.splits)

lemma subseq_more: "subseq xs ys \<Longrightarrow> subseq xs (ys @ zs)"
  using list_emb_append_mono [of "(=)" xs ys "[]" zs] by simp

lemma executions_recorded_more: "executions_recorded acts xs \<Longrightarrow> executions_recorded acts (xs @ ys)"
  unfolding executions_recorded_def by (simp add: subseq_more)

lemma executions_recorded_snoc:
  assumes "executions_recorded acts xs" "\<not> is_execute a"
  shows "executions_recorded (acts @ [a]) xs"
  unfolding executions_recorded_def
proof (intro allI impI)
  fix i call sc facts
  assume i: "i < length (acts @ [a])" and e: "(acts @ [a]) ! i = Execute call sc facts"
  then have "i < length acts" using assms(2) by (auto simp: nth_append less_Suc_eq split: if_splits)
  with e assms(1) show "subseq (recorded (take i (acts @ [a]))) xs \<and>
      (\<exists>agents. Emit (wrap agents (ToolRequested sc)) \<in> set (take i (acts @ [a])) \<and>
        Emit (wrap agents (ToolDecision (tc_id sc) Approve)) \<in> set (take i (acts @ [a])))"
    by (simp add: executions_recorded_def nth_append)
qed

lemma executions_recorded_execute:
  assumes "executions_recorded acts xs" "subseq (recorded acts) xs" "announced agents sc acts"
    and "Emit (wrap agents (ToolDecision (tc_id sc) Approve)) \<in> set acts"
  shows "executions_recorded (acts @ [Execute call sc facts]) xs"
  unfolding executions_recorded_def
proof (intro allI impI)
  fix i call' sc' facts'
  assume i: "i < length (acts @ [Execute call sc facts])" and e: "(acts @ [Execute call sc facts]) ! i = Execute call' sc' facts'"
  show "subseq (recorded (take i (acts @ [Execute call sc facts]))) xs \<and>
      (\<exists>agents. Emit (wrap agents (ToolRequested sc')) \<in> set (take i (acts @ [Execute call sc facts])) \<and>
        Emit (wrap agents (ToolDecision (tc_id sc') Approve)) \<in> set (take i (acts @ [Execute call sc facts])))"
  proof (cases "i < length acts")
    case True
    with e assms(1) show ?thesis by (simp add: executions_recorded_def nth_append)
  next
    case False
    with i have "i = length acts" by simp
    with e have "take i (acts @ [Execute call sc facts]) = acts" "sc' = sc" by simp_all
    with assms(2-4) show ?thesis by (auto simp: announced_def)
  qed
qed

text \<open>What the invariant needs of a step: the world moves and the trace grows by something else than an execution.\<close>

lemma audited_step:
  assumes "audited base sh" "moves (sh_world sh) w" "\<not> is_execute a" "recorded [a] = []"
  shows "audited base (sh\<lparr>sh_world := w\<rparr>)" "audited base (sh\<lparr>sh_world := w, sh_trace := sh_trace sh @ [a]\<rparr>)"
proof -
  obtain new where new: "acked (sh_world sh) = base @ new" "\<not> dw_cancelled (sh_world sh) \<longrightarrow> subseq (recorded (sh_trace sh)) new"
    "executions_recorded (sh_trace sh) new" and ok: "world_ok (sh_world sh)" using assms(1) by (auto simp: audited_def)
  obtain more where more: "acked w = acked (sh_world sh) @ more" using assms(2) by (auto simp: moves_def)
  have "acked w = base @ (new @ more)" "\<not> dw_cancelled w \<longrightarrow> subseq (recorded (sh_trace sh)) (new @ more)" "world_ok w"
    using new more assms(2) ok by (auto simp: moves_def intro: subseq_more)
  moreover have "executions_recorded (sh_trace sh) (new @ more)" by (rule executions_recorded_more [OF new(3)])
  moreover from this have "executions_recorded (sh_trace sh @ [a]) (new @ more)" using assms(3) by (rule executions_recorded_snoc)
  ultimately show "audited base (sh\<lparr>sh_world := w\<rparr>)" "audited base (sh\<lparr>sh_world := w, sh_trace := sh_trace sh @ [a]\<rparr>)"
    using assms(4) by (auto simp: audited_def recorded_append)
qed

lemma audit_execution_spec:
  assumes ok: "world_ok w"
  shows "moves w (audit_execution D e w)"
    "\<not> dw_cancelled (audit_execution D e w) \<Longrightarrow> \<exists>opened. acked (audit_execution D e w) = acked w @ opened @ recorded [Emit e]"
proof -
  obtain cfg sa where h: "dw_handle w = Some (cfg, sa)" "ac_required cfg" "sa_state sa = ClosedConnection \<longrightarrow> dw_cancelled w"
    using ok by (auto simp: world_ok_def)
  have "moves w (audit_execution D e w) \<and>
    (\<not> dw_cancelled (audit_execution D e w) \<longrightarrow> (\<exists>opened. acked (audit_execution D e w) = acked w @ opened @ recorded [Emit e]))"
  proof (cases "audit_event_of e")
    case None
    then show ?thesis by (simp add: audit_execution_def recorded_emit)
  next
    case (Some a)
    show ?thesis
    proof (cases "dw_audit_failure w")
      case None
      obtain r h' where ap: "handle_append (dt_link D) (Some (cfg, sa)) a = (r, h')" by fastforce
      obtain sa' more where s: "h' = Some (cfg, sa')" "sa_acked sa' = sa_acked sa @ more"
        "sa_state sa' = ClosedConnection \<longleftrightarrow> sa_state sa = ClosedConnection"
        "ac_required cfg \<Longrightarrow> sa_state sa \<noteq> ClosedConnection \<Longrightarrow> r = Ok () \<Longrightarrow> \<exists>opened. more = opened @ [a]"
        by (rule handle_append_acked [OF ap]) blast
      show ?thesis
      proof (cases r)
        case (Inl x)
        then show ?thesis
          using Some None h(1) ap s ok
          by (auto simp: audit_execution_def observer_audit_def moves_def world_ok_def acked_def)
      next
        case (Inr u)
        then have "audit_execution D e w = w\<lparr>dw_handle := Some (cfg, sa')\<rparr>"
          using Some None h(1) ap s(1) by (simp add: audit_execution_def observer_audit_def)
        moreover have "\<exists>opened. more = opened @ [a]" if "\<not> dw_cancelled w" using s(4) h that Inr by simp
        ultimately show ?thesis
          using Some h s(2,3) ok by (auto simp: moves_def world_ok_def acked_def recorded_emit)
      qed
    next
      case (Some x)
      then show ?thesis using ok \<open>audit_event_of e = Some a\<close>
        by (simp add: audit_execution_def observer_audit_def world_ok_def)
    qed
  qed
  then show "moves w (audit_execution D e w)"
    "\<not> dw_cancelled (audit_execution D e w) \<Longrightarrow> \<exists>opened. acked (audit_execution D e w) = acked w @ opened @ recorded [Emit e]"
    by blast+
qed

lemma observer_emit_moves:
  "moves (audit_execution D e w) (observer_emit D e w)"
  unfolding observer_emit_def Let_def by (rule moves_trans [OF _ interfere_moves]) (rule moves_same; simp)

lemma audited_emit:
  assumes "audited base sh"
  shows "audited base (emit (daemon_env D) agents e sh)"
proof -
  let ?e = "wrap agents e" and ?w = "sh_world sh"
  let ?w1 = "audit_execution D ?e ?w" and ?w2 = "observer_emit D ?e ?w"
  obtain new where new: "acked ?w = base @ new" "\<not> dw_cancelled ?w \<longrightarrow> subseq (recorded (sh_trace sh)) new"
    "executions_recorded (sh_trace sh) new" and ok: "world_ok ?w" using assms by (auto simp: audited_def)
  have m: "moves ?w ?w1" "moves ?w1 ?w2" by (rule audit_execution_spec [OF ok] observer_emit_moves)+
  obtain x y where xy: "acked ?w1 = acked ?w @ x" "acked ?w2 = acked ?w1 @ y" using m by (auto simp: moves_def)
  have "subseq (recorded (sh_trace sh @ [Emit ?e])) (new @ x @ y)" if "\<not> dw_cancelled ?w2"
  proof -
    from that m have n: "\<not> dw_cancelled ?w1" "\<not> dw_cancelled ?w" by (auto simp: moves_def)
    obtain opened where "x = opened @ recorded [Emit ?e]" using audit_execution_spec(2) [OF ok n(1)] xy(1) by auto
    moreover have "subseq (recorded (sh_trace sh)) new" using new(2) n(2) by blast
    ultimately show ?thesis unfolding recorded_append by (auto intro!: list_emb_append_mono)
  qed
  moreover have "executions_recorded (sh_trace sh @ [Emit ?e]) (new @ x @ y)"
    by (rule executions_recorded_snoc [OF executions_recorded_more [OF new(3)]]) simp
  moreover have "world_ok ?w2" using ok m by (auto simp: moves_def)
  ultimately show ?thesis using new(1) xy by (auto simp: audited_def emit_def daemon_env_def)
qed

interpretation daemon_turn: observed_engine "daemon_env D" "audited base"
proof
  fix sh :: "('a, 'c) daemon_world shared" and agents e
  show "audited base sh \<Longrightarrow> audited base (emit (daemon_env D) agents e sh)" by (rule audited_emit)
next
  fix sh :: "('a, 'c) daemon_world shared" and b
  show "audited base sh \<Longrightarrow> audited base (sh\<lparr>sh_budget := b\<rparr>)" by (simp add: audited_def)
next
  fix sh :: "('a, 'c) daemon_world shared" and request tools x w b
  assume "audited base sh" "env_chat (daemon_env D) request tools (sh_world sh) = (x, w)"
  moreover from this(2) have "moves (sh_world sh) w"
    using outer_moves [of "sh_world sh" D "dt_chat D request tools"] by (simp add: daemon_env_def)
  ultimately have "audited base (sh\<lparr>sh_world := w, sh_trace := sh_trace sh @ [Chat request]\<rparr>)" by (intro audited_step) simp_all
  then show "audited base (sh\<lparr>sh_budget := b, sh_world := w, sh_trace := sh_trace sh @ [Chat request]\<rparr>)" by (simp add: audited_def)
next
  fix sh :: "('a, 'c) daemon_world shared" and sc reason d w
  assume "audited base sh" "env_approve (daemon_env D) sc reason (sh_world sh) = (d, w)"
  then show "audited base (sh\<lparr>sh_world := w, sh_trace := sh_trace sh @ [AskApproval sc reason d]\<rparr>)"
    by (intro audited_step observer_approve_moves) (simp_all add: daemon_env_def)
next
  fix sh :: "('a, 'c) daemon_world shared" and call cwd sensitive blocked p w
  assume "audited base sh" "prepare_call (env_os (daemon_env D)) call cwd sensitive blocked (sh_world sh) = (p, w)"
  then show "audited base (sh\<lparr>sh_world := w\<rparr>)"
    using daemon_progress.prepare_call_R by (intro audited_step(1) [of _ _ _ "Chat []"]) (simp_all add: daemon_env_def, blast)
next
  fix sh :: "('a, 'c) daemon_world shared" and agents sc timeout call p result w facts
  assume a: "audited base sh" "\<not> is_cancelled (daemon_env D) sh" "announced agents sc (sh_trace sh)"
    "last (sh_trace sh) = Emit (wrap agents (ToolDecision (tc_id sc) Approve))"
    and x: "execute_prepared (env_os (daemon_env D)) (env_lossy (daemon_env D)) (env_shell (daemon_env D) timeout) call p (sh_world sh) = (result, w)"
  have "Emit (wrap agents (ToolDecision (tc_id sc) Approve)) \<in> set (sh_trace sh)"
    using a(3,4) by (metis announced_def empty_iff empty_set last_in_set)
  with a(1-3) have "audited base (sh\<lparr>sh_trace := sh_trace sh @ [Execute call sc facts]\<rparr>)"
    by (auto simp: audited_def recorded_append daemon_env_def intro: executions_recorded_execute)
  moreover have "moves (sh_world sh) w"
    by (rule daemon_progress.execute_prepared_R [OF _ x [unfolded daemon_env_def, simplified]]) (rule outer_moves)
  ultimately show "audited base (sh\<lparr>sh_trace := sh_trace sh @ [Execute call sc facts], sh_world := w\<rparr>)"
    using audited_step(1) [of base "sh\<lparr>sh_trace := sh_trace sh @ [Execute call sc facts]\<rparr>" w "Chat []"] by simp
qed

text \<open>
  C2. No tool runs unrecorded. In a turn with required auditing, started with a usable audit
  connection, every tool call that is executed was first requested and approved by events that the
  audit service had acknowledged: everything the turn emitted before the execution is, in order,
  among the records acknowledged since the turn began. This holds whatever the model, the tools and
  the audit service do, and while other threads cancel the turn, answer it, close its session and
  write to its audit connection.
\<close>

theorem no_tool_runs_unrecorded:
  assumes "dw_handle w = Some (cfg, sa)" "ac_required cfg" "sa_state sa \<noteq> ClosedConnection"
    and "dw_audit_failure w = None" "dw_listed w"
    and run: "run_agent_turn (daemon_env D) cwd policy history message w = Some (r, st, sh)"
    and i: "i < length (sh_trace sh)" "sh_trace sh ! i = Execute call sc facts"
  shows "\<exists>new agents. acked (sh_world sh) = sa_acked sa @ new \<and> subseq (recorded (take i (sh_trace sh))) new \<and>
    Emit (wrap agents (ToolRequested sc)) \<in> set (take i (sh_trace sh)) \<and>
    Emit (wrap agents (ToolDecision (tc_id sc) Approve)) \<in> set (take i (sh_trace sh))"
proof -
  have "audited (sa_acked sa) \<lparr>sh_world = w, sh_budget = b, sh_trace = []\<rparr>" for b
    using assms(1-5) by (simp add: audited_def world_ok_def acked_def executions_recorded_def)
  from daemon_turn.run_agent_turn_keeps [OF run this] show ?thesis
    using i unfolding audited_def executions_recorded_def by blast
qed

section \<open>A small turn of the daemon\<close>

text \<open>A model that asks for one tool call, an audit service that acknowledges everything.\<close>

definition turn_setup :: "(unit, string, nat) daemon_setup" where
  "turn_setup =
     \<lparr>dt_os = small_os, dt_chat = (\<lambda>messages tools w. (([], Response (Ok (small_chat messages))), w)), dt_now = (\<lambda>w. 0),
      dt_shell = (\<lambda>timeout arguments w. (Ok ''out'', w)), dt_json = (\<lambda>v. ''{}''), dt_lossy = id, dt_lowercase = id,
      dt_shell_words = split_spaces, dt_link = demo_audit_link, dt_json_len = (\<lambda>e. 1), dt_timestamp = (\<lambda>w. 0),
      dt_others = (\<lambda>w. ([], w))\<rparr>"

definition turn_world :: "(unit, nat) daemon_world" where
  "turn_world =
     \<lparr>dw_outer = (), dw_turn_id = ''t'', dw_execution = snd (reserve ''t'' execution_new), dw_cancelled = False, dw_listed = True,
      dw_handle = Some (demo_audit_config, demo_session_audit (OpenConnection demo_open_client)), dw_audit_failure = None,
      dw_stalled = None\<rparr>"

definition demo_alive :: "(unit, nat) daemon_world \<Rightarrow> bool" where
  "demo_alive w \<longleftrightarrow> \<not> dw_cancelled w \<and> dw_audit_failure w = None \<and>
     (\<exists>sa c. dw_handle w = Some (demo_audit_config, sa) \<and> sa_state sa = OpenConnection c \<and> \<not> cl_failed c)"

lemma demo_acknowledges:
  assumes "\<not> cl_failed c"
  shows "\<exists>c'. client_append (al_link demo_audit_link) event c = (Ok (1, []), c') \<and> \<not> cl_failed c'"
  using assms
  by (simp add: client_append_def exchange_def demo_audit_link_def receive_def MAX_RESPONSE_BYTES_def ok_or_def)

lemma demo_interfere [simp]: "interfere turn_setup w = w"
  by (simp add: interfere_def turn_setup_def)

lemma turn_setup_simps [simp]: "dt_now turn_setup w = 0" "dt_shell_words turn_setup = split_spaces" "dt_lossy turn_setup = id"
  by (simp_all add: turn_setup_def)

lemma demo_emit_alive:
  assumes "demo_alive w"
  shows "demo_alive (observer_emit turn_setup e w)"
proof -
  obtain sa c where h: "dw_handle w = Some (demo_audit_config, sa)" "sa_state sa = OpenConnection c" "\<not> cl_failed c"
    and w: "\<not> dw_cancelled w" "dw_audit_failure w = None" using assms by (auto simp: demo_alive_def)
  have "demo_alive (audit_execution turn_setup e w)"
  proof (cases "audit_event_of e")
    case (Some a)
    obtain c' where "client_append (al_link demo_audit_link) a c = (Ok (1, []), c')" "\<not> cl_failed c'"
      using demo_acknowledges [OF h(3)] by blast
    then show ?thesis
      using Some h w
      by (simp add: audit_execution_def observer_audit_def handle_append_def audit_append_def ready_audit_def turn_setup_def demo_alive_def)
  qed (simp add: audit_execution_def assms)
  then show ?thesis by (simp add: observer_emit_def Let_def demo_alive_def)
qed

definition demo_shared :: "(unit, nat) daemon_world \<Rightarrow> action list \<Rightarrow> (unit, nat) daemon_world shared" where
  "demo_shared w tr = \<lparr>sh_world = w, sh_budget = sh_budget (small_shared []), sh_trace = tr\<rparr>"

lemma demo_request:
  "provider_request (daemon_env turn_setup) (small_policy Ask) [] small_start
     \<lparr>sh_world = w, sh_budget = budget_new 0 limits_default, sh_trace = []\<rparr>
   = Sent (small_chat [user_message ''read it'']) (small_start, demo_shared w [Chat [user_message ''read it'']])"
  by (simp add: default_requests provider_request_def budget_new_default charge_provider_request_def
      check_time_def charge_def daemon_env_def outer_def stage_compaction_def small_policy_def turn_start_def
      merge_system_messages_def user_message_def handle_outcome_def emit_all_def small_shared_def demo_shared_def Let_def)
    (simp add: turn_setup_def)

lemma demo_record:
  assumes "demo_alive w"
  shows "\<exists>w'. demo_alive w' \<and> record_response (daemon_env turn_setup) [] (small_chat [user_message ''read it'']) small_start (demo_shared w tr)
   = Some ([small_call], small_start\<lparr>st_call_ids := \<lparr>ci_scope = None, ci_seen = {''a''}\<rparr>,
       st_history := [user_message ''read it'', assistant_with_tools ''done'' [small_call]]\<rparr>,
     demo_shared w' (tr @ [Emit (AgentResponse ''done'' 1 False None (Some ''length'')), Emit (ToolRequested small_call)]))"
  using demo_emit_alive [OF demo_emit_alive [OF assms]]
  by (simp add: record_response_def small_chat_def small_call_def turn_start_def scoped_def call_ids_new_def
      user_message_def scope_prefix_def emit_def emit_all_def daemon_env_def demo_shared_def wrap_def
      small_policy_def turn_policy_new_def with_reasoning_def assistant_with_tools_def)

lemma demo_dispatch:
  assumes "demo_alive w"
  shows "\<exists>r st' sh'. dispatch_call (daemon_env turn_setup) child (small_policy Ask) [] ''/w'' 0 small_call small_call [] st (demo_shared w tr)
      = Some (r, st', sh') \<and>
     prefix (tr @ [Emit (ToolDecision ''a'' Approve), Execute small_call small_call small_facts]) (sh_trace sh')"
proof -
  note alive = assms demo_emit_alive [OF assms] demo_emit_alive [OF demo_emit_alive [OF assms]]
  note live = alive [unfolded demo_alive_def]
  show ?thesis
    using live
    by (simp add: dispatch_call_def Let_def daemon_env_def demo_shared_def small_shared_def charge_tool_call_def check_time_def
      charge_def limits_default_def small_policy_def turn_policy_new_def ts_get_def small_call_def
      tool_from_name_def ALL_TOOLS_def evaluate_call_def prepare_call_def read_request_def
      required_string_def json_get_def gate_def requires_approval_by_name_def call_facts_of_def
      rules_decide_def policy_decide_def denial_is_uncheckable_def decide_by_rules_def
      default_decision_def decide_call_def emit_def wrap_def run_call_def execute_prepared_def
      finish_call_def small_facts_def)
qed

lemma demo_pass:
  assumes "demo_alive w"
  shows "\<exists>w'. demo_alive w' \<and> agent_loop (daemon_env turn_setup) cwd (Suc n) (small_policy Ask) [] small_start
     \<lparr>sh_world = w, sh_budget = budget_new 0 limits_default, sh_trace = []\<rparr>
   = (case dispatch_call (daemon_env turn_setup) (subturn (daemon_env turn_setup) cwd n) (small_policy Ask) [] cwd 0 small_call small_call []
       (small_start\<lparr>st_call_ids := \<lparr>ci_scope = None, ci_seen = {''a''}\<rparr>,
          st_history := [user_message ''read it'', assistant_with_tools ''done'' [small_call]]\<rparr>)
       (demo_shared w' ([Chat [user_message ''read it'']]
          @ [Emit (AgentResponse ''done'' 1 False None (Some ''length'')), Emit (ToolRequested small_call)])) of
        None \<Rightarrow> None
      | Some (Some r, st, sh) \<Rightarrow> Some (r, st, sh)
      | Some (None, st, sh) \<Rightarrow> agent_loop (daemon_env turn_setup) cwd n (small_policy Ask) [] st sh)"
proof -
  obtain w' where w': "demo_alive w'" and r: "record_response (daemon_env turn_setup) [] (small_chat [user_message ''read it'']) small_start
       (demo_shared w [Chat [user_message ''read it'']])
   = Some ([small_call], small_start\<lparr>st_call_ids := \<lparr>ci_scope = None, ci_seen = {''a''}\<rparr>,
       st_history := [user_message ''read it'', assistant_with_tools ''done'' [small_call]]\<rparr>,
     demo_shared w' ([Chat [user_message ''read it'']] @ [Emit (AgentResponse ''done'' 1 False None (Some ''length'')), Emit (ToolRequested small_call)]))"
    using demo_record [OF assms] by blast
  show ?thesis
    unfolding agent_loop.simps(2) Let_def demo_request request_step.case prod.case r option.case subturn_eq
    by (rule exI [of _ w']) (auto simp: w' small_chat_def split: option.splits prod.splits)
qed

theorem no_tool_runs_unrecorded_witness:
  "\<exists>r st sh i new. run_agent_turn (daemon_env turn_setup) ''/w'' (small_policy Ask) [] ''read it'' turn_world = Some (r, st, sh) \<and>
     sh_trace sh ! i = Execute small_call small_call small_facts \<and>
     acked (sh_world sh) = [] @ new \<and> subseq (recorded (take i (sh_trace sh))) new"
proof -
  let ?env = "daemon_env turn_setup"
  let ?sh = "\<lparr>sh_world = turn_world, sh_budget = budget_new 0 limits_default, sh_trace = []\<rparr>"
  have turn: "run_agent_turn ?env ''/w'' (small_policy Ask) [] ''read it'' turn_world
      = agent_loop ?env ''/w'' (Suc 128) (small_policy Ask) [] small_start ?sh"
    by (simp add: run_agent_turn_def run_agent_turn_with_budget_def small_policy_def turn_policy_new_def
        default_requests daemon_env_def)
  have "remaining ?sh < Suc 128" by (simp add: remaining_def budget_new_default default_requests)
  then obtain r st sh where run: "agent_loop ?env ''/w'' (Suc 128) (small_policy Ask) [] small_start ?sh = Some (r, st, sh)"
    using agent_loop_returns [OF turn_start_inv [OF paired_Nil]] by (metis prod_cases3)
  let ?tr = "[Chat [user_message ''read it'']] @ [Emit (AgentResponse ''done'' 1 False None (Some ''length'')), Emit (ToolRequested small_call)]"
  let ?st = "small_start\<lparr>st_call_ids := \<lparr>ci_scope = None, ci_seen = {''a''}\<rparr>,
       st_history := [user_message ''read it'', assistant_with_tools ''done'' [small_call]]\<rparr>"
  have "demo_alive turn_world" by (simp add: demo_alive_def turn_world_def demo_session_audit_def demo_open_client_def)
  from demo_pass [OF this, of "''/w''" 128] obtain w1 where w1: "demo_alive w1" and pass: "Some (r, st, sh) =
      (case dispatch_call ?env (subturn ?env ''/w'' 128) (small_policy Ask) [] ''/w'' 0 small_call small_call [] ?st (demo_shared w1 ?tr) of
        None \<Rightarrow> None | Some (Some r, st, sh) \<Rightarrow> Some (r, st, sh)
      | Some (None, st, sh) \<Rightarrow> agent_loop ?env ''/w'' 128 (small_policy Ask) [] st sh)"
    unfolding run by blast
  obtain r1 st1 sh1 where
    d: "dispatch_call ?env (subturn ?env ''/w'' 128) (small_policy Ask) [] ''/w'' 0 small_call small_call [] ?st (demo_shared w1 ?tr)
        = Some (r1, st1, sh1)"
    and tr: "prefix (?tr @ [Emit (ToolDecision ''a'' Approve), Execute small_call small_call small_facts]) (sh_trace sh1)"
    using demo_dispatch [OF w1] by blast
  have "r1 = None \<and> agent_loop ?env ''/w'' 128 (small_policy Ask) [] st1 sh1 = Some (r, st, sh) \<or> sh = sh1"
    using pass unfolding d by (cases r1) simp_all
  then have "\<exists>zs. sh_trace sh = sh_trace sh1 @ zs" using agent_loop_evolves by (fastforce simp: evolves_def)
  then obtain zs where zs: "sh_trace sh = (?tr @ [Emit (ToolDecision ''a'' Approve)]) @ Execute small_call small_call small_facts # zs"
    using tr by (auto simp: prefix_def)
  let ?i = "length (?tr @ [Emit (ToolDecision ''a'' Approve)])"
  have i: "?i < length (sh_trace sh)" "sh_trace sh ! ?i = Execute small_call small_call small_facts" unfolding zs by simp_all
  have w: "dw_handle turn_world = Some (demo_audit_config, demo_session_audit (OpenConnection demo_open_client))"
    "ac_required demo_audit_config" "sa_state (demo_session_audit (OpenConnection demo_open_client)) \<noteq> ClosedConnection"
    "dw_audit_failure turn_world = None" "dw_listed turn_world" "sa_acked (demo_session_audit (OpenConnection demo_open_client)) = []"
    by (simp_all add: turn_world_def demo_audit_config_def audit_config_default_def demo_session_audit_def)
  from no_tool_runs_unrecorded [OF w(1-5) _ i, of turn_setup "''/w''" "small_policy Ask" "[]" "''read it''" r st]
  have "\<exists>new. acked (sh_world sh) = [] @ new \<and> subseq (recorded (take ?i (sh_trace sh))) new" using run turn w(6) by auto
  then obtain new where "acked (sh_world sh) = [] @ new" "subseq (recorded (take ?i (sh_trace sh))) new" by blast
  moreover have "run_agent_turn ?env ''/w'' (small_policy Ask) [] ''read it'' turn_world = Some (r, st, sh)" using run turn by simp
  ultimately show ?thesis using i(2) by metis
qed

end
