(* ===== verification/Daemon_Submit.thy ===== *)
theory Daemon_Submit
  imports Daemon_Turn
begin

text \<open>
  The start of a turn in the daemon (\<open>submit\<close> of \<^verbatim>\<open>crates/xshell-session/src/execution.rs\<close>): the daemon's
  ceilings, the reservation, the input's audit record, the durable marker, the first event of the
  journal, and the way back when one of these fails. The turn itself runs in a thread of its own.
\<close>

section \<open>Admission\<close>

record daemon_policy =
  dp_max_approval :: approval_policy
  dp_max_limits :: turn_limits
  dp_sensitive_paths :: sensitive_paths
  dp_blocked_paths :: sensitive_paths
  dp_rules :: policy
  dp_compaction :: compaction_config

definition daemon_policy_default :: daemon_policy where
  "daemon_policy_default =
     \<lparr>dp_max_approval = Ask, dp_max_limits = limits_relaxed, dp_sensitive_paths = sp_default, dp_blocked_paths = sp_none,
      dp_rules = \<lparr>p_always_allowed = [], p_allowed = None, p_denied = []\<rparr>, dp_compaction = compaction_config_default\<rparr>"

text \<open>What a submission works on: the registry, the session's execution state and the audit connections.\<close>

record 'p daemon_session =
  dn_host :: session_host
  dn_execution :: execution_state
  dn_audit :: "'p daemon_audit"

text \<open>
  What the daemon's surroundings answer: whether execution is still admitted at the start and before
  the thread starts, the random turn identifier, the clock, the outcome of starting a thread, and the
  link of a new audit connection.
\<close>

record 'p submit_env =
  su_admitted :: bool
  su_still_admitted :: bool
  su_turn_id :: string
  su_timestamp :: nat
  su_spawn :: "(string, unit) result"
  su_session_env :: session_env
  su_fresh_link :: 'p

definition audit_descriptor_of :: "session_descriptor \<Rightarrow> audit_descriptor" where
  "audit_descriptor_of d = \<lparr>ad_name = sd_name d, ad_host_id = sd_host_id d, ad_host_alias = sd_host_alias d, ad_user = sd_user d\<rparr>"

text \<open>Appending through the handle of a session that is still listed.\<close>

definition da_append :: "'p audit_link \<Rightarrow> string \<Rightarrow> audit_event \<Rightarrow> 'p daemon_audit \<Rightarrow> ('p daemon_audit, audit_error, unit) outcome" where
  "da_append al sid event da =
     (case (da_config da, map_of (da_sessions da) sid) of
        (Some cfg, Some sa) \<Rightarrow>
          (case audit_append al cfg event sa of (r, sa) \<Rightarrow> (r, da\<lparr>da_sessions := AList.update sid sa (da_sessions da)\<rparr>))
      | _ \<Rightarrow> (Ok (), da))"

definition audit_error_message :: "audit_error \<Rightarrow> string" where
  "audit_error_message e =
     (case e of
        SocketMissing \<Rightarrow> ''audit.socket is required when auditing is enabled''
      | ProbeFailed _ \<Rightarrow> ''required auditing is unavailable; xshelld will not start''
      | AuditingUnavailable \<Rightarrow> ''required auditing is unavailable for this session''
      | AppendFailed _ \<Rightarrow> ''required audit append failed; refusing to continue the audited action'')"

fun audit_route :: "turn_input \<Rightarrow> string \<times> string" where
  "audit_route (AgentInput message) = (''agent'', message)"
| "audit_route (ShellInput command) = (''shell'', ''$'' @ command)"

fun is_agent :: "turn_input \<Rightarrow> bool" where
  "is_agent (AgentInput _) = True"
| "is_agent (ShellInput _) = False"

definition started_event ::
  "daemon_policy \<Rightarrow> turn_input \<Rightarrow> approval_policy \<Rightarrow> turn_limits option \<Rightarrow> session_event_kind" where
  "started_event dp input requested_approval requested_limits =
     (let approval = approval_clamp_to requested_approval (dp_max_approval dp);
          requested = (case requested_limits of None \<Rightarrow> limits_default | Some l \<Rightarrow> l);
          (limits, lowered) = limits_clamp_to requested (dp_max_limits dp)
      in TurnStarted input approval (if approval \<noteq> requested_approval then Some requested_approval else None)
           (if is_agent input then Some limits else None)
           (if lowered \<and> is_agent input then Some requested else None))"

text \<open>
  After the reservation. An outcome of \<open>None\<close> is a panic or a loop that does not end; the first is
  excluded by \<open>resolve_known\<close>, the second by \<open>append_locked_eq\<close>.
\<close>

definition start_turn ::
  "session_lib \<Rightarrow> (session_event \<Rightarrow> nat) \<Rightarrow> 'p submit_env \<Rightarrow> daemon_policy \<Rightarrow> session_snapshot \<Rightarrow> string \<Rightarrow> turn_input \<Rightarrow>
   approval_policy \<Rightarrow> turn_limits option \<Rightarrow> 'p daemon_session \<Rightarrow> ('p daemon_session, string, string) outcome option" where
  "start_turn lib json_len su dp snap sid input requested_approval requested_limits s =
     (let turn_id = su_turn_id su; own = sd_id (sn_descriptor snap); now = su_timestamp su in
      case begin_execution lib (su_session_env su) own turn_id (fst (audit_route input)) (dn_host s) of
        (Inl e, h) \<Rightarrow>
          Some (Err (''cannot persist accepted session operation: '' @ e),
                s\<lparr>dn_host := h, dn_execution := finish_locked turn_id (dn_execution s)\<rparr>)
      | (Inr _, h) \<Rightarrow>
          (case append_locked json_len now turn_id (started_event dp input requested_approval requested_limits) (dn_execution s) of
             None \<Rightarrow> None
           | Some x \<Rightarrow>
               if \<not> su_still_admitted su then
                 (case finish_execution lib (su_session_env su) own turn_id h of
                    (Inl e, h) \<Rightarrow> Some (Err e, s\<lparr>dn_host := h, dn_execution := x\<rparr>)
                  | (Inr _, h) \<Rightarrow>
                      map_option (\<lambda>x. (Err ''session execution is shutting down'', s\<lparr>dn_host := h, dn_execution := x\<rparr>))
                        (conclude json_len now turn_id TurnCancelled x))
               else (case su_spawn su of
                       Inr _ \<Rightarrow> Some (Ok turn_id, s\<lparr>dn_host := h, dn_execution := x\<rparr>)
                     | Inl e \<Rightarrow>
                         (case finish_execution lib (su_session_env su) sid turn_id h of
                            (persistence, h) \<Rightarrow>
                              map_option (\<lambda>x. (case persistence of
                                    Inl f \<Rightarrow> Err (''cannot clear unstarted session operation: '' @ f)
                                  | Inr _ \<Rightarrow> Err (''cannot start session turn: '' @ e),
                                  s\<lparr>dn_host := h, dn_execution := x\<rparr>))
                                (conclude json_len now turn_id (TurnFailed e None) x)))))"

definition submit ::
  "session_lib \<Rightarrow> 'p audit_link \<Rightarrow> (session_event \<Rightarrow> nat) \<Rightarrow> 'p submit_env \<Rightarrow> daemon_policy \<Rightarrow> string \<Rightarrow> turn_input \<Rightarrow>
   approval_policy \<Rightarrow> turn_limits option \<Rightarrow> 'p daemon_session \<Rightarrow> ('p daemon_session, string, string) outcome option" where
  "submit lib al json_len su dp sid input requested_approval requested_limits s =
     (if \<not> su_admitted su then Some (Err ''session execution is shutting down'', s)
      else case snapshot (sh_registry (dn_host s)) sid of
             None \<Rightarrow> None
           | Some (Inl e) \<Rightarrow> Some (Err e, s)
           | Some (Inr snap) \<Rightarrow>
               (case reserve (su_turn_id su) (dn_execution s) of
                  (Inl e, _) \<Rightarrow> Some (Err e, s)
                | (Inr _, x) \<Rightarrow>
                    let own = sd_id (sn_descriptor snap);
                        da = da_session al (su_fresh_link su) own (audit_descriptor_of (sn_descriptor snap)) (dn_audit s);
                        (route, said) = audit_route input
                    in case da_append al own (EvInput route said) da of
                         (Inl e, da) \<Rightarrow>
                           Some (Err (audit_error_message e), s\<lparr>dn_audit := da, dn_execution := finish_locked (su_turn_id su) x\<rparr>)
                       | (Inr _, da) \<Rightarrow>
                           start_turn lib json_len su dp snap sid input requested_approval requested_limits
                             (s\<lparr>dn_audit := da, dn_execution := x\<rparr>)))"

section \<open>What an accepted turn has behind it\<close>

lemma finish_locked_active: "xs_active (finish_locked turn_id st) \<noteq> Some a \<or> at_id a \<noteq> turn_id"
  by (auto simp: finish_locked_def)

lemma begin_execution_Ok:
  assumes "begin_execution lib env own op route h = (Ok (), h')" "map_of (rg_sessions (sh_registry h)) own = Some r"
    and "sd_persistence (descriptor_of r) = Durable"
  shows "map_of (rg_in_flight (sh_registry h')) own = Some \<lparr>di_session_id = own, di_operation_id = op, di_route = route\<rparr> \<and>
    (\<exists>x. sb_encode lib (durable_state_of (sh_registry h')) = Ok x \<and> ss_final (sh_store h') = Some x)"
  using assms
  by (auto simp: begin_execution_def Let_def update_conv' persist_def split: if_splits prod.splits sum.splits option.splits
      persist_fault.splits)

lemma da_session_config: "da_config (da_session al p sid d da) = da_config da"
  by (simp add: da_session_def Let_def split: option.splits)

lemma da_session_listed: "da_config da = Some cfg \<Longrightarrow> \<exists>sa. map_of (da_sessions (da_session al p sid d da)) sid = Some sa"
  by (simp add: da_session_def Let_def update_conv')

lemma da_append_acked:
  assumes "da_append al sid event da = (Ok (), da')" "da_config da = Some cfg" "ac_required cfg"
    and "map_of (da_sessions da) sid = Some sa" "sa_state sa \<noteq> ClosedConnection"
  shows "\<exists>sa' earlier. map_of (da_sessions da') sid = Some sa' \<and> sa_acked sa' = earlier @ [event]"
proof -
  obtain sa' where sa': "audit_append al cfg event sa = (Ok (), sa')" "map_of (da_sessions da') sid = Some sa'"
    using assms(1,2,4) by (auto simp: da_append_def update_conv' split: prod.splits)
  from audit_append_acked(3) [OF sa'(1) assms(3,5) refl] sa'(2) show ?thesis by (metis append.assoc)
qed

lemma da_session_open:
  assumes "map_of (da_sessions (da_session al p sid d da)) sid = Some sa" "da_config da = Some cfg"
    and "\<And>sa. map_of (da_sessions da) sid = Some sa \<Longrightarrow> sa_state sa \<noteq> ClosedConnection"
  shows "sa_state sa \<noteq> ClosedConnection"
  using assms
  by (auto simp: da_session_def Let_def update_conv' open_audit_acked split: option.splits if_splits)

lemma snapshot_own:
  assumes "snapshot g sid = Some (Ok snap)" "reg_inv g"
  shows "\<exists>r. map_of (rg_sessions g) (sd_id (sn_descriptor snap)) = Some r \<and> sd_persistence (descriptor_of r) = sd_persistence (sn_descriptor snap)"
proof -
  obtain i r where r: "map_of (rg_sessions g) i = Some r" "snap = snapshot_with_status r"
    using assms(1) by (auto simp: snapshot_def split: sum.splits)
  moreover have "sd_id (descriptor_of r) = i" using reg_invD(3) [OF assms(2) r(1)] by (simp add: record_ok_def)
  ultimately show ?thesis by (auto simp: snapshot_with_status_def descriptor_with_status_def)
qed

lemma start_turn_Ok:
  assumes "start_turn lib json_len su dp snap sid input ra rl s = Some (Ok turn_id, s')"
  obtains h x where "begin_execution lib (su_session_env su) (sd_id (sn_descriptor snap)) (su_turn_id su) (fst (audit_route input)) (dn_host s) = (Ok (), h)"
    "append_locked json_len (su_timestamp su) (su_turn_id su) (started_event dp input ra rl) (dn_execution s) = Some x"
    "turn_id = su_turn_id su" "s' = s\<lparr>dn_host := h, dn_execution := x\<rparr>"
  using assms by (auto simp: start_turn_def Let_def split: prod.splits sum.splits option.splits if_splits)

lemma submit_Ok:
  assumes "submit lib al json_len su dp sid input ra rl s = Some (Ok turn_id, s')"
  obtains snap x da where "snapshot (sh_registry (dn_host s)) sid = Some (Ok snap)" "reserve (su_turn_id su) (dn_execution s) = (Ok (), x)"
    "da_append al (sd_id (sn_descriptor snap)) (EvInput (fst (audit_route input)) (snd (audit_route input)))
       (da_session al (su_fresh_link su) (sd_id (sn_descriptor snap)) (audit_descriptor_of (sn_descriptor snap)) (dn_audit s)) = (Ok (), da)"
    "start_turn lib json_len su dp snap sid input ra rl (s\<lparr>dn_audit := da, dn_execution := x\<rparr>) = Some (Ok turn_id, s')"
  using assms by (auto simp: submit_def Let_def split: prod.splits sum.splits option.splits if_splits)

lemma clamped_limits_le: "limits_le (fst (limits_clamp_to l c)) c"
  by (simp add: limits_clamp_to_def limits_le_def Let_def)

lemma started_event_bounded:
  assumes "started_event dp input ra rl = TurnStarted i a ra' l rl'"
  shows "permissiveness a \<le> permissiveness (dp_max_approval dp)" "\<And>k. l = Some k \<Longrightarrow> limits_le k (dp_max_limits dp)"
  using assms clamped_limits_le [of "case rl of None \<Rightarrow> limits_default | Some l \<Rightarrow> l" "dp_max_limits dp"]
  by (auto simp: started_event_def Let_def approval_clamp_to_def split: if_splits prod.splits)

text \<open>
  C9. An accepted turn is alone, recorded, marked and bounded. When the daemon accepts a turn, no
  turn was active and this one now is; it starts with an approval mode and limits not above the
  daemon's, whatever the client asked for; with required auditing its input is the last record the
  audit service acknowledged for the session; and for a durable session the operation is marked as
  in flight in the registry and in the state file that was written.
\<close>

theorem accepted_turn_is_recorded_and_bounded:
  assumes "submit lib al json_len su dp sid input ra rl s = Some (Ok turn_id, s')" "reg_inv (sh_registry (dn_host s))"
  shows "xs_active (dn_execution s) = None \<and> map_option at_id (xs_active (dn_execution s')) = Some turn_id \<and>
    (\<exists>snap x a ra' l rl'. snapshot (sh_registry (dn_host s)) sid = Some (Ok snap) \<and>
      append_locked json_len (su_timestamp su) turn_id (TurnStarted input a ra' l rl') x = Some (dn_execution s') \<and>
      permissiveness a \<le> permissiveness (dp_max_approval dp) \<and> (\<forall>k. l = Some k \<longrightarrow> limits_le k (dp_max_limits dp)) \<and>
      (\<forall>cfg. da_config (dn_audit s) = Some cfg \<and> ac_required cfg \<and>
         (\<forall>sa. map_of (da_sessions (dn_audit s)) (sd_id (sn_descriptor snap)) = Some sa \<longrightarrow> sa_state sa \<noteq> ClosedConnection) \<longrightarrow>
         (\<exists>sa earlier. map_of (da_sessions (dn_audit s')) (sd_id (sn_descriptor snap)) = Some sa \<and>
            sa_acked sa = earlier @ [EvInput (fst (audit_route input)) (snd (audit_route input))])) \<and>
      (sd_persistence (sn_descriptor snap) = Durable \<longrightarrow>
         map_option di_operation_id (map_of (rg_in_flight (sh_registry (dn_host s'))) (sd_id (sn_descriptor snap))) = Some turn_id \<and>
         (\<exists>e. sb_encode lib (durable_state_of (sh_registry (dn_host s'))) = Ok e \<and> ss_final (sh_store (dn_host s')) = Some e)))"
proof -
  obtain snap x da where sn: "snapshot (sh_registry (dn_host s)) sid = Some (Ok snap)" and rv: "reserve (su_turn_id su) (dn_execution s) = (Ok (), x)"
    and ap: "da_append al (sd_id (sn_descriptor snap)) (EvInput (fst (audit_route input)) (snd (audit_route input)))
       (da_session al (su_fresh_link su) (sd_id (sn_descriptor snap)) (audit_descriptor_of (sn_descriptor snap)) (dn_audit s)) = (Ok (), da)"
    and st: "start_turn lib json_len su dp snap sid input ra rl (s\<lparr>dn_audit := da, dn_execution := x\<rparr>) = Some (Ok turn_id, s')"
    by (rule submit_Ok [OF assms(1)])
  obtain h x' where be: "begin_execution lib (su_session_env su) (sd_id (sn_descriptor snap)) (su_turn_id su) (fst (audit_route input)) (dn_host s) = (Ok (), h)"
    and al: "append_locked json_len (su_timestamp su) (su_turn_id su) (started_event dp input ra rl) x = Some x'"
    and t: "turn_id = su_turn_id su" and s': "s' = s\<lparr>dn_audit := da, dn_host := h, dn_execution := x'\<rparr>"
    by (rule start_turn_Ok [OF st]) simp
  have act: "xs_active (dn_execution s) = None" "map_option at_id (xs_active x) = Some turn_id"
    using rv by (auto simp: reserve_def t split: option.splits)
  have act': "map_option at_id (xs_active x') = Some turn_id" using append_locked_frame [OF al] act(2) by simp
  obtain a ra' l rl' where ev: "started_event dp input ra rl = TurnStarted input a ra' l rl'"
    by (cases "limits_clamp_to (case rl of None \<Rightarrow> limits_default | Some l \<Rightarrow> l) (dp_max_limits dp)")
      (simp add: started_event_def Let_def)
  have rec: "\<exists>sa earlier. map_of (da_sessions da) (sd_id (sn_descriptor snap)) = Some sa \<and>
      sa_acked sa = earlier @ [EvInput (fst (audit_route input)) (snd (audit_route input))]"
    if cfg: "da_config (dn_audit s) = Some cfg" "ac_required cfg"
      "\<forall>sa. map_of (da_sessions (dn_audit s)) (sd_id (sn_descriptor snap)) = Some sa \<longrightarrow> sa_state sa \<noteq> ClosedConnection" for cfg
  proof -
    obtain sa where sa: "map_of (da_sessions (da_session al (su_fresh_link su) (sd_id (sn_descriptor snap))
        (audit_descriptor_of (sn_descriptor snap)) (dn_audit s))) (sd_id (sn_descriptor snap)) = Some sa"
      using da_session_listed [OF cfg(1)] by blast
    show ?thesis
      by (rule da_append_acked [OF ap _ cfg(2) sa]) (use cfg da_session_open [OF sa cfg(1)] in \<open>auto simp: da_session_config\<close>)
  qed
  have dur: "map_option di_operation_id (map_of (rg_in_flight (sh_registry h)) (sd_id (sn_descriptor snap))) = Some turn_id \<and>
      (\<exists>e. sb_encode lib (durable_state_of (sh_registry h)) = Ok e \<and> ss_final (sh_store h) = Some e)"
    if "sd_persistence (sn_descriptor snap) = Durable"
    using begin_execution_Ok [OF be] snapshot_own [OF sn assms(2)] that t by auto
  have "append_locked json_len (su_timestamp su) turn_id (TurnStarted input a ra' l rl') x = Some (dn_execution s')"
    using al by (simp add: s' t ev)
  with act(1) act' sn rec dur started_event_bounded [OF ev] show ?thesis by (simp add: s') blast
qed

lemma submit_admitted:
  assumes "su_admitted su" "snapshot (sh_registry (dn_host s)) sid = Some (Ok snap)" "reserve (su_turn_id su) (dn_execution s) = (Ok (), x)"
    and "da_append al (sd_id (sn_descriptor snap)) (EvInput (fst (audit_route input)) (snd (audit_route input)))
       (da_session al (su_fresh_link su) (sd_id (sn_descriptor snap)) (audit_descriptor_of (sn_descriptor snap)) (dn_audit s)) = (Ok (), da)"
  shows "submit lib al json_len su dp sid input ra rl s =
    start_turn lib json_len su dp snap sid input ra rl (s\<lparr>dn_audit := da, dn_execution := x\<rparr>)"
  using assms by (cases "audit_route input") (simp add: submit_def Let_def)

lemma start_turn_started:
  assumes "begin_execution lib (su_session_env su) (sd_id (sn_descriptor snap)) (su_turn_id su) (fst (audit_route input)) (dn_host s) = (Ok (), h)"
    and "append_locked json_len (su_timestamp su) (su_turn_id su) (started_event dp input ra rl) (dn_execution s) = Some x"
    and "su_still_admitted su" "su_spawn su = Ok ()"
  shows "start_turn lib json_len su dp snap sid input ra rl s = Some (Ok (su_turn_id su), s\<lparr>dn_host := h, dn_execution := x\<rparr>)"
  using assms by (simp add: start_turn_def Let_def)

definition demo_submit_env :: "nat submit_env" where
  "demo_submit_env = \<lparr>su_admitted = True, su_still_admitted = True, su_turn_id = ''o'', su_timestamp = 5, su_spawn = Ok (),
     su_session_env = demo_session_env, su_fresh_link = 0\<rparr>"

definition demo_daemon :: "nat daemon_session" where
  "demo_daemon = \<lparr>dn_host = demo_created total_lib, dn_execution = execution_new,
     dn_audit = \<lparr>da_config = Some demo_audit_config, da_sessions = [(''i'', demo_session_audit (OpenConnection demo_open_client))]\<rparr>\<rparr>"

lemma demo_input_acknowledged:
  "fst (da_append demo_audit_link ''i'' event (da_session demo_audit_link p ''i'' d (dn_audit demo_daemon))) = Ok ()"
proof -
  obtain c where "client_append (al_link demo_audit_link) event demo_open_client = (Ok (1, []), c)"
    using demo_acknowledges [of demo_open_client event] by (auto simp: demo_open_client_def)
  then show ?thesis
    by (simp add: da_append_def da_session_def demo_daemon_def demo_session_audit_def audit_append_def ready_audit_def)
qed

lemma demo_submit_env_sel:
  "su_admitted demo_submit_env" "su_still_admitted demo_submit_env" "su_turn_id demo_submit_env = ''o''" "su_timestamp demo_submit_env = 5"
  "su_spawn demo_submit_env = Ok ()" "su_session_env demo_submit_env = demo_session_env" "su_fresh_link demo_submit_env = 0"
  by (simp_all add: demo_submit_env_def)

lemma demo_submit_accepted:
  "\<exists>s'. submit total_lib demo_audit_link (\<lambda>_. 1) demo_submit_env daemon_policy_default ''i'' (AgentInput ''hi'') Auto None demo_daemon = Some (Ok ''o'', s')"
proof -
  let ?s = "projr (the (snapshot (sh_registry (demo_created total_lib)) ''i''))"
  let ?e = "started_event daemon_policy_default (AgentInput ''hi'') Auto None"
  have sn: "snapshot (sh_registry (demo_created total_lib)) ''i'' = Some (Ok ?s)" "sd_id (sn_descriptor ?s) = ''i''" by code_simp+
  have be: "begin_execution total_lib demo_session_env ''i'' ''o'' ''agent'' (demo_created total_lib) = (Ok (), demo_running total_lib)" by code_simp
  let ?x = "snd (reserve ''o'' execution_new)"
  have rv: "reserve ''o'' execution_new = (Ok (), ?x)" "fits (\<lambda>_. 1) (xs_events ?x)" "xs_event_bytes ?x = 0" "xs_events ?x = []"
    by (simp_all add: reserve_def execution_new_def)
  have "append_locked (\<lambda>_. 1) 5 ''o'' ?e ?x \<noteq> None"
    using append_locked_eq [of "\<lambda>_. 1" ?x _ "''o''" 5 ?e, OF _ _ rv(2) refl] rv(3,4) by (simp add: lengths_bounded_def)
  then obtain x where ap: "append_locked (\<lambda>_. 1) 5 ''o'' ?e ?x = Some x" by blast
  obtain da where da: "da_append demo_audit_link ''i'' (EvInput ''agent'' ''hi'')
      (da_session demo_audit_link 0 ''i'' (audit_descriptor_of (sn_descriptor ?s)) (dn_audit demo_daemon)) = (Ok (), da)"
    using demo_input_acknowledged by (metis prod.collapse)
  have host: "dn_host demo_daemon = demo_created total_lib" "dn_execution demo_daemon = execution_new" by (simp_all add: demo_daemon_def)
  have upd: "dn_host (s\<lparr>dn_audit := da, dn_execution := y\<rparr>) = dn_host s" "dn_execution (s\<lparr>dn_audit := da, dn_execution := y\<rparr>) = y" for s y
    by simp_all
  let ?m = "demo_daemon\<lparr>dn_audit := da, dn_execution := ?x\<rparr>"
  have "submit total_lib demo_audit_link (\<lambda>_. 1) demo_submit_env daemon_policy_default ''i'' (AgentInput ''hi'') Auto None demo_daemon =
      start_turn total_lib (\<lambda>_. 1) demo_submit_env daemon_policy_default ?s ''i'' (AgentInput ''hi'') Auto None ?m"
    by (rule submit_admitted) (use sn rv(1) da in \<open>simp_all only: host demo_submit_env_sel audit_route.simps fst_conv snd_conv\<close>)
  also have "\<dots> = Some (Ok ''o'', ?m\<lparr>dn_host := demo_running total_lib, dn_execution := x\<rparr>)"
    unfolding demo_submit_env_sel(3) [symmetric]
    by (rule start_turn_started)
      (use sn(2) be ap in \<open>simp_all only: host demo_submit_env_sel audit_route.simps fst_conv snd_conv upd\<close>)
  finally show ?thesis by blast
qed

theorem accepted_turn_is_recorded_and_bounded_witness:
  "\<exists>s'. submit total_lib demo_audit_link (\<lambda>_. 1) demo_submit_env daemon_policy_default ''i'' (AgentInput ''hi'') Auto None demo_daemon = Some (Ok ''o'', s') \<and>
    map_option at_id (xs_active (dn_execution s')) = Some ''o''"
proof -
  have "reg_inv (sh_registry (dn_host demo_daemon))" using reachable_inv [OF demo_reachable(1)] by (simp add: demo_daemon_def)
  then show ?thesis using demo_submit_accepted accepted_turn_is_recorded_and_bounded by fast
qed

end
