(* ===== verification/Turn_Run.thy ===== *)
theory Turn_Run
  imports Daemon_Submit
begin

text \<open>
  The thread of a turn (\<open>run_turn\<close> of \<^verbatim>\<open>crates/xshell-session/src/execution.rs\<close>): the agent loop or the
  shell line, what is kept of it in the registry, and the terminal event that releases the session.
  \<open>Daemon_Turn\<close> says what the observer and the other threads do meanwhile.
\<close>

section \<open>The turn\<close>

text \<open>
  What the thread finds: whether its runtime and the provider's adapter can be built, the schema of the
  tools, the home directory, the file system and the processes of a shell line, the texts of audit
  errors with their causes, and the surroundings of the registry when the turn ends.
\<close>

record 'w turn_run =
  tr_runtime :: "(string, unit) result"
  tr_adapter :: "model_binding \<Rightarrow> (string, unit) result"
  tr_schema :: "string option"
  tr_home :: "string option"
  tr_validate :: "string \<Rightarrow> 'w \<Rightarrow> ('w, string, string) outcome"
  tr_process :: "string \<Rightarrow> string \<Rightarrow> 'w \<Rightarrow> ('w, string, (shell_stream \<times> string) list \<times> process_end) outcome"
  tr_error_text :: "audit_error \<Rightarrow> string"
  tr_session_env :: session_env

definition turn_policy_for ::
  "string option \<Rightarrow> daemon_policy \<Rightarrow> model_binding \<Rightarrow> approval_policy \<Rightarrow> turn_limits \<Rightarrow> policy option \<Rightarrow> turn_policy" where
  "turn_policy_for schema dp model approval limits overlay =
     (turn_policy_new schema approval)
       \<lparr>tp_limits := limits, tp_rules := \<lparr>ar_base = dp_rules dp, ar_overlay = overlay\<rparr>,
        tp_sensitive_paths := dp_sensitive_paths dp, tp_blocked_paths := dp_blocked_paths dp,
        tp_compactor := build_compactor schema (for_model (dp_compaction dp)
          \<lparr>mb_max_history_bytes = md_max_history_bytes model, mb_context_tokens = md_context_tokens model,
           mb_reserve_output_tokens = md_reserve_output_tokens model\<rparr>)\<rparr>"

text \<open>Appending to the audit trail outside the observer.\<close>

definition turn_audit ::
  "'w turn_run \<Rightarrow> ('w, 'd, 'p) daemon_setup \<Rightarrow> audit_event \<Rightarrow> ('w, 'p) daemon_world \<Rightarrow> turn_result \<times> ('w, 'p) daemon_world" where
  "turn_audit R D event w =
     (case handle_append (dt_link D) (dw_handle w) event of
        (r, h) \<Rightarrow> (map_sum (\<lambda>e. Bailed (tr_error_text R e)) id r, w\<lparr>dw_handle := h\<rparr>))"

definition run_agent_input ::
  "'w turn_run \<Rightarrow> ('w, 'd, 'p) daemon_setup \<Rightarrow> daemon_policy \<Rightarrow> approval_policy \<Rightarrow> turn_limits \<Rightarrow> policy option \<Rightarrow> string \<Rightarrow>
   session_snapshot \<Rightarrow> ('w, 'p) daemon_world \<Rightarrow> (turn_result \<times> session_snapshot \<times> ('w, 'p) daemon_world) option" where
  "run_agent_input R D dp approval limits overlay message snap w =
     (let model = sd_model (sn_descriptor snap) in
      case tr_adapter R model of
        Inl e \<Rightarrow> Some (Err (Bailed e), snap, w)
      | Inr _ \<Rightarrow>
          (case run_agent_turn (daemon_env D) (sd_cwd (sn_descriptor snap))
                  (turn_policy_for (tr_schema R) dp model approval limits overlay) (sn_history snap) message w of
             None \<Rightarrow> None
           | Some (r, st, sh) \<Rightarrow>
               Some (r, snap\<lparr>sn_history := st_history st\<rparr>,
                 (case r of Inl e \<Rightarrow> snd (turn_audit R D (EvAgentError (turn_error_message e)) (sh_world sh)) | Inr _ \<Rightarrow> sh_world sh))))"

fun stream_name :: "shell_stream \<Rightarrow> string" where
  "stream_name Stdout = ''stdout''"
| "stream_name Stderr = ''stderr''"

definition and_go ::
  "turn_result \<times> 'w \<Rightarrow> session_snapshot \<Rightarrow> ('w \<Rightarrow> turn_result \<times> session_snapshot \<times> 'w) \<Rightarrow> turn_result \<times> session_snapshot \<times> 'w" where
  "and_go m snap f = (case m of (Inl e, w) \<Rightarrow> (Err e, snap, w) | (Inr _, w) \<Rightarrow> f w)"

definition run_shell_input ::
  "'w turn_run \<Rightarrow> ('w, 'd, 'p) daemon_setup \<Rightarrow> string \<Rightarrow> session_snapshot \<Rightarrow> ('w, 'p) daemon_world \<Rightarrow>
   turn_result \<times> session_snapshot \<times> ('w, 'p) daemon_world" where
  "run_shell_input R D command snap w =
     (let cwd = sd_cwd (sn_descriptor snap) in
      case run_direct_shell (dt_shell_words D) (dt_lossy D) (tr_home R) (\<lambda>p. outer D (tr_validate R p))
             (\<lambda>c d. outer D (tr_process R c d)) command cwd w of
        ((r, w), shown) \<Rightarrow>
          let w = fold (\<lambda>(stream, shown). journal D (ShellOutput (stream_name stream) shown)) shown w in
          case r of
            Inl e \<Rightarrow> and_go (turn_audit R D (EvShellFinished command (''error: '' @ e) cwd) w) snap (\<lambda>w. (Err (Bailed e), snap, w))
          | Inr res \<Rightarrow>
              let snap' = snap\<lparr>sn_descriptor := (sn_descriptor snap)\<lparr>sd_cwd := ds_cwd res\<rparr>\<rparr>;
                  finished = (\<lambda>snap w. and_go (turn_audit R D (EvShellFinished command (ds_status res) (sd_cwd (sn_descriptor snap))) w) snap
                    (\<lambda>w. (Ok (), snap, journal D (ShellFinished command (ds_status res)) w)))
              in if ds_cwd res \<noteq> cwd
                 then and_go (turn_audit R D (EvWorkingDirectoryChanged (ds_cwd res)) w) snap'
                        (\<lambda>w. finished snap' (journal D (WorkingDirectoryChanged (ds_cwd res)) w))
                 else finished snap w)"

definition run_input ::
  "'w turn_run \<Rightarrow> ('w, 'd, 'p) daemon_setup \<Rightarrow> daemon_policy \<Rightarrow> approval_policy \<Rightarrow> turn_limits \<Rightarrow> policy option \<Rightarrow> turn_input \<Rightarrow>
   session_snapshot \<Rightarrow> ('w, 'p) daemon_world \<Rightarrow> (turn_result \<times> session_snapshot \<times> ('w, 'p) daemon_world) option" where
  "run_input R D dp approval limits overlay input snap w =
     (case input of
        AgentInput message \<Rightarrow> run_agent_input R D dp approval limits overlay message snap w
      | ShellInput command \<Rightarrow> Some (run_shell_input R D command snap w))"

text \<open>A failed record outranks a cancellation, which it causes; a lost outcome outranks both.\<close>

definition terminal_event ::
  "'w turn_run \<Rightarrow> (string, session_descriptor) result \<Rightarrow> audit_error option \<Rightarrow> bool \<Rightarrow> turn_result \<Rightarrow> session_event_kind" where
  "terminal_event R persistence audit_failure cancelled r =
     (case persistence of
        Inl e \<Rightarrow> TurnFailed (''cannot persist terminal turn state: '' @ e) None
      | Inr _ \<Rightarrow>
          (case audit_failure of
             Some e \<Rightarrow> TurnFailed (tr_error_text R e) (Some AuditUnavailable)
           | None \<Rightarrow>
               if cancelled then TurnCancelled
               else (case r of
                       Inl e \<Rightarrow> TurnFailed (turn_error_message e) (case e of Exhausted _ \<Rightarrow> Some BudgetExhausted | _ \<Rightarrow> None)
                     | Inr _ \<Rightarrow> TurnCompleted)))"

definition conclude_turn ::
  "('w, 'd, 'p) daemon_setup \<Rightarrow> session_event_kind \<Rightarrow> ('w, 'p) daemon_world \<Rightarrow> ('w, 'p) daemon_world option" where
  "conclude_turn D event w =
     map_option (\<lambda>x. w\<lparr>dw_execution := x\<rparr>)
       (conclude (dt_json_len D) (dt_timestamp D (dw_outer w)) (dw_turn_id w) event (dw_execution w))"

text \<open>
  \<open>host\<close> is the registry that the turn finds at its end. A turn that waits for an approval without end
  never gets there: it has no result.
\<close>

definition run_turn ::
  "session_lib \<Rightarrow> 'w turn_run \<Rightarrow> ('w, 'd, 'p) daemon_setup \<Rightarrow> daemon_policy \<Rightarrow> string \<Rightarrow> turn_input \<Rightarrow> approval_policy \<Rightarrow> turn_limits \<Rightarrow>
   policy option \<Rightarrow> session_snapshot \<Rightarrow> session_host \<Rightarrow> ('w, 'p) daemon_world \<Rightarrow> (session_host \<times> ('w, 'p) daemon_world) option" where
  "run_turn lib R D dp sid input approval limits overlay snap host w =
     (case tr_runtime R of
        Inl e \<Rightarrow> map_option (Pair host) (conclude_turn D (TurnFailed e None) w)
      | Inr _ \<Rightarrow>
          (case run_input R D dp approval limits overlay input snap w of
             None \<Rightarrow> None
           | Some (r, snap, w) \<Rightarrow>
               if dw_stalled w \<noteq> None then None
               else (case update_execution_state lib (tr_session_env R) sid (sd_cwd (sn_descriptor snap)) (sn_history snap) host of
                  (persistence, host) \<Rightarrow>
                    map_option (Pair host)
                      (conclude_turn D (terminal_event R persistence (dw_audit_failure w) (dw_cancelled w) r) w))))"

section \<open>The turn stays the session's turn\<close>

text \<open>The session's active turn is this one, and its journal is within its bounds.\<close>

definition turn_alive :: "('w, 'd, 'p) daemon_setup \<Rightarrow> ('w, 'p) daemon_world \<Rightarrow> bool" where
  "turn_alive D w \<longleftrightarrow>
     map_option at_id (xs_active (dw_execution w)) = Some (dw_turn_id w) \<and>
     xs_event_bytes (dw_execution w) = sum_list (map (dt_json_len D) (xs_events (dw_execution w))) \<and>
     fits (dt_json_len D) (xs_events (dw_execution w))"

text \<open>
  A wait that nothing ends: the turn is the session's turn, it is not cancelled, and there is no reply
  for the call.
\<close>

definition stall_ok :: "('w, 'p) daemon_world \<Rightarrow> bool" where
  "stall_ok w \<longleftrightarrow>
     (case dw_stalled w of
        None \<Rightarrow> True
      | Some (call_id, cancelled, x) \<Rightarrow>
          map_option at_id (xs_active x) = Some (dw_turn_id w) \<and> \<not> cancelled \<and> map_of (xs_approvals x) (dw_turn_id w, call_id) = None)"

definition steady :: "('w, 'd, 'p) daemon_setup \<Rightarrow> ('w, 'p) daemon_world \<Rightarrow> ('w, 'p) daemon_world \<Rightarrow> bool" where
  "steady D w w' \<longleftrightarrow>
     (lengths_bounded (dt_json_len D) \<and> turn_alive D w \<and> stall_ok w \<longrightarrow> turn_alive D w' \<and> stall_ok w') \<and>
     dw_turn_id w' = dw_turn_id w"

lemma steady_refl [simp]: "steady D w w"
  by (simp add: steady_def)

lemma steady_trans [trans]: "steady D u v \<Longrightarrow> steady D v w \<Longrightarrow> steady D u w"
  by (auto simp: steady_def)

lemma steady_same:
  assumes "dw_turn_id w' = dw_turn_id w" "dw_stalled w' = dw_stalled w" "xs_events (dw_execution w') = xs_events (dw_execution w)"
    "xs_event_bytes (dw_execution w') = xs_event_bytes (dw_execution w)"
    "map_option at_id (xs_active (dw_execution w')) = map_option at_id (xs_active (dw_execution w))"
  shows "steady D w w'"
  using assms by (simp add: steady_def turn_alive_def stall_ok_def split: option.split)

text \<open>Operations on the execution state that leave the journal and the active turn alone.\<close>

lemma exec_same [simp]:
  "xs_events (cancel_active x) = xs_events x" "xs_event_bytes (cancel_active x) = xs_event_bytes x"
  "map_option at_id (xs_active (cancel_active x)) = map_option at_id (xs_active x)"
  "xs_events (snd (cancel t x)) = xs_events x" "xs_event_bytes (snd (cancel t x)) = xs_event_bytes x"
  "map_option at_id (xs_active (snd (cancel t x))) = map_option at_id (xs_active x)"
  "xs_events (snd (approve reply x)) = xs_events x" "xs_event_bytes (snd (approve reply x)) = xs_event_bytes x"
  "map_option at_id (xs_active (snd (approve reply x))) = map_option at_id (xs_active x)"
  "xs_events (snd (poll_approval c key x)) = xs_events x" "xs_event_bytes (snd (poll_approval c key x)) = xs_event_bytes x"
  "map_option at_id (xs_active (snd (poll_approval c key x))) = map_option at_id (xs_active x)"
  "xs_events (register_request t event x) = xs_events x" "xs_event_bytes (register_request t event x) = xs_event_bytes x"
  "map_option at_id (xs_active (register_request t event x)) = map_option at_id (xs_active x)"
  by (simp_all add: cancel_active_def cancel_def approve_def poll_approval_def register_request_def Let_def option.map_comp comp_def
      split: option.splits execution_event.splits)

lemma set_cancelled_steady [simp]: "steady D w (set_cancelled w)"
  by (rule steady_same) (simp_all add: set_cancelled_def)

lemma other_step_steady: "steady D w (other_step D s w)"
  by (cases s) (auto intro!: steady_same simp: set_cancelled_def)

lemma fold_other_steady: "steady D w (fold (other_step D) steps w)"
proof (induction steps arbitrary: w)
  case (Cons s steps)
  then show ?case using other_step_steady steady_trans by (metis fold_simps(2))
qed simp

lemma outer_same_steady: "steady D w (w\<lparr>dw_outer := v\<rparr>)"
  by (rule steady_same) simp_all

lemma interfere_steady: "steady D w (interfere D w)"
  by (cases "dt_others D (dw_outer w)") (simp add: interfere_def steady_trans [OF outer_same_steady fold_other_steady])

lemma outer_steady: "steady D w (snd (outer D f w))"
  by (cases "f (dw_outer w)") (simp add: outer_def steady_trans [OF outer_same_steady interfere_steady])

lemma await_reply_steady: "await_reply D call_id steps w = (d, w') \<Longrightarrow> steady D w w'"
proof (induction steps arbitrary: w)
  case Nil
  let ?p = "poll_approval (dw_cancelled w) (dw_turn_id w, call_id) (dw_execution w)"
  have "fst ?p = None \<and> w' = (set_cancelled w)\<lparr>dw_stalled := Some (call_id, dw_cancelled w, dw_execution w)\<rparr> \<or>
      w' = w\<lparr>dw_execution := snd ?p\<rparr>"
    using Nil by (subst (asm) await_reply.simps) (auto split: prod.splits option.splits)
  moreover have "steady D w (w\<lparr>dw_execution := snd (poll_approval c key (dw_execution w))\<rparr>)" for c key
    by (rule steady_same) simp_all
  moreover have "steady D w ((set_cancelled w)\<lparr>dw_stalled := Some (call_id, dw_cancelled w, dw_execution w)\<rparr>)" if "fst ?p = None"
    using that by (auto simp: steady_def turn_alive_def stall_ok_def set_cancelled_def poll_approval_def split: if_splits option.splits)
  ultimately show ?case by blast
next
  case (Cons s steps)
  have "w' = w\<lparr>dw_execution := snd (poll_approval (dw_cancelled w) (dw_turn_id w, call_id) (dw_execution w))\<rparr> \<or>
      await_reply D call_id steps (other_step D s w) = (d, w')"
    using Cons.prems by (subst (asm) await_reply.simps) (auto split: prod.splits option.splits)
  moreover have "steady D w (w\<lparr>dw_execution := snd (poll_approval c key (dw_execution w))\<rparr>)" for c key
    by (rule steady_same) simp_all
  ultimately show ?case using Cons.IH steady_trans [OF other_step_steady] by blast
qed

lemma observer_approve_steady: "observer_approve D call reason w = (d, w') \<Longrightarrow> steady D w w'"
  by (cases "dt_others D (dw_outer w)") (auto simp: observer_approve_def intro: steady_trans [OF outer_same_steady await_reply_steady])

lemma journal_steady: "steady D w (journal D event w)"
proof -
  have "turn_alive D (journal D event w)" if a: "lengths_bounded (dt_json_len D)" "turn_alive D w"
    using append_locked_eq [OF a(1) _ _ refl, where st = "dw_execution w" and turn_id = "dw_turn_id w"] a(2) retained_fits
    by (auto simp: turn_alive_def journal_def)
  then show ?thesis by (simp add: steady_def journal_def stall_ok_def split: option.splits)
qed

lemma observer_audit_steady: "steady D w (observer_audit D event w)"
proof -
  have "steady D w (w\<lparr>dw_handle := h\<rparr>)" "steady D w (w\<lparr>dw_handle := h, dw_audit_failure := f\<rparr>)" for h f
    by (rule steady_same, simp_all)+
  moreover from this have "steady D w (set_cancelled (w\<lparr>dw_handle := h, dw_audit_failure := f\<rparr>))" for h f
    using steady_trans [OF _ set_cancelled_steady] by blast
  ultimately show ?thesis by (simp add: observer_audit_def split: prod.split sum.split)
qed

lemma observer_emit_steady: "steady D w (observer_emit D event w)"
proof -
  have a: "steady D w (audit_execution D event w)"
    by (simp add: audit_execution_def observer_audit_steady split: option.split)
  have r: "steady D u (u\<lparr>dw_execution := register_request (dw_turn_id u) event (dw_execution u)\<rparr>)" for u :: "('a, 'c) daemon_world"
    by (rule steady_same) simp_all
  show ?thesis unfolding observer_emit_def Let_def
    by (rule steady_trans [OF steady_trans [OF steady_trans [OF a r] journal_steady] interfere_steady])
qed

interpretation steady_os: os_progress "daemon_os D" "steady D"
  by unfold_locales (auto simp: daemon_os_def intro: outer_steady steady_trans)

definition going :: "('w, 'd, 'p) daemon_setup \<Rightarrow> ('w, 'p) daemon_world \<Rightarrow> ('w, 'p) daemon_world shared \<Rightarrow> bool" where
  "going D w sh \<longleftrightarrow> steady D w (sh_world sh)"

interpretation steady_turn: observed_engine "daemon_env D" "going D w0"
proof
  fix sh :: "('a, 'c) daemon_world shared" and agents e
  assume "going D w0 sh"
  then show "going D w0 (emit (daemon_env D) agents e sh)"
    using steady_trans [OF _ observer_emit_steady] by (simp add: going_def emit_def daemon_env_def)
next
  fix sh :: "('a, 'c) daemon_world shared" and b
  show "going D w0 sh \<Longrightarrow> going D w0 (sh\<lparr>sh_budget := b\<rparr>)" by (simp add: going_def)
next
  fix sh :: "('a, 'c) daemon_world shared" and request tools x w b
  assume "going D w0 sh" "env_chat (daemon_env D) request tools (sh_world sh) = (x, w)"
  moreover from this(2) have "steady D (sh_world sh) w"
    using outer_steady [of D "sh_world sh" "dt_chat D request tools"] by (simp add: daemon_env_def)
  ultimately show "going D w0 (sh\<lparr>sh_budget := b, sh_world := w, sh_trace := sh_trace sh @ [Chat request]\<rparr>)"
    using steady_trans by (simp add: going_def) blast
next
  fix sh :: "('a, 'c) daemon_world shared" and sc reason d w
  assume "going D w0 sh" "env_approve (daemon_env D) sc reason (sh_world sh) = (d, w)"
  then show "going D w0 (sh\<lparr>sh_world := w, sh_trace := sh_trace sh @ [AskApproval sc reason d]\<rparr>)"
    using steady_trans [OF _ observer_approve_steady] by (simp add: going_def daemon_env_def)
next
  fix sh :: "('a, 'c) daemon_world shared" and call cwd sensitive blocked p w
  assume "going D w0 sh" "prepare_call (env_os (daemon_env D)) call cwd sensitive blocked (sh_world sh) = (p, w)"
  then show "going D w0 (sh\<lparr>sh_world := w\<rparr>)"
    using steady_trans [OF _ steady_os.prepare_call_R] by (simp add: going_def daemon_env_def)
next
  fix sh :: "('a, 'c) daemon_world shared" and agents sc timeout call p result w facts
  assume "going D w0 sh"
    and x: "execute_prepared (env_os (daemon_env D)) (env_lossy (daemon_env D)) (env_shell (daemon_env D) timeout) call p (sh_world sh) = (result, w)"
  moreover have "steady D (sh_world sh) w"
    by (rule steady_os.execute_prepared_R [OF _ x [unfolded daemon_env_def, simplified]]) (rule outer_steady)
  ultimately show "going D w0 (sh\<lparr>sh_trace := sh_trace sh @ [Execute call sc facts], sh_world := w\<rparr>)"
    using steady_trans by (simp add: going_def) blast
qed

lemma turn_audit_steady: "steady D w (snd (turn_audit R D event w))"
  by (rule steady_same) (simp_all add: turn_audit_def split: prod.split)

lemma run_agent_input_steady:
  assumes "run_agent_input R D dp approval limits overlay message snap w = Some (r, snap', w')"
  shows "steady D w w'"
proof -
  have agent: "steady D w (sh_world sh)" if "run_agent_turn (daemon_env D) cwd policy history message w = Some (r', st, sh)" for cwd policy history r' st sh
    using steady_turn.run_agent_turn_keeps [OF that, of w] by (simp add: going_def)
  show ?thesis
    using assms agent steady_trans [OF agent turn_audit_steady]
    by (auto simp: run_agent_input_def Let_def split: sum.splits option.splits prod.splits)
qed

lemma run_direct_shell_world:
  assumes "run_direct_shell sw lossy home (\<lambda>p. outer D (v p)) (\<lambda>c d. outer D (pr c d)) command cwd w = ((r, w'), shown)"
  shows "w' = w \<or> (\<exists>p. w' = snd (outer D (v p) w)) \<or> w' = snd (outer D (pr command cwd) w)"
  using assms by (auto simp: run_direct_shell_def bind_w_def Let_def split: if_splits sum.splits option.splits prod.splits process_end.splits; metis snd_conv)

lemma run_direct_shell_steady:
  assumes "run_direct_shell sw lossy home (\<lambda>p. outer D (v p)) (\<lambda>c d. outer D (pr c d)) command cwd w = ((r, w'), shown)"
  shows "steady D w w'"
  using run_direct_shell_world [OF assms] by (elim disjE exE) (simp_all add: outer_steady)

lemma fold_journal_steady: "steady D w (fold (\<lambda>(stream, shown). journal D (f stream shown)) chunks w)"
proof (induction chunks arbitrary: w)
  case (Cons c chunks)
  show ?case using steady_trans [OF journal_steady Cons] by (cases c) (simp only: fold_simps prod.case)
qed simp

lemma and_go_steady:
  "steady D w (snd m) \<Longrightarrow> (\<And>v. steady D w v \<Longrightarrow> steady D w (snd (snd (f v)))) \<Longrightarrow> steady D w (snd (snd (and_go m snap f)))"
  by (cases m) (simp add: and_go_def split: sum.split)

lemma run_shell_input_steady: "steady D w (snd (snd (run_shell_input R D command snap w)))"
proof -
  obtain r w1 shown where s: "run_direct_shell (dt_shell_words D) (dt_lossy D) (tr_home R) (\<lambda>p. outer D (tr_validate R p))
      (\<lambda>c d. outer D (tr_process R c d)) command (sd_cwd (sn_descriptor snap)) w = ((r, w1), shown)" by (metis prod.collapse)
  let ?w = "fold (\<lambda>(stream, shown). journal D (ShellOutput (stream_name stream) shown)) shown w1"
  have w: "steady D w ?w" by (rule steady_trans [OF run_direct_shell_steady [OF s] fold_journal_steady])
  have audit: "steady D w v \<Longrightarrow> steady D w (snd (turn_audit R D e v))" for v e using steady_trans [OF _ turn_audit_steady] .
  have jrnl: "steady D w v \<Longrightarrow> steady D w (journal D e v)" for v e using steady_trans [OF _ journal_steady] .
  show ?thesis
    unfolding run_shell_input_def Let_def s
    by (cases r) (auto simp: w intro!: and_go_steady audit jrnl)
qed

lemma run_agent_turn_returns:
  assumes "paired history"
  shows "run_agent_turn env cwd policy history message w \<noteq> None"
proof -
  let ?sh = "\<lparr>sh_world = w, sh_budget = budget_new (env_now env w) (tp_limits policy), sh_trace = []\<rparr>"
  have "remaining ?sh < Suc (tl_provider_requests (tp_limits policy))" by (simp add: remaining_def budget_new_def)
  from agent_loop_returns [OF turn_start_inv [OF assms] this] show ?thesis
    unfolding run_agent_turn_def run_agent_turn_with_budget_def by blast
qed

lemma run_input_returns:
  assumes "paired (sn_history snap)"
  shows "\<exists>r snap' w'. run_input R D dp approval limits overlay input snap w = Some (r, snap', w') \<and> steady D w w'"
proof (cases input)
  case (AgentInput message)
  have "run_agent_turn (daemon_env D) (sd_cwd (sn_descriptor snap))
      (turn_policy_for (tr_schema R) dp (sd_model (sn_descriptor snap)) approval limits overlay) (sn_history snap) message w \<noteq> None"
    by (rule run_agent_turn_returns [OF assms])
  then have "run_agent_input R D dp approval limits overlay message snap w \<noteq> None"
    by (auto simp: run_agent_input_def Let_def split: sum.split option.split)
  then show ?thesis using run_agent_input_steady AgentInput by (fastforce simp: run_input_def)
next
  case (ShellInput command)
  then show ?thesis using run_shell_input_steady by (auto simp: run_input_def prod_eq_iff)
qed

lemma conclude_turn_returns:
  assumes "lengths_bounded (dt_json_len D)" "turn_alive D w"
  shows "\<exists>x. conclude (dt_json_len D) (dt_timestamp D (dw_outer w)) (dw_turn_id w) event (dw_execution w) = Some x \<and> xs_active x = None"
proof -
  let ?a = "append_locked (dt_json_len D) (dt_timestamp D (dw_outer w)) (dw_turn_id w) event (dw_execution w)"
  obtain y where y: "?a = Some y" "xs_active y = xs_active (dw_execution w)"
    using append_locked_eq [OF assms(1) _ _ refl, where st = "dw_execution w" and turn_id = "dw_turn_id w"] assms(2)
    by (auto simp: turn_alive_def)
  then have "xs_active (finish_locked (dw_turn_id w) y) = None" using assms(2) by (simp add: finish_locked_def turn_alive_def)
  with y show ?thesis by (simp add: conclude_def)
qed

text \<open>What a stored outcome means.\<close>

lemma update_execution_state_stored:
  assumes "update_execution_state lib env sid cwd history h = (Ok d, h')"
  shows "map_of (rg_in_flight (sh_registry h')) sid = None"
    "\<exists>q. map_of (rg_sessions (sh_registry h')) sid = Some q \<and> sn_history (se_snapshot q) = history"
    "\<exists>x. sb_encode lib (durable_state_of (sh_registry h')) = Ok x \<and> ss_final (sh_store h') = Some x"
proof -
  obtain cwd' q now where q: "map_of (rg_sessions (sh_registry h)) sid = Some q"
    and p: "persisting lib env ((set_session sid (changed_record None cwd' now history q) (sh_registry h))
        \<lparr>rg_in_flight := AList.delete sid (rg_in_flight (sh_registry h))\<rparr>) (descriptor_with_status (changed_record None cwd' now history q)) h = (Ok d, h')"
    using assms by (auto simp: update_execution_state_def Let_def split: sum.splits option.splits)
  let ?g = "(set_session sid (changed_record None cwd' now history q) (sh_registry h))\<lparr>rg_in_flight := AList.delete sid (rg_in_flight (sh_registry h))\<rparr>"
  have h': "sh_registry h' = ?g" "\<exists>x. sb_encode lib (durable_state_of ?g) = Ok x \<and> ss_final (sh_store h') = Some x"
    using p by (auto simp: persisting_def persist_def split: sum.splits option.splits persist_fault.splits)
  show "map_of (rg_in_flight (sh_registry h')) sid = None" by (simp add: h'(1) delete_conv')
  show "\<exists>q. map_of (rg_sessions (sh_registry h')) sid = Some q \<and> sn_history (se_snapshot q) = history"
    by (simp add: h'(1) changed_record_def)
  show "\<exists>x. sb_encode lib (durable_state_of (sh_registry h')) = Ok x \<and> ss_final (sh_store h') = Some x" using h' by simp
qed

section \<open>Properties\<close>

lemma other_step_stalled [simp]: "dw_stalled (other_step D s w) = dw_stalled w"
  by (cases s) (simp_all add: set_cancelled_def)

lemma fold_other_stalled [simp]: "dw_stalled (fold (other_step D) steps w) = dw_stalled w"
  by (induction steps arbitrary: w) simp_all

lemma stalled_same [simp]:
  "dw_stalled (interfere D w) = dw_stalled w" "dw_stalled (snd (outer D f w)) = dw_stalled w"
  "dw_stalled (journal D event w) = dw_stalled w" "dw_stalled (snd (turn_audit R D a w)) = dw_stalled w"
  by (simp_all add: interfere_def outer_def journal_def turn_audit_def split: prod.split option.split)

lemma fold_journal_stalled: "dw_stalled (fold (\<lambda>(stream, shown). journal D (f stream shown)) chunks w) = dw_stalled w"
  by (induction chunks arbitrary: w) (simp_all add: case_prod_beta)

lemma and_go_stalled:
  "dw_stalled (snd m) = z \<Longrightarrow> (\<And>v. dw_stalled v = z \<Longrightarrow> dw_stalled (snd (snd (f v))) = z) \<Longrightarrow> dw_stalled (snd (snd (and_go m snap f))) = z"
  by (cases m) (simp add: and_go_def split: sum.split)

text \<open>A shell line asks nobody for an approval.\<close>

lemma run_shell_input_stalled: "dw_stalled (snd (snd (run_shell_input R D command snap w))) = dw_stalled w"
proof -
  obtain r w1 shown where s: "run_direct_shell (dt_shell_words D) (dt_lossy D) (tr_home R) (\<lambda>p. outer D (tr_validate R p))
      (\<lambda>c d. outer D (tr_process R c d)) command (sd_cwd (sn_descriptor snap)) w = ((r, w1), shown)" by (metis prod.collapse)
  have "w1 = w \<or> (\<exists>p. w1 = snd (outer D (tr_validate R p) w)) \<or> w1 = snd (outer D (tr_process R command (sd_cwd (sn_descriptor snap))) w)"
    using s by (rule run_direct_shell_world)
  then have "dw_stalled w1 = dw_stalled w" by auto
  then show ?thesis
    unfolding run_shell_input_def Let_def s by (cases r) (auto simp: fold_journal_stalled intro!: and_go_stalled)
qed

lemma run_input_steady: "run_input R D dp approval limits overlay input snap w = Some (r, snap', w') \<Longrightarrow> steady D w w'"
  using run_agent_input_steady run_shell_input_steady [of D w R _ snap]
  by (cases input) (auto simp: run_input_def prod_eq_iff)

lemma turn_concludes:
  assumes "lengths_bounded (dt_json_len D)" "turn_alive D w" "dw_stalled w = None"
    and "run_input R D dp approval limits overlay input snap w = Some (r, snap', v)" "dw_stalled v = None"
  shows "\<exists>host' w' x now event. run_turn lib R D dp sid input approval limits overlay snap host w = Some (host', w') \<and>
    xs_active (dw_execution w') = None \<and>
    conclude (dt_json_len D) now (dw_turn_id w) event x = Some (dw_execution w') \<and>
    event \<in> {TurnCompleted, TurnCancelled} \<union> {TurnFailed message reason | message reason. True} \<and>
    (event = TurnCompleted \<longrightarrow>
       \<not> dw_cancelled w' \<and> dw_audit_failure w' = None \<and> map_of (rg_in_flight (sh_registry host')) sid = None \<and>
       (\<exists>snap' v q. run_input R D dp approval limits overlay input snap w = Some (Ok (), snap', v) \<and>
          map_of (rg_sessions (sh_registry host')) sid = Some q \<and> sn_history (se_snapshot q) = sn_history snap') \<and>
       (\<exists>y. sb_encode lib (durable_state_of (sh_registry host')) = Ok y \<and> ss_final (sh_store host') = Some y))"
proof (cases "tr_runtime R")
  case (Inl e)
  obtain x where x: "conclude (dt_json_len D) (dt_timestamp D (dw_outer w)) (dw_turn_id w) (TurnFailed e None) (dw_execution w) = Some x" "xs_active x = None"
    using conclude_turn_returns [OF assms(1,2)] by blast
  then have "run_turn lib R D dp sid input approval limits overlay snap host w = Some (host, w\<lparr>dw_execution := x\<rparr>)"
    by (simp add: run_turn_def Inl conclude_turn_def)
  with x show ?thesis by fastforce
next
  case (Inr u)
  note v = assms(4) and going = assms(5)
  have alive: "turn_alive D v" "dw_turn_id v = dw_turn_id w"
    using run_input_steady [OF v] assms(1-3) by (simp_all add: steady_def stall_ok_def)
  obtain p host' where p: "update_execution_state lib (tr_session_env R) sid (sd_cwd (sn_descriptor snap')) (sn_history snap') host = (p, host')"
    by (metis prod.collapse)
  let ?e = "terminal_event R p (dw_audit_failure v) (dw_cancelled v) r"
  obtain x where x: "conclude (dt_json_len D) (dt_timestamp D (dw_outer v)) (dw_turn_id v) ?e (dw_execution v) = Some x" "xs_active x = None"
    using conclude_turn_returns [OF assms(1) alive(1)] by blast
  have run: "run_turn lib R D dp sid input approval limits overlay snap host w = Some (host', v\<lparr>dw_execution := x\<rparr>)"
    using v p x(1) going by (simp add: run_turn_def Inr conclude_turn_def)
  have ev: "?e \<in> {TurnCompleted, TurnCancelled} \<union> {TurnFailed message reason | message reason. True}"
    by (auto simp: terminal_event_def split: sum.split option.split)
  have ok: "\<exists>d. p = Ok d \<and> dw_audit_failure v = None \<and> \<not> dw_cancelled v \<and> r = Ok ()" if "?e = TurnCompleted"
    using that by (auto simp: terminal_event_def split: sum.splits option.splits if_splits)
  have fin: "?e = TurnCompleted \<longrightarrow>
      \<not> dw_cancelled v \<and> dw_audit_failure v = None \<and> map_of (rg_in_flight (sh_registry host')) sid = None \<and>
      (\<exists>snap'' v' q. run_input R D dp approval limits overlay input snap w = Some (Ok (), snap'', v') \<and>
         map_of (rg_sessions (sh_registry host')) sid = Some q \<and> sn_history (se_snapshot q) = sn_history snap'') \<and>
      (\<exists>y. sb_encode lib (durable_state_of (sh_registry host')) = Ok y \<and> ss_final (sh_store host') = Some y)"
  proof
    assume "?e = TurnCompleted"
    from ok [OF this] obtain d where d: "p = Ok d" "dw_audit_failure v = None" "\<not> dw_cancelled v" "r = Ok ()" by blast
    note stored = update_execution_state_stored [OF p [unfolded d(1)]]
    obtain q where "map_of (rg_sessions (sh_registry host')) sid = Some q" "sn_history (se_snapshot q) = sn_history snap'" using stored(2) by blast
    then show "\<not> dw_cancelled v \<and> dw_audit_failure v = None \<and> map_of (rg_in_flight (sh_registry host')) sid = None \<and>
      (\<exists>snap'' v' q. run_input R D dp approval limits overlay input snap w = Some (Ok (), snap'', v') \<and>
         map_of (rg_sessions (sh_registry host')) sid = Some q \<and> sn_history (se_snapshot q) = sn_history snap'') \<and>
      (\<exists>y. sb_encode lib (durable_state_of (sh_registry host')) = Ok y \<and> ss_final (sh_store host') = Some y)"
      using d(2,3) stored(1,3) v [unfolded d(4)] by (intro conjI) (assumption | blast)+
  qed
  have eq: "dw_cancelled (v\<lparr>dw_execution := x\<rparr>) = dw_cancelled v" "dw_audit_failure (v\<lparr>dw_execution := x\<rparr>) = dw_audit_failure v"
    "dw_execution (v\<lparr>dw_execution := x\<rparr>) = x" by simp_all
  show ?thesis
    by (intro exI [of _ host'] exI [of _ "v\<lparr>dw_execution := x\<rparr>"] exI [of _ "dw_execution v"] exI [of _ "dt_timestamp D (dw_outer v)"] exI [of _ ?e],
        unfold eq, intro conjI run x(2) x(1) [unfolded alive(2)] ev fin)
qed

text \<open>
  C10. Every turn releases its session, or it waits for a person. The turn starts as the session's
  active turn, with the journal within its bounds and a history whose calls are answered; the sizes of
  events are bounded; and calls of the provider, of the operating system and of processes return. Whatever they give, and whatever the audit service, the state file
  and the other threads do, one of two things happens. Either the thread of a turn returns, its last event
  is a terminal one, and the session has no active turn afterwards; only a turn that was neither cancelled
  nor left unrecorded, and whose outcome is stored, is reported as completed: then the registry holds the
  history the turn left, the session is no longer marked as having an operation in flight, and the state
  file says the same. Or the turn has no result: it waits for the decision on a call, it is still the
  session's turn and not cancelled, and nobody has answered. A shell line never waits.
\<close>

theorem turn_concludes_or_waits_for_approval:
  assumes "lengths_bounded (dt_json_len D)" "turn_alive D w" "dw_stalled w = None" "paired (sn_history snap)"
  shows "((\<exists>host' w' x now event. run_turn lib R D dp sid input approval limits overlay snap host w = Some (host', w') \<and>
    xs_active (dw_execution w') = None \<and>
    conclude (dt_json_len D) now (dw_turn_id w) event x = Some (dw_execution w') \<and>
    event \<in> {TurnCompleted, TurnCancelled} \<union> {TurnFailed message reason | message reason. True} \<and>
    (event = TurnCompleted \<longrightarrow>
       \<not> dw_cancelled w' \<and> dw_audit_failure w' = None \<and> map_of (rg_in_flight (sh_registry host')) sid = None \<and>
       (\<exists>snap' v q. run_input R D dp approval limits overlay input snap w = Some (Ok (), snap', v) \<and>
          map_of (rg_sessions (sh_registry host')) sid = Some q \<and> sn_history (se_snapshot q) = sn_history snap') \<and>
       (\<exists>y. sb_encode lib (durable_state_of (sh_registry host')) = Ok y \<and> ss_final (sh_store host') = Some y))) \<or>
    run_turn lib R D dp sid input approval limits overlay snap host w = None \<and>
    (\<exists>r snap' v call_id x. run_input R D dp approval limits overlay input snap w = Some (r, snap', v) \<and>
       dw_stalled v = Some (call_id, False, x) \<and> map_option at_id (xs_active x) = Some (dw_turn_id w) \<and>
       map_of (xs_approvals x) (dw_turn_id w, call_id) = None)) \<and>
   (\<forall>command. input = ShellInput command \<longrightarrow> run_turn lib R D dp sid input approval limits overlay snap host w \<noteq> None)"
proof -
  obtain r snap' v where v: "run_input R D dp approval limits overlay input snap w = Some (r, snap', v)"
    using run_input_returns [OF assms(4)] by metis
  have shell: "dw_stalled v = None" if "input = ShellInput command" for command
    using v that run_shell_input_stalled [of R D command snap w] assms(3) by (simp add: run_input_def)
  show ?thesis
  proof (cases "dw_stalled v")
    case None
    from turn_concludes [OF assms(1-3) v this] show ?thesis by fastforce
  next
    case (Some z)
    obtain call_id c x where z: "z = (call_id, c, x)" by (cases z)
    have waits: "\<not> c" "map_option at_id (xs_active x) = Some (dw_turn_id w)" "map_of (xs_approvals x) (dw_turn_id w, call_id) = None"
      using run_input_steady [OF v] assms(1-3) Some z by (auto simp: steady_def stall_ok_def)
    show ?thesis
    proof (cases "tr_runtime R")
      case (Inl e)
      obtain x where "conclude (dt_json_len D) (dt_timestamp D (dw_outer w)) (dw_turn_id w) (TurnFailed e None) (dw_execution w) = Some x" "xs_active x = None"
        using conclude_turn_returns [OF assms(1,2)] by blast
      then show ?thesis by (fastforce simp: run_turn_def Inl conclude_turn_def)
    next
      case (Inr u)
      have "run_turn lib R D dp sid input approval limits overlay snap host w = None" using v Some z by (simp add: run_turn_def Inr)
      moreover have "input \<noteq> ShellInput command" for command using shell Some by auto
      ultimately show ?thesis using v Some z waits by simp
    qed
  qed
qed

definition demo_turn_run :: "unit turn_run" where
  "demo_turn_run = \<lparr>tr_runtime = Ok (), tr_adapter = (\<lambda>_. Ok ()), tr_schema = None, tr_home = None, tr_validate = (\<lambda>p w. (Ok p, w)),
     tr_process = (\<lambda>c d w. (Ok ([(Stdout, ''out'')], Exited ''0''), w)), tr_error_text = audit_error_message, tr_session_env = demo_session_env\<rparr>"

theorem turn_concludes_or_waits_for_approval_witness:
  "\<exists>host w. run_turn total_lib demo_turn_run turn_setup daemon_policy_default ''i'' (ShellInput ''ls'') Ask limits_default None
      (demo_snapshot\<lparr>sn_history := []\<rparr>) (demo_running total_lib) turn_world = Some (host, w) \<and> xs_active (dw_execution w) = None"
proof -
  have "lengths_bounded (dt_json_len turn_setup)" by (simp add: lengths_bounded_def turn_setup_def)
  moreover have "turn_alive turn_setup turn_world" "dw_stalled turn_world = None"
    by (simp_all add: turn_alive_def turn_world_def reserve_def execution_new_def)
  moreover have "paired (sn_history (demo_snapshot\<lparr>sn_history := []\<rparr>))" by (simp add: paired_Nil)
  ultimately show ?thesis
    using turn_concludes_or_waits_for_approval [of turn_setup turn_world "demo_snapshot\<lparr>sn_history := []\<rparr>" total_lib demo_turn_run
        daemon_policy_default "''i''" "ShellInput ''ls''" Ask limits_default None "demo_running total_lib"] by blast
qed

end
