(* ===== verification/Pty_Frames.thy ===== *)
theory Pty_Frames
  imports Rust_Std "HOL-Library.Word"
begin

text \<open>
  The frames of a terminal stream (\<^verbatim>\<open>crates/xshell-session/src/pty_stream.rs\<close>): a tag, the length of
  the payload in four bytes and the payload, in both directions. What is written is the list of bytes
  put on the stream; what is read comes from the bytes that are there before the stream ends. The
  client's position in the terminal's output (\<open>cursor\<close>) and its end of a detachment are here too.
\<close>

section \<open>Frames\<close>

definition MAX_FRAME_BYTES :: nat where
  "MAX_FRAME_BYTES = 256 * 1024"

definition MAX_TEXT_BYTES :: nat where
  "MAX_TEXT_BYTES = 4 * 1024"

definition MAX_INPUT_FRAME_BYTES :: nat where
  "MAX_INPUT_FRAME_BYTES = 64 * 1024"

record pty_size =
  ps_rows :: "16 word"
  ps_columns :: "16 word"

datatype client_pty_frame =
    InputFrame string
  | ResizeFrame pty_size
  | CloseFrame

datatype server_pty_frame =
    ReadyFrame
  | OutputFrame nat string
  | ExitFrame string
  | ErrorFrame string
  | DetachedFrame

datatype frame_error =
    FrameTooLarge
  | StreamClosed
  | TruncatedFrame
  | InputTooLarge
  | InvalidClientFrame
  | InvalidServerFrame
  | StatusNotUtf8

definition write_frame :: "nat \<Rightarrow> string \<Rightarrow> (frame_error, string) result" where
  "write_frame tag payload =
     (if length payload > MAX_FRAME_BYTES then Err FrameTooLarge
      else Ok (char_of tag # be_bytes 4 (length payload) @ payload))"

text \<open>A successful read returns the tag, the payload and what is left of the stream.\<close>

definition read_frame :: "string \<Rightarrow> (frame_error, nat \<times> string \<times> string) result" where
  "read_frame bytes =
     (if length bytes < 5 then Err StreamClosed
      else
        let header = take 5 bytes; rest = drop 5 bytes; n = be_value (drop 1 header) in
        if n > MAX_FRAME_BYTES then Err FrameTooLarge
        else if length rest < n then Err TruncatedFrame
        else Ok (of_char (hd header), take n rest, drop n rest))"

definition write_client_frame :: "client_pty_frame \<Rightarrow> (frame_error, string) result" where
  "write_client_frame frame =
     (case frame of
        InputFrame bytes \<Rightarrow> write_frame 1 bytes
      | ResizeFrame sz \<Rightarrow> write_frame 2 (be_bytes 2 (unat (ps_rows sz)) @ be_bytes 2 (unat (ps_columns sz)))
      | CloseFrame \<Rightarrow> write_frame 3 [])"

definition read_client_frame :: "string \<Rightarrow> (frame_error, client_pty_frame \<times> string) result" where
  "read_client_frame bytes =
     (case read_frame bytes of
        Inl e \<Rightarrow> Err e
      | Inr (tag, payload, rest) \<Rightarrow>
          if tag = 1 then
            (if length payload \<le> MAX_INPUT_FRAME_BYTES then Ok (InputFrame payload, rest) else Err InputTooLarge)
          else if tag = 2 \<and> length payload = 4 then
            Ok (ResizeFrame \<lparr>ps_rows = word_of_nat (be_value (take 2 payload)),
                             ps_columns = word_of_nat (be_value (drop 2 payload))\<rparr>, rest)
          else if tag = 3 \<and> payload = [] then Ok (CloseFrame, rest)
          else Err InvalidClientFrame)"

definition write_server_frame :: "server_pty_frame \<Rightarrow> (frame_error, string) result" where
  "write_server_frame frame =
     (case frame of
        ReadyFrame \<Rightarrow> write_frame 128 []
      | OutputFrame offset bytes \<Rightarrow> write_frame 129 (be_bytes 8 offset @ bytes)
      | ExitFrame status \<Rightarrow> write_frame 130 status
      | ErrorFrame message \<Rightarrow> write_frame 131 message
      | DetachedFrame \<Rightarrow> write_frame 132 [])"

definition status_text :: "string \<Rightarrow> (frame_error, string) result" where
  "status_text payload = (if valid_utf8 payload then Ok payload else Err StatusNotUtf8)"

definition read_server_frame :: "string \<Rightarrow> (frame_error, server_pty_frame \<times> string) result" where
  "read_server_frame bytes =
     (case read_frame bytes of
        Inl e \<Rightarrow> Err e
      | Inr (tag, payload, rest) \<Rightarrow>
          if tag = 128 \<and> payload = [] then Ok (ReadyFrame, rest)
          else if tag = 129 \<and> length payload \<ge> 8 then
            Ok (OutputFrame (be_value (take 8 payload)) (drop 8 payload), rest)
          else if tag = 130 \<and> length payload \<le> MAX_TEXT_BYTES then
            map_sum id (\<lambda>t. (ExitFrame t, rest)) (status_text payload)
          else if tag = 131 \<and> length payload \<le> MAX_TEXT_BYTES then
            map_sum id (\<lambda>t. (ErrorFrame t, rest)) (status_text payload)
          else if tag = 132 \<and> payload = [] then Ok (DetachedFrame, rest)
          else Err InvalidServerFrame)"

section \<open>The client's end of a stream\<close>

record pty_stream_client =
  pc_cursor :: nat

datatype relay_event = RelayOutput string | RelayExit string | RelayError string

datatype stream_error =
    FrameError frame_error
  | DuplicateReady
  | DetachedUnexpectedly
  | DetachFailed string

definition relay_frame :: "server_pty_frame \<Rightarrow> pty_stream_client \<Rightarrow> (pty_stream_client, stream_error, relay_event) outcome" where
  "relay_frame frame pc =
     (case frame of
        OutputFrame offset bytes \<Rightarrow> (Ok (RelayOutput bytes), pc\<lparr>pc_cursor := saturating_add offset (length bytes)\<rparr>)
      | ExitFrame status \<Rightarrow> (Ok (RelayExit status), pc)
      | ErrorFrame message \<Rightarrow> (Ok (RelayError message), pc)
      | ReadyFrame \<Rightarrow> (Err DuplicateReady, pc)
      | DetachedFrame \<Rightarrow> (Err DetachedUnexpectedly, pc))"

text \<open>
  Waiting for the end after \<open>Close\<close> was sent. Both ways a stream can end early are an unexpected end
  of file, which \<open>transport_is_closed\<close> takes for a closed transport.
\<close>

definition transport_is_closed :: "frame_error \<Rightarrow> bool" where
  "transport_is_closed e \<longleftrightarrow> e = StreamClosed \<or> e = TruncatedFrame"

lemma read_frame_shorter: "read_frame bytes = Inr (tag, payload, rest) \<Longrightarrow> length rest < length bytes"
  by (auto simp: read_frame_def Let_def split: if_splits)

lemma read_server_frame_shorter: "read_server_frame bytes = Inr (frame, rest) \<Longrightarrow> length rest < length bytes"
  by (auto simp: read_server_frame_def status_text_def dest: read_frame_shorter split: sum.splits if_splits)

function (sequential) await_detached :: "string \<Rightarrow> (stream_error, unit) result" where
  "await_detached bytes =
     (case read_server_frame bytes of
        Inl e \<Rightarrow> if transport_is_closed e then Ok () else Err (FrameError e)
      | Inr (DetachedFrame, rest) \<Rightarrow> Ok ()
      | Inr (ExitFrame _, rest) \<Rightarrow> Ok ()
      | Inr (OutputFrame _ _, rest) \<Rightarrow> await_detached rest
      | Inr (ErrorFrame message, rest) \<Rightarrow> Err (DetachFailed message)
      | Inr (ReadyFrame, rest) \<Rightarrow> Err DuplicateReady)"
  by pat_completeness auto
termination
  by (relation "measure length") (auto dest: read_server_frame_shorter)

section \<open>What the other end reads\<close>

lemma read_frame_append:
  assumes "write_frame tag payload = Ok bytes" "tag < 256"
  shows "read_frame (bytes @ rest) = Ok (tag, payload, rest)"
proof -
  have n: "length payload \<le> MAX_FRAME_BYTES" and bytes: "bytes = char_of tag # be_bytes 4 (length payload) @ payload"
    using assms(1) by (auto simp: write_frame_def split: if_splits)
  have "be_value (be_bytes 4 (length payload)) = length payload"
    by (rule be_value_be_bytes) (use n in \<open>simp add: MAX_FRAME_BYTES_def\<close>)
  moreover have "take 5 (bytes @ rest) = char_of tag # be_bytes 4 (length payload)" "drop 5 (bytes @ rest) = payload @ rest"
    "length (bytes @ rest) = 5 + length payload + length rest"
    by (simp_all add: bytes)
  ultimately show ?thesis using n assms(2) by (simp add: read_frame_def Let_def)
qed

text \<open>
  The frames the reading side takes: the writing side bounds every payload by \<open>MAX_FRAME_BYTES\<close> only,
  the reading side bounds input and texts further. An offset is a \<open>u64\<close>, and a text is a \<open>String\<close>.
\<close>

fun client_frame_fits :: "client_pty_frame \<Rightarrow> bool" where
  "client_frame_fits (InputFrame bytes) = (length bytes \<le> MAX_INPUT_FRAME_BYTES)"
| "client_frame_fits (ResizeFrame sz) = True"
| "client_frame_fits CloseFrame = True"

fun server_frame_fits :: "server_pty_frame \<Rightarrow> bool" where
  "server_frame_fits (OutputFrame offset bytes) = (offset \<le> u64_max \<and> length bytes + 8 \<le> MAX_FRAME_BYTES)"
| "server_frame_fits (ExitFrame status) = (length status \<le> MAX_TEXT_BYTES \<and> valid_utf8 status)"
| "server_frame_fits (ErrorFrame message) = (length message \<le> MAX_TEXT_BYTES \<and> valid_utf8 message)"
| "server_frame_fits ReadyFrame = True"
| "server_frame_fits DetachedFrame = True"

lemmas frame_bounds = MAX_FRAME_BYTES_def MAX_TEXT_BYTES_def MAX_INPUT_FRAME_BYTES_def

lemma be_value_word: "word_of_nat (be_value (be_bytes 2 (unat w))) = (w :: 16 word)"
proof -
  have "unat w < 256 ^ 2" using unsigned_less [of w] by simp
  then show ?thesis by (simp add: be_value_be_bytes)
qed

lemma client_frame_round_trip:
  assumes "client_frame_fits f"
  shows "\<exists>bytes. write_client_frame f = Ok bytes \<and> (\<forall>rest. read_client_frame (bytes @ rest) = Ok (f, rest))"
proof (cases f)
  case (InputFrame payload)
  then obtain bytes where w: "write_frame 1 payload = Ok bytes" using assms by (auto simp: write_frame_def frame_bounds)
  with InputFrame assms read_frame_append [OF w] show ?thesis by (auto simp: write_client_frame_def read_client_frame_def)
next
  case (ResizeFrame sz)
  let ?p = "be_bytes 2 (unat (ps_rows sz)) @ be_bytes 2 (unat (ps_columns sz))"
  obtain bytes where w: "write_frame 2 ?p = Ok bytes" by (auto simp: write_frame_def frame_bounds)
  with ResizeFrame read_frame_append [OF w] show ?thesis
    by (auto simp: write_client_frame_def read_client_frame_def be_value_word)
next
  case CloseFrame
  obtain bytes where w: "write_frame 3 [] = Ok bytes" by (auto simp: write_frame_def)
  with CloseFrame read_frame_append [OF w] show ?thesis by (auto simp: write_client_frame_def read_client_frame_def)
qed

lemma write_server_frame_fits: "server_frame_fits f \<Longrightarrow> \<exists>bytes. write_server_frame f = Ok bytes"
  by (cases f) (auto simp: write_server_frame_def write_frame_def frame_bounds)

lemma server_frame_round_trip:
  assumes "server_frame_fits f"
  shows "\<exists>bytes. write_server_frame f = Ok bytes \<and> (\<forall>rest. read_server_frame (bytes @ rest) = Ok (f, rest))"
proof -
  obtain bytes where w: "write_server_frame f = Ok bytes" using write_server_frame_fits [OF assms] by blast
  have off: "be_value (be_bytes 8 k) = k" if "k \<le> u64_max" for k
    using that by (intro be_value_be_bytes) (simp add: u64_max_def)
  have "read_server_frame (bytes @ rest) = Ok (f, rest)" for rest
    using w assms
    by (cases f) (auto simp: write_server_frame_def read_server_frame_def read_frame_append status_text_def off)
  with w show ?thesis by blast
qed

lemma map_sum_eq_Ok: "map_sum f g r = Ok y \<longleftrightarrow> (\<exists>x. r = Ok x \<and> y = g x)"
  by (cases r) auto

lemma be_bytes_be_value: "be_bytes (length s) (be_value s) = s"
proof (induction s rule: rev_induct)
  case (snoc c s)
  have v: "be_value (s @ [c]) = 256 * be_value s + of_char c" by (simp add: be_value_def)
  have d: "(256 * be_value s + of_char c) div 256 = be_value s" by simp
  have m: "char_of (256 * be_value s + of_char c :: nat) = c"
    using char_of_mod_256 [of "256 * be_value s + of_char c :: nat"] by simp
  show ?case using snoc by (simp add: v d m)
qed (simp add: be_value_def)

lemma read_frame_written:
  assumes "read_frame bytes = Ok (tag, payload, rest)"
  shows "\<exists>written. write_frame tag payload = Ok written \<and> bytes = written @ rest"
proof -
  let ?header = "take 5 bytes" and ?tail = "drop 5 bytes"
  let ?n = "be_value (drop 1 ?header)"
  have l: "length bytes \<ge> 5" "length ?tail \<ge> ?n" "?n \<le> MAX_FRAME_BYTES"
    and r: "tag = of_char (hd ?header)" "payload = take ?n ?tail" "rest = drop ?n ?tail"
    using assms by (auto simp: read_frame_def Let_def split: if_splits)
  have n: "length payload = ?n" using l r(2) by simp
  have "?header = hd ?header # drop 1 ?header" using l(1) by (cases bytes) auto
  moreover have "drop 1 ?header = be_bytes 4 (length payload)"
    using be_bytes_be_value [of "drop 1 ?header"] l(1) by (simp add: n)
  ultimately have "bytes = hd ?header # be_bytes 4 (length payload) @ payload @ rest"
    using append_take_drop_id [of 5 bytes] append_take_drop_id [of ?n ?tail] by (metis append.assoc append_Cons r(2,3))
  moreover have "char_of tag = hd ?header" by (simp add: r(1))
  ultimately show ?thesis using l(3) by (simp add: write_frame_def n)
qed

lemma read_client_frame_written:
  assumes "read_client_frame bytes = Ok (f, rest)"
  shows "client_frame_fits f \<and> (\<exists>written. write_client_frame f = Ok written \<and> bytes = written @ rest)"
proof -
  obtain tag payload where r: "read_frame bytes = Ok (tag, payload, rest)"
    using assms by (auto simp: read_client_frame_def split: sum.splits if_splits)
  have word: "be_bytes 2 (unat (word_of_nat (be_value s) :: 16 word)) = s" if "length s = 2" for s
    using be_bytes_be_value [of s] be_value_less [of s] that by (simp add: unsigned_of_nat take_bit_nat_eq_self)
  have "be_bytes 2 (unat (ps_rows sz)) @ be_bytes 2 (unat (ps_columns sz)) = payload" if "f = ResizeFrame sz" for sz
    using assms r that word [of "take 2 payload"] word [of "drop 2 payload"]
    by (auto simp: read_client_frame_def split: if_splits)
  with assms r read_frame_written [OF r] show ?thesis
    by (auto simp: read_client_frame_def write_client_frame_def split: if_splits)
qed

lemma read_server_frame_written:
  assumes "read_server_frame bytes = Ok (f, rest)"
  shows "server_frame_fits f \<and> (\<exists>written. write_server_frame f = Ok written \<and> bytes = written @ rest)"
proof -
  obtain tag payload where r: "read_frame bytes = Ok (tag, payload, rest)"
    using assms by (auto simp: read_server_frame_def map_sum_eq_Ok split: sum.splits if_splits)
  obtain written where w: "write_frame tag payload = Ok written" "bytes = written @ rest"
    using read_frame_written [OF r] by blast
  have n: "length payload \<le> MAX_FRAME_BYTES" using w(1) by (simp add: write_frame_def split: if_splits)
  have off: "be_bytes 8 (be_value (take 8 payload)) = take 8 payload" "be_value (take 8 payload) \<le> u64_max" if "length payload \<ge> 8"
    using be_bytes_be_value [of "take 8 payload"] be_value_less [of "take 8 payload"] that by (simp_all add: u64_max_def)
  show ?thesis
    using assms r w n off
    by (auto simp: read_server_frame_def write_server_frame_def status_text_def split: if_splits)
qed

text \<open>One frame after the other, in either direction.\<close>

definition write_frames :: "('f \<Rightarrow> (frame_error, string) result) \<Rightarrow> 'f list \<Rightarrow> (frame_error, string) result" where
  "write_frames wr fs = map_sum id concat (try_map wr fs)"

fun read_frames :: "(string \<Rightarrow> (frame_error, 'f \<times> string) result) \<Rightarrow> nat \<Rightarrow> string \<Rightarrow> (frame_error, 'f list \<times> string) result" where
  "read_frames rd 0 bytes = Ok ([], bytes)"
| "read_frames rd (Suc n) bytes =
     (case rd bytes of
        Inl e \<Rightarrow> Err e
      | Inr (f, rest) \<Rightarrow> map_sum id (map_prod (Cons f) id) (read_frames rd n rest))"

locale frame_codec =
  fixes wr :: "'f \<Rightarrow> (frame_error, string) result" and rd :: "string \<Rightarrow> (frame_error, 'f \<times> string) result" and fits :: "'f \<Rightarrow> bool"
  assumes read_written: "fits f \<Longrightarrow> \<exists>bytes. wr f = Ok bytes \<and> (\<forall>rest. rd (bytes @ rest) = Ok (f, rest))"
    and written_read: "rd bytes = Ok (f, rest) \<Longrightarrow> fits f \<and> (\<exists>written. wr f = Ok written \<and> bytes = written @ rest)"
begin

lemma read_frames_written: "list_all fits fs \<Longrightarrow> \<exists>bytes. write_frames wr fs = Ok bytes \<and> (\<forall>rest. read_frames rd (length fs) (bytes @ rest) = Ok (fs, rest))"
proof (induction fs)
  case Nil
  then show ?case by (simp add: write_frames_def)
next
  case (Cons f fs)
  obtain b where b: "wr f = Ok b" "\<And>rest. rd (b @ rest) = Ok (f, rest)" using read_written [of f] Cons.prems by auto
  obtain bs where bs: "write_frames wr fs = Ok bs" "\<And>rest. read_frames rd (length fs) (bs @ rest) = Ok (fs, rest)"
    using Cons by auto
  from bs(1) obtain parts where "try_map wr fs = Ok parts" "bs = concat parts"
    by (cases "try_map wr fs") (auto simp: write_frames_def)
  then have "write_frames wr (f # fs) = Ok (b @ bs)" using b by (simp add: write_frames_def)
  moreover have "read_frames rd (length (f # fs)) ((b @ bs) @ rest) = Ok (f # fs, rest)" for rest using b(2) bs(2) by simp
  ultimately show ?case by blast
qed

lemma frames_of_bytes: "read_frames rd n bytes = Ok (fs, rest) \<Longrightarrow> length fs = n \<and> list_all fits fs \<and> (\<exists>written. write_frames wr fs = Ok written \<and> bytes = written @ rest)"
proof (induction n arbitrary: bytes fs)
  case 0
  then show ?case by (simp add: write_frames_def)
next
  case (Suc n)
  obtain f mid fs' where f: "rd bytes = Ok (f, mid)" "read_frames rd n mid = Ok (fs', rest)" "fs = f # fs'"
    using Suc.prems by (auto split: sum.splits simp: map_sum_eq_Ok)
  obtain b where b: "wr f = Ok b" "bytes = b @ mid" "fits f" using written_read [OF f(1)] by blast
  obtain bs where bs: "write_frames wr fs' = Ok bs" "mid = bs @ rest" "list_all fits fs'" "length fs' = n" using Suc.IH [OF f(2)] by blast
  from bs(1) obtain parts where "try_map wr fs' = Ok parts" "bs = concat parts"
    by (cases "try_map wr fs'") (auto simp: write_frames_def)
  then show ?case using b bs f(3) by (simp add: write_frames_def)
qed

end

interpretation client_frames: frame_codec write_client_frame read_client_frame client_frame_fits
  by unfold_locales (rule client_frame_round_trip read_client_frame_written, assumption)+

interpretation server_frames: frame_codec write_server_frame read_server_frame server_frame_fits
  by unfold_locales (rule server_frame_round_trip read_server_frame_written, assumption)+

text \<open>
  Terminal frames are a code. In both directions, frames within the reader's bounds can be
  written, and the other end reads back exactly these frames and leaves what follows them on the
  stream; conversely, whatever bytes arrive, frames that are read are within the bounds and are the
  only frames these bytes stand for.
\<close>

theorem terminal_frames_round_trip:
  "(list_all client_frame_fits cs \<longrightarrow>
      (\<exists>bytes. write_frames write_client_frame cs = Ok bytes \<and> (\<forall>rest. read_frames read_client_frame (length cs) (bytes @ rest) = Ok (cs, rest)))) \<and>
   (list_all server_frame_fits ss \<longrightarrow>
      (\<exists>bytes. write_frames write_server_frame ss = Ok bytes \<and> (\<forall>rest. read_frames read_server_frame (length ss) (bytes @ rest) = Ok (ss, rest)))) \<and>
   (read_frames read_client_frame n bytes = Ok (cs, rest) \<longrightarrow>
      list_all client_frame_fits cs \<and> (\<exists>written. write_frames write_client_frame cs = Ok written \<and> bytes = written @ rest)) \<and>
   (read_frames read_server_frame n bytes = Ok (ss, rest) \<longrightarrow>
      list_all server_frame_fits ss \<and> (\<exists>written. write_frames write_server_frame ss = Ok written \<and> bytes = written @ rest))"
  by (intro conjI impI client_frames.read_frames_written server_frames.read_frames_written)
    (simp_all only: client_frames.frames_of_bytes server_frames.frames_of_bytes)

theorem terminal_frames_round_trip_witness:
  "(\<exists>bytes. write_frames write_client_frame [InputFrame ''ls'', ResizeFrame \<lparr>ps_rows = 42, ps_columns = 120\<rparr>, CloseFrame] = Ok bytes \<and>
     read_frames read_client_frame 3 bytes = Ok ([InputFrame ''ls'', ResizeFrame \<lparr>ps_rows = 42, ps_columns = 120\<rparr>, CloseFrame], [])) \<and>
   (\<exists>bytes. write_frames write_server_frame [ReadyFrame, OutputFrame 17 ''a'', ExitFrame ''exit 0''] = Ok bytes \<and>
     read_frames read_server_frame 3 bytes = Ok ([ReadyFrame, OutputFrame 17 ''a'', ExitFrame ''exit 0''], []))"
proof -
  let ?cs = "[InputFrame ''ls'', ResizeFrame \<lparr>ps_rows = 42, ps_columns = 120\<rparr>, CloseFrame]"
  let ?ss = "[ReadyFrame, OutputFrame 17 ''a'', ExitFrame ''exit 0'']"
  have fits: "list_all client_frame_fits ?cs" "list_all server_frame_fits ?ss" "length ?cs = 3" "length ?ss = 3"
    by (simp_all add: frame_bounds u64_max_def)
  have "\<exists>b. write_frames write_client_frame ?cs = Ok b \<and> (\<forall>rest. read_frames read_client_frame 3 (b @ rest) = Ok (?cs, rest))"
    "\<exists>b. write_frames write_server_frame ?ss = Ok b \<and> (\<forall>rest. read_frames read_server_frame 3 (b @ rest) = Ok (?ss, rest))"
    using terminal_frames_round_trip [of ?cs ?ss] fits by (simp_all only: simp_thms)
  then show ?thesis by (metis append_Nil2)
qed

end
