(* ===== verification/Terminal_Stream.thy ===== *)
theory Terminal_Stream
  imports Pty_Frames Daemon_Submit
begin

text \<open>
  One terminal job of the daemon (\<^verbatim>\<open>crates/xshell-session/src/pty.rs\<close>): the queue of input for the
  process, the replay buffer of its output, the audit records of both byte streams, and the worker
  thread that moves the bytes. A definition is what happens under one hold of the job's lock, so
  every interleaving with the clients is a sequence of these definitions. The process and the base64
  encoder are parameters. Byte counts are natural numbers where the source adds without a check: a
  counter would have to pass \<open>2 ^ 64\<close> bytes.
\<close>

section \<open>Data\<close>

definition MAX_ACTIVE_PTYS :: nat where "MAX_ACTIVE_PTYS = 64"
definition MAX_COMMAND_BYTES :: nat where "MAX_COMMAND_BYTES = 64 * 1024"
definition MAX_INPUT_BYTES :: nat where "MAX_INPUT_BYTES = 64 * 1024"
definition WORKER_INPUT_BYTES :: nat where "WORKER_INPUT_BYTES = 16 * 1024"
definition MAX_OUTPUT_BYTES :: nat where "MAX_OUTPUT_BYTES = 256 * 1024"
definition MAX_STREAM_OUTPUT_BYTES :: nat where "MAX_STREAM_OUTPUT_BYTES = MAX_OUTPUT_BYTES - 8"
definition REPLAY_BYTES :: nat where "REPLAY_BYTES = 1024 * 1024"
definition MAX_READ_WAIT :: nat where "MAX_READ_WAIT = 250"
definition MAX_DIMENSION :: "16 word" where "MAX_DIMENSION = 1000"
definition MAX_TERMINAL_TYPE_BYTES :: nat where "MAX_TERMINAL_TYPE_BYTES = 128"
definition STREAM_RECORD_BYTES :: nat where "STREAM_RECORD_BYTES = 64 * 1024"

record stream_capture =
  cp_budget :: "nat option"
  cp_recorded :: nat
  cp_dropped :: nat
  cp_input_offset :: nat
  cp_output_offset :: nat
  cp_failed :: bool

definition capture_new :: "nat option \<Rightarrow> stream_capture" where
  "capture_new max_bytes =
     \<lparr>cp_budget = max_bytes, cp_recorded = 0, cp_dropped = 0, cp_input_offset = 0, cp_output_offset = 0, cp_failed = False\<rparr>"

text \<open>\<open>mp_audit\<close> names the session whose audit connection the job's handle refers to.\<close>

record managed_pty =
  mp_session_id :: string
  mp_command :: string
  mp_cwd :: string
  mp_operation_id :: string
  mp_audit :: "string option"
  mp_capture :: "stream_capture option"
  mp_tickets :: "(string \<times> nat) list"
  mp_claimed :: "string option"
  mp_input :: string
  mp_size :: pty_size
  mp_output :: string
  mp_replay_start :: nat
  mp_replay_end :: nat
  mp_exit_status :: "string option"
  mp_shutdown :: bool
  mp_redraw_requested :: bool
  mp_worker_finished :: bool

record pty_read_result =
  pr_offset :: nat
  pr_output :: string
  pr_status :: "string option"

text \<open>What one exchange with the process gave.\<close>

record pty_chunk =
  ch_input_accepted :: nat
  ch_output :: string
  ch_status :: "string option"

section \<open>Input and output\<close>

definition write_input :: "string \<Rightarrow> managed_pty \<Rightarrow> (managed_pty, string, unit) outcome" where
  "write_input bytes j =
     (if mp_shutdown j \<or> mp_exit_status j \<noteq> None then (Err ''terminal job has exited'', j)
      else if length (mp_input j) + length bytes > MAX_INPUT_BYTES
      then (Err ''terminal job input queue exceeds 65536 bytes'', j)
      else (Ok (), j\<lparr>mp_input := mp_input j @ bytes\<rparr>))"

text \<open>The loop of \<open>append_output\<close> on the buffer and the offset of its first byte.\<close>

function trim_replay :: "string \<Rightarrow> nat \<Rightarrow> string \<times> nat" where
  "trim_replay out start =
     (if length out > REPLAY_BYTES then trim_replay (tl out) (saturating_add start 1) else (out, start))"
  by pat_completeness auto
termination
  by (relation "measure (\<lambda>(out, _). length out)") auto

declare trim_replay.simps [simp del]

definition append_output :: "string \<Rightarrow> managed_pty \<Rightarrow> managed_pty" where
  "append_output bytes j =
     (case trim_replay (mp_output j @ bytes) (mp_replay_start j) of
        (out, start) \<Rightarrow>
          j\<lparr>mp_replay_end := saturating_add (mp_replay_end j) (length bytes), mp_output := out, mp_replay_start := start\<rparr>)"

definition clamp_cursor :: "managed_pty \<Rightarrow> nat \<Rightarrow> nat" where
  "clamp_cursor j cursor = min (max cursor (mp_replay_start j)) (mp_replay_end j)"

text \<open>The part of \<open>read_claimed\<close> after the wait.\<close>

definition read_now :: "nat \<Rightarrow> managed_pty \<Rightarrow> pty_read_result" where
  "read_now cursor j =
     (let cursor = clamp_cursor j cursor;
          output = take MAX_STREAM_OUTPUT_BYTES (drop (cursor - mp_replay_start j) (mp_output j))
      in \<lparr>pr_offset = cursor, pr_output = output,
          pr_status = (if saturating_add cursor (length output) \<ge> mp_replay_end j then mp_exit_status j else None)\<rparr>)"

text \<open>\<open>during\<close> is what the worker and others do while the reader waits for a change.\<close>

definition read_output :: "(managed_pty \<Rightarrow> managed_pty) \<Rightarrow> nat \<Rightarrow> managed_pty \<Rightarrow> pty_read_result \<times> managed_pty" where
  "read_output during cursor j =
     (let cursor = clamp_cursor j cursor;
          j = (if cursor = mp_replay_end j \<and> mp_exit_status j = None \<and> \<not> mp_shutdown j then during j else j)
      in (read_now cursor j, j))"

section \<open>Audit records of the byte streams\<close>

definition capture_offset :: "string \<Rightarrow> stream_capture \<Rightarrow> nat" where
  "capture_offset direction c = (if direction = ''input'' then cp_input_offset c else cp_output_offset c)"

definition capture_take :: "string \<Rightarrow> string \<Rightarrow> stream_capture \<Rightarrow> (nat \<times> nat) \<times> stream_capture" where
  "capture_take direction bytes c =
     (let start = capture_offset direction c;
          c = (if direction = ''input'' then c\<lparr>cp_input_offset := cp_input_offset c + length bytes\<rparr>
               else c\<lparr>cp_output_offset := cp_output_offset c + length bytes\<rparr>);
          allowed = (case cp_budget c of
                       None \<Rightarrow> length bytes
                     | Some budget \<Rightarrow> min (length bytes) (budget - cp_recorded c))
      in ((start, allowed),
          c\<lparr>cp_recorded := cp_recorded c + allowed, cp_dropped := cp_dropped c + (length bytes - allowed)\<rparr>))"

function chunks :: "nat \<Rightarrow> 'a list \<Rightarrow> 'a list list" where
  "chunks n xs = (if xs = [] \<or> n = 0 then [] else take n xs # chunks n (drop n xs))"
  by pat_completeness auto
termination
  by (relation "measure (\<lambda>(n, xs). length xs)") auto

declare chunks.simps [simp del]

text \<open>The loop over the chunks; the flag says whether an append failed.\<close>

fun record_chunks ::
  "'p audit_link \<Rightarrow> (string \<Rightarrow> string) \<Rightarrow> string \<Rightarrow> string \<Rightarrow> string \<Rightarrow> nat \<Rightarrow> string list \<Rightarrow> 'p daemon_audit \<Rightarrow> bool \<times> 'p daemon_audit" where
  "record_chunks al base64 handle command direction offset [] da = (False, da)"
| "record_chunks al base64 handle command direction offset (chunk # rest) da =
     (case da_append al handle (EvTerminalStream command direction offset (base64 chunk) 0) da of
        (Inl e, da) \<Rightarrow> (True, da)
      | (Inr _, da) \<Rightarrow> record_chunks al base64 handle command direction (offset + length chunk) rest da)"

definition record_stream ::
  "'p audit_link \<Rightarrow> (string \<Rightarrow> string) \<Rightarrow> string \<Rightarrow> string \<Rightarrow> managed_pty \<times> 'p daemon_audit \<Rightarrow> managed_pty \<times> 'p daemon_audit" where
  "record_stream al base64 direction bytes s =
     (case s of (j, da) \<Rightarrow>
        if bytes = [] then (j, da)
        else case (mp_audit j, mp_capture j) of
               (Some handle, Some c) \<Rightarrow>
                 if cp_failed c then (j, da)
                 else (case capture_take direction bytes c of
                         ((start, allowed), c) \<Rightarrow>
                           (case record_chunks al base64 handle (mp_command j) direction start
                                   (chunks STREAM_RECORD_BYTES (take allowed bytes)) da of
                              (failed, da) \<Rightarrow> (j\<lparr>mp_capture := Some (c\<lparr>cp_failed := failed\<rparr>)\<rparr>, da)))
             | _ \<Rightarrow> (j, da))"

definition record_stream_summary :: "'p audit_link \<Rightarrow> managed_pty \<Rightarrow> 'p daemon_audit \<Rightarrow> 'p daemon_audit" where
  "record_stream_summary al j da =
     (case (mp_audit j, mp_capture j) of
        (Some handle, Some c) \<Rightarrow>
          if cp_dropped c = 0 \<or> cp_failed c then da
          else snd (da_append al handle (EvTerminalStream (mp_command j) ''summary'' 0 [] (cp_dropped c)) da)
      | _ \<Rightarrow> da)"

section \<open>The worker\<close>

text \<open>What the worker takes for one exchange: input, shutdown, redraw.\<close>

definition worker_take :: "managed_pty \<Rightarrow> (string \<times> bool \<times> bool) \<times> managed_pty" where
  "worker_take j =
     ((take WORKER_INPUT_BYTES (mp_input j), mp_shutdown j, mp_redraw_requested j), j\<lparr>mp_redraw_requested := False\<rparr>)"

text \<open>\<open>finish\<close> up to the first release of the lock, and its rest.\<close>

definition finish_begin :: "string \<Rightarrow> managed_pty \<Rightarrow> bool \<times> managed_pty" where
  "finish_begin status j =
     (mp_exit_status j = None,
      j\<lparr>mp_exit_status := Some (case mp_exit_status j of None \<Rightarrow> status | Some s \<Rightarrow> s)\<rparr>)"

definition finish_end ::
  "session_lib \<Rightarrow> session_env \<Rightarrow> 'p audit_link \<Rightarrow> string \<Rightarrow> managed_pty \<Rightarrow> session_host \<times> 'p daemon_audit \<Rightarrow>
   managed_pty \<times> session_host \<times> 'p daemon_audit" where
  "finish_end lib env al status j s =
     (case s of (h, da) \<Rightarrow>
        let da = record_stream_summary al j da;
            da = (case mp_audit j of
                    None \<Rightarrow> da
                  | Some handle \<Rightarrow> snd (da_append al handle (EvShellFinished (mp_command j) status (mp_cwd j)) da));
            h = snd (finish_execution lib env (mp_session_id j) (mp_operation_id j) h)
        in (j\<lparr>mp_worker_finished := True\<rparr>, h, da))"

definition finish ::
  "session_lib \<Rightarrow> session_env \<Rightarrow> 'p audit_link \<Rightarrow> string \<Rightarrow> managed_pty \<Rightarrow> session_host \<times> 'p daemon_audit \<Rightarrow>
   managed_pty \<times> session_host \<times> 'p daemon_audit" where
  "finish lib env al status j s =
     (case finish_begin status j of
        (False, j) \<Rightarrow> (j, s)
      | (True, j) \<Rightarrow> finish_end lib env al status j s)"

text \<open>The bookkeeping after an exchange that took \<open>input\<close> with it.\<close>

definition worker_exchanged :: "string \<Rightarrow> pty_chunk \<Rightarrow> managed_pty \<Rightarrow> managed_pty" where
  "worker_exchanged input chunk j =
     (let accepted = min (ch_input_accepted chunk) (length input) in
      append_output (ch_output chunk) (j\<lparr>mp_input := drop (min accepted (length (mp_input j))) (mp_input j)\<rparr>))"

definition worker_result ::
  "session_lib \<Rightarrow> session_env \<Rightarrow> 'p audit_link \<Rightarrow> (string \<Rightarrow> string) \<Rightarrow> string \<Rightarrow> (string, pty_chunk) result \<Rightarrow>
   managed_pty \<Rightarrow> session_host \<times> 'p daemon_audit \<Rightarrow> managed_pty \<times> session_host \<times> 'p daemon_audit" where
  "worker_result lib env al base64 input r j s =
     (case r of
        Inl e \<Rightarrow> finish lib env al (''PTY error: '' @ e) j s
      | Inr chunk \<Rightarrow>
          (case s of (h, da) \<Rightarrow>
             let accepted = min (ch_input_accepted chunk) (length input);
                 (j, da) = record_stream al base64 ''input'' (take accepted input) (j, da);
                 (j, da) = record_stream al base64 ''output'' (ch_output chunk) (j, da);
                 j = worker_exchanged input chunk j
             in case ch_status chunk of
                  None \<Rightarrow> (j, h, da)
                | Some status \<Rightarrow> finish lib env al status j (h, da)))"

text \<open>The job \<open>start_inner\<close> puts into the map.\<close>

definition managed_new ::
  "string \<Rightarrow> string \<Rightarrow> string \<Rightarrow> string \<Rightarrow> string option \<Rightarrow> nat option option \<Rightarrow> string \<Rightarrow> pty_size \<Rightarrow> managed_pty" where
  "managed_new sid command cwd pty_id handle stream ticket sz =
     \<lparr>mp_session_id = sid, mp_command = command, mp_cwd = cwd, mp_operation_id = pty_id, mp_audit = handle,
      mp_capture = (case (handle, stream) of (Some _, Some max_bytes) \<Rightarrow> Some (capture_new max_bytes) | _ \<Rightarrow> None),
      mp_tickets = [(ticket, 0)], mp_claimed = None, mp_input = [], mp_size = sz, mp_output = [],
      mp_replay_start = 0, mp_replay_end = 0, mp_exit_status = None, mp_shutdown = False, mp_redraw_requested = False,
      mp_worker_finished = False\<rparr>"

section \<open>The two streams of a job\<close>

text \<open>
  A job in the hands of its clients and its worker, in any order. The first three arguments are what
  clients have written, what the process has taken and what it has produced so far; the fourth is the
  input of an exchange under way.
\<close>

definition same_streams :: "managed_pty \<Rightarrow> managed_pty \<Rightarrow> bool" where
  "same_streams j j' \<longleftrightarrow> mp_input j' = mp_input j \<and> mp_output j' = mp_output j \<and>
     mp_replay_start j' = mp_replay_start j \<and> mp_replay_end j' = mp_replay_end j"

inductive job_run :: "string \<Rightarrow> string \<Rightarrow> string \<Rightarrow> string option \<Rightarrow> managed_pty \<Rightarrow> bool" where
  started: "job_run [] [] [] None (managed_new sid command cwd pty_id handle stream ticket sz)"
| written: "job_run w d p t j \<Longrightarrow> write_input bytes j = (Ok (), j') \<Longrightarrow> job_run (w @ bytes) d p t j'"
| taken: "job_run w d p None j \<Longrightarrow> worker_take j = ((input, False, redraw), j') \<Longrightarrow> job_run w d p (Some input) j'"
| exchanged: "job_run w d p (Some input) j \<Longrightarrow>
    job_run w (d @ take (ch_input_accepted chunk) input) (p @ ch_output chunk) None (worker_exchanged input chunk j)"
| otherwise: "job_run w d p t j \<Longrightarrow> same_streams j j' \<Longrightarrow> job_run w d p t j'"

lemma trim_replay_eq:
  "start + (length out - REPLAY_BYTES) \<le> u64_max \<Longrightarrow>
   trim_replay out start = (drop (length out - REPLAY_BYTES) out, start + (length out - REPLAY_BYTES))"
proof (induction out start rule: trim_replay.induct)
  case (1 out start)
  show ?case
  proof (cases "length out > REPLAY_BYTES")
    case True
    then have s: "saturating_add start (Suc 0) = Suc start" using "1.prems" by (simp add: saturating_add_def)
    have "trim_replay (tl out) (Suc start) = (drop (length (tl out) - REPLAY_BYTES) (tl out), Suc start + (length (tl out) - REPLAY_BYTES))"
      using "1.IH" [OF True] "1.prems" True by (simp add: s)
    with True show ?thesis
      by (simp add: trim_replay.simps [of out] s drop_Suc [symmetric] Suc_diff_Suc [symmetric] del: drop_Suc)
  qed (simp add: trim_replay.simps [of out])
qed

definition streams_ok :: "string \<Rightarrow> string \<Rightarrow> string \<Rightarrow> string option \<Rightarrow> managed_pty \<Rightarrow> bool" where
  "streams_ok w d p t j \<longleftrightarrow>
     w = d @ mp_input j \<and> length (mp_input j) \<le> MAX_INPUT_BYTES \<and>
     (\<forall>input. t = Some input \<longrightarrow> prefix input (mp_input j)) \<and>
     mp_output j = drop (length p - REPLAY_BYTES) p \<and> mp_replay_end j = length p \<and> mp_replay_start j = length p - REPLAY_BYTES"

lemma drop_window: "drop (length (drop (length p - n) p @ b) - n) (drop (length p - n) p @ b) = drop (length (p @ b) - n) (p @ b)"
  by (cases "length p \<le> n") (simp_all add: add.commute)

lemma append_output_ok:
  assumes "streams_ok w d p t j" "length (p @ bytes) \<le> u64_max"
  shows "streams_ok w d (p @ bytes) t (append_output bytes j)"
proof -
  have o: "mp_output j = drop (length p - REPLAY_BYTES) p" "mp_replay_start j = length p - REPLAY_BYTES" "mp_replay_end j = length p"
    using assms(1) by (simp_all add: streams_ok_def)
  have "trim_replay (mp_output j @ bytes) (mp_replay_start j) =
      (drop (length (p @ bytes) - REPLAY_BYTES) (p @ bytes), length (p @ bytes) - REPLAY_BYTES)"
    using assms(2) drop_window [of p REPLAY_BYTES bytes] by (subst trim_replay_eq) (auto simp: o)
  then show ?thesis using assms by (simp add: append_output_def streams_ok_def o saturating_add_def)
qed

lemma job_run_ok: "job_run w d p t j \<Longrightarrow> length p \<le> u64_max \<Longrightarrow> streams_ok w d p t j"
proof (induction rule: job_run.induct)
  case (written w d p t j bytes j')
  then show ?case by (auto simp: write_input_def streams_ok_def prefix_def split: if_splits)
next
  case (exchanged w d p input j chunk)
  let ?n = "min (ch_input_accepted chunk) (length input)"
  let ?j = "j\<lparr>mp_input := drop (min ?n (length (mp_input j))) (mp_input j)\<rparr>"
  have ok: "streams_ok w d p (Some input) j" using exchanged by simp
  then obtain more where more: "mp_input j = input @ more" by (auto simp: streams_ok_def prefix_def)
  have "streams_ok w (d @ take (ch_input_accepted chunk) input) p None ?j"
    using ok by (auto simp: streams_ok_def more min_def)
  then show ?case using exchanged.prems append_output_ok by (simp add: worker_exchanged_def Let_def)
next
  case (taken w d p j input redraw j')
  then show ?case by (auto simp: worker_take_def streams_ok_def take_is_prefix)
qed (auto simp: managed_new_def streams_ok_def same_streams_def)

lemma read_now_stream:
  assumes "streams_ok w d p t j"
  shows "pr_offset (read_now c j) = min (max c (length p - REPLAY_BYTES)) (length p)"
    and "pr_output (read_now c j) = take MAX_STREAM_OUTPUT_BYTES (drop (pr_offset (read_now c j)) p)"
  using assms by (auto simp: read_now_def clamp_cursor_def streams_ok_def Let_def min_def max_def)

lemma read_now_status:
  assumes "streams_ok w d p t j" "pr_status (read_now c j) = Some status"
  shows "drop (pr_offset (read_now c j)) p = pr_output (read_now c j)" "mp_exit_status j = Some status"
proof -
  let ?r = "read_now c j"
  have o: "pr_offset ?r \<le> length p" "pr_output ?r = take MAX_STREAM_OUTPUT_BYTES (drop (pr_offset ?r) p)"
    using read_now_stream [OF assms(1)] by simp_all
  have "saturating_add (pr_offset ?r) (length (pr_output ?r)) \<ge> length p" and status: "mp_exit_status j = Some status"
    using assms by (auto simp: read_now_def Let_def streams_ok_def split: if_splits)
  then have "length (drop (pr_offset ?r) p) \<le> MAX_STREAM_OUTPUT_BYTES" using o by (auto simp: saturating_add_def)
  then show "drop (pr_offset ?r) p = pr_output ?r" using o(2) by simp
  show "mp_exit_status j = Some status" by (rule status)
qed

text \<open>
  C26. A terminal job loses, repeats and reorders nothing. However clients and the worker take turns,
  the process has taken exactly a prefix of what clients have written and the rest is queued within
  its bound; the replay buffer is the last mebibyte of what the process has produced, and a read
  returns exactly the bytes at its offset, in a frame the stream can carry. An exit status is given
  only together with the last byte.
\<close>

theorem terminal_streams_are_faithful:
  assumes "job_run w d p t j" "length p \<le> u64_max"
  shows "w = d @ mp_input j \<and> length (mp_input j) \<le> MAX_INPUT_BYTES \<and>
    mp_output j = drop (length p - REPLAY_BYTES) p \<and>
    (\<forall>c. let r = read_now c j in
       pr_offset r = min (max c (length p - REPLAY_BYTES)) (length p) \<and>
       pr_output r = take MAX_STREAM_OUTPUT_BYTES (drop (pr_offset r) p) \<and>
       server_frame_fits (OutputFrame (pr_offset r) (pr_output r)) \<and>
       (pr_status r \<noteq> None \<longrightarrow> pr_output r = drop (pr_offset r) p))"
proof -
  have ok: "streams_ok w d p t j" by (rule job_run_ok [OF assms])
  have "server_frame_fits (OutputFrame (pr_offset r) (pr_output r))" if "r = read_now c j" for r c
  proof -
    have "pr_offset r \<le> u64_max" using read_now_stream(1) [OF ok, of c] assms(2) that by simp
    moreover have "length (pr_output r) \<le> MAX_STREAM_OUTPUT_BYTES" using read_now_stream(2) [OF ok, of c] that by simp
    ultimately show ?thesis by (simp add: MAX_STREAM_OUTPUT_BYTES_def MAX_OUTPUT_BYTES_def MAX_FRAME_BYTES_def)
  qed
  moreover have "pr_output (read_now c j) = drop (pr_offset (read_now c j)) p" if "pr_status (read_now c j) \<noteq> None" for c
    using read_now_status(1) [OF ok] that by fastforce
  ultimately show ?thesis
    using ok read_now_stream [OF ok] unfolding Let_def by (simp add: streams_ok_def)
qed

definition demo_size :: pty_size where
  "demo_size = \<lparr>ps_rows = 24, ps_columns = 80\<rparr>"

definition demo_job :: managed_pty where
  "demo_job = managed_new ''i'' ''cat'' ''/w'' ''j'' None None ''t'' demo_size"

lemma demo_job_run:
  "job_run ''ab'' ''a'' ''A'' None (worker_exchanged ''ab'' \<lparr>ch_input_accepted = 1, ch_output = ''A'', ch_status = None\<rparr> (demo_job\<lparr>mp_input := ''ab''\<rparr>))"
proof -
  have 0: "job_run [] [] [] None demo_job" unfolding demo_job_def by (rule job_run.started)
  have "write_input ''ab'' demo_job = (Ok (), demo_job\<lparr>mp_input := ''ab''\<rparr>)"
    by (simp add: write_input_def demo_job_def managed_new_def MAX_INPUT_BYTES_def)
  from job_run.written [OF 0 this] have 1: "job_run ''ab'' [] [] None (demo_job\<lparr>mp_input := ''ab''\<rparr>)" by simp
  have "worker_take (demo_job\<lparr>mp_input := ''ab''\<rparr>) = ((''ab'', False, False), demo_job\<lparr>mp_input := ''ab''\<rparr>)"
    by (simp add: worker_take_def demo_job_def managed_new_def WORKER_INPUT_BYTES_def)
  from job_run.exchanged [OF job_run.taken [OF 1 this], of "\<lparr>ch_input_accepted = 1, ch_output = ''A'', ch_status = None\<rparr>"]
  show ?thesis by simp
qed

theorem terminal_streams_are_faithful_witness:
  "mp_input (worker_exchanged ''ab'' \<lparr>ch_input_accepted = 1, ch_output = ''A'', ch_status = None\<rparr> (demo_job\<lparr>mp_input := ''ab''\<rparr>)) = ''b''"
  using terminal_streams_are_faithful [OF demo_job_run] by (simp add: u64_max_def)

section \<open>Following the output\<close>

text \<open>
  A client that renders the output frames of its reads, over any number of attachments: an attachment
  starts where the client's cursor was, as far as the buffer still reaches back to it (\<open>attach\<close>), and
  every read goes on where the last one ended. \<open>s\<close> is what the client has rendered.
\<close>

inductive followed :: "string \<Rightarrow> managed_pty \<Rightarrow> string \<Rightarrow> pty_stream_client \<Rightarrow> bool" where
  begins: "job_run w d p t j \<Longrightarrow> followed p j [] \<lparr>pc_cursor = 0\<rparr>"
| moves: "followed p j s pc \<Longrightarrow> job_run w d (p @ newer) t j' \<Longrightarrow> followed (p @ newer) j' s pc"
| attaches: "followed p j s pc \<Longrightarrow> mp_replay_start j \<le> pc_cursor pc \<Longrightarrow> followed p j s \<lparr>pc_cursor = clamp_cursor j (pc_cursor pc)\<rparr>"
| reads: "followed p j s pc \<Longrightarrow> mp_replay_start j \<le> pc_cursor pc \<Longrightarrow> r = read_now (pc_cursor pc) j \<Longrightarrow>
    relay_frame (OutputFrame (pr_offset r) (pr_output r)) pc = (Ok (RelayOutput bytes), pc') \<Longrightarrow> followed p j (s @ bytes) pc'"

lemma followed_job: "followed p j s pc \<Longrightarrow> \<exists>w d t. job_run w d p t j"
  by (induction rule: followed.induct) blast+

lemma take_append_read: "c \<le> length p \<Longrightarrow> take c p @ take n (drop c p) = take (c + length (take n (drop c p))) p"
  by (simp add: take_add [symmetric] min_def)

text \<open>
  Whoever follows a terminal's output misses and repeats nothing. A client that goes on from its
  cursor, also after detaching and attaching again, and that is never further behind than the replay
  buffer reaches, has rendered exactly the bytes up to its cursor.
\<close>

theorem follower_sees_whole_output:
  assumes "followed p j s pc" "length p \<le> u64_max"
  shows "s = take (pc_cursor pc) p \<and> pc_cursor pc \<le> length p"
  using assms
proof (induction rule: followed.induct)
  case (attaches p j s pc)
  obtain w d t where "job_run w d p t j" using followed_job [OF attaches.hyps(1)] by blast
  then have "streams_ok w d p t j" using attaches.prems by (rule job_run_ok)
  then show ?case using attaches by (auto simp: clamp_cursor_def streams_ok_def)
next
  case (reads p j s pc r bytes pc')
  obtain w d t where "job_run w d p t j" using followed_job [OF reads.hyps(1)] by blast
  then have ok: "streams_ok w d p t j" using reads.prems by (rule job_run_ok)
  let ?c = "pc_cursor pc"
  have c: "s = take ?c p" "?c \<le> length p" using reads by simp_all
  have o: "pr_offset r = ?c" using read_now_stream(1) [OF ok, of ?c] reads.hyps(2,3) c(2) ok by (simp add: streams_ok_def)
  have out: "pr_output r = take MAX_STREAM_OUTPUT_BYTES (drop ?c p)" using read_now_stream(2) [OF ok, of ?c] o reads.hyps(3) by simp
  have "bytes = pr_output r" "pc_cursor pc' = saturating_add ?c (length (pr_output r))"
    using reads.hyps(4) by (auto simp: relay_frame_def o)
  moreover have "?c + length (pr_output r) \<le> length p" using c(2) by (simp add: out)
  ultimately show ?case using take_append_read [OF c(2)] reads.prems c(1) by (simp add: saturating_add_def out)
qed simp_all

theorem follower_sees_whole_output_witness:
  "\<exists>j. followed ''A'' j ''A'' \<lparr>pc_cursor = 1\<rparr> \<and> ''A'' = take 1 ''A''"
proof -
  let ?j = "worker_exchanged ''ab'' \<lparr>ch_input_accepted = 1, ch_output = ''A'', ch_status = None\<rparr> (demo_job\<lparr>mp_input := ''ab''\<rparr>)"
  have "followed ''A'' ?j [] \<lparr>pc_cursor = 0\<rparr>" by (rule followed.begins [OF demo_job_run])
  moreover have ok: "streams_ok ''ab'' ''a'' ''A'' None ?j" by (rule job_run_ok [OF demo_job_run]) (simp add: u64_max_def)
  have "relay_frame (OutputFrame (pr_offset (read_now 0 ?j)) (pr_output (read_now 0 ?j))) \<lparr>pc_cursor = 0\<rparr> =
      (Ok (RelayOutput ''A''), \<lparr>pc_cursor = 1\<rparr>)"
    using read_now_stream [OF ok, of 0]
    by (simp add: relay_frame_def saturating_add_def u64_max_def MAX_STREAM_OUTPUT_BYTES_def MAX_OUTPUT_BYTES_def REPLAY_BYTES_def)
  moreover have "mp_replay_start ?j = 0" using ok by (simp add: streams_ok_def REPLAY_BYTES_def)
  ultimately have f: "followed ''A'' ?j ''A'' \<lparr>pc_cursor = 1\<rparr>"
    using followed.reads [of "''A''" ?j "[]" "\<lparr>pc_cursor = 0\<rparr>" "read_now 0 ?j" "''A''" "\<lparr>pc_cursor = 1\<rparr>"] by simp
  then show ?thesis using follower_sees_whole_output [OF f] by (auto simp: u64_max_def)
qed

section \<open>What the audit trail holds of a job's bytes\<close>

fun stream_record :: "string \<Rightarrow> audit_event \<Rightarrow> (nat \<times> string) list" where
  "stream_record direction (EvTerminalStream command d offset data dropped) = (if d = direction then [(offset, data)] else [])"
| "stream_record direction _ = []"

definition stream_records :: "string \<Rightarrow> audit_event list \<Rightarrow> (nat \<times> string) list" where
  "stream_records direction es = concat (map (stream_record direction) es)"

definition da_acked :: "string \<Rightarrow> 'p daemon_audit \<Rightarrow> audit_event list" where
  "da_acked sid da = (case map_of (da_sessions da) sid of None \<Rightarrow> [] | Some sa \<Rightarrow> sa_acked sa)"

text \<open>Auditing is required, and the session's connection has not been closed.\<close>

definition recording :: "string \<Rightarrow> 'p daemon_audit \<Rightarrow> bool" where
  "recording sid da \<longleftrightarrow>
     (case (da_config da, map_of (da_sessions da) sid) of
        (Some cfg, Some sa) \<Rightarrow> ac_required cfg \<and> sa_state sa \<noteq> ClosedConnection
      | _ \<Rightarrow> False)"

lemma stream_records_append [simp]: "stream_records d (es @ fs) = stream_records d es @ stream_records d fs"
  by (simp add: stream_records_def)

lemma stream_records_simps [simp]: "stream_records d [] = []" "stream_records d (e # es) = stream_record d e @ stream_records d es"
  by (simp_all add: stream_records_def)

lemma ready_audit_streams: "stream_records d (sa_acked (ready_audit al cfg sa)) = stream_records d (sa_acked sa)"
  by (auto simp: ready_audit_def open_audit_def attach_event_def split: connection.splits prod.splits sum.splits)

lemma audit_append_streams:
  assumes "audit_append al cfg event sa = (Ok (), sa')" "ac_required cfg" "sa_state sa \<noteq> ClosedConnection"
  shows "stream_records d (sa_acked sa') = stream_records d (sa_acked sa) @ stream_record d event"
  using assms ready_audit_streams [of d al cfg sa] ready_audit_acked(2) [of al cfg sa]
  by (auto simp: audit_append_def Let_def split: if_splits connection.splits prod.splits sum.splits)

lemma da_append_streams:
  assumes "da_append al sid event da = (Ok (), da')" "recording sid da"
  shows "recording sid da' \<and> stream_records d (da_acked sid da') = stream_records d (da_acked sid da) @ stream_record d event"
proof -
  obtain cfg sa where c: "da_config da = Some cfg" "map_of (da_sessions da) sid = Some sa" "ac_required cfg" "sa_state sa \<noteq> ClosedConnection"
    using assms(2) by (auto simp: recording_def split: option.splits)
  obtain sa' where sa': "audit_append al cfg event sa = (Ok (), sa')" "da' = da\<lparr>da_sessions := AList.update sid sa' (da_sessions da)\<rparr>"
    using assms(1) c by (auto simp: da_append_def split: prod.splits)
  then show ?thesis
    using c audit_append_streams [OF sa'(1) c(3,4)] audit_append_acked(2) [OF sa'(1)]
    by (simp add: recording_def da_acked_def update_conv')
qed

text \<open>Consecutive pieces of a stream with the offsets of their first bytes.\<close>

fun pieces :: "nat \<Rightarrow> string list \<Rightarrow> (nat \<times> string) list" where
  "pieces offset [] = []"
| "pieces offset (c # cs) = (offset, c) # pieces (offset + length c) cs"

lemma pieces_append: "pieces k (cs @ ds) = pieces k cs @ pieces (k + length (concat cs)) ds"
  by (induction cs arbitrary: k) (simp_all add: add.assoc)

lemma concat_chunks: "n > 0 \<Longrightarrow> concat (chunks n xs) = xs"
  by (induction n xs rule: chunks.induct) (subst chunks.simps, auto)

lemma length_chunks: "c \<in> set (chunks n xs) \<Longrightarrow> length c \<le> n"
  by (induction n xs rule: chunks.induct) (subst (asm) (2) chunks.simps, auto split: if_splits)

lemma record_chunks_streams:
  assumes "record_chunks al base64 sid command direction offset cs da = (False, da')" "recording sid da"
  shows "recording sid da' \<and> stream_records d (da_acked sid da') =
    stream_records d (da_acked sid da) @ (if d = direction then map (apsnd base64) (pieces offset cs) else [])"
  using assms
proof (induction cs arbitrary: offset da)
  case (Cons c cs)
  let ?e = "EvTerminalStream command direction offset (base64 c) 0"
  obtain da1 where da1: "da_append al sid ?e da = (Ok (), da1)"
    "record_chunks al base64 sid command direction (offset + length c) cs da1 = (False, da')"
    using Cons.prems(1) by (auto split: prod.splits sum.splits)
  note first = da_append_streams [OF da1(1) Cons.prems(2), of d]
  show ?case using Cons.IH [OF da1(2)] first by auto
qed simp

text \<open>
  A job whose bytes are audited, from its first exchange on. \<open>t d\<close> is what has gone in direction \<open>d\<close>;
  what others do meanwhile leaves the session's stream records as they are.
\<close>

inductive capture_run ::
  "'p audit_link \<Rightarrow> (string \<Rightarrow> string) \<Rightarrow> string \<Rightarrow> nat option \<Rightarrow> 'p daemon_audit \<Rightarrow> (string \<Rightarrow> string) \<Rightarrow> managed_pty \<Rightarrow> 'p daemon_audit \<Rightarrow> bool"
  for al base64 sid budget da0 where
  begins: "mp_audit j = Some sid \<Longrightarrow> mp_capture j = Some (capture_new budget) \<Longrightarrow> recording sid da0 \<Longrightarrow>
    capture_run al base64 sid budget da0 (\<lambda>_. []) j da0"
| records: "capture_run al base64 sid budget da0 t j da \<Longrightarrow> d \<in> {''input'', ''output''} \<Longrightarrow>
    record_stream al base64 d bytes (j, da) = (j', da') \<Longrightarrow> capture_run al base64 sid budget da0 (t(d := t d @ bytes)) j' da'"
| others: "capture_run al base64 sid budget da0 t j da \<Longrightarrow> mp_audit j' = mp_audit j \<Longrightarrow> mp_capture j' = mp_capture j \<Longrightarrow>
    recording sid da' \<Longrightarrow> (\<And>d. stream_records d (da_acked sid da') = stream_records d (da_acked sid da)) \<Longrightarrow>
    capture_run al base64 sid budget da0 t j' da'"

definition recorded_as :: "(string \<Rightarrow> string) \<Rightarrow> string \<Rightarrow> 'p daemon_audit \<Rightarrow> string \<Rightarrow> string list \<Rightarrow> 'p daemon_audit \<Rightarrow> bool" where
  "recorded_as base64 sid da0 d cs da \<longleftrightarrow>
     stream_records d (da_acked sid da) = stream_records d (da_acked sid da0) @ map (apsnd base64) (pieces 0 cs) \<and>
     (\<forall>c \<in> set cs. length c \<le> STREAM_RECORD_BYTES)"

definition capture_ok ::
  "nat option \<Rightarrow> stream_capture \<Rightarrow> (string \<Rightarrow> string) \<Rightarrow> (string \<Rightarrow> string list) \<Rightarrow> bool" where
  "capture_ok budget c t cs \<longleftrightarrow>
     cp_budget c = budget \<and>
     (\<forall>d \<in> {''input'', ''output''}. capture_offset d c = length (t d) \<and> prefix (concat (cs d)) (t d)) \<and>
     cp_recorded c = length (concat (cs ''input'')) + length (concat (cs ''output'')) \<and>
     cp_recorded c + cp_dropped c = length (t ''input'') + length (t ''output'') \<and>
     (case budget of None \<Rightarrow> cp_dropped c = 0 | Some b \<Rightarrow> cp_recorded c \<le> b \<and> (cp_dropped c > 0 \<longrightarrow> cp_recorded c = b))"

lemma capture_ok_failed: "capture_ok budget (c\<lparr>cp_failed := f\<rparr>) t cs = capture_ok budget c t cs"
  by (cases budget) (simp_all add: capture_ok_def capture_offset_def)

lemma capture_ok_complete:
  assumes "capture_ok budget c t cs" "cp_dropped c = 0" "d \<in> {''input'', ''output''}"
  shows "concat (cs d) = t d"
proof -
  have p: "prefix (concat (cs ''input'')) (t ''input'')" "prefix (concat (cs ''output'')) (t ''output'')"
    using assms(1) by (simp_all add: capture_ok_def)
  then have "length (concat (cs ''input'')) = length (t ''input'')" "length (concat (cs ''output'')) = length (t ''output'')"
    using assms(1,2) prefix_length_le [OF p(1)] prefix_length_le [OF p(2)] by (simp_all add: capture_ok_def)
  then show ?thesis using p assms(3) by (metis insertE prefix_order.eq_iff prefix_length_prefix le_refl singletonD prefix_order.refl)
qed

definition allowance :: "string \<Rightarrow> stream_capture \<Rightarrow> nat" where
  "allowance bytes c = (case cp_budget c of None \<Rightarrow> length bytes | Some b \<Rightarrow> min (length bytes) (b - cp_recorded c))"

lemma capture_take_input:
  "capture_take ''input'' bytes c = ((cp_input_offset c, allowance bytes c),
     c\<lparr>cp_input_offset := cp_input_offset c + length bytes, cp_recorded := cp_recorded c + allowance bytes c,
       cp_dropped := cp_dropped c + (length bytes - allowance bytes c)\<rparr>)"
  by (cases "cp_budget c") (simp_all add: capture_take_def capture_offset_def allowance_def Let_def)

lemma capture_take_output:
  "capture_take ''output'' bytes c = ((cp_output_offset c, allowance bytes c),
     c\<lparr>cp_output_offset := cp_output_offset c + length bytes, cp_recorded := cp_recorded c + allowance bytes c,
       cp_dropped := cp_dropped c + (length bytes - allowance bytes c)\<rparr>)"
  by (cases "cp_budget c") (simp_all add: capture_take_def capture_offset_def allowance_def Let_def)

lemma capture_take_eq:
  assumes "capture_take d bytes c = ((start, allowed), c')" "d \<in> {''input'', ''output''}"
  shows "start = capture_offset d c" "allowed = allowance bytes c"
    "cp_budget c' = cp_budget c" "cp_failed c' = cp_failed c" "cp_recorded c' = cp_recorded c + allowed"
    "cp_dropped c' = cp_dropped c + (length bytes - allowed)"
    "capture_offset ''input'' c' = capture_offset ''input'' c + (if d = ''input'' then length bytes else 0)"
    "capture_offset ''output'' c' = capture_offset ''output'' c + (if d = ''output'' then length bytes else 0)"
  using assms by (auto simp: capture_take_input capture_take_output capture_offset_def)

lemma capture_take_ok:
  assumes ok: "capture_ok budget c t cs" and d: "d \<in> {''input'', ''output''}"
    and take: "capture_take d bytes c = ((start, allowed), c')"
  shows "start = length (t d)" "allowed > 0 \<Longrightarrow> concat (cs d) = t d" "allowed \<le> length bytes" "cp_failed c' = cp_failed c"
    "concat new = take allowed bytes \<Longrightarrow> capture_ok budget c' (t(d := t d @ bytes)) (cs(d := cs d @ new))"
proof -
  note eqs = capture_take_eq [OF take d]
  show "start = length (t d)" using ok d eqs(1) by (auto simp: capture_ok_def)
  show le: "allowed \<le> length bytes" "cp_failed c' = cp_failed c" using eqs(2,4) by (auto simp: allowance_def split: option.splits)
  show whole: "concat (cs d) = t d" if "allowed > 0"
  proof (rule capture_ok_complete [OF ok _ d])
    show "cp_dropped c = 0"
      using ok eqs(2) that by (auto simp: capture_ok_def allowance_def split: option.splits)
  qed
  show "capture_ok budget c' (t(d := t d @ bytes)) (cs(d := cs d @ new))" if new: "concat new = take allowed bytes"
  proof -
    have "prefix (concat (cs d) @ concat new) (t d @ bytes)"
    proof (cases "allowed > 0")
      case True
      then show ?thesis using whole new by (simp add: take_is_prefix)
    next
      case False
      then have "concat new = []" "prefix (concat (cs d)) (t d)" using ok d new by (auto simp: capture_ok_def)
      then show ?thesis by (simp only: append_Nil2) (rule prefix_prefix)
    qed
    moreover have "length (concat new) = allowed" using new le by simp
    moreover have "case budget of None \<Rightarrow> cp_dropped c' = 0
        | Some b \<Rightarrow> cp_recorded c' \<le> b \<and> (cp_dropped c' > 0 \<longrightarrow> cp_recorded c' = b)"
      using ok eqs(2,5,6) by (auto simp: capture_ok_def allowance_def split: option.splits)
    ultimately show ?thesis
      using ok d eqs(3,5-8) le(1) unfolding capture_ok_def by (elim insertE; simp)
  qed
qed

lemma record_stream_ok:
  assumes "record_stream al base64 d bytes (j, da) = (j', da')" "mp_audit j = Some sid" "mp_capture j = Some c" "\<not> cp_failed c"
    and "mp_capture j' = Some c'" "\<not> cp_failed c'"
    and ok: "capture_ok budget c t cs" "\<forall>e. recorded_as base64 sid da0 e (cs e) da" "recording sid da" and d: "d \<in> {''input'', ''output''}"
  shows "\<exists>cs. capture_ok budget c' (t(d := t d @ bytes)) cs \<and> (\<forall>e. recorded_as base64 sid da0 e (cs e) da') \<and> recording sid da'"
proof (cases "bytes = []")
  case True
  then show ?thesis using assms by (auto simp: record_stream_def)
next
  case False
  obtain start allowed c1 where tk: "capture_take d bytes c = ((start, allowed), c1)" by (metis prod.collapse)
  let ?new = "chunks STREAM_RECORD_BYTES (take allowed bytes)"
  obtain failed where rc: "record_chunks al base64 sid (mp_command j) d start ?new da = (failed, da')" and c': "c' = c1\<lparr>cp_failed := failed\<rparr>"
    using assms(1-5) False tk by (auto simp: record_stream_def split: prod.splits)
  have new: "concat ?new = take allowed bytes" by (rule concat_chunks) (simp add: STREAM_RECORD_BYTES_def)
  note tok = capture_take_ok [OF ok(1) d tk]
  have nf: "\<not> failed" using assms(6) by (simp add: c')
  have "capture_ok budget c' (t(d := t d @ bytes)) (cs(d := cs d @ ?new))"
    unfolding c' capture_ok_failed by (rule tok(5) [OF new])
  moreover have recs: "recording sid da' \<and> stream_records e (da_acked sid da') =
      stream_records e (da_acked sid da) @ (if e = d then map (apsnd base64) (pieces start ?new) else [])" for e
    using record_chunks_streams [OF _ ok(3)] rc nf by simp
  moreover have "pieces start ?new = pieces (length (concat (cs d))) ?new"
    using tok(1,2) by (cases "allowed > 0") (auto simp: chunks.simps)
  ultimately have "recorded_as base64 sid da0 e ((cs(d := cs d @ ?new)) e) da'" for e
    using ok(2) length_chunks [of _ STREAM_RECORD_BYTES] by (auto simp: recorded_as_def pieces_append)
  with \<open>capture_ok budget c' _ _\<close> recs show ?thesis by blast
qed

lemma capture_run_ok:
  "capture_run al base64 sid budget da0 t j da \<Longrightarrow>
   mp_audit j = Some sid \<and> (\<exists>c. mp_capture j = Some c \<and> (\<not> cp_failed c \<longrightarrow>
     recording sid da \<and> (\<exists>cs. capture_ok budget c t cs \<and> (\<forall>d. recorded_as base64 sid da0 d (cs d) da))))"
proof (induction rule: capture_run.induct)
  case (begins j)
  have "capture_ok budget (capture_new budget) (\<lambda>_. []) (\<lambda>_. [])"
    by (simp add: capture_ok_def capture_new_def capture_offset_def split: option.split)
  moreover have "recorded_as base64 sid da0 d [] da0" for d by (simp add: recorded_as_def)
  ultimately show ?case using begins by (intro conjI exI [of _ "capture_new budget"] impI exI [of _ "\<lambda>_. []"]) simp_all
next
  case (records t j da d bytes j' da')
  obtain c where c: "mp_audit j = Some sid" "mp_capture j = Some c"
    and ok: "\<not> cp_failed c \<Longrightarrow> recording sid da \<and> (\<exists>cs. capture_ok budget c t cs \<and> (\<forall>d. recorded_as base64 sid da0 d (cs d) da))"
    using records.IH by blast
  have same: "mp_audit j' = mp_audit j" "\<exists>c'. mp_capture j' = Some c' \<and> (cp_failed c \<longrightarrow> cp_failed c')"
    using records.hyps(3) c by (auto simp: record_stream_def split: if_splits prod.splits)
  then obtain c' where c': "mp_capture j' = Some c'" "cp_failed c \<longrightarrow> cp_failed c'" by blast
  have "recording sid da' \<and> (\<exists>cs. capture_ok budget c' (t(d := t d @ bytes)) cs \<and> (\<forall>e. recorded_as base64 sid da0 e (cs e) da'))"
    if "\<not> cp_failed c'"
  proof -
    have nf: "\<not> cp_failed c" using c'(2) that by blast
    obtain cs where "capture_ok budget c t cs" "\<forall>d. recorded_as base64 sid da0 d (cs d) da" "recording sid da" using ok [OF nf] by blast
    from record_stream_ok [OF records.hyps(3) c nf c'(1) that this records.hyps(2)] show ?thesis by blast
  qed
  moreover have "mp_audit j' = Some sid" using c(1) same(1) by simp
  ultimately show ?case using c'(1) by blast
next
  case (others t j da j' da')
  have "recorded_as base64 sid da0 d cs da' = recorded_as base64 sid da0 d cs da" for d cs
    by (simp add: recorded_as_def others.hyps(5))
  with others show ?case by auto
qed

text \<open>
  C39. The audit trail of a terminal is faithful. With required auditing, as long as the audit
  connection is open, no append has failed and nobody else writes stream records of the session, the
  records of each direction are consecutive pieces, with their true offsets and of at
  most 64 KiB, of a prefix of the bytes that went in that direction; together they hold all bytes, or
  exactly the job's budget of them, and the rest is counted as dropped.
\<close>

theorem terminal_audit_is_faithful:
  assumes "capture_run al base64 sid budget da0 t j da" "mp_capture j = Some c" "\<not> cp_failed c"
  shows "\<exists>pi po. recorded_as base64 sid da0 ''input'' pi da \<and> recorded_as base64 sid da0 ''output'' po da \<and>
    prefix (concat pi) (t ''input'') \<and> prefix (concat po) (t ''output'') \<and>
    length (concat pi) + length (concat po) + cp_dropped c = length (t ''input'') + length (t ''output'') \<and>
    length (concat pi) + length (concat po) =
      (case budget of None \<Rightarrow> length (t ''input'') + length (t ''output'') | Some b \<Rightarrow> min b (length (t ''input'') + length (t ''output'')))"
proof -
  obtain cs where ok: "capture_ok budget c t cs" "\<forall>d. recorded_as base64 sid da0 d (cs d) da"
    using capture_run_ok [OF assms(1)] assms(2,3) by auto
  have "length (concat (cs ''input'')) + length (concat (cs ''output'')) =
      (case budget of None \<Rightarrow> length (t ''input'') + length (t ''output'') | Some b \<Rightarrow> min b (length (t ''input'') + length (t ''output'')))"
    using ok(1) by (auto simp: capture_ok_def split: option.splits)
  then show ?thesis using ok by (intro exI [of _ "cs ''input''"] exI [of _ "cs ''output''"]) (simp add: capture_ok_def)
qed

definition demo_audited_job :: managed_pty where
  "demo_audited_job = demo_job\<lparr>mp_audit := Some ''i'', mp_capture := Some (capture_new (Some 1))\<rparr>"

lemma demo_append_recorded: "fst (da_append demo_audit_link ''i'' event (dn_audit demo_daemon)) = Ok ()"
proof -
  obtain c where "client_append (al_link demo_audit_link) event demo_open_client = (Ok (1, []), c)"
    using demo_acknowledges [of demo_open_client event] by (auto simp: demo_open_client_def)
  then show ?thesis
    by (simp add: da_append_def demo_daemon_def demo_session_audit_def audit_append_def ready_audit_def)
qed

theorem terminal_audit_is_faithful_witness:
  "\<exists>j da c (pi :: string list) po. mp_capture j = Some c \<and> \<not> cp_failed c \<and> cp_dropped c = 1 \<and>
    capture_run demo_audit_link id ''i'' (Some 1) (dn_audit demo_daemon) ((\<lambda>_. [])(''output'' := ''ab'')) j da \<and>
    recorded_as id ''i'' (dn_audit demo_daemon) ''output'' po da \<and> length (concat pi) + length (concat po) = 1"
proof -
  let ?da = "dn_audit demo_daemon" and ?e = "EvTerminalStream ''cat'' ''output'' 0 ''a'' 0"
  have rec: "recording ''i'' ?da"
    by (simp add: recording_def demo_daemon_def demo_audit_config_def demo_session_audit_def audit_config_default_def)
  obtain da where da: "da_append demo_audit_link ''i'' ?e ?da = (Ok (), da)"
    using demo_append_recorded [of ?e] by (metis prod.collapse)
  have job: "mp_audit demo_audited_job = Some ''i''" "mp_capture demo_audited_job = Some (capture_new (Some 1))"
    "mp_command demo_audited_job = ''cat''"
    by (simp_all add: demo_audited_job_def demo_job_def managed_new_def)
  let ?c = "(capture_new (Some 1))\<lparr>cp_output_offset := 2, cp_recorded := 1, cp_dropped := 1, cp_failed := False\<rparr>"
  let ?j = "demo_audited_job\<lparr>mp_capture := Some ?c\<rparr>"
  have "chunks STREAM_RECORD_BYTES ''a'' = [''a'']" by (simp add: chunks.simps STREAM_RECORD_BYTES_def)
  then have "record_stream demo_audit_link id ''output'' ''ab'' (demo_audited_job, ?da) = (?j, da)"
    using da by (simp add: record_stream_def job capture_new_def capture_take_output allowance_def)
  from capture_run.records [OF capture_run.begins [OF job(1,2) rec] _ this]
  have run: "capture_run demo_audit_link id ''i'' (Some 1) ?da ((\<lambda>_. [])(''output'' := ''ab'')) ?j da" by simp
  have c: "mp_capture ?j = Some ?c" "\<not> cp_failed ?c" "cp_dropped ?c = 1" by simp_all
  obtain pi :: "string list" and po where "recorded_as id ''i'' ?da ''output'' po da" "length (concat pi) + length (concat po) = 1"
    using terminal_audit_is_faithful [OF run c(1,2)] by auto
  with run c show ?thesis by blast
qed

end
