(* ===== verification/Terminal_Jobs.thy ===== *)
theory Terminal_Jobs
  imports Terminal_Stream
begin

text \<open>
  The terminal jobs of the daemon (\<open>PtyCoordinator\<close> of \<^verbatim>\<open>crates/xshell-session/src/pty.rs\<close>): which
  session has which job, and who may read and write its stream. A client gets a ticket for a job and
  trades it for a claim; a claim is needed for every byte. Identifiers are random in the source and
  fresh here. The jobs are the entries of a hash map, in any order.
\<close>

section \<open>Operations\<close>

record 'p pty_coordinator =
  co_jobs :: "(string \<times> managed_pty) list"
  co_accepting :: bool
  co_host :: session_host
  co_audit :: "'p daemon_audit"

record pty_ticket =
  pt_pty_id :: string
  pt_ticket :: string
  pt_replay_from :: nat

record pty_claim =
  pm_pty_id :: string
  pm_claim_id :: string
  pm_cursor :: nat

definition update_job :: "string \<Rightarrow> (managed_pty \<Rightarrow> managed_pty) \<Rightarrow> 'p pty_coordinator \<Rightarrow> 'p pty_coordinator" where
  "update_job i f c = c\<lparr>co_jobs := map (\<lambda>(k, j). (k, if k = i then f j else j)) (co_jobs c)\<rparr>"

definition remove_job :: "string \<Rightarrow> 'p pty_coordinator \<Rightarrow> 'p pty_coordinator" where
  "remove_job i c = c\<lparr>co_jobs := filter (\<lambda>e. fst e \<noteq> i) (co_jobs c)\<rparr>"

definition validate_command :: "string \<Rightarrow> (string, unit) result" where
  "validate_command command =
     (if is_blank command then Err ''PTY command is empty''
      else if length command > MAX_COMMAND_BYTES then Err ''PTY command exceeds 65536 bytes''
      else Ok ())"

definition validate_size :: "pty_size \<Rightarrow> (string, unit) result" where
  "validate_size sz =
     (if ps_rows sz = 0 \<or> ps_columns sz = 0 \<or> ps_rows sz > MAX_DIMENSION \<or> ps_columns sz > MAX_DIMENSION
      then Err ''PTY dimensions must be between 1 and 1000'' else Ok ())"

definition validate_terminal_type :: "string option \<Rightarrow> (string, unit) result" where
  "validate_terminal_type terminal_type =
     (case terminal_type of
        None \<Rightarrow> Ok ()
      | Some t \<Rightarrow>
          if t = [] \<or> length t > MAX_TERMINAL_TYPE_BYTES \<or> \<not> list_all (\<lambda>c. is_ascii_alphanumeric c \<or> c \<in> set ''-_.+:'') t
          then Err ''invalid terminal type'' else Ok ())"

text \<open>
  Ending a job and waiting for its worker. \<open>under_way\<close> is the exchange the worker is in when it is
  told to end: its input and its result. A worker that already has a status is about to finish.
\<close>

definition shutdown_job ::
  "session_lib \<Rightarrow> session_env \<Rightarrow> 'p audit_link \<Rightarrow> (string \<Rightarrow> string) \<Rightarrow> (string \<times> (string, pty_chunk) result) option \<Rightarrow> managed_pty \<Rightarrow>
   session_host \<times> 'p daemon_audit \<Rightarrow> managed_pty \<times> session_host \<times> 'p daemon_audit" where
  "shutdown_job lib env al base64 under_way j s =
     (if mp_worker_finished j then (j, s)
      else
        let j = j\<lparr>mp_shutdown := True\<rparr> in
        case mp_exit_status j of
          Some status \<Rightarrow> finish_end lib env al status j s
        | None \<Rightarrow>
            (case under_way of
               None \<Rightarrow> finish lib env al ''terminated'' j s
             | Some (input, r) \<Rightarrow>
                 (case worker_result lib env al base64 input r j s of (j, s) \<Rightarrow> finish lib env al ''terminated'' j s)))"

text \<open>What the daemon's surroundings answer to an operation on terminal jobs.\<close>

record terminal_env =
  te_session_env :: session_env
  te_uuid :: string
  te_second_uuid :: string
  te_spawn :: "(string, unit) result"
  te_under_way :: "(string \<times> (string, pty_chunk) result) option"

definition shut ::
  "session_lib \<Rightarrow> 'p audit_link \<Rightarrow> (string \<Rightarrow> string) \<Rightarrow> terminal_env \<Rightarrow> managed_pty \<Rightarrow> 'p pty_coordinator \<Rightarrow> 'p pty_coordinator" where
  "shut lib al base64 te j c =
     (case shutdown_job lib (te_session_env te) al base64 (te_under_way te) j (co_host c, co_audit c) of
        (_, h, da) \<Rightarrow> c\<lparr>co_host := h, co_audit := da\<rparr>)"

definition terminate ::
  "session_lib \<Rightarrow> 'p audit_link \<Rightarrow> (string \<Rightarrow> string) \<Rightarrow> terminal_env \<Rightarrow> string \<Rightarrow> 'p pty_coordinator \<Rightarrow> ('p pty_coordinator, string, unit) outcome" where
  "terminate lib al base64 te i c =
     (case map_of (co_jobs c) i of
        None \<Rightarrow> (Err ''unknown terminal job'', c)
      | Some j \<Rightarrow> (Ok (), shut lib al base64 te j (remove_job i c)))"

definition terminate_session ::
  "session_lib \<Rightarrow> 'p audit_link \<Rightarrow> (string \<Rightarrow> string) \<Rightarrow> terminal_env \<Rightarrow> string \<Rightarrow> 'p pty_coordinator \<Rightarrow> bool \<times> 'p pty_coordinator" where
  "terminate_session lib al base64 te sid c =
     (let removed = map snd (filter (\<lambda>e. mp_session_id (snd e) = sid) (co_jobs c));
          c = c\<lparr>co_jobs := filter (\<lambda>e. mp_session_id (snd e) \<noteq> sid) (co_jobs c)\<rparr>
      in (removed \<noteq> [], fold (shut lib al base64 te) removed c))"

definition stop_accepting :: "'p pty_coordinator \<Rightarrow> 'p pty_coordinator" where
  "stop_accepting c = c\<lparr>co_accepting := False\<rparr>"

text \<open>\<open>in_time\<close> tells which workers end before the deadline; the others are left behind.\<close>

definition shutdown_all ::
  "session_lib \<Rightarrow> 'p audit_link \<Rightarrow> (string \<Rightarrow> string) \<Rightarrow> terminal_env \<Rightarrow> (managed_pty \<Rightarrow> bool) \<Rightarrow> 'p pty_coordinator \<Rightarrow> bool \<times> 'p pty_coordinator" where
  "shutdown_all lib al base64 te in_time c =
     (let jobs = map snd (co_jobs c);
          ended = filter (\<lambda>j. mp_worker_finished j \<or> in_time j) jobs
      in (ended = jobs, fold (shut lib al base64 te) ended ((stop_accepting c)\<lparr>co_jobs := []\<rparr>)))"

definition has_session :: "string \<Rightarrow> 'p pty_coordinator \<Rightarrow> bool" where
  "has_session sid c = list_ex (\<lambda>(_, j). mp_session_id j = sid \<and> mp_exit_status j = None) (co_jobs c)"

definition job_activity :: "string \<Rightarrow> 'p pty_coordinator \<Rightarrow> session_activity option" where
  "job_activity sid c =
     map_option (\<lambda>(_, j). InteractiveProcess (mp_command j) (mp_claimed j \<noteq> None))
       (List.find (\<lambda>(_, j). mp_session_id j = sid \<and> mp_exit_status j = None) (co_jobs c))"

definition remove_completed_for_session ::
  "session_lib \<Rightarrow> 'p audit_link \<Rightarrow> (string \<Rightarrow> string) \<Rightarrow> terminal_env \<Rightarrow> string \<Rightarrow> 'p pty_coordinator \<Rightarrow> 'p pty_coordinator" where
  "remove_completed_for_session lib al base64 te sid c =
     (case List.find (\<lambda>(_, j). mp_session_id j = sid \<and> mp_exit_status j \<noteq> None) (co_jobs c) of
        None \<Rightarrow> c
      | Some (i, _) \<Rightarrow> snd (terminate lib al base64 te i c))"

text \<open>
  \<open>start_inner\<close> up to the start of the process. The final boundary before the process is the audit
  record of the command, then the durable marker.
\<close>

definition start_prepare ::
  "session_lib \<Rightarrow> 'p audit_link \<Rightarrow> (string \<Rightarrow> string) \<Rightarrow> terminal_env \<Rightarrow> string \<Rightarrow> string \<Rightarrow> pty_size \<Rightarrow> string option \<Rightarrow> string option \<Rightarrow>
   'p pty_coordinator \<Rightarrow> ('p pty_coordinator, string, unit) outcome" where
  "start_prepare lib al base64 te sid command sz terminal_type handle c =
     (if \<not> co_accepting c then (Err ''terminal execution is shutting down'', c)
      else case and_then (validate_command command) (\<lambda>_. and_then (validate_size sz) (\<lambda>_. validate_terminal_type terminal_type)) of
        Inl e \<Rightarrow> (Err e, c)
      | Inr _ \<Rightarrow>
          let c = remove_completed_for_session lib al base64 te sid c in
          if length (co_jobs c) \<ge> MAX_ACTIVE_PTYS then (Err ''PTY capacity is exhausted'', c)
          else if list_ex (\<lambda>(_, j). mp_session_id j = sid) (co_jobs c) then (Err ''session already has a terminal job'', c)
          else case (case handle of
                       None \<Rightarrow> (Ok (), co_audit c)
                     | Some h \<Rightarrow> da_append al h (EvInput ''shell_terminal'' (''$'' @ command)) (co_audit c)) of
                 (Inl e, da) \<Rightarrow> (Err (audit_error_message e), c\<lparr>co_audit := da\<rparr>)
               | (Inr _, da) \<Rightarrow>
                   (case begin_execution lib (te_session_env te) sid (te_uuid te) ''shell_terminal'' (co_host c) of
                      (Inl e, h) \<Rightarrow> (Err e, c\<lparr>co_audit := da, co_host := h\<rparr>)
                    | (Inr _, h) \<Rightarrow>
                        (case te_spawn te of
                           Inr _ \<Rightarrow> (Ok (), c\<lparr>co_audit := da, co_host := h\<rparr>)
                         | Inl e \<Rightarrow>
                             (Err e, c\<lparr>co_audit := da, co_host := snd (finish_execution lib (te_session_env te) sid (te_uuid te) h)\<rparr>))))"

text \<open>The second hold of the lock: other threads may have come in between.\<close>

definition start_insert ::
  "session_lib \<Rightarrow> session_env \<Rightarrow> string \<Rightarrow> managed_pty \<Rightarrow> 'p pty_coordinator \<Rightarrow> ('p pty_coordinator, string, unit) outcome" where
  "start_insert lib env i j c =
     (let undone = c\<lparr>co_host := snd (finish_execution lib env (mp_session_id j) i (co_host c))\<rparr> in
      if \<not> co_accepting c then (Err ''terminal execution is shutting down'', undone)
      else if length (co_jobs c) \<ge> MAX_ACTIVE_PTYS \<or> list_ex (\<lambda>(_, k). mp_session_id k = mp_session_id j) (co_jobs c)
      then (Err ''session acquired another terminal job while this one was starting'', undone)
      else (Ok (), c\<lparr>co_jobs := (i, j) # co_jobs c\<rparr>))"

definition start_inner ::
  "session_lib \<Rightarrow> 'p audit_link \<Rightarrow> (string \<Rightarrow> string) \<Rightarrow> terminal_env \<Rightarrow> ('p pty_coordinator \<Rightarrow> 'p pty_coordinator) \<Rightarrow> string \<Rightarrow> string \<Rightarrow> string \<Rightarrow>
   pty_size \<Rightarrow> string option \<Rightarrow> (string \<times> nat option option) option \<Rightarrow> 'p pty_coordinator \<Rightarrow> ('p pty_coordinator, string, pty_ticket) outcome" where
  "start_inner lib al base64 te meanwhile sid command cwd sz terminal_type audit c =
     (let handle = map_option fst audit; stream = (case audit of None \<Rightarrow> None | Some (_, stream) \<Rightarrow> stream) in
      case start_prepare lib al base64 te sid command sz terminal_type handle c of
        (Inl e, c) \<Rightarrow> (Err e, c)
      | (Inr _, c) \<Rightarrow>
          (case start_insert lib (te_session_env te) (te_uuid te)
                  (managed_new sid command cwd (te_uuid te) handle stream (te_second_uuid te) sz) (meanwhile c) of
             (Inl e, c) \<Rightarrow> (Err e, c)
           | (Inr _, c) \<Rightarrow> (Ok \<lparr>pt_pty_id = te_uuid te, pt_ticket = te_second_uuid te, pt_replay_from = 0\<rparr>, c)))"

definition attach_job :: "string \<Rightarrow> string \<Rightarrow> nat option \<Rightarrow> 'p pty_coordinator \<Rightarrow> ('p pty_coordinator, string, pty_ticket) outcome" where
  "attach_job ticket sid after_offset c =
     (case List.find (\<lambda>(_, j). mp_session_id j = sid) (co_jobs c) of
        None \<Rightarrow> (Err ''session has no terminal job'', c)
      | Some (i, j) \<Rightarrow>
          if mp_claimed j \<noteq> None then (Err ''terminal job is already attached'', c)
          else
            let replay_from = clamp_cursor j (case after_offset of None \<Rightarrow> mp_replay_start j | Some k \<Rightarrow> k)
            in (Ok \<lparr>pt_pty_id = i, pt_ticket = ticket, pt_replay_from = replay_from\<rparr>,
                update_job i (\<lambda>j. j\<lparr>mp_redraw_requested := True, mp_tickets := [(ticket, replay_from)]\<rparr>) c))"

definition claim_job :: "string \<Rightarrow> string \<Rightarrow> 'p pty_coordinator \<Rightarrow> ('p pty_coordinator, string, pty_claim) outcome" where
  "claim_job claim_id ticket c =
     (case List.find (\<lambda>(_, j). map_of (mp_tickets j) ticket \<noteq> None) (co_jobs c) of
        None \<Rightarrow> (Err ''unknown or expired PTY stream ticket'', c)
      | Some (i, j) \<Rightarrow>
          if mp_claimed j \<noteq> None
          then (Err ''terminal job is already attached'', update_job i (\<lambda>j. j\<lparr>mp_tickets := AList.delete ticket (mp_tickets j)\<rparr>) c)
          else (Ok \<lparr>pm_pty_id = i, pm_claim_id = claim_id, pm_cursor = the (map_of (mp_tickets j) ticket)\<rparr>,
                update_job i (\<lambda>j. j\<lparr>mp_tickets := [], mp_claimed := Some claim_id\<rparr>) c))"

definition release_claim :: "pty_claim \<Rightarrow> 'p pty_coordinator \<Rightarrow> 'p pty_coordinator" where
  "release_claim claim c =
     update_job (pm_pty_id claim) (\<lambda>j. if mp_claimed j = Some (pm_claim_id claim) then j\<lparr>mp_claimed := None\<rparr> else j) c"

definition get_claimed :: "pty_claim \<Rightarrow> 'p pty_coordinator \<Rightarrow> (string, managed_pty) result" where
  "get_claimed claim c =
     (case map_of (co_jobs c) (pm_pty_id claim) of
        None \<Rightarrow> Err ''unknown terminal job''
      | Some j \<Rightarrow> if mp_claimed j = Some (pm_claim_id claim) then Ok j else Err ''PTY stream claim is no longer active'')"

definition write_claimed :: "pty_claim \<Rightarrow> string \<Rightarrow> 'p pty_coordinator \<Rightarrow> ('p pty_coordinator, string, unit) outcome" where
  "write_claimed claim bytes c =
     (case get_claimed claim c of
        Inl e \<Rightarrow> (Err e, c)
      | Inr j \<Rightarrow> (case write_input bytes j of (r, j') \<Rightarrow> (r, update_job (pm_pty_id claim) (\<lambda>_. j') c)))"

definition resize_claimed :: "pty_claim \<Rightarrow> pty_size \<Rightarrow> 'p pty_coordinator \<Rightarrow> ('p pty_coordinator, string, unit) outcome" where
  "resize_claimed claim sz c =
     (case and_then (validate_size sz) (\<lambda>_. get_claimed claim c) of
        Inl e \<Rightarrow> (Err e, c)
      | Inr _ \<Rightarrow> (Ok (), update_job (pm_pty_id claim) (\<lambda>j. j\<lparr>mp_size := sz\<rparr>) c))"

definition read_claimed ::
  "(managed_pty \<Rightarrow> managed_pty) \<Rightarrow> pty_claim \<Rightarrow> nat \<Rightarrow> nat \<Rightarrow> 'p pty_coordinator \<Rightarrow> ('p pty_coordinator, string, pty_read_result) outcome" where
  "read_claimed during claim cursor wait_ms c =
     (case get_claimed claim c of
        Inl e \<Rightarrow> (Err e, c)
      | Inr j \<Rightarrow>
          if wait_ms > MAX_READ_WAIT then (Err ''PTY read wait exceeds 250 ms'', c)
          else case read_output during cursor j of (r, j') \<Rightarrow> (Ok r, update_job (pm_pty_id claim) (\<lambda>_. j') c))"

section \<open>All that can happen\<close>

text \<open>
  A step of the coordinator: a request of a client, a step of some job's worker, or the daemon doing
  something else with the registry and the audit connections. The set holds the identifiers used so far.
\<close>

definition worker_moves :: "session_lib \<Rightarrow> 'p audit_link \<Rightarrow> (string \<Rightarrow> string) \<Rightarrow> managed_pty \<Rightarrow> managed_pty \<Rightarrow> bool" where
  "worker_moves lib al base64 j j' \<longleftrightarrow>
     j' = snd (worker_take j) \<or>
     (\<exists>env input r s. j' = fst (worker_result lib env al base64 input r j s)) \<or>
     (\<exists>status. j' = snd (finish_begin status j)) \<or>
     (\<exists>env status s. j' = fst (finish_end lib env al status j s))"

inductive co_step ::
  "session_lib \<Rightarrow> 'p audit_link \<Rightarrow> (string \<Rightarrow> string) \<Rightarrow> string set \<times> 'p pty_coordinator \<Rightarrow> string set \<times> 'p pty_coordinator \<Rightarrow> bool"
  for lib al base64 where
  prepares: "start_prepare lib al base64 te sid command sz terminal_type handle c = (r, c') \<Longrightarrow> co_step lib al base64 (U, c) (U, c')"
| inserts: "i \<notin> U \<Longrightarrow> ticket \<notin> U \<Longrightarrow>
    start_insert lib env i (managed_new sid command cwd i handle stream ticket sz) c = (r, c') \<Longrightarrow>
    co_step lib al base64 (U, c) (insert i (insert ticket U), c')"
| attaches: "ticket \<notin> U \<Longrightarrow> attach_job ticket sid after_offset c = (r, c') \<Longrightarrow> co_step lib al base64 (U, c) (insert ticket U, c')"
| claims: "claim_id \<notin> U \<Longrightarrow> claim_job claim_id ticket c = (r, c') \<Longrightarrow> co_step lib al base64 (U, c) (insert claim_id U, c')"
| releases: "co_step lib al base64 (U, c) (U, release_claim claim c)"
| writes: "write_claimed claim bytes c = (r, c') \<Longrightarrow> co_step lib al base64 (U, c) (U, c')"
| resizes: "resize_claimed claim sz c = (r, c') \<Longrightarrow> co_step lib al base64 (U, c) (U, c')"
| works: "(i, j) \<in> set (co_jobs c) \<Longrightarrow> worker_moves lib al base64 j j' \<Longrightarrow> co_step lib al base64 (U, c) (U, update_job i (\<lambda>_. j') c)"
| terminates: "terminate lib al base64 te i c = (r, c') \<Longrightarrow> co_step lib al base64 (U, c) (U, c')"
| ends_session: "terminate_session lib al base64 te sid c = (r, c') \<Longrightarrow> co_step lib al base64 (U, c) (U, c')"
| ends_all: "shutdown_all lib al base64 te in_time c = (r, c') \<Longrightarrow> co_step lib al base64 (U, c) (U, c')"
| outside: "co_step lib al base64 (U, c) (U, c\<lparr>co_host := h, co_audit := da\<rparr>)"

definition co_new :: "session_host \<Rightarrow> 'p daemon_audit \<Rightarrow> 'p pty_coordinator" where
  "co_new h da = \<lparr>co_jobs = [], co_accepting = True, co_host = h, co_audit = da\<rparr>"

section \<open>Tickets and claims\<close>

definition ticket_ids :: "managed_pty \<Rightarrow> string list" where
  "ticket_ids j = map fst (mp_tickets j)"

definition job_ids :: "managed_pty \<Rightarrow> string set" where
  "job_ids j = set (ticket_ids j) \<union> set_option (mp_claimed j)"

definition job_ok :: "string set \<Rightarrow> managed_pty \<Rightarrow> bool" where
  "job_ok U j \<longleftrightarrow> job_ids j \<subseteq> U \<and> length (mp_tickets j) \<le> 1 \<and> (mp_claimed j \<noteq> None \<longrightarrow> mp_tickets j = [])"

definition apart :: "managed_pty \<Rightarrow> managed_pty \<Rightarrow> bool" where
  "apart j k \<longleftrightarrow> mp_session_id j \<noteq> mp_session_id k \<and> set (ticket_ids j) \<inter> set (ticket_ids k) = {}"

definition co_inv :: "string set \<Rightarrow> 'p pty_coordinator \<Rightarrow> bool" where
  "co_inv U c \<longleftrightarrow>
     distinct (map fst (co_jobs c)) \<and> length (co_jobs c) \<le> MAX_ACTIVE_PTYS \<and>
     (\<forall>(i, j) \<in> set (co_jobs c). i \<in> U \<and> job_ok U j \<and> (\<forall>(i', j') \<in> set (co_jobs c). i \<noteq> i' \<longrightarrow> apart j j'))"

text \<open>A change of a job that concerns neither its session nor who may use it.\<close>

definition same_holder :: "managed_pty \<Rightarrow> managed_pty \<Rightarrow> bool" where
  "same_holder j j' \<longleftrightarrow> mp_session_id j' = mp_session_id j \<and> mp_tickets j' = mp_tickets j \<and> mp_claimed j' = mp_claimed j"

lemma same_holder_refl [simp]: "same_holder j j"
  by (simp add: same_holder_def)

lemma append_output_holder [simp]: "same_holder j (append_output bytes j)"
  by (simp add: same_holder_def append_output_def split: prod.split)

lemma same_holder_trans: "same_holder j k \<Longrightarrow> same_holder k l \<Longrightarrow> same_holder j l"
  by (simp add: same_holder_def)

lemma record_stream_holder: "same_holder j (fst (record_stream al base64 d bytes (j, da)))"
  by (auto simp: record_stream_def same_holder_def split: option.splits prod.splits)

lemma finish_holder: "same_holder j (snd (finish_begin status j))" "same_holder j (fst (finish_end lib env al status j s))"
  "same_holder j (fst (finish lib env al status j s))"
  by (auto simp: finish_def finish_begin_def finish_end_def same_holder_def Let_def split: prod.splits bool.splits)

lemma worker_exchanged_holder: "same_holder j (worker_exchanged input chunk j)"
  using append_output_holder by (simp add: worker_exchanged_def Let_def same_holder_def)

lemma worker_result_holder: "same_holder j (fst (worker_result lib env al base64 input r j s))"
proof (cases r)
  case (Inr chunk)
  obtain h da where s: "s = (h, da)" by (cases s)
  let ?accepted = "min (ch_input_accepted chunk) (length input)"
  obtain j1 da1 where 1: "record_stream al base64 ''input'' (take ?accepted input) (j, da) = (j1, da1)" by (metis prod.collapse)
  obtain j2 da2 where 2: "record_stream al base64 ''output'' (ch_output chunk) (j1, da1) = (j2, da2)" by (metis prod.collapse)
  have "same_holder j j1" "same_holder j1 j2"
    using record_stream_holder [of j al base64 "''input''" "take ?accepted input" da]
      record_stream_holder [of j1 al base64 "''output''" "ch_output chunk" da1] by (simp_all add: 1 2)
  then have "same_holder j (worker_exchanged input chunk j2)" by (blast intro: same_holder_trans worker_exchanged_holder)
  moreover have "worker_result lib env al base64 input r j s =
      (case ch_status chunk of None \<Rightarrow> (worker_exchanged input chunk j2, h, da2)
       | Some status \<Rightarrow> finish lib env al status (worker_exchanged input chunk j2) (h, da2))"
    by (simp add: worker_result_def Inr s Let_def 1 2)
  ultimately show ?thesis by (cases "ch_status chunk") (simp_all add: same_holder_trans [OF _ finish_holder(3)])
qed (simp add: worker_result_def finish_holder)

lemma worker_moves_holder: "worker_moves lib al base64 j j' \<Longrightarrow> same_holder j j'"
  using worker_result_holder finish_holder by (auto simp: worker_moves_def) (simp add: worker_take_def same_holder_def)

lemma shut_jobs [simp]: "co_jobs (shut lib al base64 te j c) = co_jobs c" "co_jobs (fold (shut lib al base64 te) js c) = co_jobs c"
proof -
  show 1: "co_jobs (shut lib al base64 te j c) = co_jobs c" for j c by (simp add: shut_def split: prod.split)
  show "co_jobs (fold (shut lib al base64 te) js c) = co_jobs c" by (induction js arbitrary: c) (simp_all add: 1)
qed

lemma co_inv_mono: "co_inv U c \<Longrightarrow> U \<subseteq> U' \<Longrightarrow> co_inv U' c"
  unfolding co_inv_def job_ok_def by fast

lemma co_inv_jobs: "co_jobs c' = co_jobs c \<Longrightarrow> co_inv U c' = co_inv U c"
  by (simp add: co_inv_def)

lemma co_inv_subset:
  assumes "co_inv U c" "co_jobs c' = filter P (co_jobs c)"
  shows "co_inv U c'"
  using assms unfolding co_inv_def
  by (auto simp: distinct_map_filter intro: order.trans [OF length_filter_le])

lemma co_inv_update:
  assumes inv: "co_inv U c" "U \<subseteq> U'"
    and f: "\<And>j. (i, j) \<in> set (co_jobs c) \<Longrightarrow> mp_session_id (f j) = mp_session_id j \<and> job_ok U' (f j) \<and>
      set (ticket_ids (f j)) \<subseteq> set (ticket_ids j) \<union> (U' - U)"
  shows "co_inv U' (update_job i f c)"
proof -
  have ids: "set (ticket_ids j) \<subseteq> U" "job_ok U' j" "k \<in> U'" if "(k, j) \<in> set (co_jobs c)" for k j
    using that inv unfolding co_inv_def job_ok_def job_ids_def by fast+
  have "apart (if k = i then f j else j) (if k' = i then f j' else j')"
    if e: "(k, j) \<in> set (co_jobs c)" "(k', j') \<in> set (co_jobs c)" "k \<noteq> k'" for k j k' j'
  proof -
    have ap: "apart j j'" using inv(1) e unfolding co_inv_def by fast
    have "apart (f j) j'" if "k = i"
      using f [of j] ap ids(1) [OF e(2)] e(1) that unfolding apart_def by (simp, blast)
    moreover have "apart j (f j')" if "k' = i"
      using f [of j'] ap ids(1) [OF e(1)] e(2) that unfolding apart_def by (simp, blast)
    ultimately show ?thesis using ap e(3) by auto
  qed
  moreover have keys: "map (fst \<circ> (\<lambda>(k, j). (k, if k = i then f j else j))) (co_jobs c) = map fst (co_jobs c)" by (simp add: split_def comp_def)
  ultimately show ?thesis
    using inv(1) ids(2,3) f unfolding co_inv_def by (auto simp: update_job_def keys)
qed

lemma co_invD:
  assumes "co_inv U c" "(i, j) \<in> set (co_jobs c)"
  shows "i \<in> U" "job_ok U j" "map_of (co_jobs c) i = Some j" "(i', j') \<in> set (co_jobs c) \<Longrightarrow> i \<noteq> i' \<Longrightarrow> apart j j'"
  using assms unfolding co_inv_def by (fast, fast, auto)

lemma same_holder_ok: "same_holder j j' \<Longrightarrow> job_ok U j' = job_ok U j" "same_holder j j' \<Longrightarrow> ticket_ids j' = ticket_ids j"
  by (simp_all add: same_holder_def job_ok_def job_ids_def ticket_ids_def)

lemma co_inv_same_holder:
  assumes "co_inv U c" "\<And>j. (i, j) \<in> set (co_jobs c) \<Longrightarrow> same_holder j (f j)"
  shows "co_inv U (update_job i f c)"
proof (rule co_inv_update [OF assms(1) subset_refl])
  fix j assume j: "(i, j) \<in> set (co_jobs c)"
  with assms(2) have "same_holder j (f j)" .
  with co_invD(2) [OF assms(1) j] show "mp_session_id (f j) = mp_session_id j \<and> job_ok U (f j) \<and> set (ticket_ids (f j)) \<subseteq> set (ticket_ids j) \<union> (U - U)"
    by (simp add: same_holder_ok) (simp add: same_holder_def)
qed

lemma all_filtered: "\<exists>P. xs = filter P xs"
  by (rule exI [of _ "\<lambda>_. True"]) simp

lemma terminate_jobs: "\<exists>P. co_jobs (snd (terminate lib al base64 te i c)) = filter P (co_jobs c)"
proof (cases "map_of (co_jobs c) i")
  case None
  then show ?thesis by (simp add: terminate_def all_filtered)
qed (auto simp: terminate_def remove_job_def)

lemma remove_completed_jobs: "\<exists>P. co_jobs (remove_completed_for_session lib al base64 te sid c) = filter P (co_jobs c)"
proof (cases "List.find (\<lambda>(_, j). mp_session_id j = sid \<and> mp_exit_status j \<noteq> None) (co_jobs c)")
  case None
  then show ?thesis by (simp add: remove_completed_for_session_def all_filtered)
next
  case (Some e)
  then show ?thesis using terminate_jobs by (auto simp: remove_completed_for_session_def split: prod.split)
qed

lemma start_prepare_jobs:
  assumes "start_prepare lib al base64 te sid command sz terminal_type handle c = (r, c')"
  shows "\<exists>P. co_jobs c' = filter P (co_jobs c)"
proof -
  obtain P where P: "co_jobs (remove_completed_for_session lib al base64 te sid c) = filter P (co_jobs c)"
    using remove_completed_jobs by blast
  have "co_jobs c' = co_jobs c \<or> co_jobs c' = co_jobs (remove_completed_for_session lib al base64 te sid c)"
    using assms by (auto simp: start_prepare_def Let_def split: if_splits sum.splits prod.splits)
  then show ?thesis using P all_filtered by metis
qed

lemma start_insert_inv:
  assumes "co_inv U c" "i \<notin> U" "ticket \<notin> U"
    and "start_insert lib env i (managed_new sid command cwd i handle stream ticket sz) c = (r, c')"
  shows "co_inv (insert i (insert ticket U)) c'"
proof -
  let ?j = "managed_new sid command cwd i handle stream ticket sz" and ?V = "insert i (insert ticket U)"
  have inv: "co_inv ?V c" by (rule co_inv_mono [OF assms(1)]) blast
  have new: "mp_session_id ?j = sid" "ticket_ids ?j = [ticket]" "job_ok ?V ?j"
    by (simp_all add: managed_new_def ticket_ids_def job_ok_def job_ids_def)
  consider "co_jobs c' = co_jobs c"
    | "co_jobs c' = (i, ?j) # co_jobs c" "length (co_jobs c) < MAX_ACTIVE_PTYS" "\<forall>(k, l) \<in> set (co_jobs c). mp_session_id l \<noteq> sid"
    using assms(4) new(1) by (auto simp: start_insert_def Let_def list_ex_iff split_def split: if_splits)
  then show ?thesis
  proof cases
    case 2
    have "apart ?j l" "apart l ?j" if "(k, l) \<in> set (co_jobs c)" for k l
      using that 2(3) new(1,2) co_invD(1,2) [OF assms(1) that] assms(2,3) by (auto simp: apart_def job_ok_def job_ids_def)
    moreover have "i \<notin> fst ` set (co_jobs c)" using co_invD(1) [OF assms(1)] assms(2) by auto
    ultimately show ?thesis using inv 2(1,2) new(3) unfolding co_inv_def by auto
  qed (use inv co_inv_jobs in blast)
qed

lemma find_job: "List.find (\<lambda>(i, j). P i j) xs = Some (i, j) \<Longrightarrow> (i, j) \<in> set xs \<and> P i j"
  by (induction xs) (auto split: if_splits)

lemma attach_job_inv:
  assumes "co_inv U c" "ticket \<notin> U" "attach_job ticket sid after_offset c = (r, c')"
  shows "co_inv (insert ticket U) c'"
proof -
  have inv: "co_inv (insert ticket U) c" by (rule co_inv_mono [OF assms(1)]) blast
  show ?thesis
  proof (cases "\<exists>i j. List.find (\<lambda>(_, j). mp_session_id j = sid) (co_jobs c) = Some (i, j) \<and> mp_claimed j = None")
    case True
    then obtain i j where f: "List.find (\<lambda>(_, j). mp_session_id j = sid) (co_jobs c) = Some (i, j)" "mp_claimed j = None" by blast
    have m: "map_of (co_jobs c) i = Some j" using find_job [OF f(1)] co_invD(3) [OF assms(1)] by blast
    obtain k where c': "c' = update_job i (\<lambda>j. j\<lparr>mp_redraw_requested := True, mp_tickets := [(ticket, k)]\<rparr>) c"
      using assms(3) f by (auto simp: attach_job_def Let_def)
    show ?thesis unfolding c'
    proof (rule co_inv_update [OF assms(1)])
      fix l assume "(i, l) \<in> set (co_jobs c)"
      then have "l = j" using co_invD(3) [OF assms(1)] m by fastforce
      then show "mp_session_id (l\<lparr>mp_redraw_requested := True, mp_tickets := [(ticket, k)]\<rparr>) = mp_session_id l \<and>
          job_ok (insert ticket U) (l\<lparr>mp_redraw_requested := True, mp_tickets := [(ticket, k)]\<rparr>) \<and>
          set (ticket_ids (l\<lparr>mp_redraw_requested := True, mp_tickets := [(ticket, k)]\<rparr>)) \<subseteq> set (ticket_ids l) \<union> (insert ticket U - U)"
        using f(2) assms(2) by (simp add: job_ok_def job_ids_def ticket_ids_def)
    qed blast
  next
    case False
    then have "c' = c" using assms(3) by (auto simp: attach_job_def split: option.splits if_splits)
    with inv show ?thesis by simp
  qed
qed

lemma claim_job_cases:
  assumes "claim_job claim_id ticket c = (r, c')"
  obtains "c' = c"
  | i j where "(i, j) \<in> set (co_jobs c)" "mp_claimed j \<noteq> None" "ticket \<in> set (ticket_ids j)"
      "c' = update_job i (\<lambda>j. j\<lparr>mp_tickets := AList.delete ticket (mp_tickets j)\<rparr>) c"
  | i j where "(i, j) \<in> set (co_jobs c)" "mp_claimed j = None" "c' = update_job i (\<lambda>j. j\<lparr>mp_tickets := [], mp_claimed := Some claim_id\<rparr>) c"
proof (cases "List.find (\<lambda>(_, j). map_of (mp_tickets j) ticket \<noteq> None) (co_jobs c)")
  case None
  then show thesis using assms that(1) by (simp add: claim_job_def)
next
  case (Some e)
  obtain i j where e: "e = (i, j)" by (cases e)
  have f: "(i, j) \<in> set (co_jobs c)" "map_of (mp_tickets j) ticket \<noteq> None"
    using find_job [OF Some [unfolded e]] by blast+
  have t: "ticket \<in> set (ticket_ids j)" using f(2) by (simp add: ticket_ids_def map_of_eq_None_iff)
  show thesis
  proof (cases "mp_claimed j = None")
    case True
    then show thesis using that(3) [OF f(1)] assms Some e by (simp add: claim_job_def)
  next
    case False
    then show thesis using that(2) [OF f(1) _ t] assms Some e by (simp add: claim_job_def)
  qed
qed

lemma claim_job_inv:
  assumes "co_inv U c" "claim_job claim_id ticket c = (r, c')"
  shows "co_inv (insert claim_id U) c'"
  using assms(2)
proof (cases rule: claim_job_cases)
  case 1
  then show ?thesis using co_inv_mono [OF assms(1)] by blast
next
  case (2 i j)
  then show ?thesis using co_invD(2) [OF assms(1) 2(1)] by (auto simp: job_ok_def ticket_ids_def)
next
  case (3 i j)
  show ?thesis unfolding 3(3)
  proof (rule co_inv_update [OF assms(1)])
    show "mp_session_id (l\<lparr>mp_tickets := [], mp_claimed := Some claim_id\<rparr>) = mp_session_id l \<and>
        job_ok (insert claim_id U) (l\<lparr>mp_tickets := [], mp_claimed := Some claim_id\<rparr>) \<and>
        set (ticket_ids (l\<lparr>mp_tickets := [], mp_claimed := Some claim_id\<rparr>)) \<subseteq> set (ticket_ids l) \<union> (insert claim_id U - U)" for l
      by (simp add: job_ok_def job_ids_def ticket_ids_def)
  qed blast
qed

lemma release_claim_inv: "co_inv U c \<Longrightarrow> co_inv U (release_claim claim c)"
  unfolding release_claim_def
proof (rule co_inv_update)
  fix j assume "co_inv U c" "(pm_pty_id claim, j) \<in> set (co_jobs c)"
  then have "job_ok U j" by (rule co_invD(2))
  then show "mp_session_id (if mp_claimed j = Some (pm_claim_id claim) then j\<lparr>mp_claimed := None\<rparr> else j) = mp_session_id j \<and>
      job_ok U (if mp_claimed j = Some (pm_claim_id claim) then j\<lparr>mp_claimed := None\<rparr> else j) \<and>
      set (ticket_ids (if mp_claimed j = Some (pm_claim_id claim) then j\<lparr>mp_claimed := None\<rparr> else j)) \<subseteq> set (ticket_ids j) \<union> (U - U)"
    by (simp add: job_ok_def job_ids_def ticket_ids_def)
qed simp_all

lemma write_input_holder: "same_holder j (snd (write_input bytes j))"
  by (simp add: write_input_def same_holder_def)

lemma get_claimed_Ok: "get_claimed claim c = Ok j \<longleftrightarrow> map_of (co_jobs c) (pm_pty_id claim) = Some j \<and> mp_claimed j = Some (pm_claim_id claim)"
  by (auto simp: get_claimed_def split: option.splits)

text \<open>A write, a resize and the worker change a job without changing who holds it.\<close>

lemma write_claimed_update:
  assumes "co_inv U c" "write_claimed claim bytes c = (r, c')"
  shows "\<exists>i f. c' = update_job i f c \<and> (\<forall>j. (i, j) \<in> set (co_jobs c) \<longrightarrow> same_holder j (f j))"
proof (cases "get_claimed claim c")
  case (Inl e)
  then have "c' = update_job (pm_pty_id claim) (\<lambda>j. j) c" using assms(2) by (simp add: write_claimed_def update_job_def)
  then show ?thesis using same_holder_refl by blast
next
  case (Inr j)
  then have c': "c' = update_job (pm_pty_id claim) (\<lambda>_. snd (write_input bytes j)) c"
    using assms(2) by (simp add: write_claimed_def split: prod.splits)
  have "same_holder l (snd (write_input bytes j))" if "(pm_pty_id claim, l) \<in> set (co_jobs c)" for l
    using that co_invD(3) [OF assms(1) that] Inr write_input_holder by (simp add: get_claimed_Ok)
  with c' show ?thesis by blast
qed

lemma resize_claimed_update:
  assumes "resize_claimed claim sz c = (r, c')"
  shows "\<exists>i f. c' = update_job i f c \<and> (\<forall>j. (i, j) \<in> set (co_jobs c) \<longrightarrow> same_holder j (f j))"
proof -
  have "c' = update_job (pm_pty_id claim) (\<lambda>j. j) c \<or> c' = update_job (pm_pty_id claim) (\<lambda>j. j\<lparr>mp_size := sz\<rparr>) c"
    using assms by (auto simp: resize_claimed_def update_job_def split: sum.splits)
  moreover have "same_holder j (j\<lparr>mp_size := sz\<rparr>)" for j by (simp add: same_holder_def)
  ultimately show ?thesis using same_holder_refl by blast
qed

lemma works_update:
  assumes "co_inv U c" "(i, j) \<in> set (co_jobs c)" "worker_moves lib al base64 j j'"
  shows "\<forall>l. (i, l) \<in> set (co_jobs c) \<longrightarrow> same_holder l j'"
proof (intro allI impI)
  fix l assume "(i, l) \<in> set (co_jobs c)"
  then have "l = j" using co_invD(3) [OF assms(1,2)] co_invD(3) [OF assms(1)] by fastforce
  then show "same_holder l j'" using worker_moves_holder [OF assms(3)] by simp
qed

text \<open>So a step keeps the jobs' holders, takes jobs away, or is one of four that matter.\<close>

lemma co_step_cases:
  assumes "co_step lib al base64 (U, c) (U', c')" "co_inv U c"
  obtains (keeps) i f where "U' = U" "c' = update_job i f c" "\<forall>j. (i, j) \<in> set (co_jobs c) \<longrightarrow> same_holder j (f j)"
  | (fewer) P where "U' = U" "co_jobs c' = filter P (co_jobs c)"
  | (inserted) i ticket sid command cwd handle stream sz env r where "i \<notin> U" "ticket \<notin> U" "U' = insert i (insert ticket U)"
      "start_insert lib env i (managed_new sid command cwd i handle stream ticket sz) c = (r, c')"
  | (attached) ticket sid after_offset r where "ticket \<notin> U" "U' = insert ticket U" "attach_job ticket sid after_offset c = (r, c')"
  | (claimed) claim_id ticket r where "claim_id \<notin> U" "U' = insert claim_id U" "claim_job claim_id ticket c = (r, c')"
  | (released) claim where "U' = U" "c' = release_claim claim c"
  using assms(1)
proof (cases rule: co_step.cases)
  case (prepares te sid command sz terminal_type handle r)
  then show thesis using start_prepare_jobs fewer by metis
next
  case (writes claim bytes r)
  then show thesis using write_claimed_update [OF assms(2)] keeps by metis
next
  case (resizes claim sz r)
  then show thesis using resize_claimed_update keeps by metis
next
  case (works i j j')
  then show thesis using works_update [OF assms(2)] keeps by metis
next
  case (terminates te i r)
  then show thesis using terminate_jobs fewer by (metis snd_conv)
next
  case (ends_session te sid r)
  then have "co_jobs c' = filter (\<lambda>e. mp_session_id (snd e) \<noteq> sid) (co_jobs c)" by (auto simp: terminate_session_def Let_def)
  then show thesis using ends_session(1) fewer by blast
next
  case (ends_all te in_time r)
  then have "co_jobs c' = filter (\<lambda>_. False) (co_jobs c)" by (auto simp: shutdown_all_def Let_def)
  then show thesis using ends_all(1) fewer by blast
next
  case (outside h da)
  then have "co_jobs c' = co_jobs c" by simp
  then show thesis using outside(1) fewer all_filtered by metis
qed (use inserted attached claimed released in metis)+

lemma co_step_inv:
  assumes "co_step lib al base64 (U, c) (U', c')" "co_inv U c"
  shows "co_inv U' c' \<and> U \<subseteq> U'"
  using assms
proof (cases rule: co_step_cases)
  case (keeps i f)
  then show ?thesis using co_inv_same_holder [OF assms(2)] by simp
next
  case (fewer P)
  then show ?thesis using co_inv_subset [OF assms(2)] by simp
next
  case (inserted i ticket sid command cwd handle stream sz env r)
  then show ?thesis using start_insert_inv [OF assms(2)] by blast
next
  case (attached ticket sid after_offset r)
  then show ?thesis using attach_job_inv [OF assms(2)] by blast
next
  case (claimed claim_id ticket r)
  then show ?thesis using claim_job_inv [OF assms(2)] by blast
next
  case (released claim)
  then show ?thesis using release_claim_inv [OF assms(2)] by simp
qed

lemma in_update_job: "(k, j') \<in> set (co_jobs (update_job i f c)) \<longleftrightarrow> (\<exists>j. (k, j) \<in> set (co_jobs c) \<and> j' = (if k = i then f j else j))"
proof -
  have "(k, j') \<in> set (co_jobs (update_job i f c)) \<longleftrightarrow> (\<exists>e \<in> set (co_jobs c). (k, j') = (fst e, if fst e = i then f (snd e) else snd e))"
    by (simp add: update_job_def image_iff split_def)
  also have "\<dots> \<longleftrightarrow> (\<exists>j. (k, j) \<in> set (co_jobs c) \<and> j' = (if k = i then f j else j))"
    by (simp only: prod.inject Bex_def split_paired_Ex fst_conv snd_conv) blast
  finally show ?thesis .
qed

text \<open>A claim that is in force after a step was in force before it, or its identifier is new.\<close>

lemma co_step_claims:
  assumes "co_step lib al base64 (U, c) (U', c')" "co_inv U c" "(i, j') \<in> set (co_jobs c')" "mp_claimed j' = Some k" "k \<in> U"
  shows "\<exists>j. (i, j) \<in> set (co_jobs c) \<and> mp_claimed j = Some k"
  using assms(1,2)
proof (cases rule: co_step_cases)
  case (keeps m f)
  then show ?thesis using assms(3,4) by (auto simp: in_update_job same_holder_def split: if_splits)
next
  case (fewer P)
  then show ?thesis using assms(3,4) by auto
next
  case (inserted m ticket sid command cwd handle stream sz env r)
  then have "co_jobs c' = co_jobs c \<or> co_jobs c' = (m, managed_new sid command cwd m handle stream ticket sz) # co_jobs c"
    by (auto simp: start_insert_def Let_def split: if_splits)
  then show ?thesis using assms(3,4) by (auto simp: managed_new_def)
next
  case (attached ticket sid after_offset r)
  then have "c' = c \<or> (\<exists>m n. c' = update_job m (\<lambda>j. j\<lparr>mp_redraw_requested := True, mp_tickets := [(ticket, n)]\<rparr>) c)"
    by (simp add: attach_job_def Let_def split: option.splits if_splits prod.splits) blast+
  then consider "c' = c" | m n where "c' = update_job m (\<lambda>j. j\<lparr>mp_redraw_requested := True, mp_tickets := [(ticket, n)]\<rparr>) c" by blast
  then show ?thesis
  proof cases
    case (2 m n)
    then obtain j where j: "(i, j) \<in> set (co_jobs c)" "j' = (if i = m then j\<lparr>mp_redraw_requested := True, mp_tickets := [(ticket, n)]\<rparr> else j)"
      using assms(3) [unfolded 2 in_update_job] by blast
    then have "mp_claimed j = Some k" using assms(4) by (simp split: if_splits)
    with j(1) show ?thesis by blast
  qed (use assms(3,4) in blast)
next
  case (claimed claim_id ticket r)
  from claimed(3) show ?thesis
    by (cases rule: claim_job_cases) (use assms(3,4,5) claimed(1) in \<open>auto simp: in_update_job split: if_splits\<close>)
next
  case (released claim)
  then show ?thesis using assms(3,4) by (auto simp: release_claim_def in_update_job split: if_splits)
qed

lemma co_steps_inv:
  assumes "(co_step lib al base64)\<^sup>*\<^sup>* (U, c) (U', c')" "co_inv U c"
  shows "co_inv U' c' \<and> U \<subseteq> U'"
  using assms by (induction rule: rtranclp_induct2) (auto dest: co_step_inv)

lemma co_reachable_inv: "(co_step lib al base64)\<^sup>*\<^sup>* ({}, co_new h da) (U, c) \<Longrightarrow> co_inv U c"
  using co_steps_inv [of lib al base64 "{}" "co_new h da"] by (simp add: co_inv_def co_new_def)

lemma attach_job_claimed:
  assumes "co_inv U c" "(i, j) \<in> set (co_jobs c)" "mp_claimed j \<noteq> None"
  shows "attach_job ticket (mp_session_id j) after_offset c = (Err ''terminal job is already attached'', c)"
proof (cases "List.find (\<lambda>(_, l). mp_session_id l = mp_session_id j) (co_jobs c)")
  case None
  then show ?thesis using assms(2) by (force simp: find_None_iff)
next
  case (Some e)
  obtain k l where e: "e = (k, l)" by (cases e)
  have l: "(k, l) \<in> set (co_jobs c)" "mp_session_id l = mp_session_id j" using find_job [OF Some [unfolded e]] by blast+
  have "k = i" using co_invD(4) [OF assms(1) l(1) assms(2)] l(2) by (auto simp: apart_def)
  then have "l = j" using co_invD(3) [OF assms(1) l(1)] co_invD(3) [OF assms(1,2)] by simp
  then show ?thesis using Some e assms(3) by (simp add: attach_job_def)
qed

text \<open>
  C25. A terminal has one holder. However clients, workers and the rest of the daemon take turns, there
  are at most 64 terminal jobs and at most one for each session; while a client's claim on a job is in
  force, no other claim of that session is, nobody can get a ticket for it, and no ticket handed out
  before is still good.
\<close>

theorem terminal_has_one_holder:
  assumes "(co_step lib al base64)\<^sup>*\<^sup>* ({}, co_new h da) (U, c)"
  shows "length (co_jobs c) \<le> MAX_ACTIVE_PTYS \<and>
    (\<forall>i j i' j'. (i, j) \<in> set (co_jobs c) \<and> (i', j') \<in> set (co_jobs c) \<and> mp_session_id j = mp_session_id j' \<longrightarrow> i = i' \<and> j = j') \<and>
    (\<forall>claim j. get_claimed claim c = Ok j \<longrightarrow>
       (\<forall>claim' j'. get_claimed claim' c = Ok j' \<and> mp_session_id j' = mp_session_id j \<longrightarrow>
          pm_pty_id claim' = pm_pty_id claim \<and> pm_claim_id claim' = pm_claim_id claim) \<and>
       (\<forall>ticket after_offset. attach_job ticket (mp_session_id j) after_offset c = (Err ''terminal job is already attached'', c)) \<and>
       mp_tickets j = [])"
proof -
  have inv: "co_inv U c" by (rule co_reachable_inv [OF assms])
  have one: "i = i' \<and> j = j'" if "(i, j) \<in> set (co_jobs c)" "(i', j') \<in> set (co_jobs c)" "mp_session_id j = mp_session_id j'" for i j i' j'
    using that co_invD(3,4) [OF inv that(1)] co_invD(3) [OF inv that(2)] by (fastforce simp: apart_def)
  have "length (co_jobs c) \<le> MAX_ACTIVE_PTYS" using inv by (simp add: co_inv_def)
  moreover have "mp_tickets j = []" if "get_claimed claim c = Ok j" for claim j
    using that co_invD(2) [OF inv map_of_SomeD] by (fastforce simp: get_claimed_Ok job_ok_def)
  moreover have "attach_job ticket (mp_session_id j) after_offset c = (Err ''terminal job is already attached'', c)"
    if "get_claimed claim c = Ok j" for claim j ticket after_offset
    using that by (intro attach_job_claimed [OF inv]) (auto simp: get_claimed_Ok dest: map_of_SomeD)
  moreover have "pm_pty_id claim' = pm_pty_id claim \<and> pm_claim_id claim' = pm_claim_id claim"
    if "get_claimed claim c = Ok j" "get_claimed claim' c = Ok j'" "mp_session_id j' = mp_session_id j" for claim j claim' j'
    using that one [OF map_of_SomeD map_of_SomeD] by (fastforce simp: get_claimed_Ok)
  ultimately show ?thesis using one by blast
qed

lemma co_steps_claims:
  assumes "(co_step lib al base64)\<^sup>*\<^sup>* (U, c) (U', c')" "co_inv U c" "(i, j') \<in> set (co_jobs c')" "mp_claimed j' = Some k" "k \<in> U"
  shows "\<exists>j. (i, j) \<in> set (co_jobs c) \<and> mp_claimed j = Some k"
  using assms(1,3,4)
proof (induction arbitrary: j' rule: rtranclp_induct2)
  case (step V d V' d')
  have d: "co_inv V d" "U \<subseteq> V" using co_steps_inv [OF step.hyps(1) assms(2)] by simp_all
  then have "k \<in> V" using assms(5) by blast
  from co_step_claims [OF step.hyps(2) d(1) step.prems this] step.IH show ?case by blast
qed blast

text \<open>
  A claim that has ended never comes back. Once a claim's identifier has been used and the claim is
  no longer in force, because it was released or its job is gone, no later write, resize or read with
  it succeeds or changes anything.
\<close>

theorem ended_claim_stays_ended:
  assumes "(co_step lib al base64)\<^sup>*\<^sup>* ({}, co_new h da) (U, c)" "pm_claim_id claim \<in> U" "get_claimed claim c = Err e"
    and "(co_step lib al base64)\<^sup>*\<^sup>* (U, c) (U', c')"
  shows "(\<exists>e. write_claimed claim bytes c' = (Err e, c')) \<and> (\<exists>e. resize_claimed claim sz c' = (Err e, c')) \<and>
    (\<exists>e. read_claimed during claim cursor wait_ms c' = (Err e, c'))"
proof -
  have inv: "co_inv U c" by (rule co_reachable_inv [OF assms(1)])
  have "get_claimed claim c' \<noteq> Ok j" for j
  proof
    assume "get_claimed claim c' = Ok j"
    then have "(pm_pty_id claim, j) \<in> set (co_jobs c')" "mp_claimed j = Some (pm_claim_id claim)"
      by (auto simp: get_claimed_Ok dest: map_of_SomeD)
    from co_steps_claims [OF assms(4) inv this assms(2)] obtain l
      where l: "(pm_pty_id claim, l) \<in> set (co_jobs c)" "mp_claimed l = Some (pm_claim_id claim)" by blast
    then have "get_claimed claim c = Ok l" using co_invD(3) [OF inv l(1)] by (simp add: get_claimed_Ok)
    with assms(3) show False by simp
  qed
  then obtain e' where e': "get_claimed claim c' = Err e'" by (cases "get_claimed claim c'") auto
  then show ?thesis by (cases "validate_size sz") (simp_all add: write_claimed_def resize_claimed_def read_claimed_def)
qed

definition demo_coordinator :: "nat pty_coordinator" where
  "demo_coordinator = co_new (demo_created total_lib) da_disabled"

definition demo_claim :: pty_claim where
  "demo_claim = \<lparr>pm_pty_id = ''j'', pm_claim_id = ''k'', pm_cursor = 0\<rparr>"

definition demo_held :: "nat pty_coordinator" where
  "demo_held = demo_coordinator\<lparr>co_jobs := [(''j'', demo_job\<lparr>mp_tickets := [], mp_claimed := Some ''k''\<rparr>)]\<rparr>"

lemma demo_steps:
  "(co_step total_lib demo_audit_link id)\<^sup>*\<^sup>* ({}, demo_coordinator) ({''k'', ''j'', ''t''}, demo_held)"
proof -
  let ?c = "demo_coordinator\<lparr>co_jobs := [(''j'', demo_job)]\<rparr>"
  have "start_insert total_lib demo_session_env ''j'' (managed_new ''i'' ''cat'' ''/w'' ''j'' None None ''t'' demo_size) demo_coordinator = (Ok (), ?c)"
    by (simp add: start_insert_def Let_def demo_coordinator_def co_new_def demo_job_def MAX_ACTIVE_PTYS_def)
  then have 1: "co_step total_lib demo_audit_link id ({}, demo_coordinator) ({''j'', ''t''}, ?c)"
    by (rule co_step.inserts [rotated 2]) simp_all
  have "claim_job ''k'' ''t'' ?c = (Ok demo_claim, demo_held)"
    by (simp add: claim_job_def demo_job_def managed_new_def demo_claim_def demo_held_def update_job_def)
  then have 2: "co_step total_lib demo_audit_link id ({''j'', ''t''}, ?c) ({''k'', ''j'', ''t''}, demo_held)"
    by (rule co_step.claims [rotated]) simp
  from 1 2 show ?thesis by (meson rtranclp.rtrancl_into_rtrancl r_into_rtranclp)
qed

theorem terminal_has_one_holder_witness:
  "get_claimed demo_claim demo_held = Ok (demo_job\<lparr>mp_tickets := [], mp_claimed := Some ''k''\<rparr>) \<and>
   attach_job ''u'' ''i'' None demo_held = (Err ''terminal job is already attached'', demo_held)"
proof -
  have g: "get_claimed demo_claim demo_held = Ok (demo_job\<lparr>mp_tickets := [], mp_claimed := Some ''k''\<rparr>)"
    by (simp add: get_claimed_def demo_claim_def demo_held_def)
  have s: "mp_session_id (demo_job\<lparr>mp_tickets := [], mp_claimed := Some ''k''\<rparr>) = ''i''" by (simp add: demo_job_def managed_new_def)
  from terminal_has_one_holder [OF demo_steps [unfolded demo_coordinator_def]] g
  have "attach_job ''u'' (mp_session_id (demo_job\<lparr>mp_tickets := [], mp_claimed := Some ''k''\<rparr>)) None demo_held =
      (Err ''terminal job is already attached'', demo_held)" by blast
  with g s show ?thesis by simp
qed

theorem ended_claim_stays_ended_witness:
  "\<exists>e. write_claimed demo_claim ''x'' (release_claim demo_claim demo_held) = (Err e, release_claim demo_claim demo_held)"
proof -
  have "co_step total_lib demo_audit_link id ({''k'', ''j'', ''t''}, demo_held) ({''k'', ''j'', ''t''}, release_claim demo_claim demo_held)"
    by (rule co_step.releases)
  with demo_steps have s: "(co_step total_lib demo_audit_link id)\<^sup>*\<^sup>* ({}, demo_coordinator) ({''k'', ''j'', ''t''}, release_claim demo_claim demo_held)"
    by (rule rtranclp.rtrancl_into_rtrancl)
  have "pm_claim_id demo_claim \<in> {''k'', ''j'', ''t''}" by (simp add: demo_claim_def)
  moreover have "get_claimed demo_claim (release_claim demo_claim demo_held) = Err ''PTY stream claim is no longer active''"
    by (simp add: get_claimed_def demo_claim_def demo_held_def release_claim_def update_job_def)
  ultimately show ?thesis
    using ended_claim_stays_ended [OF s [unfolded demo_coordinator_def] _ _ rtranclp.rtrancl_refl] by blast
qed

end
