(* ===== verification/Daemon_Requests.thy ===== *)
theory Daemon_Requests
  imports Terminal_Jobs
begin

text \<open>
  The requests of a client connection (\<open>process_request\<close> and its helpers in
  \<^verbatim>\<open>crates/xshell-session/src/bin/xshelld.rs\<close>, the messages of \<^verbatim>\<open>protocol.rs\<close>). A connection has at most
  one current session; the registry, the turns, the terminal jobs and the audit connections are shared
  by all connections. Completion and the file viewer are parameters.
\<close>

section \<open>Messages\<close>

datatype session_request =
    RqOpen "32 word" string
  | RqList
  | RqCreate session_creation
  | RqAttach string attachment_role
  | RqSwitch string attachment_role
  | RqUpdate string model_binding string "chat_message list"
  | RqSnapshot string
  | RqSubmit string turn_input approval_policy "turn_limits option" "policy_config option"
  | RqEvents string nat nat
  | RqApprove string approval_reply
  | RqCancel string string
  | RqCompleteShell string string nat
  | RqViewSource string string
  | RqPtyStart string string pty_size "string option"
  | RqPtyAttach string "nat option"
  | RqPtyClose string
  | RqPtyClaim string
  | RqDetach
  | RqClose "string option"

datatype 'v session_response =
    RsOpened "32 word" string string string string
  | RsCatalog "session_descriptor list"
  | RsCreated session_snapshot
  | RsAttached session_snapshot attachment_role
  | RsUpdated session_descriptor
  | RsSnapshot session_snapshot
  | RsAccepted string
  | RsEvents event_batch
  | RsApprovalAccepted
  | RsCancellationAccepted
  | RsShellCompletions 'v
  | RsViewSource 'v
  | RsPtyStarted pty_ticket
  | RsPtyAttached pty_ticket
  | RsPtyClosed
  | RsPtyClaimed
  | RsDetached "string option"
  | RsClosed string
  | RsError string string

section \<open>The daemon\<close>

text \<open>The coordinator's registry and audit connections are the daemon's.\<close>

record 'p daemon =
  dm_ptys :: "'p pty_coordinator"
  dm_executions :: "(string \<times> execution_state) list"

record 'p request_setup =
  rq_lib :: session_lib
  rq_link :: "'p audit_link"
  rq_base64 :: "string \<Rightarrow> string"
  rq_json_len :: "session_event \<Rightarrow> nat"
  rq_policy :: daemon_policy
  rq_words :: shell_words

record ('p, 'v) request_env =
  re_session :: session_env
  re_submit :: "'p submit_env"
  re_terminal :: terminal_env
  re_meanwhile :: "'p pty_coordinator \<Rightarrow> 'p pty_coordinator"
  re_woken :: "execution_state list"
  re_home :: "(string, string) result"
  re_complete :: "string \<Rightarrow> nat \<Rightarrow> string \<Rightarrow> (string, 'v) result"
  re_view :: "string \<Rightarrow> string \<Rightarrow> (string, 'v) result"

abbreviation host_of :: "'p daemon \<Rightarrow> session_host" where
  "host_of d \<equiv> co_host (dm_ptys d)"

abbreviation registry_of :: "'p daemon \<Rightarrow> session_registry" where
  "registry_of d \<equiv> sh_registry (co_host (dm_ptys d))"

definition set_host :: "session_host \<Rightarrow> 'p daemon \<Rightarrow> 'p daemon" where
  "set_host h d = d\<lparr>dm_ptys := (dm_ptys d)\<lparr>co_host := h\<rparr>\<rparr>"

text \<open>A session without an entry has the execution state that an entry would start with.\<close>

definition execution_of :: "string \<Rightarrow> 'p daemon \<Rightarrow> execution_state" where
  "execution_of sid d = (case map_of (dm_executions d) sid of None \<Rightarrow> execution_new | Some x \<Rightarrow> x)"

definition set_execution :: "string \<Rightarrow> execution_state \<Rightarrow> 'p daemon \<Rightarrow> 'p daemon" where
  "set_execution sid x d = d\<lparr>dm_executions := AList.update sid x (dm_executions d)\<rparr>"

definition active_turn_of :: "string \<Rightarrow> 'p daemon \<Rightarrow> string option" where
  "active_turn_of sid d = map_option at_id (xs_active (execution_of sid d))"

text \<open>The turn itself goes on with its cancellation flag set until it notices.\<close>

definition cancel_and_remove :: "string \<Rightarrow> 'p daemon \<Rightarrow> 'p daemon" where
  "cancel_and_remove sid d = d\<lparr>dm_executions := AList.delete sid (dm_executions d)\<rparr>"

definition activity_of :: "string \<Rightarrow> 'p daemon \<Rightarrow> session_activity" where
  "activity_of sid d = (case job_activity sid (dm_ptys d) of None \<Rightarrow> activity (execution_of sid d) | Some a \<Rightarrow> a)"

definition descriptor_with_activity :: "'p daemon \<Rightarrow> session_descriptor \<Rightarrow> session_descriptor" where
  "descriptor_with_activity d descriptor = descriptor\<lparr>sd_activity := activity_of (sd_id descriptor) d\<rparr>"

definition with_activity :: "'p daemon \<Rightarrow> session_snapshot \<Rightarrow> session_snapshot" where
  "with_activity d = map_descriptor (descriptor_with_activity d)"

definition require_current :: "string option \<Rightarrow> string \<Rightarrow> (string, unit) result" where
  "require_current current sid =
     (if current \<noteq> Some sid then Err ''the requested session is not this connection's current session'' else Ok ())"

definition end_jobs :: "'p request_setup \<Rightarrow> ('p, 'v) request_env \<Rightarrow> string \<Rightarrow> 'p daemon \<Rightarrow> bool \<times> 'p daemon" where
  "end_jobs rq re sid d =
     (case terminate_session (rq_lib rq) (rq_link rq) (rq_base64 rq) (re_terminal re) sid (dm_ptys d) of
        (ended, c) \<Rightarrow> (ended, d\<lparr>dm_ptys := c\<rparr>))"

definition detach_session ::
  "'p request_setup \<Rightarrow> ('p, 'v) request_env \<Rightarrow> string \<Rightarrow> string \<Rightarrow> 'p daemon \<Rightarrow> ('p daemon, string, string option) outcome option" where
  "detach_session rq re client sid d =
     (case snapshot (registry_of d) sid of
        None \<Rightarrow> None
      | Some (Inl e) \<Rightarrow> Some (Err e, d)
      | Some (Inr s) \<Rightarrow>
          let d = (if sd_persistence (sn_descriptor s) = Ephemeral then snd (end_jobs rq re sid (cancel_and_remove sid d)) else d) in
          (case detach (rq_lib rq) (re_session re) client sid (host_of d) of (r, h) \<Rightarrow> Some (r, set_host h d)))"

definition detach_on_disconnect ::
  "'p request_setup \<Rightarrow> ('p, 'v) request_env \<Rightarrow> string \<Rightarrow> string option \<Rightarrow> 'p daemon \<Rightarrow> 'p daemon option" where
  "detach_on_disconnect rq re client current d =
     (case current of None \<Rightarrow> Some d | Some sid \<Rightarrow> map_option snd (detach_session rq re client sid d))"

section \<open>Requests\<close>

text \<open>The guards of a turn, and the turn.\<close>

definition check_submit :: "'p request_setup \<Rightarrow> string option \<Rightarrow> string \<Rightarrow> policy_config option \<Rightarrow> 'p daemon \<Rightarrow> (string, unit) result" where
  "check_submit rq current sid policy d =
     and_then (require_current current sid) (\<lambda>_.
       if has_session sid (dm_ptys d) then Err ''cannot start a turn while a PTY is active''
       else case policy of
              None \<Rightarrow> Ok ()
            | Some config \<Rightarrow> (case policy_parse (rq_words rq) config of
                                 Inl e \<Rightarrow> Err (''invalid client approval policy: '' @ e) | Inr _ \<Rightarrow> Ok ()))"

definition run_submit ::
  "'p request_setup \<Rightarrow> ('p, 'v) request_env \<Rightarrow> string \<Rightarrow> turn_input \<Rightarrow> approval_policy \<Rightarrow> turn_limits option \<Rightarrow> 'p daemon \<Rightarrow>
   ('p daemon, string, string) outcome option" where
  "run_submit rq re sid input approval limits d =
     map_option (\<lambda>(r, s). (r, set_execution sid (dn_execution s)
         (d\<lparr>dm_ptys := (dm_ptys d)\<lparr>co_host := dn_host s, co_audit := dn_audit s\<rparr>\<rparr>)))
       (submit (rq_lib rq) (rq_link rq) (rq_json_len rq) (re_submit re) (rq_policy rq) sid input approval limits
          \<lparr>dn_host = host_of d, dn_execution = execution_of sid d, dn_audit = co_audit (dm_ptys d)\<rparr>)"

text \<open>The guards of a terminal job, and the job.\<close>

definition check_start :: "string option \<Rightarrow> string \<Rightarrow> 'p daemon \<Rightarrow> (string, unit) result" where
  "check_start current sid d =
     and_then (require_current current sid) (\<lambda>_.
       if active_turn_of sid d \<noteq> None then Err ''cannot start a PTY while a turn is active'' else Ok ())"

definition run_start ::
  "'p request_setup \<Rightarrow> ('p, 'v) request_env \<Rightarrow> string \<Rightarrow> string \<Rightarrow> pty_size \<Rightarrow> string option \<Rightarrow> 'p daemon \<Rightarrow>
   ('p daemon, string, pty_ticket) outcome option" where
  "run_start rq re sid command sz terminal_type d =
     (case snapshot (registry_of d) sid of
        None \<Rightarrow> None
      | Some (Inl e) \<Rightarrow> Some (Err e, d)
      | Some (Inr s) \<Rightarrow>
          let c = dm_ptys d;
              own = sd_id (sn_descriptor s);
              da = da_session (rq_link rq) (su_fresh_link (re_submit re)) own (audit_descriptor_of (sn_descriptor s)) (co_audit c)
          in (case start_inner (rq_lib rq) (rq_link rq) (rq_base64 rq) (re_terminal re) (re_meanwhile re) sid command
                     (sd_cwd (sn_descriptor s)) sz terminal_type (Some (own, da_terminal_stream da)) (c\<lparr>co_audit := da\<rparr>) of
                (r, c) \<Rightarrow> Some (r, d\<lparr>dm_ptys := c\<rparr>)))"

definition run_update ::
  "'p request_setup \<Rightarrow> ('p, 'v) request_env \<Rightarrow> string \<Rightarrow> string option \<Rightarrow> string \<Rightarrow> model_binding \<Rightarrow> string \<Rightarrow> chat_message list \<Rightarrow> 'p daemon \<Rightarrow>
   ('p daemon, string, session_descriptor) outcome option" where
  "run_update rq re client current sid model cwd history d =
     (case require_current current sid of
        Inl e \<Rightarrow> Some (Err e, d)
      | Inr _ \<Rightarrow>
          if active_turn_of sid d \<noteq> None then Some (Err ''cannot replace session state while a turn is active'', d)
          else if has_session sid (dm_ptys d) then
            (case sv_cwd (re_session re) cwd of
               Inl e \<Rightarrow> Some (Err e, d)
             | Inr cwd \<Rightarrow>
                 (case snapshot (registry_of d) sid of
                    None \<Rightarrow> None
                  | Some (Inl e) \<Rightarrow> Some (Err e, d)
                  | Some (Inr s) \<Rightarrow>
                      if sd_model (sn_descriptor s) = model \<and> sd_cwd (sn_descriptor s) = cwd \<and> sn_history s = history
                      then Some (Ok (descriptor_with_activity d (sn_descriptor s)), d)
                      else Some (Err ''cannot replace session state while a PTY is active'', d)))
          else (case update_session (rq_lib rq) (re_session re) client sid model cwd history (host_of d) of
                  (r, h) \<Rightarrow> let d = set_host h d in Some (map_sum id (descriptor_with_activity d) r, d)))"

text \<open>Taking up a session that the registry has already given to the client: the previous one is left first.\<close>

definition take_up ::
  "'p request_setup \<Rightarrow> ('p, 'v) request_env \<Rightarrow> string \<Rightarrow> bool \<Rightarrow> session_snapshot \<Rightarrow> (session_snapshot \<Rightarrow> 'v session_response) \<Rightarrow>
   string option \<times> 'p daemon \<Rightarrow> (string option \<times> 'p daemon, string, 'v session_response) outcome option" where
  "take_up rq re client always s response cd =
     (case cd of (current, d) \<Rightarrow>
        let i = sd_id (sn_descriptor s); ready = (\<lambda>d. Some (Ok (response (with_activity d s)), (Some i, d))) in
        case current of
          None \<Rightarrow> ready d
        | Some previous \<Rightarrow>
            if previous = i \<and> \<not> always then ready d
            else (case detach_session rq re client previous d of
                    None \<Rightarrow> None
                  | Some (Inl e, d) \<Rightarrow> Some (Err e, (None, d))
                  | Some (Inr _, d) \<Rightarrow> ready d))"

text \<open>Only after the registry has agreed to the close does the work of the session end.\<close>

definition end_session :: "'p request_setup \<Rightarrow> ('p, 'v) request_env \<Rightarrow> string \<Rightarrow> 'p daemon \<Rightarrow> 'p daemon" where
  "end_session rq re i d =
     (let d = cancel_and_remove i (snd (end_jobs rq re i d));
          da = snd (da_close_session (rq_link rq) i ''session closed'' (co_audit (dm_ptys d)))
      in d\<lparr>dm_ptys := (dm_ptys d)\<lparr>co_audit := da\<rparr>\<rparr>)"

definition run_close ::
  "'p request_setup \<Rightarrow> ('p, 'v) request_env \<Rightarrow> string \<Rightarrow> string option \<Rightarrow> string option \<times> 'p daemon \<Rightarrow>
   (string option \<times> 'p daemon, string, 'v session_response) outcome option" where
  "run_close rq re client selector cd =
     (case cd of (current, d) \<Rightarrow>
        case (case selector of None \<Rightarrow> current | Some s \<Rightarrow> Some s) of
          None \<Rightarrow> Some (Err ''close requires a session selector when detached'', cd)
        | Some s \<Rightarrow>
            (case close_session (rq_lib rq) (re_session re) client s (host_of d) of
               None \<Rightarrow> None
             | Some (Inl e, h) \<Rightarrow> Some (Err e, (current, set_host h d))
             | Some (Inr i, h) \<Rightarrow>
                 Some (Ok (RsClosed i), (if current = Some i then None else current, end_session rq re i (set_host h d)))))"

text \<open>The result of an operation on the shared state as the answer to a request that keeps the current session.\<close>

definition answer ::
  "string option \<Rightarrow> ('a \<Rightarrow> 'v session_response) \<Rightarrow> ('p daemon, string, 'a) outcome option \<Rightarrow>
   (string option \<times> 'p daemon, string, 'v session_response) outcome option" where
  "answer current response r = map_option (\<lambda>(r, d). (map_sum id response r, (current, d))) r"

fun process_request ::
  "'p request_setup \<Rightarrow> ('p, 'v) request_env \<Rightarrow> string \<Rightarrow> session_request \<Rightarrow> string option \<times> 'p daemon \<Rightarrow>
   (string option \<times> 'p daemon, string, 'v session_response) outcome option" where
  "process_request rq re client (RqOpen version client_version) (current, d) = Some (Err ''connection is already open'', (current, d))"
| "process_request rq re client RqList (current, d) =
     Some (Ok (RsCatalog (map (descriptor_with_activity d) (list_sessions (registry_of d)))), (current, d))"
| "process_request rq re client (RqCreate creation) (current, d) =
     (case (if sc_cwd creation = ''~'' then map_sum id (\<lambda>home. creation\<lparr>sc_cwd := home\<rparr>) (re_home re) else Ok creation) of
        Inl e \<Rightarrow> Some (Err e, (current, d))
      | Inr creation \<Rightarrow>
          (case create_session (rq_lib rq) (re_session re) client creation (host_of d) of
             (Inl e, h) \<Rightarrow> Some (Err e, (current, set_host h d))
           | (Inr s, h) \<Rightarrow> take_up rq re client True s RsCreated (current, set_host h d)))"
| "process_request rq re client (RqAttach selector wanted) (current, d) =
     (if current \<noteq> None then Some (Err ''detach the current session before attaching another one'', (current, d))
      else case attach_session (re_session re) client selector wanted (host_of d) of
             None \<Rightarrow> None
           | Some (Inl e, h) \<Rightarrow> Some (Err e, (current, set_host h d))
           | Some (Inr s, h) \<Rightarrow>
               let d = set_host h d in
               Some (Ok (RsAttached (with_activity d s) wanted), (Some (sd_id (sn_descriptor s)), d)))"
| "process_request rq re client (RqSwitch selector wanted) (current, d) =
     (case attach_session (re_session re) client selector wanted (host_of d) of
        None \<Rightarrow> None
      | Some (Inl e, h) \<Rightarrow> Some (Err e, (current, set_host h d))
      | Some (Inr s, h) \<Rightarrow> take_up rq re client False s (\<lambda>s. RsAttached s wanted) (current, set_host h d))"
| "process_request rq re client (RqUpdate sid model cwd history) (current, d) =
     answer current RsUpdated (run_update rq re client current sid model cwd history d)"
| "process_request rq re client (RqSnapshot sid) (current, d) =
     (case require_current current sid of
        Inl e \<Rightarrow> Some (Err e, (current, d))
      | Inr _ \<Rightarrow> map_option (\<lambda>r. (map_sum id (\<lambda>s. RsSnapshot (with_activity d s)) r, (current, d))) (snapshot (registry_of d) sid))"
| "process_request rq re client (RqSubmit sid input approval limits policy) (current, d) =
     (case check_submit rq current sid policy d of
        Inl e \<Rightarrow> Some (Err e, (current, d))
      | Inr _ \<Rightarrow> answer current RsAccepted (run_submit rq re sid input approval limits d))"
| "process_request rq re client (RqEvents sid after_sequence wait_ms) (current, d) =
     (case require_current current sid of
        Inl e \<Rightarrow> Some (Err e, (current, d))
      | Inr _ \<Rightarrow> Some (Ok (RsEvents (events after_sequence (re_woken re) (execution_of sid d))), (current, d)))"
| "process_request rq re client (RqApprove sid reply) (current, d) =
     (case require_current current sid of
        Inl e \<Rightarrow> Some (Err e, (current, d))
      | Inr _ \<Rightarrow> (case approve reply (execution_of sid d) of
                    (r, x) \<Rightarrow> Some (map_sum id (\<lambda>_. RsApprovalAccepted) r, (current, set_execution sid x d))))"
| "process_request rq re client (RqCancel sid turn_id) (current, d) =
     (case require_current current sid of
        Inl e \<Rightarrow> Some (Err e, (current, d))
      | Inr _ \<Rightarrow> (case cancel turn_id (execution_of sid d) of
                    (r, x) \<Rightarrow> Some (map_sum id (\<lambda>_. RsCancellationAccepted) r, (current, set_execution sid x d))))"
| "process_request rq re client (RqCompleteShell sid line cursor) (current, d) =
     map_option (\<lambda>r. (map_sum id RsShellCompletions (and_then r (\<lambda>s. re_complete re line cursor (sd_cwd (sn_descriptor s)))), (current, d)))
       (snapshot (registry_of d) sid)"
| "process_request rq re client (RqViewSource sid path) (current, d) =
     (case require_current current sid of
        Inl e \<Rightarrow> Some (Err e, (current, d))
      | Inr _ \<Rightarrow>
          map_option (\<lambda>r. (map_sum id RsViewSource (and_then r (\<lambda>s. re_view re path (sd_cwd (sn_descriptor s)))), (current, d)))
            (snapshot (registry_of d) sid))"
| "process_request rq re client (RqPtyStart sid command sz terminal_type) (current, d) =
     (case check_start current sid d of
        Inl e \<Rightarrow> Some (Err e, (current, d))
      | Inr _ \<Rightarrow> answer current RsPtyStarted (run_start rq re sid command sz terminal_type d))"
| "process_request rq re client (RqPtyAttach sid after_offset) (current, d) =
     (case require_current current sid of
        Inl e \<Rightarrow> Some (Err e, (current, d))
      | Inr _ \<Rightarrow> (case attach_job (te_uuid (re_terminal re)) sid after_offset (dm_ptys d) of
                    (r, c) \<Rightarrow> answer current RsPtyAttached (Some (r, d\<lparr>dm_ptys := c\<rparr>))))"
| "process_request rq re client (RqPtyClose sid) (current, d) =
     (case require_current current sid of
        Inl e \<Rightarrow> Some (Err e, (current, d))
      | Inr _ \<Rightarrow> (case end_jobs rq re sid d of
                    (ended, d) \<Rightarrow> Some (if ended then Ok RsPtyClosed else Err ''session has no interactive process'', (current, d))))"
| "process_request rq re client (RqPtyClaim ticket) (current, d) = Some (Err ''PTY claims require a dedicated connection'', (current, d))"
| "process_request rq re client RqDetach (current, d) =
     (case current of
        None \<Rightarrow> Some (Ok (RsDetached None), (None, d))
      | Some sid \<Rightarrow> answer None RsDetached (detach_session rq re client sid d))"
| "process_request rq re client (RqClose selector) (current, d) = run_close rq re client selector (current, d)"

section \<open>Who controls a session\<close>

text \<open>What the registry says about the controllers of a session.\<close>

definition controllers :: "session_host \<Rightarrow> string \<Rightarrow> string list option" where
  "controllers h i = map_option se_attachments (map_of (rg_sessions (sh_registry h)) i)"

text \<open>Changes of the registry on behalf of turns and terminal jobs.\<close>

inductive quiet :: "session_lib \<Rightarrow> session_host \<Rightarrow> session_host \<Rightarrow> bool" for lib where
  quiet_refl: "quiet lib h h"
| quiet_begin: "quiet lib h h' \<Longrightarrow> quiet lib h (snd (begin_execution lib env sid op route h'))"
| quiet_finish: "quiet lib h h' \<Longrightarrow> quiet lib h (snd (finish_execution lib env sid op h'))"
| quiet_terminal: "quiet lib h h' \<Longrightarrow> quiet lib h (snd (update_execution_state lib env sid cwd history h'))"

lemma begin_execution_sessions: "rg_sessions (sh_registry (snd (begin_execution lib env sid op route h))) = rg_sessions (sh_registry h)"
  by (simp add: begin_execution_def Let_def split: option.splits prod.splits sum.splits)

lemma finish_execution_sessions: "rg_sessions (sh_registry (snd (finish_execution lib env sid op h))) = rg_sessions (sh_registry h)"
  by (simp add: finish_execution_def Let_def persisting_registry split: option.splits)

lemma update_execution_state_controllers: "controllers (snd (update_execution_state lib env sid cwd history h)) = controllers h"
  by (auto simp: update_execution_state_def controllers_def Let_def persisting_registry changed_record_def touched_record_def
      split: sum.splits option.splits)

lemma quiet_controllers: "quiet lib h h' \<Longrightarrow> controllers h' = controllers h"
  by (induction rule: quiet.induct)
    (simp_all add: update_execution_state_controllers, simp_all add: controllers_def begin_execution_sessions finish_execution_sessions fun_eq_iff)

lemma quiet_inv: "quiet lib h h' \<Longrightarrow> reg_inv (sh_registry h) \<Longrightarrow> reg_inv (sh_registry h')"
  by (induction rule: quiet.induct) (auto intro: begin_execution_inv finish_execution_inv update_execution_state_inv)

lemma quiet_trans: "quiet lib h' h'' \<Longrightarrow> quiet lib h h' \<Longrightarrow> quiet lib h h''"
  by (induction rule: quiet.induct) (auto intro: quiet.intros)

lemma finish_end_quiet: "quiet lib (fst s) (fst (snd (finish_end lib env al status j s)))"
  by (auto simp: finish_end_def Let_def split: prod.split intro: quiet.intros)

lemma finish_quiet: "quiet lib (fst s) (fst (snd (finish lib env al status j s)))"
  by (auto simp: finish_def finish_end_quiet split: prod.split bool.split intro: quiet.intros)

lemma worker_result_quiet: "quiet lib (fst s) (fst (snd (worker_result lib env al base64 input r j s)))"
proof (cases r)
  case (Inr chunk)
  obtain h da where s: "s = (h, da)" by (cases s)
  let ?accepted = "min (ch_input_accepted chunk) (length input)"
  obtain j1 da1 where 1: "record_stream al base64 ''input'' (take ?accepted input) (j, da) = (j1, da1)" by (metis prod.collapse)
  obtain j2 da2 where 2: "record_stream al base64 ''output'' (ch_output chunk) (j1, da1) = (j2, da2)" by (metis prod.collapse)
  have "worker_result lib env al base64 input r j s =
      (case ch_status chunk of None \<Rightarrow> (worker_exchanged input chunk j2, h, da2)
       | Some status \<Rightarrow> finish lib env al status (worker_exchanged input chunk j2) (h, da2))"
    by (simp add: worker_result_def Inr s Let_def 1 2)
  then show ?thesis
    using finish_quiet [of lib "(h, da2)"] by (cases "ch_status chunk") (simp_all add: s quiet_refl)
qed (simp add: worker_result_def finish_quiet)

lemma shutdown_job_quiet: "quiet lib (fst s) (fst (snd (shutdown_job lib env al base64 under_way j s)))"
proof -
  let ?j = "j\<lparr>mp_shutdown := True\<rparr>"
  have "quiet lib (fst s) (fst (snd (finish lib env al ''terminated'' (fst w) (snd w))))"
    if "w = worker_result lib env al base64 input r ?j s" for w input r
    using quiet_trans [OF finish_quiet] worker_result_quiet that by blast
  then show ?thesis
    by (auto simp: shutdown_job_def Let_def finish_end_quiet finish_quiet quiet_refl split: option.split prod.split)
       (metis fst_conv snd_conv)
qed

lemma shut_quiet: "quiet lib (co_host c) (co_host (shut lib al base64 te j c))"
  using shutdown_job_quiet [of lib "(co_host c, co_audit c)" "te_session_env te" al base64 "te_under_way te" j]
  by (auto simp: shut_def split: prod.split)

lemma fold_shut_quiet: "quiet lib (co_host c) (co_host (fold (shut lib al base64 te) js c))"
proof (induction js arbitrary: c)
  case (Cons j js)
  show ?case using quiet_trans [OF Cons shut_quiet] by simp
qed (simp add: quiet_refl)

lemma terminate_quiet: "quiet lib (co_host c) (co_host (snd (terminate lib al base64 te i c)))"
  using shut_quiet [of lib "remove_job i c"] by (auto simp: terminate_def remove_job_def quiet_refl split: option.split)

lemma terminate_session_quiet: "quiet lib (co_host c) (co_host (snd (terminate_session lib al base64 te sid c)))"
  using fold_shut_quiet [of lib "c\<lparr>co_jobs := filter (\<lambda>e. mp_session_id (snd e) \<noteq> sid) (co_jobs c)\<rparr>"]
  by (simp add: terminate_session_def Let_def)

lemma start_prepare_quiet:
  assumes "start_prepare lib al base64 te sid command sz terminal_type handle c = (r, c')"
  shows "quiet lib (co_host c) (co_host c')"
proof -
  let ?c = "remove_completed_for_session lib al base64 te sid c"
  have rm: "quiet lib (co_host c) (co_host ?c)"
    using terminate_quiet by (auto simp: remove_completed_for_session_def quiet_refl split: option.split prod.split)
  have "co_host c' = co_host c \<or> co_host c' = co_host ?c \<or> (\<exists>env op route. co_host c' = snd (begin_execution lib env sid op route (co_host ?c))) \<or>
      (\<exists>env op route. co_host c' = snd (finish_execution lib env sid op (snd (begin_execution lib env sid op route (co_host ?c)))))"
    using assms by (auto simp: start_prepare_def Let_def split: if_splits sum.splits prod.splits; metis snd_conv)
  then show ?thesis using rm by (elim disjE exE) (simp_all add: quiet_refl quiet_begin quiet_finish)
qed

lemma start_insert_quiet:
  assumes "start_insert lib env i j c = (r, c')"
  shows "quiet lib (co_host c) (co_host c')"
  using assms quiet_finish [OF quiet_refl] by (auto simp: start_insert_def Let_def quiet_refl split: if_splits)

lemma submit_quiet:
  assumes "submit lib al json_len su dp sid input ra rl s = Some (r, s')"
  shows "quiet lib (dn_host s) (dn_host s')"
proof -
  have start: "quiet lib (dn_host m) (dn_host m')" if "start_turn lib json_len su dp snap sid input ra rl m = Some (r', m')" for snap m m' r'
  proof -
    let ?env = "su_session_env su" and ?own = "sd_id (sn_descriptor snap)" and ?op = "su_turn_id su"
    let ?h = "snd (begin_execution lib ?env ?own ?op (fst (audit_route input)) (dn_host m))"
    have "dn_host m' = ?h \<or> (\<exists>k. dn_host m' = snd (finish_execution lib ?env k ?op ?h))"
      using that by (auto simp: start_turn_def Let_def split: prod.splits sum.splits option.splits if_splits; metis snd_conv)
    then show ?thesis by (elim disjE exE) (simp_all add: quiet_refl quiet_begin quiet_finish)
  qed
  show ?thesis
    using assms start
    by (auto simp: submit_def Let_def quiet_refl split: if_splits option.splits sum.splits prod.splits) fastforce
qed

text \<open>A job of a session that has not ended.\<close>

lemma has_session_iff: "has_session sid c \<longleftrightarrow> (\<exists>i j. (i, j) \<in> set (co_jobs c) \<and> mp_session_id j = sid \<and> mp_exit_status j = None)"
  by (auto simp: has_session_def list_ex_iff)

lemma has_session_filter: "co_jobs c' = filter P (co_jobs c) \<Longrightarrow> has_session sid c' \<Longrightarrow> has_session sid c"
  unfolding has_session_iff by (metis filter_is_subset subsetD)

lemma terminate_session_live: "has_session i (snd (terminate_session lib al base64 te sid c)) \<longleftrightarrow> i \<noteq> sid \<and> has_session i c"
  unfolding has_session_iff by (auto simp: terminate_session_def Let_def)

lemma start_insert_live:
  assumes "start_insert lib env i j c = (r, c')" "has_session k c'"
  shows "has_session k c \<or> k = mp_session_id j"
proof -
  have "co_jobs c' = co_jobs c \<or> co_jobs c' = (i, j) # co_jobs c" using assms(1) by (auto simp: start_insert_def Let_def split: if_splits)
  then show ?thesis
  proof
    assume "co_jobs c' = (i, j) # co_jobs c"
    then show ?thesis using assms(2) unfolding has_session_iff by (simp only: list.set insert_iff prod.inject) blast
  qed (use assms(2) in \<open>simp add: has_session_def\<close>)
qed

lemma has_session_update:
  assumes "has_session sid (update_job i f c)" "\<And>j. (i, j) \<in> set (co_jobs c) \<Longrightarrow> mp_session_id (f j) = mp_session_id j \<and> (mp_exit_status (f j) = None \<longrightarrow> mp_exit_status j = None)"
  shows "has_session sid c"
proof -
  obtain k l where "(k, l) \<in> set (co_jobs (update_job i f c))" "mp_session_id l = sid" "mp_exit_status l = None"
    using assms(1) unfolding has_session_iff by blast
  then obtain j where "(k, j) \<in> set (co_jobs c)" "l = (if k = i then f j else j)" unfolding in_update_job by blast
  then show ?thesis using assms(2) \<open>mp_session_id l = sid\<close> \<open>mp_exit_status l = None\<close> unfolding has_session_iff
    by (cases "k = i") (simp, blast)+
qed

lemma controllers_set: "sh_registry h' = set_session i q (sh_registry h) \<Longrightarrow> controllers h' = (controllers h)(i := Some (se_attachments q))"
  by (simp add: controllers_def fun_eq_iff)

lemma controllers_remove: "sh_registry h' = remove_session i (sh_registry h) \<Longrightarrow> controllers h' = (controllers h)(i := None)"
  by (simp add: controllers_def fun_eq_iff)

lemma attach_session_controllers:
  assumes "attach_session env client selector wanted h = Some (r, h')" "reg_inv (sh_registry h)"
  shows "controllers h' = controllers h \<and> (\<forall>s. r \<noteq> Ok s) \<or>
    (\<exists>i as. controllers h i = Some as \<and> set as \<subseteq> {client} \<and> controllers h' = (controllers h)(i := Some [client]) \<and>
       (\<forall>s. r = Ok s \<longrightarrow> sd_id (sn_descriptor s) = i))"
proof (cases "\<exists>i q. resolve (sh_registry h) selector = Ok i \<and> map_of (rg_sessions (sh_registry h)) i = Some q \<and> wanted = Owner \<and>
    (se_attachments q = [] \<or> client \<in> set (se_attachments q))")
  case True
  then obtain i q where q: "resolve (sh_registry h) selector = Ok i" "map_of (rg_sessions (sh_registry h)) i = Some q" "wanted = Owner"
    "se_attachments q = [] \<or> client \<in> set (se_attachments q)" by blast
  have ok: "record_ok i q" by (rule reg_invD(3) [OF assms(2) q(2)])
  then have as: "set (se_attachments q) \<subseteq> {client}" "List.insert client (se_attachments q) = [client]"
    using q(4) by (auto simp: record_ok_def List.insert_def length_Suc_conv le_Suc_eq)
  have "\<exists>q'. sh_registry h' = set_session i q' (sh_registry h) \<and> se_attachments q' = [client]"
  proof (cases "sv_now env")
    case (Inl e)
    then have "sh_registry h' = set_session i (q\<lparr>se_attachments := [client]\<rparr>) (sh_registry h)"
      using assms(1) q(1-3) as by (auto simp: attach_session_def Let_def split: if_splits)
    moreover have "se_attachments (q\<lparr>se_attachments := [client]\<rparr>) = [client]" by simp
    ultimately show ?thesis by blast
  next
    case (Inr now)
    then have "sh_registry h' = set_session i (map_snapshot (map_descriptor (\<lambda>d. d\<lparr>sd_last_active_at := now\<rparr>)) (q\<lparr>se_attachments := [client]\<rparr>)) (sh_registry h)"
      using assms(1) q(1-3) as by (auto simp: attach_session_def Let_def split: if_splits)
    moreover have "se_attachments (map_snapshot (map_descriptor (\<lambda>d. d\<lparr>sd_last_active_at := now\<rparr>)) (q\<lparr>se_attachments := [client]\<rparr>)) = [client]" by simp
    ultimately show ?thesis by blast
  qed
  moreover have "\<forall>s. r = Ok s \<longrightarrow> sd_id (sn_descriptor s) = i"
    using assms(1) q ok as(2)
    by (auto simp: attach_session_def Let_def record_ok_def snapshot_with_status_def descriptor_with_status_def split: sum.splits)
  moreover have "controllers h i = Some (se_attachments q)" using q(2) by (simp add: controllers_def)
  ultimately show ?thesis using as(1) controllers_set by metis
next
  case False
  then have "h' = h \<and> (\<forall>s. r \<noteq> Ok s)"
    using assms(1) by (auto simp: attach_session_def Let_def split: if_splits sum.splits option.splits)
  then show ?thesis by simp
qed

lemma create_session_controllers:
  assumes "create_session lib env client c h = (r, h')"
  shows "controllers h' = controllers h \<and> (\<forall>s. r \<noteq> Ok s) \<or>
    controllers h' = (controllers h)(sv_uuid env := Some [client]) \<and> (\<forall>s. r = Ok s \<longrightarrow> sd_id (sn_descriptor s) = sv_uuid env)"
proof -
  have new: "controllers h'' = (controllers h)(sv_uuid env := Some [client]) \<and> (\<forall>s. r' = Ok s \<longrightarrow> s = snap)"
    if "persisting lib env (set_session (sv_uuid env) \<lparr>se_snapshot = snap, se_attachments = [client]\<rparr> (sh_registry h)) snap h = (r', h'')" for snap r' h''
  proof -
    have "sh_registry h'' = set_session (sv_uuid env) \<lparr>se_snapshot = snap, se_attachments = [client]\<rparr> (sh_registry h)"
      using that persisting_registry by (metis snd_conv)
    then have "controllers h'' = (controllers h)(sv_uuid env := Some [client])" by (simp add: controllers_set)
    moreover have "\<forall>s. r' = Ok s \<longrightarrow> s = snap" using that by (fastforce simp: persisting_def split: prod.splits sum.splits)
    ultimately show ?thesis by blast
  qed
  show ?thesis
    using assms by (auto simp: create_session_def Let_def new_descriptor_def dest!: new split: sum.splits if_splits)
qed

lemma detach_controllers:
  assumes "detach lib env client sid h = (r, h')"
  shows "controllers h' = controllers h \<or> (\<exists>as. controllers h sid = Some as \<and>
    (controllers h' = (controllers h)(sid := Some (removeAll client as)) \<or> controllers h' = (controllers h)(sid := None)))"
proof (cases "map_of (rg_sessions (sh_registry h)) sid")
  case (Some q)
  let ?left = "q\<lparr>se_attachments := removeAll client (se_attachments q)\<rparr>"
  have "sh_registry h' = set_session sid ?left (sh_registry h) \<or> sh_registry h' = remove_session sid (sh_registry h)"
    using assms Some persisting_registry [of lib env "if se_attachments ?left = [] \<and> sd_persistence (descriptor_of ?left) = Ephemeral
             then remove_session sid (sh_registry h) else set_session sid ?left (sh_registry h)" "Some sid" h]
    by (simp add: detach_def Let_def split: if_splits)
  moreover have "controllers h sid = Some (se_attachments q)" using Some by (simp add: controllers_def)
  ultimately show ?thesis using controllers_set [of h' sid ?left h] controllers_remove [of h' sid h] by auto
qed (use assms in \<open>simp add: detach_def\<close>)

lemma close_session_controllers:
  assumes "close_session lib env client selector h = Some (r, h')"
  shows "controllers h' = controllers h \<and> (\<forall>k. r \<noteq> Ok k) \<or>
    (\<exists>i as. controllers h i = Some as \<and> set as \<subseteq> {client} \<and> controllers h' = (controllers h)(i := None) \<and> (\<forall>k. r = Ok k \<longrightarrow> k = i))"
proof (cases "\<exists>i q. resolve (sh_registry h) selector = Ok i \<and> map_of (rg_sessions (sh_registry h)) i = Some q \<and> \<not> list_ex (\<lambda>a. a \<noteq> client) (se_attachments q)")
  case True
  then obtain i q where q: "resolve (sh_registry h) selector = Ok i" "map_of (rg_sessions (sh_registry h)) i = Some q"
    "set (se_attachments q) \<subseteq> {client}" by (auto simp: list_ex_iff)
  have p: "persisting lib env (remove_session i (sh_registry h)) i h = (r, h')" using assms True q by (auto simp: close_session_def Let_def)
  then have "sh_registry h' = remove_session i (sh_registry h)" "\<forall>k. r = Ok k \<longrightarrow> k = i"
    using persisting_registry [of lib env "remove_session i (sh_registry h)" i h] by (auto simp: persisting_def split: prod.splits sum.splits)
  moreover have "controllers h i = Some (se_attachments q)" using q(2) by (simp add: controllers_def)
  ultimately show ?thesis using q(3) controllers_remove by metis
next
  case False
  then have "h' = h \<and> (\<forall>k. r \<noteq> Ok k)" using assms by (auto simp: close_session_def Let_def split: sum.splits option.splits if_splits)
  then show ?thesis by simp
qed

lemma update_session_controllers: "controllers (snd (update_session lib env client sid model cwd history h)) = controllers h"
  by (auto simp: update_session_def controllers_def Let_def persisting_registry changed_record_def touched_record_def
      split: sum.splits option.splits)

section \<open>What a request may change\<close>

text \<open>A session that a client may take, change or drop: a new one, or one without any other controller.\<close>

definition mine :: "string \<Rightarrow> string set \<Rightarrow> (string \<Rightarrow> string list option) \<Rightarrow> string \<Rightarrow> bool" where
  "mine client U att i \<longleftrightarrow> att i = None \<and> i \<notin> U \<or> (\<exists>as. att i = Some as \<and> set as \<subseteq> {client})"

definition moves_for ::
  "string \<Rightarrow> string set \<Rightarrow> string option \<Rightarrow> (string \<Rightarrow> string list option) \<Rightarrow> string option \<Rightarrow> (string \<Rightarrow> string list option) \<Rightarrow> bool" where
  "moves_for client U current att current' att' \<longleftrightarrow>
     (\<forall>i. att' i \<noteq> att i \<longrightarrow> mine client U att i) \<and>
     (\<forall>i as. current' = Some i \<and> att' i = Some as \<longrightarrow> as = [client]) \<and>
     (current' = None \<or> current' = current \<or> (\<exists>i. current' = Some i \<and> mine client U att i \<and> att' i \<noteq> None))"

text \<open>Neither turns nor terminal jobs come into being.\<close>

definition no_new_work :: "'p daemon \<Rightarrow> 'p daemon \<Rightarrow> bool" where
  "no_new_work d d' \<longleftrightarrow>
     (\<forall>i. has_session i (dm_ptys d') \<longrightarrow> has_session i (dm_ptys d)) \<and> (\<forall>i. active_turn_of i d' \<noteq> None \<longrightarrow> active_turn_of i d \<noteq> None)"

lemma no_new_work_refl [simp]: "no_new_work d d"
  by (simp add: no_new_work_def)

lemma no_new_work_trans: "no_new_work d d' \<Longrightarrow> no_new_work d' d'' \<Longrightarrow> no_new_work d d''"
  by (simp add: no_new_work_def)

lemma no_new_work_set_host [simp]: "no_new_work d (set_host h d)" "no_new_work (set_host h d) d"
  by (simp_all add: no_new_work_def set_host_def has_session_def active_turn_of_def execution_of_def)

lemma set_host_host [simp]: "host_of (set_host h d) = h"
  by (simp add: set_host_def)

lemma cancel_and_remove_work: "no_new_work d (cancel_and_remove sid d)" "host_of (cancel_and_remove sid d) = host_of d"
  by (auto simp: no_new_work_def cancel_and_remove_def active_turn_of_def execution_of_def delete_conv' execution_new_def)

lemma end_jobs_work: "no_new_work d (snd (end_jobs rq re sid d))" "quiet (rq_lib rq) (host_of d) (host_of (snd (end_jobs rq re sid d)))"
proof -
  let ?t = "terminate_session (rq_lib rq) (rq_link rq) (rq_base64 rq) (re_terminal re) sid (dm_ptys d)"
  have d': "snd (end_jobs rq re sid d) = d\<lparr>dm_ptys := snd ?t\<rparr>" by (simp add: end_jobs_def split: prod.splits)
  show "no_new_work d (snd (end_jobs rq re sid d))"
    unfolding d' by (simp add: no_new_work_def terminate_session_live active_turn_of_def execution_of_def)
  show "quiet (rq_lib rq) (host_of d) (host_of (snd (end_jobs rq re sid d)))"
    unfolding d' by (simp add: terminate_session_quiet)
qed

lemma set_execution_work:
  assumes "xs_active x \<noteq> None \<longrightarrow> xs_active (execution_of sid d) \<noteq> None"
  shows "no_new_work d (set_execution sid x d)" "host_of (set_execution sid x d) = host_of d"
  using assms by (auto simp: no_new_work_def set_execution_def active_turn_of_def execution_of_def update_conv' split: option.splits)

lemma detach_session_effect:
  assumes "detach_session rq re client sid d = Some (r, d')" "reg_inv (registry_of d)"
  shows "reg_inv (registry_of d') \<and> no_new_work d d' \<and>
    (controllers (host_of d') = controllers (host_of d) \<or> (\<exists>as as'. controllers (host_of d) sid = Some as \<and>
       controllers (host_of d') = (controllers (host_of d))(sid := as')))"
proof (cases "\<exists>s. snapshot (registry_of d) sid = Some (Ok s)")
  case True
  then obtain s where s: "snapshot (registry_of d) sid = Some (Ok s)" by blast
  let ?m = "if sd_persistence (sn_descriptor s) = Ephemeral then snd (end_jobs rq re sid (cancel_and_remove sid d)) else d"
  have m: "quiet (rq_lib rq) (host_of d) (host_of ?m)" "no_new_work d ?m"
    using end_jobs_work(1) [of "cancel_and_remove sid d" rq re sid] end_jobs_work(2) [of rq "cancel_and_remove sid d" re sid] cancel_and_remove_work(1) [of d sid] cancel_and_remove_work(2) [of sid d]
    by (auto simp: quiet_refl intro: no_new_work_trans)
  obtain r' h where dt: "detach (rq_lib rq) (re_session re) client sid (host_of ?m) = (r', h)" by (metis prod.collapse)
  then have d': "d' = set_host h ?m" using assms(1) s by (simp add: detach_session_def Let_def)
  have "reg_inv (sh_registry h)" using detach_inv [OF quiet_inv [OF m(1) assms(2)], of "rq_lib rq" "re_session re" client sid] dt by simp
  moreover have "no_new_work d d'" unfolding d' by (rule no_new_work_trans [OF m(2)]) simp
  moreover have "controllers (host_of ?m) = controllers (host_of d)" by (rule quiet_controllers [OF m(1)])
  ultimately show ?thesis using detach_controllers [OF dt] unfolding d' set_host_host by metis
next
  case False
  then have "d' = d" using assms(1) by (auto simp: detach_session_def split: option.splits sum.splits)
  with assms(2) show ?thesis by simp
qed

lemma moves_for_keep: "(\<And>i as. current = Some i \<Longrightarrow> att i = Some as \<Longrightarrow> as = [client]) \<Longrightarrow> moves_for client U current att current att"
  by (auto simp: moves_for_def)

text \<open>Taking up session \<open>i\<close>, which the registry has just given to the client.\<close>

lemma take_up_effect:
  assumes "take_up rq re client always s response (current, d) = Some (r, (current', d'))" "reg_inv (registry_of d)"
    and given: "mine client U att i" "controllers (host_of d) = att(i := Some [client])" "sd_id (sn_descriptor s) = i"
    and own: "\<And>k as. current = Some k \<Longrightarrow> att k = Some as \<Longrightarrow> as = [client]" and fresh: "always \<Longrightarrow> current \<noteq> Some i"
  shows "reg_inv (registry_of d') \<and> no_new_work d d' \<and> moves_for client U current att current' (controllers (host_of d'))"
proof (cases "current = None \<or> current = Some i")
  case True
  then have "d' = d" "current' = Some i" using assms(1) given(3) fresh by (auto simp: take_up_def Let_def split: if_splits)
  with assms(2) given show ?thesis by (auto simp: moves_for_def mine_def)
next
  case False
  then obtain p where p: "current = Some p" "p \<noteq> i" by auto
  obtain r' where dt: "detach_session rq re client p d = Some (r', d')" and cur: "current' = None \<or> current' = Some i"
    using assms(1) p given(3) by (auto simp: take_up_def Let_def split: if_splits option.splits sum.splits prod.splits)
  note eff = detach_session_effect [OF dt assms(2)]
  have "moves_for client U current att current' (controllers (host_of d'))"
    using eff cur given(1,2) own [OF p(1)] p(2) by (auto simp: moves_for_def mine_def split: if_splits)
  with eff show ?thesis by blast
qed

fun starts_work :: "session_request \<Rightarrow> bool" where
  "starts_work (RqSubmit sid input approval limits policy) = True"
| "starts_work (RqPtyStart sid command sz terminal_type) = True"
| "starts_work _ = False"

text \<open>What every other request keeps.\<close>

definition orderly ::
  "string \<Rightarrow> string set \<Rightarrow> string option \<times> 'p daemon \<Rightarrow> string option \<times> 'p daemon \<Rightarrow> bool" where
  "orderly client U cd cd' \<longleftrightarrow>
     reg_inv (registry_of (snd cd')) \<and> no_new_work (snd cd) (snd cd') \<and>
     moves_for client U (fst cd) (controllers (host_of (snd cd))) (fst cd') (controllers (host_of (snd cd')))"

definition owns :: "string \<Rightarrow> string set \<Rightarrow> string option \<times> 'p daemon \<Rightarrow> bool" where
  "owns client U cd \<longleftrightarrow>
     reg_inv (registry_of (snd cd)) \<and>
     (\<forall>i. fst cd = Some i \<longrightarrow> i \<in> U \<and> (\<forall>as. controllers (host_of (snd cd)) i = Some as \<longrightarrow> as = [client]))"

lemma orderly_same: "owns client U (current, d) \<Longrightarrow> orderly client U (current, d) (current, d)"
  by (simp add: orderly_def owns_def moves_for_def)

lemma orderly_quiet:
  assumes "owns client U (current, d)" "no_new_work d d'" "reg_inv (registry_of d')" "controllers (host_of d') = controllers (host_of d)"
    and "current' = current \<or> current' = None"
  shows "orderly client U (current, d) (current', d')"
  using assms by (auto simp: orderly_def owns_def moves_for_def)

lemma create_orderly:
  assumes own: "owns client U (current, d)" and fresh: "fresh_uuid (re_session re) (registry_of d)" "sv_uuid (re_session re) \<notin> U"
    and res: "process_request rq re client (RqCreate creation) (current, d) = Some (r, cd')"
  shows "orderly client U (current, d) cd'"
proof -
  have inv: "reg_inv (registry_of d)" using own by (simp add: owns_def)
  have new: "map_of (rg_sessions (registry_of d)) (sv_uuid (re_session re)) = None" "map_of (rg_in_flight (registry_of d)) (sv_uuid (re_session re)) = None"
    using fresh(1) by (auto simp: fresh_uuid_def map_of_eq_None_iff)
  consider "cd' = (current, d)"
    | c' h r' where "create_session (rq_lib rq) (re_session re) client c' (host_of d) = (r', h)"
        "(\<forall>s. r' \<noteq> Ok s) \<and> cd' = (current, set_host h d) \<or>
         (\<exists>s. r' = Ok s \<and> take_up rq re client True s RsCreated (current, set_host h d) = Some (r, cd'))"
    using res by (auto split: sum.splits prod.splits if_splits)
  then show ?thesis
  proof cases
    case 1
    then show ?thesis using orderly_same [OF own] by simp
  next
    case 2
    have inv': "reg_inv (sh_registry h)" using create_session_inv [OF inv new] 2(1) by (metis snd_conv)
    note ctl = create_session_controllers [OF 2(1)]
    from 2(2) show ?thesis
    proof
      assume *: "(\<forall>s. r' \<noteq> Ok s) \<and> cd' = (current, set_host h d)"
      have "mine client U (controllers (host_of d)) (sv_uuid (re_session re))" using new(1) fresh(2) by (simp add: mine_def controllers_def)
      then show ?thesis
        using * ctl inv' own fresh(2) by (auto simp: orderly_def owns_def moves_for_def split: if_splits)
    next
      assume "\<exists>s. r' = Ok s \<and> take_up rq re client True s RsCreated (current, set_host h d) = Some (r, cd')"
      then obtain s where s: "r' = Ok s" "take_up rq re client True s RsCreated (current, set_host h d) = Some (r, cd')" by blast
      obtain current' d' where cd': "cd' = (current', d')" by (cases cd')
      have "reg_inv (registry_of d') \<and> no_new_work (set_host h d) d' \<and>
          moves_for client U current (controllers (host_of d)) current' (controllers (host_of d'))"
      proof (rule take_up_effect [OF s(2) [unfolded cd']])
        show "mine client U (controllers (host_of d)) (sv_uuid (re_session re))" using new(1) fresh(2) by (simp add: mine_def controllers_def)
        show "controllers (host_of (set_host h d)) = (controllers (host_of d))(sv_uuid (re_session re) := Some [client])"
          "sd_id (sn_descriptor s) = sv_uuid (re_session re)" using ctl s(1) by auto
      qed (use inv' own fresh(2) in \<open>auto simp: owns_def\<close>)
      then show ?thesis unfolding cd' orderly_def using no_new_work_trans [OF no_new_work_set_host(1) [of d h]] by simp
    qed
  qed
qed

lemma switch_orderly:
  assumes own: "owns client U (current, d)" and res: "process_request rq re client (RqSwitch selector wanted) (current, d) = Some (r, cd')"
  shows "orderly client U (current, d) cd'"
proof -
  have inv: "reg_inv (registry_of d)" using own by (simp add: owns_def)
  obtain r' h where at: "attach_session (re_session re) client selector wanted (host_of d) = Some (r', h)"
    using res by (auto split: option.splits)
  have inv': "reg_inv (sh_registry h)" by (rule attach_session_inv [OF inv at])
  from attach_session_controllers [OF at inv] consider
      "controllers h = controllers (host_of d)" "\<forall>s. r' \<noteq> Ok s"
    | i as where "controllers (host_of d) i = Some as" "set as \<subseteq> {client}" "controllers h = (controllers (host_of d))(i := Some [client])"
        "\<forall>s. r' = Ok s \<longrightarrow> sd_id (sn_descriptor s) = i"
    by blast
  then show ?thesis
  proof cases
    case 1
    then have "cd' = (current, set_host h d)" using res at by (cases r') auto
    then show ?thesis using orderly_quiet [OF own] inv' 1(1) by simp
  next
    case (2 i as)
    have m: "mine client U (controllers (host_of d)) i" using 2(1,2) by (simp add: mine_def)
    show ?thesis
    proof (cases r')
      case (Inl e)
      then have "cd' = (current, set_host h d)" using res at by simp
      then show ?thesis using m 2 inv' own by (auto simp: orderly_def owns_def moves_for_def)
    next
      case (Inr s)
      then have t: "take_up rq re client False s (\<lambda>s. RsAttached s wanted) (current, set_host h d) = Some (r, cd')" using res at by simp
      obtain current' d' where cd': "cd' = (current', d')" by (cases cd')
      have "reg_inv (registry_of d') \<and> no_new_work (set_host h d) d' \<and>
          moves_for client U current (controllers (host_of d)) current' (controllers (host_of d'))"
        by (rule take_up_effect [OF t [unfolded cd'] _ m]) (use inv' 2 Inr own in \<open>auto simp: owns_def\<close>)
      then show ?thesis unfolding cd' orderly_def using no_new_work_trans [OF no_new_work_set_host(1) [of d h]] by simp
    qed
  qed
qed

lemma attach_orderly:
  assumes own: "owns client U (current, d)" and res: "process_request rq re client (RqAttach selector wanted) (current, d) = Some (r, cd')"
  shows "orderly client U (current, d) cd'"
proof (cases "current = None")
  case True
  then obtain r' where "process_request rq re client (RqSwitch selector wanted) (current, d) = Some (r', cd')"
    using res by (auto simp: take_up_def Let_def split: option.splits sum.splits prod.splits)
  with own show ?thesis by (rule switch_orderly)
next
  case False
  then show ?thesis using res orderly_same [OF own] by simp
qed

lemma update_orderly:
  assumes own: "owns client U (current, d)" and res: "run_update rq re client current sid model cwd history d = Some (r, d')"
  shows "orderly client U (current, d) (current, d')"
proof -
  have inv: "reg_inv (registry_of d)" using own by (simp add: owns_def)
  let ?h = "snd (update_session (rq_lib rq) (re_session re) client sid model cwd history (host_of d))"
  have "d' = d \<or> d' = set_host ?h d"
    using res by (auto simp: run_update_def Let_def split: sum.splits if_splits option.splits prod.splits)
  moreover have "reg_inv (sh_registry ?h)" by (rule update_session_inv [OF inv])
  ultimately show ?thesis
    using orderly_same [OF own] orderly_quiet [OF own, of "set_host ?h d"] update_session_controllers by (elim disjE) simp_all
qed

lemma detach_orderly:
  assumes own: "owns client U (Some sid, d)" and res: "detach_session rq re client sid d = Some (r, d')"
  shows "orderly client U (Some sid, d) (None, d')"
proof -
  have inv: "reg_inv (registry_of d)" using own by (simp add: owns_def)
  note eff = detach_session_effect [OF res inv]
  have "mine client U (controllers (host_of d)) sid" if "controllers (host_of d) sid = Some as" for as
    using that own by (auto simp: mine_def owns_def)
  then have "moves_for client U (Some sid) (controllers (host_of d)) None (controllers (host_of d'))"
    using eff by (auto simp: moves_for_def split: if_splits)
  with eff show ?thesis by (simp add: orderly_def)
qed

lemma set_audit_work: "no_new_work d (d\<lparr>dm_ptys := (dm_ptys d)\<lparr>co_audit := da\<rparr>\<rparr>)"
  by (simp add: no_new_work_def has_session_def active_turn_of_def execution_of_def)

lemma end_session_work: "no_new_work d (end_session rq re i d)" "quiet (rq_lib rq) (host_of d) (host_of (end_session rq re i d))"
proof -
  let ?e = "cancel_and_remove i (snd (end_jobs rq re i d))"
  have "no_new_work d ?e" by (rule no_new_work_trans [OF end_jobs_work(1) cancel_and_remove_work(1)])
  then show "no_new_work d (end_session rq re i d)"
    unfolding end_session_def Let_def by (rule no_new_work_trans) (rule set_audit_work)
  have "host_of (end_session rq re i d) = host_of (snd (end_jobs rq re i d))"
    by (simp add: end_session_def Let_def cancel_and_remove_work(2))
  then show "quiet (rq_lib rq) (host_of d) (host_of (end_session rq re i d))" using end_jobs_work(2) by metis
qed

lemma run_close_cases:
  assumes "run_close rq re client selector (current, d) = Some (r, cd')"
  obtains "cd' = (current, d)"
  | t e k where "close_session (rq_lib rq) (re_session re) client t (host_of d) = Some (Err e, k)" "cd' = (current, set_host k d)"
  | t i k where "close_session (rq_lib rq) (re_session re) client t (host_of d) = Some (Ok i, k)"
      "cd' = (if current = Some i then None else current, end_session rq re i (set_host k d))"
  using assms unfolding run_close_def by (auto split: option.splits sum.splits prod.splits)

lemma close_orderly:
  assumes own: "owns client U (current, d)" and res: "run_close rq re client selector (current, d) = Some (r, cd')"
  shows "orderly client U (current, d) cd'"
  using res
proof (cases rule: run_close_cases)
  case 1
  then show ?thesis using orderly_same [OF own] by simp
next
  case (2 t e k)
  have inv: "reg_inv (registry_of d)" using own by (simp add: owns_def)
  show ?thesis
    using close_session_controllers [OF 2(1)] close_session_inv [OF inv 2(1)] own
    by (auto simp: 2(2) orderly_def owns_def moves_for_def mine_def split: if_splits)
next
  case (3 t i k)
  have inv: "reg_inv (registry_of d)" using own by (simp add: owns_def)
  have q: "quiet (rq_lib rq) k (host_of (end_session rq re i (set_host k d)))" using end_session_work(2) [of rq "set_host k d" re i] by simp
  have "reg_inv (registry_of (end_session rq re i (set_host k d)))" by (rule quiet_inv [OF q close_session_inv [OF inv 3(1)]])
  moreover have "no_new_work d (end_session rq re i (set_host k d))"
    by (rule no_new_work_trans [OF no_new_work_set_host(1) end_session_work(1)])
  moreover have "moves_for client U current (controllers (host_of d)) (if current = Some i then None else current) (controllers k)"
    using close_session_controllers [OF 3(1)] own by (auto simp: moves_for_def owns_def mine_def split: if_splits)
  ultimately show ?thesis unfolding 3(2) orderly_def by (simp add: quiet_controllers [OF q])
qed

lemma attach_job_work:
  assumes "attach_job ticket sid after_offset (dm_ptys d) = (r, c')"
  shows "no_new_work d (d\<lparr>dm_ptys := c'\<rparr>)" "co_host c' = host_of d"
proof -
  consider "c' = dm_ptys d" | i k where "c' = update_job i (\<lambda>j. j\<lparr>mp_redraw_requested := True, mp_tickets := [(ticket, k)]\<rparr>) (dm_ptys d)"
    using assms by (auto simp: attach_job_def Let_def split: option.splits if_splits prod.splits)
  then have "(\<forall>i. has_session i c' \<longrightarrow> has_session i (dm_ptys d)) \<and> co_host c' = host_of d"
  proof cases
    case (2 i k)
    then show ?thesis using has_session_update [of _ i _ "dm_ptys d"] by (simp add: update_job_def)
  qed simp
  then show "no_new_work d (d\<lparr>dm_ptys := c'\<rparr>)" "co_host c' = host_of d"
    by (auto simp: no_new_work_def active_turn_of_def execution_of_def)
qed

lemma approve_active: "xs_active (snd (approve reply x)) = xs_active x"
  by (simp add: approve_def Let_def)

lemma cancel_active_turn: "xs_active (snd (cancel turn_id x)) \<noteq> None \<longrightarrow> xs_active x \<noteq> None"
  by (simp add: cancel_def split: option.splits)

lemma set_execution_orderly:
  assumes "owns client U (current, d)" "xs_active x \<noteq> None \<longrightarrow> xs_active (execution_of sid d) \<noteq> None"
  shows "orderly client U (current, d) (current, set_execution sid x d)"
  using orderly_quiet [OF assms(1) set_execution_work(1) [OF assms(2)]] assms by (simp add: set_execution_work(2) owns_def)

lemma process_request_orderly:
  assumes own: "owns client U (current, d)" and fresh: "fresh_uuid (re_session re) (registry_of d)" "sv_uuid (re_session re) \<notin> U"
    and res: "process_request rq re client request (current, d) = Some (r, cd')" and nw: "\<not> starts_work request"
  shows "orderly client U (current, d) cd'"
proof (cases request)
  case (RqCreate creation)
  then show ?thesis using create_orderly [OF own fresh] res by blast
next
  case (RqAttach selector wanted)
  then show ?thesis using attach_orderly [OF own] res by blast
next
  case (RqSwitch selector wanted)
  then show ?thesis using switch_orderly [OF own] res by blast
next
  case (RqUpdate sid model cwd history)
  then show ?thesis using update_orderly [OF own] res by (auto simp: answer_def)
next
  case (RqApprove sid reply)
  then have "cd' = (current, d) \<or> cd' = (current, set_execution sid (snd (approve reply (execution_of sid d))) d)"
    using res by (auto split: sum.splits prod.splits)
  then show ?thesis using orderly_same [OF own] set_execution_orderly [OF own, of "snd (approve reply (execution_of sid d))" sid] approve_active by auto
next
  case (RqCancel sid turn_id)
  then have "cd' = (current, d) \<or> cd' = (current, set_execution sid (snd (cancel turn_id (execution_of sid d))) d)"
    using res by (auto split: sum.splits prod.splits)
  then show ?thesis using orderly_same [OF own] set_execution_orderly [OF own cancel_active_turn] by auto
next
  case (RqPtyAttach sid after_offset)
  obtain q c' where at: "attach_job (te_uuid (re_terminal re)) sid after_offset (dm_ptys d) = (q, c')" by (metis prod.collapse)
  have "cd' = (current, d) \<or> cd' = (current, d\<lparr>dm_ptys := c'\<rparr>)" using res RqPtyAttach at by (auto simp: answer_def split: sum.splits)
  then show ?thesis
    using orderly_same [OF own] orderly_quiet [OF own attach_job_work(1) [OF at]] own attach_job_work(2) [OF at] by (auto simp: owns_def)
next
  case (RqPtyClose sid)
  let ?d = "snd (end_jobs rq re sid d)"
  have "cd' = (current, d) \<or> cd' = (current, ?d)" using res RqPtyClose by (auto split: sum.splits prod.splits)
  then show ?thesis
    using orderly_same [OF own] orderly_quiet [OF own end_jobs_work(1), of rq re sid] own
      quiet_inv [OF end_jobs_work(2) [of rq d re sid]] quiet_controllers [OF end_jobs_work(2) [of rq d re sid]] by (auto simp: owns_def)
next
  case RqDetach
  show ?thesis
  proof (cases current)
    case None
    then show ?thesis using res RqDetach orderly_same [OF own] by simp
  next
    case (Some sid)
    then show ?thesis using res RqDetach detach_orderly own by (auto simp: answer_def)
  qed
next
  case (RqClose selector)
  then show ?thesis using close_orderly [OF own] res by simp
qed (use res nw orderly_same [OF own] in \<open>auto split: sum.splits\<close>)

section \<open>All connections together\<close>

text \<open>
  What a connection is doing: waiting for a request, between the guards of a turn or of a terminal job
  and the work itself, or between starting a process and listing its job. In these gaps every other
  connection, turn and worker may act.
\<close>

datatype doing = Waiting | Submitting string | Starting string | Spawned string

definition session_ids :: "'p daemon \<Rightarrow> string set" where
  "session_ids d = fst ` set (rg_sessions (registry_of d))"

text \<open>
  A state is the set of identifiers that are taken, the connections and the daemon. The requests that
  start a turn or a terminal job act in the pieces their handler is made of; between the pieces the lock
  of the shared state is free. What a turn, an audit connection or a terminal worker does in between is
  not tied to what it did before.
\<close>

type_synonym connections = "string \<Rightarrow> (string option \<times> doing) option"

inductive daemon_step ::
  "'p request_setup \<Rightarrow> string set \<times> connections \<times> 'p daemon \<Rightarrow> string set \<times> connections \<times> 'p daemon \<Rightarrow> bool" for rq where
  connects: "client \<notin> U \<Longrightarrow> daemon_step rq (U, cs, d) (insert client U, cs(client := Some (None, Waiting)), d)"
| disconnects: "cs client = Some (current, Waiting) \<Longrightarrow> detach_on_disconnect rq (re :: ('p, string) request_env) client current d = Some d' \<Longrightarrow>
    daemon_step rq (U, cs, d) (U \<union> session_ids d', cs(client := None), d')"
| requests: "cs client = Some (current, Waiting) \<Longrightarrow> \<not> starts_work request \<Longrightarrow>
    fresh_uuid (re_session (re :: ('p, string) request_env)) (registry_of d) \<Longrightarrow> sv_uuid (re_session re) \<notin> U \<Longrightarrow>
    process_request rq re client request (current, d) = Some (r, (current', d')) \<Longrightarrow>
    daemon_step rq (U, cs, d) (U \<union> session_ids d', cs(client := Some (current', Waiting)), d')"
| checks_submit: "cs client = Some (current, Waiting) \<Longrightarrow> check_submit rq current sid policy d = Ok () \<Longrightarrow>
    daemon_step rq (U, cs, d) (U, cs(client := Some (current, Submitting sid)), d)"
| submits: "cs client = Some (current, Submitting sid) \<Longrightarrow> run_submit rq (re :: ('p, string) request_env) sid input approval limits d = Some (r, d') \<Longrightarrow>
    daemon_step rq (U, cs, d) (U, cs(client := Some (current, Waiting)), d')"
| checks_start: "cs client = Some (current, Waiting) \<Longrightarrow> check_start current sid d = Ok () \<Longrightarrow>
    daemon_step rq (U, cs, d) (U, cs(client := Some (current, Starting sid)), d)"
| prepares: "cs client = Some (current, Starting sid) \<Longrightarrow>
    start_prepare (rq_lib rq) (rq_link rq) (rq_base64 rq) te sid command sz terminal_type handle (dm_ptys d) = (r, c') \<Longrightarrow>
    daemon_step rq (U, cs, d) (U, cs(client := Some (current, if r = Ok () then Spawned sid else Waiting)), d\<lparr>dm_ptys := c'\<rparr>)"
| inserts: "cs client = Some (current, Spawned sid) \<Longrightarrow> mp_session_id j = sid \<Longrightarrow>
    start_insert (rq_lib rq) env i j (dm_ptys d) = (r, c') \<Longrightarrow>
    daemon_step rq (U, cs, d) (U, cs(client := Some (current, Waiting)), d\<lparr>dm_ptys := c'\<rparr>)"
| turn_goes_on: "(xs_active x \<noteq> None \<longrightarrow> xs_active (execution_of sid d) \<noteq> None) \<Longrightarrow> daemon_step rq (U, cs, d) (U, cs, set_execution sid x d)"
| turn_saves: "quiet (rq_lib rq) (host_of d) h \<Longrightarrow> daemon_step rq (U, cs, d) (U, cs, set_host h d)"
| claims: "claim_job claim_id ticket (dm_ptys d) = (r, c') \<Longrightarrow> daemon_step rq (U, cs, d) (U, cs, d\<lparr>dm_ptys := c'\<rparr>)"
| releases: "daemon_step rq (U, cs, d) (U, cs, d\<lparr>dm_ptys := release_claim claim (dm_ptys d)\<rparr>)"
| writes: "write_claimed claim bytes (dm_ptys d) = (r, c') \<Longrightarrow> daemon_step rq (U, cs, d) (U, cs, d\<lparr>dm_ptys := c'\<rparr>)"
| resizes: "resize_claimed claim sz (dm_ptys d) = (r, c') \<Longrightarrow> daemon_step rq (U, cs, d) (U, cs, d\<lparr>dm_ptys := c'\<rparr>)"
| works: "(i, j) \<in> set (co_jobs (dm_ptys d)) \<Longrightarrow> worker_moves (rq_lib rq) (rq_link rq) (rq_base64 rq) j j' \<Longrightarrow>
    daemon_step rq (U, cs, d) (U, cs, d\<lparr>dm_ptys := update_job i (\<lambda>_. j') (dm_ptys d)\<rparr>)"
| audits: "daemon_step rq (U, cs, d) (U, cs, d\<lparr>dm_ptys := (dm_ptys d)\<lparr>co_audit := da\<rparr>\<rparr>)"

lemma has_session_replace:
  assumes "has_session k (update_job i (\<lambda>_. j') c)" "(i, j) \<in> set (co_jobs c)" "mp_session_id j' = mp_session_id j"
    and "mp_exit_status j' = None \<longrightarrow> mp_exit_status j = None"
  shows "has_session k c"
proof -
  obtain m l where l: "(m, l) \<in> set (co_jobs (update_job i (\<lambda>_. j') c))" "mp_session_id l = k" "mp_exit_status l = None"
    using assms(1) unfolding has_session_iff by blast
  then obtain q where "(m, q) \<in> set (co_jobs c)" "l = (if m = i then j' else q)" unfolding in_update_job by blast
  with l(2,3) assms(2-4) show ?thesis unfolding has_session_iff by (cases "m = i") (simp_all, blast+)
qed

lemma finish_exit: "mp_exit_status (fst (finish lib env al status j s)) \<noteq> None" "mp_exit_status (snd (finish_begin status j)) \<noteq> None"
  by (simp_all add: finish_def finish_begin_def finish_end_def Let_def split: prod.splits bool.splits)

lemma record_stream_exit: "mp_exit_status (fst (record_stream al base64 d bytes (j, da))) = mp_exit_status j"
  by (auto simp: record_stream_def split: option.splits prod.splits)

lemma worker_result_exit: "mp_exit_status (fst (worker_result lib env al base64 input r j s)) = None \<longrightarrow> mp_exit_status j = None"
proof (cases r)
  case (Inr chunk)
  obtain h da where s: "s = (h, da)" by (cases s)
  let ?accepted = "min (ch_input_accepted chunk) (length input)"
  obtain j1 da1 where 1: "record_stream al base64 ''input'' (take ?accepted input) (j, da) = (j1, da1)" by (metis prod.collapse)
  obtain j2 da2 where 2: "record_stream al base64 ''output'' (ch_output chunk) (j1, da1) = (j2, da2)" by (metis prod.collapse)
  have "mp_exit_status j2 = mp_exit_status j"
    using record_stream_exit [of al base64 "''input''" "take ?accepted input" j da] record_stream_exit [of al base64 "''output''" "ch_output chunk" j1 da1]
    by (simp add: 1 2)
  then have "mp_exit_status (worker_exchanged input chunk j2) = mp_exit_status j"
    by (simp add: worker_exchanged_def append_output_def Let_def split: prod.split)
  moreover have "worker_result lib env al base64 input r j s =
      (case ch_status chunk of None \<Rightarrow> (worker_exchanged input chunk j2, h, da2)
       | Some status \<Rightarrow> finish lib env al status (worker_exchanged input chunk j2) (h, da2))"
    by (simp add: worker_result_def Inr s Let_def 1 2)
  ultimately show ?thesis by (cases "ch_status chunk") (simp_all add: finish_exit(1) [simplified not_None_eq [symmetric]])
qed (simp add: worker_result_def finish_exit(1))

lemma worker_moves_exit: "worker_moves lib al base64 j j' \<Longrightarrow> mp_exit_status j' = None \<longrightarrow> mp_exit_status j = None"
proof -
  assume "worker_moves lib al base64 j j'"
  then consider "j' = snd (worker_take j)" | env input r s where "j' = fst (worker_result lib env al base64 input r j s)"
    | status where "j' = snd (finish_begin status j)" | env status s where "j' = fst (finish_end lib env al status j s)"
    unfolding worker_moves_def by blast
  then show ?thesis
  proof cases
    case 1
    then show ?thesis by (simp add: worker_take_def)
  next
    case (2 env input r s)
    show ?thesis unfolding 2 by (rule worker_result_exit)
  next
    case (3 status)
    then show ?thesis by (simp add: finish_begin_def)
  next
    case (4 env status s)
    then show ?thesis by (simp add: finish_end_def Let_def split: prod.splits)
  qed
qed

text \<open>The stream of a terminal and its worker bring no terminal job to life and leave the registry alone.\<close>

definition calm :: "'p pty_coordinator \<Rightarrow> 'p pty_coordinator \<Rightarrow> bool" where
  "calm c c' \<longleftrightarrow> co_host c' = co_host c \<and> (\<forall>i. has_session i c' \<longrightarrow> has_session i c)"

lemma calm_update:
  assumes "\<And>j. mp_session_id (f j) = mp_session_id j \<and> (mp_exit_status (f j) = None \<longrightarrow> mp_exit_status j = None)"
  shows "calm c (update_job i f c)"
  using has_session_update [of _ i f c] assms by (simp add: calm_def) (simp add: update_job_def)

lemma calm_streams:
  "claim_job claim_id ticket c = (q, c') \<Longrightarrow> calm c c'"
  "calm c (release_claim claim c)"
  "write_claimed claim bytes c = (r, c') \<Longrightarrow> calm c c'"
  "resize_claimed claim sz c = (r, c') \<Longrightarrow> calm c c'"
  "(i, j) \<in> set (co_jobs c) \<Longrightarrow> worker_moves lib al base64 j j' \<Longrightarrow> calm c (update_job i (\<lambda>_. j') c)"
proof -
  have refl: "calm c c" for c :: "'a pty_coordinator" by (simp add: calm_def)
  show "calm c c'" if "claim_job claim_id ticket c = (q, c')"
    using that by (cases rule: claim_job_cases) (auto simp: refl intro: calm_update)
  show "calm c (release_claim claim c)" unfolding release_claim_def by (rule calm_update) simp
  show "calm c c'" if "write_claimed claim bytes c = (r, c')"
  proof (cases "get_claimed claim c")
    case (Inr j)
    then have c': "c' = update_job (pm_pty_id claim) (\<lambda>_. snd (write_input bytes j)) c"
      using that by (simp add: write_claimed_def split: prod.splits)
    have "(pm_pty_id claim, j) \<in> set (co_jobs c)" using Inr by (auto simp: get_claimed_Ok dest: map_of_SomeD)
    moreover have "mp_session_id (snd (write_input bytes j)) = mp_session_id j" "mp_exit_status (snd (write_input bytes j)) = mp_exit_status j"
      by (simp_all add: write_input_def)
    ultimately have "has_session k c' \<longrightarrow> has_session k c" for k using has_session_replace unfolding c' by metis
    then show ?thesis by (simp add: calm_def c' update_job_def)
  qed (use that in \<open>simp add: write_claimed_def refl\<close>)
  show "calm c c'" if "resize_claimed claim sz c = (r, c')"
  proof -
    have "c' = c \<or> c' = update_job (pm_pty_id claim) (\<lambda>j. j\<lparr>mp_size := sz\<rparr>) c"
      using that by (auto simp: resize_claimed_def split: sum.splits)
    moreover have "calm c (update_job (pm_pty_id claim) (\<lambda>j. j\<lparr>mp_size := sz\<rparr>) c)" by (rule calm_update) simp
    ultimately show ?thesis using refl by blast
  qed
  show "calm c (update_job i (\<lambda>_. j') c)" if "(i, j) \<in> set (co_jobs c)" "worker_moves lib al base64 j j'"
  proof -
    have "mp_session_id j' = mp_session_id j" using worker_moves_holder [OF that(2)] by (simp add: same_holder_def)
    then have "has_session k (update_job i (\<lambda>_. j') c) \<longrightarrow> has_session k c" for k
      using has_session_replace that(1) worker_moves_exit [OF that(2)] by metis
    then show ?thesis by (simp add: calm_def) (simp add: update_job_def)
  qed
qed

lemma calm_work: "calm (dm_ptys d) c' \<Longrightarrow> no_new_work d (d\<lparr>dm_ptys := c'\<rparr>)"
  by (simp add: calm_def no_new_work_def active_turn_of_def execution_of_def)

definition daemon_inv :: "string set \<Rightarrow> connections \<Rightarrow> 'p daemon \<Rightarrow> bool" where
  "daemon_inv U cs d \<longleftrightarrow>
     reg_inv (registry_of d) \<and> (\<forall>i. controllers (host_of d) i \<noteq> None \<longrightarrow> i \<in> U) \<and>
     (\<forall>c i w. cs c = Some (Some i, w) \<longrightarrow> i \<in> U \<and> (\<forall>as. controllers (host_of d) i = Some as \<longrightarrow> as = [c])) \<and>
     (\<forall>c c' i w w'. cs c = Some (Some i, w) \<longrightarrow> cs c' = Some (Some i, w') \<longrightarrow> c = c') \<and>
     (\<forall>c current sid. cs c = Some (current, Submitting sid) \<longrightarrow> current = Some sid \<and> \<not> has_session sid (dm_ptys d)) \<and>
     (\<forall>c current sid. cs c = Some (current, Starting sid) \<or> cs c = Some (current, Spawned sid) \<longrightarrow>
        current = Some sid \<and> active_turn_of sid d = None) \<and>
     (\<forall>i. active_turn_of i d = None \<or> \<not> has_session i (dm_ptys d))"

lemma daemon_invD:
  assumes "daemon_inv U cs d"
  shows "reg_inv (registry_of d)" "controllers (host_of d) i \<noteq> None \<Longrightarrow> i \<in> U"
    "cs c = Some (Some i, w) \<Longrightarrow> i \<in> U" "cs c = Some (Some i, w) \<Longrightarrow> controllers (host_of d) i = Some as \<Longrightarrow> as = [c]"
    "cs c = Some (Some i, w) \<Longrightarrow> cs c' = Some (Some i, w') \<Longrightarrow> c = c'"
    "cs c = Some (current, Submitting sid) \<Longrightarrow> current = Some sid \<and> \<not> has_session sid (dm_ptys d)"
    "cs c = Some (current, Starting sid) \<or> cs c = Some (current, Spawned sid) \<Longrightarrow> current = Some sid \<and> active_turn_of sid d = None"
    "active_turn_of i d = None \<or> \<not> has_session i (dm_ptys d)"
  using assms unfolding daemon_inv_def by blast+

lemma daemon_invI:
  assumes "reg_inv (registry_of d)" "\<forall>i. controllers (host_of d) i \<noteq> None \<longrightarrow> i \<in> U"
    "\<forall>c i w. cs c = Some (Some i, w) \<longrightarrow> i \<in> U \<and> (\<forall>as. controllers (host_of d) i = Some as \<longrightarrow> as = [c])"
    "\<forall>c c' i w w'. cs c = Some (Some i, w) \<longrightarrow> cs c' = Some (Some i, w') \<longrightarrow> c = c'"
    "\<forall>c current sid. cs c = Some (current, Submitting sid) \<longrightarrow> current = Some sid \<and> \<not> has_session sid (dm_ptys d)"
    "\<forall>c current sid. cs c = Some (current, Starting sid) \<or> cs c = Some (current, Spawned sid) \<longrightarrow> current = Some sid \<and> active_turn_of sid d = None"
    "\<forall>i. active_turn_of i d = None \<or> \<not> has_session i (dm_ptys d)"
  shows "daemon_inv U cs d"
  unfolding daemon_inv_def by (intro conjI assms)

lemma session_ids_controllers: "i \<in> session_ids d \<longleftrightarrow> controllers (host_of d) i \<noteq> None"
  by (simp add: session_ids_def controllers_def map_of_eq_None_iff)

text \<open>Something happens that concerns no connection.\<close>

lemma daemon_inv_quiet:
  assumes inv: "daemon_inv U cs d" and work: "no_new_work d d'" and reg: "reg_inv (registry_of d')" "controllers (host_of d') = controllers (host_of d)"
  shows "daemon_inv U cs d'"
proof -
  have still: "has_session i (dm_ptys d') \<Longrightarrow> has_session i (dm_ptys d)" "active_turn_of i d' \<noteq> None \<Longrightarrow> active_turn_of i d \<noteq> None" for i
    using work unfolding no_new_work_def by blast+
  show ?thesis
  proof (rule daemon_invI)
    show "\<forall>c current sid. cs c = Some (current, Submitting sid) \<longrightarrow> current = Some sid \<and> \<not> has_session sid (dm_ptys d')"
      using daemon_invD(6) [OF inv] still(1) by blast
    show "\<forall>c current sid. cs c = Some (current, Starting sid) \<or> cs c = Some (current, Spawned sid) \<longrightarrow> current = Some sid \<and> active_turn_of sid d' = None"
      using daemon_invD(7) [OF inv] still(2) by blast
    show "\<forall>i. active_turn_of i d' = None \<or> \<not> has_session i (dm_ptys d')" using daemon_invD(8) [OF inv] still by blast
  qed (use reg(1) daemon_invD(2-5) [OF inv] in \<open>simp_all only: reg(2), blast+\<close>)
qed

text \<open>A connection's request, or its end.\<close>

lemma daemon_inv_request:
  assumes inv: "daemon_inv U cs d" and client: "cs client = Some (current, w)"
    and ord: "orderly client U (current, d) (current', d')"
    and conn: "new = None \<or> new = Some (current', Waiting)"
  shows "daemon_inv (U \<union> session_ids d') (cs(client := new)) d'"
proof -
  let ?att = "controllers (host_of d)" and ?att' = "controllers (host_of d')"
  have reg: "reg_inv (registry_of d')" and work: "no_new_work d d'" and mv: "moves_for client U current ?att current' ?att'"
    using ord by (simp_all add: orderly_def)
  have same: "?att' i = ?att i" if "cs c = Some (Some i, v)" "c \<noteq> client" for c i v
  proof (rule ccontr)
    assume "?att' i \<noteq> ?att i"
    then have "mine client U ?att i" using mv by (simp add: moves_for_def)
    then show False using daemon_invD(3,4) [OF inv that(1)] that(2) by (auto simp: mine_def)
  qed
  have own: "i \<in> U \<union> session_ids d' \<and> (\<forall>as. ?att' i = Some as \<longrightarrow> as = [c])" if "(cs(client := new)) c = Some (Some i, v)" for c i v
  proof (cases "c = client")
    case True
    then have "current' = Some i" using that conn by auto
    then have "current = Some i \<or> ?att' i \<noteq> None" "\<forall>as. ?att' i = Some as \<longrightarrow> as = [client]"
      using mv by (auto simp: moves_for_def)
    then show ?thesis using True daemon_invD(3) [OF inv] client by (auto simp: session_ids_controllers)
  next
    case False
    then have "cs c = Some (Some i, v)" using that by simp
    then show ?thesis using daemon_invD(3,4) [OF inv] same False by auto
  qed
  have new: "c = client" if "cs c = Some (Some i, v)" "current' = Some i" "new \<noteq> None" for c i v
  proof (cases "current = Some i")
    case True
    then show ?thesis using daemon_invD(5) [OF inv that(1)] client by blast
  next
    case False
    then have "mine client U ?att i" using mv that(2) by (auto simp: moves_for_def)
    then show ?thesis using daemon_invD(3,4) [OF inv that(1)] by (auto simp: mine_def)
  qed
  have unique: "c = c'" if "(cs(client := new)) c = Some (Some i, v)" "(cs(client := new)) c' = Some (Some i, v')" for c c' i v v'
  proof -
    have other: "b = client" if "(cs(client := new)) client = Some (Some i, u)" "(cs(client := new)) b = Some (Some i, u')" for b u u'
    proof (rule ccontr)
      assume "b \<noteq> client"
      then have "cs b = Some (Some i, u')" using that(2) by simp
      moreover have "current' = Some i" "new \<noteq> None" using that(1) conn by auto
      ultimately show False using new \<open>b \<noteq> client\<close> by blast
    qed
    show ?thesis
    proof (cases "c = client \<or> c' = client")
      case True
      then show ?thesis using other that by blast
    next
      case False
      then show ?thesis using that daemon_invD(5) [OF inv, of c i v c' v'] by simp
    qed
  qed
  have doing: "(cs(client := new)) c = Some (cur, x) \<Longrightarrow> x \<noteq> Waiting \<Longrightarrow> cs c = Some (cur, x)" for c cur x
    using conn by (auto split: if_splits)
  have known: "?att' i \<noteq> None \<longrightarrow> i \<in> U \<union> session_ids d'" for i by (simp add: session_ids_controllers)
  have still: "has_session i (dm_ptys d') \<Longrightarrow> has_session i (dm_ptys d)" "active_turn_of i d' \<noteq> None \<Longrightarrow> active_turn_of i d \<noteq> None" for i
    using work unfolding no_new_work_def by blast+
  have sub: "cur = Some sid \<and> \<not> has_session sid (dm_ptys d')" if "(cs(client := new)) c = Some (cur, Submitting sid)" for c cur sid
    using doing [OF that] daemon_invD(6) [OF inv] still(1) by blast
  have st: "cur = Some sid \<and> active_turn_of sid d' = None"
    if "(cs(client := new)) c = Some (cur, Starting sid) \<or> (cs(client := new)) c = Some (cur, Spawned sid)" for c cur sid
    using doing that daemon_invD(7) [OF inv] still(2) by blast
  have excl: "active_turn_of i d' = None \<or> \<not> has_session i (dm_ptys d')" for i
    using daemon_invD(8) [OF inv, of i] still by blast
  show ?thesis
  proof (rule daemon_invI)
    show "reg_inv (registry_of d')" by (rule reg)
    show "\<forall>i. ?att' i \<noteq> None \<longrightarrow> i \<in> U \<union> session_ids d'" by (rule allI) (rule known)
    show "\<forall>c i v. (cs(client := new)) c = Some (Some i, v) \<longrightarrow> i \<in> U \<union> session_ids d' \<and> (\<forall>as. ?att' i = Some as \<longrightarrow> as = [c])"
      by (intro allI impI) (rule own)
    show "\<forall>c c' i v v'. (cs(client := new)) c = Some (Some i, v) \<longrightarrow> (cs(client := new)) c' = Some (Some i, v') \<longrightarrow> c = c'"
      by (intro allI impI) (rule unique)
    show "\<forall>c current sid. (cs(client := new)) c = Some (current, Submitting sid) \<longrightarrow> current = Some sid \<and> \<not> has_session sid (dm_ptys d')"
      by (intro allI impI) (rule sub)
    show "\<forall>c current sid. (cs(client := new)) c = Some (current, Starting sid) \<or> (cs(client := new)) c = Some (current, Spawned sid) \<longrightarrow>
        current = Some sid \<and> active_turn_of sid d' = None"
      by (intro allI impI) (rule st)
    show "\<forall>i. active_turn_of i d' = None \<or> \<not> has_session i (dm_ptys d')" by (rule allI) (rule excl)
  qed
qed

lemma owns_current: "daemon_inv U cs d \<Longrightarrow> cs client = Some (current, w) \<Longrightarrow> owns client U (current, d)"
  unfolding owns_def using daemon_invD(1,3,4) by fastforce

text \<open>A connection goes on with what it is doing; its current session stays.\<close>

lemma daemon_inv_doing:
  assumes inv: "daemon_inv U cs d" and client: "cs client = Some (current, w)"
    and w: "\<And>sid. w' = Submitting sid \<Longrightarrow> current = Some sid \<and> \<not> has_session sid (dm_ptys d)"
      "\<And>sid. w' = Starting sid \<or> w' = Spawned sid \<Longrightarrow> current = Some sid \<and> active_turn_of sid d = None"
  shows "daemon_inv U (cs(client := Some (current, w'))) d"
proof -
  have was: "\<exists>v. cs c = Some (cur, v)" if "(cs(client := Some (current, w'))) c = Some (cur, x)" for c cur x
    using that client by (cases "c = client") auto
  show ?thesis
  proof (rule daemon_invI)
    show "\<forall>c i x. (cs(client := Some (current, w'))) c = Some (Some i, x) \<longrightarrow> i \<in> U \<and> (\<forall>as. controllers (host_of d) i = Some as \<longrightarrow> as = [c])"
      using was daemon_invD(3,4) [OF inv] by meson
    show "\<forall>c c' i x x'. (cs(client := Some (current, w'))) c = Some (Some i, x) \<longrightarrow> (cs(client := Some (current, w'))) c' = Some (Some i, x') \<longrightarrow> c = c'"
      using was daemon_invD(5) [OF inv] by meson
    show "\<forall>c cur sid. (cs(client := Some (current, w'))) c = Some (cur, Submitting sid) \<longrightarrow> cur = Some sid \<and> \<not> has_session sid (dm_ptys d)"
      using w(1) daemon_invD(6) [OF inv] by simp
    show "\<forall>c cur sid. (cs(client := Some (current, w'))) c = Some (cur, Starting sid) \<or> (cs(client := Some (current, w'))) c = Some (cur, Spawned sid) \<longrightarrow>
        cur = Some sid \<and> active_turn_of sid d = None"
      using w(2) daemon_invD(7) [OF inv] by (simp, blast)
  qed (use daemon_invD(1,2,8) [OF inv] in blast)+
qed

text \<open>
  New work for a session: nobody else has that session as its current one, so nobody else is between
  the guards and the work.
\<close>

lemma daemon_inv_work:
  assumes inv: "daemon_inv U cs d" and client: "cs client = Some (Some sid, Waiting)"
    and reg: "reg_inv (registry_of d')" "controllers (host_of d') = controllers (host_of d)"
    and others: "\<And>i. i \<noteq> sid \<Longrightarrow> active_turn_of i d' = active_turn_of i d" "\<And>i. i \<noteq> sid \<Longrightarrow> has_session i (dm_ptys d') \<Longrightarrow> has_session i (dm_ptys d)"
    and excl: "active_turn_of sid d' = None \<or> \<not> has_session sid (dm_ptys d')"
  shows "daemon_inv U cs d'"
proof -
  have away: "i \<noteq> sid" if "cs c = Some (Some i, w)" "w \<noteq> Waiting" for c i w
    using that client daemon_invD(5) [OF inv that(1), of client Waiting] by auto
  show ?thesis
  proof (rule daemon_invI)
    show "\<forall>c current i. cs c = Some (current, Submitting i) \<longrightarrow> current = Some i \<and> \<not> has_session i (dm_ptys d')"
      using daemon_invD(6) [OF inv] away others(2) by blast
    show "\<forall>c current i. cs c = Some (current, Starting i) \<or> cs c = Some (current, Spawned i) \<longrightarrow> current = Some i \<and> active_turn_of i d' = None"
      using daemon_invD(7) [OF inv] away others(1) by (metis doing.distinct(3) doing.distinct(5))
    show "\<forall>i. active_turn_of i d' = None \<or> \<not> has_session i (dm_ptys d')" using daemon_invD(8) [OF inv] others excl by metis
  qed (use reg(1) daemon_invD(2-5) [OF inv] in \<open>simp_all only: reg(2), blast+\<close>)
qed

lemma run_submit_effect:
  assumes "run_submit rq re sid input approval limits d = Some (r, d')"
  shows "quiet (rq_lib rq) (host_of d) (host_of d')" "has_session i (dm_ptys d') = has_session i (dm_ptys d)"
    "i \<noteq> sid \<Longrightarrow> active_turn_of i d' = active_turn_of i d"
proof -
  let ?s = "\<lparr>dn_host = host_of d, dn_execution = execution_of sid d, dn_audit = co_audit (dm_ptys d)\<rparr>"
  obtain s where sub: "submit (rq_lib rq) (rq_link rq) (rq_json_len rq) (re_submit re) (rq_policy rq) sid input approval limits ?s = Some (r, s)"
    and d': "d' = set_execution sid (dn_execution s) (d\<lparr>dm_ptys := (dm_ptys d)\<lparr>co_host := dn_host s, co_audit := dn_audit s\<rparr>\<rparr>)"
    using assms by (auto simp: run_submit_def)
  show "quiet (rq_lib rq) (host_of d) (host_of d')" using submit_quiet [OF sub] by (simp add: d' set_execution_def)
  show "has_session i (dm_ptys d') = has_session i (dm_ptys d)" by (simp add: d' set_execution_def has_session_def)
  show "i \<noteq> sid \<Longrightarrow> active_turn_of i d' = active_turn_of i d"
    by (simp add: d' set_execution_def active_turn_of_def execution_of_def update_conv')
qed

lemma submits_inv:
  assumes inv: "daemon_inv U cs d" and client: "cs client = Some (current, Submitting sid)"
    and run: "run_submit rq re sid input approval limits d = Some (r, d')"
  shows "daemon_inv U (cs(client := Some (current, Waiting))) d'"
proof -
  have sid: "current = Some sid" "\<not> has_session sid (dm_ptys d)" using daemon_invD(6) [OF inv client] by blast+
  note eff = run_submit_effect [OF run]
  have "daemon_inv U (cs(client := Some (current, Waiting))) d" by (rule daemon_inv_doing [OF inv client]) simp_all
  then show ?thesis
    by (rule daemon_inv_work [where client = client and sid = sid])
      (use sid eff quiet_inv [OF eff(1) daemon_invD(1) [OF inv]] quiet_controllers [OF eff(1)] in simp_all)
qed

lemma prepares_inv:
  assumes inv: "daemon_inv U cs d" and client: "cs client = Some (current, Starting sid)"
    and prep: "start_prepare (rq_lib rq) (rq_link rq) (rq_base64 rq) te sid command sz terminal_type handle (dm_ptys d) = (r, c')"
  shows "daemon_inv U (cs(client := Some (current, if r = Ok () then Spawned sid else Waiting))) (d\<lparr>dm_ptys := c'\<rparr>)"
proof -
  have q: "quiet (rq_lib rq) (host_of d) (co_host c')" by (rule start_prepare_quiet [OF prep])
  obtain P where "co_jobs c' = filter P (co_jobs (dm_ptys d))" using start_prepare_jobs [OF prep] by blast
  then have "no_new_work d (d\<lparr>dm_ptys := c'\<rparr>)"
    using has_session_filter by (auto simp: no_new_work_def active_turn_of_def execution_of_def)
  then have inv': "daemon_inv U cs (d\<lparr>dm_ptys := c'\<rparr>)"
    by (rule daemon_inv_quiet [OF inv]) (use quiet_inv [OF q daemon_invD(1) [OF inv]] quiet_controllers [OF q] in simp_all)
  show ?thesis
    by (rule daemon_inv_doing [OF inv' client]) (use daemon_invD(7) [OF inv'] client in \<open>auto split: if_splits\<close>)
qed

lemma inserts_inv:
  assumes inv: "daemon_inv U cs d" and client: "cs client = Some (current, Spawned (mp_session_id j))"
    and ins: "start_insert (rq_lib rq) env i j (dm_ptys d) = (r, c')"
  shows "daemon_inv U (cs(client := Some (current, Waiting))) (d\<lparr>dm_ptys := c'\<rparr>)"
proof -
  have sid: "current = Some (mp_session_id j)" "active_turn_of (mp_session_id j) d = None" using daemon_invD(7) [OF inv] client by blast+
  have q: "quiet (rq_lib rq) (host_of d) (co_host c')" by (rule start_insert_quiet [OF ins])
  have act: "active_turn_of k (d\<lparr>dm_ptys := c'\<rparr>) = active_turn_of k d" for k by (simp add: active_turn_of_def execution_of_def)
  have "daemon_inv U (cs(client := Some (current, Waiting))) d" by (rule daemon_inv_doing [OF inv client]) simp_all
  then show ?thesis
    by (rule daemon_inv_work [where client = client and sid = "mp_session_id j"])
      (use sid act start_insert_live [OF ins] quiet_inv [OF q daemon_invD(1) [OF inv]] quiet_controllers [OF q] in auto)
qed

lemma daemon_inv_calm:
  assumes "daemon_inv U cs d" "calm (dm_ptys d) c'"
  shows "daemon_inv U cs (d\<lparr>dm_ptys := c'\<rparr>)"
  by (rule daemon_inv_quiet [OF assms(1) calm_work [OF assms(2)]]) (use assms daemon_invD(1) [OF assms(1)] in \<open>simp_all add: calm_def\<close>)

text \<open>A connection begins, or one that has no session ends.\<close>

lemma daemon_inv_idle:
  assumes inv: "daemon_inv U cs d" and new: "new = None \<or> new = Some (None, Waiting)" and sub: "U \<subseteq> V"
  shows "daemon_inv V (cs(client := new)) d"
proof -
  have was: "cs c = Some (cur, x)" if "(cs(client := new)) c = Some (cur, x)" "cur \<noteq> None \<or> x \<noteq> Waiting" for c cur x
    using that new by (cases "c = client") auto
  have session: "cs c = Some (Some i, x)" if "(cs(client := new)) c = Some (Some i, x)" for c i x
    using was [OF that] by simp
  show ?thesis
  proof (rule daemon_invI)
    show "\<forall>i. controllers (host_of d) i \<noteq> None \<longrightarrow> i \<in> V" using daemon_invD(2) [OF inv] sub by blast
    show "\<forall>c i x. (cs(client := new)) c = Some (Some i, x) \<longrightarrow> i \<in> V \<and> (\<forall>as. controllers (host_of d) i = Some as \<longrightarrow> as = [c])"
      using session daemon_invD(3,4) [OF inv] sub by (meson subsetD)
    show "\<forall>c c' i x x'. (cs(client := new)) c = Some (Some i, x) \<longrightarrow> (cs(client := new)) c' = Some (Some i, x') \<longrightarrow> c = c'"
      using session daemon_invD(5) [OF inv] by meson
    show "\<forall>c cur sid. (cs(client := new)) c = Some (cur, Submitting sid) \<longrightarrow> cur = Some sid \<and> \<not> has_session sid (dm_ptys d)"
      using was daemon_invD(6) [OF inv] by (meson doing.distinct)
    show "\<forall>c cur sid. (cs(client := new)) c = Some (cur, Starting sid) \<or> (cs(client := new)) c = Some (cur, Spawned sid) \<longrightarrow>
        cur = Some sid \<and> active_turn_of sid d = None"
      using was daemon_invD(7) [OF inv] by (meson doing.distinct)
  qed (use daemon_invD(1,8) [OF inv] in blast)+
qed

lemma disconnects_inv:
  assumes inv: "daemon_inv U cs d" and client: "cs client = Some (current, Waiting)"
    and det: "detach_on_disconnect rq re client current d = Some d'"
  shows "daemon_inv (U \<union> session_ids d') (cs(client := None)) d'"
proof (cases current)
  case None
  then have "d' = d" using det by (simp add: detach_on_disconnect_def)
  then show ?thesis using daemon_inv_idle [OF inv] by blast
next
  case (Some sid)
  obtain r where "detach_session rq re client sid d = Some (r, d')" using det Some by (auto simp: detach_on_disconnect_def)
  then have "orderly client U (current, d) (None, d')"
    using detach_orderly owns_current [OF inv client] Some by blast
  then show ?thesis by (rule daemon_inv_request [OF inv client]) simp
qed

lemma check_submit_Ok: "check_submit rq current sid policy d = Ok () \<Longrightarrow> current = Some sid \<and> \<not> has_session sid (dm_ptys d)"
  by (auto simp: check_submit_def require_current_def and_then_def split: if_splits)

lemma check_start_Ok: "check_start current sid d = Ok () \<Longrightarrow> current = Some sid \<and> active_turn_of sid d = None"
  by (auto simp: check_start_def require_current_def and_then_def split: if_splits)

lemma daemon_step_inv:
  assumes "daemon_step rq (U, cs, d) (U', cs', d')" and inv: "daemon_inv U cs d"
  shows "daemon_inv U' cs' d'"
  using assms(1)
proof (cases rule: daemon_step.cases)
  case (connects client)
  then show ?thesis using daemon_inv_idle [OF inv] by blast
next
  case (disconnects client current re)
  then show ?thesis using disconnects_inv [OF inv] by simp
next
  case (requests client current request re r current')
  have "orderly client U (current, d) (current', d')"
    by (rule process_request_orderly [OF owns_current [OF inv requests(3)] requests(5,6,7,4)])
  then show ?thesis unfolding requests(1,2) by (rule daemon_inv_request [OF inv requests(3)]) simp
next
  case (checks_submit client current sid policy)
  show ?thesis
    unfolding checks_submit(1-3) by (rule daemon_inv_doing [OF inv checks_submit(4)]) (use check_submit_Ok [OF checks_submit(5)] in simp_all)
next
  case (submits client current sid re input approval limits r)
  then show ?thesis using submits_inv [OF inv] by simp
next
  case (checks_start client current sid)
  show ?thesis
    unfolding checks_start(1-3) by (rule daemon_inv_doing [OF inv checks_start(4)]) (use check_start_Ok [OF checks_start(5)] in simp_all)
next
  case (prepares client current sid te command sz terminal_type handle r c')
  show ?thesis unfolding prepares(1-3) by (rule prepares_inv [OF inv prepares(4,5)])
next
  case (inserts client current sid j env i r c')
  show ?thesis unfolding inserts(1-3) by (rule inserts_inv [OF inv inserts(4) [folded inserts(5)] inserts(6)])
next
  case (turn_goes_on x sid)
  then show ?thesis
    using daemon_inv_quiet [OF inv set_execution_work(1)] daemon_invD(1) [OF inv] by (simp add: set_execution_work(2))
next
  case (turn_saves h)
  then show ?thesis
    using daemon_inv_quiet [OF inv no_new_work_set_host(1)] quiet_inv [OF turn_saves(4) daemon_invD(1) [OF inv]] quiet_controllers by simp
next
  case (claims claim_id ticket r c')
  then show ?thesis using daemon_inv_calm [OF inv] calm_streams(1) by blast
next
  case (releases claim)
  then show ?thesis using daemon_inv_calm [OF inv] calm_streams(2) by blast
next
  case (writes claim bytes r c')
  then show ?thesis using daemon_inv_calm [OF inv] calm_streams(3) by blast
next
  case (resizes claim sz r c')
  then show ?thesis using daemon_inv_calm [OF inv] calm_streams(4) by blast
next
  case (works i j j')
  then show ?thesis using daemon_inv_calm [OF inv] calm_streams(5) by blast
next
  case (audits da)
  then show ?thesis using daemon_inv_quiet [OF inv set_audit_work] daemon_invD(1) [OF inv] by simp
qed

lemma daemon_inv_start:
  assumes "reg_inv (registry_of d)" "co_jobs (dm_ptys d) = []" "dm_executions d = []"
  shows "daemon_inv (session_ids d) (\<lambda>_. None) d"
  using assms by (auto intro!: daemon_invI simp: session_ids_controllers active_turn_of_def execution_of_def execution_new_def)

lemma daemon_steps_inv:
  assumes "(daemon_step rq)\<^sup>*\<^sup>* s s'" "case s of (U, cs, d) \<Rightarrow> daemon_inv U cs d"
  shows "case s' of (U, cs, d) \<Rightarrow> daemon_inv U cs d"
  using assms(1)
proof (induction rule: rtranclp_induct)
  case base
  show ?case by (rule assms(2))
next
  case (step y z)
  then show ?case using daemon_step_inv by (cases y; cases z) auto
qed

section \<open>Properties\<close>

text \<open>
  C11. A daemon is started on a consistent registry. Whatever its connections ask for, in any order, with
  turns, terminal workers and streams acting in between (also between the guards of a request and the
  work it starts): a session that is the current one of a connection, and still exists, has that
  connection as its only controller; no two connections have the same current session; and no session
  ever has an active turn and a live terminal job at the same time.
\<close>

theorem sessions_are_exclusive:
  assumes "(daemon_step rq)\<^sup>*\<^sup>* (session_ids d0, (\<lambda>_. None), d0) (U, cs, d)"
    and "reg_inv (registry_of d0)" "co_jobs (dm_ptys d0) = []" "dm_executions d0 = []"
  shows "(\<forall>c i w r. cs c = Some (Some i, w) \<and> map_of (rg_sessions (registry_of d)) i = Some r \<longrightarrow> se_attachments r = [c]) \<and>
    (\<forall>c c' i w w'. cs c = Some (Some i, w) \<and> cs c' = Some (Some i, w') \<longrightarrow> c = c') \<and>
    (\<forall>i. active_turn_of i d = None \<or> \<not> has_session i (dm_ptys d))"
proof -
  have inv: "daemon_inv U cs d" using daemon_steps_inv [OF assms(1)] daemon_inv_start [OF assms(2-4)] by simp
  have "se_attachments r = [c]" if "cs c = Some (Some i, w)" "map_of (rg_sessions (registry_of d)) i = Some r" for c i w r
    using daemon_invD(4) [OF inv that(1), of "se_attachments r"] that(2) by (simp add: controllers_def)
  then show ?thesis using daemon_invD(5,8) [OF inv] by blast
qed

definition demo_setup :: "nat request_setup" where
  "demo_setup = \<lparr>rq_lib = total_lib, rq_link = demo_audit_link, rq_base64 = id, rq_json_len = (\<lambda>_. 1), rq_policy = daemon_policy_default,
     rq_words = split_spaces\<rparr>"

definition demo_request_env :: "(nat, string) request_env" where
  "demo_request_env = \<lparr>re_session = demo_session_env, re_submit = demo_submit_env,
     re_terminal = \<lparr>te_session_env = demo_session_env, te_uuid = ''j'', te_second_uuid = ''t'', te_spawn = Ok (), te_under_way = None\<rparr>,
     re_meanwhile = id, re_woken = [], re_home = Ok ''/'', re_complete = (\<lambda>_ _ _. Err ''no''), re_view = (\<lambda>_ _. Err ''no'')\<rparr>"

definition demo_idle :: "nat daemon" where
  "demo_idle = \<lparr>dm_ptys = co_new demo_start da_disabled, dm_executions = []\<rparr>"

definition demo_connected :: "nat daemon" where
  "demo_connected = set_host (demo_created total_lib) demo_idle"

lemma demo_idle_sel: "host_of demo_idle = demo_start" "co_jobs (dm_ptys demo_idle) = []" "dm_executions demo_idle = []" "session_ids demo_idle = {}"
  by (simp_all add: demo_idle_def co_new_def session_ids_def demo_start_def)

lemma demo_create_request:
  "\<exists>r. process_request demo_setup demo_request_env ''c'' (RqCreate (demo_creation Durable)) (None, demo_idle) = Some (r, (Some ''i'', demo_connected))"
proof -
  define s where "s = projr (fst (create_session total_lib demo_session_env ''c'' (demo_creation Durable) demo_start))"
  have c: "create_session total_lib demo_session_env ''c'' (demo_creation Durable) demo_start = (Ok s, demo_created total_lib)"
    "sd_id (sn_descriptor s) = ''i''" unfolding s_def by code_simp+
  have w: "sc_cwd (demo_creation Durable) \<noteq> ''~''" by (simp add: demo_creation_def)
  have e: "rq_lib demo_setup = total_lib" "re_session demo_request_env = demo_session_env"
    by (simp_all add: demo_setup_def demo_request_env_def)
  show ?thesis unfolding process_request.simps demo_idle_sel e c(1) by (simp add: w c take_up_def Let_def demo_connected_def)
qed

theorem sessions_are_exclusive_witness:
  "\<exists>r. map_of (rg_sessions (registry_of demo_connected)) ''i'' = Some r \<and> se_attachments r = [''c'']"
proof -
  let ?none = "(\<lambda>_. None) :: connections"
  let ?cs = "?none(''c'' := Some (None, Waiting))"
  have inv: "reg_inv (registry_of demo_idle)" by (simp add: demo_idle_sel reg_inv_def names_unique_def in_flight_ok_def demo_start_def)
  have "daemon_step demo_setup ({}, ?none, demo_idle) ({''c''}, ?cs, demo_idle)" by (rule daemon_step.connects) simp
  moreover obtain r where "process_request demo_setup demo_request_env ''c'' (RqCreate (demo_creation Durable)) (None, demo_idle) =
      Some (r, (Some ''i'', demo_connected))" using demo_create_request by blast
  then have "daemon_step demo_setup ({''c''}, ?cs, demo_idle)
      ({''c''} \<union> session_ids demo_connected, ?cs(''c'' := Some (Some ''i'', Waiting)), demo_connected)"
    by (rule daemon_step.requests [rotated 4])
      (simp_all add: demo_idle_sel fresh_uuid_def demo_start_def demo_request_env_def demo_session_env_def)
  ultimately have run: "(daemon_step demo_setup)\<^sup>*\<^sup>* (session_ids demo_idle, ?none, demo_idle)
      ({''c''} \<union> session_ids demo_connected, ?cs(''c'' := Some (Some ''i'', Waiting)), demo_connected)"
    unfolding demo_idle_sel(4) by (meson rtranclp.rtrancl_into_rtrancl r_into_rtranclp)
  have "map_of (rg_sessions (sh_registry (demo_created total_lib))) ''i'' \<noteq> None" by code_simp
  then obtain r where r: "map_of (rg_sessions (registry_of demo_connected)) ''i'' = Some r" by (auto simp: demo_connected_def)
  from sessions_are_exclusive [OF run inv demo_idle_sel(2,3)] have
    "\<forall>c i w r. (?cs(''c'' := Some (Some ''i'', Waiting))) c = Some (Some i, w) \<and> map_of (rg_sessions (registry_of demo_connected)) i = Some r \<longrightarrow>
       se_attachments r = [c]" by blast
  then have "se_attachments r = [''c'']" using r by simp
  with r show ?thesis by blast
qed

end
