(* ===== verification/Remote_Proxy.thy ===== *)
theory Remote_Proxy
  imports Daemon_Requests
begin

text \<open>
  A connection around its requests (\<open>handle_client\<close>) and the proxy that serves a remote client over its
  standard streams (\<open>serve_stdio\<close>, \<open>reject_remote_request\<close>), in
  \<^verbatim>\<open>crates/xshell-session/src/bin/xshelld.rs\<close>. The proxy is an ordinary client of the daemon; it forwards
  the requests of the remote client and keeps the sessions of the host that are not meant for the fabric
  out of its sight.
\<close>

section \<open>A connection\<close>

definition SESSION_PROTOCOL_VERSION :: "32 word" where
  "SESSION_PROTOCOL_VERSION = 16"

definition version_mismatch :: "32 word \<Rightarrow> string" where
  "version_mismatch v =
     ''client speaks session protocol '' @ show_nat (unat v) @ '' but this xshelld requires '' @ show_nat (unat SESSION_PROTOCOL_VERSION) @
     ''; xshell and xshelld are different builds '' @ [CHR 0xE2, CHR 0x80, CHR 0x94] @
     '' upgrade the client or restart xshelld from the same build''"

text \<open>The first request: the response, and whether the connection goes on.\<close>

fun handle_open :: "string \<Rightarrow> session_registry \<Rightarrow> session_request \<Rightarrow> 'v session_response \<times> bool" where
  "handle_open client g (RqOpen v client_version) =
     (if v \<noteq> SESSION_PROTOCOL_VERSION then (RsError ''protocol_version'' (version_mismatch v), False)
      else (RsOpened SESSION_PROTOCOL_VERSION client (rg_host_id g) (rg_host_alias g) (rg_user g), True))"
| "handle_open client g _ = (RsError ''protocol'' ''first request must open a connection'', False)"

text \<open>Every later request: the response, and the claim that the connection serves from then on.\<close>

fun handle_request ::
  "'p request_setup \<Rightarrow> ('p, 'v) request_env \<Rightarrow> string \<Rightarrow> string \<Rightarrow> session_request \<Rightarrow> string option \<times> 'p daemon \<Rightarrow>
   (('v session_response \<times> pty_claim option) \<times> string option \<times> 'p daemon) option" where
  "handle_request rq re claim_id client (RqPtyClaim ticket) (current, d) =
     (case claim_job claim_id ticket (dm_ptys d) of
        (Inl e, c) \<Rightarrow> Some ((RsError ''pty_claim_failed'' e, None), (current, d\<lparr>dm_ptys := c\<rparr>))
      | (Inr claim, c) \<Rightarrow> Some ((RsPtyClaimed, Some claim), (current, d\<lparr>dm_ptys := c\<rparr>)))"
| "handle_request rq re claim_id client request cd =
     map_option (\<lambda>(r, cd). ((case r of Inl e \<Rightarrow> RsError ''request_failed'' e | Inr response \<Rightarrow> response, None), cd))
       (process_request rq re client request cd)"

section \<open>The proxy\<close>

definition remote_visibility_error :: "'v session_response" where
  "remote_visibility_error = RsError ''remote_session_not_visible'' ''session is unavailable through the remote transport''"

fun remote_selector :: "session_request \<Rightarrow> string option" where
  "remote_selector (RqAttach selector wanted) = Some selector"
| "remote_selector (RqSwitch selector wanted) = Some selector"
| "remote_selector (RqClose selector) = selector"
| "remote_selector (RqCompleteShell sid line cursor) = Some sid"
| "remote_selector (RqViewSource sid path) = Some sid"
| "remote_selector (RqPtyStart sid command sz terminal_type) = Some sid"
| "remote_selector (RqPtyAttach sid after_offset) = Some sid"
| "remote_selector (RqPtyClose sid) = Some sid"
| "remote_selector _ = None"

definition visible_in :: "string \<Rightarrow> 'v session_response \<Rightarrow> bool" where
  "visible_in selector response =
     (case response of
        RsCatalog sessions \<Rightarrow> list_ex (\<lambda>s. sd_visibility s = Fabric \<and> (sd_id s = selector \<or> sd_name s = selector)) sessions
      | _ \<Rightarrow> False)"

text \<open>The proxy's own look at the catalogue is a request of the same connection.\<close>

definition reject_remote_request ::
  "'p request_setup \<Rightarrow> ('p, 'v) request_env \<Rightarrow> string \<Rightarrow> string \<Rightarrow> session_request \<Rightarrow> string option \<times> 'p daemon \<Rightarrow>
   ('v session_response option \<times> string option \<times> 'p daemon) option" where
  "reject_remote_request rq re claim_id client request cd =
     (if (case request of RqPtyClaim ticket \<Rightarrow> True | _ \<Rightarrow> False)
      then Some (Some (RsError ''dedicated_pty_connection_required'' ''PTY tickets may only be claimed through serve-pty-stdio''), cd)
      else if (case request of RqCreate c \<Rightarrow> sc_visibility c = HostOnly | _ \<Rightarrow> False) then Some (Some remote_visibility_error, cd)
      else case remote_selector request of
             None \<Rightarrow> Some (None, cd)
           | Some selector \<Rightarrow>
               map_option (\<lambda>((response, _), cd). (if visible_in selector response then None else Some remote_visibility_error, cd))
                 (handle_request rq re claim_id client RqList cd))"

fun retain_fabric :: "'v session_response \<Rightarrow> 'v session_response" where
  "retain_fabric (RsCatalog sessions) = RsCatalog (filter (\<lambda>s. sd_visibility s = Fabric) sessions)"
| "retain_fabric response = response"

text \<open>
  One round of \<open>serve_stdio\<close>. The look at the catalogue and the request are two exchanges with the
  daemon: \<open>between\<close> is what other connections, turns and workers do to the daemon before it takes up the
  request. The connection's own current session is its own.
\<close>

definition remote_request ::
  "'p request_setup \<Rightarrow> ('p, 'v) request_env \<Rightarrow> ('p daemon \<Rightarrow> 'p daemon) \<Rightarrow> string \<Rightarrow> string \<Rightarrow> session_request \<Rightarrow>
   string option \<times> 'p daemon \<Rightarrow> ('v session_response \<times> string option \<times> 'p daemon) option" where
  "remote_request rq re between claim_id client request cd =
     (case reject_remote_request rq re claim_id client request cd of
        None \<Rightarrow> None
      | Some (Some response, cd) \<Rightarrow> Some (response, cd)
      | Some (None, (current, d)) \<Rightarrow>
          map_option (\<lambda>((response, _), cd). (retain_fabric response, cd))
            (handle_request rq re claim_id client request (current, between d)))"

section \<open>The sessions a host keeps to itself\<close>

text \<open>A private session and its controllers.\<close>

definition private_of :: "session_host \<Rightarrow> string \<Rightarrow> string list option" where
  "private_of h i =
     (case map_of (rg_sessions (sh_registry h)) i of
        None \<Rightarrow> None
      | Some r \<Rightarrow> if sd_visibility (descriptor_of r) = HostOnly then Some (se_attachments r) else None)"

text \<open>No session has the identifier of another session, or of the current one, as its name.\<close>

definition ids_apart :: "string option \<Rightarrow> session_registry \<Rightarrow> bool" where
  "ids_apart current g \<longleftrightarrow>
     (\<forall>(i, r) \<in> set (rg_sessions g).
        (current = Some (sd_name (descriptor_of r)) \<longrightarrow> current = Some i) \<and>
        (\<forall>(j, s) \<in> set (rg_sessions g). sd_name (descriptor_of s) = i \<longrightarrow> j = i))"

text \<open>Every private session of the second host was a private session of the first, under the same name.\<close>

definition no_new_private :: "session_registry \<Rightarrow> session_registry \<Rightarrow> bool" where
  "no_new_private g g' \<longleftrightarrow>
     (\<forall>(i, r) \<in> set (rg_sessions g'). sd_visibility (descriptor_of r) = HostOnly \<longrightarrow>
        (\<exists>(j, s) \<in> set (rg_sessions g). j = i \<and> sd_visibility (descriptor_of s) = HostOnly \<and>
           sd_name (descriptor_of s) = sd_name (descriptor_of r)))"

text \<open>A value that was computed from the working directory of a session of the fabric.\<close>

definition served_by_fabric :: "session_registry \<Rightarrow> string \<Rightarrow> (string \<Rightarrow> (string, 'v) result) \<Rightarrow> 'v \<Rightarrow> bool" where
  "served_by_fabric g sid f v \<longleftrightarrow>
     list_ex (\<lambda>(i, r). sd_visibility (descriptor_of r) = Fabric \<and> (i = sid \<or> sd_name (descriptor_of r) = sid) \<and>
       f (sd_cwd (descriptor_of r)) = Ok v) (rg_sessions g)"

text \<open>The session that a request on the current session addresses.\<close>

fun addressed :: "session_request \<Rightarrow> string option" where
  "addressed (RqSubmit sid input approval limits policy) = Some sid"
| "addressed (RqApprove sid reply) = Some sid"
| "addressed (RqCancel sid turn_id) = Some sid"
| "addressed (RqPtyStart sid command sz terminal_type) = Some sid"
| "addressed (RqPtyAttach sid after_offset) = Some sid"
| "addressed (RqPtyClose sid) = Some sid"
| "addressed _ = None"

text \<open>
  What a response tells about sessions, given the request and the daemon that took it up: descriptors and
  snapshots are those of sessions of the fabric, shell completions and viewed files come from the working
  directory of such a session, events from the journal of a session that is not private, and what is
  accepted, started, attached or closed belongs to a session that is not private.
\<close>

definition shows_only_fabric ::
  "('p, 'v) request_env \<Rightarrow> 'p daemon \<Rightarrow> session_request \<Rightarrow> 'v session_response \<Rightarrow> bool" where
  "shows_only_fabric re d request response \<longleftrightarrow>
     (case response of
        RsError code message \<Rightarrow> True
      | RsCatalog sessions \<Rightarrow> list_all (\<lambda>s. sd_visibility s = Fabric) sessions
      | RsCreated s \<Rightarrow> sd_visibility (sn_descriptor s) = Fabric
      | RsAttached s wanted \<Rightarrow> sd_visibility (sn_descriptor s) = Fabric
      | RsSnapshot s \<Rightarrow> sd_visibility (sn_descriptor s) = Fabric
      | RsUpdated s \<Rightarrow> sd_visibility s = Fabric
      | RsShellCompletions v \<Rightarrow>
          (case request of RqCompleteShell sid line cursor \<Rightarrow> served_by_fabric (registry_of d) sid (re_complete re line cursor) v | _ \<Rightarrow> False)
      | RsViewSource v \<Rightarrow>
          (case request of RqViewSource sid path \<Rightarrow> served_by_fabric (registry_of d) sid (re_view re path) v | _ \<Rightarrow> False)
      | RsEvents batch \<Rightarrow>
          (case request of
             RqEvents sid after_sequence wait_ms \<Rightarrow>
               private_of (host_of d) sid = None \<and> batch = events after_sequence (re_woken re) (execution_of sid d)
           | _ \<Rightarrow> False)
      | RsClosed sid \<Rightarrow> private_of (host_of d) sid = None
      | _ \<Rightarrow> (case addressed request of None \<Rightarrow> True | Some sid \<Rightarrow> private_of (host_of d) sid = None))"

lemma persisting_result: "persisting lib env g a h = (r, h') \<Longrightarrow> sh_registry h' = g"
  using persisting_registry [of lib env g a h] by simp

lemma private_set:
  "sh_registry h' = set_session i q (sh_registry h) \<Longrightarrow>
     private_of h' = (private_of h)(i := if sd_visibility (descriptor_of q) = HostOnly then Some (se_attachments q) else None)"
  by (simp add: private_of_def fun_eq_iff)

lemma private_remove: "sh_registry h' = remove_session i (sh_registry h) \<Longrightarrow> private_of h' = (private_of h)(i := None)"
  by (simp add: private_of_def fun_eq_iff)

lemma private_None: "map_of (rg_sessions (sh_registry h)) i = Some q \<Longrightarrow> private_of h i = None \<longleftrightarrow> sd_visibility (descriptor_of q) = Fabric"
  by (cases "sd_visibility (descriptor_of q)") (simp_all add: private_of_def)

lemma private_keep:
  assumes "map_of (rg_sessions (sh_registry h)) i = Some q" "sd_visibility (descriptor_of q') = sd_visibility (descriptor_of q)"
    and "se_attachments q' = se_attachments q \<or> private_of h i = None" "sh_registry h' = set_session i q' (sh_registry h)"
  shows "private_of h' = private_of h"
  using assms private_set [OF assms(4)] by (auto simp: private_of_def fun_eq_iff split: if_splits)

lemma update_execution_state_private: "private_of (snd (update_execution_state lib env sid cwd history h)) = private_of h"
  by (auto simp: update_execution_state_def private_of_def Let_def persisting_registry changed_record_def touched_record_def fun_eq_iff
      split: sum.splits option.splits)

lemma quiet_private: "quiet lib h h' \<Longrightarrow> private_of h' = private_of h"
  by (induction rule: quiet.induct)
    (simp_all add: update_execution_state_private, simp_all add: private_of_def begin_execution_sessions finish_execution_sessions fun_eq_iff)

lemma update_session_private: "private_of (snd (update_session lib env client sid model cwd history h)) = private_of h"
  by (auto simp: update_session_def private_of_def Let_def persisting_registry changed_record_def touched_record_def fun_eq_iff
      split: sum.splits option.splits)

lemma update_session_shows:
  assumes "update_session lib env client sid model cwd history h = (Ok s, h')" "private_of h sid = None"
  shows "sd_visibility s = Fabric"
proof (cases "map_of (rg_sessions (sh_registry h)) sid")
  case (Some q)
  then have "sd_visibility (descriptor_of q) = Fabric" using private_None assms(2) by blast
  then show ?thesis using assms(1) Some
    by (auto simp: update_session_def Let_def persisting_def descriptor_with_status_def changed_record_def split: sum.splits if_splits prod.splits)
qed (use assms(1) in \<open>simp add: update_session_def Let_def split: sum.splits\<close>)

lemma create_session_private:
  assumes "create_session lib env client c h = (r, h')" "sc_visibility c = Fabric" "map_of (rg_sessions (sh_registry h)) (sv_uuid env) = None"
  shows "private_of h' = private_of h \<and> (\<forall>s. r = Ok s \<longrightarrow> sd_visibility (sn_descriptor s) = Fabric \<and> sd_id (sn_descriptor s) = sv_uuid env)"
proof -
  have new: "private_of h'' = private_of h \<and> (\<forall>s. r' = Ok s \<longrightarrow> s = snap)"
    if "persisting lib env (set_session (sv_uuid env) \<lparr>se_snapshot = snap, se_attachments = [client]\<rparr> (sh_registry h)) snap h = (r', h'')"
      "sd_visibility (sn_descriptor snap) = Fabric" for snap r' h''
  proof -
    have "sh_registry h'' = set_session (sv_uuid env) \<lparr>se_snapshot = snap, se_attachments = [client]\<rparr> (sh_registry h)"
      using that(1) persisting_registry by (metis snd_conv)
    then have "private_of h'' = private_of h" using that(2) assms(3) private_set by (fastforce simp: private_of_def fun_eq_iff)
    moreover have "\<forall>s. r' = Ok s \<longrightarrow> s = snap" using that(1) by (fastforce simp: persisting_def split: prod.splits sum.splits)
    ultimately show ?thesis by blast
  qed
  show ?thesis
    using assms(1,2) by (auto simp: create_session_def Let_def new_descriptor_def dest!: new split: sum.splits if_splits)
qed

lemma attach_session_private:
  assumes "attach_session env client selector wanted h = Some (r, h')" "reg_inv (sh_registry h)"
    and public: "\<And>i. resolve (sh_registry h) selector = Ok i \<Longrightarrow> private_of h i = None"
  shows "private_of h' = private_of h \<and> (\<forall>s. r = Ok s \<longrightarrow> sd_visibility (sn_descriptor s) = Fabric \<and> private_of h (sd_id (sn_descriptor s)) = None)"
proof (cases "\<exists>i q. resolve (sh_registry h) selector = Ok i \<and> map_of (rg_sessions (sh_registry h)) i = Some q \<and> wanted = Owner \<and>
    (se_attachments q = [] \<or> client \<in> set (se_attachments q))")
  case True
  then obtain i q where q: "resolve (sh_registry h) selector = Ok i" "map_of (rg_sessions (sh_registry h)) i = Some q" "wanted = Owner"
    "se_attachments q = [] \<or> client \<in> set (se_attachments q)" by blast
  have none: "private_of h i = None" by (rule public [OF q(1)])
  then have fab: "sd_visibility (descriptor_of q) = Fabric" using private_None [OF q(2)] by blast
  have i: "sd_id (descriptor_of q) = i" using reg_invD(3) [OF assms(2) q(2)] by (simp add: record_ok_def)
  let ?joined = "q\<lparr>se_attachments := List.insert client (se_attachments q)\<rparr>"
  show ?thesis
  proof (cases "sv_now env")
    case (Inl e)
    then have "sh_registry h' = set_session i ?joined (sh_registry h)" "\<forall>s. r \<noteq> Ok s"
      using assms(1) q by (auto simp: attach_session_def Let_def split: if_splits)
    then show ?thesis using private_keep [OF q(2), of ?joined] none by simp
  next
    case (Inr now)
    let ?touched = "map_snapshot (map_descriptor (\<lambda>d. d\<lparr>sd_last_active_at := now\<rparr>)) ?joined"
    have "sh_registry h' = set_session i ?touched (sh_registry h)" "r = Ok (snapshot_with_status ?touched)"
      using assms(1) q Inr by (auto simp: attach_session_def Let_def split: if_splits)
    then show ?thesis using private_keep [OF q(2), of ?touched] none fab i by (simp add: snapshot_with_status_def descriptor_with_status_def)
  qed
next
  case False
  then have "h' = h \<and> (\<forall>s. r \<noteq> Ok s)"
    using assms(1) by (auto simp: attach_session_def Let_def split: if_splits sum.splits option.splits)
  then show ?thesis by simp
qed

lemma detach_private:
  assumes "private_of h sid = None"
  shows "private_of (snd (detach lib env client sid h)) = private_of h"
proof (cases "map_of (rg_sessions (sh_registry h)) sid")
  case (Some q)
  let ?left = "q\<lparr>se_attachments := removeAll client (se_attachments q)\<rparr>" and ?h = "snd (detach lib env client sid h)"
  have "sh_registry ?h = set_session sid ?left (sh_registry h) \<or> sh_registry ?h = remove_session sid (sh_registry h)"
    using Some by (simp add: detach_def Let_def persisting_registry)
  then show ?thesis
  proof
    assume "sh_registry ?h = set_session sid ?left (sh_registry h)"
    then show ?thesis by (rule private_keep [OF Some, rotated 2]) (use assms in simp_all)
  next
    assume "sh_registry ?h = remove_session sid (sh_registry h)"
    from private_remove [OF this] show ?thesis using assms by (simp add: fun_upd_idem)
  qed
qed (simp add: detach_def)

lemma close_session_private:
  assumes "close_session lib env client selector h = Some (r, h')"
    and public: "\<And>i. resolve (sh_registry h) selector = Ok i \<Longrightarrow> private_of h i = None"
  shows "private_of h' = private_of h"
proof -
  have "h' = h \<or> (\<exists>i. resolve (sh_registry h) selector = Ok i \<and> sh_registry h' = remove_session i (sh_registry h))"
    using assms(1) by (auto simp: close_session_def Let_def dest: persisting_result split: sum.splits option.splits if_splits)
  then show ?thesis
  proof
    assume "\<exists>i. resolve (sh_registry h) selector = Ok i \<and> sh_registry h' = remove_session i (sh_registry h)"
    then obtain i where "private_of h i = None" "private_of h' = (private_of h)(i := None)" using public private_remove by blast
    then show ?thesis by (simp add: fun_upd_idem)
  qed simp
qed

section \<open>Selectors\<close>

lemma resolve_name:
  assumes "resolve g selector = Ok i" "map_of (rg_sessions g) selector = None" "reg_inv g"
  shows "\<exists>q. map_of (rg_sessions g) i = Some q \<and> sd_name (descriptor_of q) = selector"
proof -
  have "map fst (filter (\<lambda>e. sd_name (descriptor_of (snd e)) = selector) (rg_sessions g)) = [i]"
    using assms(1,2) by (auto simp: resolve_def split: list.splits)
  then have "i \<in> fst ` set (filter (\<lambda>e. sd_name (descriptor_of (snd e)) = selector) (rg_sessions g))"
    by (metis list.set_intros(1) list.set_map)
  then obtain q where "(i, q) \<in> set (rg_sessions g)" "sd_name (descriptor_of q) = selector" by auto
  then show ?thesis using reg_invD(1) [OF assms(3)] by auto
qed

lemma ids_apartD:
  assumes "ids_apart current g" "map_of (rg_sessions g) i = Some q"
  shows "current = Some (sd_name (descriptor_of q)) \<Longrightarrow> current = Some i"
    "map_of (rg_sessions g) j = Some s \<Longrightarrow> sd_name (descriptor_of s) = i \<Longrightarrow> j = i"
  using assms(1) map_of_SomeD [OF assms(2)] map_of_SomeD [of "rg_sessions g" j s] unfolding ids_apart_def by blast+

lemma resolve_current:
  assumes "resolve (sh_registry h) c = Ok i" "reg_inv (sh_registry h)" "ids_apart (Some c) (sh_registry h)" "private_of h c = None"
  shows "private_of h i = None"
proof (cases "map_of (rg_sessions (sh_registry h)) c")
  case None
  then obtain q where "map_of (rg_sessions (sh_registry h)) i = Some q" "sd_name (descriptor_of q) = c" using resolve_name assms(1,2) by blast
  with ids_apartD(1) [OF assms(3)] None show ?thesis by fastforce
qed (use assms resolve_id in fastforce)

lemma visible_catalogue:
  assumes "visible_in selector (RsCatalog (map (descriptor_with_activity d) (list_sessions g)))" "reg_inv g"
  shows "\<exists>i q. map_of (rg_sessions g) i = Some q \<and> sd_visibility (descriptor_of q) = Fabric \<and> (i = selector \<or> sd_name (descriptor_of q) = selector)"
proof -
  obtain i q where "(i, q) \<in> set (rg_sessions g)" "sd_visibility (descriptor_of q) = Fabric"
    "sd_id (descriptor_of q) = selector \<or> sd_name (descriptor_of q) = selector"
    using assms(1) by (auto simp: visible_in_def list_sessions_def list_ex_iff descriptor_with_activity_def descriptor_with_status_def)
  moreover have "map_of (rg_sessions g) i = Some q" using calculation(1) reg_invD(1) [OF assms(2)] by simp
  moreover have "sd_id (descriptor_of q) = i" using reg_invD(3) [OF assms(2) calculation(4)] by (simp add: record_ok_def)
  ultimately show ?thesis by blast
qed

text \<open>A selector that the catalogue shows does not resolve to a private session, also some time later.\<close>

lemma resolve_visible:
  assumes "visible_in selector (RsCatalog (map (descriptor_with_activity d) (list_sessions (sh_registry h))))"
    and inv: "reg_inv (sh_registry h)" "ids_apart current (sh_registry h)" "reg_inv (sh_registry h')"
    and later: "no_new_private (sh_registry h) (sh_registry h')"
    and "resolve (sh_registry h') selector = Ok i"
  shows "private_of h' i = None"
proof (rule ccontr)
  let ?m = "map_of (rg_sessions (sh_registry h))"
  assume p: "private_of h' i \<noteq> None"
  then obtain q where q: "map_of (rg_sessions (sh_registry h')) i = Some q" "sd_visibility (descriptor_of q) = HostOnly"
    by (auto simp: private_of_def split: option.splits if_splits)
  obtain q' where "(i, q') \<in> set (rg_sessions (sh_registry h))" and q': "sd_visibility (descriptor_of q') = HostOnly"
    "sd_name (descriptor_of q') = sd_name (descriptor_of q)"
    using later q(2) map_of_SomeD [OF q(1)] unfolding no_new_private_def by fastforce
  then have old: "?m i = Some q'" using reg_invD(1) [OF inv(1)] by simp
  obtain j s where s: "?m j = Some s" "sd_visibility (descriptor_of s) = Fabric" "j = selector \<or> sd_name (descriptor_of s) = selector"
    using visible_catalogue [OF assms(1) inv(1)] by blast
  have i: "i = selector \<or> sd_name (descriptor_of q') = selector"
  proof (cases "map_of (rg_sessions (sh_registry h')) selector")
    case None
    then show ?thesis using resolve_name [OF assms(6) _ inv(3)] q(1) q'(2) by auto
  next
    case (Some k)
    then show ?thesis using assms(6) resolve_id [OF Some] by simp
  qed
  have "names_unique (rg_sessions (sh_registry h))" using reg_invD(4) [OF inv(1)] .
  with s i old ids_apartD(2) [OF inv(2) old s(1)] ids_apartD(2) [OF inv(2) s(1) old] have "i = j"
    unfolding names_unique_def by blast
  with s(1,2) old q'(1) show False by simp
qed

section \<open>What a request leaves alone\<close>

definition spares :: "string option \<times> 'p daemon \<Rightarrow> string option \<times> 'p daemon \<Rightarrow> bool" where
  "spares cd cd' \<longleftrightarrow>
     private_of (host_of (snd cd')) = private_of (host_of (snd cd)) \<and> (\<forall>i. fst cd' = Some i \<longrightarrow> private_of (host_of (snd cd')) i = None)"

definition public :: "string option \<times> 'p daemon \<Rightarrow> bool" where
  "public cd \<longleftrightarrow> (\<forall>i. fst cd = Some i \<longrightarrow> private_of (host_of (snd cd)) i = None)"

lemma spares_same: "public cd \<Longrightarrow> spares cd cd"
  by (simp add: spares_def public_def)

lemma spares_host:
  "public (current, d) \<Longrightarrow> private_of (host_of d') = private_of (host_of d) \<Longrightarrow> current' = current \<or> current' = None \<Longrightarrow>
   spares (current, d) (current', d')"
  by (auto simp: spares_def public_def)

lemma spares_via: "spares (current, set_host h d) cd' \<Longrightarrow> private_of h = private_of (host_of d) \<Longrightarrow> spares (current, d) cd'"
  unfolding spares_def snd_conv set_host_host by metis

lemma detach_session_private:
  assumes "detach_session rq re client sid d = Some (r, d')" "private_of (host_of d) sid = None"
  shows "private_of (host_of d') = private_of (host_of d)"
proof (cases "\<exists>s. snapshot (registry_of d) sid = Some (Ok s)")
  case True
  then obtain s where s: "snapshot (registry_of d) sid = Some (Ok s)" by blast
  let ?m = "if sd_persistence (sn_descriptor s) = Ephemeral then snd (end_jobs rq re sid (cancel_and_remove sid d)) else d"
  have "quiet (rq_lib rq) (host_of d) (host_of ?m)"
    using end_jobs_work(2) [of rq "cancel_and_remove sid d" re sid] cancel_and_remove_work(2) [of sid d] by (auto simp: quiet_refl)
  then have m: "private_of (host_of ?m) = private_of (host_of d)" by (rule quiet_private)
  have "host_of d' = snd (detach (rq_lib rq) (re_session re) client sid (host_of ?m))"
    using assms(1) s by (auto simp: detach_session_def Let_def split: prod.splits)
  then show ?thesis using detach_private assms(2) m by metis
next
  case False
  then have "d' = d" using assms(1) by (auto simp: detach_session_def split: option.splits sum.splits)
  then show ?thesis by simp
qed

lemma with_activity_visibility [simp]: "sd_visibility (sn_descriptor (with_activity d s)) = sd_visibility (sn_descriptor s)"
  "sd_visibility (descriptor_with_activity d descriptor) = sd_visibility descriptor"
  by (simp_all add: with_activity_def descriptor_with_activity_def)

lemma take_up_spares:
  assumes "take_up rq re client always s response (current, d) = Some (r, cd')" "public (current, d)"
    and s: "sd_visibility (sn_descriptor s) = Fabric" "private_of (host_of d) (sd_id (sn_descriptor s)) = None"
    and shown: "\<And>s. sd_visibility (sn_descriptor s) = Fabric \<Longrightarrow> shown (response s)"
  shows "spares (current, d) cd' \<and> (\<forall>x. r = Ok x \<longrightarrow> shown x)"
proof -
  consider "cd' = (Some (sd_id (sn_descriptor s)), d)" "r = Ok (response (with_activity d s))"
    | p e d' where "current = Some p" "detach_session rq re client p d = Some (Err e, d')" "cd' = (None, d')" "r = Err e"
    | p q d' where "current = Some p" "detach_session rq re client p d = Some (Ok q, d')" "cd' = (Some (sd_id (sn_descriptor s)), d')"
        "r = Ok (response (with_activity d' s))"
    using assms(1) by (auto simp: take_up_def Let_def split: option.splits if_splits sum.splits prod.splits)
  then show ?thesis
  proof cases
    case 1
    then show ?thesis using s shown by (simp add: spares_def)
  next
    case (2 p e d')
    then show ?thesis using detach_session_private [OF 2(2)] assms(2) by (simp add: spares_def public_def)
  next
    case (3 p q d')
    then show ?thesis using detach_session_private [OF 3(2)] assms(2) s shown by (simp add: spares_def public_def)
  qed
qed

lemma snapshot_shows:
  assumes "snapshot (sh_registry h) sid = Some (Ok s)" "\<And>i. resolve (sh_registry h) sid = Ok i \<Longrightarrow> private_of h i = None"
  shows "sd_visibility (sn_descriptor s) = Fabric"
proof -
  obtain i q where q: "resolve (sh_registry h) sid = Ok i" "map_of (rg_sessions (sh_registry h)) i = Some q" "s = snapshot_with_status q"
    using assms(1) by (auto simp: snapshot_def split: sum.splits)
  then have "sd_visibility (descriptor_of q) = Fabric" using private_None assms(2) by blast
  with q(3) show ?thesis by (simp add: snapshot_with_status_def descriptor_with_status_def)
qed

lemma snapshot_served:
  assumes "snapshot (sh_registry h) sid = Some (Ok s)" "\<And>i. resolve (sh_registry h) sid = Ok i \<Longrightarrow> private_of h i = None"
    and "reg_inv (sh_registry h)" "f (sd_cwd (sn_descriptor s)) = Ok v"
  shows "served_by_fabric (sh_registry h) sid f v"
proof -
  obtain i q where q: "resolve (sh_registry h) sid = Ok i" "map_of (rg_sessions (sh_registry h)) i = Some q" "s = snapshot_with_status q"
    using assms(1) by (auto simp: snapshot_def split: sum.splits)
  have fab: "sd_visibility (descriptor_of q) = Fabric" using private_None q(1,2) assms(2) by blast
  have "i = sid \<or> sd_name (descriptor_of q) = sid"
    using resolve_name [OF q(1) _ assms(3)] q(1,2) resolve_id [of "sh_registry h" sid]
    by (cases "map_of (rg_sessions (sh_registry h)) sid") auto
  moreover have "f (sd_cwd (descriptor_of q)) = Ok v" using assms(4) q(3) by (simp add: snapshot_with_status_def descriptor_with_status_def)
  ultimately show ?thesis using fab map_of_SomeD [OF q(2)] unfolding served_by_fabric_def list_ex_iff by auto
qed

lemma require_current_Ok: "require_current current sid = Ok u \<Longrightarrow> current = Some sid"
  by (simp add: require_current_def split: if_splits)

lemma map_sum_OkD: "map_sum id f q = Ok x \<Longrightarrow> \<exists>y. x = f y"
  by (cases q) auto

lemma map_sum_Ok_eq: "map_sum id f q = Ok x \<Longrightarrow> \<exists>y. q = Ok y \<and> x = f y"
  by (cases q) auto

lemma update_spares:
  assumes "run_update rq re client current sid model cwd history d = Some (r, d')" "public (current, d)"
    and resolves: "\<And>c i. current = Some c \<Longrightarrow> resolve (registry_of d) c = Ok i \<Longrightarrow> private_of (host_of d) i = None"
  shows "spares (current, d) (current, d') \<and> (\<forall>x. r = Ok x \<longrightarrow> sd_visibility x = Fabric)"
proof (cases "current = Some sid")
  case True
  let ?u = "update_session (rq_lib rq) (re_session re) client sid model cwd history (host_of d)"
  have none: "private_of (host_of d) sid = None" using assms(2) True by (simp add: public_def)
  consider "d' = d" "\<forall>x. r = Ok x \<longrightarrow> (\<exists>s. snapshot (registry_of d) sid = Some (Ok s) \<and> x = descriptor_with_activity d (sn_descriptor s))"
    | "d' = set_host (snd ?u) d" "r = map_sum id (descriptor_with_activity d') (fst ?u)"
    using assms(1) True
    by (auto simp: run_update_def require_current_def Let_def split: if_splits sum.splits option.splits prod.splits)
  then show ?thesis
  proof cases
    case 1
    then show ?thesis using spares_same [OF assms(2)] snapshot_shows [of "host_of d" sid] resolves [OF True] by fastforce
  next
    case 2
    have "sd_visibility s = Fabric" if "fst ?u = Ok s" for s using update_session_shows [OF _ none] that by (metis prod.collapse)
    then have "\<forall>x. r = Ok x \<longrightarrow> sd_visibility x = Fabric" unfolding 2(2) by (cases "fst ?u") auto
    moreover have "private_of (host_of d') = private_of (host_of d)" by (simp add: 2(1) update_session_private)
    ultimately show ?thesis using spares_host [OF assms(2)] by blast
  qed
next
  case False
  then show ?thesis using assms(1) spares_same [OF assms(2)] by (auto simp: run_update_def require_current_def)
qed

lemma run_submit_private: "run_submit rq re sid input approval limits d = Some (r, d') \<Longrightarrow> private_of (host_of d') = private_of (host_of d)"
  using quiet_private run_submit_effect(1) by blast

lemma run_start_private:
  assumes "run_start rq re sid command sz terminal_type d = Some (r, d')"
    and meanwhile: "\<And>c. private_of (co_host (re_meanwhile re c)) = private_of (co_host c)"
  shows "private_of (host_of d') = private_of (host_of d)"
proof -
  have inner: "private_of (co_host c') = private_of (co_host c)"
    if run: "start_inner (rq_lib rq) al base64 te (re_meanwhile re) sid command cwd sz terminal_type audit c = (r', c')" for al base64 te cwd audit c r' c'
  proof -
    obtain r1 c1 where 1: "start_prepare (rq_lib rq) al base64 te sid command sz terminal_type (map_option fst audit) c = (r1, c1)" by (metis prod.collapse)
    have p: "private_of (co_host c1) = private_of (co_host c)" by (rule quiet_private [OF start_prepare_quiet [OF 1]])
    consider "c' = c1" | i j r2 where "start_insert (rq_lib rq) (te_session_env te) i j (re_meanwhile re c1) = (r2, c')"
      using run 1 by (auto simp: start_inner_def Let_def split: sum.splits prod.splits)
    then show ?thesis
    proof cases
      case 2
      have "private_of (co_host c') = private_of (co_host (re_meanwhile re c1))" by (rule quiet_private [OF start_insert_quiet [OF 2]])
      then show ?thesis by (simp add: meanwhile p)
    qed (use p in simp)
  qed
  show ?thesis
    using assms(1) by (auto simp: run_start_def Let_def dest!: inner split: option.splits sum.splits prod.splits)
qed

lemma close_spares:
  assumes "run_close rq re client selector (current, d) = Some (r, cd')" "public (current, d)"
    and resolves: "\<And>s i. selector = Some s \<or> selector = None \<and> current = Some s \<Longrightarrow> resolve (registry_of d) s = Ok i \<Longrightarrow> private_of (host_of d) i = None"
  shows "spares (current, d) cd' \<and> (\<forall>x. r = Ok x \<longrightarrow> (\<exists>i. x = RsClosed i \<and> private_of (host_of d) i = None))"
proof -
  obtain current' d' where cd': "cd' = (current', d')" by (cases cd')
  have closed: "private_of (host_of d) i = None"
    if "close_session (rq_lib rq) (re_session re) client t (host_of d) = Some (Ok i, k)" "selector = Some t \<or> selector = None \<and> current = Some t" for t i k
    using that(1) resolves [OF that(2)]
    by (auto simp: close_session_def Let_def persisting_def split: sum.splits option.splits if_splits prod.splits)
  have r: "\<forall>x. r = Ok x \<longrightarrow> (\<exists>i. x = RsClosed i \<and> private_of (host_of d) i = None)"
    using assms(1) closed by (auto simp: run_close_def split: option.splits sum.splits prod.splits)
  have cl: "private_of k = private_of (host_of d)"
    if "close_session (rq_lib rq) (re_session re) client t (host_of d) = Some (q, k)" "selector = Some t \<or> selector = None \<and> current = Some t" for t q k
    using close_session_private [OF that(1)] resolves [OF that(2)] by blast
  have fin: "private_of (host_of (end_session rq re i e)) = private_of (host_of e)" for i e
    by (rule quiet_private [OF end_session_work(2)])
  have "private_of (host_of d') = private_of (host_of d) \<and> (current' = current \<or> current' = None)"
    using assms(1) cl by (auto simp: run_close_def cd' fin split: option.splits sum.splits prod.splits if_splits)
  then show ?thesis using spares_host [OF assms(2)] r cd' by blast
qed

lemma process_request_spares:
  assumes inv: "reg_inv (registry_of d)" "map_of (rg_sessions (registry_of d)) (sv_uuid (re_session re)) = None"
    and pub: "public (current, d)" and here: "\<And>sid. current = Some sid \<Longrightarrow> private_of (host_of d) sid = None"
    and meanwhile: "\<And>c. private_of (co_host (re_meanwhile re c)) = private_of (co_host c)"
    and create: "\<And>c. request = RqCreate c \<Longrightarrow> sc_visibility c = Fabric"
    and resolves: "\<And>s i. remote_selector request = Some s \<or> current = Some s \<Longrightarrow> resolve (registry_of d) s = Ok i \<Longrightarrow> private_of (host_of d) i = None"
    and res: "process_request rq re client request (current, d) = Some (r, cd')"
  shows "spares (current, d) cd' \<and> (\<forall>x. r = Ok x \<longrightarrow> shows_only_fabric re d request (retain_fabric x))"
proof (cases request)
  case RqList
  then show ?thesis using res spares_same [OF pub] by (auto simp: list_all_iff shows_only_fabric_def)
next
  case (RqCreate c)
  consider "cd' = (current, d)" "\<forall>x. r \<noteq> Ok x"
    | c' h r' where "create_session (rq_lib rq) (re_session re) client c' (host_of d) = (r', h)" "sc_visibility c' = sc_visibility c"
        "(\<exists>e. r' = Err e \<and> r = Err e \<and> cd' = (current, set_host h d)) \<or>
         (\<exists>s. r' = Ok s \<and> take_up rq re client True s RsCreated (current, set_host h d) = Some (r, cd'))"
    using res RqCreate by (cases "re_home re") (auto split: sum.splits prod.splits if_splits)
  then show ?thesis
  proof cases
    case 1
    then show ?thesis using spares_same [OF pub] by simp
  next
    case (2 c' h r')
    have new: "private_of h = private_of (host_of d)" and s: "\<And>s. r' = Ok s \<Longrightarrow> sd_visibility (sn_descriptor s) = Fabric \<and> sd_id (sn_descriptor s) = sv_uuid (re_session re)"
      using create_session_private [OF 2(1)] 2(2) create RqCreate inv(2) by auto
    have pub': "public (current, set_host h d)" using pub new by (simp add: public_def)
    have none: "private_of h (sv_uuid (re_session re)) = None" using new inv(2) by (simp add: private_of_def)
    from 2(3) show ?thesis
    proof (elim disjE exE conjE)
      fix e assume "r = Err e" "cd' = (current, set_host h d)"
      then show ?thesis using spares_host [OF pub, of "set_host h d"] new by simp
    next
      fix sn assume sn: "r' = Ok sn" "take_up rq re client True sn RsCreated (current, set_host h d) = Some (r, cd')"
      have "spares (current, set_host h d) cd' \<and> (\<forall>x. r = Ok x \<longrightarrow> shows_only_fabric re d request (retain_fabric x))"
        by (rule take_up_spares [OF sn(2) pub']) (use s [OF sn(1)] none in \<open>simp_all add: shows_only_fabric_def\<close>)
      then show ?thesis using spares_via [OF _ new] by blast
    qed
  qed
next
  case (RqUpdate sid model cwd history)
  then obtain q d' where u: "run_update rq re client current sid model cwd history d = Some (q, d')" "cd' = (current, d')" "r = map_sum id RsUpdated q"
    using res by (auto simp: answer_def)
  have up: "spares (current, d) (current, d')" "\<forall>x. q = Ok x \<longrightarrow> sd_visibility x = Fabric"
    using update_spares [OF u(1) pub] resolves by blast+
  then show ?thesis using u(2,3) by (cases q) (auto simp: shows_only_fabric_def)
next
  case (RqAttach selector wanted)
  show ?thesis
  proof (cases "current = None")
    case True
    then obtain r' h where at: "attach_session (re_session re) client selector wanted (host_of d) = Some (r', h)"
      using res RqAttach by (auto split: option.splits)
    have "private_of h = private_of (host_of d)"
      "\<forall>s. r' = Ok s \<longrightarrow> sd_visibility (sn_descriptor s) = Fabric \<and> private_of (host_of d) (sd_id (sn_descriptor s)) = None"
      using attach_session_private [OF at inv(1)] resolves RqAttach by auto
    then show ?thesis using res RqAttach True at by (auto simp: spares_def shows_only_fabric_def Let_def split: sum.splits)
  next
    case False
    then show ?thesis using res RqAttach spares_same [OF pub] by auto
  qed
next
  case (RqSwitch selector wanted)
  then obtain r' h where at: "attach_session (re_session re) client selector wanted (host_of d) = Some (r', h)"
    using res by (auto split: option.splits)
  have new: "private_of h = private_of (host_of d)"
    and s: "\<And>s. r' = Ok s \<Longrightarrow> sd_visibility (sn_descriptor s) = Fabric \<and> private_of (host_of d) (sd_id (sn_descriptor s)) = None"
    using attach_session_private [OF at inv(1)] resolves RqSwitch by auto
  show ?thesis
  proof (cases r')
    case (Inl e)
    then show ?thesis using res RqSwitch at spares_host [OF pub, of "set_host h d"] new by auto
  next
    case (Inr sn)
    have t: "take_up rq re client False sn (\<lambda>s. RsAttached s wanted) (current, set_host h d) = Some (r, cd')" using res RqSwitch at Inr by simp
    have "spares (current, set_host h d) cd' \<and> (\<forall>x. r = Ok x \<longrightarrow> shows_only_fabric re d request (retain_fabric x))"
      by (rule take_up_spares [OF t]) (use s [OF Inr] pub new in \<open>simp_all add: public_def shows_only_fabric_def\<close>)
    then show ?thesis using spares_via [OF _ new] by blast
  qed
next
  case (RqSnapshot sid)
  show ?thesis
  proof (cases "current = Some sid")
    case True
    then obtain q where q: "snapshot (registry_of d) sid = Some q" "r = map_sum id (\<lambda>s. RsSnapshot (with_activity d s)) q" "cd' = (current, d)"
      using res RqSnapshot by (auto simp: require_current_def)
    have "sd_visibility (sn_descriptor s) = Fabric" if "q = Ok s" for s
      using snapshot_shows [of "host_of d" sid s] q(1) that resolves True by blast
    then show ?thesis using q(2,3) spares_same [OF pub] by (cases q) (auto simp: shows_only_fabric_def)
  next
    case False
    then show ?thesis using res RqSnapshot spares_same [OF pub] by (auto simp: require_current_def)
  qed
next
  case (RqSubmit sid input approval limits policy)
  then have "cd' = (current, d) \<and> (\<forall>x. r \<noteq> Ok x) \<or>
      current = Some sid \<and> (\<exists>q d'. run_submit rq re sid input approval limits d = Some (q, d') \<and> cd' = (current, d') \<and> r = map_sum id RsAccepted q)"
    using res by (auto simp: answer_def check_submit_def require_current_def split: sum.splits if_splits)
  then show ?thesis
  proof (elim disjE exE conjE)
    fix q d' assume c: "current = Some sid"
      and q: "run_submit rq re sid input approval limits d = Some (q, d')" "cd' = (current, d')" "r = map_sum id RsAccepted q"
    have "spares (current, d) (current, d')" by (rule spares_host [OF pub run_submit_private [OF q(1)]]) simp
    then show ?thesis using q(2,3) here [OF c] RqSubmit by (cases q) (auto simp: shows_only_fabric_def)
  qed (use spares_same [OF pub] in simp)
next
  case (RqPtyStart sid command sz terminal_type)
  then have "cd' = (current, d) \<and> (\<forall>x. r \<noteq> Ok x) \<or>
      current = Some sid \<and> (\<exists>q d'. run_start rq re sid command sz terminal_type d = Some (q, d') \<and> cd' = (current, d') \<and> r = map_sum id RsPtyStarted q)"
    using res by (auto simp: answer_def check_start_def require_current_def split: sum.splits if_splits)
  then show ?thesis
  proof (elim disjE exE conjE)
    fix q d' assume c: "current = Some sid"
      and q: "run_start rq re sid command sz terminal_type d = Some (q, d')" "cd' = (current, d')" "r = map_sum id RsPtyStarted q"
    have "spares (current, d) (current, d')" by (rule spares_host [OF pub run_start_private [OF q(1) meanwhile]]) simp
    then show ?thesis using q(2,3) here [OF c] RqPtyStart by (cases q) (auto simp: shows_only_fabric_def)
  qed (use spares_same [OF pub] in simp)
next
  case (RqPtyAttach sid after_offset)
  obtain q c' where at: "attach_job (te_uuid (re_terminal re)) sid after_offset (dm_ptys d) = (q, c')" by (metis prod.collapse)
  have "(cd' = (current, d) \<or> cd' = (current, d\<lparr>dm_ptys := c'\<rparr>)) \<and> (\<forall>x. r = Ok x \<longrightarrow> current = Some sid \<and> (\<exists>t. x = RsPtyAttached t))"
    using res RqPtyAttach at by (cases q) (auto simp: answer_def require_current_def split: sum.splits if_splits)
  then show ?thesis
    using spares_same [OF pub] spares_host [OF pub, of "d\<lparr>dm_ptys := c'\<rparr>"] attach_job_work(2) [OF at] here RqPtyAttach
    by (auto simp: shows_only_fabric_def)
next
  case (RqPtyClose sid)
  have "(cd' = (current, d) \<or> cd' = (current, snd (end_jobs rq re sid d))) \<and> (\<forall>x. r = Ok x \<longrightarrow> current = Some sid \<and> x = RsPtyClosed)"
    using res RqPtyClose by (auto simp: require_current_def split: sum.splits prod.splits if_splits)
  then show ?thesis
    using spares_same [OF pub] spares_host [OF pub quiet_private [OF end_jobs_work(2)], of current rq re sid] here RqPtyClose
    by (auto simp: shows_only_fabric_def)
next
  case RqDetach
  show ?thesis
  proof (cases current)
    case (Some sid)
    then obtain q d' where q: "detach_session rq re client sid d = Some (q, d')" "cd' = (None, d')" "r = map_sum id RsDetached q"
      using res RqDetach by (auto simp: answer_def)
    have "private_of (host_of d') = private_of (host_of d)" using detach_session_private [OF q(1)] pub Some by (simp add: public_def)
    then show ?thesis using spares_host [OF pub] q(2,3) RqDetach by (cases q) (auto simp: shows_only_fabric_def)
  qed (use res RqDetach spares_same [OF pub] in \<open>auto simp: shows_only_fabric_def\<close>)
next
  case (RqClose selector)
  have "run_close rq re client selector (current, d) = Some (r, cd')" using res RqClose by simp
  from close_spares [OF this pub] have "spares (current, d) cd' \<and> (\<forall>x. r = Ok x \<longrightarrow> (\<exists>i. x = RsClosed i \<and> private_of (host_of d) i = None))"
    using resolves RqClose by auto
  then show ?thesis by (auto simp: shows_only_fabric_def)
next
  case (RqApprove sid reply)
  then show ?thesis
    using res spares_same [OF pub] spares_host [OF pub, of "set_execution sid x d" current for x] here
    by (auto simp: set_execution_def shows_only_fabric_def dest!: map_sum_OkD require_current_Ok split: sum.splits prod.splits)
next
  case (RqCancel sid turn_id)
  then show ?thesis
    using res spares_same [OF pub] spares_host [OF pub, of "set_execution sid x d" current for x] here
    by (auto simp: set_execution_def shows_only_fabric_def dest!: map_sum_OkD require_current_Ok split: sum.splits prod.splits)
next
  case (RqCompleteShell sid line cursor)
  then obtain q where q: "snapshot (registry_of d) sid = Some q" "cd' = (current, d)"
    "r = map_sum id RsShellCompletions (and_then q (\<lambda>s. re_complete re line cursor (sd_cwd (sn_descriptor s))))" using res by auto
  have "served_by_fabric (registry_of d) sid (re_complete re line cursor) v"
    if "q = Ok s" "re_complete re line cursor (sd_cwd (sn_descriptor s)) = Ok v" for s v
    by (rule snapshot_served [of "host_of d" sid s, OF _ _ inv(1)]) (use q(1) that resolves [of sid] RqCompleteShell in simp_all)
  then show ?thesis using q(2,3) spares_same [OF pub] RqCompleteShell
    by (cases q) (auto simp: shows_only_fabric_def split: sum.splits dest!: map_sum_Ok_eq)
next
  case (RqViewSource sid path)
  show ?thesis
  proof (cases "current = Some sid")
    case True
    then obtain q where q: "snapshot (registry_of d) sid = Some q" "cd' = (current, d)"
      "r = map_sum id RsViewSource (and_then q (\<lambda>s. re_view re path (sd_cwd (sn_descriptor s))))"
      using res RqViewSource by (auto simp: require_current_def)
    have "served_by_fabric (registry_of d) sid (re_view re path) v"
      if "q = Ok s" "re_view re path (sd_cwd (sn_descriptor s)) = Ok v" for s v
      by (rule snapshot_served [of "host_of d" sid s, OF _ _ inv(1)]) (use q(1) that resolves [of sid] True in simp_all)
    then show ?thesis using q(2,3) spares_same [OF pub] RqViewSource
      by (cases q) (auto simp: shows_only_fabric_def split: sum.splits dest!: map_sum_Ok_eq)
  qed (use res RqViewSource spares_same [OF pub] in \<open>auto simp: require_current_def\<close>)
next
  case (RqEvents sid after_sequence wait_ms)
  then show ?thesis
    using res spares_same [OF pub] here by (auto simp: shows_only_fabric_def dest!: require_current_Ok split: sum.splits)
qed (use res spares_same [OF pub] in \<open>auto split: sum.splits\<close>)

lemma handle_request_process:
  "\<forall>t. request \<noteq> RqPtyClaim t \<Longrightarrow> handle_request rq re claim_id client request cd =
     map_option (\<lambda>(r, cd). ((case r of Inl e \<Rightarrow> RsError ''request_failed'' e | Inr response \<Rightarrow> response, None), cd))
       (process_request rq re client request cd)"
  by (cases request; cases cd) simp_all

lemma handle_request_list:
  "handle_request rq re claim_id client RqList (current, d) =
     Some ((RsCatalog (map (descriptor_with_activity d) (list_sessions (registry_of d))), None), (current, d))"
  by simp

text \<open>A request that the proxy forwards: its selector, if it has one, belongs to a session of the fabric.\<close>

lemma forwarded:
  assumes "reject_remote_request rq re claim_id client request (current, d) = Some (None, cd)"
  shows "cd = (current, d)" "request \<noteq> RqPtyClaim t" "request = RqCreate c \<Longrightarrow> sc_visibility c = Fabric"
    "remote_selector request = Some s \<Longrightarrow> visible_in s (RsCatalog (map (descriptor_with_activity d) (list_sessions (registry_of d))) :: 'v session_response)"
proof -
  have claim: "\<not> (case request of RqPtyClaim ticket \<Rightarrow> True | _ \<Rightarrow> False)"
    and create: "\<not> (case request of RqCreate c \<Rightarrow> sc_visibility c = HostOnly | _ \<Rightarrow> False)"
    using assms unfolding reject_remote_request_def by (simp_all split: if_splits)
  note rej = assms [unfolded reject_remote_request_def if_not_P [OF claim] if_not_P [OF create] handle_request_list]
  show "cd = (current, d)" using rej by (simp split: option.splits if_splits)
  show "request \<noteq> RqPtyClaim t" using claim by auto
  show "sc_visibility c = Fabric" if "request = RqCreate c" using create that by (cases "sc_visibility c") auto
  show "visible_in s (RsCatalog (map (descriptor_with_activity d) (list_sessions (registry_of d))) :: 'v session_response)" if "remote_selector request = Some s"
    using rej that by (simp add: visible_in_def split: if_splits)
qed

section \<open>Properties\<close>

text \<open>
  C12. Whatever a remote client asks for through the proxy: what it is shown comes from sessions of the
  fabric; the sessions that the host keeps to itself, and who controls them, are the same afterwards; and
  the connection of the proxy does not get one of them as its current session. The request is taken up by
  the daemon as other connections have left it after the proxy's look at the catalogue. In both states the
  registry is consistent and the connection's current session is not private, and identifiers of new
  sessions are fresh. Beyond that, there are three conditions. In both states of the daemon no session has the identifier of another session, or of
  the current one, as its name. Other connections have not, between the look and the request, made or
  renamed a private session. And whoever acts while a terminal job is being started leaves the private
  sessions and their controllers alone.
\<close>

theorem remote_requests_spare_private_sessions:
  assumes "reg_inv (registry_of d)" "ids_apart current (registry_of d)"
    and "reg_inv (registry_of (between d))" "ids_apart current (registry_of (between d))" "fresh_uuid (re_session re) (registry_of (between d))"
    and "\<forall>i. current = Some i \<longrightarrow> private_of (host_of d) i = None \<and> private_of (host_of (between d)) i = None"
    and "no_new_private (registry_of d) (registry_of (between d))"
    and "\<And>c. private_of (co_host (re_meanwhile re c)) = private_of (co_host c)"
    and "remote_request rq re between claim_id client request (current, d) = Some (response, (current', d'))"
  shows "shows_only_fabric re (between d) request response \<and>
    (d' = d \<or> private_of (host_of d') = private_of (host_of (between d))) \<and>
    (\<forall>i. current' = Some i \<longrightarrow> private_of (host_of d') i = None)"
proof -
  let ?e = "between d"
  have here: "private_of (host_of ?e) i = None" if "current = Some i" for i using assms(6) that by blast
  then have pub: "public (current, ?e)" by (simp add: public_def)
  obtain a cd where rej: "reject_remote_request rq re claim_id client request (current, d) = Some (a, cd)"
    using assms(9) by (cases "reject_remote_request rq re claim_id client request (current, d)") (auto simp: remote_request_def)
  show ?thesis
  proof (cases a)
    case (Some e)
    have "cd = (current, d)" "shows_only_fabric re ?e request e"
      using rej Some by (auto simp: reject_remote_request_def remote_visibility_error_def shows_only_fabric_def split: if_splits option.splits)
    then show ?thesis using assms(6,9) rej Some by (simp add: remote_request_def)
  next
    case None
    note fw = forwarded [OF rej [unfolded None]]
    have resolves: "private_of (host_of ?e) i = None"
      if "remote_selector request = Some s \<or> current = Some s" "resolve (registry_of ?e) s = Ok i" for s i
      using that(1)
    proof
      assume "remote_selector request = Some s"
      from resolve_visible [OF fw(4) [OF this] assms(1,2,3,7) that(2)] show ?thesis .
    next
      assume c: "current = Some s"
      show ?thesis by (rule resolve_current [OF that(2) assms(3)]) (use c assms(4) here in simp_all)
    qed
    obtain x where "handle_request rq re claim_id client request (current, ?e) = Some (x, (current', d'))" "response = retain_fabric (fst x)"
      using assms(9) rej None fw(1) by (auto simp: remote_request_def)
    moreover have "\<forall>t. request \<noteq> RqPtyClaim t" using fw(2) by blast
    ultimately obtain r where r: "process_request rq re client request (current, ?e) = Some (r, (current', d'))"
      "response = retain_fabric (case r of Inl e \<Rightarrow> RsError ''request_failed'' e | Inr response \<Rightarrow> response)"
      by (auto simp: handle_request_process)
    have "map_of (rg_sessions (registry_of ?e)) (sv_uuid (re_session re)) = None" using assms(5) by (auto simp: fresh_uuid_def map_of_eq_None_iff)
    then have "spares (current, ?e) (current', d') \<and> (\<forall>x. r = Ok x \<longrightarrow> shows_only_fabric re ?e request (retain_fabric x))"
      by (rule process_request_spares [OF assms(3) _ pub here assms(8) fw(3) resolves r(1)])
    then have "private_of (host_of d') = private_of (host_of ?e)" "\<forall>i. current' = Some i \<longrightarrow> private_of (host_of d') i = None"
      "\<forall>x. r = Ok x \<longrightarrow> shows_only_fabric re ?e request (retain_fabric x)" unfolding spares_def fst_conv snd_conv by blast+
    moreover from this(3) have "shows_only_fabric re ?e request response" using r(2) by (cases r) (simp_all add: shows_only_fabric_def)
    ultimately show ?thesis by blast
  qed
qed

definition demo_remote_env :: "(nat, string) request_env" where
  "demo_remote_env = demo_request_env\<lparr>re_session := demo_session_env\<lparr>sv_uuid := ''j''\<rparr>\<rparr>"

definition demo_remote_creation :: "string \<Rightarrow> session_creation" where
  "demo_remote_creation name = (demo_creation Durable)\<lparr>sc_name := name, sc_visibility := Fabric\<rparr>"

definition demo_remote ::
  "string \<Rightarrow> session_request \<Rightarrow> string option \<times> nat daemon \<Rightarrow> (string session_response \<times> string option \<times> nat daemon) option" where
  "demo_remote = remote_request demo_setup demo_remote_env (\<lambda>d. d) ''k''"

definition demo_remote_host :: "string \<Rightarrow> session_host \<Rightarrow> session_host" where
  "demo_remote_host name h = snd (create_session total_lib (re_session demo_remote_env) ''r'' (demo_remote_creation name) h)"

lemma demo_remote_create:
  assumes "create_session total_lib (re_session demo_remote_env) ''r'' (demo_remote_creation name) (host_of d) = (Ok s, h)" "sd_id (sn_descriptor s) = ''j''"
  shows "\<exists>response. demo_remote ''r'' (RqCreate (demo_remote_creation name)) (None, d) = Some (response, (Some ''j'', set_host h d))"
proof -
  have "rq_lib demo_setup = total_lib" "sc_visibility (demo_remote_creation name) = Fabric" "sc_cwd (demo_remote_creation name) \<noteq> ''~''"
    by (simp_all add: demo_setup_def demo_remote_creation_def demo_creation_def)
  then show ?thesis using assms by (simp add: demo_remote_def remote_request_def reject_remote_request_def take_up_def Let_def)
qed

lemma visible_in_catalogue:
  "visible_in selector (RsCatalog (map (descriptor_with_activity d) ds)) \<longleftrightarrow>
     list_ex (\<lambda>s. sd_visibility s = Fabric \<and> (sd_id s = selector \<or> sd_name s = selector)) ds"
  by (simp add: visible_in_def list_ex_iff descriptor_with_activity_def)

lemma demo_remote_attach:
  assumes "list_ex (\<lambda>s. sd_visibility s = Fabric \<and> (sd_id s = selector \<or> sd_name s = selector)) (list_sessions (registry_of d))"
    and "attach_session (re_session demo_remote_env) client selector Owner (host_of d) = Some (Ok s, h)"
  shows "demo_remote client (RqAttach selector Owner) (None, d) =
    Some (RsAttached (with_activity (set_host h d) s) Owner, (Some (sd_id (sn_descriptor s)), set_host h d))"
  using assms by (simp add: demo_remote_def remote_request_def reject_remote_request_def visible_in_catalogue Let_def)

theorem remote_requests_spare_private_sessions_witness:
  "\<exists>response d. demo_remote ''r'' (RqCreate (demo_remote_creation ''v'')) (None, demo_connected) = Some (response, (Some ''j'', d)) \<and>
    shows_only_fabric demo_remote_env demo_connected (RqCreate (demo_remote_creation ''v'')) response \<and> private_of (host_of d) ''i'' = Some [''c'']"
proof -
  let ?h = "demo_created total_lib" and ?env = "re_session demo_remote_env"
  let ?s = "projr (fst (create_session total_lib ?env ''r'' (demo_remote_creation ''v'') ?h))"
  have host: "host_of demo_connected = ?h" by (simp add: demo_connected_def)
  have "create_session total_lib ?env ''r'' (demo_remote_creation ''v'') ?h = (Ok ?s, demo_remote_host ''v'' ?h)" "sd_id (sn_descriptor ?s) = ''j''"
    by code_simp+
  then obtain response d where res: "demo_remote ''r'' (RqCreate (demo_remote_creation ''v'')) (None, demo_connected) = Some (response, (Some ''j'', d))"
    using demo_remote_create [of "''v''" demo_connected] host by metis
  have reg: "reg_inv (registry_of demo_connected)" using reachable_inv [OF demo_reachable(1)] by (simp add: host)
  have fresh: "fresh_uuid ?env (registry_of demo_connected)"
    unfolding host fresh_uuid_def by code_simp
  have apart: "ids_apart None (registry_of demo_connected)" unfolding host ids_apart_def by code_simp
  have old: "no_new_private (registry_of demo_connected) (registry_of demo_connected)" unfolding host no_new_private_def by code_simp
  have m: "private_of (co_host (re_meanwhile demo_remote_env c)) = private_of (co_host c)" for c
    by (simp add: demo_remote_env_def demo_request_env_def)
  have "private_of ?h ''i'' = Some [''c'']" by code_simp
  then show ?thesis
    using remote_requests_spare_private_sessions [OF reg apart reg apart fresh _ old m res [unfolded demo_remote_def]] res host by auto
qed

text \<open>
  Nothing keeps a remote client from naming a session after the identifier of a private one. On a host
  with a private session \<open>i\<close> that nobody controls, a remote client creates a session named \<open>i\<close>; on its next
  connection the proxy lets it attach to \<open>i\<close>, because a session of the fabric has that name, and the daemon,
  for which identifiers come before names, makes the remote client the controller of the private session.
\<close>

theorem remote_client_reaches_private_session:
  "\<exists>response d s d'. private_of demo_left ''i'' = Some [] \<and>
     demo_remote ''r'' (RqCreate (demo_remote_creation ''i'')) (None, set_host demo_left demo_idle) = Some (response, (Some ''j'', d)) \<and>
     demo_remote ''q'' (RqAttach ''i'' Owner) (None, d) = Some (RsAttached s Owner, (Some ''i'', d')) \<and>
     sd_visibility (sn_descriptor s) = HostOnly \<and> private_of (host_of d') ''i'' = Some [''q'']"
proof -
  let ?env = "re_session demo_remote_env" and ?d = "set_host demo_left demo_idle" and ?h = "demo_remote_host ''i'' demo_left"
  let ?c = "projr (fst (create_session total_lib ?env ''r'' (demo_remote_creation ''i'') demo_left))"
  let ?s = "projr (fst (the (attach_session ?env ''q'' ''i'' Owner ?h)))" and ?k = "snd (the (attach_session ?env ''q'' ''i'' Owner ?h))"
  have c: "create_session total_lib ?env ''r'' (demo_remote_creation ''i'') demo_left = (Ok ?c, ?h)" "sd_id (sn_descriptor ?c) = ''j''"
    by code_simp+
  have v: "list_ex (\<lambda>s. sd_visibility s = Fabric \<and> (sd_id s = ''i'' \<or> sd_name s = ''i'')) (list_sessions (sh_registry ?h))" by code_simp
  have a: "attach_session ?env ''q'' ''i'' Owner ?h = Some (Ok ?s, ?k)" "sd_id (sn_descriptor ?s) = ''i''" "sd_visibility (sn_descriptor ?s) = HostOnly"
    "private_of ?k ''i'' = Some [''q'']" "private_of demo_left ''i'' = Some []"
    by code_simp+
  obtain response where 1: "demo_remote ''r'' (RqCreate (demo_remote_creation ''i'')) (None, ?d) = Some (response, (Some ''j'', set_host ?h ?d))"
    using demo_remote_create [of "''i''" ?d ?c ?h] c by (auto simp: set_host_host)
  have 2: "demo_remote ''q'' (RqAttach ''i'' Owner) (None, set_host ?h ?d) =
      Some (RsAttached (with_activity (set_host ?k (set_host ?h ?d)) ?s) Owner, (Some ''i'', set_host ?k (set_host ?h ?d)))"
    using demo_remote_attach [of "''i''" "set_host ?h ?d" "''q''" ?s ?k] v a(1,2) by (simp only: set_host_host)
  show ?thesis using 1 2 a(3-5) by (metis set_host_host with_activity_visibility(1))
qed

end
