(* ===== verification/Spec2Isabelle.thy ===== *)
theory Spec2Isabelle
  imports Policy Budget Chat Engine Direct_Shell Audit_Service Plan_Lower Turn_Run Remote_Proxy
begin

text \<open>
  Verification of xshell, an agent-native shell. xshell sends what the user types either to a shell
  or to a language model that may call tools (read and write files, search, run commands, delegate
  to other agents). A daemon, \<^verbatim>\<open>xshelld\<close>, keeps sessions and runs their turns; a separate service,
  \<^verbatim>\<open>xshell-auditd\<close>, keeps a signed record of what happened. Flows and plans are a second way in: a typed
  dataflow graph is validated and lowered to an execution plan. All paths below are under
  \<^verbatim>\<open>src/crates/\<close>.

  \<^bold>\<open>How the parts interact\<close>

  A client asks the daemon for a turn (\<open>submit\<close>). The daemon clamps what was asked to its own ceilings,
  reserves the session's only turn, records the input with the audit service, marks the operation in
  its state file and starts the agent loop (\<open>run_agent_turn\<close>). The loop charges a budget shared with
  its subagents before every provider request, compacts the history, sends it, and for every tool call
  of the answer asks the policy whether to run, to prompt or to deny. Each event of the loop goes to
  the observer (\<open>observer_emit\<close>), which records it with the audit service first and then in the replay
  journal that clients poll. A turn that fails takes its messages back out of the history. A session
  may instead run an interactive command in a terminal that outlives its clients; a client claims it
  with a ticket and follows it in binary frames. Remote clients go through a proxy that shows them only
  the sessions meant for the fabric.

  \<^bold>\<open>Theories and the source they model\<close>

  \<^item> \<open>Rust_Std\<close>: the language and standard library: results, strings as lists of bytes, ordered maps,
    saturating and wrapping integers; the collections of rewrite rules the other theories share.
  \<^item> \<open>Policy\<close> (\<^verbatim>\<open>xshell-execution/src/policy.rs\<close>), \<open>Sensitive\<close> (\<^verbatim>\<open>sensitive.rs\<close>), \<open>Budget\<close> (\<^verbatim>\<open>budget.rs\<close>),
    \<open>Call_Id\<close> (\<^verbatim>\<open>call_id.rs\<close>), \<open>Compaction\<close> (\<^verbatim>\<open>compaction.rs\<close>), \<open>Prepared\<close> (\<^verbatim>\<open>prepared.rs\<close>), \<open>Tools\<close>
    (\<^verbatim>\<open>tools.rs\<close>), \<open>Engine\<close> (\<^verbatim>\<open>engine.rs\<close>), \<open>Direct_Shell\<close> (the shell lines of \<^verbatim>\<open>engine.rs\<close>),
    \<open>Chat\<close> (\<^verbatim>\<open>xshell-core/src/lib.rs\<close>).
  \<^item> \<open>Engine_Observed\<close> and \<open>Os_Progress\<close>: two interfaces of the loop. The locale \<open>observed_engine\<close> says
    what an observer promises for each single event, and shows that a whole turn, subagents included,
    keeps it; \<open>os_progress\<close> does the same for the system calls of the tools. \<open>Daemon_Turn\<close> interprets both
    for the audit trail, \<open>Turn_Run\<close> for the journal and the reservation of the session.
  \<^item> \<open>Audit_Log\<close> (\<^verbatim>\<open>xshell-audit/src/log.rs\<close>, \<^verbatim>\<open>model.rs\<close>), \<open>Audit_Service\<close> (\<^verbatim>\<open>client.rs\<close>, \<^verbatim>\<open>protocol.rs\<close>
    and the connection handler of \<^verbatim>\<open>bin/xshell-auditd.rs\<close>).
  \<^item> \<open>Flow_Model\<close>, \<open>Flow_Validate\<close>, \<open>Flow_Hash\<close> (\<^verbatim>\<open>xshell-flow/src/\<close>), \<open>Topo\<close> (the traversal that the
    validator and the lowering share), \<open>Plan_Model\<close>, \<open>Plan_Encode\<close>, \<open>Plan_Lower\<close> (\<^verbatim>\<open>xshell-plan/src/\<close>:
    \<^verbatim>\<open>model.rs\<close>, \<^verbatim>\<open>hash.rs\<close>, \<^verbatim>\<open>lower.rs\<close>, \<^verbatim>\<open>conflict.rs\<close>).
  \<^item> \<open>Session_Registry\<close> (\<^verbatim>\<open>xshell-session/src/registry.rs\<close>, \<^verbatim>\<open>model.rs\<close>), \<open>Session_Execution\<close> (journal,
    approvals and cancellation of \<^verbatim>\<open>execution.rs\<close>), \<open>Daemon_Audit\<close> (\<^verbatim>\<open>audit.rs\<close>), \<open>Daemon_Turn\<close> (the
    observer of \<^verbatim>\<open>execution.rs\<close>), \<open>Daemon_Submit\<close> (\<open>submit\<close>) and \<open>Turn_Run\<close> (\<open>run_turn\<close>, the
    thread of a turn).
  \<^item> \<open>Pty_Frames\<close> (\<^verbatim>\<open>pty_stream.rs\<close>), \<open>Terminal_Stream\<close> (one terminal job of \<^verbatim>\<open>pty.rs\<close>: its input queue,
    replay buffer, worker and audit), \<open>Terminal_Jobs\<close> (all jobs: start, tickets, claims, end).
  \<^item> \<open>Daemon_Requests\<close> (\<open>process_request\<close> of \<^verbatim>\<open>bin/xshelld.rs\<close>, the messages of \<^verbatim>\<open>protocol.rs\<close>) and
    \<open>Remote_Proxy\<close> (a connection around its requests, and the proxy \<open>serve_stdio\<close> for remote clients).
    These put the registry, the turns and the terminal jobs together.

  A struct is a record and an enum a datatype with the source's variants. State is passed explicitly;
  an operation returns its result with the new state. A Rust \<open>Result\<close> is a sum (\<open>Ok\<close>, \<open>Err\<close>), and a panic
  or a loop without end is the value \<open>None\<close> of an option around it; that it does not occur is then a
  theorem (\<open>lower_always_returns\<close>, \<open>journal_is_longest_fitting_suffix\<close>), not a convention of the model.

  \<^bold>\<open>What the theorems show\<close>

  \<^item> \<^emph>\<open>Authorisation\<close>: a shell denial cannot be bypassed by quoting, chaining or an allow entry; off mode
    denies what is gated; in ask mode an unattended call is read-only or allowed by the host; an overlay
    only restricts; the loop executes a tool call only if the policy or the user let it; the read-only
    tools stay below the working directory; the default patterns cover the usual credential files.
  \<^item> \<^emph>\<open>Turns\<close>: a turn ends and makes no more provider requests than its limits, charges of concurrent
    subagents never overshoot, it leaves every tool call answered, and a failed turn is taken back.
    Compaction keeps the conversation and reaches its budget or a floor: nothing is left that it may
    drop, and the newest tool result has no room to be cut to.
  \<^item> \<^emph>\<open>Audit\<close>: an acknowledged record is durable, a closed log verifies, a checkpoint pins all records
    before it unless two records at one place collide, and with required auditing no tool runs before its request and approval were
    acknowledged, whatever clients and other threads do meanwhile.
  \<^item> \<^emph>\<open>Daemon\<close>: sessions stay consistent through every sequence of requests and faults of the state file,
    one client controls a session, a restart recovers what was durable, an accepted turn is alone,
    recorded, marked and bounded; its thread ends and reports as completed only what is stored, or it
    waits for an approval that nobody gives (the source waits without a deadline); the journal is the
    longest suffix that fits and reports every gap, an approval is used once. However connections, turns and terminal workers interleave, a session is
    the current one of at most one connection, which controls it alone, and never has a turn and a
    terminal job at once. Remote requests show only sessions of the fabric and leave private sessions
    alone, as long as no session is named by the identifier of another (otherwise they do not:
    \<open>remote_client_reaches_private_session\<close>) and no private session appears between the two exchanges
    of the proxy with the daemon.
  \<^item> \<^emph>\<open>Terminals\<close>: frames read back as they were written; a job loses, repeats and reorders nothing; its
    audit records are the bytes up to the budget; one claim holds a job, and a claim that ended stays so.
  \<^item> \<^emph>\<open>Flows and plans\<close>: the validator accepts exactly the well-formed graphs; a plan has no write races,
    lists what a task waits for before it, and has typed bindings; its bytes identify it, and equal
    hashes mean equal plans unless the bytes of the two plans collide. That a plan makes progress is not
    shown: a node outside a loop between a member of the loop and its exit gate makes it wait for itself.

  \<^bold>\<open>Parameters\<close>

  Code outside the repository is an argument of the definitions: the JSON printer and parser, hashing
  and signatures, \<open>shell_words\<close>, the provider's answers, the operating system's files and processes, the
  clock, random identifiers, and the faults of the state file. Where a theorem needs a law of such code
  (a codec reads back what it printed for the values at hand, hexadecimal text is injective, a signature
  made with a key verifies) it is a named hypothesis, and a witness instantiates it. A digest has no such
  law: where two values have one digest, the theorem says so of the two values compared
  (\<open>records_collide\<close>, \<open>forms_collide\<close>, \<open>plans_collide\<close>). The
  other threads of the daemon are a relation: between any two steps of the observer they may take any
  sequence of \<open>other_step\<close>s, which are the requests a client may send and the end of a session. The jobs
  and the connections have step relations of their own (\<open>co_step\<close>, \<open>daemon_step\<close>). In them a turn, the
  start of a terminal job and the exchanges of a terminal's worker act in pieces, with any other steps
  in between. Every other request and a disconnect is one step, although \<open>create\<close>, \<open>switch\<close>, \<open>detach\<close>,
  \<open>close\<close> and \<open>update\<close> take the daemon's locks several times in the source: what others do between these
  is not covered.

  \<^bold>\<open>Fuel\<close>

  The agent loop recurses through subagents and so takes fuel. \<open>Suc (tl_provider_requests limits)\<close> is
  enough for every turn: each round of the loop and each subagent charges at least one provider
  request, and \<open>turn_ends_within_budget\<close> shows that the loop then returns. No other definition needs fuel:
  the remaining loops are total functions with their measure or partial functions shown to return.

  \<^bold>\<open>Not modelled\<close>

  Unit tests; the HTTP side of the providers (\<^verbatim>\<open>xshell-adapters\<close>), which is the parameter \<open>env_chat\<close>; the
  command line and its configuration (\<^verbatim>\<open>xshell-cli\<close>), terminal emulation and views (\<^verbatim>\<open>xshell-pty\<close>,
  \<^verbatim>\<open>xshell-view\<close>, \<^verbatim>\<open>xshell-session/src/view.rs\<close>, \<^verbatim>\<open>completion.rs\<close>), the client side of the session
  protocol (\<^verbatim>\<open>client.rs\<close>), the lines, sockets, start-up and service commands of \<^verbatim>\<open>bin/xshelld.rs\<close>, service files
  (\<^verbatim>\<open>xshell-platform\<close>) and release manifests (\<^verbatim>\<open>xshell-release\<close>): input and output around the parts
  above. Also the resolution of tools against a host (\<^verbatim>\<open>xshell-plan/src/resolve.rs\<close>) and the rendering of
  flows as graphs (\<^verbatim>\<open>dot.rs\<close>).
\<close>

end
